(* ===== verification/Laps_Prelude.thy ===== *)
theory Laps_Prelude
  imports Main "HOL-Library.Word" "HOL-Library.Product_Lexorder" "HOL-Library.List_Lexorder"
begin

text \<open>
  Shared vocabulary of the development.

  \<^item> machine integers of the relay (\<open>uint8_t\<close> .. \<open>uint64_t\<close>) as words;
  \<^item> \<open>cpp_error\<close>: the ways a C++ call of the relay can fail.  Undefined behaviour (a read past
    the end of a span, a null \<open>shared_ptr\<close>, a past-the-end iterator, a second lock of a
    non-recursive mutex) and the \<open>std::exception\<close>s are different values, because a
    \<open>catch (const std::exception&)\<close> stops only the latter;
  \<^item> \<open>andthen\<close>, \<open>foreach\<close>, \<open>catch_std\<close>: sequencing of steps that return the state they
    leave behind next to their result, so that what a handler changed before it threw is kept;
  \<^item> \<open>std::map\<close> as a list of pairs in strictly ascending key order, with the iteration order
    of the C++ container, and the interface \<open>std_map\<close> it satisfies.
\<close>

section \<open>Machine integers\<close>

type_synonym u8 = "8 word"
type_synonym u16 = "16 word"
type_synonym u32 = "32 word"
type_synonym u64 = "64 word"
type_synonym bytes = "u8 list"

named_theorems codec_simps \<open>length and decoding facts of the wire encoders\<close>
named_theorems map_laws \<open>lookup, size and order facts of the container model\<close>
named_theorems step_simps \<open>sequencing facts for state and result\<close>

section \<open>Failures and results\<close>

datatype cpp_error =
    Out_Of_Bounds         \<comment> \<open>undefined: access outside a span, vector or freed buffer\<close>
  | Null_Deref            \<comment> \<open>undefined: null \<open>shared_ptr\<close> or empty \<open>optional\<close> dereferenced\<close>
  | Bad_Iterator          \<comment> \<open>undefined: \<open>end()\<close> dereferenced\<close>
  | Self_Deadlock         \<comment> \<open>undefined: \<open>std::mutex\<close> locked twice by one thread\<close>
  | Std_Out_Of_Range      \<comment> \<open>\<open>std::out_of_range\<close>\<close>
  | Std_Invalid_Argument  \<comment> \<open>\<open>std::invalid_argument\<close>\<close>
  | Std_Runtime_Error     \<comment> \<open>\<open>std::runtime_error\<close>\<close>
  | Std_Bad_Optional      \<comment> \<open>\<open>std::bad_optional_access\<close>\<close>
  | Std_Bad_Any_Cast      \<comment> \<open>\<open>std::bad_any_cast\<close>\<close>

type_synonym 'a res = "cpp_error + 'a"

text \<open>Which failures a \<open>catch (const std::exception&)\<close> handler stops.\<close>

fun is_exception :: "cpp_error \<Rightarrow> bool" where
  "is_exception Std_Out_Of_Range = True"
| "is_exception Std_Invalid_Argument = True"
| "is_exception Std_Runtime_Error = True"
| "is_exception Std_Bad_Optional = True"
| "is_exception Std_Bad_Any_Cast = True"
| "is_exception _ = False"

definition res_bind :: "'a res \<Rightarrow> ('a \<Rightarrow> 'b res) \<Rightarrow> 'b res" where
  "res_bind m f = (case m of Inl e \<Rightarrow> Inl e | Inr x \<Rightarrow> f x)"

lemma res_bind_simps [simp, step_simps]:
  "res_bind (Inl e) f = Inl e"
  "res_bind (Inr x) f = f x"
  by (simp_all add: res_bind_def)

lemma res_bind_Inr_iff: "res_bind m f = Inr y \<longleftrightarrow> (\<exists>x. m = Inr x \<and> f x = Inr y)"
  by (cases m) auto

lemma res_bind_assoc: "res_bind (res_bind m f) g = res_bind m (\<lambda>x. res_bind (f x) g)"
  by (cases m) auto

text \<open>A step: the state it leaves and its result.\<close>

definition andthen :: "'s \<times> 'a res \<Rightarrow> ('a \<Rightarrow> 's \<Rightarrow> 's \<times> 'b res) \<Rightarrow> 's \<times> 'b res" where
  "andthen r f = (case snd r of Inl e \<Rightarrow> (fst r, Inl e) | Inr x \<Rightarrow> f x (fst r))"

lemma andthen_simps [simp, step_simps]:
  "andthen (s, Inl e) f = (s, Inl e)"
  "andthen (s, Inr x) f = f x s"
  by (simp_all add: andthen_def)

text \<open>A \<open>for\<close> loop whose body may fail: the first failure leaves the loop.\<close>

fun foreach :: "('a \<Rightarrow> 's \<Rightarrow> 's \<times> unit res) \<Rightarrow> 'a list \<Rightarrow> 's \<Rightarrow> 's \<times> unit res" where
  "foreach f [] s = (s, Inr ())"
| "foreach f (x # xs) s = andthen (f x s) (\<lambda>_. foreach f xs)"

lemma foreach_append: "foreach f (xs @ ys) s = andthen (foreach f xs s) (\<lambda>_. foreach f ys)"
proof (induction xs arbitrary: s)
  case (Cons x xs)
  then show ?case by (cases "f x s"; cases "snd (f x s)") auto
qed simp

text \<open>The invariant rule of the loop: a body that keeps \<open>P\<close> and does not fail under it.\<close>

lemma foreach_inv:
  assumes "P s" and "\<And>x s. x \<in> set xs \<Longrightarrow> P s \<Longrightarrow> snd (f x s) = Inr () \<and> P (fst (f x s))"
  shows "snd (foreach f xs s) = Inr () \<and> P (fst (foreach f xs s))"
  using assms
proof (induction xs arbitrary: s)
  case (Cons x xs)
  obtain s' where s': "f x s = (s', Inr ())" "P s'"
    using Cons.prems by (metis list.set_intros(1) prod.collapse)
  then show ?case using Cons by simp
qed simp

text \<open>A relation between the loop's start and each later state, also of a loop that fails on the way.\<close>

lemma foreach_rel:
  assumes refl: "\<And>s. R s s" and trans: "\<And>a b c. R a b \<Longrightarrow> R b c \<Longrightarrow> R a c"
    and body: "\<And>x s'. x \<in> set xs \<Longrightarrow> R s s' \<Longrightarrow> R s' (fst (f x s')) \<and> (\<forall>e. snd (f x s') = Inl e \<longrightarrow> E e)"
  shows "R s (fst (foreach f xs s)) \<and> (\<forall>e. snd (foreach f xs s) = Inl e \<longrightarrow> E e)"
  using body
proof (induction xs arbitrary: s)
  case (Cons x xs)
  obtain s1 r1 where f: "f x s = (s1, r1)" by (cases "f x s")
  have s1: "R s s1" "\<forall>e. r1 = Inl e \<longrightarrow> E e" using Cons.prems [of x s] refl f by simp_all
  show ?case
  proof (cases r1)
    case (Inr u)
    have "R s1 (fst (foreach f xs s1)) \<and> (\<forall>e. snd (foreach f xs s1) = Inl e \<longrightarrow> E e)"
    proof (rule Cons.IH)
      show "R s' (fst (f y s')) \<and> (\<forall>e. snd (f y s') = Inl e \<longrightarrow> E e)" if "y \<in> set xs" "R s1 s'" for y s'
        using that by (intro Cons.prems trans [OF s1(1)]) simp_all
    qed
    then show ?thesis using f Inr trans [OF s1(1)] by simp
  qed (use f s1 in simp)
qed (simp add: refl)

text \<open>A loop whose body cannot fail.\<close>

lemma foreach_pure:
  assumes "\<And>x s. f x s = (g x s, Inr ())"
  shows "foreach f xs s = (fold g xs s, Inr ())"
  using assms by (induction xs arbitrary: s) auto

definition catch_std :: "'s \<times> unit res \<Rightarrow> 's \<times> unit res" where
  "catch_std r = (case snd r of
      Inl e \<Rightarrow> if is_exception e then (fst r, Inr ()) else r
    | Inr _ \<Rightarrow> r)"

lemma catch_std_simps [simp, step_simps]:
  "catch_std (s, Inr ()) = (s, Inr ())"
  "is_exception e \<Longrightarrow> catch_std (s, Inl e) = (s, Inr ())"
  "\<not> is_exception e \<Longrightarrow> catch_std (s, Inl e) = (s, Inl e)"
  by (simp_all add: catch_std_def)

lemma fst_catch_std [simp]: "fst (catch_std r) = fst r"
  by (cases r) (auto simp: catch_std_def split: sum.splits)

section \<open>The interface of an ordered map\<close>

text \<open>
  What the relay relies on of \<open>std::map\<close> (and, for lookups, of \<open>std::unordered_map\<close>):
  \<open>find\<close> after \<open>operator[]\<close>/\<open>insert_or_assign\<close> and after \<open>erase\<close>, and that a traversal
  visits each key once, in ascending order.
\<close>

locale std_map =
  fixes empty :: "'m"
    and find :: "'m \<Rightarrow> 'k::linorder \<Rightarrow> 'v option"
    and put :: "'k \<Rightarrow> 'v \<Rightarrow> 'm \<Rightarrow> 'm"
    and erase :: "'k \<Rightarrow> 'm \<Rightarrow> 'm"
    and entries :: "'m \<Rightarrow> ('k \<times> 'v) list"
    and wf :: "'m \<Rightarrow> bool"
  assumes find_empty: "find empty k = None"
    and find_put: "find (put k v m) k' = (if k' = k then Some v else find m k')"
    and find_erase: "find (erase k m) k' = (if k' = k then None else find m k')"
    and wf_empty: "wf empty"
    and wf_put: "wf m \<Longrightarrow> wf (put k v m)"
    and wf_erase: "wf m \<Longrightarrow> wf (erase k m)"
    and entries_sorted: "wf m \<Longrightarrow> sorted_wrt (<) (map fst (entries m))"
    and entries_find: "wf m \<Longrightarrow> (k, v) \<in> set (entries m) \<longleftrightarrow> find m k = Some v"
begin

lemma entries_distinct: "wf m \<Longrightarrow> distinct (map fst (entries m))"
  using entries_sorted strict_sorted_iff by blast

lemma entries_eq_map_of: "wf m \<Longrightarrow> map_of (entries m) k = find m k"
proof (cases "find m k")
  case None
  assume "wf m"
  with None have "k \<notin> fst ` set (entries m)" by (auto simp: entries_find)
  with None show ?thesis by (simp add: map_of_eq_None_iff)
next
  case (Some v)
  assume "wf m"
  with Some show ?thesis by (simp add: entries_distinct entries_find)
qed

lemma entries_unique:
  assumes "wf m" "wf m'" "\<And>k. find m k = find m' k"
  shows "entries m = entries m'"
proof -
  have "set (entries m) = set (entries m')"
    using assms entries_find by (auto simp: set_eq_iff split_paired_all)
  moreover have "distinct (entries m)" "distinct (entries m')"
    using assms(1,2) entries_distinct distinct_map by blast+
  moreover have "inj_on fst (set (entries m))"
    using assms(1) entries_distinct distinct_map by blast
  moreover have "sorted (map fst (entries m))" "sorted (map fst (entries m'))"
    using assms(1,2) entries_sorted strict_sorted_iff by blast+
  ultimately show ?thesis
    by (intro map_sorted_distinct_set_unique [of fst]) (simp_all add: distinct_map)
qed

lemma erase_put_entries: "wf m \<Longrightarrow> entries (erase k (put k v m)) = entries (erase k m)"
  by (rule entries_unique) (simp_all add: wf_put wf_erase find_put find_erase)

end

section \<open>Sorted association lists\<close>

type_synonym ('k, 'v) omap = "('k \<times> 'v) list"

text \<open>\<open>m[k] = v\<close>, also \<open>emplace\<close> of an absent key.\<close>

fun mput :: "'k::linorder \<Rightarrow> 'v \<Rightarrow> ('k, 'v) omap \<Rightarrow> ('k, 'v) omap" where
  "mput k v [] = [(k, v)]"
| "mput k v (p # m) =
     (if fst p < k then p # mput k v m
      else if fst p = k then (k, v) # m
      else (k, v) # p # m)"

definition mdel :: "'k \<Rightarrow> ('k, 'v) omap \<Rightarrow> ('k, 'v) omap" where
  "mdel k m = filter (\<lambda>p. fst p \<noteq> k) m"

text \<open>\<open>try_emplace\<close>: whether the key was absent comes back as the second component.\<close>

definition mtry :: "'k::linorder \<Rightarrow> 'v \<Rightarrow> ('k, 'v) omap \<Rightarrow> ('k, 'v) omap \<times> bool" where
  "mtry k v m = (case map_of m k of None \<Rightarrow> (mput k v m, True) | Some _ \<Rightarrow> (m, False))"

text \<open>\<open>m[k]\<close> read as an rvalue: a missing key is first given the default value.\<close>

definition mat :: "'v \<Rightarrow> ('k, 'v) omap \<Rightarrow> 'k \<Rightarrow> 'v" where
  "mat d m k = (case map_of m k of None \<Rightarrow> d | Some v \<Rightarrow> v)"

definition msorted :: "('k::linorder, 'v) omap \<Rightarrow> bool" where
  "msorted m \<longleftrightarrow> sorted_wrt (<) (map fst m)"

lemma map_of_mput [simp, map_laws]: "map_of (mput k v m) = (map_of m)(k \<mapsto> v)"
  by (induction m) auto

lemma map_of_mdel [simp, map_laws]: "map_of (mdel k m) = (map_of m)(k := None)"
  by (induction m) (auto simp: mdel_def fun_eq_iff)

lemma fst_mput: "fst ` set (mput k v m) = insert k (fst ` set m)"
  by (induction m) auto

lemma msorted_Nil [simp, map_laws]: "msorted []"
  by (simp add: msorted_def)

lemma msorted_Cons: "msorted (p # m) \<longleftrightarrow> (\<forall>q \<in> set m. fst p < fst q) \<and> msorted m"
  by (simp add: msorted_def)

lemma msorted_mput [simp, map_laws]: "msorted m \<Longrightarrow> msorted (mput k v m)"
proof (induction m)
  case (Cons p m)
  have bound: "\<forall>q \<in> set (mput k v m). fst p < fst q" if "fst p < k"
  proof
    fix q
    assume "q \<in> set (mput k v m)"
    then have "fst q \<in> fst ` set (mput k v m)" by (rule imageI)
    then have "fst q \<in> insert k (fst ` set m)" by (simp only: fst_mput)
    then show "fst p < fst q" using that Cons.prems by (auto simp: msorted_Cons)
  qed
  consider "fst p < k" | "fst p = k" | "k < fst p" by fastforce
  then show ?case
  proof cases
    case 1
    with Cons bound show ?thesis by (simp add: msorted_Cons)
  next
    case 2
    with Cons.prems show ?thesis by (simp add: msorted_Cons)
  next
    case 3
    with Cons.prems have "\<forall>q \<in> set m. k < fst q" by (auto simp: msorted_Cons intro: less_trans)
    with 3 Cons.prems show ?thesis by (auto simp: msorted_Cons)
  qed
qed (simp add: msorted_Cons)

lemma msorted_filter [simp, map_laws]: "msorted m \<Longrightarrow> msorted (filter P m)"
  by (induction m) (auto simp: msorted_Cons)

lemma msorted_mdel [simp, map_laws]: "msorted m \<Longrightarrow> msorted (mdel k m)"
  by (simp add: mdel_def)

lemma msorted_distinct: "msorted m \<Longrightarrow> distinct (map fst m)"
  unfolding msorted_def using strict_sorted_iff by blast

lemma msorted_map_of: "msorted m \<Longrightarrow> (k, v) \<in> set m \<longleftrightarrow> map_of m k = Some v"
  by (simp add: msorted_distinct)

interpretation om: std_map "[]" map_of mput mdel "\<lambda>m. m" msorted
  by unfold_locales (simp_all add: msorted_map_of, simp add: msorted_def)

lemma msorted_eqI: "msorted m \<Longrightarrow> msorted m' \<Longrightarrow> map_of m = map_of m' \<Longrightarrow> m = m'"
  by (rule om.entries_unique) simp_all

lemma set_mdel [simp]: "set (mdel k m) = {p \<in> set m. fst p \<noteq> k}"
  by (auto simp: mdel_def)

lemma set_mput: "msorted m \<Longrightarrow> set (mput k v m) = insert (k, v) {p \<in> set m. fst p \<noteq> k}"
  by (auto simp: om.entries_find split_paired_all split: if_splits)

lemma mdel_absent: "map_of m k = None \<Longrightarrow> mdel k m = m"
  by (induction m) (auto simp: mdel_def split: if_splits)

lemma mput_same: "msorted m \<Longrightarrow> map_of m k = Some v \<Longrightarrow> mput k v m = m"
  by (rule msorted_eqI) auto

lemma mput_mput [simp]: "msorted m \<Longrightarrow> mput k v (mput k u m) = mput k v m"
  by (rule om.entries_unique) simp_all

lemma mdel_mput [simp]: "msorted m \<Longrightarrow> mdel k (mput k v m) = mdel k m"
  by (rule om.erase_put_entries)

lemma fst_mtry: "fst (mtry k v m) = (if map_of m k = None then mput k v m else m)"
  by (simp add: mtry_def split: option.splits)

lemma snd_mtry [simp]: "snd (mtry k v m) \<longleftrightarrow> map_of m k = None"
  by (simp add: mtry_def split: option.splits)

lemma msorted_mtry [simp, map_laws]: "msorted m \<Longrightarrow> msorted (fst (mtry k v m))"
  by (simp add: fst_mtry)

lemma map_of_mtry: "map_of (fst (mtry k v m)) k' =
    (if k' = k then Some (case map_of m k of None \<Rightarrow> v | Some w \<Rightarrow> w) else map_of m k')"
  by (auto simp: fst_mtry split: option.splits)

text \<open>
  A traversal that rewrites the value of each entry or erases the entry
  (\<open>it = m.erase(it)\<close> or \<open>++it\<close>).
\<close>

definition mupdate :: "('k \<Rightarrow> 'v \<Rightarrow> 'v option) \<Rightarrow> ('k, 'v) omap \<Rightarrow> ('k, 'v) omap" where
  "mupdate f m = concat (map (\<lambda>(k, v). case f k v of None \<Rightarrow> [] | Some v' \<Rightarrow> [(k, v')]) m)"

lemma mupdate_Nil [simp]: "mupdate f [] = []"
  by (simp add: mupdate_def)

lemma mupdate_Cons: "mupdate f ((k, v) # m) = (case f k v of None \<Rightarrow> mupdate f m | Some v' \<Rightarrow> (k, v') # mupdate f m)"
  by (simp add: mupdate_def split: option.split)

lemma mupdate_append: "mupdate f (m @ m') = mupdate f m @ mupdate f m'"
  by (simp add: mupdate_def)

lemma fst_mupdate: "fst ` set (mupdate f m) \<subseteq> fst ` set m"
proof (induction m)
  case (Cons p m)
  then show ?case by (cases p) (auto simp: mupdate_Cons split: option.splits)
qed simp

lemma msorted_mupdate [simp, map_laws]: "msorted m \<Longrightarrow> msorted (mupdate f m)"
proof (induction m)
  case (Cons p m)
  obtain k v where p: "p = (k, v)" by (cases p)
  have "\<forall>q \<in> set (mupdate f m). k < fst q"
  proof
    fix q
    assume "q \<in> set (mupdate f m)"
    then have "fst q \<in> fst ` set m" using fst_mupdate [of f m] by blast
    then show "k < fst q" using Cons.prems p by (auto simp: msorted_Cons)
  qed
  with Cons show ?case by (simp add: p mupdate_Cons msorted_Cons split: option.split)
qed simp

lemma map_of_mupdate: "distinct (map fst m) \<Longrightarrow>
    map_of (mupdate f m) k = (case map_of m k of None \<Rightarrow> None | Some v \<Rightarrow> f k v)"
proof (induction m)
  case (Cons p m)
  obtain k' v where p: "p = (k', v)" by (cases p)
  have "map_of (mupdate f m) k' = None"
    using Cons.prems fst_mupdate [of f m] by (auto simp: p map_of_eq_None_iff)
  with Cons show ?case by (auto simp: p mupdate_Cons split: option.splits)
qed simp

lemma mupdate_id: "(\<And>k v. (k, v) \<in> set m \<Longrightarrow> f k v = Some v) \<Longrightarrow> mupdate f m = m"
proof (induction m)
  case (Cons p m)
  then show ?case by (cases p) (simp add: mupdate_Cons)
qed simp

text \<open>
  The loop \<open>for (it = m.lower_bound({x, 0}); it != m.end(); ++it) if (it->first.first != x) break;\<close>
  over a map keyed by pairs: on a sorted map it visits the entries whose first key is \<open>x\<close>.
\<close>

definition key_range :: "'a::linorder \<Rightarrow> ('a \<times> 'b::len word, 'v) omap \<Rightarrow> ('a \<times> 'b word, 'v) omap" where
  "key_range x m = takeWhile (\<lambda>p. fst (fst p) = x) (dropWhile (\<lambda>p. fst p < (x, 0)) m)"

lemma takeWhile_sorted_key:
  "msorted m \<Longrightarrow> \<forall>p \<in> set m. x \<le> fst (fst p) \<Longrightarrow>
   takeWhile (\<lambda>p. fst (fst p) = x) m = filter (\<lambda>p. fst (fst p) = x) m"
  for m :: "('a::linorder \<times> 'b::linorder, 'v) omap"
proof (induction m)
  case (Cons p m)
  show ?case
  proof (cases "fst (fst p) = x")
    case False
    with Cons.prems have "x < fst (fst p)" by auto
    moreover have "\<forall>q \<in> set m. fst (fst p) \<le> fst (fst q)"
      using Cons.prems by (auto simp: msorted_Cons less_prod_def dest: less_imp_le)
    ultimately have "\<forall>q \<in> set m. fst (fst q) \<noteq> x" by fastforce
    with False show ?thesis by (simp add: filter_empty_conv)
  qed (use Cons in \<open>simp add: msorted_Cons\<close>)
qed simp

lemma key_range_eq: "msorted m \<Longrightarrow> key_range x m = filter (\<lambda>p. fst (fst p) = x) m"
proof (induction m)
  case Nil
  then show ?case by (simp add: key_range_def)
next
  case (Cons p m)
  show ?case
  proof (cases "fst p < (x, 0)")
    case True
    then have "fst (fst p) \<noteq> x" by (auto simp: less_prod_def)
    with True Cons show ?thesis by (simp add: key_range_def msorted_Cons)
  next
    case False
    then have "x \<le> fst (fst p)" by (auto simp: less_prod_def not_less)
    moreover have "\<forall>q \<in> set m. fst (fst p) \<le> fst (fst q)"
      using Cons.prems by (auto simp: msorted_Cons less_prod_def dest: less_imp_le)
    ultimately have "\<forall>q \<in> set (p # m). x \<le> fst (fst q)" by (auto intro: order_trans)
    with False Cons.prems show ?thesis
      by (simp add: key_range_def takeWhile_sorted_key del: filter.simps takeWhile.simps)
  qed
qed

section \<open>Ordered sets\<close>

text \<open>
  \<open>std::set\<close> is a strictly ascending list; \<open>emplace\<close> is the library's \<open>insort_insert\<close>,
  \<open>erase\<close> is \<open>sdel\<close>.
\<close>

definition sdel :: "'a \<Rightarrow> 'a list \<Rightarrow> 'a list" where
  "sdel x xs = filter (\<lambda>y. y \<noteq> x) xs"

definition ssorted :: "'a::linorder list \<Rightarrow> bool" where
  "ssorted xs \<longleftrightarrow> sorted_wrt (<) xs"

lemma ssorted_Nil [simp]: "ssorted []"
  by (simp add: ssorted_def)

lemma set_sdel [simp]: "set (sdel x xs) = set xs - {x}"
  by (auto simp: sdel_def)

lemma ssorted_insert [simp]: "ssorted xs \<Longrightarrow> ssorted (insort_insert x xs)"
  by (simp add: ssorted_def strict_sorted_iff sorted_insort_insert distinct_insort_insert)

lemma ssorted_sdel [simp]: "ssorted xs \<Longrightarrow> ssorted (sdel x xs)"
  by (simp add: ssorted_def sdel_def sorted_wrt_filter)

lemma ssorted_unique: "ssorted xs \<Longrightarrow> ssorted ys \<Longrightarrow> set xs = set ys \<Longrightarrow> xs = ys"
  by (simp add: ssorted_def strict_sorted_equal)

lemma insort_insert_member: "x \<in> set xs \<Longrightarrow> insort_insert x xs = xs"
  by (simp add: insort_insert_key_def)

lemma fold_insert_ssorted: "ssorted ys \<Longrightarrow>
    ssorted (fold insort_insert xs ys) \<and> set (fold insort_insert xs ys) = set xs \<union> set ys"
  by (induction xs arbitrary: ys) (auto simp: set_insort_insert)

lemma fold_insert_id: "ssorted xs \<Longrightarrow> fold insort_insert xs [] = xs"
  using fold_insert_ssorted [of "[]" xs] by (intro ssorted_unique) auto

end
