(* ===== verification/Wire_Codec.thy ===== *)
theory Wire_Codec
  imports Laps_Prelude
begin

text \<open>
  The wire primitives of the peering protocol: \<open>src/src/peering/common.h\<close> and
  \<open>src/src/peering/errors.h\<close>, and the idioms every message file repeats
  (\<open>data.insert(data.end(), b.rbegin(), b.rend())\<close>, \<open>ValueOf<T>({it, it + n}); it += n\<close>,
  the seven byte common header).

  An integer in memory is its byte image, \<open>le_bytes\<close> on a little-endian host and the reverse
  on a big-endian one; the host's byte order is the argument \<open>be\<close> (\<open>kIsBigEndian\<close>).
  The message encoders below are the ones of a little-endian host, which is what the relay's
  images are built for.  \<open>quicr::UintVar\<close> belongs to libquicr and is the argument \<open>uv\<close>; its
  contract is the locale \<open>uintvar_contract\<close>.
\<close>

section \<open>Constants and enumerations\<close>

definition kProtocolVersion :: u8 where "kProtocolVersion = 1"
definition kCommonHeadersSize :: u16 where "kCommonHeadersSize = 7"

text \<open>
  Enumerations that are read from the wire with a \<open>static_cast\<close> hold any value of their
  underlying type, so they stay words with named values.
\<close>

type_synonym peer_mode = u8
definition kIbp :: peer_mode where "kIbp = 0"
definition kData :: peer_mode where "kData = 1"
definition kBoth :: peer_mode where "kBoth = 2"

type_synonym protocol_error = u16
definition kNoError :: protocol_error where "kNoError = 0"
definition kConnectError :: protocol_error where "kConnectError = 1"
definition kConnectNotAuthorized :: protocol_error where "kConnectNotAuthorized = 2"

datatype msg_type =
    kConnect | kConnectResponse | kDataObject
  | kNodeInfoAdvertise | kNodeInfoWithdrawn
  | kSubscribeInfoAdvertised | kSubscribeInfoWithdrawn
  | kAnnounceInfoAdvertised | kAnnounceInfoWithdrawn
  | kSubscribeNodeSetAdvertised | kSubscribeNodeSetWithdrawn

fun msg_code :: "msg_type \<Rightarrow> u16" where
  "msg_code kConnect = 1"
| "msg_code kConnectResponse = 2"
| "msg_code kDataObject = 3"
| "msg_code kNodeInfoAdvertise = 4"
| "msg_code kNodeInfoWithdrawn = 5"
| "msg_code kSubscribeInfoAdvertised = 6"
| "msg_code kSubscribeInfoWithdrawn = 7"
| "msg_code kAnnounceInfoAdvertised = 8"
| "msg_code kAnnounceInfoWithdrawn = 9"
| "msg_code kSubscribeNodeSetAdvertised = 10"
| "msg_code kSubscribeNodeSetWithdrawn = 11"

section \<open>Integers as bytes\<close>

fun le_bytes :: "nat \<Rightarrow> nat \<Rightarrow> bytes" where
  "le_bytes 0 x = []"
| "le_bytes (Suc n) x = word_of_nat x # le_bytes n (x div 256)"

fun le_val :: "bytes \<Rightarrow> nat" where
  "le_val [] = 0"
| "le_val (b # bs) = unat b + 256 * le_val bs"

lemma length_le_bytes [simp, codec_simps]: "length (le_bytes n x) = n"
  by (induction n arbitrary: x) auto

lemma le_val_le_bytes: "le_val (le_bytes n x) = x mod 256 ^ n"
proof (induction n arbitrary: x)
  case (Suc n)
  have "unat (word_of_nat x :: u8) = x mod 256" by (simp add: unat_of_nat)
  then show ?case using Suc by (simp add: mod_mult2_eq)
qed simp

lemma unat_u8: "unat (b :: u8) < 256"
proof -
  have "unat b < 2 ^ LENGTH(8)" by (rule unsigned_less)
  then show ?thesis by simp
qed

lemma le_val_bound: "le_val bs < 256 ^ length bs"
proof (induction bs)
  case (Cons b bs)
  have "unat b < 256" by (rule unat_u8)
  with Cons show ?case by simp
qed simp

lemma le_bytes_le_val: "le_bytes (length bs) (le_val bs) = bs"
proof (induction bs)
  case (Cons b bs)
  have b: "unat b < 256" by (rule unat_u8)
  have z: "(256 :: u8) = 0" by simp
  have "word_of_nat (unat b + 256 * le_val bs) = b + (256 :: u8) * word_of_nat (le_val bs)" by simp
  then have "word_of_nat (unat b + 256 * le_val bs) = b" by (simp only: z mult_zero_left add_0_right)
  moreover have "(unat b + 256 * le_val bs) div 256 = le_val bs" using b by simp
  ultimately show ?case using Cons by simp
qed simp

text \<open>The bytes of an object in memory, and the value of a memory image.\<close>

definition mem_image :: "bool \<Rightarrow> nat \<Rightarrow> nat \<Rightarrow> bytes" where
  "mem_image be n x = (if be then rev (le_bytes n x) else le_bytes n x)"

definition mem_load :: "bool \<Rightarrow> bytes \<Rightarrow> nat" where
  "mem_load be bs = le_val (if be then rev bs else bs)"

definition BytesOf :: "bool \<Rightarrow> 'a::len word \<Rightarrow> bytes" where
  "BytesOf be w = mem_image be (LENGTH('a) div 8) (unat w)"

text \<open>
  \<open>ValueOf\<close> copies \<open>sizeof(T)\<close> bytes of the span into the object, reversed on a
  little-endian host when the span is in network order (\<open>host_order\<close> has the default \<open>true\<close>).
\<close>

definition ValueOf :: "bool \<Rightarrow> bool \<Rightarrow> bytes \<Rightarrow> 'a::len word res" where
  "ValueOf be host_order val =
     (let n = LENGTH('a) div 8 in
      if length val < n then Inl Out_Of_Bounds
      else let mem = (if be \<or> \<not> host_order
                      then map (\<lambda>i. val ! i) [0..<n]
                      else map (\<lambda>i. val ! (n - 1 - i)) [0..<n])
           in Inr (word_of_nat (mem_load be mem)))"

lemma map_nth_take: "n \<le> length xs \<Longrightarrow> map (\<lambda>i. xs ! i) [0..<n] = take n xs"
  by (rule nth_equalityI) auto

lemma map_nth_rev_take: "n \<le> length xs \<Longrightarrow> map (\<lambda>i. xs ! (n - 1 - i)) [0..<n] = rev (take n xs)"
  by (rule nth_equalityI) (auto simp: rev_nth)

lemma map_nth_rev_take': "n \<le> length xs \<Longrightarrow> map (\<lambda>i. xs ! (n - Suc i)) [0..<n] = rev (take n xs)"
  using map_nth_rev_take [of n xs] by simp

lemma ValueOf_eq:
  "ValueOf be host_order val =
     (if length val < LENGTH('a) div 8 then Inl Out_Of_Bounds
      else Inr (word_of_nat (le_val ((if be \<or> host_order then rev else id)
             (take (LENGTH('a) div 8) val)))) :: 'a::len word res)"
  by (simp add: ValueOf_def mem_load_def Let_def map_nth_take map_nth_rev_take')

lemma length_BytesOf [simp, codec_simps]: "length (BytesOf be (w::'a::len word)) = LENGTH('a) div 8"
  by (simp add: BytesOf_def mem_image_def)

lemma int_roundtrip:
  assumes "8 dvd LENGTH('a::len)"
  shows "ValueOf False True (rev (BytesOf False w)) = Inr (w :: 'a word)"
proof -
  have "(256::nat) ^ (LENGTH('a) div 8) = 2 ^ (8 * (LENGTH('a) div 8))"
    by (simp add: power_mult)
  also have "\<dots> = 2 ^ LENGTH('a)" using assms by simp
  finally have "unat w mod 256 ^ (LENGTH('a) div 8) = unat w" by simp
  then show ?thesis
    by (simp add: ValueOf_eq BytesOf_def mem_image_def le_val_le_bytes)
qed

text \<open>On a little-endian host, reading back the bytes an encoder appended (the object's
  bytes from last to first) with \<open>ValueOf\<close> gives the integer again, for every integer type
  whose width is a whole number of bytes.\<close>

theorem wire_int_roundtrip:
  assumes "8 dvd LENGTH('a::len)"
  shows "ValueOf False True (rev (BytesOf False w)) = Inr (w :: 'a word)"
  using assms by (rule int_roundtrip)

theorem wire_int_roundtrip_witness:
  "ValueOf False True (rev (BytesOf False (258 :: u16))) = Inr (258 :: u16)"
  by (rule wire_int_roundtrip) simp

text \<open>On a big-endian host the same pair of functions swaps the bytes of every integer.\<close>

lemma wire_int_big_endian_swaps: "ValueOf True True (rev (BytesOf True (258 :: u16))) = Inr (513 :: u16)"
  by code_simp

section \<open>Appending and reading\<close>

text \<open>\<open>auto b = BytesOf(w); data.insert(data.end(), b.rbegin(), b.rend())\<close>\<close>

definition put_int :: "'a::len word \<Rightarrow> bytes" where
  "put_int w = rev (BytesOf False w)"

text \<open>\<open>v = ValueOf<T>({ it, it + sizeof(T) }); it += sizeof(T);\<close> and \<open>v = *it++;\<close>: a reader
  returns the value and the rest of the span.\<close>

definition rd_int :: "bytes \<Rightarrow> ('a::len word \<times> bytes) res" where
  "rd_int bs = res_bind (ValueOf False True bs) (\<lambda>v. Inr (v, drop (LENGTH('a) div 8) bs))"

definition rd_byte :: "bytes \<Rightarrow> (u8 \<times> bytes) res" where
  "rd_byte bs = (case bs of [] \<Rightarrow> Inl Out_Of_Bounds | b # bs' \<Rightarrow> Inr (b, bs'))"

text \<open>\<open>x.assign(it, it + n); it += n;\<close>\<close>

definition rd_bytes :: "nat \<Rightarrow> bytes \<Rightarrow> (bytes \<times> bytes) res" where
  "rd_bytes n bs = (if length bs < n then Inl Out_Of_Bounds else Inr (take n bs, drop n bs))"

fun rd_many :: "(bytes \<Rightarrow> ('a \<times> bytes) res) \<Rightarrow> nat \<Rightarrow> bytes \<Rightarrow> ('a list \<times> bytes) res" where
  "rd_many rd 0 bs = Inr ([], bs)"
| "rd_many rd (Suc n) bs =
     res_bind (rd bs) (\<lambda>(x, bs'). res_bind (rd_many rd n bs') (\<lambda>(xs, bs''). Inr (x # xs, bs'')))"

lemma length_put_int [simp, codec_simps]: "length (put_int (w::'a::len word)) = LENGTH('a) div 8"
  by (simp add: put_int_def)

text \<open>
  A field codec: an encoder whose output a reader takes off the front of any span.  Its
  lemmas give the list version and injectivity once for every field type.
\<close>

locale field_codec =
  fixes enc :: "'a \<Rightarrow> bytes" and rd :: "bytes \<Rightarrow> ('a \<times> bytes) res" and ok :: "'a \<Rightarrow> bool"
  assumes rd_enc: "ok x \<Longrightarrow> rd (enc x @ rest) = Inr (x, rest)"
begin

lemma rd_enc_end: "ok x \<Longrightarrow> rd (enc x) = Inr (x, [])"
  using rd_enc [of x "[]"] by simp

lemma rd_many_enc: "\<forall>x \<in> set xs. ok x \<Longrightarrow> n = length xs \<Longrightarrow>
    rd_many rd n (concat (map enc xs) @ rest) = Inr (xs, rest)"
  by (induction xs arbitrary: n) (auto simp: rd_enc)

lemma enc_inj: "ok x \<Longrightarrow> ok y \<Longrightarrow> enc x = enc y \<Longrightarrow> x = y"
  using rd_enc_end by (metis Inr_inject fst_conv)

lemma enc_prefix_free: "ok x \<Longrightarrow> ok y \<Longrightarrow> enc x @ r = enc y @ s \<Longrightarrow> x = y \<and> r = s"
  using rd_enc by (metis Inr_inject prod.inject)

end

lemma rd_int_put_int:
  assumes "8 dvd LENGTH('a::len)"
  shows "rd_int (put_int w @ rest) = Inr (w :: 'a word, rest)"
proof -
  have "ValueOf False True (put_int w @ rest) = (ValueOf False True (put_int w) :: 'a word res)"
    by (simp add: ValueOf_eq)
  also have "\<dots> = Inr w" unfolding put_int_def by (rule int_roundtrip) (rule assms)
  finally show ?thesis by (simp add: rd_int_def)
qed

interpretation c8: field_codec "\<lambda>b :: u8. [b]" rd_byte "\<lambda>_. True"
  by unfold_locales (simp add: rd_byte_def)

interpretation c16: field_codec "put_int :: u16 \<Rightarrow> bytes" rd_int "\<lambda>_. True"
  by unfold_locales (simp add: rd_int_put_int)

interpretation c32: field_codec "put_int :: u32 \<Rightarrow> bytes" rd_int "\<lambda>_. True"
  by unfold_locales (simp add: rd_int_put_int)

interpretation c64: field_codec "put_int :: u64 \<Rightarrow> bytes" rd_int "\<lambda>_. True"
  by unfold_locales (simp add: rd_int_put_int)

lemma rd_bytes_append [simp, codec_simps]: "rd_bytes (length xs) (xs @ rest) = Inr (xs, rest)"
  by (simp add: rd_bytes_def)

lemma rd_byte_simps [simp, codec_simps]: "rd_byte (b # bs) = Inr (b, bs)" "rd_byte [] = Inl Out_Of_Bounds"
  by (simp_all add: rd_byte_def)

lemmas field_reads [simp, codec_simps] =
  c16.rd_enc [OF TrueI] c32.rd_enc [OF TrueI] c64.rd_enc [OF TrueI]
  c16.rd_enc_end [OF TrueI] c32.rd_enc_end [OF TrueI] c64.rd_enc_end [OF TrueI]

text \<open>A reader succeeds exactly when the span is long enough.\<close>

lemma rd_int_short: "length bs < LENGTH('a::len) div 8 \<Longrightarrow> (rd_int bs :: ('a word \<times> bytes) res) = Inl Out_Of_Bounds"
  by (simp add: rd_int_def ValueOf_eq)

lemma rd_int_ok: "LENGTH('a::len) div 8 \<le> length bs \<Longrightarrow>
    \<exists>v. (rd_int bs :: ('a word \<times> bytes) res) = Inr (v, drop (LENGTH('a) div 8) bs)"
  by (simp add: rd_int_def ValueOf_eq)

section \<open>The common header\<close>

text \<open>\<open>push_back(kProtocolVersion)\<close>, the type and the data length, as every message writes
  them.\<close>

definition common_header :: "msg_type \<Rightarrow> u32 \<Rightarrow> bytes" where
  "common_header t len = kProtocolVersion # put_int (msg_code t) @ put_int len"

lemma length_common_header [simp, codec_simps]: "length (common_header t n) = unat kCommonHeadersSize"
  by (simp add: common_header_def kCommonHeadersSize_def)

section \<open>libquicr's variable length integers\<close>

record uintvar_api =
  uv_bytes :: "u64 \<Rightarrow> bytes"   \<comment> \<open>the bytes of \<open>quicr::UintVar(n)\<close>\<close>
  uv_size :: "u8 \<Rightarrow> nat"       \<comment> \<open>\<open>quicr::UintVar::Size(first byte)\<close>\<close>
  uv_value :: "bytes \<Rightarrow> u64"   \<comment> \<open>\<open>uint64_t(quicr::UintVar(span))\<close>\<close>

text \<open>The documented behaviour (the variable-length integers of RFC 9000, section 16).\<close>

locale uintvar_contract =
  fixes uv :: uintvar_api
  assumes uv_size_bytes: "unat x < 2 ^ 62 \<Longrightarrow>
      uv_bytes uv x \<noteq> [] \<and> uv_size uv (hd (uv_bytes uv x)) = length (uv_bytes uv x)"
    and uv_value_bytes: "unat x < 2 ^ 62 \<Longrightarrow> uv_value uv (uv_bytes uv x) = x"
    and uv_bytes_bound: "length (uv_bytes uv x) \<le> 8"

text \<open>The reader of a length-prefixed field: \<open>UintVar::Size(*it)\<close>, the integer, then the field.\<close>

definition rd_uintvar :: "uintvar_api \<Rightarrow> bytes \<Rightarrow> (u64 \<times> bytes) res" where
  "rd_uintvar uv bs = res_bind (rd_byte bs) (\<lambda>(b, _).
     res_bind (rd_bytes (uv_size uv b) bs) (\<lambda>(vb, rest). Inr (uv_value uv vb, rest)))"

context uintvar_contract
begin

lemma rd_uintvar_bytes:
  assumes "unat x < 2 ^ 62"
  shows "rd_uintvar uv (uv_bytes uv x @ rest) = Inr (x, rest)"
proof -
  obtain b bs where b: "uv_bytes uv x = b # bs"
    using uv_size_bytes [OF assms] by (cases "uv_bytes uv x") auto
  then have "uv_size uv b = length (uv_bytes uv x)" using uv_size_bytes [OF assms] by simp
  moreover have "uv_value uv (uv_bytes uv x) = x" by (rule uv_value_bytes) (rule assms)
  moreover have "rd_byte (uv_bytes uv x @ rest) = Inr (b, bs @ rest)" by (simp add: b)
  ultimately show ?thesis by (simp add: rd_uintvar_def)
qed

end

text \<open>The encoding of RFC 9000 meets the contract.\<close>

definition quic_varint :: uintvar_api where
  "quic_varint = \<lparr>
     uv_bytes = (\<lambda>x. let v = unat x in
       rev (if v < 2 ^ 6 then le_bytes 1 v
            else if v < 2 ^ 14 then le_bytes 2 (v + 2 ^ 14)
            else if v < 2 ^ 30 then le_bytes 4 (v + 2 * 2 ^ 30)
            else le_bytes 8 (v + 3 * 2 ^ 62))),
     uv_size = (\<lambda>b. 2 ^ (unat b div 64)),
     uv_value = (\<lambda>bs. word_of_nat (le_val (rev bs) mod 2 ^ (8 * length bs - 2)))\<rparr>"

lemma last_le_bytes: "last (le_bytes (Suc n) x) = word_of_nat (x div 256 ^ n)"
proof (induction n arbitrary: x)
  case (Suc n)
  have "last (le_bytes (Suc (Suc n)) x) = last (le_bytes (Suc n) (x div 256))" by simp
  also have "\<dots> = word_of_nat (x div 256 ^ Suc n)" by (simp only: Suc div_mult2_eq [symmetric] power_Suc)
  finally show ?case .
qed simp

text \<open>One of the four forms: \<open>n\<close> bytes whose first byte has the two bit prefix \<open>k\<close>.\<close>

lemma varint_form:
  fixes k m v :: nat
  assumes k: "k < 4" and n: "m = 2 ^ k" and v: "v < 2 ^ (8 * m - 2)"
  defines "bs \<equiv> rev (le_bytes m (v + k * 2 ^ (8 * m - 2)))"
  shows "bs \<noteq> [] \<and> 2 ^ (unat (hd bs) div 64) = length bs
    \<and> le_val (rev bs) mod 2 ^ (8 * length bs - 2) = v"
proof -
  have "0 < m" using n by simp
  then obtain m' where m: "m = Suc m'" using gr0_conv_Suc by blast
  have e: "8 * m - 2 = 8 * m' + 6" using m by simp
  have tot: "v + k * 2 ^ (8 * m - 2) < 256 ^ m"
  proof -
    have "v + k * 2 ^ (8 * m - 2) < (k + 1) * 2 ^ (8 * m - 2)" using v by simp
    also have "\<dots> \<le> 4 * 2 ^ (8 * m - 2)" using k by (intro mult_right_mono) auto
    also have "\<dots> = 2 ^ (8 * m)" using e m by (simp add: power_add)
    finally show ?thesis by (simp add: power_mult)
  qed
  have hd: "hd bs = word_of_nat ((v + k * 2 ^ (8 * m - 2)) div 256 ^ m')"
    by (simp add: bs_def m hd_rev del: le_bytes.simps) (simp only: last_le_bytes)
  let ?h = "(v + k * 2 ^ (8 * m - 2)) div 256 ^ m'"
  have "?h < 256" using tot m by (simp add: less_mult_imp_div_less mult.commute)
  then have "unat (hd bs) = ?h" by (simp add: hd unat_of_nat)
  moreover have "?h div 64 = k"
  proof -
    have "?h div 64 = (v + k * 2 ^ (8 * m - 2)) div (256 ^ m' * 64)" by (simp add: div_mult2_eq)
    also have "(256::nat) ^ m' * 64 = 2 ^ (8 * m - 2)" using e by (simp add: power_add power_mult)
    finally show ?thesis using v by simp
  qed
  ultimately have "2 ^ (unat (hd bs) div 64) = length bs" by (simp add: bs_def n)
  moreover have "le_val (rev bs) mod 2 ^ (8 * length bs - 2) = v"
    using tot v by (simp add: bs_def le_val_le_bytes)
  ultimately show ?thesis by (simp add: bs_def m)
qed

lemma varint_cases:
  fixes x :: u64
  assumes "unat x < 2 ^ 62"
  obtains k m where "k < 4" "m = 2 ^ k" "unat x < 2 ^ (8 * m - 2)"
    "uv_bytes quic_varint x = rev (le_bytes m (unat x + k * 2 ^ (8 * m - 2)))"
proof -
  consider "unat x < 2 ^ 6" | "\<not> unat x < 2 ^ 6" "unat x < 2 ^ 14"
    | "\<not> unat x < 2 ^ 14" "unat x < 2 ^ 30" | "\<not> unat x < 2 ^ 30" by linarith
  then show thesis
  proof cases
    case 1
    show ?thesis
      by (rule that [of 0 1]) (use 1 assms in \<open>simp_all add: quic_varint_def Let_def\<close>)
  next
    case 2
    show ?thesis
      by (rule that [of 1 2]) (use 2 assms in \<open>simp_all add: quic_varint_def Let_def\<close>)
  next
    case 3
    show ?thesis
      by (rule that [of 2 4]) (use 3 assms in \<open>simp_all add: quic_varint_def Let_def\<close>)
  next
    case 4
    show ?thesis
      by (rule that [of 3 8]) (use 4 assms in \<open>simp_all add: quic_varint_def Let_def\<close>)
  qed
qed

interpretation quic: uintvar_contract quic_varint
proof
  fix x :: u64
  assume x: "unat x < 2 ^ 62"
  from x obtain k m where *: "k < 4" "m = 2 ^ k" "unat x < 2 ^ (8 * m - 2)"
    "uv_bytes quic_varint x = rev (le_bytes m (unat x + k * 2 ^ (8 * m - 2)))"
    by (rule varint_cases)
  note form = varint_form [OF *(1-3)]
  show "uv_bytes quic_varint x \<noteq> [] \<and>
      uv_size quic_varint (hd (uv_bytes quic_varint x)) = length (uv_bytes quic_varint x)"
    using form *(4) by (simp add: quic_varint_def)
  show "uv_value quic_varint (uv_bytes quic_varint x) = x"
    using form *(4) by (simp add: quic_varint_def)
next
  fix x :: u64
  show "length (uv_bytes quic_varint x) \<le> 8"
    by (simp add: quic_varint_def Let_def)
qed

end
