(* ===== verification/Node_Id.thy ===== *)
theory Node_Id
  imports Laps_Prelude
begin

unbundle bit_operations_syntax

text \<open>
  Node identifiers as text: class \<open>NodeId\<close> of \<open>src/src/peering/messages/node_info.h\<close>, with the
  parts of the standard library it uses (\<open>std::stoul\<close>, \<open>string::find\<close>, \<open>string::substr\<close> and
  the decimal output of an integer) written out.  Shown: the text an identifier is printed
  as is read back to the same identifier, and what the reader does outside that form.
\<close>

section \<open>The standard library's part\<close>

definition is_space :: "char \<Rightarrow> bool" where
  "is_space c \<longleftrightarrow> of_char c = (32::nat) \<or> (9 \<le> (of_char c :: nat) \<and> (of_char c :: nat) \<le> 13)"

definition is_digit :: "char \<Rightarrow> bool" where
  "is_digit c \<longleftrightarrow> 48 \<le> (of_char c :: nat) \<and> (of_char c :: nat) \<le> 57"

definition digit_char :: "nat \<Rightarrow> char" where
  "digit_char d = char_of (48 + d)"

text \<open>\<open>ostream << unsigned\<close> in decimal.\<close>

fun show_dec :: "nat \<Rightarrow> string" where
  "show_dec n = (if n < 10 then [digit_char n] else show_dec (n div 10) @ [digit_char (n mod 10)])"

declare show_dec.simps [simp del]

definition dec_value :: "string \<Rightarrow> nat" where
  "dec_value ds = foldl (\<lambda>a c. 10 * a + (of_char c - 48)) 0 ds"

text \<open>\<open>std::stoul(s)\<close> in base 10: leading white space, an optional sign (a minus negates modulo
  \<open>2 ^ 64\<close>), the longest run of digits; what follows the digits is ignored.\<close>

definition stoul :: "string \<Rightarrow> u64 res" where
  "stoul s = (let t = dropWhile is_space s;
                  neg = (case t of c # _ \<Rightarrow> c = CHR ''-'' | [] \<Rightarrow> False);
                  signed = (case t of c # _ \<Rightarrow> c = CHR ''-'' \<or> c = CHR ''+'' | [] \<Rightarrow> False);
                  ds = takeWhile is_digit (if signed then tl t else t)
              in if ds = [] then Inl Std_Invalid_Argument
                 else if 2 ^ 64 \<le> dec_value ds then Inl Std_Out_Of_Range
                 else Inr (if neg then - word_of_nat (dec_value ds) else word_of_nat (dec_value ds)))"

definition str_find :: "char \<Rightarrow> string \<Rightarrow> nat \<Rightarrow> nat option" where
  "str_find c s pos = (let t = drop pos s in
     if c \<in> set t then Some (pos + length (takeWhile (\<lambda>x. x \<noteq> c) t)) else None)"

text \<open>\<open>substr(pos, n)\<close>, where \<open>None\<close> is \<open>npos\<close>; \<open>pos\<close> is never past the end here.\<close>

definition substr :: "string \<Rightarrow> nat \<Rightarrow> nat option \<Rightarrow> string" where
  "substr s pos n = (case n of None \<Rightarrow> drop pos s | Some k \<Rightarrow> take k (drop pos s))"

section \<open>NodeId\<close>

text \<open>The loop of \<open>NumericVaue\<close>: two rounds at most; \<open>end_pos\<close> is the position of the next dot.\<close>

fun NumericVaue_loop :: "nat \<Rightarrow> string \<Rightarrow> nat \<Rightarrow> nat option \<Rightarrow> u32 \<Rightarrow> u32 res" where
  "NumericVaue_loop 0 val pos end_pos n_value = Inr n_value"
| "NumericVaue_loop (Suc i) val pos end_pos n_value =
     (let n_value = push_bit 16 n_value in
      res_bind (stoul (substr val pos end_pos)) (\<lambda>dot_value.
        if 65535 < dot_value then Inl Std_Runtime_Error
        else let n_value = n_value OR ucast (0xFFFF AND dot_value) in
          (case end_pos of
             None \<Rightarrow> Inr n_value
           | Some e \<Rightarrow> NumericVaue_loop i val (Suc e) (str_find (CHR ''.'') val (Suc e)) n_value)))"

definition NumericVaue :: "string \<Rightarrow> u32 res" where
  "NumericVaue val = (case str_find (CHR ''.'') val 0 of
      None \<Rightarrow> res_bind (stoul val) (\<lambda>v. Inr (ucast v))
    | Some e \<Rightarrow> NumericVaue_loop 2 val 0 (Some e) 0)"

definition NodeId_Value :: "string \<Rightarrow> u64 res" where
  "NodeId_Value s = (case str_find (CHR '':'') s 0 of
      None \<Rightarrow> Inl Std_Runtime_Error
    | Some mid \<Rightarrow>
        res_bind (NumericVaue (substr s 0 (Some mid))) (\<lambda>hi.
        res_bind (NumericVaue (substr s (Suc mid) None)) (\<lambda>low.
          Inr (push_bit 32 (ucast hi) OR ucast low))))"

definition show_u16 :: "u16 \<Rightarrow> string" where
  "show_u16 w = show_dec (unat w)"

definition NodeId_String :: "u64 \<Rightarrow> string" where
  "NodeId_String nid =
     show_u16 (ucast (drop_bit 48 nid)) @ ''.'' @
     show_u16 (ucast (drop_bit 48 (push_bit 16 nid))) @ '':'' @
     show_u16 (ucast (drop_bit 48 (push_bit 32 nid))) @ ''.'' @
     show_u16 (ucast (drop_bit 48 (push_bit 48 nid)))"

section \<open>Reading decimal digits back\<close>

lemma of_char_digit [simp]: "d < 10 \<Longrightarrow> (of_char (digit_char d) :: nat) = 48 + d"
  by (simp add: digit_char_def)

lemma digit_char_neq:
  assumes "d < 10" and "(of_char c :: nat) < 48 \<or> 57 < (of_char c :: nat)"
  shows "digit_char d \<noteq> c"
proof
  assume "digit_char d = c"
  then have "(of_char c :: nat) = 48 + d" using of_char_digit [OF assms(1)] by simp
  with assms show False by auto
qed

lemma digit_char_props [simp]:
  assumes "d < 10"
  shows "is_digit (digit_char d)" "\<not> is_space (digit_char d)"
    "digit_char d \<noteq> CHR ''.''" "digit_char d \<noteq> CHR '':''"
    "digit_char d \<noteq> CHR ''-''" "digit_char d \<noteq> CHR ''+''"
  using assms by (simp_all add: is_digit_def is_space_def digit_char_neq)

lemma show_dec_digits: "c \<in> set (show_dec n) \<Longrightarrow> \<exists>d < 10. c = digit_char d"
proof (induction n rule: show_dec.induct)
  case (1 n)
  show ?case
  proof (cases "n < 10")
    case True
    with 1 show ?thesis by (auto simp: show_dec.simps [of n])
  next
    case False
    then have "c \<in> set (show_dec (n div 10)) \<or> c = digit_char (n mod 10)"
      using 1(2) by (auto simp: show_dec.simps [of n])
    then show ?thesis
    proof
      assume "c = digit_char (n mod 10)"
      moreover have "n mod 10 < 10" by simp
      ultimately show ?thesis by blast
    qed (use 1(1) False in blast)
  qed
qed

lemma show_dec_nonempty [simp]: "show_dec n \<noteq> []"
  by (subst show_dec.simps) simp

lemma dec_value_show_dec [simp]: "dec_value (show_dec n) = n"
proof (induction n rule: show_dec.induct)
  case (1 n)
  show ?case
  proof (cases "n < 10")
    case True
    then show ?thesis by (simp add: show_dec.simps [of n] dec_value_def)
  next
    case False
    have "dec_value (show_dec n) = 10 * dec_value (show_dec (n div 10)) + n mod 10"
      using False by (subst show_dec.simps) (simp add: dec_value_def)
    with 1 False show ?thesis by simp
  qed
qed

lemma show_dec_all:
  assumes "c \<in> set (show_dec n)"
  shows "is_digit c" "\<not> is_space c" "c \<noteq> CHR ''.''" "c \<noteq> CHR '':''" "c \<noteq> CHR ''-''" "c \<noteq> CHR ''+''"
proof -
  obtain d where "d < 10" "c = digit_char d" using show_dec_digits [OF assms] by blast
  then show "is_digit c" "\<not> is_space c" "c \<noteq> CHR ''.''" "c \<noteq> CHR '':''" "c \<noteq> CHR ''-''" "c \<noteq> CHR ''+''"
    by (simp_all only: digit_char_props not_False_eq_True)
qed

lemma stoul_digits:
  assumes "s \<noteq> []" and "\<And>c. c \<in> set s \<Longrightarrow> is_digit c" and "\<not> is_space (hd s)"
    and "hd s \<noteq> CHR ''-''" "hd s \<noteq> CHR ''+''" and "dec_value s < 2 ^ 64"
  shows "stoul s = Inr (word_of_nat (dec_value s))"
proof -
  have "dropWhile is_space s = s" using assms(1,3) by (cases s) auto
  moreover have "takeWhile is_digit s = s" using assms(2) by (simp add: takeWhile_eq_all_conv)
  moreover have "\<not> (case s of c # _ \<Rightarrow> c = CHR ''-'' | [] \<Rightarrow> False)"
    "\<not> (case s of c # _ \<Rightarrow> c = CHR ''-'' \<or> c = CHR ''+'' | [] \<Rightarrow> False)"
    using assms(1,4,5) by (cases s; simp)+
  ultimately show ?thesis using assms(1,6) unfolding stoul_def Let_def by (simp only: if_False not_le [symmetric] HOL.simp_thms)
qed

lemma stoul_show_dec: "n < 2 ^ 64 \<Longrightarrow> stoul (show_dec n) = Inr (word_of_nat n)"
  using stoul_digits [of "show_dec n"] show_dec_all [of _ n] hd_in_set [OF show_dec_nonempty [of n]] by simp

lemma str_find_append:
  assumes "c \<notin> set xs"
  shows "str_find c (xs @ c # ys) 0 = Some (length xs)"
proof -
  have "takeWhile (\<lambda>x. x \<noteq> c) (xs @ c # ys) = xs"
    using assms by (subst takeWhile_append2) auto
  then show ?thesis by (simp add: str_find_def Let_def)
qed

lemma str_find_none: "c \<notin> set (drop pos s) \<Longrightarrow> str_find c s pos = None"
  by (simp add: str_find_def Let_def)

lemma dot_notin_show [simp]: "CHR ''.'' \<notin> set (show_u16 w)" "CHR '':'' \<notin> set (show_u16 w)"
  using show_dec_all(3) [of "CHR ''.''"] show_dec_all(4) [of "CHR '':''"] by (auto simp: show_u16_def)

lemma stoul_show_u16 [simp]: "stoul (show_u16 w) = Inr (ucast w)"
proof -
  have "unat w < 2 ^ LENGTH(16)" by (rule unsigned_less)
  then have "unat w < 2 ^ 64" by simp
  then show ?thesis by (simp add: show_u16_def stoul_show_dec)
qed

lemma ucast_u16_le: "\<not> (65535 :: u64) < ucast (w :: u16)"
proof -
  have "unat w < 2 ^ LENGTH(16)" by (rule unsigned_less)
  then show ?thesis by (simp add: word_less_nat_alt unsigned_ucast_eq take_bit_nat_eq_self)
qed

lemma NumericVaue_dotted:
  "NumericVaue (show_u16 a @ ''.'' @ show_u16 b) = Inr (push_bit 16 (ucast a) OR ucast b)"
proof -
  let ?s = "show_u16 a @ CHR ''.'' # show_u16 b"
  have m16: "(0xFFFF::u64) = mask 16" by (simp add: mask_eq_exp_minus_1)
  have mask: "ucast (0xFFFF AND (ucast w :: u64)) = (ucast w :: u32)" for w :: u16
    by (rule bit_eqI) (auto simp: m16 bit_simps dest: bit_imp_le_length)
  have f: "str_find (CHR ''.'') ?s 0 = Some (length (show_u16 a))" by (rule str_find_append) simp
  have f2: "str_find (CHR ''.'') ?s (Suc (length (show_u16 a))) = None" by (rule str_find_none) simp
  show ?thesis
    by (simp add: NumericVaue_def f f2 numeral_2_eq_2 substr_def ucast_u16_le mask Let_def)
qed

text \<open>Printing a node identifier and reading the text back gives the identifier.\<close>

theorem node_id_roundtrip: "NodeId_Value (NodeId_String nid) = Inr nid"
proof -
  define a b c d :: u16 where "a = ucast (drop_bit 48 nid)" and "b = ucast (drop_bit 48 (push_bit 16 nid))"
    and "c = ucast (drop_bit 48 (push_bit 32 nid))" and "d = ucast (drop_bit 48 (push_bit 48 nid))"
  let ?hi = "show_u16 a @ ''.'' @ show_u16 b" and ?lo = "show_u16 c @ ''.'' @ show_u16 d"
  have s: "NodeId_String nid = ?hi @ CHR '':'' # ?lo"
    by (simp add: NodeId_String_def a_def b_def c_def d_def)
  have f: "str_find (CHR '':'') (?hi @ CHR '':'' # ?lo) 0 = Some (length ?hi)"
    by (rule str_find_append) simp
  have "NodeId_Value (NodeId_String nid) =
      Inr (push_bit 32 (ucast (push_bit 16 (ucast a) OR ucast b :: u32)) OR ucast (push_bit 16 (ucast c) OR ucast d :: u32))"
    using f NumericVaue_dotted [of a b] NumericVaue_dotted [of c d]
    by (simp add: NodeId_Value_def s substr_def)
  also have "push_bit 32 (ucast (push_bit 16 (ucast a) OR ucast b :: u32)) OR ucast (push_bit 16 (ucast c) OR ucast d :: u32) = nid"
  proof (rule bit_word_eqI)
    fix n
    assume "n < LENGTH(64)"
    then consider "n < 16" | "16 \<le> n" "n < 32" | "32 \<le> n" "n < 48" | "48 \<le> n" "n < 64" by fastforce
    then show "bit (push_bit 32 (ucast (push_bit 16 (ucast a) OR ucast b :: u32)) OR
        ucast (push_bit 16 (ucast c) OR ucast d :: u32) :: u64) n = bit nid n"
      by cases (auto simp: a_def b_def c_def d_def bit_simps)
  qed
  finally show ?thesis .
qed

text \<open>A part without a dot is a \<open>std::stoul\<close> cut to 32 bits: a value too large for the
  documented unsigned 32 bit number is taken modulo \<open>2 ^ 32\<close> and not refused, while a dotted
  part above 65535 is.\<close>

lemma NumericVaue_plain:
  assumes "n < 2 ^ 64"
  shows "NumericVaue (show_dec n) = Inr (word_of_nat n)"
proof -
  have "str_find (CHR ''.'') (show_dec n) 0 = None"
    by (rule str_find_none) (use show_dec_all(3) in auto)
  moreover have "ucast (word_of_nat n :: u64) = (word_of_nat n :: u32)"
    by (rule bit_word_eqI) (simp add: bit_simps)
  ultimately show ?thesis using assms by (simp add: NumericVaue_def stoul_show_dec)
qed

lemma node_id_plain_part_wraps:
  assumes "hi < 2 ^ 64" "lo < 2 ^ 64"
  shows "NodeId_Value (show_dec hi @ '':'' @ show_dec lo) =
    Inr (push_bit 32 (ucast (word_of_nat hi :: u32)) OR ucast (word_of_nat lo :: u32))"
proof -
  have "str_find (CHR '':'') (show_dec hi @ CHR '':'' # show_dec lo) 0 = Some (length (show_dec hi))"
    by (rule str_find_append) (use show_dec_all(4) in auto)
  with assms show ?thesis by (simp add: NodeId_Value_def substr_def NumericVaue_plain)
qed

lemma node_id_dotted_part_checked:
  assumes "65535 < n" "n < 2 ^ 64"
  shows "NumericVaue (show_dec n @ ''.'' @ s) = Inl Std_Runtime_Error"
proof -
  have f: "str_find (CHR ''.'') (show_dec n @ CHR ''.'' # s) 0 = Some (length (show_dec n))"
    by (rule str_find_append) (use show_dec_all(3) in auto)
  have "(65535 :: u64) < word_of_nat n"
    using assms by (simp add: word_less_nat_alt unat_of_nat)
  with assms show ?thesis
    by (simp add: NumericVaue_def f numeral_2_eq_2 substr_def stoul_show_dec Let_def)
qed

lemma node_id_needs_colon: "CHR '':'' \<notin> set s \<Longrightarrow> NodeId_Value s = Inl Std_Runtime_Error"
  by (simp add: NodeId_Value_def str_find_none)

end
