(* ===== verification/Msg_Node.thy ===== *)
theory Msg_Node
  imports Wire_Codec Node_Id
begin

text \<open>
  \<open>NodeInfo\<close>, \<open>Connect\<close> and \<open>ConnectResponse\<close> of \<open>src/src/peering/messages\<close>: the structures,
  their \<open>SizeBytes\<close>, their serialisers and the constructors that read them from a span.
  The locale \<open>message_codec\<close> is the contract of a peering message (the body is read back, the
  declared size is the body's length); each message of the protocol interprets it.
  A C++ \<open>double\<close> is only copied, so it is its 64 bit pattern; a \<open>std::string\<close> is its bytes.
\<close>

section \<open>The contract of a peering message\<close>

text \<open>
  \<open>enc\<close> writes the body, \<open>dec\<close> reads a span holding exactly the body, \<open>len\<close> is \<open>SizeBytes()\<close>.
\<close>

locale message_codec =
  fixes enc :: "'a \<Rightarrow> bytes" and dec :: "bytes \<Rightarrow> 'a res" and len :: "'a \<Rightarrow> u32" and ok :: "'a \<Rightarrow> bool"
  assumes dec_enc: "ok x \<Longrightarrow> dec (enc x) = Inr x"
    and len_enc: "ok x \<Longrightarrow> unat (len x) = length (enc x)"
begin

text \<open>A receiver that cuts \<open>data_length\<close> bytes off the stream behind the common header gets the
  message, and what follows it is untouched.\<close>

lemma framed:
  fixes t :: msg_type and x :: 'a
  assumes "ok x"
  defines "msg \<equiv> common_header t (len x) @ enc x"
  shows "rd_int (tl (msg @ rest)) = Inr (msg_code t, drop 3 (msg @ rest))"
    and "rd_int (drop 3 (msg @ rest)) = Inr (len x, enc x @ rest)"
    and "dec (take (unat (len x)) (drop (unat kCommonHeadersSize) (msg @ rest))) = Inr x"
    and "drop (unat kCommonHeadersSize + unat (len x)) (msg @ rest) = rest"
proof -
  have l: "drop 3 (msg @ rest) = put_int (len x) @ enc x @ rest"
    by (simp add: msg_def common_header_def)
  show "rd_int (tl (msg @ rest)) = Inr (msg_code t, drop 3 (msg @ rest))"
    unfolding l by (simp add: msg_def common_header_def)
  show "rd_int (drop 3 (msg @ rest)) = Inr (len x, enc x @ rest)" unfolding l by simp
  show "dec (take (unat (len x)) (drop (unat kCommonHeadersSize) (msg @ rest))) = Inr x"
    using assms(1) by (simp add: msg_def len_enc dec_enc)
  show "drop (unat kCommonHeadersSize + unat (len x)) (msg @ rest) = rest"
    using assms(1) by (simp add: msg_def len_enc)
qed

lemma enc_inj_on: "ok x \<Longrightarrow> ok y \<Longrightarrow> enc x = enc y \<Longrightarrow> x = y"
  by (metis dec_enc Inr_inject)

end

section \<open>NodeInfo\<close>

definition kVia :: u8 where "kVia = 0"
definition kEdge :: u8 where "kEdge = 1"
definition kStub :: u8 where "kStub = 2"

record NodePathItem =
  pi_id :: u64
  pi_srtt_us :: u64

record NodeInfo =
  ni_id :: u64
  ni_type :: u8
  ni_contact :: bytes
  ni_longitude :: u64
  ni_latitude :: u64
  ni_path :: "NodePathItem list"

definition NodeInfo_SumSrtt :: "NodeInfo \<Rightarrow> u64" where
  "NodeInfo_SumSrtt n = foldl (\<lambda>sum item. sum + pi_srtt_us item) 0 (ni_path n)"

text \<open>\<open>sizeof(NodePathItem)\<close> is 16: the structure is packed.  The sum is a \<open>size_t\<close> cut to 32 bits
  by the return type.\<close>

definition NodeInfo_SizeBytes :: "uintvar_api \<Rightarrow> NodeInfo \<Rightarrow> u32" where
  "NodeInfo_SizeBytes uv n = word_of_nat
     (8 + 1 + length (uv_bytes uv (word_of_nat (length (ni_contact n)))) + length (ni_contact n)
      + 8 + 8 + length (ni_path n) * 16)"

text \<open>The bytes of a path item are its memory, in host order.\<close>

definition path_item_bytes :: "NodePathItem \<Rightarrow> bytes" where
  "path_item_bytes p = BytesOf False (pi_id p) @ BytesOf False (pi_srtt_us p)"

definition path_item_load :: "bytes \<Rightarrow> NodePathItem" where
  "path_item_load bs = \<lparr>pi_id = word_of_nat (mem_load False (take 8 bs)),
                        pi_srtt_us = word_of_nat (mem_load False (take 8 (drop 8 bs)))\<rparr>"

definition NodeInfo_write :: "uintvar_api \<Rightarrow> NodeInfo \<Rightarrow> bytes" where
  "NodeInfo_write uv n =
     put_int (ni_id n) @ [ni_type n]
     @ uv_bytes uv (word_of_nat (length (ni_contact n))) @ ni_contact n
     @ put_int (ni_longitude n) @ put_int (ni_latitude n)
     @ concat (map path_item_bytes (ni_path n))"

text \<open>\<open>for (; it < end; it += 16) memcpy(&item, &*it, 16)\<close>: a last item that is cut short is
  copied from beyond the span.\<close>

fun NodeInfo_path :: "bytes \<Rightarrow> NodePathItem list res" where
  "NodeInfo_path bs =
     (if bs = [] then Inr []
      else if length bs < 16 then Inl Out_Of_Bounds
      else res_bind (NodeInfo_path (drop 16 bs)) (\<lambda>ps. Inr (path_item_load (take 16 bs) # ps)))"

declare NodeInfo_path.simps [simp del]

definition NodeInfo_read :: "uintvar_api \<Rightarrow> bytes \<Rightarrow> NodeInfo res" where
  "NodeInfo_read uv bs =
     res_bind (rd_int bs) (\<lambda>(nid, bs).
     res_bind (rd_byte bs) (\<lambda>(typ, bs).
     res_bind (rd_uintvar uv bs) (\<lambda>(contact_len, bs).
     res_bind (rd_bytes (unat contact_len) bs) (\<lambda>(contact, bs).
     res_bind (rd_int bs) (\<lambda>(longitude, bs).
     res_bind (rd_int bs) (\<lambda>(latitude, bs).
     res_bind (NodeInfo_path bs) (\<lambda>path.
       Inr \<lparr>ni_id = nid, ni_type = typ, ni_contact = contact,
            ni_longitude = longitude, ni_latitude = latitude, ni_path = path\<rparr>)))))))"

definition NodeInfo_Serialize :: "uintvar_api \<Rightarrow> NodeInfo \<Rightarrow> bool \<Rightarrow> bool \<Rightarrow> bytes" where
  "NodeInfo_Serialize uv n include_common_header withdraw =
     (if include_common_header
      then common_header (if withdraw then kNodeInfoWithdrawn else kNodeInfoAdvertise) (NodeInfo_SizeBytes uv n)
      else []) @ NodeInfo_write uv n"

text \<open>A node whose contact and message fit the width of the length fields.\<close>

definition NodeInfo_fits :: "uintvar_api \<Rightarrow> NodeInfo \<Rightarrow> bool" where
  "NodeInfo_fits uv n \<longleftrightarrow> length (NodeInfo_write uv n) < 2 ^ 31"

lemma length_path_item [simp, codec_simps]: "length (path_item_bytes p) = 16"
  by (simp add: path_item_bytes_def)

lemma length_concat_path [simp]: "length (concat (map path_item_bytes ps)) = length ps * 16"
  by (induction ps) auto

lemma path_item_roundtrip: "path_item_load (path_item_bytes p) = p"
proof -
  have "word_of_nat (mem_load False (BytesOf False w)) = w" for w :: u64
    using int_roundtrip [of w]
    by (simp add: ValueOf_eq BytesOf_def mem_image_def mem_load_def)
  then show ?thesis by (simp add: path_item_load_def path_item_bytes_def)
qed

lemma NodeInfo_path_items: "NodeInfo_path (concat (map path_item_bytes ps)) = Inr ps"
proof (induction ps)
  case (Cons p ps)
  have "path_item_bytes p \<noteq> []" using length_path_item [of p] by (metis list.size(3) zero_neq_numeral)
  with Cons show ?case by (subst NodeInfo_path.simps) (simp add: path_item_roundtrip)
qed (simp add: NodeInfo_path.simps)

text \<open>Which remainders of a span the path loop reads without leaving the span.\<close>

lemma NodeInfo_path_defined: "(\<exists>ps. NodeInfo_path bs = Inr ps) \<longleftrightarrow> 16 dvd length bs"
proof (induction bs rule: NodeInfo_path.induct)
  case (1 bs)
  consider "bs = []" | "bs \<noteq> []" "length bs < 16" | "bs \<noteq> []" "16 \<le> length bs" by fastforce
  then show ?case
  proof cases
    case 3
    then have "16 dvd length bs \<longleftrightarrow> 16 dvd length (drop 16 bs)" by (simp add: dvd_minus_self)
    then show ?thesis using 3 1 by (subst NodeInfo_path.simps) (auto simp: res_bind_Inr_iff)
  qed (auto simp: NodeInfo_path.simps [of bs] NodeInfo_path.simps [of "[]"] dest: dvd_imp_le)
qed

lemma length_NodeInfo_write: "length (NodeInfo_write uv n) =
    25 + length (uv_bytes uv (word_of_nat (length (ni_contact n)))) + length (ni_contact n) + length (ni_path n) * 16"
  by (simp add: NodeInfo_write_def)

lemma fits_contact: "NodeInfo_fits uv n \<Longrightarrow> length (ni_contact n) < 2 ^ 31"
  by (simp add: NodeInfo_fits_def length_NodeInfo_write)

lemma NodeInfo_size_eq: "NodeInfo_fits uv n \<Longrightarrow> unat (NodeInfo_SizeBytes uv n) = length (NodeInfo_write uv n)"
  unfolding NodeInfo_SizeBytes_def NodeInfo_fits_def length_NodeInfo_write
  by (subst unat_of_nat) (simp add: take_bit_nat_eq_self)

context uintvar_contract
begin

lemma NodeInfo_read_write:
  assumes "NodeInfo_fits uv n"
  shows "NodeInfo_read uv (NodeInfo_write uv n) = Inr n"
proof -
  have c: "length (ni_contact n) < 2 ^ 31" by (rule fits_contact) (rule assms)
  then have u: "unat (word_of_nat (length (ni_contact n)) :: u64) = length (ni_contact n)"
    by (simp add: unat_of_nat)
  have "rd_uintvar uv (uv_bytes uv (word_of_nat (length (ni_contact n))) @ rest)
      = Inr (word_of_nat (length (ni_contact n)), rest)" for rest
    by (rule rd_uintvar_bytes) (use u c in simp)
  then show ?thesis
    by (simp add: NodeInfo_read_def NodeInfo_write_def u NodeInfo_path_items)
qed

end

sublocale uintvar_contract \<subseteq> ni: message_codec "NodeInfo_write uv" "NodeInfo_read uv" "NodeInfo_SizeBytes uv" "NodeInfo_fits uv"
  by unfold_locales (simp_all add: NodeInfo_read_write NodeInfo_size_eq)

text \<open>C39. A node info message survives the wire: for every node whose encoding is shorter than
  \<open>2 ^ 31\<close> bytes, the constructor reading the serialised body returns the node (path included), and
  the 32 bit length in the common header is the length of the body behind it.\<close>

theorem node_info_roundtrip:
  assumes "uintvar_contract uv" and "NodeInfo_fits uv n"
  shows "NodeInfo_read uv (NodeInfo_Serialize uv n False w) = Inr n
    \<and> NodeInfo_Serialize uv n True w =
        common_header (if w then kNodeInfoWithdrawn else kNodeInfoAdvertise)
          (word_of_nat (length (NodeInfo_Serialize uv n False w))) @ NodeInfo_Serialize uv n False w"
proof -
  have "NodeInfo_SizeBytes uv n = word_of_nat (length (NodeInfo_write uv n))"
    using NodeInfo_size_eq [OF assms(2), symmetric] by simp
  then show ?thesis
    using uintvar_contract.NodeInfo_read_write [OF assms] by (simp add: NodeInfo_Serialize_def)
qed

text \<open>A node with two hops.\<close>

definition sample_node :: NodeInfo where
  "sample_node = \<lparr>ni_id = 0x100000002, ni_type = kEdge, ni_contact = [104, 58, 49], ni_longitude = 5,
     ni_latitude = 7, ni_path = [\<lparr>pi_id = 9, pi_srtt_us = 1000\<rparr>, \<lparr>pi_id = 10, pi_srtt_us = 2500\<rparr>]\<rparr>"

lemma sample_node_fits: "NodeInfo_fits quic_varint sample_node"
  using quic.uv_bytes_bound [of 3]
  by (simp add: NodeInfo_fits_def length_NodeInfo_write sample_node_def)

theorem node_info_roundtrip_witness:
  "NodeInfo_read quic_varint (NodeInfo_Serialize quic_varint sample_node False False) = Inr sample_node"
  using node_info_roundtrip [OF quic.uintvar_contract_axioms sample_node_fits, of False] by simp

section \<open>Connect\<close>

record Connect =
  cn_mode :: peer_mode
  cn_node_info :: NodeInfo

definition Connect_SizeBytes :: "uintvar_api \<Rightarrow> Connect \<Rightarrow> u32" where
  "Connect_SizeBytes uv c = 1 + NodeInfo_SizeBytes uv (cn_node_info c)"

definition Connect_read :: "uintvar_api \<Rightarrow> bytes \<Rightarrow> Connect res" where
  "Connect_read uv bs =
     res_bind (rd_byte bs) (\<lambda>(mode, bs).
     res_bind (NodeInfo_read uv bs) (\<lambda>ni. Inr \<lparr>cn_mode = mode, cn_node_info = ni\<rparr>))"

definition Connect_Serialize :: "uintvar_api \<Rightarrow> Connect \<Rightarrow> bytes" where
  "Connect_Serialize uv c =
     common_header kConnect (Connect_SizeBytes uv c)
     @ [cn_mode c] @ NodeInfo_Serialize uv (cn_node_info c) False False"

text \<open>The body behind the common header.\<close>

abbreviation Connect_body :: "uintvar_api \<Rightarrow> Connect \<Rightarrow> bytes" where
  "Connect_body uv c \<equiv> [cn_mode c] @ NodeInfo_Serialize uv (cn_node_info c) False False"

lemma unat_small_plus:
  fixes a b :: u32
  assumes "unat a + unat b < 2 ^ 32"
  shows "unat (a + b) = unat a + unat b"
  using assms by (simp add: unat_word_ariths)

sublocale uintvar_contract \<subseteq> cn: message_codec "Connect_body uv" "Connect_read uv" "Connect_SizeBytes uv"
  "\<lambda>c. NodeInfo_fits uv (cn_node_info c)"
proof
  fix c :: Connect
  assume fits: "NodeInfo_fits uv (cn_node_info c)"
  show "Connect_read uv (Connect_body uv c) = Inr c"
    by (simp add: Connect_read_def NodeInfo_Serialize_def ni.dec_enc [OF fits])
  have "unat (1 :: u32) + unat (NodeInfo_SizeBytes uv (cn_node_info c)) < 2 ^ 32"
    using fits by (simp add: ni.len_enc [OF fits]) (simp add: NodeInfo_fits_def)
  then show "unat (Connect_SizeBytes uv c) = length (Connect_body uv c)"
    unfolding Connect_SizeBytes_def
    by (subst unat_small_plus) (simp_all add: ni.len_enc [OF fits] NodeInfo_Serialize_def)
qed

section \<open>ConnectResponse\<close>

record ConnectResponse =
  cr_error :: protocol_error
  cr_node_info :: "NodeInfo option"

definition ConnectResponse_SizeBytes :: "uintvar_api \<Rightarrow> ConnectResponse \<Rightarrow> u32 res" where
  "ConnectResponse_SizeBytes uv r =
     (if cr_error r = kNoError
      then (case cr_node_info r of
              None \<Rightarrow> Inl Null_Deref
            | Some ni \<Rightarrow> Inr (2 + NodeInfo_SizeBytes uv ni))
      else Inr 2)"

definition ConnectResponse_read :: "uintvar_api \<Rightarrow> bytes \<Rightarrow> ConnectResponse res" where
  "ConnectResponse_read uv bs =
     res_bind (rd_int bs) (\<lambda>(error, bs).
       if error = kNoError
       then res_bind (NodeInfo_read uv bs) (\<lambda>ni. Inr \<lparr>cr_error = error, cr_node_info = Some ni\<rparr>)
       else Inr \<lparr>cr_error = error, cr_node_info = None\<rparr>)"

definition ConnectResponse_write :: "uintvar_api \<Rightarrow> ConnectResponse \<Rightarrow> bytes res" where
  "ConnectResponse_write uv r =
     res_bind (ConnectResponse_SizeBytes uv r) (\<lambda>len.
       let data = common_header kConnectResponse len @ put_int (cr_error r) in
       if cr_error r = kNoError
       then (case cr_node_info r of
               None \<Rightarrow> Inl Std_Runtime_Error
             | Some ni \<Rightarrow> Inr (data @ NodeInfo_Serialize uv ni False False))
       else Inr data)"

definition ConnectResponse_Serialize :: "uintvar_api \<Rightarrow> ConnectResponse \<Rightarrow> bytes res" where
  "ConnectResponse_Serialize uv r =
     res_bind (ConnectResponse_SizeBytes uv r) (\<lambda>_. ConnectResponse_write uv r)"

text \<open>A well-formed response carries a node exactly when it reports no error.\<close>

definition ConnectResponse_fits :: "uintvar_api \<Rightarrow> ConnectResponse \<Rightarrow> bool" where
  "ConnectResponse_fits uv r \<longleftrightarrow> (case cr_node_info r of
      None \<Rightarrow> cr_error r \<noteq> kNoError
    | Some ni \<Rightarrow> cr_error r = kNoError \<and> NodeInfo_fits uv ni)"

abbreviation ConnectResponse_body :: "uintvar_api \<Rightarrow> ConnectResponse \<Rightarrow> bytes" where
  "ConnectResponse_body uv r \<equiv> drop (unat kCommonHeadersSize) (projr (ConnectResponse_Serialize uv r))"

lemma ConnectResponse_Serialize_cases:
  assumes "ConnectResponse_fits uv r"
  obtains ni where "cr_error r = kNoError" "cr_node_info r = Some ni" "NodeInfo_fits uv ni"
    "ConnectResponse_SizeBytes uv r = Inr (2 + NodeInfo_SizeBytes uv ni)"
    "ConnectResponse_Serialize uv r = Inr (common_header kConnectResponse (2 + NodeInfo_SizeBytes uv ni)
       @ put_int kNoError @ NodeInfo_write uv ni)"
  | "cr_error r \<noteq> kNoError" "cr_node_info r = None" "ConnectResponse_SizeBytes uv r = Inr 2"
    "ConnectResponse_Serialize uv r = Inr (common_header kConnectResponse 2 @ put_int (cr_error r))"
  using assms
  by (auto simp: ConnectResponse_fits_def ConnectResponse_Serialize_def ConnectResponse_SizeBytes_def
      ConnectResponse_write_def NodeInfo_Serialize_def split: option.splits)

sublocale uintvar_contract \<subseteq> cr: message_codec "ConnectResponse_body uv" "ConnectResponse_read uv"
  "\<lambda>r. projr (ConnectResponse_SizeBytes uv r)" "ConnectResponse_fits uv"
proof
  fix r :: ConnectResponse
  assume fits: "ConnectResponse_fits uv r"
  then show "ConnectResponse_read uv (ConnectResponse_body uv r) = Inr r"
    by (rule ConnectResponse_Serialize_cases) (auto simp: ConnectResponse_read_def ni.dec_enc)
  from fits show "unat (projr (ConnectResponse_SizeBytes uv r)) = length (ConnectResponse_body uv r)"
  proof (rule ConnectResponse_Serialize_cases)
    fix ni
    assume *: "NodeInfo_fits uv ni" "ConnectResponse_SizeBytes uv r = Inr (2 + NodeInfo_SizeBytes uv ni)"
      "ConnectResponse_Serialize uv r = Inr (common_header kConnectResponse (2 + NodeInfo_SizeBytes uv ni)
         @ put_int kNoError @ NodeInfo_write uv ni)"
    have "unat (2 :: u32) + unat (NodeInfo_SizeBytes uv ni) < 2 ^ 32"
      using *(1) by (simp add: ni.len_enc) (simp add: NodeInfo_fits_def)
    then have "unat (2 + NodeInfo_SizeBytes uv ni) = 2 + length (NodeInfo_write uv ni)"
      using *(1) by (subst unat_small_plus) (simp_all add: ni.len_enc)
    then show ?thesis using * by simp
  qed simp
qed

context uintvar_contract
begin

lemmas Connect_codec = cn.dec_enc cn.len_enc
lemmas ConnectResponse_codec = cr.dec_enc cr.len_enc

end

text \<open>The messages of the connect exchange survive the wire: behind the common header a
  \<open>Connect\<close> and a well-formed \<open>ConnectResponse\<close> are read back as they were written, and the
  declared length is the number of bytes behind the header.\<close>

theorem connect_exchange_roundtrip:
  assumes "uintvar_contract uv" and "NodeInfo_fits uv (cn_node_info c)" and "ConnectResponse_fits uv r"
  shows "Connect_read uv (drop 7 (Connect_Serialize uv c)) = Inr c
    \<and> unat (Connect_SizeBytes uv c) = length (Connect_Serialize uv c) - 7
    \<and> (\<exists>bs len. ConnectResponse_Serialize uv r = Inr bs \<and> ConnectResponse_SizeBytes uv r = Inr len
          \<and> ConnectResponse_read uv (drop 7 bs) = Inr r \<and> unat len = length bs - 7)"
proof -
  note cn = uintvar_contract.Connect_codec [OF assms(1,2)]
  have 1: "Connect_Serialize uv c = common_header kConnect (Connect_SizeBytes uv c) @ Connect_body uv c"
    by (simp add: Connect_Serialize_def)
  note cr = uintvar_contract.ConnectResponse_codec [OF assms(1,3)]
  obtain bs len where 2: "ConnectResponse_Serialize uv r = Inr bs" "ConnectResponse_SizeBytes uv r = Inr len"
    using assms(3) by (rule ConnectResponse_Serialize_cases) blast+
  show ?thesis using cn cr 1 2 by (simp add: kCommonHeadersSize_def)
qed

theorem connect_exchange_roundtrip_witness:
  "Connect_read quic_varint (drop 7 (Connect_Serialize quic_varint \<lparr>cn_mode = kBoth, cn_node_info = sample_node\<rparr>))
     = Inr \<lparr>cn_mode = kBoth, cn_node_info = sample_node\<rparr>"
  using connect_exchange_roundtrip [OF quic.uintvar_contract_axioms,
      of "\<lparr>cn_mode = kBoth, cn_node_info = sample_node\<rparr>" "\<lparr>cr_error = kConnectError, cr_node_info = None\<rparr>"]
  by (simp add: sample_node_fits ConnectResponse_fits_def kConnectError_def kNoError_def)

text \<open>A response that reports no error but has no node is meant to throw; the size computed first
  already dereferences the empty optional.\<close>

lemma connect_response_missing_node:
  "ConnectResponse_Serialize uv \<lparr>cr_error = kNoError, cr_node_info = None\<rparr> = Inl Null_Deref"
  by (simp add: ConnectResponse_Serialize_def ConnectResponse_SizeBytes_def)

end
