(* ===== verification/Msg_Control.thy ===== *)
theory Msg_Control
  imports Msg_Node
begin

text \<open>
  The control messages that carry the information base between relays: \<open>SubscribeInfo\<close>,
  \<open>AnnounceInfo\<close> and \<open>SubscribeNodeSet\<close> of \<open>src/src/peering/messages\<close>.

  \<open>quicr::TrackNamespace\<close> is libquicr's: a namespace is the list of its entries, and the
  constructor from entries, which may throw, is the argument \<open>tn\<close>.
\<close>

section \<open>SubscribeInfo\<close>

record TrackHash =
  th_namespace :: u64
  th_name :: u64
  th_fullname :: u64

record SubscribeInfo =
  si_seq :: u16
  si_source_node_id :: u64
  si_track_hash :: TrackHash
  si_subscribe_data :: bytes

definition SubscribeInfo_SizeBytes :: "SubscribeInfo \<Rightarrow> u32" where
  "SubscribeInfo_SizeBytes s = word_of_nat (2 + 8 + 24 + 4 + length (si_subscribe_data s))"

definition SubscribeInfo_read :: "bytes \<Rightarrow> SubscribeInfo res" where
  "SubscribeInfo_read bs =
     res_bind (rd_int bs) (\<lambda>(seq, bs).
     res_bind (rd_int bs) (\<lambda>(source_node_id, bs).
     res_bind (rd_int bs) (\<lambda>(namespace_hash, bs).
     res_bind (rd_int bs) (\<lambda>(name_hash, bs).
     res_bind (rd_int bs) (\<lambda>(fullname_hash, bs).
     res_bind (rd_int bs) (\<lambda>(sub_size :: u32, bs).
       let si = \<lparr>si_seq = seq, si_source_node_id = source_node_id,
                 si_track_hash = \<lparr>th_namespace = namespace_hash, th_name = name_hash, th_fullname = fullname_hash\<rparr>,
                 si_subscribe_data = []\<rparr> in
       if sub_size = 0 then Inr si
       else if length bs < unat sub_size then Inl Std_Out_Of_Range
       else Inr (si\<lparr>si_subscribe_data := take (unat sub_size) bs\<rparr>)))))))"

definition SubscribeInfo_write :: "SubscribeInfo \<Rightarrow> bytes" where
  "SubscribeInfo_write s =
     put_int (si_seq s) @ put_int (si_source_node_id s)
     @ put_int (th_namespace (si_track_hash s)) @ put_int (th_name (si_track_hash s))
     @ put_int (th_fullname (si_track_hash s))
     @ put_int (word_of_nat (length (si_subscribe_data s)) :: u32) @ si_subscribe_data s"

definition bump_seq :: "u16 \<Rightarrow> u16" where
  "bump_seq seq = (if seq < 0xFFFF then seq + 1 else 0)"

text \<open>\<open>Serialize\<close> changes the object: an originating node bumps the sequence number.\<close>

definition SubscribeInfo_Serialize :: "SubscribeInfo \<Rightarrow> bool \<Rightarrow> bool \<Rightarrow> bool \<Rightarrow> SubscribeInfo \<times> bytes" where
  "SubscribeInfo_Serialize s include_common_header withdraw is_origin =
     (let s = (if is_origin then s\<lparr>si_seq := bump_seq (si_seq s)\<rparr> else s) in
      (s, (if include_common_header
           then common_header (if withdraw then kSubscribeInfoWithdrawn else kSubscribeInfoAdvertised)
                  (SubscribeInfo_SizeBytes s)
           else []) @ SubscribeInfo_write s))"

definition SubscribeInfo_fits :: "SubscribeInfo \<Rightarrow> bool" where
  "SubscribeInfo_fits s \<longleftrightarrow> length (si_subscribe_data s) < 2 ^ 31"

lemma bump_seq_wrap: "bump_seq s = s + 1"
proof (cases "s < 0xFFFF")
  case False
  then have "65535 \<le> unat s" by (simp add: not_less word_le_nat_alt)
  moreover have "unat s < 2 ^ LENGTH(16)" by (rule unsigned_less)
  ultimately have "unat s = unat (0xFFFF :: u16)" by simp
  then have "s = 0xFFFF" by (rule unsigned_word_eqI)
  then show ?thesis by (simp add: bump_seq_def)
qed (simp add: bump_seq_def)

interpretation si: message_codec SubscribeInfo_write SubscribeInfo_read SubscribeInfo_SizeBytes SubscribeInfo_fits
proof
  fix s
  assume fits: "SubscribeInfo_fits s"
  then have u: "unat (word_of_nat (length (si_subscribe_data s)) :: u32) = length (si_subscribe_data s)"
    by (simp add: SubscribeInfo_fits_def unat_of_nat)
  then have z: "(word_of_nat (length (si_subscribe_data s)) :: u32) = 0 \<longleftrightarrow> si_subscribe_data s = []"
    by (metis length_0_conv unat_eq_0)
  show "SubscribeInfo_read (SubscribeInfo_write s) = Inr s"
    by (cases "si_subscribe_data s = []") (simp_all add: SubscribeInfo_read_def SubscribeInfo_write_def Let_def u z)
  show "unat (SubscribeInfo_SizeBytes s) = length (SubscribeInfo_write s)"
    using fits by (simp add: SubscribeInfo_SizeBytes_def SubscribeInfo_write_def SubscribeInfo_fits_def
        del: of_nat_add) (subst unat_of_nat, simp)
qed

section \<open>AnnounceInfo\<close>

record AnnounceInfo =
  ai_source_node_id :: u64
  ai_name_space :: "bytes list"
  ai_name :: bytes
  ai_fullname_hash :: u64
  ai_flags :: u8

definition AnnounceInfo_make :: "u64 \<Rightarrow> bytes list \<Rightarrow> bytes \<Rightarrow> bool \<Rightarrow> AnnounceInfo" where
  "AnnounceInfo_make source_node_id ns name publish =
     \<lparr>ai_source_node_id = source_node_id, ai_name_space = ns, ai_name = name, ai_fullname_hash = 0,
      ai_flags = (if publish then 0 else 1)\<rparr>"

definition AnnounceInfo_SizeBytes :: "AnnounceInfo \<Rightarrow> u32" where
  "AnnounceInfo_SizeBytes a = word_of_nat
     (8 + 8 + 1 + 2 * length (ai_name_space a) + length (concat (ai_name_space a)) + 2 + length (ai_name a) + 1)"

definition sized_bytes :: "bytes \<Rightarrow> bytes" where
  "sized_bytes e = put_int (word_of_nat (length e) :: u16) @ e"

definition rd_sized :: "bytes \<Rightarrow> (bytes \<times> bytes) res" where
  "rd_sized bs = res_bind (rd_int bs) (\<lambda>(len :: u16, bs). rd_bytes (unat len) bs)"

definition AnnounceInfo_read :: "(bytes list \<Rightarrow> bytes list res) \<Rightarrow> bytes \<Rightarrow> AnnounceInfo res" where
  "AnnounceInfo_read tn bs =
     res_bind (rd_int bs) (\<lambda>(source_node_id, bs).
     res_bind (rd_int bs) (\<lambda>(fullname_hash, bs).
     res_bind (rd_byte bs) (\<lambda>(num_entries, bs).
     res_bind (rd_many rd_sized (unat num_entries) bs) (\<lambda>(entries, bs).
     res_bind (tn entries) (\<lambda>name_space.
     res_bind (rd_int bs) (\<lambda>(name_size :: u16, bs).
     res_bind (if name_size \<noteq> 0 then rd_bytes (unat name_size) bs else Inr ([], bs)) (\<lambda>(name, bs).
     res_bind (rd_byte bs) (\<lambda>(flags, bs).
       Inr \<lparr>ai_source_node_id = source_node_id, ai_name_space = name_space, ai_name = name,
            ai_fullname_hash = fullname_hash, ai_flags = flags\<rparr>))))))))"

definition AnnounceInfo_write :: "AnnounceInfo \<Rightarrow> bytes" where
  "AnnounceInfo_write a =
     put_int (ai_source_node_id a) @ put_int (ai_fullname_hash a)
     @ [word_of_nat (length (ai_name_space a))]
     @ concat (map sized_bytes (ai_name_space a))
     @ put_int (word_of_nat (length (ai_name a)) :: u16)
     @ (if ai_name a \<noteq> [] then ai_name a else [])
     @ [ai_flags a]"

definition AnnounceInfo_Serialize :: "AnnounceInfo \<Rightarrow> bool \<Rightarrow> bool \<Rightarrow> bytes" where
  "AnnounceInfo_Serialize a include_common_header withdraw =
     (if include_common_header
      then common_header (if withdraw then kAnnounceInfoWithdrawn else kAnnounceInfoAdvertised)
             (AnnounceInfo_SizeBytes a)
      else []) @ AnnounceInfo_write a"

text \<open>The name parts fit the 8 and 16 bit length fields and libquicr accepts the namespace.\<close>

definition sized_fits :: "bytes \<Rightarrow> bool" where
  "sized_fits e \<longleftrightarrow> length e < 2 ^ 16"

definition AnnounceInfo_fits :: "(bytes list \<Rightarrow> bytes list res) \<Rightarrow> AnnounceInfo \<Rightarrow> bool" where
  "AnnounceInfo_fits tn a \<longleftrightarrow> tn (ai_name_space a) = Inr (ai_name_space a)
     \<and> length (ai_name_space a) < 256 \<and> list_all sized_fits (ai_name_space a) \<and> sized_fits (ai_name a)"

lemma unat_u16_length: "sized_fits e \<Longrightarrow> unat (word_of_nat (length e) :: u16) = length e"
  by (simp add: sized_fits_def unat_of_nat)

interpretation sb: field_codec sized_bytes rd_sized sized_fits
  by unfold_locales (simp add: sized_bytes_def rd_sized_def unat_u16_length)

lemma length_concat_sized [simp, codec_simps]:
  "length (concat (map sized_bytes es)) = 2 * length es + length (concat es)"
  by (induction es) (auto simp: sized_bytes_def)

lemma length_concat_fits: "list_all sized_fits es \<Longrightarrow> length (concat es) \<le> length es * 2 ^ 16"
  by (induction es) (auto simp: sized_fits_def)

lemma AnnounceInfo_read_write:
  assumes "AnnounceInfo_fits tn a"
  shows "AnnounceInfo_read tn (AnnounceInfo_write a) = Inr a"
proof -
  let ?es = "ai_name_space a"
  have n: "unat (word_of_nat (length ?es) :: u8) = length ?es"
    using assms by (simp add: AnnounceInfo_fits_def unat_of_nat)
  have es: "rd_many rd_sized (length ?es) (concat (map sized_bytes ?es) @ rest) = Inr (?es, rest)" for rest
    using assms by (intro sb.rd_many_enc) (simp_all add: AnnounceInfo_fits_def list_all_iff)
  have u: "unat (word_of_nat (length (ai_name a)) :: u16) = length (ai_name a)"
    using assms by (simp add: AnnounceInfo_fits_def unat_u16_length)
  then have z: "(word_of_nat (length (ai_name a)) :: u16) = 0 \<longleftrightarrow> ai_name a = []"
    by (metis length_0_conv unat_eq_0)
  have tn: "tn ?es = Inr ?es" using assms by (simp add: AnnounceInfo_fits_def)
  show ?thesis
    by (cases "ai_name a = []") (simp_all add: AnnounceInfo_read_def AnnounceInfo_write_def n es tn u z)
qed

lemma length_AnnounceInfo_write: "length (AnnounceInfo_write a) =
    20 + 2 * length (ai_name_space a) + length (concat (ai_name_space a)) + length (ai_name a)"
  by (simp add: AnnounceInfo_write_def)

lemma AnnounceInfo_write_bound:
  assumes "AnnounceInfo_fits tn a"
  shows "length (AnnounceInfo_write a) < 2 ^ 31"
proof -
  have "length (concat (ai_name_space a)) \<le> length (ai_name_space a) * 2 ^ 16"
    using assms by (intro length_concat_fits) (simp add: AnnounceInfo_fits_def)
  also have "\<dots> \<le> 256 * 2 ^ 16"
    using assms by (intro mult_right_mono) (simp_all add: AnnounceInfo_fits_def)
  finally have "length (concat (ai_name_space a)) \<le> 2 ^ 24" by simp
  then show ?thesis
    using assms by (simp add: length_AnnounceInfo_write AnnounceInfo_fits_def sized_fits_def)
qed

lemma AnnounceInfo_size_eq:
  assumes "AnnounceInfo_fits tn a"
  shows "unat (AnnounceInfo_SizeBytes a) = length (AnnounceInfo_write a)"
proof -
  have "AnnounceInfo_SizeBytes a = word_of_nat (length (AnnounceInfo_write a))"
    unfolding AnnounceInfo_SizeBytes_def length_AnnounceInfo_write
    by (rule arg_cong [where f = word_of_nat]) simp
  then show ?thesis using AnnounceInfo_write_bound [OF assms] by (simp add: unat_of_nat)
qed

interpretation ai: message_codec AnnounceInfo_write "AnnounceInfo_read tn" AnnounceInfo_SizeBytes "AnnounceInfo_fits tn" for tn
  by unfold_locales (auto simp: AnnounceInfo_read_write AnnounceInfo_size_eq)

section \<open>SubscribeNodeSet\<close>

definition kMaxSnsId :: u32 where "kMaxSnsId = 0xFFFFFFFE"
definition kSnsAdvHeaderSize :: u16 where "kSnsAdvHeaderSize = 7"

record SubscribeNodeSet =
  sns_id :: u32
  sns_priority :: u8
  sns_nodes :: "u64 list"   \<comment> \<open>\<open>std::set\<close>: ascending\<close>

definition SubscribeNodeSet_SizeBytes :: "SubscribeNodeSet \<Rightarrow> bool \<Rightarrow> u32" where
  "SubscribeNodeSet_SizeBytes s withdraw =
     (if withdraw then 4 else word_of_nat (unat kSnsAdvHeaderSize + length (sns_nodes s) * 8))"

definition SubscribeNodeSet_read :: "bytes \<Rightarrow> bool \<Rightarrow> SubscribeNodeSet res" where
  "SubscribeNodeSet_read bs withdraw =
     res_bind (rd_int bs) (\<lambda>(sid, bs).
       if withdraw then Inr \<lparr>sns_id = sid, sns_priority = 2, sns_nodes = []\<rparr>
       else res_bind (rd_byte bs) (\<lambda>(priority, bs).
            res_bind (rd_int bs) (\<lambda>(num_nodes :: u16, bs).
            res_bind (rd_many rd_int (unat num_nodes) bs) (\<lambda>(nodes, bs).
              Inr \<lparr>sns_id = sid, sns_priority = priority, sns_nodes = fold insort_insert nodes []\<rparr>))))"

definition SubscribeNodeSet_write :: "SubscribeNodeSet \<Rightarrow> bytes" where
  "SubscribeNodeSet_write s =
     put_int (sns_id s) @ [sns_priority s] @ put_int (word_of_nat (length (sns_nodes s)) :: u16)
     @ concat (map put_int (sns_nodes s))"

definition SubscribeNodeSet_Serialize :: "SubscribeNodeSet \<Rightarrow> bool \<Rightarrow> bool \<Rightarrow> bytes" where
  "SubscribeNodeSet_Serialize s include_common_header withdraw =
     (if include_common_header
      then common_header (if withdraw then kSubscribeNodeSetWithdrawn else kSubscribeNodeSetAdvertised)
             (SubscribeNodeSet_SizeBytes s withdraw)
      else []) @ (if withdraw then put_int (sns_id s) else SubscribeNodeSet_write s)"

definition SubscribeNodeSet_fits :: "SubscribeNodeSet \<Rightarrow> bool" where
  "SubscribeNodeSet_fits s \<longleftrightarrow> ssorted (sns_nodes s) \<and> length (sns_nodes s) < 2 ^ 16"

lemma length_concat_put_u64 [simp, codec_simps]: "length (concat (map put_int (xs :: u64 list))) = length xs * 8"
  by (induction xs) auto

interpretation sns: message_codec SubscribeNodeSet_write "\<lambda>bs. SubscribeNodeSet_read bs False"
  "\<lambda>s. SubscribeNodeSet_SizeBytes s False" SubscribeNodeSet_fits
proof
  fix s
  assume fits: "SubscribeNodeSet_fits s"
  then have u: "unat (word_of_nat (length (sns_nodes s)) :: u16) = length (sns_nodes s)"
    by (simp add: SubscribeNodeSet_fits_def unat_of_nat)
  have "rd_many rd_int (length (sns_nodes s)) (concat (map put_int (sns_nodes s))) = Inr (sns_nodes s, [])"
    using c64.rd_many_enc [of "sns_nodes s" _ "[]"] by simp
  moreover have "fold insort_insert (sns_nodes s) [] = sns_nodes s"
    using fits by (intro fold_insert_id) (simp add: SubscribeNodeSet_fits_def)
  ultimately show "SubscribeNodeSet_read (SubscribeNodeSet_write s) False = Inr s"
    by (simp add: SubscribeNodeSet_read_def SubscribeNodeSet_write_def u)
  show "unat (SubscribeNodeSet_SizeBytes s False) = length (SubscribeNodeSet_write s)"
    using fits by (simp add: SubscribeNodeSet_SizeBytes_def SubscribeNodeSet_write_def kSnsAdvHeaderSize_def
        SubscribeNodeSet_fits_def del: of_nat_add) (subst unat_of_nat, simp)
qed

text \<open>C37. The control messages of the information base survive the wire.  A subscribe info (with
  less than \<open>2 ^ 31\<close> bytes of subscribe data), an announce info (at most 255 namespace entries, every
  name part shorter than \<open>2 ^ 16\<close>, a namespace libquicr accepts) and a subscribe node set (fewer than
  \<open>2 ^ 16\<close> nodes) are read back as they were written; the withdraw form of a node set carries its
  identifier; and each declared length is the length of the body.\<close>

theorem control_messages_roundtrip:
  assumes "SubscribeInfo_fits s" and "AnnounceInfo_fits tn a" and "SubscribeNodeSet_fits ns"
  shows "SubscribeInfo_read (snd (SubscribeInfo_Serialize s False w False)) = Inr s
    \<and> AnnounceInfo_read tn (AnnounceInfo_Serialize a False w) = Inr a
    \<and> SubscribeNodeSet_read (SubscribeNodeSet_Serialize ns False False) False = Inr ns
    \<and> SubscribeNodeSet_read (SubscribeNodeSet_Serialize ns False True) True
        = Inr \<lparr>sns_id = sns_id ns, sns_priority = 2, sns_nodes = []\<rparr>
    \<and> unat (SubscribeInfo_SizeBytes s) = length (SubscribeInfo_write s)
    \<and> unat (AnnounceInfo_SizeBytes a) = length (AnnounceInfo_write a)
    \<and> unat (SubscribeNodeSet_SizeBytes ns w) = length (SubscribeNodeSet_Serialize ns False w)"
  using si.dec_enc [OF assms(1)] si.len_enc [OF assms(1)] ai.dec_enc [OF assms(2)] ai.len_enc [OF assms(2)]
    sns.dec_enc [OF assms(3)] sns.len_enc [OF assms(3)]
  by (cases w) (simp_all add: SubscribeInfo_Serialize_def AnnounceInfo_Serialize_def SubscribeNodeSet_Serialize_def
      SubscribeNodeSet_read_def SubscribeNodeSet_SizeBytes_def)

theorem control_messages_roundtrip_witness:
  "SubscribeNodeSet_read (SubscribeNodeSet_Serialize \<lparr>sns_id = 7, sns_priority = 3, sns_nodes = [4, 9]\<rparr> False False) False
     = Inr \<lparr>sns_id = 7, sns_priority = 3, sns_nodes = [4, 9]\<rparr>"
  using control_messages_roundtrip [of
      "\<lparr>si_seq = 1, si_source_node_id = 2, si_track_hash = \<lparr>th_namespace = 3, th_name = 4, th_fullname = 5\<rparr>,
        si_subscribe_data = [1, 2, 3]\<rparr>" Inr "AnnounceInfo_make 5 [[1, 2], [3]] [9] True"
      "\<lparr>sns_id = 7, sns_priority = 3, sns_nodes = [4, 9]\<rparr>" False]
  by (simp add: SubscribeInfo_fits_def AnnounceInfo_fits_def AnnounceInfo_make_def sized_fits_def
      SubscribeNodeSet_fits_def ssorted_def)

text \<open>An originating node that serialises a subscribe info steps its 16 bit sequence number, from
  the largest value to zero, and sends the stepped one.\<close>

lemma subscribe_info_origin_bumps:
  assumes "SubscribeInfo_fits s"
  shows "fst (SubscribeInfo_Serialize s h w True) = s\<lparr>si_seq := si_seq s + 1\<rparr>"
    and "SubscribeInfo_read (snd (SubscribeInfo_Serialize s False w True)) = Inr (s\<lparr>si_seq := si_seq s + 1\<rparr>)"
  using si.dec_enc [of "s\<lparr>si_seq := si_seq s + 1\<rparr>"] assms
  by (simp_all add: SubscribeInfo_Serialize_def bump_seq_wrap SubscribeInfo_fits_def Let_def)

text \<open>The names that do not fit are cut without an error: 256 namespace entries are announced as
  none, and the reader then takes the entries' bytes for the name.\<close>

lemma announce_entry_count_wraps:
  "length (ai_name_space a) = 256 \<Longrightarrow> AnnounceInfo_write a ! 16 = 0"
  by (simp add: AnnounceInfo_write_def nth_append)

end
