(* ===== verification/Msg_Data.thy ===== *)
theory Msg_Data
  imports Msg_Control
begin

text \<open>
  The header in front of forwarded object data, \<open>src/src/peering/messages/data_header.{h,cc}\<close>.
  Deserialising overwrites the object field by field, so it returns the object it leaves.
  Serialising keeps a pointer to the first byte of the vector while it appends: as long as the
  reserved capacity suffices the pointer stays valid, and the model has the failure otherwise.
\<close>

definition kDatagram :: u8 where "kDatagram = 0"
definition kExistingStream :: u8 where "kExistingStream = 1"
definition kNewStream :: u8 where "kNewStream = 2"
definition kControlSignaling :: u8 where "kControlSignaling = 3"
definition kFetchNewStream :: u8 where "kFetchNewStream = 4"
definition kFetchExistingStream :: u8 where "kFetchExistingStream = 5"

lemmas data_type_defs = kDatagram_def kExistingStream_def kNewStream_def

record DataHeader =
  dh_header_len :: u8
  dh_type :: u8
  dh_sns_id :: u32
  dh_track_full_name_hash :: u64
  dh_priority :: u8
  dh_ttl :: u32

definition DataHeader_init :: DataHeader where
  "DataHeader_init = \<lparr>dh_header_len = 0, dh_type = kNewStream, dh_sns_id = 0, dh_track_full_name_hash = 0,
     dh_priority = 1, dh_ttl = 2000\<rparr>"

definition DataHeader_make :: "u32 \<Rightarrow> u64 \<Rightarrow> u8 \<Rightarrow> DataHeader" where
  "DataHeader_make sid full_name typ =
     DataHeader_init\<lparr>dh_type := typ, dh_sns_id := sid, dh_track_full_name_hash := full_name\<rparr>"

definition DataHeader_SizeBytes :: "DataHeader \<Rightarrow> u32" where
  "DataHeader_SizeBytes h =
     (if dh_header_len h \<noteq> 0 then ucast (dh_header_len h)
      else 2 + (if dh_type h = kDatagram then 4 + 8
                else if dh_type h = kNewStream then 4 + 8 + 1 + 4
                else 0))"

definition DataHeader_Deserialize :: "DataHeader \<Rightarrow> bytes \<Rightarrow> DataHeader \<times> bool res" where
  "DataHeader_Deserialize h bs =
     (case bs of
        [] \<Rightarrow> (h, Inr False)
      | header_len # rest \<Rightarrow>
          (let h = h\<lparr>dh_header_len := header_len\<rparr> in
           if length bs < unat header_len then (h, Inl Std_Invalid_Argument)
           else case rd_byte rest of
             Inl e \<Rightarrow> (h, Inl e)
           | Inr (typ, rest) \<Rightarrow>
              (let h = h\<lparr>dh_type := typ\<rparr> in
               if typ = kDatagram \<or> typ = kNewStream then
                 (case rd_int rest of Inl e \<Rightarrow> (h, Inl e) | Inr (sid, rest) \<Rightarrow>
                  (let h = h\<lparr>dh_sns_id := sid\<rparr> in
                   case rd_int rest of Inl e \<Rightarrow> (h, Inl e) | Inr (tfn, rest) \<Rightarrow>
                   (let h = h\<lparr>dh_track_full_name_hash := tfn\<rparr> in
                    if typ = kNewStream then
                      (case rd_byte rest of Inl e \<Rightarrow> (h, Inl e) | Inr (priority, rest) \<Rightarrow>
                       (let h = h\<lparr>dh_priority := priority\<rparr> in
                        case rd_int rest of Inl e \<Rightarrow> (h, Inl e) | Inr (ttl, rest) \<Rightarrow>
                          (h\<lparr>dh_ttl := ttl\<rparr>, Inr True)))
                    else (h, Inr True))))
               else (h, Inr True))))"

text \<open>The fields behind the length and type bytes.\<close>

definition DataHeader_fields :: "DataHeader \<Rightarrow> bytes" where
  "DataHeader_fields h =
     (if dh_type h = kDatagram then put_int (dh_sns_id h) @ put_int (dh_track_full_name_hash h)
      else if dh_type h = kNewStream
      then put_int (dh_sns_id h) @ put_int (dh_track_full_name_hash h) @ [dh_priority h] @ put_int (dh_ttl h)
      else [])"

text \<open>\<open>operator<<\<close> on an empty vector with the given capacity.  The first byte, written through the
  pointer, is 2 and then increased by the sizes of the fields.\<close>

definition DataHeader_write :: "nat \<Rightarrow> DataHeader \<Rightarrow> bytes res" where
  "DataHeader_write capacity h =
     (if dh_type h = kExistingStream then Inr []
      else let fields = DataHeader_fields h in
        if capacity < 2 + length fields \<and> fields \<noteq> [] then Inl Out_Of_Bounds
        else Inr ((2 + word_of_nat (length fields)) # dh_type h # fields))"

definition DataHeader_Serialize :: "DataHeader \<Rightarrow> bytes res" where
  "DataHeader_Serialize h = DataHeader_write (unat (DataHeader_SizeBytes h)) h"

definition header_bytes :: "DataHeader \<Rightarrow> nat" where
  "header_bytes h = (if dh_type h = kDatagram then 14 else if dh_type h = kNewStream then 19
     else if dh_type h = kExistingStream then 0 else 2)"

lemma length_DataHeader_fields: "length (DataHeader_fields h) =
    (if dh_type h = kDatagram then 12 else if dh_type h = kNewStream then 17 else 0)"
  by (simp add: DataHeader_fields_def)

lemma data_types_distinct [simp]: "kDatagram \<noteq> kNewStream" "kDatagram \<noteq> kExistingStream" "kNewStream \<noteq> kExistingStream"
  "kNewStream \<noteq> kDatagram" "kExistingStream \<noteq> kDatagram" "kExistingStream \<noteq> kNewStream"
  by (simp_all add: data_type_defs)

text \<open>A header that was never given a length (or its right one) reserves what it writes.\<close>

lemma DataHeader_Serialize_eq:
  assumes "dh_type h = kDatagram \<or> dh_type h = kNewStream"
    and "dh_header_len h = 0 \<or> unat (dh_header_len h) = header_bytes h"
  shows "DataHeader_Serialize h = Inr (word_of_nat (header_bytes h) # dh_type h # DataHeader_fields h)"
proof -
  have "unat (DataHeader_SizeBytes h) = header_bytes h"
    using assms by (auto simp: DataHeader_SizeBytes_def header_bytes_def unsigned_ucast_eq take_bit_nat_eq_self)
  then show ?thesis using assms(1)
    by (auto simp: DataHeader_Serialize_def DataHeader_write_def Let_def length_DataHeader_fields header_bytes_def)
qed

lemma DataHeader_Deserialize_fields:
  assumes "dh_type h = kDatagram \<or> dh_type h = kNewStream"
  shows "DataHeader_Deserialize h0 (word_of_nat (header_bytes h) # dh_type h # DataHeader_fields h @ payload)
    = (h\<lparr>dh_header_len := word_of_nat (header_bytes h),
         dh_priority := (if dh_type h = kNewStream then dh_priority h else dh_priority h0),
         dh_ttl := (if dh_type h = kNewStream then dh_ttl h else dh_ttl h0)\<rparr>, Inr True)"
  using assms
proof
  assume t: "dh_type h = kDatagram"
  then show ?thesis
    by (simp add: DataHeader_Deserialize_def Let_def DataHeader_fields_def header_bytes_def)
next
  assume t: "dh_type h = kNewStream"
  then show ?thesis
    by (simp add: DataHeader_Deserialize_def Let_def DataHeader_fields_def header_bytes_def)
qed

text \<open>C38. A data header survives the wire.  The header of a datagram (14 bytes) or of a new stream
  (19 bytes) is followed by the payload; deserialising header and payload gives the type, node set
  identifier, track and, for a stream, priority and time to live, and a header length that is
  exactly the number of header bytes, so the payload starts where the writer put it.  An existing
  stream has no header.\<close>

theorem data_header_roundtrip:
  assumes "dh_type h = kDatagram \<or> dh_type h = kNewStream" and "dh_header_len h = 0"
  shows "\<exists>hdr h'. DataHeader_Serialize h = Inr hdr
      \<and> length hdr = header_bytes h
      \<and> DataHeader_Deserialize DataHeader_init (hdr @ payload) = (h', Inr True)
      \<and> drop (unat (dh_header_len h')) (hdr @ payload) = payload
      \<and> dh_type h' = dh_type h \<and> dh_sns_id h' = dh_sns_id h
      \<and> dh_track_full_name_hash h' = dh_track_full_name_hash h
      \<and> (dh_type h = kNewStream \<longrightarrow> dh_priority h' = dh_priority h \<and> dh_ttl h' = dh_ttl h)
      \<and> DataHeader_Serialize (h\<lparr>dh_type := kExistingStream\<rparr>) = Inr []"
proof -
  have l: "unat (word_of_nat (header_bytes h) :: u8) = header_bytes h"
    by (simp add: header_bytes_def)
  have n: "header_bytes h = 2 + length (DataHeader_fields h)"
    using assms(1) by (auto simp: header_bytes_def length_DataHeader_fields)
  have "DataHeader_Serialize (h\<lparr>dh_type := kExistingStream\<rparr>) = Inr []"
    by (simp add: DataHeader_Serialize_def DataHeader_write_def)
  then show ?thesis
    using DataHeader_Serialize_eq [OF assms(1)] assms(2) DataHeader_Deserialize_fields [OF assms(1), of DataHeader_init payload] l n
    by simp
qed

theorem data_header_roundtrip_witness:
  "\<exists>hdr h'. DataHeader_Serialize (DataHeader_make 5 77 kNewStream) = Inr hdr \<and> length hdr = 19
     \<and> DataHeader_Deserialize DataHeader_init (hdr @ [1, 2]) = (h', Inr True) \<and> dh_sns_id h' = 5"
  using data_header_roundtrip [of "DataHeader_make 5 77 kNewStream" "[1, 2]"]
  by (auto simp: DataHeader_make_def DataHeader_init_def header_bytes_def)

text \<open>\<open>Deserialize\<close> checks the span against the length the peer claims, not against what the type
  needs: a short header is read past the end of the span.\<close>

lemma data_header_short_reads_out:
  "DataHeader_Deserialize DataHeader_init [2, kNewStream] = (DataHeader_init\<lparr>dh_header_len := 2\<rparr>, Inl Out_Of_Bounds)"
  by (simp add: DataHeader_Deserialize_def DataHeader_init_def data_type_defs rd_int_short)

lemma data_header_truncated:
  "Suc (length bs) < unat n \<Longrightarrow> DataHeader_Deserialize h (n # bs) = (h\<lparr>dh_header_len := n\<rparr>, Inl Std_Invalid_Argument)"
  by (simp add: DataHeader_Deserialize_def)

end
