(* ===== verification/Publish_Namespace.thy ===== *)
theory Publish_Namespace
  imports Laps_Prelude
begin

text \<open>
  Publishing towards subscribers: \<open>src/src/publish_handler.{h,cc}\<close> (one track to one subscriber)
  and \<open>src/src/publish_namespace_handler.{h,cc}\<close> (the tracks under a subscribed prefix, of which
  the best \<open>max_tracks_selected_\<close> are active).

  Track handlers are shared objects: they live in a store (\<open>pe_tracks\<close>) and are referred to by
  number, a \<open>weak_ptr\<close> whose number is not in the store is expired.  The base classes are
  libquicr's: their operations are the record \<open>pub_api\<close>, with the contract \<open>pub_contract\<close>; calls
  whose effect lies outside the handlers are entries of a log.
\<close>

section \<open>Track handlers\<close>

datatype pub_status =
    PS_Ok | PS_NotConnected | PS_NotAnnounced | PS_AnnounceNotAuthorized | PS_PendingAnnounceResponse
  | PS_NoSubscribers | PS_SendingUnannounce | PS_Paused | PS_SubscriptionUpdated | PS_NewGroupRequested
  | PS_Other nat

type_synonym tref = nat

record PublishTrackHandler =
  pth_laps :: bool                                      \<comment> \<open>the dynamic type is \<open>laps::PublishTrackHandler\<close>\<close>
  pth_status :: pub_status
  pth_track_alias :: "u64 option"
  pth_streams :: "(u64, (u64, u64 option) omap) omap"   \<comment> \<open>\<open>stream_info_by_group_\<close>: the last object id\<close>
  pth_start_location :: "u64 \<times> u64"                    \<comment> \<open>group and object\<close>

datatype pub_event =
    Ev_Base_End_Subgroup tref u64 u64 bool
  | Ev_Peer_End_Subgroup u64 u64 u64 bool      \<comment> \<open>\<open>PeerManager::EndSubgroup\<close>\<close>
  | Ev_Base_Publish_Track tref
  | Ev_Publish_Object tref u64 u64 bytes
  | Ev_Forward_Data tref bool u64 u64 bytes

record pub_env =
  pe_tracks :: "(tref, PublishTrackHandler) omap"
  pe_log :: "pub_event list"

text \<open>The base class operations.\<close>

record pub_api =
  q_set_status :: "pub_status \<Rightarrow> PublishTrackHandler \<Rightarrow> PublishTrackHandler"
  q_end_subgroup :: "u64 \<Rightarrow> u64 \<Rightarrow> bool \<Rightarrow> PublishTrackHandler \<Rightarrow> PublishTrackHandler"
  q_publish_track :: "tref \<Rightarrow> PublishTrackHandler \<Rightarrow> (u64, tref) omap \<Rightarrow> PublishTrackHandler \<times> (u64, tref) omap"
  q_set_track_mode :: "nat \<Rightarrow> PublishTrackHandler \<Rightarrow> PublishTrackHandler"
  q_publish_object :: "PublishTrackHandler \<Rightarrow> u64 \<Rightarrow> u64 \<Rightarrow> bytes \<Rightarrow> PublishTrackHandler \<times> nat"
  q_forward_data :: "PublishTrackHandler \<Rightarrow> bool \<Rightarrow> u64 \<Rightarrow> u64 \<Rightarrow> bytes \<Rightarrow> PublishTrackHandler \<times> nat"

text \<open>
  What the handlers rely on: \<open>SetStatus\<close> sets what \<open>GetStatus\<close> returns and leaves the alias,
  ending a subgroup changes neither, publishing keeps the alias and does not pause the track.
\<close>

locale pub_contract =
  fixes api :: pub_api
  assumes set_status: "pth_status (q_set_status api st h) = st"
    and set_status_alias: "pth_track_alias (q_set_status api st h) = pth_track_alias h"
    and end_subgroup_status: "pth_status (q_end_subgroup api g s c h) = pth_status h"
    and end_subgroup_alias: "pth_track_alias (q_end_subgroup api g s c h) = pth_track_alias h"
    and publish_track_alias: "pth_track_alias (fst (q_publish_track api r h hs)) = pth_track_alias h"
    and publish_track_status: "pth_status h \<noteq> PS_Paused \<Longrightarrow> pth_status (fst (q_publish_track api r h hs)) \<noteq> PS_Paused"

definition kPublishOk :: nat where "kPublishOk = 0"

text \<open>\<open>lock()\<close>, and an update of the object a reference points to.\<close>

definition lock_track :: "pub_env \<Rightarrow> tref \<Rightarrow> PublishTrackHandler option" where
  "lock_track e r = map_of (pe_tracks e) r"

definition upd_track :: "tref \<Rightarrow> (PublishTrackHandler \<Rightarrow> PublishTrackHandler) \<Rightarrow> pub_env \<Rightarrow> pub_env" where
  "upd_track r f e = (case lock_track e r of
      None \<Rightarrow> e | Some h \<Rightarrow> e\<lparr>pe_tracks := mput r (f h) (pe_tracks e)\<rparr>)"

definition pub_emit :: "pub_event \<Rightarrow> pub_env \<Rightarrow> pub_env" where
  "pub_emit ev e = e\<lparr>pe_log := pe_log e @ [ev]\<rparr>"

text \<open>\<open>SentFirstObject\<close> has \<open>uint32_t\<close> parameters and is called with 64 bit identifiers.\<close>

definition SentFirstObject :: "PublishTrackHandler \<Rightarrow> u32 \<Rightarrow> u32 \<Rightarrow> bool" where
  "SentFirstObject h group_id subgroup_id =
     (case map_of (pth_streams h) (ucast group_id) of
        None \<Rightarrow> False
      | Some subgroups \<Rightarrow> (case map_of subgroups (ucast subgroup_id) of
            None \<Rightarrow> False
          | Some last_object_id \<Rightarrow> last_object_id \<noteq> None))"

text \<open>\<open>StatusChanged\<close> only reports: the line it logs, for a status other than ok.\<close>

fun status_reason :: "pub_status \<Rightarrow> string" where
  "status_reason PS_NotConnected = ''not connected''"
| "status_reason PS_NotAnnounced = ''not announced''"
| "status_reason PS_AnnounceNotAuthorized = ''not authorized''"
| "status_reason PS_PendingAnnounceResponse = ''pending announce response''"
| "status_reason PS_NoSubscribers = ''no subscribers''"
| "status_reason PS_SendingUnannounce = ''sending unannounce''"
| "status_reason PS_Paused = ''paused''"
| "status_reason PS_SubscriptionUpdated = ''subscription updated''"
| "status_reason PS_NewGroupRequested = ''new group requested''"
| "status_reason _ = ''''"

definition PTH_StatusChanged :: "PublishTrackHandler \<Rightarrow> pub_status \<Rightarrow> (u64 \<times> string) option res" where
  "PTH_StatusChanged h status =
     (if status = PS_Ok then Inr None
      else case pth_track_alias h of
        None \<Rightarrow> Inl Std_Bad_Optional
      | Some ta \<Rightarrow> Inr (Some (ta, status_reason status)))"

definition PTH_EndSubgroup :: "pub_api \<Rightarrow> tref \<Rightarrow> u64 \<Rightarrow> u64 \<Rightarrow> bool \<Rightarrow> pub_env \<Rightarrow> pub_env" where
  "PTH_EndSubgroup api r group_id subgroup_id completed e =
     (let e = pub_emit (Ev_Base_End_Subgroup r group_id subgroup_id completed)
                (upd_track r (q_end_subgroup api group_id subgroup_id completed) e) in
      case lock_track e r of
        None \<Rightarrow> e
      | Some h \<Rightarrow> (case pth_track_alias h of
            None \<Rightarrow> e
          | Some ta \<Rightarrow> pub_emit (Ev_Peer_End_Subgroup ta group_id subgroup_id (\<not> completed)) e))"

definition rm_subgroups :: "PublishTrackHandler \<Rightarrow> (u64 \<times> u64) list" where
  "rm_subgroups h = concat (map (\<lambda>(g, subs). map (\<lambda>(s, _). (g, s)) subs) (pth_streams h))"

definition AbruptCloseAllSubgroups :: "pub_api \<Rightarrow> tref \<Rightarrow> pub_env \<Rightarrow> pub_env" where
  "AbruptCloseAllSubgroups api r e = (case lock_track e r of
      None \<Rightarrow> e
    | Some h \<Rightarrow> fold (\<lambda>(g, s). PTH_EndSubgroup api r g s False) (rm_subgroups h) e)"

section \<open>Namespace handlers\<close>

type_synonym ranked_track = "u64 \<times> u64 \<times> u64 \<times> u64"  \<comment> \<open>alias, insert sequence, latest tick, connection\<close>

record ActiveTrack =
  at_last_updated_tick :: u64
  at_handler :: tref

record PublishNamespaceHandler =
  pns_prefix :: "bytes list"
  pns_connection_id :: u64
  pns_max_tracks_selected :: u64
  pns_inactive_age_ms :: u64
  pns_property_type :: "u64 option"
  pns_delay_publish_done_ms :: u64
  pns_published_tracks :: "(u64, ActiveTrack) omap"
  pns_handlers :: "(u64, tref) omap"   \<comment> \<open>\<open>handlers_\<close> of the base class\<close>

definition PNS_make :: "bytes list \<Rightarrow> u64 \<Rightarrow> PublishNamespaceHandler" where
  "PNS_make prefix conn = \<lparr>pns_prefix = prefix, pns_connection_id = conn, pns_max_tracks_selected = 1,
     pns_inactive_age_ms = 10000, pns_property_type = None, pns_delay_publish_done_ms = 20000,
     pns_published_tracks = [], pns_handlers = []\<rparr>"

text \<open>Milliseconds of the tick service, 0 when the service is gone.\<close>

definition cur_ticks :: "u64 option \<Rightarrow> u64" where
  "cur_ticks now = (case now of None \<Rightarrow> 0 | Some t \<Rightarrow> t)"

type_synonym pns_state = "PublishNamespaceHandler \<times> pub_env"

definition PNS_PublishTrack :: "pub_api \<Rightarrow> u64 option \<Rightarrow> tref \<Rightarrow> PublishTrackHandler \<Rightarrow> pns_state \<Rightarrow> pns_state \<times> unit res" where
  "PNS_PublishTrack api now r h st =
     (case st of (p, e) \<Rightarrow>
       let (h, hs) = q_publish_track api r h (pns_handlers p);
           p = p\<lparr>pns_handlers := hs\<rparr>;
           e = pub_emit (Ev_Base_Publish_Track r) (upd_track r (\<lambda>_. h) e)
       in case pth_track_alias h of
            None \<Rightarrow> ((p, e), Inl Std_Bad_Optional)
          | Some ta \<Rightarrow>
              ((p\<lparr>pns_published_tracks := fst (mtry ta \<lparr>at_last_updated_tick = cur_ticks now, at_handler = r\<rparr>
                    (pns_published_tracks p))\<rparr>, e), Inr ()))"

definition PNS_PublishObject :: "pub_api \<Rightarrow> u64 \<Rightarrow> u64 \<Rightarrow> u64 \<Rightarrow> nat option \<Rightarrow> bytes \<Rightarrow> pns_state \<Rightarrow> pns_state \<times> nat res" where
  "PNS_PublishObject api tfn group_id subgroup_id track_mode data st =
     (case st of (p, e) \<Rightarrow>
       (case map_of (pns_handlers p) tfn of
          None \<Rightarrow> (st, Inr kPublishOk)
        | Some r \<Rightarrow> (case lock_track e r of
            None \<Rightarrow> (st, Inl Null_Deref)
          | Some h \<Rightarrow>
              if \<not> pth_laps h then (st, Inl Null_Deref)
              else if SentFirstObject h (ucast group_id) (ucast subgroup_id) then (st, Inr kPublishOk)
              else let h = (case track_mode of None \<Rightarrow> h | Some m \<Rightarrow> q_set_track_mode api m h);
                       (h, rc) = q_publish_object api h group_id subgroup_id data
                   in ((p, pub_emit (Ev_Publish_Object r group_id subgroup_id data) (upd_track r (\<lambda>_. h) e)), Inr rc))))"

definition PNS_ForwardPublishedData :: "pub_api \<Rightarrow> u64 \<Rightarrow> bool \<Rightarrow> u64 \<Rightarrow> u64 \<Rightarrow> bytes \<Rightarrow> pns_state \<Rightarrow> pns_state \<times> nat res" where
  "PNS_ForwardPublishedData api tfn is_new_stream group_id subgroup_id data st =
     (case st of (p, e) \<Rightarrow>
       (case map_of (pns_handlers p) tfn of
          None \<Rightarrow> (st, Inr kPublishOk)
        | Some r \<Rightarrow> (case lock_track e r of
            None \<Rightarrow> (st, Inl Null_Deref)
          | Some h \<Rightarrow>
              if \<not> pth_laps h then (st, Inl Null_Deref)
              else if \<not> SentFirstObject h (ucast group_id) (ucast subgroup_id) then (st, Inr kPublishOk)
              else let (h, rc) = q_forward_data api h is_new_stream group_id subgroup_id data
                   in ((p, pub_emit (Ev_Forward_Data r is_new_stream group_id subgroup_id data) (upd_track r (\<lambda>_. h) e)), Inr rc))))"

definition PNS_EndSubgroup :: "pub_api \<Rightarrow> u64 \<Rightarrow> u64 \<Rightarrow> bool \<Rightarrow> pns_state \<Rightarrow> pns_state" where
  "PNS_EndSubgroup api group_id subgroup_id completed st =
     (case st of (p, e) \<Rightarrow>
       (p, fold (\<lambda>(ta, track) e. case lock_track e (at_handler track) of
                    None \<Rightarrow> e
                  | Some _ \<Rightarrow> PTH_EndSubgroup api (at_handler track) group_id subgroup_id completed e)
             (pns_published_tracks p) e))"

subsection \<open>Applying a ranking\<close>

text \<open>The first loop: the latest tick of every published track in the ranking.\<close>

definition set_tick :: "u64 \<Rightarrow> u64 \<Rightarrow> PublishNamespaceHandler \<Rightarrow> PublishNamespaceHandler" where
  "set_tick ta tick p = (case map_of (pns_published_tracks p) ta of
      None \<Rightarrow> p
    | Some track \<Rightarrow> p\<lparr>pns_published_tracks := mput ta (track\<lparr>at_last_updated_tick := tick\<rparr>) (pns_published_tracks p)\<rparr>)"

definition tick_loop :: "ranked_track list \<Rightarrow> PublishNamespaceHandler \<Rightarrow> PublishNamespaceHandler" where
  "tick_loop ordered p = fold (\<lambda>(ta, _, latest_tick, _). set_tick ta latest_tick) ordered p"

text \<open>One track chosen: a paused handler is resumed, and published if it is not yet.\<close>

definition select_track :: "pub_api \<Rightarrow> u64 option \<Rightarrow> u64 \<Rightarrow> u64 \<Rightarrow> ActiveTrack \<Rightarrow> pns_state \<Rightarrow> pns_state \<times> unit res" where
  "select_track api now ta latest_tick track st =
     (case st of (p, e) \<Rightarrow>
       (case lock_track e (at_handler track) of
          None \<Rightarrow> (st, Inl Null_Deref)
        | Some h \<Rightarrow>
            if pth_status h = PS_Paused then
              (let h = q_set_status api PS_Ok h;
                   e = upd_track (at_handler track) (\<lambda>_. h) e
               in if map_of (pns_handlers p) ta = None
                  then PNS_PublishTrack api now (at_handler track) h (p, e)
                  else ((set_tick ta latest_tick p, e), Inr ()))
            else (st, Inr ())))"

text \<open>The second loop, with the aliases chosen so far (the keys of \<open>active_tracks\<close>).\<close>

fun select_loop :: "pub_api \<Rightarrow> u64 option \<Rightarrow> ranked_track list \<Rightarrow> u64 list \<Rightarrow> pns_state \<Rightarrow> pns_state \<times> u64 list res" where
  "select_loop api now [] active st = (st, Inr active)"
| "select_loop api now ((ta, seq, latest_tick, conn) # rest) active st =
     (if unat (pns_max_tracks_selected (fst st)) \<le> length active then (st, Inr active)
      else if conn = pns_connection_id (fst st) then select_loop api now rest active st
      else case map_of (pns_published_tracks (fst st)) ta of
        None \<Rightarrow> select_loop api now rest active st
      | Some track \<Rightarrow>
          andthen (select_track api now ta latest_tick track st)
            (\<lambda>_. select_loop api now rest (insort_insert ta active)))"

text \<open>The third loop: every other published track that is ok is paused.\<close>

definition pause_track :: "pub_api \<Rightarrow> u64 list \<Rightarrow> u64 \<times> ActiveTrack \<Rightarrow> pub_env \<Rightarrow> pub_env" where
  "pause_track api active tt e =
     (case tt of (ta, track) \<Rightarrow>
       if ta \<in> set active then e
       else case lock_track e (at_handler track) of
         None \<Rightarrow> e
       | Some h \<Rightarrow>
           if pth_status h = PS_Ok
           then upd_track (at_handler track) (q_set_status api PS_Paused)
                  (if pth_laps h then AbruptCloseAllSubgroups api (at_handler track) e else e)
           else e)"

definition PNS_UpdateTrackRanking :: "pub_api \<Rightarrow> u64 option \<Rightarrow> ranked_track list \<Rightarrow> pns_state \<Rightarrow> pns_state \<times> unit res" where
  "PNS_UpdateTrackRanking api now ordered st =
     (if pns_property_type (fst st) = None then (st, Inr ())
      else andthen (select_loop api now ordered [] (tick_loop ordered (fst st), snd st)) (\<lambda>active (p, e).
        ((p, if unat (pns_max_tracks_selected p) < length (pns_published_tracks p)
             then fold (pause_track api active) (pns_published_tracks p) e else e), Inr ())))"

section \<open>Frame facts of the store\<close>

lemma lock_upd_track: "lock_track (upd_track r f e) r' =
    (if r' = r then map_option f (lock_track e r) else lock_track e r')"
  by (auto simp: upd_track_def lock_track_def split: option.splits)

lemma lock_emit [simp]: "lock_track (pub_emit ev e) r = lock_track e r"
  by (simp add: lock_track_def pub_emit_def)

text \<open>Status and alias of every handler.\<close>

definition core :: "pub_env \<Rightarrow> tref \<Rightarrow> (pub_status \<times> u64 option) option" where
  "core e r = map_option (\<lambda>h. (pth_status h, pth_track_alias h)) (lock_track e r)"

lemma core_emit [simp]: "core (pub_emit ev e) = core e"
  by (simp add: core_def fun_eq_iff)

lemma core_upd_track: "core (upd_track r f e) r' =
    (if r' = r then map_option (\<lambda>h. (pth_status (f h), pth_track_alias (f h))) (lock_track e r) else core e r')"
  by (simp add: core_def lock_upd_track option.map_comp comp_def)

context pub_contract
begin

lemma core_EndSubgroup: "core (PTH_EndSubgroup api r g s c e) = core e"
proof -
  have "core (upd_track r (q_end_subgroup api g s c) e) r' = core e r'" for r'
    by (auto simp: core_upd_track end_subgroup_status end_subgroup_alias) (simp add: core_def)
  then show ?thesis by (simp add: PTH_EndSubgroup_def Let_def fun_eq_iff split: option.splits)
qed

lemma core_AbruptClose: "core (AbruptCloseAllSubgroups api r e) = core e"
proof -
  have "core (fold (\<lambda>(g, s). PTH_EndSubgroup api r g s False) xs e) = core e" for xs
    by (induction xs arbitrary: e) (auto simp: core_EndSubgroup)
  then show ?thesis by (simp add: AbruptCloseAllSubgroups_def split: option.splits)
qed

lemma core_pause_track: "core (pause_track api active (ta, track) e) r =
    (if ta \<notin> set active \<and> r = at_handler track
     then map_option (\<lambda>(st, al). (if st = PS_Ok then PS_Paused else st, al)) (core e r) else core e r)"
proof (cases "ta \<in> set active \<or> lock_track e (at_handler track) = None")
  case True
  then show ?thesis by (auto simp: pause_track_def core_def)
next
  case False
  then obtain h where h: "lock_track e (at_handler track) = Some h" "ta \<notin> set active" by blast
  define e' where "e' = (if pth_laps h then AbruptCloseAllSubgroups api (at_handler track) e else e)"
  have core': "core e' = core e" by (simp add: e'_def core_AbruptClose)
  show ?thesis
  proof (cases "pth_status h = PS_Ok")
    case False
    with h have "pause_track api active (ta, track) e = e" by (simp add: pause_track_def)
    moreover have "core e (at_handler track) = Some (pth_status h, pth_track_alias h)"
      using h by (simp add: core_def)
    ultimately show ?thesis using False by auto
  next
    case True
    have "core e' (at_handler track) = Some (PS_Ok, pth_track_alias h)"
      using h True unfolding core' by (simp add: core_def)
    then obtain h' where h': "lock_track e' (at_handler track) = Some h'" "pth_track_alias h' = pth_track_alias h"
      by (auto simp: core_def)
    have "pause_track api active (ta, track) e = upd_track (at_handler track) (q_set_status api PS_Paused) e'"
      using h True by (simp add: pause_track_def e'_def)
    then show ?thesis
      using h h' True by (auto simp: core_upd_track set_status set_status_alias core') (simp add: core_def)
  qed
qed

end

section \<open>The best tracks are active\<close>

text \<open>Every published track has a live handler of its own, known under the track's alias.\<close>

definition pns_wf :: "pns_state \<Rightarrow> bool" where
  "pns_wf st \<longleftrightarrow> msorted (pns_published_tracks (fst st))
     \<and> (\<forall>(ta, track) \<in> set (pns_published_tracks (fst st)). \<exists>s. core (snd st) (at_handler track) = Some (s, Some ta))"

definition track_status :: "pns_state \<Rightarrow> u64 \<Rightarrow> pub_status option" where
  "track_status st ta = (case map_of (pns_published_tracks (fst st)) ta of
      None \<Rightarrow> None | Some track \<Rightarrow> map_option fst (core (snd st) (at_handler track)))"

definition handler_of :: "PublishNamespaceHandler \<Rightarrow> u64 \<Rightarrow> tref option" where
  "handler_of p ta = map_option at_handler (map_of (pns_published_tracks p) ta)"

definition published :: "PublishNamespaceHandler \<Rightarrow> u64 set" where
  "published p = fst ` set (pns_published_tracks p)"

text \<open>The candidates of a ranking, in order: published here, and not from the subscriber itself.\<close>

definition candidates :: "PublishNamespaceHandler \<Rightarrow> ranked_track list \<Rightarrow> u64 list" where
  "candidates p ordered = map fst (filter (\<lambda>(ta, _, _, conn).
     conn \<noteq> pns_connection_id p \<and> map_of (pns_published_tracks p) ta \<noteq> None) ordered)"

text \<open>What the selection leaves as it was.\<close>

definition same_frame :: "PublishNamespaceHandler \<Rightarrow> PublishNamespaceHandler \<Rightarrow> bool" where
  "same_frame p p' \<longleftrightarrow> handler_of p' = handler_of p \<and> pns_connection_id p' = pns_connection_id p
     \<and> pns_max_tracks_selected p' = pns_max_tracks_selected p \<and> (msorted (pns_published_tracks p) \<longrightarrow> msorted (pns_published_tracks p'))"

lemma same_frame_refl [simp]: "same_frame p p"
  by (simp add: same_frame_def)

lemma same_frame_trans: "same_frame p q \<Longrightarrow> same_frame q r \<Longrightarrow> same_frame p r"
  by (simp add: same_frame_def)

lemma handler_of_None: "handler_of p ta = None \<longleftrightarrow> map_of (pns_published_tracks p) ta = None"
  by (simp add: handler_of_def)

lemma same_frame_dom: "same_frame p p' \<Longrightarrow>
    map_of (pns_published_tracks p') ta = None \<longleftrightarrow> map_of (pns_published_tracks p) ta = None"
  by (metis handler_of_None same_frame_def)

lemma same_frame_candidates: "same_frame p p' \<Longrightarrow> candidates p' xs = candidates p xs"
  unfolding candidates_def using same_frame_dom [of p p'] by (simp add: same_frame_def)

lemma track_status_eq: "track_status st ta = (case handler_of (fst st) ta of
    None \<Rightarrow> None | Some r \<Rightarrow> map_option fst (core (snd st) r))"
  by (simp add: track_status_def handler_of_def split: option.splits)

lemma pns_wf_iff: "pns_wf st \<longleftrightarrow> msorted (pns_published_tracks (fst st))
    \<and> (\<forall>ta r. handler_of (fst st) ta = Some r \<longrightarrow> (\<exists>s. core (snd st) r = Some (s, Some ta)))"
proof -
  have "(\<forall>(ta, track) \<in> set m. \<exists>s. core e (at_handler track) = Some (s, Some ta)) \<longleftrightarrow>
      (\<forall>ta r. map_option at_handler (map_of m ta) = Some r \<longrightarrow> (\<exists>s. core e r = Some (s, Some ta)))"
    if "msorted m" for m e
    using that by (force simp: om.entries_find)
  then show ?thesis unfolding pns_wf_def handler_of_def by blast
qed

lemma same_frame_wf: "same_frame p p' \<Longrightarrow> pns_wf (p, e) \<Longrightarrow> pns_wf (p', e)"
  by (auto simp: pns_wf_iff same_frame_def)

lemma same_frame_set_tick [simp]: "same_frame p (set_tick ta t p)"
proof (cases "map_of (pns_published_tracks p) ta")
  case (Some track)
  then show ?thesis
    by (auto simp: same_frame_def set_tick_def handler_of_def fun_eq_iff)
qed (simp add: set_tick_def)

lemma same_frame_tick_loop: "same_frame p (tick_loop ordered p)"
  unfolding tick_loop_def
proof (induction ordered arbitrary: p)
  case (Cons x xs)
  obtain ta s t c where "x = (ta, s, t, c)" by (cases x)
  then show ?case using same_frame_trans [OF same_frame_set_tick [of p ta t] Cons] by simp
qed simp

lemma same_frame_handlers [simp]: "same_frame p (p\<lparr>pns_handlers := hs\<rparr>)"
  by (simp add: same_frame_def handler_of_def fun_eq_iff)

text \<open>The state after some tracks \<open>S\<close> were selected: they are not paused any more, whatever else
  they were is kept, and no other track changed.\<close>

definition selected :: "u64 set \<Rightarrow> pns_state \<Rightarrow> pns_state \<Rightarrow> bool" where
  "selected S st st' \<longleftrightarrow> same_frame (fst st) (fst st') \<and> pns_wf st'
     \<and> (\<forall>ta. ta \<notin> S \<longrightarrow> track_status st' ta = track_status st ta)
     \<and> (\<forall>ta \<in> S. track_status st' ta \<noteq> None \<and> track_status st' ta \<noteq> Some PS_Paused
          \<and> (track_status st ta \<noteq> Some PS_Paused \<longrightarrow> track_status st' ta = track_status st ta))"

lemma selected_refl: "pns_wf st \<Longrightarrow> selected {} st st"
  by (simp add: selected_def)

lemma selected_trans:
  assumes "selected S st st'" "selected T st' st''"
  shows "selected (S \<union> T) st st''"
  using assms unfolding selected_def by (metis Un_iff same_frame_trans)

text \<open>Two published tracks never share a handler.\<close>

lemma wf_handler_inj: "pns_wf st \<Longrightarrow> handler_of (fst st) ta = Some r \<Longrightarrow> handler_of (fst st) tb = Some r \<Longrightarrow> ta = tb"
  by (metis pns_wf_iff option.inject prod.inject)

text \<open>A change confined to the handler of one track.\<close>

lemma selected_one:
  assumes wf: "pns_wf (p, e)" and ta: "handler_of p ta = Some r" and fr: "same_frame p p'"
    and others: "\<And>r'. r' \<noteq> r \<Longrightarrow> core e' r' = core e r'"
    and own: "core e' r = Some (s', Some ta)" "s' \<noteq> PS_Paused"
    and keep: "\<And>s a. core e r = Some (s, a) \<Longrightarrow> s \<noteq> PS_Paused \<Longrightarrow> s' = s"
  shows "selected {ta} (p, e) (p', e')"
proof -
  have h: "handler_of p' = handler_of p" using fr by (simp add: same_frame_def)
  have inj: "tb = ta" if "handler_of p tb = Some r" for tb
    using wf_handler_inj [OF wf] that ta by simp
  have wf': "pns_wf (p', e')"
    using wf fr own others inj unfolding pns_wf_iff same_frame_def by (metis fst_conv snd_conv)
  have st': "track_status (p', e') ta = Some s'" using ta own by (simp add: track_status_eq h)
  have "track_status (p', e') tb = track_status (p, e) tb" if "tb \<noteq> ta" for tb
  proof (cases "handler_of p tb")
    case (Some r')
    then have "r' \<noteq> r" using inj that by blast
    with Some others show ?thesis by (simp add: track_status_eq h)
  qed (simp add: track_status_eq h)
  moreover have "track_status (p, e) ta \<noteq> Some PS_Paused \<Longrightarrow> track_status (p, e) ta = Some s'"
    using wf ta keep by (fastforce simp: track_status_eq pns_wf_iff)
  ultimately show ?thesis using fr wf' st' own(2) by (simp add: selected_def)
qed

text \<open>Pausing: an ok track becomes paused.\<close>

definition paused :: "pub_status \<Rightarrow> pub_status" where
  "paused s = (if s = PS_Ok then PS_Paused else s)"

context pub_contract
begin

lemma select_track_spec:
  assumes wf: "pns_wf (p, e)" and ta: "map_of (pns_published_tracks p) ta = Some track"
  obtains p' e' where "select_track api now ta tick track (p, e) = ((p', e'), Inr ())"
    and "selected {ta} (p, e) (p', e')"
proof -
  let ?r = "at_handler track"
  have hr: "handler_of p ta = Some ?r" using ta by (simp add: handler_of_def)
  obtain h where h: "lock_track e ?r = Some h" "pth_track_alias h = Some ta"
    using wf hr by (fastforce simp: pns_wf_iff core_def)
  note one = selected_one [OF wf hr]
  define h1 where "h1 = q_set_status api PS_Ok h"
  have h1: "pth_status h1 = PS_Ok" "pth_track_alias h1 = Some ta"
    using h by (simp_all add: h1_def set_status set_status_alias)
  define e1 where "e1 = upd_track ?r (\<lambda>_. h1) e"
  obtain h2 hs where q: "q_publish_track api ?r h1 (pns_handlers p) = (h2, hs)" by fastforce
  have h2: "pth_status h2 \<noteq> PS_Paused" "pth_track_alias h2 = Some ta"
    using publish_track_status [of h1 ?r "pns_handlers p"] publish_track_alias [of ?r h1 "pns_handlers p"] h1 q by simp_all
  consider "pth_status h \<noteq> PS_Paused" | "pth_status h = PS_Paused" "map_of (pns_handlers p) ta = None"
    | "pth_status h = PS_Paused" "map_of (pns_handlers p) ta \<noteq> None" by blast
  then show thesis
  proof cases
    case 1
    show ?thesis
      by (rule that [of p e]) (use 1 h in \<open>auto intro: one simp: select_track_def core_def\<close>)
  next
    case 2
    let ?p = "p\<lparr>pns_handlers := hs\<rparr>" and ?e = "pub_emit (Ev_Base_Publish_Track ?r) (upd_track ?r (\<lambda>_. h2) e1)"
    have "fst (mtry ta v (pns_published_tracks p)) = pns_published_tracks p" for v
      using ta by (simp add: fst_mtry)
    then have "select_track api now ta tick track (p, e) = ((?p, ?e), Inr ())"
      using 2 h q h1 by (simp add: select_track_def PNS_PublishTrack_def h1_def e1_def Let_def h2)
    then show ?thesis
    proof (rule that)
      show "selected {ta} (p, e) (?p, ?e)"
        by (rule one [of _ _ "pth_status h2"])
          (use 2 h h2 in \<open>auto simp: core_upd_track e1_def lock_upd_track core_def\<close>)
    qed
  next
    case 3
    then have "select_track api now ta tick track (p, e) = ((set_tick ta tick p, e1), Inr ())"
      using h by (auto simp: select_track_def h1_def e1_def Let_def)
    then show ?thesis
    proof (rule that)
      show "selected {ta} (p, e) (set_tick ta tick p, e1)"
        by (rule one [of _ _ PS_Ok]) (use 3 h h1 in \<open>auto simp: lock_upd_track e1_def core_def\<close>)
    qed
  qed
qed

lemma select_loop_spec:
  assumes "pns_wf st" and "distinct (map fst ordered)" and "distinct active" and "set active \<inter> fst ` set ordered = {}"
    and "length active \<le> unat (pns_max_tracks_selected (fst st))"
  defines "n \<equiv> unat (pns_max_tracks_selected (fst st)) - length active"
  shows "\<exists>st' active'. select_loop api now ordered active st = (st', Inr active')
    \<and> set active' = set active \<union> set (take n (candidates (fst st) ordered))
    \<and> selected (set (take n (candidates (fst st) ordered))) st st'"
  using assms(1-5) unfolding n_def
proof (induction ordered arbitrary: active st)
  case Nil
  then show ?case by (simp add: candidates_def selected_refl)
next
  case (Cons x xs)
  obtain ta s t c where x: "x = (ta, s, t, c)" by (cases x)
  let ?max = "unat (pns_max_tracks_selected (fst st))"
  have skip: ?case if "select_loop api now (x # xs) active st = select_loop api now xs active st"
    "candidates (fst st) (x # xs) = candidates (fst st) xs"
    using Cons.IH [of st active] Cons.prems that by simp
  consider "?max \<le> length active"
    | "\<not> ?max \<le> length active" "c = pns_connection_id (fst st) \<or> map_of (pns_published_tracks (fst st)) ta = None"
    | track where "\<not> ?max \<le> length active" "c \<noteq> pns_connection_id (fst st)"
        "map_of (pns_published_tracks (fst st)) ta = Some track" by fastforce
  then show ?case
  proof cases
    case 1
    with Cons.prems(1) show ?thesis by (simp add: x selected_refl)
  next
    case 2
    then show ?thesis by (intro skip) (auto simp: x candidates_def)
  next
    case 4: (3 track)
    obtain p' e' where st1: "select_track api now ta t track st = ((p', e'), Inr ())" and sel: "selected {ta} st (p', e')"
      using select_track_spec [of "fst st" "snd st" ta track now t] Cons.prems(1) 4 by auto
    have fr: "same_frame (fst st) p'" and wf': "pns_wf (p', e')" using sel by (simp_all add: selected_def)
    have max: "pns_max_tracks_selected p' = pns_max_tracks_selected (fst st)" using fr by (simp add: same_frame_def)
    have new: "ta \<notin> set active" "ta \<notin> fst ` set xs" using Cons.prems(2,4) x by auto
    let ?act = "insort_insert ta active"
    have act: "set ?act = insert ta (set active)" "length ?act = Suc (length active)" "distinct ?act"
      using new Cons.prems(3) by (simp_all add: set_insort_insert insort_insert_key_def distinct_insort set_insort_key)
    obtain k where k: "?max - length active = Suc k" "?max - length ?act = k"
      using 4(1) act(2) by (metis Suc_diff_Suc diff_Suc not_le_imp_less old.nat.simps(5))
    have cand: "candidates (fst st) (x # xs) = ta # candidates (fst st) xs"
      using 4 by (simp add: x candidates_def)
    have "\<exists>st' active'. select_loop api now xs ?act (p', e') = (st', Inr active')
      \<and> set active' = set ?act \<union> set (take k (candidates (fst st) xs))
      \<and> selected (set (take k (candidates (fst st) xs))) (p', e') st'"
      using Cons.IH [of "(p', e')" ?act] wf' Cons.prems(2,4) new act 4(1) k same_frame_candidates [OF fr, of xs] x
      by (auto simp: max)
    then obtain st' active' where IH: "select_loop api now xs ?act (p', e') = (st', Inr active')"
      "set active' = set ?act \<union> set (take k (candidates (fst st) xs))"
      "selected (set (take k (candidates (fst st) xs))) (p', e') st'" by blast
    have "select_loop api now (x # xs) active st = (st', Inr active')"
      using 4 st1 IH(1) by (simp add: x)
    moreover have "selected (set (take (Suc k) (candidates (fst st) (x # xs)))) st st'"
      using selected_trans [OF sel IH(3)] by (simp add: cand)
    ultimately show ?thesis using IH(2) act(1) k(1) by (simp add: cand)
  qed
qed

lemma core_pause_fold: "core (fold (pause_track api active) xs e) r =
    (if \<exists>(ta, track) \<in> set xs. ta \<notin> set active \<and> at_handler track = r
     then map_option (\<lambda>(st, al). (paused st, al)) (core e r) else core e r)"
proof (induction xs arbitrary: e)
  case (Cons x xs)
  obtain ta track where x: "x = (ta, track)" by (cases x)
  have pp: "map_option (\<lambda>(st, al). (paused st, al)) (map_option (\<lambda>(st, al). (paused st, al)) c)
      = map_option (\<lambda>(st, al). (paused st, al)) c" for c :: "(pub_status \<times> u64 option) option"
    by (cases c) (auto simp: paused_def)
  have "core (pause_track api active x e) r =
    (if ta \<notin> set active \<and> r = at_handler track then map_option (\<lambda>(st, al). (paused st, al)) (core e r) else core e r)"
    by (simp add: x core_pause_track paused_def)
  then show ?case using Cons [of "pause_track api active x e"] pp by (auto simp: x)
qed simp

lemma track_status_pause_fold:
  assumes "pns_wf (p, e)"
  shows "track_status (p, fold (pause_track api active) (pns_published_tracks p) e) ta =
    (if ta \<in> set active then track_status (p, e) ta else map_option paused (track_status (p, e) ta))"
proof (cases "handler_of p ta")
  case (Some r)
  have ms: "msorted (pns_published_tracks p)" using assms by (simp add: pns_wf_def)
  have "(\<exists>(tb, track) \<in> set (pns_published_tracks p). tb \<notin> set active \<and> at_handler track = r) \<longleftrightarrow> ta \<notin> set active"
  proof
    assume "\<exists>(tb, track) \<in> set (pns_published_tracks p). tb \<notin> set active \<and> at_handler track = r"
    then obtain tb track where tb: "(tb, track) \<in> set (pns_published_tracks p)" "tb \<notin> set active" "at_handler track = r"
      by blast
    then have "handler_of p tb = Some r" using ms by (simp add: handler_of_def om.entries_find)
    then have "tb = ta" using wf_handler_inj [OF assms] Some by simp
    then show "ta \<notin> set active" using tb by simp
  next
    assume "ta \<notin> set active"
    moreover obtain track where "(ta, track) \<in> set (pns_published_tracks p)" "at_handler track = r"
      using Some ms by (auto simp: handler_of_def om.entries_find)
    ultimately show "\<exists>(tb, track) \<in> set (pns_published_tracks p). tb \<notin> set active \<and> at_handler track = r" by blast
  qed
  then show ?thesis using Some by (auto simp: track_status_eq core_pause_fold option.map_comp comp_def case_prod_unfold)
qed (simp add: track_status_eq)

lemma UpdateTrackRanking_top_n:
  assumes wf: "pns_wf (p, e)" and "distinct (map fst ordered)" and pt: "pns_property_type p \<noteq> None"
    and many: "unat (pns_max_tracks_selected p) < length (pns_published_tracks p)"
  defines "best \<equiv> take (unat (pns_max_tracks_selected p)) (candidates p ordered)"
  shows "\<exists>st'. PNS_UpdateTrackRanking api now ordered (p, e) = (st', Inr ())
    \<and> (\<forall>ta. if ta \<in> set best
         then track_status st' ta \<noteq> None \<and> track_status st' ta \<noteq> Some PS_Paused
              \<and> (track_status (p, e) ta \<noteq> Some PS_Paused \<longrightarrow> track_status st' ta = track_status (p, e) ta)
         else track_status st' ta = map_option paused (track_status (p, e) ta))"
proof -
  let ?q = "tick_loop ordered p"
  have fr: "same_frame p ?q" by (rule same_frame_tick_loop)
  then have wf1: "pns_wf (?q, e)" using wf by (rule same_frame_wf)
  have max: "pns_max_tracks_selected ?q = pns_max_tracks_selected p" using fr by (simp add: same_frame_def)
  have ts: "track_status (?q, e) = track_status (p, e)"
    using fr unfolding same_frame_def by (intro ext) (simp add: track_status_eq split: option.split)
  obtain p' e' active where sl: "select_loop api now ordered [] (?q, e) = ((p', e'), Inr active)"
    "set active = set best" "selected (set best) (?q, e) (p', e')"
    using select_loop_spec [OF wf1 assms(2), of "[]" now] max same_frame_candidates [OF fr, of ordered]
    by (auto simp: best_def)
  then have fr': "same_frame p p'" and wf': "pns_wf (p', e')"
    using same_frame_trans [OF fr] by (simp_all add: selected_def)
  have "msorted (pns_published_tracks p)" "msorted (pns_published_tracks p')"
    using wf wf' by (simp_all add: pns_wf_def)
  moreover have "fst ` set (pns_published_tracks p') = fst ` set (pns_published_tracks p)"
    using same_frame_dom [OF fr'] by (auto simp: map_of_eq_None_iff set_eq_iff)
  ultimately have "length (pns_published_tracks p') = length (pns_published_tracks p)"
    by (metis msorted_def strict_sorted_equal list.set_map length_map)
  then have "PNS_UpdateTrackRanking api now ordered (p, e) =
      ((p', fold (pause_track api active) (pns_published_tracks p') e'), Inr ())"
    using pt many sl(1) fr' by (auto simp: PNS_UpdateTrackRanking_def same_frame_def)
  moreover have "track_status (p', e') ta = track_status (p, e) ta" if "ta \<notin> set best" for ta
    using sl(3) that ts by (simp add: selected_def)
  ultimately show ?thesis
    using sl(2,3) track_status_pause_fold [OF wf', of active] ts
    by (auto simp: selected_def)
qed

end

text \<open>The interface has an instance: plain setters, a track is entered under its alias.\<close>

definition plain_api :: pub_api where
  "plain_api = \<lparr>q_set_status = (\<lambda>st h. h\<lparr>pth_status := st\<rparr>),
     q_end_subgroup = (\<lambda>g s c h. h\<lparr>pth_streams := mput g (mdel s (mat [] (pth_streams h) g)) (pth_streams h)\<rparr>),
     q_publish_track = (\<lambda>r h hs. (h, case pth_track_alias h of None \<Rightarrow> hs | Some ta \<Rightarrow> mput ta r hs)),
     q_set_track_mode = (\<lambda>_ h. h),
     q_publish_object = (\<lambda>h _ _ _. (h, kPublishOk)),
     q_forward_data = (\<lambda>h _ _ _ _. (h, kPublishOk))\<rparr>"

interpretation plain: pub_contract plain_api
  by unfold_locales (simp_all add: plain_api_def)

text \<open>C17. Top-N selection.  When more tracks are published under a prefix than may be active, a
  ranking leaves the first \<open>max_tracks_selected_\<close> candidates of the ranked list (published to this
  subscriber, not sent by the subscriber itself) resumed if they were paused and otherwise as they
  were, and no other published track in status ok: each of those that was ok is paused.  The call
  returns, and at most \<open>max_tracks_selected_\<close> tracks are ok.\<close>

theorem update_track_ranking_top_n:
  assumes "pub_contract api" and "pns_wf (p, e)" and "distinct (map fst ordered)"
    and "pns_property_type p \<noteq> None" and "unat (pns_max_tracks_selected p) < length (pns_published_tracks p)"
  defines "best \<equiv> take (unat (pns_max_tracks_selected p)) (candidates p ordered)"
  shows "\<exists>st'. PNS_UpdateTrackRanking api now ordered (p, e) = (st', Inr ())
    \<and> (\<forall>ta \<in> set best. track_status st' ta \<noteq> None \<and> track_status st' ta \<noteq> Some PS_Paused)
    \<and> (\<forall>ta. ta \<notin> set best \<longrightarrow> track_status st' ta = map_option paused (track_status (p, e) ta))
    \<and> card {ta. track_status st' ta = Some PS_Ok} \<le> unat (pns_max_tracks_selected p)"
proof -
  from pub_contract.UpdateTrackRanking_top_n [OF assms(1-5), of now] obtain st' where st':
    "PNS_UpdateTrackRanking api now ordered (p, e) = (st', Inr ())"
    "\<And>ta. ta \<in> set best \<Longrightarrow> track_status st' ta \<noteq> None \<and> track_status st' ta \<noteq> Some PS_Paused"
    "\<And>ta. ta \<notin> set best \<Longrightarrow> track_status st' ta = map_option paused (track_status (p, e) ta)"
    unfolding best_def by metis
  have "track_status st' ta \<noteq> Some PS_Ok" if "ta \<notin> set best" for ta
    using st'(3) [OF that] by (auto simp: paused_def split: if_splits)
  then have "{ta. track_status st' ta = Some PS_Ok} \<subseteq> set best" by auto
  then have "card {ta. track_status st' ta = Some PS_Ok} \<le> card (set best)" by (simp add: card_mono)
  also have "\<dots> \<le> unat (pns_max_tracks_selected p)" using card_length [of best] by (simp add: best_def)
  finally show ?thesis using st' by blast
qed

text \<open>Two published tracks, one slot: the paused second track outranks the first.\<close>

definition sample_pns :: PublishNamespaceHandler where
  "sample_pns = (PNS_make [] 7)\<lparr>pns_property_type := Some 1,
     pns_published_tracks := [(10, \<lparr>at_last_updated_tick = 0, at_handler = 1\<rparr>), (11, \<lparr>at_last_updated_tick = 0, at_handler = 2\<rparr>)],
     pns_handlers := [(10, 1)]\<rparr>"

definition sample_env :: pub_env where
  "sample_env = \<lparr>pe_tracks = [(1, \<lparr>pth_laps = True, pth_status = PS_Ok, pth_track_alias = Some 10, pth_streams = [], pth_start_location = (0, 0)\<rparr>),
     (2, \<lparr>pth_laps = True, pth_status = PS_Paused, pth_track_alias = Some 11, pth_streams = [], pth_start_location = (0, 0)\<rparr>)], pe_log = []\<rparr>"

theorem update_track_ranking_top_n_witness:
  "\<exists>st'. PNS_UpdateTrackRanking plain_api (Some 5) [(11, 1, 5, 3), (10, 2, 5, 4)] (sample_pns, sample_env) = (st', Inr ())
     \<and> track_status st' 11 \<noteq> Some PS_Paused \<and> track_status st' 10 = Some PS_Paused"
  using update_track_ranking_top_n [OF plain.pub_contract_axioms, of sample_pns sample_env "[(11, 1, 5, 3), (10, 2, 5, 4)]" "Some 5"]
  by (auto simp: pns_wf_def sample_pns_def sample_env_def PNS_make_def msorted_def core_def lock_track_def
      candidates_def track_status_def paused_def)

text \<open>The identifiers of \<open>SentFirstObject\<close> are cut to 32 bits: for a group at or above \<open>2 ^ 32\<close> the
  stream of another group is looked up.\<close>

lemma sent_first_object_truncates:
  "SentFirstObject h (ucast (2 ^ 32 + 5 :: u64)) s = SentFirstObject h (ucast (5 :: u64)) s"
proof -
  have "(ucast (2 ^ 32 + 5 :: u64) :: u32) = ucast (5 :: u64)" by code_simp
  then show ?thesis by (simp only:)
qed

end
