(* ===== verification/Track_Ranking.thy ===== *)
theory Track_Ranking
  imports Publish_Namespace
begin

unbundle bit_operations_syntax

text \<open>
  Ranking of tracks by a property value, class \<open>TrackRanking\<close> of \<open>src/src/track_ranking.h\<close>.

  \<open>ordered_tracks_\<close> is a map from (property, value) to the tracks that have this value, with
  the sequence number they entered with and their latest tick; \<open>flat_track_list_\<close> is the list the
  subscribers' namespace handlers get.  A \<open>std::unordered_map\<close> has no order the program may rely on:
  it is kept in key order here, and \<open>rank_bucket_perm\<close> shows that the list built from it is
  the same for every order.

  The abstract view of the state is the set \<open>ranked\<close> of (property, value, alias, tick info).
\<close>

section \<open>State\<close>

record TrackTickInfo =
  tti_insert_seq_num :: u64
  tti_latest_tick :: u64

type_synonym TrackEntry = "(u64, TrackTickInfo) omap"
type_synonym ordered_tracks = "(u64 \<times> u64, TrackEntry) omap"

type_synonym href = nat   \<comment> \<open>a \<open>weak_ptr<PublishNamespaceHandler>\<close>\<close>

record TrackRanking =
  tr_max_tracks_selected :: u64
  tr_inactive_age_ms :: u64
  tr_update_value_seq_num :: u64
  tr_ordered_tracks :: ordered_tracks
  tr_flat_track_list :: "ranked_track list"
  tr_track_connections :: "(u64, u64) omap"
  tr_ns_handlers :: "(u64, (u64, href) omap) omap"

definition TrackRanking_init :: TrackRanking where
  "TrackRanking_init = \<lparr>tr_max_tracks_selected = 32, tr_inactive_age_ms = 10000, tr_update_value_seq_num = 0,
     tr_ordered_tracks = [], tr_flat_track_list = [], tr_track_connections = [], tr_ns_handlers = []\<rparr>"

section \<open>Updating the value of a track\<close>

text \<open>The loop that takes the track out of other values' buckets, from the lower bound on; the
  flags are \<open>needs_rebuild\<close> and \<open>value_decreased\<close>.\<close>

fun leave_buckets :: "u64 \<Rightarrow> u64 \<Rightarrow> u64 \<Rightarrow> ordered_tracks \<Rightarrow> ordered_tracks \<times> bool \<times> bool" where
  "leave_buckets ta pr val [] = ([], False, False)"
| "leave_buckets ta pr val (((p, v), entry) # m) =
     (if p \<noteq> pr then (((p, v), entry) # m, False, False)
      else let (m', needs_rebuild, value_decreased) = leave_buckets ta pr val m in
        if v \<noteq> val \<and> map_of entry ta \<noteq> None
        then let entry' = mdel ta entry in
          if entry' = [] then (m', needs_rebuild, value_decreased \<or> val < v)
          else (((p, v), entry') # m', True, value_decreased \<or> val < v)
        else (((p, v), entry) # m', needs_rebuild, value_decreased))"

definition leave_old :: "u64 \<Rightarrow> u64 \<Rightarrow> u64 \<Rightarrow> ordered_tracks \<Rightarrow> ordered_tracks \<times> bool \<times> bool" where
  "leave_old ta pr val m =
     (let (m', needs_rebuild, value_decreased) = leave_buckets ta pr val (dropWhile (\<lambda>e. fst e < (pr, 0)) m)
      in (takeWhile (\<lambda>e. fst e < (pr, 0)) m @ m', needs_rebuild, value_decreased))"

text \<open>\<open>(max() >> 1) - seq\<close> for a track whose value fell, \<open>1 << 63 | seq\<close> otherwise.\<close>

definition entry_seq :: "bool \<Rightarrow> u64 \<Rightarrow> u64" where
  "entry_seq value_decreased n = (if value_decreased then drop_bit 1 (- 1) - n else push_bit 63 1 OR n)"

text \<open>The tick info of the track in its bucket: a track that is already there keeps its sequence
  number.  Then the whole step; whether the bucket is new comes back.\<close>

definition entered_info :: "u64 \<Rightarrow> u64 \<Rightarrow> u64 \<Rightarrow> TrackEntry \<Rightarrow> TrackTickInfo" where
  "entered_info ta seq tick entry = (case map_of entry ta of
      None \<Rightarrow> \<lparr>tti_insert_seq_num = seq, tti_latest_tick = tick\<rparr>
    | Some ti \<Rightarrow> ti\<lparr>tti_latest_tick := tick\<rparr>)"

definition enter_bucket :: "u64 \<Rightarrow> u64 \<Rightarrow> u64 \<Rightarrow> u64 \<Rightarrow> u64 \<Rightarrow> ordered_tracks \<Rightarrow> ordered_tracks \<times> bool" where
  "enter_bucket ta pr val seq tick m =
     (let (m, inserted) = mtry (pr, val) [] m;
          entry = mat [] m (pr, val)
      in (mput (pr, val) (mput ta (entered_info ta seq tick entry) entry) m, inserted))"

definition stale :: "u64 \<Rightarrow> u64 \<Rightarrow> TrackTickInfo \<Rightarrow> bool" where
  "stale age tick ti \<longleftrightarrow> tti_latest_tick ti \<le> tick \<and> age < tick - tti_latest_tick ti"

definition evict :: "u64 \<Rightarrow> u64 \<Rightarrow> ordered_tracks \<Rightarrow> ordered_tracks" where
  "evict age tick m = mupdate (\<lambda>k entry.
     let entry' = filter (\<lambda>(ta, ti). \<not> stale age tick ti) entry in if entry' = [] then None else Some entry') m"

definition evicts :: "u64 \<Rightarrow> u64 \<Rightarrow> ordered_tracks \<Rightarrow> bool" where
  "evicts age tick m = list_ex (\<lambda>(k, entry). list_ex (\<lambda>(ta, ti). stale age tick ti) entry) m"

text \<open>The comparison of \<open>std::ranges::sort\<close>: ascending sequence number, then descending alias.\<close>

definition rank_before :: "ranked_track \<Rightarrow> ranked_track \<Rightarrow> bool" where
  "rank_before a b = (if fst (snd a) \<noteq> fst (snd b) then fst (snd a) < fst (snd b) else fst b < fst a)"

definition rank_key :: "ranked_track \<Rightarrow> int \<times> int" where
  "rank_key t = (uint (fst (snd t)), - uint (fst t))"

definition rank_bucket :: "(u64, u64) omap \<Rightarrow> TrackEntry \<Rightarrow> ranked_track list" where
  "rank_bucket conns entry = sort_key rank_key
     (map (\<lambda>(ta, ti). (ta, tti_insert_seq_num ti, tti_latest_tick ti, mat 0 conns ta)) entry)"

text \<open>From \<open>lower_bound({prop, 0})\<close> to \<open>upper_bound({prop, max})\<close>.\<close>

definition bucket_range :: "u64 \<Rightarrow> ordered_tracks \<Rightarrow> ordered_tracks" where
  "bucket_range pr m = takeWhile (\<lambda>e. fst e \<le> (pr, - 1)) (dropWhile (\<lambda>e. fst e < (pr, 0)) m)"

definition rebuild_list :: "u64 \<Rightarrow> (u64, u64) omap \<Rightarrow> ordered_tracks \<Rightarrow> ranked_track list" where
  "rebuild_list pr conns m = concat (map (\<lambda>(k, entry). rank_bucket conns entry) (rev (bucket_range pr m)))"

text \<open>\<open>track_connections_[ta]\<close> enters a default for an alias it does not know.\<close>

definition rebuild_conns :: "u64 \<Rightarrow> ordered_tracks \<Rightarrow> (u64, u64) omap \<Rightarrow> (u64, u64) omap" where
  "rebuild_conns pr m conns =
     fold (\<lambda>(k, entry) c. fold (\<lambda>(ta, ti) c. fst (mtry ta 0 c)) entry c) (rev (bucket_range pr m)) conns"

fun touch_list :: "u64 \<Rightarrow> u64 \<Rightarrow> u64 \<Rightarrow> ranked_track list \<Rightarrow> ranked_track list" where
  "touch_list ta tick conn [] = []"
| "touch_list ta tick conn ((a, s, t, c) # xs) =
     (if a = ta then (a, s, tick, conn) # xs else (a, s, t, c) # touch_list ta tick conn xs)"

text \<open>\<open>UpdateValue\<close> up to the notification of the handlers.\<close>

definition UpdateValue_tracks :: "u64 \<Rightarrow> u64 \<Rightarrow> u64 \<Rightarrow> u64 \<Rightarrow> u64 \<Rightarrow> u64 \<Rightarrow> ordered_tracks \<Rightarrow> ordered_tracks \<times> bool" where
  "UpdateValue_tracks age seq ta pr val tick m =
     (let (m, needs_rebuild, value_decreased) = leave_old ta pr val m;
          (m, inserted) = enter_bucket ta pr val (entry_seq value_decreased seq) tick m
      in (evict age tick m, needs_rebuild \<or> inserted \<or> evicts age tick m))"

definition UpdateValue_rank :: "u64 \<Rightarrow> u64 \<Rightarrow> u64 \<Rightarrow> u64 \<Rightarrow> u64 \<Rightarrow> TrackRanking \<Rightarrow> TrackRanking" where
  "UpdateValue_rank ta pr val tick conn r =
     (let seq = tr_update_value_seq_num r + 1;
          (m, needs_rebuild) = UpdateValue_tracks (tr_inactive_age_ms r) seq ta pr val tick (tr_ordered_tracks r);
          conns = mput ta conn (tr_track_connections r);
          r = r\<lparr>tr_update_value_seq_num := seq, tr_ordered_tracks := m, tr_track_connections := conns\<rparr>
      in if needs_rebuild
         then r\<lparr>tr_flat_track_list := rebuild_list pr conns m, tr_track_connections := rebuild_conns pr m conns\<rparr>
         else r\<lparr>tr_flat_track_list := touch_list ta tick conn (tr_flat_track_list r)\<rparr>)"

section \<open>Notifying the namespace handlers\<close>

record rank_world =
  rw_handlers :: "(href, PublishNamespaceHandler) omap"
  rw_env :: pub_env

type_synonym notify_state = "(u64, (u64, href) omap) omap \<times> rank_world"

text \<open>The inner loop over the handlers of one namespace: an expired one is erased.\<close>

definition notify_one :: "pub_api \<Rightarrow> u64 option \<Rightarrow> ranked_track list \<Rightarrow> u64 \<Rightarrow> u64 \<times> href
    \<Rightarrow> notify_state \<Rightarrow> notify_state \<times> unit res" where
  "notify_one api now flat ns_hash ch st =
     (case ch of (conn, h) \<Rightarrow> case st of (ns, w) \<Rightarrow>
       (case map_of (rw_handlers w) h of
          None \<Rightarrow> ((mput ns_hash (mdel conn (mat [] ns ns_hash)) ns, w), Inr ())
        | Some pns \<Rightarrow>
            (case PNS_UpdateTrackRanking api now flat (pns, rw_env w) of ((pns', env'), res) \<Rightarrow>
               ((ns, w\<lparr>rw_handlers := mput h pns' (rw_handlers w), rw_env := env'\<rparr>), res))))"

definition notify_ns :: "pub_api \<Rightarrow> u64 option \<Rightarrow> ranked_track list \<Rightarrow> u64 \<times> (u64, href) omap
    \<Rightarrow> notify_state \<Rightarrow> notify_state \<times> unit res" where
  "notify_ns api now flat nh st =
     (case nh of (ns_hash, conn_handlers) \<Rightarrow>
       andthen (foreach (notify_one api now flat ns_hash) conn_handlers st) (\<lambda>_ (ns, w).
         ((if mat [] ns ns_hash = [] then mdel ns_hash ns else ns, w), Inr ())))"

definition UpdateValue :: "pub_api \<Rightarrow> u64 option \<Rightarrow> u64 \<Rightarrow> u64 \<Rightarrow> u64 \<Rightarrow> u64 \<Rightarrow> u64
    \<Rightarrow> TrackRanking \<times> rank_world \<Rightarrow> (TrackRanking \<times> rank_world) \<times> unit res" where
  "UpdateValue api now ta pr val tick conn st =
     (case st of (r, w) \<Rightarrow>
       let r = UpdateValue_rank ta pr val tick conn r in
       case foreach (notify_ns api now (tr_flat_track_list r)) (tr_ns_handlers r) (tr_ns_handlers r, w) of
         ((ns, w), res) \<Rightarrow> ((r\<lparr>tr_ns_handlers := ns\<rparr>, w), res))"

definition AddNamespaceHandler :: "(bytes list \<Rightarrow> u64) \<Rightarrow> href \<Rightarrow> rank_world \<Rightarrow> TrackRanking \<Rightarrow> TrackRanking" where
  "AddNamespaceHandler ns_hash h w r = (case map_of (rw_handlers w) h of
      None \<Rightarrow> r
    | Some p \<Rightarrow> let th = ns_hash (pns_prefix p); conns = mat [] (tr_ns_handlers r) th in
        r\<lparr>tr_ns_handlers := mput th (fst (mtry (pns_connection_id p) h conns)) (tr_ns_handlers r)\<rparr>)"

definition RemoveNamespaceHandler :: "(bytes list \<Rightarrow> u64) \<Rightarrow> href \<Rightarrow> rank_world \<Rightarrow> TrackRanking \<Rightarrow> TrackRanking" where
  "RemoveNamespaceHandler ns_hash h w r = (case map_of (rw_handlers w) h of
      None \<Rightarrow> r
    | Some p \<Rightarrow> let th = ns_hash (pns_prefix p); conns = mat [] (tr_ns_handlers r) th in
        r\<lparr>tr_ns_handlers := mput th (mdel (pns_connection_id p) conns) (tr_ns_handlers r)\<rparr>)"

section \<open>The ranked tracks\<close>

definition ranked :: "ordered_tracks \<Rightarrow> (u64 \<times> u64 \<times> u64 \<times> TrackTickInfo) set" where
  "ranked m = {(p, v, a, ti). \<exists>e. map_of m (p, v) = Some e \<and> map_of e a = Some ti}"

text \<open>The invariant: the containers are in order, no bucket is empty, and for each property a
  track is in the bucket of one value.\<close>

definition tracks_wf :: "ordered_tracks \<Rightarrow> bool" where
  "tracks_wf m \<longleftrightarrow> msorted m \<and> (\<forall>(k, e) \<in> set m. msorted e \<and> e \<noteq> [])
     \<and> (\<forall>p v v' a ti ti'. (p, v, a, ti) \<in> ranked m \<and> (p, v', a, ti') \<in> ranked m \<longrightarrow> v = v')"

lemma tracks_wf_entry: "tracks_wf m \<Longrightarrow> map_of m k = Some e \<Longrightarrow> msorted e \<and> e \<noteq> []"
  unfolding tracks_wf_def using om.entries_find [of m k e] by blast

lemma tracks_wf_unique: "tracks_wf m \<Longrightarrow> (p, v, a, ti) \<in> ranked m \<Longrightarrow> (p, v', a, ti') \<in> ranked m \<Longrightarrow> v = v'"
  unfolding tracks_wf_def by blast

text \<open>What leaving the old buckets does to one bucket.\<close>

definition leave_one :: "u64 \<Rightarrow> u64 \<Rightarrow> u64 \<Rightarrow> u64 \<times> u64 \<Rightarrow> TrackEntry \<Rightarrow> TrackEntry option" where
  "leave_one ta pr val k e =
     (if fst k = pr \<and> snd k \<noteq> val \<and> map_of e ta \<noteq> None
      then (if mdel ta e = [] then None else Some (mdel ta e)) else Some e)"

definition had_higher :: "u64 \<Rightarrow> u64 \<Rightarrow> u64 \<Rightarrow> ordered_tracks \<Rightarrow> bool" where
  "had_higher ta pr val m \<longleftrightarrow> (\<exists>((p, v), e) \<in> set m. p = pr \<and> val < v \<and> map_of e ta \<noteq> None)"

lemma msorted_fst_le: "msorted (p # m) \<Longrightarrow> q \<in> set m \<Longrightarrow> fst (fst p) \<le> fst (fst q)"
  for p :: "('a::linorder \<times> 'b::linorder) \<times> 'v"
  by (auto simp: msorted_Cons less_prod_def dest: less_imp_le)

lemma leave_buckets_eq:
  assumes "msorted m" and "\<forall>q \<in> set m. pr \<le> fst (fst q)"
  shows "fst (leave_buckets ta pr val m) = mupdate (leave_one ta pr val) m
    \<and> snd (snd (leave_buckets ta pr val m)) = had_higher ta pr val m"
  using assms
proof (induction m)
  case (Cons q m)
  obtain p v e where q: "q = ((p, v), e)" by (metis surj_pair)
  show ?case
  proof (cases "p = pr")
    case False
    have gt: "\<forall>x \<in> set (q # m). pr < fst (fst x)"
    proof
      fix x
      assume x: "x \<in> set (q # m)"
      have "pr < p" using Cons.prems(2) False by (simp add: q order.not_eq_order_implies_strict)
      moreover have "p \<le> fst (fst x)" using x msorted_fst_le [OF Cons.prems(1), of x] by (auto simp: q)
      ultimately show "pr < fst (fst x)" by simp
    qed
    have id: "mupdate (leave_one ta pr val) (q # m) = q # m"
    proof (rule mupdate_id)
      fix k entry
      assume "(k, entry) \<in> set (q # m)"
      then have "fst k \<noteq> pr" using gt by force
      then show "leave_one ta pr val k entry = Some entry" by (simp add: leave_one_def)
    qed
    have "\<not> had_higher ta pr val (q # m)"
      using gt by (fastforce simp: had_higher_def)
    with False id show ?thesis by (simp add: q)
  next
    case True
    have IH: "fst (leave_buckets ta pr val m) = mupdate (leave_one ta pr val) m"
      "snd (snd (leave_buckets ta pr val m)) = had_higher ta pr val m"
      using Cons by (simp_all add: msorted_Cons)
    obtain m' n d where r: "leave_buckets ta pr val m = (m', n, d)" by (metis surj_pair)
    have hh: "had_higher ta pr val (q # m) \<longleftrightarrow> val < v \<and> map_of e ta \<noteq> None \<or> had_higher ta pr val m"
      using True by (auto simp: had_higher_def q)
    show ?thesis using True IH r hh leave_one_def [of ta pr val "(p, v)" e]
      by (auto simp: q mupdate_Cons Let_def)
  qed
qed (simp add: had_higher_def)

lemma msorted_dropWhile: "msorted m \<Longrightarrow> msorted (dropWhile P m)"
  by (induction m) (auto simp: msorted_Cons)

lemma lower_bound_ge:
  fixes m :: "(u64 \<times> u64, 'v) omap"
  assumes "msorted m"
  shows "\<forall>q \<in> set (dropWhile (\<lambda>e. fst e < (pr, 0)) m). pr \<le> fst (fst q)"
proof (cases "dropWhile (\<lambda>e. fst e < (pr, 0)) m")
  case (Cons q d)
  then have "\<not> fst q < (pr, 0)" by (metis hd_dropWhile list.distinct(1) list.sel(1))
  then have "pr \<le> fst (fst q)" by (auto simp: less_prod_def not_less)
  then show ?thesis
    using Cons msorted_dropWhile [OF assms, of "\<lambda>e. fst e < (pr, 0)"] msorted_fst_le [of q d]
    by (auto intro: order_trans)
next
  case Nil
  then show ?thesis by (metis empty_iff list.set(1))
qed

lemma leave_old_eq:
  assumes "msorted m"
  shows "fst (leave_old ta pr val m) = mupdate (leave_one ta pr val) m"
    and "snd (snd (leave_old ta pr val m)) = had_higher ta pr val m"
proof -
  let ?P = "\<lambda>e. fst e < (pr, 0 :: u64)"
  let ?t = "takeWhile ?P m" and ?d = "dropWhile ?P m"
  have split: "m = ?t @ ?d" by simp
  have sd: "msorted ?d" and st: "\<forall>q \<in> set ?t. fst (fst q) < pr"
    using assms set_takeWhileD by (auto simp: msorted_def dropWhile_eq_drop sorted_wrt_drop drop_map [symmetric] less_prod_def) (fastforce dest: set_takeWhileD)+
  have dge: "\<forall>q \<in> set ?d. pr \<le> fst (fst q)" by (rule lower_bound_ge) (rule assms)
  note eq = leave_buckets_eq [OF sd dge, of ta val]
  have id: "mupdate (leave_one ta pr val) ?t = ?t"
    by (rule mupdate_id) (use st in \<open>force simp: leave_one_def\<close>)
  have hh: "had_higher ta pr val m = had_higher ta pr val ?d"
  proof -
    have "\<not> had_higher ta pr val ?t" using st by (fastforce simp: had_higher_def)
    moreover have "had_higher ta pr val (?t @ ?d) \<longleftrightarrow> had_higher ta pr val ?t \<or> had_higher ta pr val ?d"
      unfolding had_higher_def set_append by blast
    ultimately show ?thesis by simp
  qed
  have "mupdate (leave_one ta pr val) m = ?t @ mupdate (leave_one ta pr val) ?d"
    using mupdate_append [of "leave_one ta pr val" ?t ?d] id by simp
  then show "fst (leave_old ta pr val m) = mupdate (leave_one ta pr val) m"
    using eq by (simp add: leave_old_def case_prod_unfold)
  show "snd (snd (leave_old ta pr val m)) = had_higher ta pr val m"
    using eq hh by (simp add: leave_old_def case_prod_unfold)
qed

lemma ranked_iff: "(p, v, a, ti) \<in> ranked m \<longleftrightarrow> (\<exists>e. map_of m (p, v) = Some e \<and> map_of e a = Some ti)"
  by (simp add: ranked_def)

lemma ranked_leave:
  assumes "msorted m"
  shows "(p, v, a, ti) \<in> ranked (fst (leave_old ta pr val m)) \<longleftrightarrow>
    (p, v, a, ti) \<in> ranked m \<and> \<not> (p = pr \<and> v \<noteq> val \<and> a = ta)"
proof (cases "map_of m (p, v)")
  case None
  then show ?thesis using assms by (simp add: ranked_iff leave_old_eq map_of_mupdate msorted_distinct)
next
  case (Some e)
  have lookup: "map_of (fst (leave_old ta pr val m)) (p, v) = leave_one ta pr val (p, v) e"
    using assms Some map_of_mupdate [OF msorted_distinct [OF assms], of "leave_one ta pr val" "(p, v)"]
    by (simp add: leave_old_eq)
  have del: "map_of (mdel ta e) a = (if a = ta then None else map_of e a)" by simp
  show ?thesis
  proof (cases "mdel ta e = []")
    case True
    then have "a \<noteq> ta \<Longrightarrow> map_of e a = None" using del by simp
    with True Some show ?thesis by (cases "a = ta") (auto simp: ranked_iff lookup leave_one_def)
  next
    case False
    with del Some show ?thesis by (auto simp: ranked_iff lookup leave_one_def)
  qed
qed

lemma had_higher_ranked: "msorted m \<Longrightarrow> had_higher ta pr val m \<longleftrightarrow> (\<exists>v ti. val < v \<and> (pr, v, ta, ti) \<in> ranked m)"
  by (fastforce simp: had_higher_def ranked_iff om.entries_find)

lemma ranked_enter:
  shows "(p, v, a, ti) \<in> ranked (fst (enter_bucket ta pr val seq tick m)) \<longleftrightarrow>
    (if (p, v, a) = (pr, val, ta) then ti = entered_info ta seq tick (mat [] m (pr, val)) else (p, v, a, ti) \<in> ranked m)"
  by (auto simp: ranked_iff enter_bucket_def Let_def case_prod_unfold map_of_mtry mat_def
      split: option.splits if_splits)

lemma ranked_evict:
  assumes "msorted m" "\<And>k e. map_of m k = Some e \<Longrightarrow> msorted e"
  shows "(p, v, a, ti) \<in> ranked (evict age tick m) \<longleftrightarrow> (p, v, a, ti) \<in> ranked m \<and> \<not> stale age tick ti"
proof -
  let ?f = "\<lambda>e. filter (\<lambda>(ta, ti). \<not> stale age tick ti) e"
  have f: "map_of (?f e) a = Some ti \<longleftrightarrow> map_of e a = Some ti \<and> \<not> stale age tick ti" if "msorted e" for e
    using om.entries_find [of "?f e" a ti] om.entries_find [of e a ti] that by auto
  show ?thesis
  proof (cases "map_of m (p, v)")
    case None
    then show ?thesis
      using assms(1) map_of_mupdate [OF msorted_distinct [OF assms(1)]] by (simp add: ranked_iff evict_def)
  next
    case (Some e)
    have "map_of (evict age tick m) (p, v) = (if ?f e = [] then None else Some (?f e))"
      using Some map_of_mupdate [OF msorted_distinct [OF assms(1)]] by (simp add: evict_def Let_def)
    moreover have "?f e = [] \<Longrightarrow> map_of (?f e) a \<noteq> Some ti" by (metis map_of.simps(1) option.distinct(1))
    ultimately show ?thesis using Some f [OF assms(2) [OF Some]] by (auto simp: ranked_iff)
  qed
qed

section \<open>Refinement to the abstract ranking\<close>

lemma mat_entry_None: "map_of (mat [] m k) a = None \<longleftrightarrow> (\<forall>e. map_of m k = Some e \<longrightarrow> map_of e a = None)"
  by (simp add: mat_def split: option.split)

lemma mat_entry_Some: "map_of (mat [] m k) a = Some x \<longleftrightarrow> (\<exists>e. map_of m k = Some e \<and> map_of e a = Some x)"
  by (simp add: mat_def split: option.split)

text \<open>Containers in order, at each stage of an update.\<close>

definition entries_ok :: "ordered_tracks \<Rightarrow> bool" where
  "entries_ok m \<longleftrightarrow> msorted m \<and> (\<forall>k e. map_of m k = Some e \<longrightarrow> msorted e)"

lemma entries_ok_mupdate:
  assumes "entries_ok m" and "\<And>k e e'. msorted e \<Longrightarrow> f k e = Some e' \<Longrightarrow> msorted e'"
  shows "entries_ok (mupdate f m)"
proof -
  have "msorted e'" if look: "map_of (mupdate f m) k = Some e'" for k e'
  proof -
    obtain e where "map_of m k = Some e" "f k e = Some e'"
      using look assms(1) map_of_mupdate [OF msorted_distinct, of m f k]
      by (auto simp: entries_ok_def split: option.splits)
    then show ?thesis using assms(1) assms(2) [of e k e'] unfolding entries_ok_def by blast
  qed
  then show ?thesis using assms(1) by (simp add: entries_ok_def)
qed

lemma entries_ok_leave: "entries_ok m \<Longrightarrow> entries_ok (fst (leave_old ta pr val m))"
proof -
  assume ok: "entries_ok m"
  then have "entries_ok (mupdate (leave_one ta pr val) m)"
    by (rule entries_ok_mupdate) (auto simp: leave_one_def split: if_splits)
  then show ?thesis using ok by (simp add: leave_old_eq entries_ok_def)
qed

lemma entries_ok_enter: "entries_ok m \<Longrightarrow> entries_ok (fst (enter_bucket ta pr val seq tick m))"
proof -
  assume ok: "entries_ok m"
  then have "msorted (mat [] (fst (mtry (pr, val) [] m)) (pr, val))"
    by (auto simp: mat_def map_of_mtry entries_ok_def split: option.splits)
  with ok show ?thesis by (auto simp: enter_bucket_def Let_def case_prod_unfold entries_ok_def map_of_mtry split: if_splits option.splits)
qed

lemma evict_wf:
  assumes "entries_ok m" and "\<And>p v v' a ti ti'. (p, v, a, ti) \<in> ranked (evict age tick m) \<Longrightarrow>
    (p, v', a, ti') \<in> ranked (evict age tick m) \<Longrightarrow> v = v'"
  shows "tracks_wf (evict age tick m)"
proof -
  have ms: "msorted (evict age tick m)" using assms(1) by (simp add: evict_def entries_ok_def)
  have "msorted e \<and> e \<noteq> []" if "(k, e) \<in> set (evict age tick m)" for k e
  proof -
    have "map_of (evict age tick m) k = Some e" using that ms by (simp add: om.entries_find)
    then show ?thesis
      using assms(1) map_of_mupdate [OF msorted_distinct, of m _ k]
      by (auto simp: evict_def Let_def entries_ok_def simp del: split_paired_All split: option.splits if_splits)
  qed
  then show ?thesis unfolding tracks_wf_def using ms assms(2) by blast
qed

text \<open>The abstract update: the track has the new value with the given tick; a track that already
  had this value keeps its sequence number, otherwise the number says whether it fell from a higher
  value; every other track stays as it is unless it is stale.\<close>

definition rank_spec :: "u64 \<Rightarrow> u64 \<Rightarrow> u64 \<Rightarrow> u64 \<Rightarrow> u64 \<Rightarrow> u64
    \<Rightarrow> (u64 \<times> u64 \<times> u64 \<times> TrackTickInfo) set \<Rightarrow> (u64 \<times> u64 \<times> u64 \<times> TrackTickInfo) set" where
  "rank_spec age seq ta pr val tick R =
     {(p, v, a, ti). (p, v, a, ti) \<in> R \<and> (p, a) \<noteq> (pr, ta) \<and> \<not> stale age tick ti}
     \<union> {(pr, val, ta, ti\<lparr>tti_latest_tick := tick\<rparr>) | ti. (pr, val, ta, ti) \<in> R}
     \<union> (if \<exists>ti. (pr, val, ta, ti) \<in> R then {}
        else {(pr, val, ta, \<lparr>tti_insert_seq_num = entry_seq (\<exists>v ti. val < v \<and> (pr, v, ta, ti) \<in> R) seq,
                              tti_latest_tick = tick\<rparr>)})"

lemma rank_spec_iff: "(p, v, a, ti) \<in> rank_spec age seq ta pr val tick R \<longleftrightarrow>
    (p, v, a, ti) \<in> R \<and> (p, a) \<noteq> (pr, ta) \<and> \<not> stale age tick ti
    \<or> (p, v, a) = (pr, val, ta) \<and> ((\<exists>ti0. (pr, val, ta, ti0) \<in> R \<and> ti = ti0\<lparr>tti_latest_tick := tick\<rparr>)
       \<or> (\<forall>ti0. (pr, val, ta, ti0) \<notin> R) \<and> ti = \<lparr>tti_insert_seq_num =
            entry_seq (\<exists>v ti. val < v \<and> (pr, v, ta, ti) \<in> R) seq, tti_latest_tick = tick\<rparr>)"
  by (auto simp: rank_spec_def)

lemma not_stale_now [simp]: "tti_latest_tick ti = tick \<Longrightarrow> \<not> stale age tick ti"
  by (simp add: stale_def)

lemma entered_info_tick [simp]: "tti_latest_tick (entered_info ta seq tick e) = tick"
  by (simp add: entered_info_def split: option.split)

lemma entered_info_ranked:
  "(p, v, ta, ti) \<in> ranked m \<Longrightarrow> entered_info ta sq tick (mat [] m (p, v)) = ti\<lparr>tti_latest_tick := tick\<rparr>"
  "\<forall>ti. (p, v, ta, ti) \<notin> ranked m \<Longrightarrow> entered_info ta sq tick (mat [] m (p, v)) = \<lparr>tti_insert_seq_num = sq, tti_latest_tick = tick\<rparr>"
proof -
  show "(p, v, ta, ti) \<in> ranked m \<Longrightarrow> entered_info ta sq tick (mat [] m (p, v)) = ti\<lparr>tti_latest_tick := tick\<rparr>"
    using mat_entry_Some [of m "(p, v)" ta ti] by (simp add: entered_info_def ranked_iff split: option.split)
  assume "\<forall>ti. (p, v, ta, ti) \<notin> ranked m"
  then have "map_of (mat [] m (p, v)) ta = None" by (auto simp: mat_entry_None ranked_iff)
  then show "entered_info ta sq tick (mat [] m (p, v)) = \<lparr>tti_insert_seq_num = sq, tti_latest_tick = tick\<rparr>" by (simp add: entered_info_def)
qed

lemma UpdateValue_tracks_refines:
  assumes wf: "tracks_wf m"
  shows "ranked (fst (UpdateValue_tracks age seq ta pr val tick m)) = rank_spec age seq ta pr val tick (ranked m)"
    and "tracks_wf (fst (UpdateValue_tracks age seq ta pr val tick m))"
proof -
  have ok: "entries_ok m"
    using wf tracks_wf_entry [OF wf] by (simp add: tracks_wf_def entries_ok_def del: split_paired_All)
  then have ms: "msorted m" by (simp add: entries_ok_def)
  define m1 where "m1 = fst (leave_old ta pr val m)"
  define sq where "sq = entry_seq (\<exists>v ti. val < v \<and> (pr, v, ta, ti) \<in> ranked m) seq"
  define m2 where "m2 = fst (enter_bucket ta pr val sq tick m1)"
  have ok1: "entries_ok m1" and ok2: "entries_ok m2"
    using ok by (simp_all add: m1_def m2_def entries_ok_leave entries_ok_enter)
  have upd: "fst (UpdateValue_tracks age seq ta pr val tick m) = evict age tick m2"
    using leave_old_eq(2) [OF ms, of ta pr val] had_higher_ranked [OF ms]
    by (simp add: UpdateValue_tracks_def case_prod_unfold m2_def m1_def sq_def Let_def)
  let ?info = "entered_info ta sq tick (mat [] m1 (pr, val))"
  have r1: "(p, v, a, ti) \<in> ranked m1 \<longleftrightarrow> (p, v, a, ti) \<in> ranked m \<and> \<not> (p = pr \<and> v \<noteq> val \<and> a = ta)" for p v a ti
    using ranked_leave [OF ms] by (simp add: m1_def)
  have r3: "(p, v, a, ti) \<in> ranked (evict age tick m2) \<longleftrightarrow>
      (if (p, a) = (pr, ta) then v = val \<and> ti = ?info else (p, v, a, ti) \<in> ranked m \<and> \<not> stale age tick ti)" for p v a ti
    using ok2 unfolding entries_ok_def by (subst ranked_evict) (auto simp: m2_def ranked_enter r1)
  have info: "(pr, val, ta, ti) \<in> ranked m \<Longrightarrow> ?info = ti\<lparr>tti_latest_tick := tick\<rparr>" for ti
    using r1 [of pr val ta ti] entered_info_ranked(1) by simp
  have info': "\<forall>ti. (pr, val, ta, ti) \<notin> ranked m \<Longrightarrow> ?info = \<lparr>tti_insert_seq_num = sq, tti_latest_tick = tick\<rparr>"
    by (rule entered_info_ranked(2)) (simp add: r1)
  have "(p, v, a, ti) \<in> ranked (evict age tick m2) \<longleftrightarrow> (p, v, a, ti) \<in> rank_spec age seq ta pr val tick (ranked m)" for p v a ti
  proof (cases "(p, a) = (pr, ta)")
    case same: True
    show ?thesis
    proof (cases "\<exists>ti. (pr, val, ta, ti) \<in> ranked m")
      case True
      then obtain ti0 where ti0: "(pr, val, ta, ti0) \<in> ranked m" by blast
      have uniq: "(pr, val, ta, t) \<in> ranked m \<longleftrightarrow> t = ti0" for t using ti0 by (auto simp: ranked_iff)
      show ?thesis using same info [OF ti0] by (simp add: rank_spec_iff r3 uniq)
    next
      case False
      then have none: "\<And>t. (pr, val, ta, t) \<notin> ranked m" by blast
      show ?thesis using same info' none by (simp add: rank_spec_iff r3 sq_def)
    qed
  next
    case False
    then show ?thesis by (auto simp: rank_spec_iff r3)
  qed
  then show "ranked (fst (UpdateValue_tracks age seq ta pr val tick m)) = rank_spec age seq ta pr val tick (ranked m)"
    unfolding upd by (auto simp: set_eq_iff)
  show "tracks_wf (fst (UpdateValue_tracks age seq ta pr val tick m))"
    unfolding upd using ok2
  proof (rule evict_wf)
    fix p v v' a ti ti'
    assume "(p, v, a, ti) \<in> ranked (evict age tick m2)" "(p, v', a, ti') \<in> ranked (evict age tick m2)"
    then show "v = v'" using tracks_wf_unique [OF wf] unfolding r3 by (auto split: if_splits)
  qed
qed

text \<open>What an observer of the ranking sees of it: for each property the value of each track and when it was
  last confirmed.\<close>

definition track_values :: "ordered_tracks \<Rightarrow> (u64 \<times> u64 \<times> u64 \<times> u64) set" where
  "track_values m = (\<lambda>(p, v, a, ti). (p, v, a, tti_latest_tick ti)) ` ranked m"

lemma track_values_iff: "(p, v, a, t) \<in> track_values m \<longleftrightarrow> (\<exists>ti. (p, v, a, ti) \<in> ranked m \<and> tti_latest_tick ti = t)"
  by (force simp: track_values_def)

lemma stale_clock: "tti_latest_tick ti \<le> tick \<Longrightarrow> stale age tick ti \<longleftrightarrow> unat age < unat tick - unat (tti_latest_tick ti)"
  by (simp add: stale_def word_less_nat_alt unat_sub)

lemma rank_spec_values:
  assumes "\<And>p v a ti. (p, v, a, ti) \<in> R \<Longrightarrow> tti_latest_tick ti \<le> tick"
  shows "(\<exists>ti. (p, v, a, ti) \<in> rank_spec age seq ta pr val tick R \<and> tti_latest_tick ti = t) \<longleftrightarrow>
    (\<exists>ti. (p, v, a, ti) \<in> R \<and> tti_latest_tick ti = t \<and> (p, a) \<noteq> (pr, ta) \<and> unat tick - unat t \<le> unat age)
    \<or> (p, v, a, t) = (pr, val, ta, tick)"
proof -
  have st: "\<not> stale age tick ti \<longleftrightarrow> unat tick - unat (tti_latest_tick ti) \<le> unat age" if "(p, v, a, ti) \<in> R" for ti
    using stale_clock [OF assms [OF that]] by (simp add: not_less)
  show ?thesis
  proof (cases "(p, a) = (pr, ta)")
    case True
    then show ?thesis by (cases "\<exists>ti. (pr, val, ta, ti) \<in> R") (auto simp: rank_spec_iff)
  next
    case False
    then show ?thesis using st unfolding rank_spec_iff by blast
  qed
qed

text \<open>C15. A value update does what the ranking promises.  Suppose the clock of the updates does not run backwards.
  After \<open>UpdateValue\<close> the track has exactly the new value of the property, confirmed at the given tick, whatever value it had
  before; of all other tracks and properties those are still ranked, with the value they had, whose last confirmation
  is at most the inactive age ago, and no others.  The invariant of the buckets is kept; in particular a track is ranked once
  per property.  (The place of the track among those of equal value is not part of this.)\<close>

theorem update_value_refines:
  assumes "tracks_wf (tr_ordered_tracks r)" and "\<forall>(p, v, a, t) \<in> track_values (tr_ordered_tracks r). t \<le> tick"
  shows "tracks_wf (tr_ordered_tracks (UpdateValue_rank ta pr val tick conn r))
    \<and> track_values (tr_ordered_tracks (UpdateValue_rank ta pr val tick conn r)) =
        {(p, v, a, t). (p, v, a, t) \<in> track_values (tr_ordered_tracks r) \<and> (p, a) \<noteq> (pr, ta)
           \<and> unat tick - unat t \<le> unat (tr_inactive_age_ms r)} \<union> {(pr, val, ta, tick)}"
proof -
  let ?m = "tr_ordered_tracks r" and ?age = "tr_inactive_age_ms r" and ?seq = "tr_update_value_seq_num r + 1"
  have m: "tr_ordered_tracks (UpdateValue_rank ta pr val tick conn r) = fst (UpdateValue_tracks ?age ?seq ta pr val tick ?m)"
    by (simp add: UpdateValue_rank_def Let_def case_prod_unfold)
  note u = UpdateValue_tracks_refines [OF assms(1), of ?age ?seq ta pr val tick]
  have clock: "tti_latest_tick ti \<le> tick" if "(p, v, a, ti) \<in> ranked ?m" for p v a ti
    using assms(2) that track_values_iff [of p v a "tti_latest_tick ti" ?m] by blast
  have "(p, v, a, t) \<in> track_values (fst (UpdateValue_tracks ?age ?seq ta pr val tick ?m)) \<longleftrightarrow>
      (p, v, a, t) \<in> track_values ?m \<and> (p, a) \<noteq> (pr, ta) \<and> unat tick - unat t \<le> unat ?age \<or> (p, v, a, t) = (pr, val, ta, tick)" for p v a t
    unfolding track_values_iff u(1) using rank_spec_values [of "ranked ?m" tick p v a ?age ?seq ta pr val t] clock by blast
  then show ?thesis unfolding m using u(2) by auto
qed

lemma ranked_Nil [simp]: "ranked [] = {}"
  by (simp add: ranked_def)

lemma tracks_wf_Nil: "tracks_wf []"
  by (simp add: tracks_wf_def)

text \<open>Track 7 falls from 50 to 20 while track 8 has not been heard of for longer than the inactive age.\<close>

theorem update_value_refines_witness:
  "track_values (tr_ordered_tracks (UpdateValue_rank 7 1 20 10200 3 (UpdateValue_rank 7 1 50 300 3 (UpdateValue_rank 8 1 50 100 4 TrackRanking_init)))) =
     {(1, 20, 7, 10200)}"
proof -
  have 1: "tracks_wf (tr_ordered_tracks (UpdateValue_rank 8 1 50 100 4 TrackRanking_init))"
    "track_values (tr_ordered_tracks (UpdateValue_rank 8 1 50 100 4 TrackRanking_init)) = {(1, 50, 8, 100)}"
    using update_value_refines [of TrackRanking_init 100 8 1 50 4] by (auto simp: TrackRanking_init_def tracks_wf_Nil track_values_def)
  let ?r = "UpdateValue_rank 7 1 50 300 3 (UpdateValue_rank 8 1 50 100 4 TrackRanking_init)"
  have init: "tr_inactive_age_ms TrackRanking_init = 10000" by (simp add: TrackRanking_init_def)
  have age: "tr_inactive_age_ms (UpdateValue_rank a p v t c r) = tr_inactive_age_ms r" for a p v t c r
    by (simp add: UpdateValue_rank_def Let_def case_prod_unfold)
  have 2: "tracks_wf (tr_ordered_tracks ?r)" "track_values (tr_ordered_tracks ?r) = {(1, 50, 8, 100), (1, 50, 7, 300)}"
    using update_value_refines [OF 1(1), of 300 7 1 50 3] by (auto simp: 1(2) age init)
  show ?thesis using update_value_refines [OF 2(1), of 10200 7 1 20 3] by (auto simp: 2(2) age init)
qed

section \<open>The flat list\<close>

lemma rank_before_key: "rank_before a b \<longleftrightarrow> rank_key a < rank_key b"
  by (auto simp: rank_before_def rank_key_def word_less_def word_uint_eq_iff)

lemma rank_key_inj: "fst a \<noteq> fst b \<Longrightarrow> rank_key a \<noteq> rank_key b"
  by (auto simp: rank_key_def word_uint_eq_iff)

definition rank_item :: "(u64, u64) omap \<Rightarrow> u64 \<times> TrackTickInfo \<Rightarrow> ranked_track" where
  "rank_item conns x = (fst x, tti_insert_seq_num (snd x), tti_latest_tick (snd x), mat 0 conns (fst x))"

lemma rank_bucket_eq: "rank_bucket conns e = sort_key rank_key (map (rank_item conns) e)"
  by (simp add: rank_bucket_def rank_item_def [abs_def] case_prod_unfold)

lemma set_rank_bucket: "set (rank_bucket conns e) = rank_item conns ` set e"
  by (simp add: rank_bucket_eq)

lemma distinct_rank_keys:
  assumes "distinct (map fst e)"
  shows "distinct (map rank_key (map (rank_item conns) e))"
proof -
  have "inj_on (rank_key \<circ> rank_item conns) (set e)"
  proof (rule inj_onI)
    fix x y
    assume "x \<in> set e" "y \<in> set e" "(rank_key \<circ> rank_item conns) x = (rank_key \<circ> rank_item conns) y"
    moreover from this have "fst x = fst y"
      using rank_key_inj [of "rank_item conns x" "rank_item conns y"] by (auto simp: rank_item_def)
    ultimately show "x = y" using assms by (simp add: distinct_map inj_on_def)
  qed
  moreover have "distinct e" using assms by (simp add: distinct_map)
  ultimately show ?thesis by (simp add: distinct_map)
qed

lemma sorted_rank_bucket:
  assumes "distinct (map fst e)"
  shows "sorted_wrt rank_before (rank_bucket conns e)"
proof -
  have "distinct (map rank_key (rank_bucket conns e))"
    using distinct_rank_keys [OF assms, of conns] unfolding rank_bucket_eq
    by (metis distinct_map distinct_sort set_sort)
  then have "sorted_wrt (<) (map rank_key (rank_bucket conns e))"
    by (simp add: strict_sorted_iff rank_bucket_eq)
  then show ?thesis by (simp add: sorted_wrt_map rank_before_key [abs_def])
qed

text \<open>The order of the \<open>unordered_map\<close> does not show.\<close>

lemma rank_bucket_perm:
  assumes "distinct (map fst e)" "distinct (map fst e')" and "set e' = set e"
  shows "rank_bucket conns e' = rank_bucket conns e"
proof (rule map_sorted_distinct_set_unique)
  show "inj_on rank_key (set (rank_bucket conns e') \<union> set (rank_bucket conns e))"
    using distinct_rank_keys [OF assms(1), of conns] assms(3) unfolding set_rank_bucket
    by (simp only: Un_absorb distinct_map set_map)
  show "sorted (map rank_key (rank_bucket conns e'))" "sorted (map rank_key (rank_bucket conns e))"
    by (simp_all add: rank_bucket_eq)
  show "distinct (map rank_key (rank_bucket conns e'))" "distinct (map rank_key (rank_bucket conns e))"
    using distinct_rank_keys [OF assms(1), of conns] distinct_rank_keys [OF assms(2), of conns] unfolding rank_bucket_eq
    by (metis distinct_map distinct_sort set_sort)+
  show "set (rank_bucket conns e') = set (rank_bucket conns e)" by (simp add: set_rank_bucket assms(3))
qed

lemma bucket_range_eq:
  assumes "msorted m"
  shows "bucket_range pr m = filter (\<lambda>e. fst (fst e) = pr) m"
proof -
  have top: "k \<le> (pr, - 1) \<longleftrightarrow> fst k \<le> pr" for k :: "u64 \<times> u64"
    by (cases k) (auto simp: less_eq_prod_def word_order.extremum)
  have "takeWhile (\<lambda>e. fst e \<le> (pr, - 1)) d = takeWhile (\<lambda>e. fst (fst e) = pr) d"
    if "\<forall>q \<in> set d. pr \<le> fst (fst q)" for d :: ordered_tracks
    using that by (intro takeWhile_cong) (auto simp: top)
  moreover have "\<forall>q \<in> set (dropWhile (\<lambda>e. fst e < (pr, 0 :: u64)) m). pr \<le> fst (fst q)"
    using lower_bound_ge [OF assms] by blast
  ultimately have "bucket_range pr m = key_range pr m" by (simp add: bucket_range_def key_range_def)
  then show ?thesis using key_range_eq [OF assms] by simp
qed

text \<open>Buckets of one property, and the bucket value of a listed track.\<close>

definition in_bucket :: "ordered_tracks \<Rightarrow> u64 \<Rightarrow> (u64, u64) omap \<Rightarrow> ranked_track \<Rightarrow> bool" where
  "in_bucket bs v conns x \<longleftrightarrow> (\<exists>p e y. ((p, v), e) \<in> set bs \<and> y \<in> set e \<and> x = rank_item conns y)"

abbreviation flatten :: "(u64, u64) omap \<Rightarrow> ordered_tracks \<Rightarrow> ranked_track list" where
  "flatten conns bs \<equiv> concat (map (\<lambda>(k, e). rank_bucket conns e) (rev bs))"

lemma set_flatten: "x \<in> set (flatten conns bs) \<longleftrightarrow> (\<exists>v. in_bucket bs v conns x)"
  by (auto simp: in_bucket_def set_rank_bucket) blast+

lemma in_bucket_mono: "in_bucket bs v conns x \<Longrightarrow> in_bucket (b # bs) v conns x"
  by (auto simp: in_bucket_def)

lemma flatten_sorted:
  assumes "msorted bs" and "\<forall>((p, v), e) \<in> set bs. p = pr \<and> msorted e"
  shows "sorted_wrt (\<lambda>x y. \<exists>v w. in_bucket bs v conns x \<and> in_bucket bs w conns y
      \<and> (w < v \<or> v = w \<and> rank_before x y)) (flatten conns bs)"
  using assms
proof (induction bs)
  case (Cons b bs)
  obtain v0 e0 where b: "b = ((pr, v0), e0)" using Cons.prems(2) by (cases b) auto
  have this_b: "in_bucket (b # bs) v0 conns x" if "x \<in> set (rank_bucket conns e0)" for x
    using that by (auto simp: in_bucket_def b set_rank_bucket)
  have gt: "v0 < v" if "in_bucket bs v conns x" for v x
    using that Cons.prems by (fastforce simp: in_bucket_def b msorted_Cons less_prod_def)
  have IH: "sorted_wrt (\<lambda>x y. \<exists>v w. in_bucket bs v conns x \<and> in_bucket bs w conns y
      \<and> (w < v \<or> v = w \<and> rank_before x y)) (flatten conns bs)"
    using Cons by (simp add: msorted_Cons)
  have 1: "sorted_wrt (\<lambda>x y. \<exists>v w. in_bucket (b # bs) v conns x \<and> in_bucket (b # bs) w conns y
      \<and> (w < v \<or> v = w \<and> rank_before x y)) (flatten conns bs)"
    using IH by (rule sorted_wrt_mono_rel [rotated]) (metis in_bucket_mono)
  have "sorted_wrt rank_before (rank_bucket conns e0)"
    using Cons.prems(2) by (intro sorted_rank_bucket msorted_distinct) (auto simp: b)
  then have 2: "sorted_wrt (\<lambda>x y. \<exists>v w. in_bucket (b # bs) v conns x \<and> in_bucket (b # bs) w conns y
      \<and> (w < v \<or> v = w \<and> rank_before x y)) (rank_bucket conns e0)"
    by (rule sorted_wrt_mono_rel [rotated]) (metis this_b)
  have 3: "\<exists>v w. in_bucket (b # bs) v conns x \<and> in_bucket (b # bs) w conns y \<and> (w < v \<or> v = w \<and> rank_before x y)"
    if xy: "x \<in> set (flatten conns bs)" "y \<in> set (rank_bucket conns e0)" for x y
  proof -
    obtain v where "in_bucket bs v conns x" using xy(1) unfolding set_flatten by blast
    then show ?thesis using gt this_b [OF xy(2)] in_bucket_mono by blast
  qed
  have "flatten conns (b # bs) = flatten conns bs @ rank_bucket conns e0" by (simp add: b)
  then show ?case using 1 2 3 by (simp only: sorted_wrt_append) blast
qed simp

text \<open>The order of the list: higher value first, then \<open>rank_before\<close>.\<close>

definition rank_order :: "u64 \<Rightarrow> ordered_tracks \<Rightarrow> ranked_track \<Rightarrow> ranked_track \<Rightarrow> bool" where
  "rank_order pr m x y \<longleftrightarrow> (\<forall>v w tx ty. (pr, v, fst x, tx) \<in> ranked m \<longrightarrow> (pr, w, fst y, ty) \<in> ranked m \<longrightarrow>
     w < v \<or> v = w \<and> rank_before x y)"

definition listed :: "u64 \<Rightarrow> (u64, u64) omap \<Rightarrow> ordered_tracks \<Rightarrow> ranked_track set" where
  "listed pr conns m = {(a, tti_insert_seq_num ti, tti_latest_tick ti, mat 0 conns a) | v a ti. (pr, v, a, ti) \<in> ranked m}"

lemma in_bucket_ranked:
  assumes "tracks_wf m"
  shows "in_bucket (bucket_range pr m) v conns x \<longleftrightarrow> (\<exists>ti. (pr, v, fst x, ti) \<in> ranked m \<and> x = rank_item conns (fst x, ti))"
proof -
  have ms: "msorted m" using assms by (simp add: tracks_wf_def)
  have e: "(a, ti) \<in> set e \<longleftrightarrow> map_of e a = Some ti" if "map_of m k = Some e" for k e a ti
    using tracks_wf_entry [OF assms that] by (simp add: om.entries_find)
  show ?thesis
    unfolding in_bucket_def bucket_range_eq [OF ms] ranked_iff
    by (auto simp: om.entries_find [OF ms] rank_item_def e) (metis e)+
qed

lemma sorted_wrt_neq_distinct: "sorted_wrt (\<lambda>x y. f x \<noteq> f y) xs \<Longrightarrow> distinct (map f xs)"
  by (induction xs) auto

lemma rebuild_list_exact:
  assumes wf: "tracks_wf m"
  shows "set (rebuild_list pr conns m) = listed pr conns m"
    and "sorted_wrt (rank_order pr m) (rebuild_list pr conns m)"
    and "distinct (map fst (rebuild_list pr conns m))"
proof -
  let ?bs = "bucket_range pr m"
  have ms: "msorted m" using wf by (simp add: tracks_wf_def)
  have flat: "rebuild_list pr conns m = flatten conns ?bs" by (simp add: rebuild_list_def)
  note ib = in_bucket_ranked [OF wf, of pr _ conns]
  show set_eq: "set (rebuild_list pr conns m) = listed pr conns m"
  proof (rule set_eqI)
    fix x
    show "x \<in> set (rebuild_list pr conns m) \<longleftrightarrow> x \<in> listed pr conns m"
      unfolding flat set_flatten ib listed_def by (force simp: rank_item_def)
  qed
  have "sorted_wrt (\<lambda>x y. \<exists>v w. in_bucket ?bs v conns x \<and> in_bucket ?bs w conns y
      \<and> (w < v \<or> v = w \<and> rank_before x y)) (rebuild_list pr conns m)"
    unfolding flat using wf ms
    by (intro flatten_sorted [of _ pr]) (auto simp: bucket_range_eq tracks_wf_def)
  then show so: "sorted_wrt (rank_order pr m) (rebuild_list pr conns m)"
  proof (rule sorted_wrt_mono_rel [rotated])
    fix x y
    assume "\<exists>v w. in_bucket ?bs v conns x \<and> in_bucket ?bs w conns y \<and> (w < v \<or> v = w \<and> rank_before x y)"
    then show "rank_order pr m x y"
      unfolding ib rank_order_def using tracks_wf_unique [OF wf] by metis
  qed
  have irr: "x \<noteq> y" if xy: "x \<in> set (rebuild_list pr conns m)" "y \<in> set (rebuild_list pr conns m)" "rank_order pr m x y"
    for x y
  proof
    assume "x = y"
    obtain v t where "(pr, v, fst x, t) \<in> ranked m" using xy(1) unfolding set_eq by (auto simp: listed_def)
    then show False using xy(3) unfolding rank_order_def \<open>x = y\<close> rank_before_def by (metis less_irrefl)
  qed
  have "fst x \<noteq> fst y" if xy: "x \<in> set (rebuild_list pr conns m)" "y \<in> set (rebuild_list pr conns m)" "rank_order pr m x y" for x y
  proof
    assume eq: "fst x = fst y"
    obtain v t where 1: "(pr, v, fst x, t) \<in> ranked m" "x = rank_item conns (fst x, t)"
      using xy(1) unfolding set_eq by (auto simp: listed_def rank_item_def)
    obtain w u where 2: "(pr, w, fst y, u) \<in> ranked m" "y = rank_item conns (fst y, u)"
      using xy(2) unfolding set_eq by (auto simp: listed_def rank_item_def)
    have "v = w" using 1(1) 2(1) tracks_wf_unique [OF wf] eq by simp
    then have "t = u" using 1(1) 2(1) eq by (auto simp: ranked_iff)
    then have "x = y" using 1(2) 2(2) eq by metis
    then show False using irr xy by blast
  qed
  then have "sorted_wrt (\<lambda>x y. fst x \<noteq> fst y) (rebuild_list pr conns m)"
    using so by (rule sorted_wrt_mono_rel)
  then show "distinct (map fst (rebuild_list pr conns m))"
    by (rule sorted_wrt_neq_distinct)
qed

text \<open>Whether an update rebuilds the list.\<close>

definition rebuilds :: "u64 \<Rightarrow> u64 \<Rightarrow> u64 \<Rightarrow> u64 \<Rightarrow> TrackRanking \<Rightarrow> bool" where
  "rebuilds ta pr val tick r = snd (UpdateValue_tracks (tr_inactive_age_ms r) (tr_update_value_seq_num r + 1)
     ta pr val tick (tr_ordered_tracks r))"

text \<open>C16. When an update rebuilds the flat list, the list holds every ranked track of the property
  once, with its sequence number, latest tick and connection, and nothing else; it is ordered by
  value from high to low, tracks of equal value by ascending sequence number.\<close>

theorem rebuilt_list_exact:
  fixes r :: TrackRanking and conn :: u64
  assumes "tracks_wf (tr_ordered_tracks r)" and "rebuilds ta pr val tick r"
  defines "r' \<equiv> UpdateValue_rank ta pr val tick conn r"
  shows "set (tr_flat_track_list r') =
      listed pr (mput ta conn (tr_track_connections r)) (tr_ordered_tracks r')
    \<and> distinct (map fst (tr_flat_track_list r'))
    \<and> sorted_wrt (rank_order pr (tr_ordered_tracks r')) (tr_flat_track_list r')"
proof -
  let ?m = "fst (UpdateValue_tracks (tr_inactive_age_ms r) (tr_update_value_seq_num r + 1) ta pr val tick (tr_ordered_tracks r))"
  have "tracks_wf ?m" by (rule UpdateValue_tracks_refines(2)) (rule assms(1))
  moreover have "tr_ordered_tracks r' = ?m"
    "tr_flat_track_list r' = rebuild_list pr (mput ta conn (tr_track_connections r)) ?m"
    using assms(2) by (simp_all add: r'_def UpdateValue_rank_def rebuilds_def Let_def case_prod_unfold)
  ultimately show ?thesis using rebuild_list_exact by simp
qed

theorem rebuilt_list_exact_witness:
  "set (tr_flat_track_list (UpdateValue_rank 7 1 50 100 3 TrackRanking_init)) =
     listed 1 [(7, 3)] (tr_ordered_tracks (UpdateValue_rank 7 1 50 100 3 TrackRanking_init))"
  using rebuilt_list_exact [of TrackRanking_init 7 1 50 100 3]
  by (simp add: TrackRanking_init_def tracks_wf_Nil rebuilds_def UpdateValue_tracks_def leave_old_def
      enter_bucket_def mtry_def mat_def)

lemma entry_seq_unat:
  assumes "unat n < 2 ^ 63"
  shows "unat (entry_seq True n) = 2 ^ 63 - 1 - unat n" "unat (entry_seq False n) = 2 ^ 63 + unat n"
proof -
  have half: "drop_bit 1 (- 1 :: u64) = 2 ^ 63 - 1" by code_simp
  have le: "n \<le> 2 ^ 63 - 1" using assms by (simp add: word_le_nat_alt)
  then have "unat (2 ^ 63 - 1 - n) = unat (2 ^ 63 - 1 :: u64) - unat n" by (rule unat_sub)
  then show "unat (entry_seq True n) = 2 ^ 63 - 1 - unat n" by (simp only: entry_seq_def half if_True) simp
  have "push_bit 63 (1 :: u64) AND n = 0"
  proof (rule bit_word_eqI)
    fix i
    assume "i < LENGTH(64)"
    have "\<not> bit (unat n) 63" using assms by (simp add: bit_iff_odd)
    then have "\<not> bit n 63" by (simp add: bit_unsigned_iff)
    moreover have "push_bit 63 (1 :: u64) = 2 ^ 63" by (simp only: push_bit_eq_mult mult_1_left)
    ultimately show "bit (push_bit 63 (1 :: u64) AND n) i = bit 0 i"
      by (auto simp only: bit_and_iff bit_exp_iff bit_0_eq bot_apply bot_bool_def)
  qed
  then have "push_bit 63 1 OR n = 2 ^ 63 + n"
    using disjunctive_add_eq_or [of "push_bit 63 1" n] by simp
  then show "unat (entry_seq False n) = 2 ^ 63 + unat n"
    using assms by (simp add: entry_seq_def unat_word_ariths)
qed

text \<open>Sequence numbers.  Over the first \<open>2 ^ 63\<close> updates, a track that entered a bucket because
  its value fell sorts before every track that entered otherwise; of two that fell, the later one
  sorts first, of two that entered otherwise, the earlier one.\<close>

theorem entry_seq_order:
  assumes "unat n < unat k" and "unat k < 2 ^ 63"
  shows "entry_seq True k < entry_seq True n \<and> entry_seq False n < entry_seq False k
    \<and> entry_seq True n < entry_seq False k \<and> entry_seq True k < entry_seq False n"
  using assms entry_seq_unat [of n] entry_seq_unat [of k] by (simp add: word_less_nat_alt) linarith

theorem entry_seq_order_witness: "entry_seq True 5 < entry_seq True 2 \<and> entry_seq True 2 < entry_seq False 5"
  using entry_seq_order [of 2 5] by simp

text \<open>An update that does not rebuild keeps the listed aliases and their order.\<close>

lemma touch_list_aliases: "map (\<lambda>(a, s, _). (a, s)) (touch_list ta tick conn xs) = map (\<lambda>(a, s, _). (a, s)) xs"
  by (induction ta tick conn xs rule: touch_list.induct) auto

lemma unrebuilt_list_keeps:
  assumes "\<not> rebuilds ta pr val tick r"
  shows "map fst (tr_flat_track_list (UpdateValue_rank ta pr val tick conn r)) = map fst (tr_flat_track_list r)"
proof -
  have "map fst (touch_list ta tick conn xs) = map fst xs" for xs
    by (induction xs) (auto split: prod.split)
  then show ?thesis
    using assms by (simp add: UpdateValue_rank_def rebuilds_def Let_def case_prod_unfold)
qed

lemma leave_buckets_flag: "fst (snd (leave_buckets ta pr val m)) \<Longrightarrow>
    \<exists>((p, v), e) \<in> set m. p = pr \<and> map_of e ta \<noteq> None"
  by (induction ta pr val m rule: leave_buckets.induct) (auto simp: Let_def case_prod_unfold split: if_splits)

lemma leave_old_flag:
  assumes "msorted m" and "fst (snd (leave_old ta pr val m))"
  shows "\<exists>v ti. (pr, v, ta, ti) \<in> ranked m"
proof -
  have "fst (snd (leave_buckets ta pr val (dropWhile (\<lambda>e. fst e < (pr, 0)) m)))"
    using assms(2) by (simp add: leave_old_def case_prod_unfold Let_def)
  then obtain v e where "((pr, v), e) \<in> set m" "map_of e ta \<noteq> None"
    using leave_buckets_flag set_dropWhileD by fast
  then show ?thesis using assms(1) by (auto simp: ranked_iff om.entries_find)
qed

lemma evicts_ranked:
  assumes "entries_ok m" and "evicts age tick m"
  shows "\<exists>p v a ti. (p, v, a, ti) \<in> ranked m \<and> stale age tick ti"
proof -
  obtain p v e a ti where "((p, v), e) \<in> set m" "(a, ti) \<in> set e" "stale age tick ti"
    using assms(2) by (auto simp: evicts_def list_ex_iff)
  moreover from this have "map_of m (p, v) = Some e" using assms(1) by (simp add: entries_ok_def om.entries_find)
  moreover from this have "msorted e" using assms(1) by (simp add: entries_ok_def)
  ultimately show ?thesis unfolding ranked_iff using om.entries_find [of e a ti] by blast
qed

lemma snd_enter_bucket: "snd (enter_bucket ta pr val seq tick m) \<longleftrightarrow> map_of m (pr, val) = None"
  by (simp add: enter_bucket_def Let_def case_prod_unfold)

lemma no_rebuild:
  assumes wf: "tracks_wf m" and new: "\<And>v ti. (pr, v, ta, ti) \<notin> ranked m"
    and bucket: "map_of m (pr, val) = Some e"
    and fresh: "\<And>p v a ti. (p, v, a, ti) \<in> ranked m \<Longrightarrow> \<not> stale age tick ti"
  shows "\<not> snd (UpdateValue_tracks age seq ta pr val tick m)"
proof -
  have ok: "entries_ok m"
    using wf tracks_wf_entry [OF wf] by (simp add: tracks_wf_def entries_ok_def del: split_paired_All)
  then have ms: "msorted m" by (simp add: entries_ok_def)
  obtain m1 n d where l: "leave_old ta pr val m = (m1, n, d)" by (metis surj_pair)
  have "\<not> n" using leave_old_flag [OF ms, of ta pr val] new l by auto
  have m1: "m1 = mupdate (leave_one ta pr val) m" using leave_old_eq(1) [OF ms, of ta pr val] l by simp
  then have b1: "map_of m1 (pr, val) = Some e"
    using bucket map_of_mupdate [OF msorted_distinct [OF ms], of "leave_one ta pr val" "(pr, val)"]
    by (simp add: leave_one_def)
  obtain m2 i where e: "enter_bucket ta pr val (entry_seq d seq) tick m1 = (m2, i)" by fastforce
  have "\<not> i" using snd_enter_bucket [of ta pr val "entry_seq d seq" tick m1] e b1 by simp
  have ok2: "entries_ok m2"
    using entries_ok_enter [OF entries_ok_leave [OF ok, of ta pr val], of ta pr val "entry_seq d seq" tick] l e by simp
  have "\<not> evicts age tick m2"
  proof
    assume "evicts age tick m2"
    then obtain p v a ti where "(p, v, a, ti) \<in> ranked m2" "stale age tick ti" using evicts_ranked [OF ok2] by blast
    then show False
      using ranked_enter [of p v a ti ta pr val "entry_seq d seq" tick m1] ranked_leave [OF ms, of p v a ti ta pr val] fresh l e
      by (auto split: if_splits)
  qed
  with \<open>\<not> n\<close> \<open>\<not> i\<close> l e show ?thesis by (simp add: UpdateValue_tracks_def)
qed

text \<open>A track that is new to its property and has the value of an existing bucket is ranked but
  does not enter the list handed to the subscribers: no flag asks for a rebuild when nothing is
  inactive.  (Unless the list already has the alias, from another property.)\<close>

theorem new_track_in_old_bucket_unlisted:
  fixes r :: TrackRanking and conn :: u64
  assumes wf: "tracks_wf (tr_ordered_tracks r)"
    and new: "\<And>v ti. (pr, v, ta, ti) \<notin> ranked (tr_ordered_tracks r)"
    and bucket: "map_of (tr_ordered_tracks r) (pr, val) = Some e"
    and fresh: "\<And>p v a ti. (p, v, a, ti) \<in> ranked (tr_ordered_tracks r) \<Longrightarrow> \<not> stale (tr_inactive_age_ms r) tick ti"
    and unlisted: "ta \<notin> fst ` set (tr_flat_track_list r)"
  defines "r' \<equiv> UpdateValue_rank ta pr val tick conn r"
  shows "(\<exists>ti. (pr, val, ta, ti) \<in> ranked (tr_ordered_tracks r')) \<and> ta \<notin> fst ` set (tr_flat_track_list r')"
proof
  have "\<not> rebuilds ta pr val tick r"
    unfolding rebuilds_def by (rule no_rebuild [OF wf new bucket fresh])
  then have "map fst (tr_flat_track_list r') = map fst (tr_flat_track_list r)"
    unfolding r'_def by (rule unrebuilt_list_keeps)
  then show "ta \<notin> fst ` set (tr_flat_track_list r')" using unlisted by (metis list.set_map)
  have "ranked (tr_ordered_tracks r') = rank_spec (tr_inactive_age_ms r) (tr_update_value_seq_num r + 1) ta pr val tick
      (ranked (tr_ordered_tracks r))"
    using UpdateValue_tracks_refines(1) [OF wf]
    by (simp add: r'_def UpdateValue_rank_def Let_def case_prod_unfold)
  then show "\<exists>ti. (pr, val, ta, ti) \<in> ranked (tr_ordered_tracks r')"
    using new by (auto simp: rank_spec_iff)
qed

text \<open>One track with value 50, then another.\<close>

definition sample_ranking :: TrackRanking where
  "sample_ranking = TrackRanking_init\<lparr>tr_update_value_seq_num := 1,
     tr_ordered_tracks := [((1, 50), [(7, \<lparr>tti_insert_seq_num = 9, tti_latest_tick = 100\<rparr>)])],
     tr_flat_track_list := [(7, 9, 100, 3)], tr_track_connections := [(7, 3)]\<rparr>"

lemma sample_ranking_ranked: "(p, v, a, ti) \<in> ranked (tr_ordered_tracks sample_ranking) \<longleftrightarrow>
    p = 1 \<and> v = 50 \<and> a = 7 \<and> ti = \<lparr>tti_insert_seq_num = 9, tti_latest_tick = 100\<rparr>"
  by (auto simp: ranked_iff sample_ranking_def split: if_splits)

theorem new_track_in_old_bucket_unlisted_witness:
  "8 \<notin> fst ` set (tr_flat_track_list (UpdateValue_rank 8 1 50 120 4 sample_ranking))"
proof -
  have "tracks_wf (tr_ordered_tracks sample_ranking)"
    unfolding tracks_wf_def sample_ranking_ranked
    by (simp add: sample_ranking_def msorted_Cons)
  then show ?thesis
    using new_track_in_old_bucket_unlisted [of sample_ranking 1 8 50
        "[(7, \<lparr>tti_insert_seq_num = 9, tti_latest_tick = 100\<rparr>)]" 120 4]
    by (simp add: sample_ranking_ranked stale_def)
      (simp add: sample_ranking_def TrackRanking_init_def del: set_map image_iff)
qed

end
