(* ===== verification/Info_Base.thy ===== *)
theory Info_Base
  imports Msg_Data
begin

text \<open>
  The information base of a relay, \<open>src/src/peering/info_base.{h,cc}\<close>: which nodes are reachable
  through which peering sessions and the best of them, the subscribes and announces of the network,
  and the two forwarding tables.

  Peering sessions are shared objects; here they are references (\<open>sref\<close>) and the argument \<open>live\<close>
  gives the session identifier of a reference whose object still exists: \<open>live r = None\<close> is a
  \<open>weak_ptr\<close> that does not lock any more.  Hashes of namespaces and names are libquicr's and come as
  the record \<open>hash_api\<close>.  Operations that can fail return the tables they leave and their result.
\<close>

section \<open>State\<close>

type_synonym sref = nat
type_synonym live = "sref \<Rightarrow> u64 option"

record hash_api =
  h_entries :: "bytes list \<Rightarrow> u64 list"          \<comment> \<open>\<open>TrackNamespace::GetHashes\<close>\<close>
  h_combine :: "u64 \<Rightarrow> u64 \<Rightarrow> u64"              \<comment> \<open>\<open>quicr::hash_combine\<close>\<close>
  h_track :: "bytes list \<Rightarrow> bytes \<Rightarrow> TrackHash"  \<comment> \<open>\<open>quicr::TrackHash\<close>\<close>

record NodeItem =
  nit_peer_session :: sref
  nit_node_info :: NodeInfo

record FibEntry =
  fib_update_ref :: u64
  fib_streams :: "(u64, u64) omap"
  fib_out_sns_id :: u32
  fib_peer_session :: "sref option"   \<comment> \<open>\<open>None\<close> is a \<open>weak_ptr\<close> that was never set\<close>
  fib_track_fullname_hash :: u64

record InfoBase =
  ib_nodes :: "(u64 \<times> u64, NodeItem) omap"
  ib_nodes_best :: "(u64, sref) omap"
  ib_subscribes :: "(u64, (u64, SubscribeInfo) omap) omap"
  ib_client_fib :: "(u64 \<times> u64, FibEntry) omap"
  ib_peer_fib :: "(u64 \<times> u32, (u64, FibEntry) omap) omap"
  ib_announces :: "(u64, (u64, AnnounceInfo) omap) omap"
  ib_prefix_lookup_announces :: "(u64, u64 list) omap"
  ib_nodes_by_peer_session :: "(u64, u64 list) omap"

definition InfoBase_init :: InfoBase where
  "InfoBase_init = \<lparr>ib_nodes = [], ib_nodes_best = [], ib_subscribes = [], ib_client_fib = [], ib_peer_fib = [],
     ib_announces = [], ib_prefix_lookup_announces = [], ib_nodes_by_peer_session = []\<rparr>"

section \<open>Best peering session of a node\<close>

definition NodeInfo_default :: NodeInfo where
  "NodeInfo_default = \<lparr>ni_id = 0, ni_type = 0, ni_contact = [], ni_longitude = 0, ni_latitude = 0, ni_path = []\<rparr>"

text \<open>\<open>nodes_.at({ node_id, r.lock()->GetSessionId() }).node_info\<close>\<close>

definition node_via :: "live \<Rightarrow> InfoBase \<Rightarrow> u64 \<Rightarrow> sref \<Rightarrow> NodeInfo res" where
  "node_via live ib node_id r =
     (case live r of
        None \<Rightarrow> Inl Null_Deref
      | Some sid \<Rightarrow> (case map_of (ib_nodes ib) (node_id, sid) of
            None \<Rightarrow> Inl Std_Out_Of_Range
          | Some item \<Rightarrow> Inr (nit_node_info item)))"

text \<open>The condition that replaces the best so far.\<close>

definition better :: "NodeInfo \<Rightarrow> NodeInfo \<Rightarrow> bool" where
  "better n best \<longleftrightarrow> length (ni_path n) < length (ni_path best) \<or> NodeInfo_SumSrtt n < NodeInfo_SumSrtt best"

fun select_best :: "live \<Rightarrow> InfoBase \<Rightarrow> u64 \<Rightarrow> (u64 \<times> u64, NodeItem) omap \<Rightarrow> sref option \<Rightarrow> NodeInfo \<Rightarrow> bool
    \<Rightarrow> (sref option \<times> bool) res" where
  "select_best live ib node_id [] best best_info upd = Inr (best, upd)"
| "select_best live ib node_id ((key, item) # rest) best best_info upd =
     (if (case best of None \<Rightarrow> True | Some r \<Rightarrow> live r = None) \<or> better (nit_node_info item) best_info
      then (case live (nit_peer_session item) of
              None \<Rightarrow> Inl Null_Deref
            | Some _ \<Rightarrow> res_bind (node_via live ib node_id (nit_peer_session item)) (\<lambda>info.
                select_best live ib node_id rest (Some (nit_peer_session item)) info True))
      else select_best live ib node_id rest best best_info upd)"

text \<open>The forwarding table dump reads every best entry.\<close>

definition dump_best :: "live \<Rightarrow> InfoBase \<Rightarrow> unit res" where
  "dump_best live ib = foldr (\<lambda>(nid, r) k. res_bind (node_via live ib nid r) (\<lambda>_. k)) (ib_nodes_best ib) (Inr ())"

definition SelectBestNode :: "live \<Rightarrow> u64 \<Rightarrow> InfoBase \<Rightarrow> InfoBase \<times> bool res" where
  "SelectBestNode live node_id ib =
     (let start = (case map_of (ib_nodes_best ib) node_id of
                     None \<Rightarrow> Inr (None, NodeInfo_default)
                   | Some r \<Rightarrow> res_bind (node_via live ib node_id r) (\<lambda>info. Inr (Some r, info)))
      in case res_bind start (\<lambda>(best, info). select_best live ib node_id (key_range node_id (ib_nodes ib)) best info False) of
           Inl e \<Rightarrow> (ib, Inl e)
         | Inr (best, is_updated) \<Rightarrow>
             (case best of
                Some r \<Rightarrow> if is_updated
                  then let ib' = ib\<lparr>ib_nodes_best := mput node_id r (ib_nodes_best ib)\<rparr>
                       in (ib', res_bind (dump_best live ib') (\<lambda>_. Inr True))
                  else (ib, Inr False)
              | None \<Rightarrow> (ib, Inr False)))"

definition AddNode :: "live \<Rightarrow> sref \<Rightarrow> NodeInfo \<Rightarrow> InfoBase \<Rightarrow> InfoBase \<times> bool res" where
  "AddNode live peer_session node_info ib =
     (case live peer_session of
        None \<Rightarrow> (ib, Inl Null_Deref)
      | Some sid \<Rightarrow>
          SelectBestNode live (ni_id node_info)
            (ib\<lparr>ib_nodes := mput (ni_id node_info, sid)
                  \<lparr>nit_peer_session = peer_session, nit_node_info = node_info\<rparr> (ib_nodes ib),
                ib_nodes_by_peer_session := mput sid
                  (insort_insert (ni_id node_info) (mat [] (ib_nodes_by_peer_session ib) sid))
                  (ib_nodes_by_peer_session ib)\<rparr>))"

text \<open>\<open>if (nodes_best_.erase(node_id) > 0) SelectBestNode(node_id);\<close>\<close>

definition reselect :: "live \<Rightarrow> u64 \<Rightarrow> InfoBase \<Rightarrow> InfoBase \<times> unit res" where
  "reselect live node_id ib =
     (if map_of (ib_nodes_best ib) node_id \<noteq> None
      then andthen (SelectBestNode live node_id (ib\<lparr>ib_nodes_best := mdel node_id (ib_nodes_best ib)\<rparr>)) (\<lambda>_ ib. (ib, Inr ()))
      else (ib, Inr ()))"

definition RemoveNode :: "live \<Rightarrow> u64 \<Rightarrow> u64 \<Rightarrow> InfoBase \<Rightarrow> InfoBase \<times> unit res" where
  "RemoveNode live peer_session_id node_id ib =
     (let by = (case map_of (ib_nodes_by_peer_session ib) peer_session_id of
                  None \<Rightarrow> ib_nodes_by_peer_session ib
                | Some ids \<Rightarrow> (let ids = sdel node_id ids in
                    if ids = [] then mdel peer_session_id (ib_nodes_by_peer_session ib)
                    else mput peer_session_id ids (ib_nodes_by_peer_session ib)))
      in reselect live node_id
           (ib\<lparr>ib_nodes_by_peer_session := by, ib_nodes := mdel (node_id, peer_session_id) (ib_nodes ib)\<rparr>))"

definition PurgePeerSessionInfo :: "live \<Rightarrow> u64 \<Rightarrow> InfoBase \<Rightarrow> InfoBase \<times> unit res" where
  "PurgePeerSessionInfo live peer_session_id ib =
     andthen
       (case map_of (ib_nodes_by_peer_session ib) peer_session_id of
          None \<Rightarrow> (ib, Inr ())
        | Some ids \<Rightarrow>
            andthen (foreach (\<lambda>node_id ib.
                reselect live node_id (ib\<lparr>ib_nodes := mdel (node_id, peer_session_id) (ib_nodes ib)\<rparr>)) ids ib)
              (\<lambda>_ ib. (ib\<lparr>ib_nodes_by_peer_session := mdel peer_session_id (ib_nodes_by_peer_session ib)\<rparr>, Inr ())))
       (\<lambda>_ ib. (ib\<lparr>ib_peer_fib := fold mdel (map fst (key_range peer_session_id (ib_peer_fib ib))) (ib_peer_fib ib)\<rparr>, Inr ()))"

definition GetBestPeerSession :: "u64 \<Rightarrow> InfoBase \<Rightarrow> sref option" where
  "GetBestPeerSession node_id ib = map_of (ib_nodes_best ib) node_id"

section \<open>Subscribes\<close>

definition HasSubscribers :: "SubscribeInfo \<Rightarrow> InfoBase \<Rightarrow> bool" where
  "HasSubscribers si ib = (case map_of (ib_subscribes ib) (th_fullname (si_track_hash si)) of
      None \<Rightarrow> False
    | Some subs \<Rightarrow> list_ex (\<lambda>(_, s). si_source_node_id s \<noteq> si_source_node_id si) subs)"

definition AddSubscribe :: "SubscribeInfo \<Rightarrow> InfoBase \<Rightarrow> InfoBase \<times> bool" where
  "AddSubscribe si ib =
     (let fh = th_fullname (si_track_hash si);
          subs = mat [] (ib_subscribes ib) fh;
          store = (\<lambda>subs. ib\<lparr>ib_subscribes := mput fh subs (ib_subscribes ib)\<rparr>)
      in case map_of subs (si_source_node_id si) of
           Some old \<Rightarrow> if uint (si_seq old) - uint (si_seq si) = 0 then (store subs, False)
                       else (store (mput (si_source_node_id si) si subs), True)
         | None \<Rightarrow> (store (mput (si_source_node_id si) si subs), True))"

definition RemoveSubscribe :: "SubscribeInfo \<Rightarrow> InfoBase \<Rightarrow> InfoBase \<times> bool" where
  "RemoveSubscribe si ib =
     (let fh = th_fullname (si_track_hash si) in
      case map_of (ib_subscribes ib) fh of
        None \<Rightarrow> (ib, False)
      | Some subs \<Rightarrow> (case map_of subs (si_source_node_id si) of
            None \<Rightarrow> (ib, False)
          | Some _ \<Rightarrow> (let subs = mdel (si_source_node_id si) subs in
              (ib\<lparr>ib_subscribes := (if subs = [] then mdel fh (ib_subscribes ib)
                                    else mput fh subs (ib_subscribes ib))\<rparr>, True))))"

text \<open>\<open>subscribes_[hash]\<close> enters an empty map for a track it does not know.\<close>

definition GetSubscribe :: "u64 \<Rightarrow> u64 \<Rightarrow> InfoBase \<Rightarrow> InfoBase \<times> SubscribeInfo option" where
  "GetSubscribe fh src_node_id ib =
     (let subs = mat [] (ib_subscribes ib) fh in
      (ib\<lparr>ib_subscribes := mput fh subs (ib_subscribes ib)\<rparr>, map_of subs src_node_id))"

section \<open>Announces\<close>

fun prefix_hashes_from :: "(u64 \<Rightarrow> u64 \<Rightarrow> u64) \<Rightarrow> u64 \<Rightarrow> u64 list \<Rightarrow> u64 list" where
  "prefix_hashes_from comb h [] = []"
| "prefix_hashes_from comb h (e # es) = (let h = comb h e in h # prefix_hashes_from comb h es)"

definition PrefixHashNamespaceTuples :: "hash_api \<Rightarrow> bytes list \<Rightarrow> u64 list" where
  "PrefixHashNamespaceTuples ha ns = prefix_hashes_from (h_combine ha) 0 (h_entries ha ns)"

definition AddAnnounce :: "hash_api \<Rightarrow> AnnounceInfo \<Rightarrow> InfoBase \<Rightarrow> InfoBase \<times> bool" where
  "AddAnnounce ha ai ib =
     (let fh = ai_fullname_hash ai;
          (origins, is_new) = mtry (ai_source_node_id ai) ai (mat [] (ib_announces ib) fh);
          ib = ib\<lparr>ib_announces := mput fh origins (ib_announces ib)\<rparr>
      in if is_new
         then (ib\<lparr>ib_prefix_lookup_announces :=
                 fold (\<lambda>ph m. case map_of m ph of
                         None \<Rightarrow> mput ph [fh] m
                       | Some hs \<Rightarrow> mput ph (insort_insert fh hs) m)
                   (PrefixHashNamespaceTuples ha (ai_name_space ai)) (ib_prefix_lookup_announces ib)\<rparr>, True)
         else (ib, False))"

text \<open>The loop over the prefixes: the lookup table, the prefixes to erase and \<open>removed\<close>.\<close>

definition unlink_prefix :: "u64 \<Rightarrow> u64 \<Rightarrow> (u64, u64 list) omap \<times> u64 list \<times> bool \<Rightarrow> (u64, u64 list) omap \<times> u64 list \<times> bool" where
  "unlink_prefix fh ph st =
     (case st of (m, rm, removed) \<Rightarrow>
       (case map_of m ph of
          None \<Rightarrow> st
        | Some hs \<Rightarrow> if fh \<in> set hs
            then (mput ph (sdel fh hs) m, if sdel fh hs = [] then rm @ [ph] else rm, True)
            else st))"

definition RemoveAnnounce :: "hash_api \<Rightarrow> AnnounceInfo \<Rightarrow> InfoBase \<Rightarrow> InfoBase \<times> bool" where
  "RemoveAnnounce ha ai ib =
     (let fh = ai_fullname_hash ai in
      case map_of (ib_announces ib) fh of
        None \<Rightarrow> (ib, False)
      | Some origins \<Rightarrow>
          (let (m, rm, removed) = fold (unlink_prefix fh) (PrefixHashNamespaceTuples ha (ai_name_space ai))
                                    (ib_prefix_lookup_announces ib, [], False);
               m = fold mdel rm m;
               origins = mdel (ai_source_node_id ai) origins
           in (ib\<lparr>ib_prefix_lookup_announces := m,
                   ib_announces := (if origins = [] then mdel fh (ib_announces ib)
                                    else mput fh origins (ib_announces ib))\<rparr>, removed)))"

definition GetAnnounceIds :: "hash_api \<Rightarrow> bytes list \<Rightarrow> bytes \<Rightarrow> bool \<Rightarrow> InfoBase \<Rightarrow> u64 list res" where
  "GetAnnounceIds ha ns name exact ib =
     (let ids = (case map_of (ib_announces ib) (th_fullname (h_track ha ns name)) of
                   None \<Rightarrow> []
                 | Some origins \<Rightarrow> fold (\<lambda>(nid, _). insort_insert nid) origins [])
      in if ids \<noteq> [] \<or> exact then Inr ids
         else let hashes = PrefixHashNamespaceTuples ha ns in
           if hashes = [] then Inl Out_Of_Bounds
           else case map_of (ib_prefix_lookup_announces ib) (last hashes) of
             None \<Rightarrow> Inr ids
           | Some fhs \<Rightarrow> Inr (fold (\<lambda>fh ids. case map_of (ib_announces ib) fh of
                                 None \<Rightarrow> ids
                               | Some origins \<Rightarrow> fold (\<lambda>(nid, _). insort_insert nid) origins ids) fhs ids))"

section \<open>The node tables stay consistent\<close>

text \<open>
  Every node entry belongs to a live session of that identifier; every best session is live and
  has an entry for the node; every node with an entry has a best session; the table by session
  lists exactly the entries of the session.
\<close>

definition usable :: "live \<Rightarrow> InfoBase \<Rightarrow> u64 \<Rightarrow> sref \<Rightarrow> bool" where
  "usable live ib nid r \<longleftrightarrow> (\<exists>sid. live r = Some sid \<and> map_of (ib_nodes ib) (nid, sid) \<noteq> None)"

definition nodes_wf :: "live \<Rightarrow> InfoBase \<Rightarrow> bool" where
  "nodes_wf live ib \<longleftrightarrow> msorted (ib_nodes ib) \<and> msorted (ib_nodes_best ib)
     \<and> (\<forall>nid sid item. map_of (ib_nodes ib) (nid, sid) = Some item \<longrightarrow> live (nit_peer_session item) = Some sid)
     \<and> (\<forall>nid r. map_of (ib_nodes_best ib) nid = Some r \<longrightarrow> usable live ib nid r)"

definition has_best :: "InfoBase \<Rightarrow> u64 \<Rightarrow> bool" where
  "has_best ib nid \<longleftrightarrow> (\<exists>sid. map_of (ib_nodes ib) (nid, sid) \<noteq> None) \<longrightarrow> map_of (ib_nodes_best ib) nid \<noteq> None"

definition by_session_wf :: "InfoBase \<Rightarrow> bool" where
  "by_session_wf ib \<longleftrightarrow> (\<forall>nid sid. nid \<in> set (mat [] (ib_nodes_by_peer_session ib) sid) \<longleftrightarrow> map_of (ib_nodes ib) (nid, sid) \<noteq> None)
     \<and> (\<forall>sid ids. map_of (ib_nodes_by_peer_session ib) sid = Some ids \<longrightarrow> ssorted ids)"

definition ib_wf :: "live \<Rightarrow> InfoBase \<Rightarrow> bool" where
  "ib_wf live ib \<longleftrightarrow> nodes_wf live ib \<and> (\<forall>nid. has_best ib nid) \<and> by_session_wf ib"

lemma nodes_wf_item: "nodes_wf live ib \<Longrightarrow> ((nid, sid), item) \<in> set (ib_nodes ib) \<Longrightarrow>
    live (nit_peer_session item) = Some sid \<and> map_of (ib_nodes ib) (nid, sid) = Some item"
  unfolding nodes_wf_def by (simp add: om.entries_find)

lemma node_via_ok: "live r = Some sid \<Longrightarrow> map_of (ib_nodes ib) (nid, sid) = Some item \<Longrightarrow>
    node_via live ib nid r = Inr (nit_node_info item)"
  by (simp add: node_via_def)

lemma dump_best_ok:
  assumes "\<And>nid r. (nid, r) \<in> set (ib_nodes_best ib) \<Longrightarrow> \<exists>info. node_via live ib nid r = Inr info"
  shows "dump_best live ib = Inr ()"
proof -
  have "foldr (\<lambda>(nid, r) k. res_bind (node_via live ib nid r) (\<lambda>_. k)) xs (Inr ()) = Inr ()"
    if "\<And>nid r. (nid, r) \<in> set xs \<Longrightarrow> \<exists>info. node_via live ib nid r = Inr info" for xs
    using that
  proof (induction xs)
    case (Cons x xs)
    obtain nid r where x: "x = (nid, r)" by (cases x)
    obtain info where "node_via live ib nid r = Inr info" using Cons.prems [of nid r] x by auto
    with Cons x show ?case by simp
  qed simp
  then show ?thesis using assms unfolding dump_best_def by blast
qed

text \<open>
  The selection loop never fails on consistent tables.  Its result is either what it started with,
  or the session of some entry; an expired or missing start is replaced by the first entry.
\<close>

lemma select_best_upd:
  assumes wf: "nodes_wf live ib" and "set items \<subseteq> set (ib_nodes ib)" and "\<forall>(k, item) \<in> set items. fst k = nid"
    and "usable live ib nid r"
  shows "\<exists>r'. select_best live ib nid items (Some r) info True = Inr (Some r', True) \<and> usable live ib nid r'"
  using assms(2-4)
proof (induction items arbitrary: r info)
  case (Cons x items)
  obtain sid item where x: "x = ((nid, sid), item)" using Cons.prems(2) by (cases x) auto
  have it: "live (nit_peer_session item) = Some sid" "map_of (ib_nodes ib) (nid, sid) = Some item"
    using nodes_wf_item [OF wf, of nid sid item] Cons.prems(1) x by auto
  then have "node_via live ib nid (nit_peer_session item) = Inr (nit_node_info item)" and
    "usable live ib nid (nit_peer_session item)" by (simp_all add: node_via_def usable_def)
  with Cons it show ?case by (simp add: x)
qed simp

lemma select_best_ok:
  assumes wf: "nodes_wf live ib" and "set items \<subseteq> set (ib_nodes ib)" and "\<forall>(k, item) \<in> set items. fst k = nid"
    and "case best of None \<Rightarrow> \<not> upd | Some r \<Rightarrow> usable live ib nid r"
  shows "\<exists>best' upd'. select_best live ib nid items best info upd = Inr (best', upd')
    \<and> (case best' of None \<Rightarrow> best = None \<and> items = [] \<and> \<not> upd' | Some r \<Rightarrow> usable live ib nid r)
    \<and> (\<not> upd' \<longrightarrow> best' = best)"
  using assms(2-4)
proof (induction items arbitrary: best info upd)
  case Nil
  then show ?case by (auto split: option.splits)
next
  case (Cons x items)
  obtain sid item where x: "x = ((nid, sid), item)" using Cons.prems(2) by (cases x) auto
  have it: "live (nit_peer_session item) = Some sid" "map_of (ib_nodes ib) (nid, sid) = Some item"
    using nodes_wf_item [OF wf, of nid sid item] Cons.prems(1) x by auto
  then have via: "node_via live ib nid (nit_peer_session item) = Inr (nit_node_info item)" and
    us: "usable live ib nid (nit_peer_session item)" by (simp_all add: node_via_def usable_def)
  have sub: "set items \<subseteq> set (ib_nodes ib)" "\<forall>(k, item) \<in> set items. fst k = nid" using Cons.prems by auto
  show ?case
  proof (cases "(case best of None \<Rightarrow> True | Some r \<Rightarrow> live r = None) \<or> better (nit_node_info item) info")
    case True
    then have "select_best live ib nid (x # items) best info upd =
        select_best live ib nid items (Some (nit_peer_session item)) (nit_node_info item) True"
      using it via by (simp add: x)
    moreover obtain r' where "select_best live ib nid items (Some (nit_peer_session item)) (nit_node_info item) True
        = Inr (Some r', True)" "usable live ib nid r'"
      using select_best_upd [OF wf sub us, of "nit_node_info item"] by auto
    ultimately show ?thesis by (intro exI [of _ "Some r'"] exI [of _ True]) simp
  next
    case False
    then have "select_best live ib nid (x # items) best info upd = select_best live ib nid items best info upd"
      by (simp add: x)
    moreover obtain r where "best = Some r" using False by (auto split: option.splits)
    ultimately show ?thesis using Cons.IH [OF sub Cons.prems(3)] by (fastforce split: option.splits)
  qed
qed

lemma key_range_subset: "msorted m \<Longrightarrow> set (key_range x m) = {e \<in> set m. fst (fst e) = x}"
  by (auto simp: key_range_eq)

lemma best_info:
  assumes "nodes_wf live ib"
  obtains info where "(case map_of (ib_nodes_best ib) nid of None \<Rightarrow> Inr (None, NodeInfo_default)
      | Some r \<Rightarrow> res_bind (node_via live ib nid r) (\<lambda>info. Inr (Some r, info))) = Inr (map_of (ib_nodes_best ib) nid, info)"
proof (cases "map_of (ib_nodes_best ib) nid")
  case None
  then show ?thesis using that by simp
next
  case (Some r)
  then have "usable live ib nid r" using assms by (simp add: nodes_wf_def)
  then obtain sid item where "live r = Some sid" "map_of (ib_nodes ib) (nid, sid) = Some item" by (auto simp: usable_def)
  then show ?thesis using that Some by (simp add: node_via_ok)
qed

lemma dump_new_best:
  assumes wf: "nodes_wf live ib" and r: "usable live ib nid r"
  shows "dump_best live (ib\<lparr>ib_nodes_best := mput nid r (ib_nodes_best ib)\<rparr>) = Inr ()"
proof -
  let ?ib = "ib\<lparr>ib_nodes_best := mput nid r (ib_nodes_best ib)\<rparr>"
  have "map_of (ib_nodes_best ib) n = Some q \<Longrightarrow> usable live ib n q" for n q using wf by (simp add: nodes_wf_def)
  then have "\<exists>info. node_via live ?ib n q = Inr info" if "map_of (ib_nodes_best ?ib) n = Some q" for n q
    using that r by (fastforce simp: node_via_def usable_def split: if_splits)
  moreover have "msorted (ib_nodes_best ?ib)" using wf by (simp add: nodes_wf_def)
  ultimately show ?thesis by (intro dump_best_ok) (simp only: om.entries_find)
qed

lemma SelectBestNode_ok:
  assumes wf: "nodes_wf live ib"
  obtains ib' b where "SelectBestNode live nid ib = (ib', Inr b)"
    and "ib' = ib \<and> \<not> b \<or> (\<exists>r. usable live ib nid r \<and> ib' = ib\<lparr>ib_nodes_best := mput nid r (ib_nodes_best ib)\<rparr>)"
    and "has_best ib' nid"
proof -
  have ms: "msorted (ib_nodes ib)" using wf by (simp add: nodes_wf_def)
  let ?items = "key_range nid (ib_nodes ib)"
  have items: "set ?items \<subseteq> set (ib_nodes ib)" "\<forall>(k, item) \<in> set ?items. fst k = nid"
    using key_range_subset [OF ms, of nid] by auto
  let ?best = "map_of (ib_nodes_best ib) nid"
  have us: "?best = Some r \<Longrightarrow> usable live ib nid r" for r using wf by (simp add: nodes_wf_def)
  obtain info where start: "(case ?best of None \<Rightarrow> Inr (None, NodeInfo_default)
      | Some r \<Rightarrow> res_bind (node_via live ib nid r) (\<lambda>info. Inr (Some r, info))) = Inr (?best, info)"
    using best_info [OF wf] .
  have pre: "case ?best of None \<Rightarrow> \<not> False | Some r \<Rightarrow> usable live ib nid r" using us by (simp split: option.split)
  obtain best' upd' where sel: "select_best live ib nid ?items ?best info False = Inr (best', upd')"
    "case best' of None \<Rightarrow> ?best = None \<and> ?items = [] \<and> \<not> upd' | Some r \<Rightarrow> usable live ib nid r"
    "\<not> upd' \<Longrightarrow> best' = ?best"
    using select_best_ok [OF wf items pre] by blast
  show thesis
  proof (cases best')
    case None
    then have "SelectBestNode live nid ib = (ib, Inr False)" and "?items = []"
      using start sel by (simp_all add: SelectBestNode_def)
    moreover have "((nid, sid), item) \<notin> set (ib_nodes ib)" for sid item
      using \<open>?items = []\<close> key_range_subset [OF ms, of nid] by auto
    then have "has_best ib nid" using ms by (auto simp: has_best_def om.entries_find)
    ultimately show ?thesis using that by blast
  next
    case (Some r)
    show ?thesis
    proof (cases upd')
      case False
      then have "?best = Some r" using sel Some by simp
      then have "has_best ib nid" by (simp add: has_best_def)
      moreover have "SelectBestNode live nid ib = (ib, Inr False)"
        using start sel Some False by (simp add: SelectBestNode_def split: option.split)
      ultimately show ?thesis using that by blast
    next
      case True
      let ?ib = "ib\<lparr>ib_nodes_best := mput nid r (ib_nodes_best ib)\<rparr>"
      have usr: "usable live ib nid r" using sel Some by simp
      have "SelectBestNode live nid ib = (?ib, Inr True)"
        using start sel Some True dump_new_best [OF wf usr] by (simp add: SelectBestNode_def Let_def)
      moreover have "has_best ?ib nid" by (simp add: has_best_def)
      ultimately show ?thesis using that usr by blast
    qed
  qed
qed

lemma usable_nodes:
  "usable live (ib\<lparr>ib_nodes_best := b\<rparr>) nid r = usable live ib nid r"
  "usable live ib nid r \<Longrightarrow> usable live (ib\<lparr>ib_nodes := mput k x (ib_nodes ib), ib_nodes_by_peer_session := y\<rparr>) nid r"
  "usable live ib nid r \<Longrightarrow> nid \<noteq> n \<Longrightarrow> usable live (ib\<lparr>ib_nodes := mdel (n, sid) (ib_nodes ib), ib_nodes_by_peer_session := y\<rparr>) nid r"
  by (auto simp: usable_def)

lemma SelectBestNode_keeps:
  assumes "nodes_wf live ib" and "SelectBestNode live nid ib = (ib', res)"
  shows "\<exists>b. res = Inr b" and "nodes_wf live ib'" and "has_best ib' nid" and "\<And>n. has_best ib n \<Longrightarrow> has_best ib' n"
    and "ib_nodes ib' = ib_nodes ib" and "ib_nodes_by_peer_session ib' = ib_nodes_by_peer_session ib"
    and "ib_peer_fib ib' = ib_peer_fib ib" and "\<And>n. n \<noteq> nid \<Longrightarrow> map_of (ib_nodes_best ib') n = map_of (ib_nodes_best ib) n"
proof -
  obtain ib1 b where s: "SelectBestNode live nid ib = (ib1, Inr b)"
    "ib1 = ib \<and> \<not> b \<or> (\<exists>r. usable live ib nid r \<and> ib1 = ib\<lparr>ib_nodes_best := mput nid r (ib_nodes_best ib)\<rparr>)"
    "has_best ib1 nid"
    using assms(1) by (rule SelectBestNode_ok)
  then have eq: "ib' = ib1" "res = Inr b" using assms(2) by simp_all
  show "\<exists>b. res = Inr b" using eq by simp
  show "nodes_wf live ib'"
    using s(2) assms(1) usable_nodes unfolding eq(1) by (auto simp: nodes_wf_def split: if_splits)
  show "has_best ib' nid" using s(3) eq by simp
  show "\<And>n. has_best ib n \<Longrightarrow> has_best ib' n" using s(2) unfolding eq(1) by (auto simp: has_best_def)
  show "ib_nodes ib' = ib_nodes ib" "ib_nodes_by_peer_session ib' = ib_nodes_by_peer_session ib"
    "ib_peer_fib ib' = ib_peer_fib ib" "\<And>n. n \<noteq> nid \<Longrightarrow> map_of (ib_nodes_best ib') n = map_of (ib_nodes_best ib) n"
    using s(2) unfolding eq(1) by auto
qed

lemma AddNode_keeps:
  assumes wf: "ib_wf live ib" and r: "live r = Some sid" and a: "AddNode live r ni ib = (ib', res)"
  shows "(\<exists>b. res = Inr b) \<and> ib_wf live ib' \<and> map_of (ib_nodes ib') (ni_id ni, sid) = Some \<lparr>nit_peer_session = r, nit_node_info = ni\<rparr>"
proof -
  define ib1 where "ib1 = ib\<lparr>ib_nodes := mput (ni_id ni, sid) \<lparr>nit_peer_session = r, nit_node_info = ni\<rparr> (ib_nodes ib),
    ib_nodes_by_peer_session := mput sid (insort_insert (ni_id ni) (mat [] (ib_nodes_by_peer_session ib) sid))
      (ib_nodes_by_peer_session ib)\<rparr>"
  have s: "SelectBestNode live (ni_id ni) ib1 = (ib', res)" using a r by (simp add: AddNode_def ib1_def)
  have "nodes_wf live ib1"
    using wf r usable_nodes(2) by (auto simp: ib_wf_def nodes_wf_def ib1_def)
  note k = SelectBestNode_keeps [OF this s]
  have "has_best ib' n" for n
  proof (cases "n = ni_id ni")
    case False
    then have "has_best ib1 n" using wf by (auto simp: ib_wf_def has_best_def ib1_def)
    then show ?thesis by (rule k(4))
  qed (use k(3) in simp)
  moreover have "by_session_wf ib1"
  proof -
    have "ssorted (mat [] (ib_nodes_by_peer_session ib) sid)"
      using wf by (simp add: ib_wf_def by_session_wf_def mat_def split: option.split)
    then show ?thesis
      using wf by (auto simp: ib_wf_def by_session_wf_def ib1_def mat_def set_insort_insert split: option.splits if_splits)
  qed
  then have "by_session_wf ib'" using k(5,6) by (simp add: by_session_wf_def)
  ultimately show ?thesis using k(1,2,5) by (simp add: ib_wf_def) (simp add: ib1_def)
qed

text \<open>Removing entries of a node and choosing again.\<close>

lemma reselect_keeps:
  assumes wf: "nodes_wf live ib0" and nodes: "ib = ib0\<lparr>ib_nodes := mdel (nid, sid) (ib_nodes ib0), ib_nodes_by_peer_session := by_s\<rparr>"
    and s: "reselect live nid ib = (ib', res)" and best: "has_best ib0 nid"
  shows "res = Inr ()" and "nodes_wf live ib'" and "has_best ib' nid"
    and "\<And>n. n \<noteq> nid \<Longrightarrow> has_best ib0 n \<Longrightarrow> has_best ib' n"
    and "ib_nodes ib' = mdel (nid, sid) (ib_nodes ib0)" and "ib_nodes_by_peer_session ib' = by_s" and "ib_peer_fib ib' = ib_peer_fib ib0"
proof -
  have "res = Inr () \<and> nodes_wf live ib' \<and> has_best ib' nid \<and> (\<forall>n. n \<noteq> nid \<longrightarrow> has_best ib0 n \<longrightarrow> has_best ib' n)
    \<and> ib_nodes ib' = mdel (nid, sid) (ib_nodes ib0) \<and> ib_nodes_by_peer_session ib' = by_s \<and> ib_peer_fib ib' = ib_peer_fib ib0"
  proof (cases "map_of (ib_nodes_best ib0) nid")
    case None
    then have "ib' = ib" "res = Inr ()" using s by (simp_all add: reselect_def nodes)
    moreover have "nodes_wf live ib"
    proof -
      have "usable live ib n q" if "map_of (ib_nodes_best ib0) n = Some q" for n q
        unfolding nodes by (rule usable_nodes(3)) (use that wf None in \<open>auto simp: nodes_wf_def\<close>)
      then show ?thesis using wf by (auto simp: nodes_wf_def nodes)
    qed
    moreover have "has_best ib nid" using best None by (auto simp: has_best_def nodes)
    ultimately show ?thesis by (auto simp: nodes has_best_def)
  next
    case (Some r)
    let ?ib = "ib\<lparr>ib_nodes_best := mdel nid (ib_nodes_best ib)\<rparr>"
    obtain ib1 r1 where s1: "SelectBestNode live nid ?ib = (ib1, r1)" by fastforce
    have "nodes_wf live ?ib"
      using wf usable_nodes(3) [of live ib0 _ _ nid] by (auto simp: nodes_wf_def nodes usable_nodes(1) split: if_splits)
    note k = SelectBestNode_keeps [OF this s1]
    have "res = Inr ()" "ib' = ib1" using s s1 k(1) Some by (auto simp: reselect_def nodes)
    moreover have "has_best ib1 n" if "n \<noteq> nid" "has_best ib0 n" for n
      by (rule k(4)) (use that in \<open>auto simp: has_best_def nodes\<close>)
    ultimately show ?thesis using k by (simp add: nodes)
  qed
  then show "res = Inr ()" and "nodes_wf live ib'" and "has_best ib' nid"
    and "\<And>n. n \<noteq> nid \<Longrightarrow> has_best ib0 n \<Longrightarrow> has_best ib' n"
    and "ib_nodes ib' = mdel (nid, sid) (ib_nodes ib0)" and "ib_nodes_by_peer_session ib' = by_s" and "ib_peer_fib ib' = ib_peer_fib ib0"
    by simp_all
qed

lemma by_session_remove:
  assumes "by_session_wf ib" and "ib_nodes ib' = mdel (nid, sid) (ib_nodes ib)"
    and "\<And>s. mat [] (ib_nodes_by_peer_session ib') s =
      (if s = sid then sdel nid (mat [] (ib_nodes_by_peer_session ib) s) else mat [] (ib_nodes_by_peer_session ib) s)"
    and "\<And>s ids. map_of (ib_nodes_by_peer_session ib') s = Some ids \<Longrightarrow> ssorted ids"
  shows "by_session_wf ib'"
  using assms by (auto simp: by_session_wf_def)

lemma RemoveNode_keeps:
  assumes wf: "ib_wf live ib" and a: "RemoveNode live sid nid ib = (ib', res)"
  shows "res = Inr () \<and> ib_wf live ib' \<and> map_of (ib_nodes ib') (nid, sid) = None"
proof -
  define by_s where "by_s = (case map_of (ib_nodes_by_peer_session ib) sid of
      None \<Rightarrow> ib_nodes_by_peer_session ib
    | Some ids \<Rightarrow> (let ids = sdel nid ids in
        if ids = [] then mdel sid (ib_nodes_by_peer_session ib) else mput sid ids (ib_nodes_by_peer_session ib)))"
  let ?ib = "ib\<lparr>ib_nodes_by_peer_session := by_s, ib_nodes := mdel (nid, sid) (ib_nodes ib)\<rparr>"
  have eq: "?ib = ib\<lparr>ib_nodes := mdel (nid, sid) (ib_nodes ib), ib_nodes_by_peer_session := by_s\<rparr>" by simp
  have r: "reselect live nid ?ib = (ib', res)" using a unfolding RemoveNode_def by_s_def by (simp only: Let_def)
  have wf0: "nodes_wf live ib" "has_best ib nid" using wf by (simp_all add: ib_wf_def)
  note k = reselect_keeps [OF wf0(1) eq r wf0(2)]
  have mat_by: "mat [] by_s s = (if s = sid then sdel nid (mat [] (ib_nodes_by_peer_session ib) s)
      else mat [] (ib_nodes_by_peer_session ib) s)" for s
    by (auto simp: by_s_def mat_def Let_def sdel_def split: option.splits)
  have ss: "map_of by_s s = Some ids \<Longrightarrow> ssorted ids" for s ids
    using wf by (auto simp: by_s_def ib_wf_def by_session_wf_def Let_def split: option.splits if_splits)
  have "by_session_wf ib'"
    by (rule by_session_remove [of ib _ nid sid]) (use wf k(5,6) mat_by ss in \<open>simp_all add: ib_wf_def\<close>)
  moreover have "has_best ib' n" for n using k(3) k(4) [of n] wf by (cases "n = nid") (simp_all add: ib_wf_def)
  ultimately show ?thesis using k(1,2,5) by (simp add: ib_wf_def)
qed

text \<open>The purge of a session removes its entries one node at a time; the table by session is
  only cleaned at the end.\<close>

lemma purge_loop:
  assumes "nodes_wf live ib" and "\<And>n. has_best ib n"
  shows "\<exists>ib'. foreach (\<lambda>node_id ib. reselect live node_id (ib\<lparr>ib_nodes := mdel (node_id, sid) (ib_nodes ib)\<rparr>)) ids ib = (ib', Inr ())
    \<and> nodes_wf live ib' \<and> (\<forall>n. has_best ib' n) \<and> ib_nodes_by_peer_session ib' = ib_nodes_by_peer_session ib
    \<and> ib_peer_fib ib' = ib_peer_fib ib
    \<and> (\<forall>n s. map_of (ib_nodes ib') (n, s) = (if n \<in> set ids \<and> s = sid then None else map_of (ib_nodes ib) (n, s)))"
  using assms
proof (induction ids arbitrary: ib)
  case (Cons nid ids)
  let ?ib = "ib\<lparr>ib_nodes := mdel (nid, sid) (ib_nodes ib)\<rparr>"
  obtain ib1 res where r: "reselect live nid ?ib = (ib1, res)" by fastforce
  have eq: "?ib = ib\<lparr>ib_nodes := mdel (nid, sid) (ib_nodes ib), ib_nodes_by_peer_session := ib_nodes_by_peer_session ib\<rparr>" by simp
  note k = reselect_keeps [OF Cons.prems(1) eq r Cons.prems(2)]
  have hb: "has_best ib1 n" for n using k(3) k(4) [of n] Cons.prems(2) by (cases "n = nid") auto
  obtain ib' where "foreach (\<lambda>node_id ib. reselect live node_id (ib\<lparr>ib_nodes := mdel (node_id, sid) (ib_nodes ib)\<rparr>)) ids ib1 = (ib', Inr ())"
    "nodes_wf live ib'" "\<forall>n. has_best ib' n" "ib_nodes_by_peer_session ib' = ib_nodes_by_peer_session ib1"
    "ib_peer_fib ib' = ib_peer_fib ib1"
    "\<forall>n s. map_of (ib_nodes ib') (n, s) = (if n \<in> set ids \<and> s = sid then None else map_of (ib_nodes ib1) (n, s))"
    using Cons.IH [OF k(2) hb] by blast
  then show ?case using r k(1,5,6,7) by auto
qed auto

lemma fold_mdel_keys: "map_of (fold mdel ks m) k = (if k \<in> set ks then None else map_of m k)"
  by (induction ks arbitrary: m) auto

lemma PurgePeerSessionInfo_keeps:
  assumes wf: "ib_wf live ib" and fib: "msorted (ib_peer_fib ib)"
  shows "\<exists>ib'. PurgePeerSessionInfo live sid ib = (ib', Inr ()) \<and> ib_wf live ib'
    \<and> (\<forall>n s. map_of (ib_nodes ib') (n, s) = (if s = sid then None else map_of (ib_nodes ib) (n, s)))
    \<and> (\<forall>s i. map_of (ib_peer_fib ib') (s, i) = (if s = sid then None else map_of (ib_peer_fib ib) (s, i)))"
proof -
  define ids where "ids = mat [] (ib_nodes_by_peer_session ib) sid"
  have ids: "n \<in> set ids \<longleftrightarrow> map_of (ib_nodes ib) (n, sid) \<noteq> None" for n
    using wf by (simp add: ib_wf_def by_session_wf_def ids_def)
  obtain ib1 where l: "foreach (\<lambda>node_id ib. reselect live node_id (ib\<lparr>ib_nodes := mdel (node_id, sid) (ib_nodes ib)\<rparr>)) ids ib = (ib1, Inr ())"
    "nodes_wf live ib1" "\<forall>n. has_best ib1 n" "ib_nodes_by_peer_session ib1 = ib_nodes_by_peer_session ib"
    "ib_peer_fib ib1 = ib_peer_fib ib"
    "\<forall>n s. map_of (ib_nodes ib1) (n, s) = (if n \<in> set ids \<and> s = sid then None else map_of (ib_nodes ib) (n, s))"
    using purge_loop [of live ib sid ids] wf by (auto simp: ib_wf_def)
  define ib2 where "ib2 = ib1\<lparr>ib_nodes_by_peer_session := mdel sid (ib_nodes_by_peer_session ib1)\<rparr>"
  define ib3 where "ib3 = ib2\<lparr>ib_peer_fib := fold mdel (map fst (key_range sid (ib_peer_fib ib2))) (ib_peer_fib ib2)\<rparr>"
  have nodes: "map_of (ib_nodes ib3) (n, s) = (if s = sid then None else map_of (ib_nodes ib) (n, s))" for n s
    using l(6) ids [of n] by (auto simp: ib3_def ib2_def)
  have "PurgePeerSessionInfo live sid ib = (ib3, Inr ())"
  proof (cases "map_of (ib_nodes_by_peer_session ib) sid")
    case None
    then have "ids = []" by (simp add: ids_def mat_def)
    then have "ib1 = ib" using l(1) by simp
    moreover have "ib2 = ib" using None by (simp add: ib2_def \<open>ib1 = ib\<close> mdel_absent)
    ultimately show ?thesis using None by (simp add: PurgePeerSessionInfo_def ib3_def)
  next
    case (Some xs)
    then show ?thesis using l(1) by (simp add: PurgePeerSessionInfo_def ib3_def ib2_def ids_def mat_def)
  qed
  moreover have "by_session_wf ib3"
    using wf l(4) nodes by (auto simp: ib_wf_def by_session_wf_def ib3_def ib2_def mat_def split: option.splits if_splits)
  then have "ib_wf live ib3"
    using l(2,3) by (auto simp: ib_wf_def nodes_wf_def has_best_def usable_def ib3_def ib2_def)
  moreover have "map_of (ib_peer_fib ib3) (s, i) = (if s = sid then None else map_of (ib_peer_fib ib) (s, i))" for s i
  proof -
    have "(s, i) \<in> set (map fst (key_range sid (ib_peer_fib ib))) \<longleftrightarrow> s = sid \<and> map_of (ib_peer_fib ib) (s, i) \<noteq> None"
      using key_range_subset [OF fib, of sid] by (force simp: om.entries_find [OF fib] image_iff)
    then show ?thesis using l(5) by (auto simp: ib3_def ib2_def fold_mdel_keys simp del: set_map)
  qed
  ultimately show ?thesis using nodes by blast
qed

text \<open>The tables a relay can reach while the sessions \<open>live\<close> exist.\<close>

inductive ib_step :: "live \<Rightarrow> InfoBase \<Rightarrow> InfoBase \<Rightarrow> bool" for live where
  step_add: "live r = Some sid \<Longrightarrow> ib_step live ib (fst (AddNode live r ni ib))"
| step_remove: "ib_step live ib (fst (RemoveNode live sid nid ib))"
| step_purge: "ib_step live ib (fst (PurgePeerSessionInfo live sid ib))"

inductive ib_reach :: "live \<Rightarrow> InfoBase \<Rightarrow> bool" for live where
  reach_init: "ib_reach live InfoBase_init"
| reach_step: "ib_reach live ib \<Longrightarrow> ib_step live ib ib' \<Longrightarrow> ib_reach live ib'"

inductive_cases ib_stepE: "ib_step live ib ib'"

lemma ib_wf_init: "ib_wf live InfoBase_init"
  by (simp add: ib_wf_def nodes_wf_def has_best_def by_session_wf_def InfoBase_init_def mat_def)

lemma SelectBestNode_peer_fib [simp]: "ib_peer_fib (fst (SelectBestNode live nid ib)) = ib_peer_fib ib"
  by (simp add: SelectBestNode_def Let_def split: sum.split prod.split option.split)

lemma reselect_peer_fib [simp]: "ib_peer_fib (fst (reselect live nid ib)) = ib_peer_fib ib"
  by (simp add: reselect_def andthen_def split: sum.split)

lemma AddNode_peer_fib [simp]: "ib_peer_fib (fst (AddNode live r ni ib)) = ib_peer_fib ib"
  by (simp add: AddNode_def split: option.split)

lemma RemoveNode_peer_fib [simp]: "ib_peer_fib (fst (RemoveNode live sid nid ib)) = ib_peer_fib ib"
  by (simp add: RemoveNode_def Let_def)

lemma msorted_fold_mdel: "msorted m \<Longrightarrow> msorted (fold mdel ks m)"
  by (induction ks arbitrary: m) auto

lemma msorted_purge_fib:
  assumes "ib_wf live ib" "msorted (ib_peer_fib ib)"
  shows "msorted (ib_peer_fib (fst (PurgePeerSessionInfo live sid ib)))"
proof -
  have "ib_peer_fib (fst (foreach (\<lambda>node_id ib. reselect live node_id (ib\<lparr>ib_nodes := mdel (node_id, sid) (ib_nodes ib)\<rparr>)) ids ib))
      = ib_peer_fib ib" for ids ib
  proof (induction ids arbitrary: ib)
    case (Cons n ids)
    let ?r = "reselect live n (ib\<lparr>ib_nodes := mdel (n, sid) (ib_nodes ib)\<rparr>)"
    have "ib_peer_fib (fst ?r) = ib_peer_fib ib" by simp
    then show ?case using Cons by (simp add: andthen_def split: sum.split)
  qed simp
  then have "msorted (ib_peer_fib (fst (andthen (foreach (\<lambda>node_id ib. reselect live node_id
      (ib\<lparr>ib_nodes := mdel (node_id, sid) (ib_nodes ib)\<rparr>)) ids ib)
      (\<lambda>_ ib. (ib\<lparr>ib_nodes_by_peer_session := mdel sid (ib_nodes_by_peer_session ib)\<rparr>, Inr ())))))" for ids
    using assms(2) by (simp add: andthen_def split: sum.split)
  then show ?thesis
    using assms(2) by (auto simp: PurgePeerSessionInfo_def andthen_def msorted_fold_mdel split: option.split sum.split)
qed

lemma ib_step_wf:
  assumes "ib_step live ib ib'" and wf: "ib_wf live ib" "msorted (ib_peer_fib ib)"
  shows "ib_wf live ib' \<and> msorted (ib_peer_fib ib')"
  using assms(1)
proof cases
  case (step_add r sid ni)
  then show ?thesis using AddNode_keeps [OF wf(1) step_add(2), of ni] wf by (metis AddNode_peer_fib prod.collapse)
next
  case (step_remove sid nid)
  then show ?thesis using RemoveNode_keeps [OF wf(1), of sid nid] wf by (metis RemoveNode_peer_fib prod.collapse)
next
  case (step_purge sid)
  then show ?thesis
    using PurgePeerSessionInfo_keeps [OF wf, of sid] msorted_purge_fib [OF wf, of sid] by auto
qed

lemma ib_reach_wf: "ib_reach live ib \<Longrightarrow> ib_wf live ib \<and> msorted (ib_peer_fib ib)"
proof (induction rule: ib_reach.induct)
  case reach_init
  then show ?case by (simp add: ib_wf_init) (simp add: InfoBase_init_def)
next
  case (reach_step ib ib')
  then show ?case using ib_step_wf by blast
qed

text \<open>C18. On every information base reachable from the empty one while a set of sessions is live, the
  node tables are consistent (\<open>ib_wf\<close>) and no node operation fails: adding a node through a live session,
  removing a node and purging a session all return, whatever the order.  In particular the selection of the
  best session never dereferences an expired session and \<open>nodes_.at\<close> never throws; the added entry
  is there afterwards, a purged session has no entry left.\<close>

theorem node_tables_safe:
  assumes "ib_reach live ib"
  shows "ib_wf live ib
    \<and> (\<forall>r sid ni. live r = Some sid \<longrightarrow> (\<exists>b. snd (AddNode live r ni ib) = Inr b)
         \<and> map_of (ib_nodes (fst (AddNode live r ni ib))) (ni_id ni, sid) = Some \<lparr>nit_peer_session = r, nit_node_info = ni\<rparr>)
    \<and> (\<forall>sid nid. snd (RemoveNode live sid nid ib) = Inr () \<and> map_of (ib_nodes (fst (RemoveNode live sid nid ib))) (nid, sid) = None)
    \<and> (\<forall>sid. snd (PurgePeerSessionInfo live sid ib) = Inr ()
         \<and> (\<forall>n. map_of (ib_nodes (fst (PurgePeerSessionInfo live sid ib))) (n, sid) = None))"
proof -
  have wf: "ib_wf live ib" "msorted (ib_peer_fib ib)" using ib_reach_wf [OF assms] by simp_all
  have "snd (PurgePeerSessionInfo live sid ib) = Inr () \<and> (\<forall>n. map_of (ib_nodes (fst (PurgePeerSessionInfo live sid ib))) (n, sid) = None)" for sid
    using PurgePeerSessionInfo_keeps [OF wf, of sid] by auto
  then show ?thesis
    using wf(1) AddNode_keeps [OF wf(1)] RemoveNode_keeps [OF wf(1)] by (metis prod.collapse)
qed

theorem node_tables_safe_witness:
  "ib_wf (\<lambda>r. if r = 1 then Some 10 else None) (fst (AddNode (\<lambda>r. if r = 1 then Some 10 else None) 1 sample_node InfoBase_init))"
  using node_tables_safe [OF reach_step [OF reach_init step_add [of "\<lambda>r. if r = 1 then Some 10 else None" 1 10]]]
  by simp

section \<open>What the selection selects\<close>

text \<open>Among entries with equally long paths the one with the least total round trip time.\<close>

lemma select_best_min:
  assumes wf: "nodes_wf live ib" and "set items \<subseteq> set (ib_nodes ib)"
    and "\<forall>(k, item) \<in> set items. fst k = nid \<and> length (ni_path (nit_node_info item)) = hops"
    and "live r = Some sid" "map_of (ib_nodes ib) (nid, sid) = Some item0" "length (ni_path (nit_node_info item0)) = hops"
  shows "\<exists>r' sid' item' u. select_best live ib nid items (Some r) (nit_node_info item0) upd = Inr (Some r', u)
    \<and> live r' = Some sid' \<and> map_of (ib_nodes ib) (nid, sid') = Some item'
    \<and> (\<forall>n \<in> insert (nit_node_info item0) ((nit_node_info \<circ> snd) ` set items). NodeInfo_SumSrtt (nit_node_info item') \<le> NodeInfo_SumSrtt n)"
  using assms(2-)
proof (induction items arbitrary: r sid item0 upd)
  case (Cons x items)
  obtain s item where x: "x = ((nid, s), item)" using Cons.prems(2) by (cases x) auto
  have it: "live (nit_peer_session item) = Some s" "map_of (ib_nodes ib) (nid, s) = Some item"
    using nodes_wf_item [OF wf, of nid s item] Cons.prems(1) x by auto
  have sub: "set items \<subseteq> set (ib_nodes ib)"
    "\<forall>(k, item) \<in> set items. fst k = nid \<and> length (ni_path (nit_node_info item)) = hops"
    "length (ni_path (nit_node_info item)) = hops" using Cons.prems(1,2) x by auto
  show ?case
  proof (cases "NodeInfo_SumSrtt (nit_node_info item) < NodeInfo_SumSrtt (nit_node_info item0)")
    case True
    then have "select_best live ib nid (x # items) (Some r) (nit_node_info item0) upd =
        select_best live ib nid items (Some (nit_peer_session item)) (nit_node_info item) True"
      using it Cons.prems(3) by (simp add: x better_def node_via_ok)
    then show ?thesis
      using Cons.IH [OF sub(1,2) it sub(3), of True] True by (fastforce simp: x)
  next
    case False
    then have "select_best live ib nid (x # items) (Some r) (nit_node_info item0) upd =
        select_best live ib nid items (Some r) (nit_node_info item0) upd"
      using Cons.prems(3,5) sub(3) by (simp add: x better_def)
    then show ?thesis
      using Cons.IH [OF sub(1,2) Cons.prems(3-5), of upd] False by (fastforce simp: x)
  qed
qed auto

text \<open>Best path among equals.  When a node has no best session yet and all of its entries have the
  same number of hops, \<open>SelectBestNode\<close> chooses a session whose total round trip time is least.\<close>

theorem select_best_least_srtt:
  assumes wf: "nodes_wf live ib" and none: "map_of (ib_nodes_best ib) nid = None"
    and some: "map_of (ib_nodes ib) (nid, s0) = Some i0"
    and hops: "\<And>s i. map_of (ib_nodes ib) (nid, s) = Some i \<Longrightarrow> length (ni_path (nit_node_info i)) = hops"
  shows "\<exists>ib' r sid item. SelectBestNode live nid ib = (ib', Inr True)
    \<and> GetBestPeerSession nid ib' = Some r \<and> live r = Some sid \<and> map_of (ib_nodes ib) (nid, sid) = Some item
    \<and> (\<forall>s i. map_of (ib_nodes ib) (nid, s) = Some i \<longrightarrow>
          NodeInfo_SumSrtt (nit_node_info item) \<le> NodeInfo_SumSrtt (nit_node_info i))"
proof -
  have ms: "msorted (ib_nodes ib)" using wf by (simp add: nodes_wf_def)
  let ?items = "key_range nid (ib_nodes ib)"
  have mem: "((nid, s), i) \<in> set ?items \<longleftrightarrow> map_of (ib_nodes ib) (nid, s) = Some i" for s i
    using key_range_subset [OF ms, of nid] by (auto simp: om.entries_find [OF ms])
  have keys: "(k, i) \<in> set ?items \<Longrightarrow> fst k = nid" for k i using key_range_subset [OF ms, of nid] by auto
  obtain x xs where xs: "?items = x # xs" using mem [of s0 i0] some by (cases ?items) auto
  obtain s i where x: "x = ((nid, s), i)" using keys [of "fst x" "snd x"] xs by (cases x) auto
  have i: "map_of (ib_nodes ib) (nid, s) = Some i" using mem xs x by (metis list.set_intros(1))
  then have live: "live (nit_peer_session i) = Some s" using wf by (simp add: nodes_wf_def)
  have sub: "set xs \<subseteq> set (ib_nodes ib)" "\<forall>(k, item) \<in> set xs. fst k = nid \<and> length (ni_path (nit_node_info item)) = hops"
  proof -
    have in_x: "(k, j) \<in> set xs \<Longrightarrow> (k, j) \<in> set ?items" for k j using xs by simp
    then show "set xs \<subseteq> set (ib_nodes ib)" using key_range_subset [OF ms, of nid] by auto
    have "fst k = nid \<and> length (ni_path (nit_node_info j)) = hops" if "(k, j) \<in> set xs" for k j
    proof -
      have "fst k = nid" by (rule keys) (rule in_x [OF that])
      then have "((nid, snd k), j) \<in> set ?items" using in_x [OF that] by (cases k) simp
      then show ?thesis using mem hops \<open>fst k = nid\<close> by simp
    qed
    then show "\<forall>(k, item) \<in> set xs. fst k = nid \<and> length (ni_path (nit_node_info item)) = hops" by blast
  qed
  obtain r sid item u where sel: "select_best live ib nid xs (Some (nit_peer_session i)) (nit_node_info i) True = Inr (Some r, u)"
    "live r = Some sid" "map_of (ib_nodes ib) (nid, sid) = Some item"
    "\<forall>n \<in> insert (nit_node_info i) ((nit_node_info \<circ> snd) ` set xs). NodeInfo_SumSrtt (nit_node_info item) \<le> NodeInfo_SumSrtt n"
    using select_best_min [OF wf sub live i hops [OF i], of True] by blast
  have start: "select_best live ib nid ?items None NodeInfo_default False = Inr (Some r, u)"
    using sel(1) live i by (simp add: xs x node_via_ok)
  have least: "NodeInfo_SumSrtt (nit_node_info item) \<le> NodeInfo_SumSrtt (nit_node_info j)"
    if "map_of (ib_nodes ib) (nid, t) = Some j" for t j
  proof -
    have "((nid, t), j) \<in> set (x # xs)" using mem that xs by simp
    then show ?thesis using sel(4) by (auto simp: x)
  qed
  have "u" using select_best_upd [OF wf sub(1), of nid "nit_peer_session i" "nit_node_info i"] sub(2) live i sel(1)
    by (auto simp: usable_def)
  obtain ib' b where S: "SelectBestNode live nid ib = (ib', Inr b)" using wf by (rule SelectBestNode_ok)
  then have "ib' = ib\<lparr>ib_nodes_best := mput nid r (ib_nodes_best ib)\<rparr> \<and> b"
    using none start \<open>u\<close> by (auto simp: SelectBestNode_def Let_def res_bind_Inr_iff)
  then show ?thesis using S sel(2,3) least by (auto simp: GetBestPeerSession_def)
qed

text \<open>Entries of one node through three sessions, hops and total round trip time as given.\<close>

definition hop_list :: "nat \<Rightarrow> u64 \<Rightarrow> NodePathItem list" where
  "hop_list n t = \<lparr>pi_id = 1, pi_srtt_us = t\<rparr> # replicate (n - 1) \<lparr>pi_id = 2, pi_srtt_us = 0\<rparr>"

definition via_entry :: "u64 \<Rightarrow> nat \<Rightarrow> nat \<Rightarrow> u64 \<Rightarrow> (u64 \<times> u64) \<times> NodeItem" where
  "via_entry sid r hops t = ((7, sid), \<lparr>nit_peer_session = r, nit_node_info = NodeInfo_default\<lparr>ni_id := 7, ni_path := hop_list hops t\<rparr>\<rparr>)"

definition three_ways :: InfoBase where
  "three_ways = InfoBase_init\<lparr>ib_nodes := [via_entry 1 1 2 5, via_entry 2 2 3 4, via_entry 3 3 2 6]\<rparr>"

definition two_ways :: InfoBase where
  "two_ways = InfoBase_init\<lparr>ib_nodes := [via_entry 1 1 2 5, via_entry 2 2 2 4]\<rparr>"

definition three_live :: live where
  "three_live r = (if r \<in> {1, 2, 3} then Some (word_of_nat r) else None)"

lemma sum_idle_hops [simp]: "foldl (\<lambda>sum item. sum + pi_srtt_us item) a (replicate n \<lparr>pi_id = 2, pi_srtt_us = 0\<rparr>) = a"
  by (induction n) simp_all

lemmas ways_defs = three_ways_def two_ways_def via_entry_def InfoBase_init_def three_live_def hop_list_def
  NodeInfo_SumSrtt_def NodeInfo_default_def

lemma ways_wf: "nodes_wf three_live three_ways" "nodes_wf three_live two_ways"
  by (auto simp: nodes_wf_def ways_defs msorted_def split: if_splits)

theorem select_best_least_srtt_witness:
  "\<exists>ib' r sid item. SelectBestNode three_live 7 two_ways = (ib', Inr True) \<and> GetBestPeerSession 7 ib' = Some r
     \<and> map_of (ib_nodes two_ways) (7, sid) = Some item \<and> NodeInfo_SumSrtt (nit_node_info item) \<le> 4"
proof -
  have "map_of (ib_nodes_best two_ways) 7 = None" by (simp add: ways_defs)
  moreover have "map_of (ib_nodes two_ways) (7, 2) = Some (snd (via_entry 2 2 2 4))" by (simp add: ways_defs)
  moreover have "length (ni_path (nit_node_info i)) = 2" if "map_of (ib_nodes two_ways) (7, s) = Some i" for s i
    using that by (auto simp: ways_defs split: if_splits)
  moreover have "NodeInfo_SumSrtt (nit_node_info (snd (via_entry 2 2 2 4))) = 4" by (simp add: ways_defs)
  ultimately show ?thesis
    using select_best_least_srtt [OF ways_wf(2), of 7 2 "snd (via_entry 2 2 2 4)" 2] by metis
qed

text \<open>The two criteria are not applied in their documented order.  With paths of (hops, total round
  trip time) (2, 5), (3, 4) and (2, 6), met in this order, the third session is chosen, although the
  first has as few hops and a smaller round trip time: each comparison replaces the best when
  either criterion improves.\<close>

theorem select_best_not_lexicographic:
  "\<exists>ib'. SelectBestNode three_live 7 three_ways = (ib', Inr True) \<and> GetBestPeerSession 7 ib' = Some 3
     \<and> (\<exists>better_item best_item. map_of (ib_nodes three_ways) (7, 1) = Some better_item
          \<and> map_of (ib_nodes three_ways) (7, 3) = Some best_item
          \<and> length (ni_path (nit_node_info better_item)) = length (ni_path (nit_node_info best_item))
          \<and> NodeInfo_SumSrtt (nit_node_info better_item) < NodeInfo_SumSrtt (nit_node_info best_item))"
proof -
  have k: "key_range 7 (ib_nodes three_ways) = ib_nodes three_ways"
    by (simp add: key_range_def ways_defs less_prod_def)
  have "select_best three_live three_ways 7 (ib_nodes three_ways) None NodeInfo_default False = Inr (Some 3, True)"
    by (simp add: ways_defs better_def node_via_def)
  then show ?thesis
    by (simp add: SelectBestNode_def k Let_def GetBestPeerSession_def)
      (simp add: ways_defs dump_best_def node_via_def)
qed

section \<open>Subscribes\<close>

lemma AddSubscribe_eq:
  defines "subs \<equiv> \<lambda>ib si. mat [] (ib_subscribes ib) (th_fullname (si_track_hash si))"
  shows "AddSubscribe si ib =
    (let dup = (case map_of (subs ib si) (si_source_node_id si) of None \<Rightarrow> False | Some old \<Rightarrow> si_seq old = si_seq si);
         s = (if dup then subs ib si else mput (si_source_node_id si) si (subs ib si))
     in (ib\<lparr>ib_subscribes := mput (th_fullname (si_track_hash si)) s (ib_subscribes ib)\<rparr>, \<not> dup))"
  by (simp add: AddSubscribe_def Let_def subs_def word_uint_eq_iff split: option.split)

definition subscription :: "InfoBase \<Rightarrow> u64 \<Rightarrow> u64 \<Rightarrow> SubscribeInfo option" where
  "subscription ib fh nid = map_of (mat [] (ib_subscribes ib) fh) nid"

text \<open>The table takes every info with another sequence number, also an older one.\<close>

lemma AddSubscribe_reports:
  "snd (AddSubscribe si ib) = (case subscription ib (th_fullname (si_track_hash si)) (si_source_node_id si) of None \<Rightarrow> True | Some old \<Rightarrow> si_seq old \<noteq> si_seq si)"
  by (simp add: AddSubscribe_eq Let_def subscription_def split: option.split)

lemma AddSubscribe_stores:
  "subscription (fst (AddSubscribe si ib)) f n =
     (if f = th_fullname (si_track_hash si) \<and> n = si_source_node_id si \<and> snd (AddSubscribe si ib) then Some si else subscription ib f n)"
  by (auto simp: AddSubscribe_eq Let_def subscription_def mat_def split: option.splits)

text \<open>C20. The subscribe table.  For infos that do not arrive out of order (none has a lesser sequence number than the one stored),
  \<open>AddSubscribe\<close> reports true and stores the info exactly when the node had no info for the track or the number is greater; a repeated info (as
  a flooding loop delivers it) is reported false and changes no entry.  Other nodes and tracks keep theirs.  \<open>RemoveSubscribe\<close>
  takes the node's entry away and reports whether there was one, and \<open>GetSubscribe\<close> reads the entry.  What happens to
  an info with a lesser number is \<open>older_subscribe_replaces\<close>.\<close>

theorem subscribe_table_laws:
  fixes si :: SubscribeInfo and ib :: InfoBase
  defines "fh \<equiv> th_fullname (si_track_hash si)" and "src \<equiv> si_source_node_id si"
  assumes in_order: "pred_option (\<lambda>old. si_seq old \<le> si_seq si) (subscription ib fh src)"
  shows "snd (AddSubscribe si ib) = (case subscription ib fh src of None \<Rightarrow> True | Some old \<Rightarrow> si_seq old < si_seq si)
    \<and> subscription (fst (AddSubscribe si ib)) f n =
        (if f = fh \<and> n = src \<and> snd (AddSubscribe si ib) then Some si else subscription ib f n)
    \<and> snd (AddSubscribe si (fst (AddSubscribe si ib))) = False
    \<and> snd (RemoveSubscribe si ib) = (subscription ib fh src \<noteq> None)
    \<and> subscription (fst (RemoveSubscribe si ib)) f n = (if f = fh \<and> n = src then None else subscription ib f n)
    \<and> snd (GetSubscribe f n ib) = subscription ib f n
    \<and> subscription (fst (GetSubscribe g m ib)) f n = subscription ib f n"
proof (intro conjI)
  show "snd (AddSubscribe si ib) = (case subscription ib fh src of None \<Rightarrow> True | Some old \<Rightarrow> si_seq old < si_seq si)"
    using in_order by (auto simp: AddSubscribe_reports fh_def src_def split: option.splits)
  show "subscription (fst (AddSubscribe si ib)) f n =
      (if f = fh \<and> n = src \<and> snd (AddSubscribe si ib) then Some si else subscription ib f n)"
    by (simp add: AddSubscribe_stores fh_def src_def)
  show "snd (AddSubscribe si (fst (AddSubscribe si ib))) = False"
    by (auto simp: AddSubscribe_eq Let_def mat_def split: option.splits)
  show "snd (RemoveSubscribe si ib) = (subscription ib fh src \<noteq> None)"
    by (auto simp: RemoveSubscribe_def Let_def subscription_def fh_def src_def mat_def split: option.splits)
  show "subscription (fst (RemoveSubscribe si ib)) f n = (if f = fh \<and> n = src then None else subscription ib f n)"
  proof (cases "map_of (ib_subscribes ib) fh")
    case (Some subs)
    have "map_of (mdel src subs) m = (if m = src then None else map_of subs m)" for m by simp
    moreover from this have "mdel src subs = [] \<Longrightarrow> m \<noteq> src \<Longrightarrow> map_of subs m = None" for m
      by (metis map_of.simps(1))
    ultimately show ?thesis using Some
      by (auto simp: RemoveSubscribe_def Let_def subscription_def fh_def src_def mat_def split: option.splits)
  qed (auto simp: RemoveSubscribe_def Let_def subscription_def fh_def mat_def)
  show "snd (GetSubscribe f n ib) = subscription ib f n"
    by (simp add: GetSubscribe_def Let_def subscription_def)
  show "subscription (fst (GetSubscribe g m ib)) f n = subscription ib f n"
    by (simp add: GetSubscribe_def Let_def subscription_def mat_def split: option.split)
qed

definition seq_info :: "u16 \<Rightarrow> SubscribeInfo" where
  "seq_info n = \<lparr>si_seq = n, si_source_node_id = 3, si_track_hash = \<lparr>th_namespace = 1, th_name = 2, th_fullname = 33\<rparr>, si_subscribe_data = []\<rparr>"

theorem subscribe_table_laws_witness:
  "snd (AddSubscribe (seq_info 5) (fst (AddSubscribe (seq_info 4) InfoBase_init)))
    \<and> subscription (fst (AddSubscribe (seq_info 5) (fst (AddSubscribe (seq_info 4) InfoBase_init)))) 33 3 = Some (seq_info 5)"
proof -
  have "subscription (fst (AddSubscribe (seq_info 4) InfoBase_init)) 33 3 = Some (seq_info 4)"
    by (simp add: AddSubscribe_stores AddSubscribe_reports seq_info_def) (simp add: subscription_def InfoBase_init_def mat_def)
  then show ?thesis
    using subscribe_table_laws [where ib = "fst (AddSubscribe (seq_info 4) InfoBase_init)" and si = "seq_info 5" and f = 33 and n = 3] by (simp add: seq_info_def)
qed

text \<open>An info that was overtaken by a newer one takes its place, where \<open>subscribe_info.h\<close> says that it can be ignored.\<close>

lemma older_subscribe_replaces:
  assumes "subscription ib (th_fullname (si_track_hash si)) (si_source_node_id si) = Some newer" and "si_seq si < si_seq newer"
  shows "snd (AddSubscribe si ib)"
    and "subscription (fst (AddSubscribe si ib)) (th_fullname (si_track_hash si)) (si_source_node_id si) = Some si"
  using assms by (simp_all add: AddSubscribe_stores AddSubscribe_reports)

section \<open>Announces and the prefix index\<close>

text \<open>The index lists, for each prefix hash, the announces that have an origin with this prefix.\<close>

definition announced :: "InfoBase \<Rightarrow> u64 \<Rightarrow> u64 \<Rightarrow> AnnounceInfo option" where
  "announced ib fh nid = map_of (mat [] (ib_announces ib) fh) nid"

definition index_wf :: "hash_api \<Rightarrow> InfoBase \<Rightarrow> bool" where
  "index_wf ha ib \<longleftrightarrow> (\<forall>ph fh. fh \<in> set (mat [] (ib_prefix_lookup_announces ib) ph) \<longleftrightarrow>
     (\<exists>nid ai. announced ib fh nid = Some ai \<and> ph \<in> set (PrefixHashNamespaceTuples ha (ai_name_space ai))))"

lemma mat_mput [simp]: "mat d (mput k v m) k' = (if k' = k then v else mat d m k')"
  by (simp add: mat_def)

lemma mat_mdel [simp]: "mat d (mdel k m) k' = (if k' = k then d else mat d m k')"
  by (simp add: mat_def)

lemma link_prefixes: "fh' \<in> set (mat [] (fold (\<lambda>ph m. case map_of m ph of
      None \<Rightarrow> mput ph [fh] m | Some hs \<Rightarrow> mput ph (insort_insert fh hs) m) phs m) ph) \<longleftrightarrow>
    fh' \<in> set (mat [] m ph) \<or> ph \<in> set phs \<and> fh' = fh"
proof (induction phs arbitrary: m)
  case (Cons p phs)
  have "fh' \<in> set (mat [] (case map_of m p of None \<Rightarrow> mput p [fh] m | Some hs \<Rightarrow> mput p (insort_insert fh hs) m) ph)
      \<longleftrightarrow> fh' \<in> set (mat [] m ph) \<or> ph = p \<and> fh' = fh"
    by (auto simp: set_insort_insert split: option.splits) (auto simp: mat_def)
  then show ?case using Cons by auto
qed simp

lemma unlink_prefixes:
  assumes "fold (unlink_prefix fh) phs (m, rm, b) = (m', rm', b')" and "\<forall>p \<in> set rm. mat [] m p = []"
  shows "(\<forall>p \<in> set rm'. mat [] m' p = [])
    \<and> (\<forall>ph fh'. fh' \<in> set (mat [] m' ph) \<longleftrightarrow> fh' \<in> set (mat [] m ph) \<and> \<not> (ph \<in> set phs \<and> fh' = fh))"
  using assms
proof (induction phs arbitrary: m rm b)
  case (Cons p phs)
  obtain m1 rm1 b1 where st: "unlink_prefix fh p (m, rm, b) = (m1, rm1, b1)" by (metis surj_pair)
  have "(\<forall>p \<in> set rm1. mat [] m1 p = [])
    \<and> (\<forall>ph fh'. fh' \<in> set (mat [] m1 ph) \<longleftrightarrow> fh' \<in> set (mat [] m ph) \<and> \<not> (ph = p \<and> fh' = fh))"
  proof (cases "fh \<in> set (mat [] m p)")
    case True
    then obtain hs where hs: "map_of m p = Some hs" "fh \<in> set hs" by (cases "map_of m p") (auto simp: mat_def)
    then have "m1 = mput p (sdel fh hs) m" "rm1 = (if sdel fh hs = [] then rm @ [p] else rm)"
      using st by (auto simp: unlink_prefix_def)
    moreover have "mat [] m p = hs" using hs by (simp add: mat_def)
    ultimately show ?thesis using Cons.prems(2) hs by (auto simp: sdel_def split: if_splits)
  next
    case False
    then have "m1 = m" "rm1 = rm" using st by (auto simp: unlink_prefix_def mat_def split: option.splits)
    then show ?thesis using False Cons.prems(2) by auto
  qed
  moreover have "fold (unlink_prefix fh) phs (m1, rm1, b1) = (m', rm', b')" using Cons.prems(1) st by simp
  ultimately show ?case using Cons.IH [of m1 rm1 b1] by auto
qed simp

lemma AddAnnounce_index:
  assumes "index_wf ha ib"
  shows "index_wf ha (fst (AddAnnounce ha ai ib))"
    and "announced (fst (AddAnnounce ha ai ib)) f n =
      (if f = ai_fullname_hash ai \<and> n = ai_source_node_id ai \<and> announced ib f n = None then Some ai else announced ib f n)"
    and "snd (AddAnnounce ha ai ib) = (announced ib (ai_fullname_hash ai) (ai_source_node_id ai) = None)"
proof -
  let ?fh = "ai_fullname_hash ai" and ?src = "ai_source_node_id ai"
  show an: "announced (fst (AddAnnounce ha ai ib)) f n =
      (if f = ?fh \<and> n = ?src \<and> announced ib f n = None then Some ai else announced ib f n)" for f n
    by (auto simp: AddAnnounce_def announced_def Let_def case_prod_unfold fst_mtry)
  show "snd (AddAnnounce ha ai ib) = (announced ib ?fh ?src = None)"
    by (simp add: AddAnnounce_def announced_def Let_def case_prod_unfold)
  show "index_wf ha (fst (AddAnnounce ha ai ib))"
  proof (cases "announced ib ?fh ?src")
    case None
    have "fh \<in> set (mat [] (ib_prefix_lookup_announces (fst (AddAnnounce ha ai ib))) ph) \<longleftrightarrow>
        fh \<in> set (mat [] (ib_prefix_lookup_announces ib) ph) \<or> ph \<in> set (PrefixHashNamespaceTuples ha (ai_name_space ai)) \<and> fh = ?fh" for ph fh
      using None by (simp add: AddAnnounce_def announced_def Let_def case_prod_unfold link_prefixes)
    moreover have "announced ib fh nid = Some b \<Longrightarrow> announced (fst (AddAnnounce ha ai ib)) fh nid = Some b"
      "announced (fst (AddAnnounce ha ai ib)) fh nid = Some b \<Longrightarrow> announced ib fh nid = Some b \<or> fh = ?fh \<and> b = ai" for fh nid b
      by (auto simp: an split: if_splits)
    moreover have "announced (fst (AddAnnounce ha ai ib)) ?fh ?src = Some ai" using None by (simp add: an)
    ultimately show ?thesis using assms unfolding index_wf_def by blast
  next
    case (Some a)
    then have "fst (AddAnnounce ha ai ib) = ib\<lparr>ib_announces := ib_announces (fst (AddAnnounce ha ai ib))\<rparr>"
      by (simp add: AddAnnounce_def announced_def Let_def case_prod_unfold)
    then have "ib_prefix_lookup_announces (fst (AddAnnounce ha ai ib)) = ib_prefix_lookup_announces ib"
      by (metis InfoBase.select_convs(7) InfoBase.surjective InfoBase.update_convs(6))
    moreover have "announced (fst (AddAnnounce ha ai ib)) fh nid = announced ib fh nid" for fh nid
      using Some by (auto simp: an)
    ultimately show ?thesis using assms unfolding index_wf_def by simp
  qed
qed

lemma RemoveAnnounce_effect:
  assumes a: "map_of (ib_announces ib) (ai_fullname_hash ai) = Some origins"
  shows "announced (fst (RemoveAnnounce ha ai ib)) f n =
      (if f = ai_fullname_hash ai \<and> n = ai_source_node_id ai then None else announced ib f n)"
    and "fh \<in> set (mat [] (ib_prefix_lookup_announces (fst (RemoveAnnounce ha ai ib))) ph) \<longleftrightarrow>
      fh \<in> set (mat [] (ib_prefix_lookup_announces ib) ph)
      \<and> \<not> (ph \<in> set (PrefixHashNamespaceTuples ha (ai_name_space ai)) \<and> fh = ai_fullname_hash ai)"
proof -
  obtain m rm b where u: "fold (unlink_prefix (ai_fullname_hash ai)) (PrefixHashNamespaceTuples ha (ai_name_space ai))
      (ib_prefix_lookup_announces ib, [], False) = (m, rm, b)" by (metis surj_pair)
  note uu = unlink_prefixes [OF u]
  have del: "mat [] (fold mdel rm m) ph = mat [] m ph" if "\<forall>p \<in> set rm. mat [] m p = []" for ph
    using that by (auto simp: mat_def fold_mdel_keys)
  have "mdel (ai_source_node_id ai) origins = [] \<Longrightarrow> n \<noteq> ai_source_node_id ai \<Longrightarrow> map_of origins n = None"
    by (metis fun_upd_apply map_of.simps(1) map_of_mdel)
  then show "announced (fst (RemoveAnnounce ha ai ib)) f n =
      (if f = ai_fullname_hash ai \<and> n = ai_source_node_id ai then None else announced ib f n)"
    using a u by (auto simp: RemoveAnnounce_def Let_def announced_def) (auto simp: mat_def)
  show "fh \<in> set (mat [] (ib_prefix_lookup_announces (fst (RemoveAnnounce ha ai ib))) ph) \<longleftrightarrow>
      fh \<in> set (mat [] (ib_prefix_lookup_announces ib) ph)
      \<and> \<not> (ph \<in> set (PrefixHashNamespaceTuples ha (ai_name_space ai)) \<and> fh = ai_fullname_hash ai)"
    using a u uu del by (simp add: RemoveAnnounce_def Let_def)
qed

text \<open>The node identifiers of a table of origins, as \<open>GetAnnounceIds\<close> collects them.\<close>

lemma set_collect_ids: "set (fold (\<lambda>(nid, _). insort_insert nid) origins ids) = fst ` set origins \<union> set ids"
  by (induction origins arbitrary: ids) (auto simp: set_insort_insert)

lemma set_collect_announces: "set (fold (\<lambda>fh ids. case map_of m fh of
      None \<Rightarrow> ids | Some origins \<Rightarrow> fold (\<lambda>(nid, _). insort_insert nid) origins ids) fhs ids)
    = (\<Union>fh \<in> set fhs. fst ` set (mat [] m fh)) \<union> set ids"
proof (induction fhs arbitrary: ids)
  case (Cons fh fhs)
  show ?case using Cons by (cases "map_of m fh") (auto simp: set_collect_ids mat_def)
qed simp

lemma announced_origin: "announced ib fh nid \<noteq> None \<longleftrightarrow> nid \<in> fst ` set (mat [] (ib_announces ib) fh)"
  by (simp add: announced_def map_of_eq_None_iff)

definition exact_match :: "hash_api \<Rightarrow> bytes list \<Rightarrow> bytes \<Rightarrow> InfoBase \<Rightarrow> u64 set" where
  "exact_match ha ns name ib = {nid. announced ib (th_fullname (h_track ha ns name)) nid \<noteq> None}"

definition prefix_match :: "hash_api \<Rightarrow> bytes list \<Rightarrow> InfoBase \<Rightarrow> u64 set" where
  "prefix_match ha ns ib = {nid. \<exists>fh origin ai. announced ib fh nid \<noteq> None \<and> announced ib fh origin = Some ai
     \<and> last (PrefixHashNamespaceTuples ha ns) \<in> set (PrefixHashNamespaceTuples ha (ai_name_space ai))}"

lemma GetAnnounceIds_spec:
  assumes "index_wf ha ib" and "PrefixHashNamespaceTuples ha ns \<noteq> []"
  shows "\<exists>ids. GetAnnounceIds ha ns name exact ib = Inr ids
    \<and> set ids = (if exact \<or> exact_match ha ns name ib \<noteq> {} then exact_match ha ns name ib else prefix_match ha ns ib)"
proof -
  let ?fh = "th_fullname (h_track ha ns name)"
  define ids where "ids = (case map_of (ib_announces ib) ?fh of
      None \<Rightarrow> [] | Some origins \<Rightarrow> fold (\<lambda>(nid, _). insort_insert nid) origins [])"
  have ids: "set ids = exact_match ha ns name ib"
    unfolding exact_match_def announced_origin ids_def
    by (cases "map_of (ib_announces ib) ?fh") (simp_all add: mat_def set_collect_ids)
  let ?ph = "last (PrefixHashNamespaceTuples ha ns)"
  have G: "GetAnnounceIds ha ns name exact ib = (if ids \<noteq> [] \<or> exact then Inr ids
      else Inr (fold (\<lambda>fh ids. case map_of (ib_announces ib) fh of
          None \<Rightarrow> ids | Some origins \<Rightarrow> fold (\<lambda>(nid, _). insort_insert nid) origins ids)
          (mat [] (ib_prefix_lookup_announces ib) ?ph) ids))"
    using assms(2) unfolding GetAnnounceIds_def Let_def ids_def [symmetric]
    by (simp add: mat_def split: option.split)
  have "(\<Union>fh \<in> set (mat [] (ib_prefix_lookup_announces ib) ?ph). fst ` set (mat [] (ib_announces ib) fh)) = prefix_match ha ns ib"
    using assms(1) unfolding index_wf_def prefix_match_def announced_origin by blast
  then show ?thesis using G ids by (auto simp: set_collect_announces)
qed

lemma RemoveAnnounce_index:
  assumes wf: "index_wf ha ib"
    and only: "\<And>nid b. announced ib (ai_fullname_hash ai) nid = Some b \<Longrightarrow> nid = ai_source_node_id ai \<and> ai_name_space b = ai_name_space ai"
  shows "index_wf ha (fst (RemoveAnnounce ha ai ib))"
proof (cases "map_of (ib_announces ib) (ai_fullname_hash ai)")
  case None
  then show ?thesis using wf by (simp add: RemoveAnnounce_def)
next
  case (Some origins)
  note eff = RemoveAnnounce_effect [OF Some, where ha = ha]
  show ?thesis unfolding index_wf_def
  proof (intro allI)
    fix ph fh
    let ?ib = "fst (RemoveAnnounce ha ai ib)"
    show "fh \<in> set (mat [] (ib_prefix_lookup_announces ?ib) ph) \<longleftrightarrow>
        (\<exists>nid b. announced ?ib fh nid = Some b \<and> ph \<in> set (PrefixHashNamespaceTuples ha (ai_name_space b)))"
    proof (cases "fh = ai_fullname_hash ai")
      case True
      have "announced ?ib fh nid = None" for nid
        using only True by (cases "announced ib fh nid") (auto simp: eff(1))
      moreover have "fh \<notin> set (mat [] (ib_prefix_lookup_announces ?ib) ph)"
        using wf only True unfolding eff(2) index_wf_def by metis
      ultimately show ?thesis by simp
    next
      case False
      then show ?thesis using wf unfolding index_wf_def by (simp add: eff)
    qed
  qed
qed

lemma RemoveAnnounce_announced:
  "announced (fst (RemoveAnnounce ha ai ib)) f n = (if f = ai_fullname_hash ai \<and> n = ai_source_node_id ai then None else announced ib f n)"
proof (cases "map_of (ib_announces ib) (ai_fullname_hash ai)")
  case None
  then have "RemoveAnnounce ha ai ib = (ib, False)" "announced ib (ai_fullname_hash ai) n = None"
    by (simp_all add: RemoveAnnounce_def announced_def mat_def)
  then show ?thesis by auto
qed (rule RemoveAnnounce_effect(1))

text \<open>
  The abstract table: which announce of a track a node has made.  The first announce of a node stays until the node withdraws
  it.  \<open>ann_reach ha ib m\<close>: the information base has come to implement the table \<open>m\<close> by announces of any nodes, by withdrawals of
  tracks that no other node announces, and by operations on its other tables.
\<close>

type_synonym ann_table = "u64 \<Rightarrow> u64 \<Rightarrow> AnnounceInfo option"

definition put_announce :: "AnnounceInfo \<Rightarrow> ann_table \<Rightarrow> ann_table" where
  "put_announce ai m = (\<lambda>f n. if f = ai_fullname_hash ai \<and> n = ai_source_node_id ai \<and> m f n = None then Some ai else m f n)"

definition take_announce :: "AnnounceInfo \<Rightarrow> ann_table \<Rightarrow> ann_table" where
  "take_announce ai m = (\<lambda>f n. if f = ai_fullname_hash ai \<and> n = ai_source_node_id ai then None else m f n)"

inductive ann_reach :: "hash_api \<Rightarrow> InfoBase \<Rightarrow> ann_table \<Rightarrow> bool" for ha where
  ann_init: "ann_reach ha InfoBase_init (\<lambda>_ _. None)"
| ann_add: "ann_reach ha ib m \<Longrightarrow> ann_reach ha (fst (AddAnnounce ha ai ib)) (put_announce ai m)"
| ann_remove: "ann_reach ha ib m \<Longrightarrow> (\<And>nid b. m (ai_fullname_hash ai) nid = Some b \<Longrightarrow> nid = ai_source_node_id ai \<and> ai_name_space b = ai_name_space ai)
    \<Longrightarrow> ann_reach ha (fst (RemoveAnnounce ha ai ib)) (take_announce ai m)"
| ann_other: "ann_reach ha ib m \<Longrightarrow> ib_announces ib' = ib_announces ib \<Longrightarrow> ib_prefix_lookup_announces ib' = ib_prefix_lookup_announces ib
    \<Longrightarrow> ann_reach ha ib' m"

lemma index_wf_init: "index_wf ha InfoBase_init"
  by (simp add: index_wf_def announced_def InfoBase_init_def mat_def)

lemma ann_reach_implements: "ann_reach ha ib m \<Longrightarrow> index_wf ha ib \<and> announced ib = m"
proof (induction rule: ann_reach.induct)
  case ann_init
  then show ?case using index_wf_init by (simp add: fun_eq_iff announced_def InfoBase_init_def mat_def)
next
  case (ann_add ib m ai)
  then show ?case using AddAnnounce_index [of ha ib ai] by (auto simp: put_announce_def fun_eq_iff)
next
  case (ann_remove ib m ai)
  then show ?case using RemoveAnnounce_index [of ha ib ai] by (auto simp: take_announce_def fun_eq_iff RemoveAnnounce_announced)
next
  case (ann_other ib m ib')
  then show ?case by (simp add: index_wf_def announced_def fun_eq_iff)
qed

text \<open>C19. Looking up announces.  Let nodes announce tracks, and withdraw tracks that no other node announces, in any order.
  \<open>GetAnnounceIds\<close> then returns the nodes that have announced the very track; if there is none and a prefix search is allowed,
  the nodes of every announced track that has an announce in a namespace with the searched prefix (by hash).  The withdrawal of one of
  two origins of a track is left out: it breaks the prefix search for the other (\<open>withdraw_hides_other_origin\<close>).\<close>

theorem announce_lookup_refines:
  fixes m :: ann_table and name :: bytes
  assumes "ann_reach ha ib m" and "PrefixHashNamespaceTuples ha ns \<noteq> []"
  defines "exact_ids \<equiv> {nid. m (th_fullname (h_track ha ns name)) nid \<noteq> None}"
    and "prefix_ids \<equiv> {nid. \<exists>fh origin ai. m fh nid \<noteq> None \<and> m fh origin = Some ai
      \<and> last (PrefixHashNamespaceTuples ha ns) \<in> set (PrefixHashNamespaceTuples ha (ai_name_space ai))}"
  shows "\<exists>ids. GetAnnounceIds ha ns name exact ib = Inr ids \<and> set ids = (if exact \<or> exact_ids \<noteq> {} then exact_ids else prefix_ids)"
proof -
  have ib: "index_wf ha ib" "m = announced ib" using ann_reach_implements [OF assms(1)] by auto
  show ?thesis unfolding exact_ids_def prefix_ids_def ib(2)
    using GetAnnounceIds_spec [OF ib(1) assms(2), of name exact, unfolded exact_match_def prefix_match_def] .
qed

text \<open>Hashes of entries one by one, combined injectively enough for examples.\<close>

definition plain_hash :: hash_api where
  "plain_hash = \<lparr>h_entries = map (\<lambda>e. word_of_nat (le_val e)), h_combine = (\<lambda>h e. 256 * h + e + 1),
     h_track = (\<lambda>ns name. \<lparr>th_namespace = word_of_nat (le_val (concat ns)), th_name = word_of_nat (le_val name),
                           th_fullname = word_of_nat (le_val (concat ns @ name))\<rparr>)\<rparr>"

text \<open>Node 5 announces a track in the namespace (1, 2) and node 6 one in (1, 3); then node 7 announces another track in (1, 2) and withdraws it.\<close>

definition track_in :: "u64 \<Rightarrow> bytes list \<Rightarrow> bytes \<Rightarrow> AnnounceInfo" where
  "track_in nid ns name = (AnnounceInfo_make nid ns name True)\<lparr>ai_fullname_hash := th_fullname (h_track plain_hash ns name)\<rparr>"

definition three_tracks :: InfoBase where
  "three_tracks = fst (RemoveAnnounce plain_hash (track_in 7 [[1], [2]] [8]) (fst (AddAnnounce plain_hash (track_in 7 [[1], [2]] [8])
     (fst (AddAnnounce plain_hash (track_in 6 [[1], [3]] [9]) (fst (AddAnnounce plain_hash (track_in 5 [[1], [2]] [9]) InfoBase_init)))))))"

definition three_announces :: ann_table where
  "three_announces = take_announce (track_in 7 [[1], [2]] [8]) (put_announce (track_in 7 [[1], [2]] [8]) (put_announce (track_in 6 [[1], [3]] [9])
     (put_announce (track_in 5 [[1], [2]] [9]) (\<lambda>_ _. None))))"

lemma track_in_fields:
  "ai_source_node_id (track_in nid ns name) = nid" "ai_name_space (track_in nid ns name) = ns"
  "ai_fullname_hash (track_in nid ns name) = word_of_nat (le_val (concat ns @ name))"
  by (simp_all add: track_in_def AnnounceInfo_make_def plain_hash_def)

lemma three_tracks: "ann_reach plain_hash three_tracks three_announces"
  unfolding three_tracks_def three_announces_def
  by (intro ann_remove ann_add ann_init) (auto simp: put_announce_def track_in_fields split: if_splits)

lemma three_announces: "three_announces f n =
    (if f = 590337 \<and> n = 5 then Some (track_in 5 [[1], [2]] [9]) else if f = 590593 \<and> n = 6 then Some (track_in 6 [[1], [3]] [9]) else None)"
  by (auto simp: three_announces_def put_announce_def take_announce_def track_in_fields)

theorem announce_lookup_refines_witness:
  "(\<exists>ids. GetAnnounceIds plain_hash [[1], [2]] [9] False three_tracks = Inr ids \<and> set ids = {5})
    \<and> (\<exists>ids. GetAnnounceIds plain_hash [[1]] [] False three_tracks = Inr ids \<and> set ids = {5, 6})"
proof -
  have h: "PrefixHashNamespaceTuples plain_hash [[1], [2]] = [2, 515]" "PrefixHashNamespaceTuples plain_hash [[1], [3]] = [2, 516]"
      "PrefixHashNamespaceTuples plain_hash [[1]] = [2]"
    by (simp_all add: PrefixHashNamespaceTuples_def plain_hash_def)
  have t: "th_fullname (h_track plain_hash [[1], [2]] [9]) = 590337" "th_fullname (h_track plain_hash [[1]] []) = 1"
    by (simp_all add: plain_hash_def)
  show ?thesis
    using announce_lookup_refines [OF three_tracks, of "[[1], [2]]" "[9]" False] announce_lookup_refines [OF three_tracks, of "[[1]]" "[]" False]
    by (auto simp: h t three_announces track_in_fields split: if_splits)
qed

text \<open>A withdrawn announce hides the other origins of the track.  When two nodes announce the same
  track and one withdraws, the announce of the other is still in the table, but it is gone from the
  prefix index: a search for the prefix finds nothing.\<close>

definition two_origins :: InfoBase where
  "two_origins = fst (AddAnnounce plain_hash ((AnnounceInfo_make 6 [[1], [2]] [9] True)\<lparr>ai_fullname_hash := 77\<rparr>)
     (fst (AddAnnounce plain_hash ((AnnounceInfo_make 5 [[1], [2]] [9] True)\<lparr>ai_fullname_hash := 77\<rparr>) InfoBase_init)))"

theorem withdraw_hides_other_origin:
  defines "ib \<equiv> fst (RemoveAnnounce plain_hash ((AnnounceInfo_make 5 [[1], [2]] [9] True)\<lparr>ai_fullname_hash := 77\<rparr>) two_origins)"
  shows "announced ib 77 6 \<noteq> None
    \<and> GetAnnounceIds plain_hash [[1]] [] False two_origins = Inr [5, 6]
    \<and> GetAnnounceIds plain_hash [[1]] [] False ib = Inr []"
  unfolding ib_def two_origins_def by code_simp

end
