(* ===== verification/Peer_Session.thy ===== *)
theory Peer_Session
  imports Info_Base
begin

text \<open>
  One peering session, \<open>src/src/peering/peer_session.{h,cc}\<close>: its connection state, the subscribe
  node sets (SNS) it advertises to the remote relay, and what it puts on the transport.

  The QUIC transport is libquicr's.  Every call the session makes on it is an entry of a
  chronological log; calls that return an identifier (a connection, a data context, a stream) take it
  from the record \<open>transport_api\<close>, as a function of the log so far.  The calls of the peering
  manager into the client manager are entries of the same log.
  The session always has a transport: \<open>Connect\<close> makes one for an outbound session, and the manager
  sets one right after it creates an inbound one.
\<close>

section \<open>What leaves the component\<close>

datatype event =
    E_Start u64
  | E_Create_Data_Context u64 u8 bool u64       \<comment> \<open>connection, priority, bidirectional, result\<close>
  | E_Delete_Data_Context u64 u64
  | E_Create_Stream u64 u64 u8 u64              \<comment> \<open>connection, context, priority, result\<close>
  | E_Close_Stream u64 u64 u64 bool             \<comment> \<open>connection, context, stream, reset\<close>
  | E_Enqueue u64 u64 u64 bytes u8 u32 "bool option"
      \<comment> \<open>connection, context, stream, data, priority, ttl, \<open>use_reliable\<close> if given\<close>
  | CM_Process_Subscribe TrackHash "bytes list" bytes "u64 option"
  | CM_Peer_Data_Received u64 bool "u64 option" bytes
  | CM_Peer_Stream_Closed u64 u64 bool
  | CM_Peer_Unsubscribe_Track u64
  | CM_Remove_Or_Pause_Publisher_Subscribe u64
  | CM_Publish_Namespace_Received "bytes list" u64
  | CM_Publish_Namespace_Done_Received u64
  | CM_Publish_Received "bytes list" bytes u64
  | CM_Publish_Done_Received

record transport_api =
  t_start :: "event list \<Rightarrow> u64"
  t_data_context :: "event list \<Rightarrow> u64"
  t_stream :: "event list \<Rightarrow> u64"

section \<open>State\<close>

datatype session_status = S_Connecting | S_Connected | S_Disconnected

datatype transport_status = T_Ready | T_Connecting | T_RemoteRequestClose | T_Disconnected | T_IdleTimeout
  | T_Shutdown | T_ShuttingDown

record PeerSession =
  ps_is_inbound :: bool
  ps_status :: session_status
  ps_node_info :: NodeInfo
  ps_remote_node_info :: NodeInfo
  ps_srtt_us :: u64
  ps_sub_sns :: "(u64, SubscribeNodeSet) omap"
  ps_peer_sns :: "(u64 \<times> u32, SubscribeNodeSet) omap"
  ps_t_conn_id :: u64
  ps_control_data_ctx_id :: u64
  ps_control_stream_id :: u64
  ps_control_msg_buffer :: bytes

definition PeerSession_make :: "bool \<Rightarrow> u64 \<Rightarrow> NodeInfo \<Rightarrow> PeerSession" where
  "PeerSession_make is_inbound conn_id node_info =
     \<lparr>ps_is_inbound = is_inbound, ps_status = S_Connecting, ps_node_info = node_info,
      ps_remote_node_info = NodeInfo_default, ps_srtt_us = 0, ps_sub_sns = [], ps_peer_sns = [],
      ps_t_conn_id = conn_id, ps_control_data_ctx_id = 0, ps_control_stream_id = 0, ps_control_msg_buffer = []\<rparr>"

type_synonym sess_st = "PeerSession \<times> event list"

definition sess_emit :: "event \<Rightarrow> sess_st \<Rightarrow> sess_st" where
  "sess_emit e st = (fst st, snd st @ [e])"

section \<open>Sending\<close>

text \<open>\<open>Enqueue\<close> on the control stream.\<close>

definition send_control :: "bytes \<Rightarrow> sess_st \<Rightarrow> sess_st" where
  "send_control data st = sess_emit (E_Enqueue (ps_t_conn_id (fst st)) (ps_control_data_ctx_id (fst st))
     (ps_control_stream_id (fst st)) data 0 1000 None) st"

definition SendSns :: "SubscribeNodeSet \<Rightarrow> bool \<Rightarrow> sess_st \<Rightarrow> sess_st" where
  "SendSns sns withdraw st =
     (if ps_status (fst st) \<noteq> S_Connected then st
      else send_control (SubscribeNodeSet_Serialize sns True withdraw) st)"

definition SendAnnounceInfo :: "AnnounceInfo \<Rightarrow> bool \<Rightarrow> sess_st \<Rightarrow> sess_st" where
  "SendAnnounceInfo ai withdraw st =
     (if ps_status (fst st) \<noteq> S_Connected then st
      else send_control (AnnounceInfo_Serialize ai True withdraw) st)"

text \<open>Sending a subscribe info changes the caller's object when this relay is its origin.\<close>

definition SendSubscribeInfo :: "SubscribeInfo \<Rightarrow> bool \<Rightarrow> sess_st \<Rightarrow> sess_st \<times> SubscribeInfo" where
  "SendSubscribeInfo si withdraw st =
     (if ps_status (fst st) \<noteq> S_Connected then (st, si)
      else case SubscribeInfo_Serialize si True withdraw (ni_id (ps_node_info (fst st)) = si_source_node_id si) of
        (si', data) \<Rightarrow> (send_control data st, si'))"

definition SendNodeInfo :: "uintvar_api \<Rightarrow> NodeInfo \<Rightarrow> bool \<Rightarrow> sess_st \<Rightarrow> sess_st" where
  "SendNodeInfo uv ni withdraw st =
     (if ps_status (fst st) \<noteq> S_Connected then st
      else send_control (NodeInfo_Serialize uv ni True withdraw) st)"

definition SendConnect :: "uintvar_api \<Rightarrow> sess_st \<Rightarrow> sess_st" where
  "SendConnect uv st = (case st of (s, log) \<Rightarrow>
     send_control (Connect_Serialize uv \<lparr>cn_mode = kBoth, cn_node_info = ps_node_info s\<rparr>)
       (s\<lparr>ps_peer_sns := []\<rparr>, log))"

definition SendConnectOk :: "uintvar_api \<Rightarrow> sess_st \<Rightarrow> sess_st \<times> unit res" where
  "SendConnectOk uv st =
     (case ConnectResponse_Serialize uv \<lparr>cr_error = kNoError, cr_node_info = Some (ps_node_info (fst st))\<rparr> of
        Inl e \<Rightarrow> (st, Inl e)
      | Inr data \<Rightarrow> (send_control data st, Inr ()))"

definition SendData :: "u8 \<Rightarrow> u32 \<Rightarrow> u32 \<Rightarrow> u64 \<Rightarrow> bool \<Rightarrow> bytes \<Rightarrow> sess_st \<Rightarrow> sess_st" where
  "SendData priority ttl sid stream_id use_reliable data st =
     (if ps_status (fst st) \<noteq> S_Connected then st
      else sess_emit (E_Enqueue (ps_t_conn_id (fst st)) (ucast sid) stream_id data priority ttl (Some use_reliable)) st)"

definition PS_CreateStream :: "transport_api \<Rightarrow> u32 \<Rightarrow> u8 \<Rightarrow> sess_st \<Rightarrow> sess_st \<times> u64" where
  "PS_CreateStream ta sid priority st =
     (let n = t_stream ta (snd st) in (sess_emit (E_Create_Stream (ps_t_conn_id (fst st)) (ucast sid) priority n) st, n))"

definition PS_CloseStream :: "u32 \<Rightarrow> u64 \<Rightarrow> bool \<Rightarrow> sess_st \<Rightarrow> sess_st" where
  "PS_CloseStream sid stream_id is_reset st = sess_emit (E_Close_Stream (ps_t_conn_id (fst st)) (ucast sid) stream_id is_reset) st"

section \<open>Connecting\<close>

text \<open>\<open>transport_->CreateDataContext(t_conn_id_, true, priority, bidir)\<close>\<close>

definition create_data_context :: "transport_api \<Rightarrow> u8 \<Rightarrow> bool \<Rightarrow> sess_st \<Rightarrow> sess_st \<times> u64" where
  "create_data_context ta priority bidir st =
     (let n = t_data_context ta (snd st) in (sess_emit (E_Create_Data_Context (ps_t_conn_id (fst st)) priority bidir n) st, n))"

definition PS_Connect :: "transport_api \<Rightarrow> sess_st \<Rightarrow> sess_st" where
  "PS_Connect ta st =
     (case st of (s, log) \<Rightarrow>
       let s = s\<lparr>ps_status := S_Connecting, ps_remote_node_info := NodeInfo_default\<rparr> in
       if ps_is_inbound s then (s\<lparr>ps_status := S_Connected\<rparr>, log)
       else let conn = t_start ta log;
                (st1, ctx) = create_data_context ta 0 True (s\<lparr>ps_peer_sns := [], ps_t_conn_id := conn\<rparr>, log @ [E_Start conn]);
                st2 = (fst st1\<lparr>ps_control_data_ctx_id := ctx\<rparr>, snd st1);
                n = t_stream ta (snd st2);
                st3 = sess_emit (E_Create_Stream conn ctx 0 n) st2
            in (fst st3\<lparr>ps_control_stream_id := n\<rparr>, snd st3))"

section \<open>Subscribe node sets\<close>

definition SNS_empty :: SubscribeNodeSet where
  "SNS_empty = \<lparr>sns_id = 0, sns_priority = 2, sns_nodes = []\<rparr>"

text \<open>
  The body both \<open>Add...SourceNode\<close> functions share: give the set a data context if it has none, add the
  node, and advertise the set when the node is new.  The data context identifier is cut to the 32 bits
  of a node set identifier.
\<close>

definition sns_add :: "transport_api \<Rightarrow> u64 \<Rightarrow> u8 \<Rightarrow> SubscribeNodeSet \<Rightarrow> sess_st \<Rightarrow> sess_st \<times> SubscribeNodeSet \<times> bool" where
  "sns_add ta node priority sns st =
     (let (st, sns) = (if sns_id sns = 0
                       then case create_data_context ta priority False st of (st, n) \<Rightarrow> (st, sns\<lparr>sns_id := ucast n\<rparr>)
                       else (st, sns));
          is_new = (node \<notin> set (sns_nodes sns));
          sns = sns\<lparr>sns_nodes := insort_insert node (sns_nodes sns)\<rparr>
      in (if is_new then SendSns sns False st else st, sns, is_new))"

definition AddPeerSnsSourceNode :: "transport_api \<Rightarrow> u64 \<Rightarrow> u32 \<Rightarrow> u64 \<Rightarrow> u8 \<Rightarrow> sess_st \<Rightarrow> sess_st \<times> u32 \<times> bool" where
  "AddPeerSnsSourceNode ta in_sess in_sns_id node priority st =
     (case sns_add ta node priority (mat SNS_empty (ps_peer_sns (fst st)) (in_sess, in_sns_id)) st of
        (st, sns, is_new) \<Rightarrow>
          ((fst st\<lparr>ps_peer_sns := mput (in_sess, in_sns_id) sns (ps_peer_sns (fst st))\<rparr>, snd st), sns_id sns, is_new))"

definition AddSubscribeSourceNode :: "transport_api \<Rightarrow> u64 \<Rightarrow> u64 \<Rightarrow> u8 \<Rightarrow> sess_st \<Rightarrow> sess_st \<times> u32 \<times> bool" where
  "AddSubscribeSourceNode ta fh node priority st =
     (case sns_add ta node priority (mat SNS_empty (ps_sub_sns (fst st)) fh) st of
        (st, sns, is_new) \<Rightarrow>
          ((fst st\<lparr>ps_sub_sns := mput fh sns (ps_sub_sns (fst st))\<rparr>, snd st), sns_id sns, is_new))"

text \<open>Removing the last node deletes the data context and withdraws the set.\<close>

definition drop_sns :: "SubscribeNodeSet \<Rightarrow> sess_st \<Rightarrow> sess_st" where
  "drop_sns sns st = SendSns sns True (sess_emit (E_Delete_Data_Context (ps_t_conn_id (fst st)) (ucast (sns_id sns))) st)"

definition RemoveSubscribeSourceNode :: "u64 \<Rightarrow> u64 \<Rightarrow> sess_st \<Rightarrow> sess_st \<times> bool \<times> bool" where
  "RemoveSubscribeSourceNode fh node st =
     (case map_of (ps_sub_sns (fst st)) fh of
        None \<Rightarrow> (st, False, False)
      | Some sns \<Rightarrow>
          (let removed = (node \<in> set (sns_nodes sns));
               sns = sns\<lparr>sns_nodes := sdel node (sns_nodes sns)\<rparr>
           in if sns_nodes sns = []
              then (case drop_sns sns st of (s, log) \<Rightarrow> ((s\<lparr>ps_sub_sns := mdel fh (ps_sub_sns s)\<rparr>, log), removed, True))
              else ((fst st\<lparr>ps_sub_sns := mput fh sns (ps_sub_sns (fst st))\<rparr>, snd st), removed, False)))"

text \<open>Node 0 stands for all nodes of the set.\<close>

definition RemovePeerSnsSourceNode :: "u64 \<Rightarrow> u32 \<Rightarrow> u64 \<Rightarrow> sess_st \<Rightarrow> sess_st \<times> bool \<times> bool" where
  "RemovePeerSnsSourceNode in_sess in_sns_id node st =
     (let k = (in_sess, in_sns_id) in
      case map_of (ps_peer_sns (fst st)) k of
        None \<Rightarrow> (st, False, False)
      | Some sns \<Rightarrow>
          if node = 0
          then (case SendSns sns True st of (s, log) \<Rightarrow> ((s\<lparr>ps_peer_sns := mdel k (ps_peer_sns s)\<rparr>, log), False, False))
          else (let removed = (node \<in> set (sns_nodes sns));
                    sns = sns\<lparr>sns_nodes := sdel node (sns_nodes sns)\<rparr>
                in if sns_nodes sns = []
                   then (case drop_sns sns st of (s, log) \<Rightarrow> ((s\<lparr>ps_peer_sns := mdel k (ps_peer_sns s)\<rparr>, log), removed, True))
                   else ((fst st\<lparr>ps_peer_sns := mput k sns (ps_peer_sns (fst st))\<rparr>, snd st), removed, False)))"

section \<open>Transport callbacks that only touch the session\<close>

definition PS_status_change :: "uintvar_api \<Rightarrow> transport_status \<Rightarrow> sess_st \<Rightarrow> sess_st" where
  "PS_status_change uv status st =
     (case status of
        T_Ready \<Rightarrow> SendConnect uv st
      | T_Connecting \<Rightarrow> st
      | _ \<Rightarrow> (fst st\<lparr>ps_status := S_Disconnected\<rparr>, snd st))"

definition OnConnectionMetricsSampled :: "u64 \<Rightarrow> PeerSession \<Rightarrow> PeerSession" where
  "OnConnectionMetricsSampled srtt s = s\<lparr>ps_srtt_us := srtt\<rparr>"

section \<open>The node set tables\<close>

text \<open>
  A session keeps two tables of node sets, one for subscribes and one for ingress sets of other peers.
  The interface both offer: adding a source node to the set under a key, and looking a set up.
\<close>

definition control_message :: "PeerSession \<Rightarrow> bytes \<Rightarrow> event" where
  "control_message s data = E_Enqueue (ps_t_conn_id s) (ps_control_data_ctx_id s) (ps_control_stream_id s) data 0 1000 None"

definition same_control :: "PeerSession \<Rightarrow> PeerSession \<Rightarrow> bool" where
  "same_control s s' \<longleftrightarrow> ps_status s' = ps_status s \<and> ps_t_conn_id s' = ps_t_conn_id s
     \<and> ps_control_data_ctx_id s' = ps_control_data_ctx_id s \<and> ps_control_stream_id s' = ps_control_stream_id s
     \<and> ps_node_info s' = ps_node_info s"

lemma same_control_refl [simp]: "same_control s s"
  by (simp add: same_control_def)

lemma same_control_trans: "same_control a b \<Longrightarrow> same_control b c \<Longrightarrow> same_control a c"
  by (simp add: same_control_def)

lemma control_message_same: "same_control s s' \<Longrightarrow> control_message s' d = control_message s d"
  by (simp add: same_control_def control_message_def)

lemma SendSns_eq: "SendSns sns w (s, log) = (s, if ps_status s = S_Connected
    then log @ [control_message s (SubscribeNodeSet_Serialize sns True w)] else log)"
  by (simp add: SendSns_def send_control_def sess_emit_def control_message_def)

definition with_context :: "transport_api \<Rightarrow> event list \<Rightarrow> SubscribeNodeSet \<Rightarrow> SubscribeNodeSet" where
  "with_context ta log sns = (if sns_id sns = 0 then sns\<lparr>sns_id := ucast (t_data_context ta log)\<rparr> else sns)"

definition context_events :: "transport_api \<Rightarrow> u8 \<Rightarrow> sess_st \<Rightarrow> SubscribeNodeSet \<Rightarrow> event list" where
  "context_events ta priority st sns = (if sns_id sns = 0
     then [E_Create_Data_Context (ps_t_conn_id (fst st)) priority False (t_data_context ta (snd st))] else [])"

definition with_node :: "u64 \<Rightarrow> SubscribeNodeSet \<Rightarrow> SubscribeNodeSet" where
  "with_node node sns = sns\<lparr>sns_nodes := insort_insert node (sns_nodes sns)\<rparr>"

lemma with_node_simps [simp]: "sns_id (with_node n sns) = sns_id sns"
  "set (sns_nodes (with_node n sns)) = insert n (set (sns_nodes sns))"
  "sns_nodes (with_context ta log sns) = sns_nodes sns"
  "sns_priority (with_node n (with_context ta log sns)) = sns_priority sns"
  by (simp_all add: with_node_def with_context_def set_insort_insert)

lemma sns_add_eq: "sns_add ta node priority sns (s, log) =
    (let sns' = with_node node (with_context ta log sns); is_new = (node \<notin> set (sns_nodes sns)) in
     ((s, log @ context_events ta priority (s, log) sns
         @ (if is_new \<and> ps_status s = S_Connected then [control_message s (SubscribeNodeSet_Serialize sns' True False)] else [])),
      sns', is_new))"
  by (simp add: sns_add_def create_data_context_def sess_emit_def SendSns_eq with_context_def with_node_def context_events_def Let_def)

definition sns_or_new :: "SubscribeNodeSet option \<Rightarrow> SubscribeNodeSet" where
  "sns_or_new x = (case x of None \<Rightarrow> SNS_empty | Some s \<Rightarrow> s)"

definition sns_nodes_at :: "SubscribeNodeSet option \<Rightarrow> u64 set" where
  "sns_nodes_at x = set (sns_nodes (sns_or_new x))"

lemma sns_or_new_nodes: "set (sns_nodes (sns_or_new x)) = (case x of None \<Rightarrow> {} | Some s \<Rightarrow> set (sns_nodes s))"
  by (simp add: sns_or_new_def SNS_empty_def split: option.split)

locale source_nodes =
  fixes add :: "transport_api \<Rightarrow> 'k \<Rightarrow> u64 \<Rightarrow> u8 \<Rightarrow> sess_st \<Rightarrow> sess_st \<times> u32 \<times> bool"
    and look :: "PeerSession \<Rightarrow> 'k \<Rightarrow> SubscribeNodeSet option"
  assumes add_log: "snd (fst (add ta k node priority st)) = snd (fst (sns_add ta node priority (sns_or_new (look (fst st) k)) st))"
    and add_result: "snd (add ta k node priority st) =
      (case snd (sns_add ta node priority (sns_or_new (look (fst st) k)) st) of (sns, is_new) \<Rightarrow> (sns_id sns, is_new))"
    and look_add: "look (fst (fst (add ta k node priority st))) k' = (if k' = k
      then Some (fst (snd (sns_add ta node priority (sns_or_new (look (fst st) k)) st))) else look (fst st) k')"
    and add_control: "same_control (fst st) (fst (fst (add ta k node priority st)))"
begin

lemma add_nodes: "sns_nodes_at (look (fst (fst (add ta k node priority st))) k') =
    (if k' = k then insert node (sns_nodes_at (look (fst st) k)) else sns_nodes_at (look (fst st) k'))"
  by (cases st) (simp add: sns_nodes_at_def look_add sns_add_eq Let_def sns_or_new_nodes)

lemma add_is_new: "snd (snd (add ta k node priority st)) \<longleftrightarrow> node \<notin> sns_nodes_at (look (fst st) k)"
  by (cases st) (simp add: sns_nodes_at_def add_result sns_add_eq Let_def)

text \<open>A new node is advertised with the whole set; a known one in a set with a context sends nothing.\<close>

lemma add_advertises:
  assumes "ps_status (fst st) = S_Connected" and "node \<notin> sns_nodes_at (look (fst st) k)"
  shows "\<exists>sns ctx. look (fst (fst (add ta k node priority st))) k = Some sns
    \<and> set (sns_nodes sns) = insert node (sns_nodes_at (look (fst st) k))
    \<and> snd (fst (add ta k node priority st)) =
        snd st @ ctx @ [control_message (fst st) (SubscribeNodeSet_Serialize sns True False)]
    \<and> fst (snd (add ta k node priority st)) = sns_id sns"
proof -
  obtain s log where st: "st = (s, log)" by (cases st)
  let ?old = "sns_or_new (look s k)"
  show ?thesis
    using assms
    by (intro exI [of _ "with_node node (with_context ta log ?old)"] exI [of _ "context_events ta priority st ?old"])
      (simp add: st add_log add_result look_add sns_add_eq Let_def sns_nodes_at_def)
qed

lemma add_again_silent:
  assumes "look (fst st) k = Some sns" and "sns_id sns \<noteq> 0" and "node \<in> set (sns_nodes sns)"
  shows "snd (fst (add ta k node priority st)) = snd st \<and> snd (add ta k node priority st) = (sns_id sns, False)"
  using assms by (cases st) (simp add: add_log add_result sns_add_eq Let_def context_events_def with_context_def sns_or_new_def)

lemma add_ssorted:
  assumes "\<And>sns. look (fst st) k = Some sns \<Longrightarrow> ssorted (sns_nodes sns)"
  shows "look (fst (fst (add ta k node priority st))) k = Some sns \<Longrightarrow> ssorted (sns_nodes sns)"
  using assms by (cases st)
    (auto simp: look_add sns_add_eq Let_def with_node_def with_context_def sns_or_new_def SNS_empty_def split: option.splits)

end

lemma mat_SNS: "mat SNS_empty m k = sns_or_new (map_of m k)"
  by (simp add: mat_def sns_or_new_def)

interpretation sub: source_nodes AddSubscribeSourceNode "\<lambda>s. map_of (ps_sub_sns s)"
proof
  fix ta k node priority k' and st :: sess_st
  obtain s log where st: "st = (s, log)" by (cases st)
  note d = AddSubscribeSourceNode_def sns_add_eq Let_def st mat_SNS
  show "snd (fst (AddSubscribeSourceNode ta k node priority st)) =
      snd (fst (sns_add ta node priority (sns_or_new (map_of (ps_sub_sns (fst st)) k)) st))" by (simp add: d)
  show "snd (AddSubscribeSourceNode ta k node priority st) =
      (case snd (sns_add ta node priority (sns_or_new (map_of (ps_sub_sns (fst st)) k)) st) of (sns, is_new) \<Rightarrow> (sns_id sns, is_new))"
    by (simp add: d)
  show "map_of (ps_sub_sns (fst (fst (AddSubscribeSourceNode ta k node priority st)))) k' = (if k' = k
      then Some (fst (snd (sns_add ta node priority (sns_or_new (map_of (ps_sub_sns (fst st)) k)) st)))
      else map_of (ps_sub_sns (fst st)) k')" by (simp add: d)
  show "same_control (fst st) (fst (fst (AddSubscribeSourceNode ta k node priority st)))" by (simp add: d same_control_def)
qed

interpretation pse: source_nodes "\<lambda>ta k. AddPeerSnsSourceNode ta (fst k) (snd k)" "\<lambda>s. map_of (ps_peer_sns s)"
proof
  fix ta k node priority k' and st :: sess_st
  obtain s log where st: "st = (s, log)" by (cases st)
  note d = AddPeerSnsSourceNode_def sns_add_eq Let_def st mat_SNS
  show "snd (fst (AddPeerSnsSourceNode ta (fst k) (snd k) node priority st)) =
      snd (fst (sns_add ta node priority (sns_or_new (map_of (ps_peer_sns (fst st)) k)) st))" by (simp add: d)
  show "snd (AddPeerSnsSourceNode ta (fst k) (snd k) node priority st) =
      (case snd (sns_add ta node priority (sns_or_new (map_of (ps_peer_sns (fst st)) k)) st) of (sns, is_new) \<Rightarrow> (sns_id sns, is_new))"
    by (simp add: d)
  show "map_of (ps_peer_sns (fst (fst (AddPeerSnsSourceNode ta (fst k) (snd k) node priority st)))) k' = (if k' = k
      then Some (fst (snd (sns_add ta node priority (sns_or_new (map_of (ps_peer_sns (fst st)) k)) st)))
      else map_of (ps_peer_sns (fst st)) k')" by (simp add: d)
  show "same_control (fst st) (fst (fst (AddPeerSnsSourceNode ta (fst k) (snd k) node priority st)))" by (simp add: d same_control_def)
qed

text \<open>Advertising node sets.  Adding a new source node to the subscribe set of a track on a connected
  session sends one control message at the end of the log; what the remote relay reads from it is the
  stored set, that is, the old nodes and the new one, under the identifier the caller gets.\<close>

theorem source_node_advertised:
  assumes "ps_status (fst st) = S_Connected"
    and "node \<notin> sns_nodes_at (map_of (ps_sub_sns (fst st)) fh)"
    and "\<And>sns. map_of (ps_sub_sns (fst st)) fh = Some sns \<Longrightarrow> ssorted (sns_nodes sns)"
    and "card (sns_nodes_at (map_of (ps_sub_sns (fst st)) fh)) < 2 ^ 16 - 1"
  shows "\<exists>sns ctx data. map_of (ps_sub_sns (fst (fst (AddSubscribeSourceNode ta fh node priority st)))) fh = Some sns
    \<and> snd (AddSubscribeSourceNode ta fh node priority st) = (sns_id sns, True)
    \<and> set (sns_nodes sns) = insert node (sns_nodes_at (map_of (ps_sub_sns (fst st)) fh))
    \<and> snd (fst (AddSubscribeSourceNode ta fh node priority st)) = snd st @ ctx @ [control_message (fst st) data]
    \<and> SubscribeNodeSet_read (drop 7 data) False = Inr sns"
proof -
  obtain sns ctx where r: "map_of (ps_sub_sns (fst (fst (AddSubscribeSourceNode ta fh node priority st)))) fh = Some sns"
    "set (sns_nodes sns) = insert node (sns_nodes_at (map_of (ps_sub_sns (fst st)) fh))"
    "snd (fst (AddSubscribeSourceNode ta fh node priority st)) =
       snd st @ ctx @ [control_message (fst st) (SubscribeNodeSet_Serialize sns True False)]"
    "fst (snd (AddSubscribeSourceNode ta fh node priority st)) = sns_id sns"
    using sub.add_advertises [OF assms(1,2), of ta priority] by blast
  have so: "ssorted (sns_nodes sns)" by (rule sub.add_ssorted [OF assms(3) r(1)])
  then have "length (sns_nodes sns) = card (insert node (sns_nodes_at (map_of (ps_sub_sns (fst st)) fh)))"
    using r(2) by (metis ssorted_def strict_sorted_iff distinct_card)
  also have "\<dots> < 2 ^ 16"
    using assms(2,4) by (simp add: sns_nodes_at_def)
  finally have "SubscribeNodeSet_fits sns" using so by (simp add: SubscribeNodeSet_fits_def)
  then have "SubscribeNodeSet_read (SubscribeNodeSet_write sns) False = Inr sns" by (rule sns.dec_enc)
  then have "SubscribeNodeSet_read (drop 7 (SubscribeNodeSet_Serialize sns True False)) False = Inr sns"
    by (simp add: SubscribeNodeSet_Serialize_def kCommonHeadersSize_def)
  moreover have "snd (snd (AddSubscribeSourceNode ta fh node priority st))" using assms(2) sub.add_is_new by blast
  ultimately show ?thesis using r by (metis prod.collapse)
qed

definition sample_transport :: transport_api where
  "sample_transport = \<lparr>t_start = (\<lambda>log. 100 + word_of_nat (length log)), t_data_context = (\<lambda>log. 1 + word_of_nat (length log)),
     t_stream = (\<lambda>log. 4 * word_of_nat (length log))\<rparr>"

definition sample_session :: PeerSession where
  "sample_session = (PeerSession_make True 10 sample_node)\<lparr>ps_status := S_Connected\<rparr>"

theorem source_node_advertised_witness:
  "\<exists>sns. map_of (ps_sub_sns (fst (fst (AddSubscribeSourceNode sample_transport 7 3 1 (sample_session, []))))) 7 = Some sns
     \<and> set (sns_nodes sns) = {3}"
  using source_node_advertised [of "(sample_session, [])" 3 7 sample_transport 1]
  by (auto simp: sample_session_def PeerSession_make_def sns_nodes_at_def sns_or_new_def SNS_empty_def)

text \<open>A reconnect loses the advertised sets.  An outbound session that reconnects gets a new connection
  but keeps its table of subscribe sets; a node that was in a set (with a data context) before is not new
  afterwards, so nothing is sent on the new connection and the identifier returned is a data context of
  the old one.\<close>

theorem reconnect_does_not_advertise:
  fixes ta :: transport_api and log :: "event list"
  assumes "\<not> ps_is_inbound s" and "map_of (ps_sub_sns s) fh = Some sns" and "sns_id sns \<noteq> 0" and "node \<in> set (sns_nodes sns)"
  defines "st \<equiv> PS_Connect ta (s, log)"
  shows "ps_t_conn_id (fst st) = t_start ta log
    \<and> snd (fst (AddSubscribeSourceNode ta fh node priority (fst st\<lparr>ps_status := S_Connected\<rparr>, snd st))) = snd st
    \<and> snd (AddSubscribeSourceNode ta fh node priority (fst st\<lparr>ps_status := S_Connected\<rparr>, snd st)) = (sns_id sns, False)"
proof -
  have keep: "ps_sub_sns (fst st) = ps_sub_sns s" "ps_t_conn_id (fst st) = t_start ta log"
    using assms(1) by (simp_all add: st_def PS_Connect_def Let_def create_data_context_def sess_emit_def)
  then show ?thesis
    using sub.add_again_silent [of "(fst st\<lparr>ps_status := S_Connected\<rparr>, snd st)" fh sns node ta priority] assms(2-4) by simp
qed

theorem reconnect_does_not_advertise_witness:
  defines "s \<equiv> (PeerSession_make False 10 sample_node)\<lparr>ps_sub_sns := [(7, \<lparr>sns_id = 5, sns_priority = 2, sns_nodes = [3]\<rparr>)]\<rparr>"
  shows "snd (AddSubscribeSourceNode sample_transport 7 3 1
      (fst (PS_Connect sample_transport (s, []))\<lparr>ps_status := S_Connected\<rparr>, snd (PS_Connect sample_transport (s, [])))) = (5, False)"
  using reconnect_does_not_advertise [of s 7 "\<lparr>sns_id = 5, sns_priority = 2, sns_nodes = [3]\<rparr>" 3 sample_transport "[]" 1]
  by (simp add: s_def PeerSession_make_def)

text \<open>Removing a node that is not the last one sends nothing: the remote relay keeps the larger set.\<close>

lemma shrunk_set_not_advertised:
  assumes "map_of (ps_sub_sns (fst st)) fh = Some sns" and "sdel node (sns_nodes sns) \<noteq> []"
  shows "snd (fst (RemoveSubscribeSourceNode fh node st)) = snd st"
    and "sns_nodes_at (map_of (ps_sub_sns (fst (fst (RemoveSubscribeSourceNode fh node st)))) fh) = sns_nodes_at (map_of (ps_sub_sns (fst st)) fh) - {node}"
  using assms by (simp_all add: RemoveSubscribeSourceNode_def Let_def sns_nodes_at_def sns_or_new_def)

lemma last_node_withdraws:
  assumes "map_of (ps_sub_sns (fst st)) fh = Some sns" and "sdel node (sns_nodes sns) = []" and "ps_status (fst st) = S_Connected"
  shows "map_of (ps_sub_sns (fst (fst (RemoveSubscribeSourceNode fh node st)))) fh = None"
    and "snd (fst (RemoveSubscribeSourceNode fh node st)) = snd st @ [E_Delete_Data_Context (ps_t_conn_id (fst st)) (ucast (sns_id sns)),
      control_message (fst st) (SubscribeNodeSet_Serialize (sns\<lparr>sns_nodes := []\<rparr>) True True)]"
    and "snd (snd (RemoveSubscribeSourceNode fh node st))"
  using assms by (simp_all add: RemoveSubscribeSourceNode_def Let_def drop_sns_def sess_emit_def SendSns_eq case_prod_unfold)

end
