(* ===== verification/Peer_Manager.thy ===== *)
theory Peer_Manager
  imports Peer_Session
begin

text \<open>
  The peering manager, \<open>src/src/peering/peer_manager.{h,cc}\<close>: how node infos, announces and
  subscribes of the network are received, stored and passed on, and what the clients of this relay
  start.  Forwarding of object data is in \<open>Peer_Forward\<close>, connections and dispatch of received
  bytes in \<open>Peer_Dispatch\<close>.

  The session objects live in a store indexed by reference; the two session maps own them (they hold
  the only \<open>shared_ptr\<close>s that outlive a call), every other table refers to them weakly.  A handler
  takes the manager and returns the manager it leaves with its result; what it sends and the calls
  it makes into the client manager are entries of the log.  Calls into libquicr come from the record
  \<open>quicr_api\<close>; \<open>rand()\<close> is the argument \<open>update_ref\<close>.
\<close>

section \<open>libquicr\<close>

datatype param_type = kSubscriberPriority | kNewGroupRequest | kOtherParameter u64

type_synonym params = "(param_type \<times> bytes) list"

text \<open>The fields of a stored MoQ subscribe message and the operations on its parameters.\<close>

record msg_api =
  m_parse :: "bytes \<Rightarrow> (u64 \<times> bytes list \<times> bytes \<times> params) res"   \<comment> \<open>the four \<open>ParseField\<close>s, in order\<close>
  m_build :: "u64 \<Rightarrow> bytes list \<Rightarrow> bytes \<Rightarrow> params \<Rightarrow> bytes"         \<comment> \<open>\<open>Message().Append(...)...\<close>\<close>
  m_get_u8 :: "param_type \<Rightarrow> params \<Rightarrow> u8 res"                     \<comment> \<open>\<open>Parameters::Get<uint8_t>\<close>\<close>
  m_get_optional :: "param_type \<Rightarrow> params \<Rightarrow> u64 option"             \<comment> \<open>\<open>Parameters::GetOptional<uint64_t>\<close>\<close>
  m_add_optional :: "param_type \<Rightarrow> u64 option \<Rightarrow> params \<Rightarrow> params"   \<comment> \<open>\<open>Parameters::AddOptional\<close>\<close>
  m_add :: "param_type \<Rightarrow> u64 option \<Rightarrow> params \<Rightarrow> params"            \<comment> \<open>\<open>Parameters::Add\<close>\<close>
  m_same_prefix :: "bytes list \<Rightarrow> bytes list \<Rightarrow> bool"                \<comment> \<open>\<open>TrackNamespace::HasSamePrefix\<close>\<close>

record quicr_api =
  q_transport :: transport_api
  q_uintvar :: uintvar_api
  q_hash :: hash_api
  q_msg :: msg_api
  q_namespace :: "bytes list \<Rightarrow> bytes list res"   \<comment> \<open>\<open>TrackNamespace(entries)\<close>, which refuses too many entries\<close>

section \<open>State\<close>

text \<open>The part of the relay's shared \<open>State\<close> the peering manager reads.\<close>

record State =
  st_pub_namespace_active :: "(bytes list \<times> u64, u64 list) omap"
  st_pub_subscribes :: "(u64 \<times> u64, nat) omap"

record PeerManager =
  pm_info_base :: InfoBase
  pm_sessions :: "(sref, PeerSession) omap"
  pm_next :: sref
  pm_server :: "(u64, sref) omap"
  pm_client :: "(u64, sref) omap"
  pm_node_info :: NodeInfo
  pm_client_manager :: bool     \<comment> \<open>\<open>client_manager_ != nullptr\<close>\<close>
  pm_stop :: bool
  pm_state :: State
  pm_log :: "event list"

type_synonym 'a pm_res = "PeerManager \<times> 'a res"

abbreviation pm_fail :: "cpp_error \<Rightarrow> PeerManager \<Rightarrow> 'a pm_res" where
  "pm_fail e pm \<equiv> (pm, Inl e)"

abbreviation pm_ok :: "PeerManager \<Rightarrow> unit pm_res" where
  "pm_ok pm \<equiv> (pm, Inr ())"

definition live_of :: "PeerManager \<Rightarrow> live" where
  "live_of pm r = map_option ps_t_conn_id (map_of (pm_sessions pm) r)"

text \<open>\<open>weak_ptr::lock\<close>\<close>

definition lock_sess :: "PeerManager \<Rightarrow> sref option \<Rightarrow> (sref \<times> PeerSession) option" where
  "lock_sess pm w = (case w of None \<Rightarrow> None | Some r \<Rightarrow> map_option (Pair r) (map_of (pm_sessions pm) r))"

text \<open>A method call on a session.\<close>

definition on_session :: "sref \<Rightarrow> (sess_st \<Rightarrow> sess_st \<times> 'a) \<Rightarrow> PeerManager \<Rightarrow> 'a pm_res" where
  "on_session r f pm = (case map_of (pm_sessions pm) r of
      None \<Rightarrow> pm_fail Null_Deref pm
    | Some s \<Rightarrow> (case f (s, pm_log pm) of ((s', log), x) \<Rightarrow>
        (pm\<lparr>pm_sessions := mput r s' (pm_sessions pm), pm_log := log\<rparr>, Inr x)))"

text \<open>The same for a method without a result.\<close>

definition session_do :: "sref \<Rightarrow> (sess_st \<Rightarrow> sess_st) \<Rightarrow> PeerManager \<Rightarrow> unit pm_res" where
  "session_do r f = on_session r (\<lambda>st. (f st, ()))"

text \<open>An operation of the information base.\<close>

definition on_info_base :: "(InfoBase \<Rightarrow> InfoBase \<times> 'a res) \<Rightarrow> PeerManager \<Rightarrow> 'a pm_res" where
  "on_info_base f pm = (case f (pm_info_base pm) of (ib, x) \<Rightarrow> (pm\<lparr>pm_info_base := ib\<rparr>, x))"

text \<open>A call into the client manager.\<close>

definition call_client :: "event \<Rightarrow> PeerManager \<Rightarrow> unit pm_res" where
  "call_client e pm = (if pm_client_manager pm then pm_ok (pm\<lparr>pm_log := pm_log pm @ [e]\<rparr>) else pm_fail Null_Deref pm)"

definition all_sessions :: "PeerManager \<Rightarrow> (u64 \<times> sref) list" where
  "all_sessions pm = pm_client pm @ pm_server pm"

definition GetPeerSession :: "u64 \<Rightarrow> PeerManager \<Rightarrow> sref res" where
  "GetPeerSession peer_session_id pm =
     (case map_of (pm_server pm) peer_session_id of
        Some r \<Rightarrow> Inr r
      | None \<Rightarrow> (case map_of (pm_client pm) peer_session_id of
            Some r \<Rightarrow> Inr r
          | None \<Rightarrow> Inl Std_Invalid_Argument))"

section \<open>Node information\<close>

definition skip_node :: "NodeInfo \<Rightarrow> NodeInfo \<Rightarrow> bool" where
  "skip_node a b \<longleftrightarrow> ni_id a = ni_id b \<or> ni_id b = 0 \<or> ni_id a = 0 \<or> list_ex (\<lambda>npi. pi_id npi = ni_id b) (ni_path a)"

definition propagate_to :: "quicr_api \<Rightarrow> NodeInfo \<Rightarrow> bool \<Rightarrow> u64 \<times> sref \<Rightarrow> PeerManager \<Rightarrow> unit pm_res" where
  "propagate_to q node_info withdraw sess pm =
     (case map_of (pm_sessions pm) (snd sess) of
        None \<Rightarrow> pm_fail Null_Deref pm
      | Some s \<Rightarrow> if skip_node node_info (ps_remote_node_info s) then pm_ok pm
                  else session_do (snd sess) (SendNodeInfo (q_uintvar q) node_info withdraw) pm)"

definition PropagateNodeInfo :: "quicr_api \<Rightarrow> NodeInfo \<Rightarrow> bool \<Rightarrow> PeerManager \<Rightarrow> unit pm_res" where
  "PropagateNodeInfo q node_info withdraw pm = foreach (propagate_to q node_info withdraw) (all_sessions pm) pm"

definition PropagateNodeInfo_to :: "quicr_api \<Rightarrow> u64 \<Rightarrow> NodeInfo \<Rightarrow> bool \<Rightarrow> PeerManager \<Rightarrow> unit pm_res" where
  "PropagateNodeInfo_to q peer_session_id node_info withdraw pm =
     (let send = (\<lambda>r. case map_of (pm_sessions pm) r of
                    None \<Rightarrow> pm_fail Null_Deref pm
                  | Some s \<Rightarrow> if ni_id (ps_remote_node_info s) \<noteq> ni_id node_info
                              then session_do r (SendNodeInfo (q_uintvar q) node_info withdraw) pm else pm_ok pm)
      in case map_of (pm_server pm) peer_session_id of
           Some r \<Rightarrow> send r
         | None \<Rightarrow> (case map_of (pm_client pm) peer_session_id of Some r \<Rightarrow> send r | None \<Rightarrow> pm_ok pm))"

text \<open>The path item a received node info gets before it is passed on.\<close>

definition via :: "u64 \<Rightarrow> u64 \<Rightarrow> NodeInfo \<Rightarrow> NodeInfo" where
  "via node srtt ni = ni\<lparr>ni_path := ni_path ni @ [\<lparr>pi_id = node, pi_srtt_us = srtt\<rparr>]\<rparr>"

definition NodeReceived :: "quicr_api \<Rightarrow> u64 \<Rightarrow> NodeInfo \<Rightarrow> bool \<Rightarrow> PeerManager \<Rightarrow> unit pm_res" where
  "NodeReceived q peer_session_id node_info withdraw pm = catch_std
     (case GetPeerSession peer_session_id pm of
        Inl e \<Rightarrow> pm_fail e pm
      | Inr r \<Rightarrow> (case map_of (pm_sessions pm) r of
          None \<Rightarrow> pm_fail Null_Deref pm
        | Some s \<Rightarrow>
            if \<not> withdraw
            then andthen (on_info_base (AddNode (live_of pm) r node_info) pm) (\<lambda>updated pm.
                   if updated then PropagateNodeInfo q (via (ni_id node_info) (ps_srtt_us s) node_info) False pm else pm_ok pm)
            else andthen (on_info_base (RemoveNode (live_of pm) peer_session_id (ni_id node_info)) pm) (\<lambda>_ pm.
                   PropagateNodeInfo q (via (ni_id (ps_node_info s)) (ps_srtt_us s) node_info) True pm)))"

section \<open>Announces\<close>

definition announce_to :: "AnnounceInfo \<Rightarrow> bool \<Rightarrow> u64 \<times> sref \<Rightarrow> PeerManager \<Rightarrow> unit pm_res" where
  "announce_to ai withdraw sess = session_do (snd sess) (SendAnnounceInfo ai withdraw)"

text \<open>\<open>if (peer_session_id != sess.first) ...\<close> over both session maps.\<close>

definition flood_announce :: "u64 \<Rightarrow> AnnounceInfo \<Rightarrow> bool \<Rightarrow> PeerManager \<Rightarrow> unit pm_res" where
  "flood_announce ingress ai withdraw pm =
     foreach (\<lambda>sess pm. if fst sess \<noteq> ingress then announce_to ai withdraw sess pm else pm_ok pm) (all_sessions pm) pm"

text \<open>The report to the client manager; the namespace hash serves as the request identifier.\<close>

definition announce_call :: "quicr_api \<Rightarrow> AnnounceInfo \<Rightarrow> bool \<Rightarrow> event" where
  "announce_call q ai withdraw =
     (let th = h_track (q_hash q) (ai_name_space ai) (ai_name ai) in
      if bit (ai_flags ai) 0
      then (if \<not> withdraw then CM_Publish_Namespace_Received (ai_name_space ai) (th_namespace th)
            else CM_Publish_Namespace_Done_Received (th_namespace th))
      else (if \<not> withdraw then CM_Publish_Received (ai_name_space ai) (ai_name ai) (ai_fullname_hash ai)
            else CM_Publish_Done_Received))"

definition AnnounceInfoReceived :: "quicr_api \<Rightarrow> u64 \<Rightarrow> AnnounceInfo \<Rightarrow> bool \<Rightarrow> PeerManager \<Rightarrow> unit pm_res" where
  "AnnounceInfoReceived q peer_session_id ai withdraw pm = catch_std
     (case GetPeerSession peer_session_id pm of
        Inl e \<Rightarrow> pm_fail e pm
      | Inr _ \<Rightarrow>
          (let (ib, changed) = (if \<not> withdraw then AddAnnounce (q_hash q) ai (pm_info_base pm)
                                else RemoveAnnounce (q_hash q) ai (pm_info_base pm));
               pm = pm\<lparr>pm_info_base := ib\<rparr>
           in if \<not> changed then pm_ok pm
              else andthen (flood_announce peer_session_id ai withdraw pm) (\<lambda>_. call_client (announce_call q ai withdraw))))"

definition GetOriginNodeId :: "quicr_api \<Rightarrow> bytes list \<Rightarrow> bytes \<Rightarrow> PeerManager \<Rightarrow> u64 list res" where
  "GetOriginNodeId q ns name pm = GetAnnounceIds (q_hash q) ns name False (pm_info_base pm)"

section \<open>Subscribes\<close>

definition PM_HasSubscribers :: "u64 \<Rightarrow> PeerManager \<Rightarrow> bool" where
  "PM_HasSubscribers fh pm = (key_range fh (ib_client_fib (pm_info_base pm)) \<noteq> [])"

text \<open>
  Sending to one session and to all of them but the ingress.  The subscribe info is passed by
  reference: when this relay is its origin every send bumps the sequence number of the object.
\<close>

definition subscribe_to :: "bool \<Rightarrow> u64 \<times> sref \<Rightarrow> PeerManager \<times> SubscribeInfo \<Rightarrow> (PeerManager \<times> SubscribeInfo) \<times> unit res" where
  "subscribe_to withdraw sess st =
     (case on_session (snd sess) (SendSubscribeInfo (snd st) withdraw) (fst st) of
        (pm, Inl e) \<Rightarrow> ((pm, snd st), Inl e)
      | (pm, Inr si) \<Rightarrow> ((pm, si), Inr ()))"

definition flood_subscribe :: "u64 option \<Rightarrow> bool \<Rightarrow> PeerManager \<times> SubscribeInfo \<Rightarrow> (PeerManager \<times> SubscribeInfo) \<times> unit res" where
  "flood_subscribe ingress withdraw st =
     foreach (\<lambda>sess st. if Some (fst sess) \<noteq> ingress then subscribe_to withdraw sess st else (st, Inr ()))
       (all_sessions (fst st)) st"

text \<open>
  The egress of a subscribe: the subscribing node joins the node set of its best session, and a node
  new to the set gets the track a forwarding entry, under the key session \<open>in_sess\<close> or, if that is
  \<open>None\<close>, under the best session.
\<close>

definition add_client_fib :: "quicr_api \<Rightarrow> u64 \<Rightarrow> u64 option \<Rightarrow> SubscribeInfo \<Rightarrow> u8 res \<Rightarrow> PeerManager \<Rightarrow> unit pm_res" where
  "add_client_fib q update_ref in_sess si priority pm =
     (case map_of (ib_nodes_best (pm_info_base pm)) (si_source_node_id si) of
        None \<Rightarrow> pm_ok pm
      | Some r \<Rightarrow> (case live_of pm r of
          None \<Rightarrow> pm_fail Null_Deref pm
        | Some best_id \<Rightarrow> (case priority of
            Inl e \<Rightarrow> pm_fail e pm
          | Inr p \<Rightarrow>
              (let fh = th_fullname (si_track_hash si) in
               andthen (on_session r (AddSubscribeSourceNode (q_transport q) fh (si_source_node_id si) p) pm) (\<lambda>(out_sns, is_new) pm.
                 pm_ok (if is_new
                        then pm\<lparr>pm_info_base := (pm_info_base pm)\<lparr>ib_client_fib :=
                               fst (mtry (fh, case in_sess of None \<Rightarrow> best_id | Some i \<Rightarrow> i)
                                 \<lparr>fib_update_ref = update_ref, fib_streams = [], fib_out_sns_id = out_sns,
                                  fib_peer_session = Some r, fib_track_fullname_hash = 0\<rparr>
                                 (ib_client_fib (pm_info_base pm)))\<rparr>\<rparr>
                        else pm))))))"

text \<open>Whether a publisher of this relay has the track, or announced its namespace.\<close>

definition announce_matches :: "quicr_api \<Rightarrow> u64 \<Rightarrow> bytes list \<Rightarrow> State \<Rightarrow> bool" where
  "announce_matches q fh ns st \<longleftrightarrow> key_range fh (st_pub_subscribes st) \<noteq> []
     \<or> list_ex (\<lambda>(key, _). m_same_prefix (q_msg q) (fst key) ns) (st_pub_namespace_active st)"

definition subscribe_egress :: "quicr_api \<Rightarrow> u64 \<Rightarrow> u64 \<Rightarrow> SubscribeInfo \<Rightarrow> PeerManager \<Rightarrow> unit pm_res" where
  "subscribe_egress q update_ref peer_session_id si pm =
     (case m_parse (q_msg q) (si_subscribe_data si) of
        Inl e \<Rightarrow> pm_fail e pm
      | Inr (_, track_namespace, track_name, parameters) \<Rightarrow>
          (case m_get_u8 (q_msg q) kSubscriberPriority parameters of
             Inl e \<Rightarrow> pm_fail e pm
           | Inr priority \<Rightarrow>
               (let ngr_id = m_get_optional (q_msg q) kNewGroupRequest parameters in
                if announce_matches q (th_fullname (si_track_hash si)) track_namespace (pm_state pm)
                then andthen (if pm_client_manager pm
                              then call_client (CM_Process_Subscribe (si_track_hash si) track_namespace track_name ngr_id) pm
                              else pm_ok pm)
                       (\<lambda>_. add_client_fib q update_ref (Some peer_session_id) si (Inr priority))
                else pm_ok pm)))"

definition unsubscribe_egress :: "u64 \<Rightarrow> SubscribeInfo \<Rightarrow> PeerManager \<Rightarrow> unit pm_res" where
  "unsubscribe_egress peer_session_id si pm =
     (let fh = th_fullname (si_track_hash si) in
      andthen
        (case map_of (ib_nodes_best (pm_info_base pm)) (si_source_node_id si) of
           None \<Rightarrow> pm_ok pm
         | Some r \<Rightarrow> andthen (on_session r (RemoveSubscribeSourceNode fh (si_source_node_id si)) pm) (\<lambda>(_, sns_removed) pm.
             if sns_removed
             then (let pm = pm\<lparr>pm_info_base := (pm_info_base pm)\<lparr>ib_client_fib :=
                              mdel (fh, peer_session_id) (ib_client_fib (pm_info_base pm))\<rparr>\<rparr>
                   in if \<not> PM_HasSubscribers fh pm then call_client (CM_Peer_Unsubscribe_Track fh) pm else pm_ok pm)
             else pm_ok pm))
        (\<lambda>_ pm. if pm_client_manager pm then call_client (CM_Remove_Or_Pause_Publisher_Subscribe fh) pm else pm_ok pm))"

definition SubscribeInfoReceived :: "quicr_api \<Rightarrow> u64 \<Rightarrow> u64 \<Rightarrow> SubscribeInfo \<Rightarrow> bool \<Rightarrow> PeerManager \<Rightarrow> unit pm_res" where
  "SubscribeInfoReceived q update_ref peer_session_id si withdraw pm = catch_std
     (case GetPeerSession peer_session_id pm of
        Inl e \<Rightarrow> pm_fail e pm
      | Inr _ \<Rightarrow>
          (let (ib, is_updated) = (if withdraw then RemoveSubscribe si (pm_info_base pm) else AddSubscribe si (pm_info_base pm));
               pm = pm\<lparr>pm_info_base := ib\<rparr>;
               (st, r) = (if is_updated then flood_subscribe (Some peer_session_id) withdraw (pm, si) else ((pm, si), Inr ()))
           in andthen (fst st, r) (\<lambda>_.
                if \<not> withdraw then subscribe_egress q update_ref peer_session_id (snd st)
                else unsubscribe_egress peer_session_id (snd st))))"

section \<open>What the clients of this relay start\<close>

definition send_subscribe_all :: "bool \<Rightarrow> SubscribeInfo \<Rightarrow> PeerManager \<Rightarrow> unit pm_res" where
  "send_subscribe_all withdraw si pm = (case flood_subscribe None withdraw (pm, si) of (st, r) \<Rightarrow> (fst st, r))"

definition ClientUnsubscribe :: "u64 \<Rightarrow> PeerManager \<Rightarrow> unit pm_res" where
  "ClientUnsubscribe fh pm =
     (case GetSubscribe fh (ni_id (pm_node_info pm)) (pm_info_base pm) of
        (ib, None) \<Rightarrow> pm_ok (pm\<lparr>pm_info_base := ib\<rparr>)
      | (ib, Some si) \<Rightarrow> send_subscribe_all True si (pm\<lparr>pm_info_base := fst (RemoveSubscribe si ib)\<rparr>))"

text \<open>
  The new \<open>subscribe_data\<close> of an update: a new group request is added when it is asked for and not
  there, and taken out when it is there and not asked for.
\<close>

definition remove_first :: "param_type \<Rightarrow> params \<Rightarrow> params" where
  "remove_first t ps = takeWhile (\<lambda>p. fst p \<noteq> t) ps @ tl (dropWhile (\<lambda>p. fst p \<noteq> t) ps)"

definition updated_subscribe_data :: "quicr_api \<Rightarrow> u64 option \<Rightarrow> bytes \<Rightarrow> bytes res" where
  "updated_subscribe_data q new_group data =
     res_bind (m_parse (q_msg q) data) (\<lambda>(request_id, track_namespace, track_name, parameters).
       let ngr_id = m_get_optional (q_msg q) kNewGroupRequest parameters;
           parameters = (if ngr_id = None then m_add_optional (q_msg q) kNewGroupRequest ngr_id parameters else parameters);
           has_new_group_request = list_ex (\<lambda>p. fst p = kNewGroupRequest) parameters
       in Inr (if has_new_group_request \<and> new_group = None
               then m_build (q_msg q) request_id track_namespace track_name (remove_first kNewGroupRequest parameters)
               else if new_group \<noteq> None \<and> \<not> has_new_group_request
               then m_build (q_msg q) request_id track_namespace track_name (m_add (q_msg q) kNewGroupRequest new_group parameters)
               else data))"

definition ClientSubscribeUpdate :: "quicr_api \<Rightarrow> bytes list \<Rightarrow> bytes \<Rightarrow> u64 option \<Rightarrow> PeerManager \<Rightarrow> unit pm_res" where
  "ClientSubscribeUpdate q ns name new_group pm =
     (case GetSubscribe (th_fullname (h_track (q_hash q) ns name)) (ni_id (pm_node_info pm)) (pm_info_base pm) of
        (ib, None) \<Rightarrow> pm_ok (pm\<lparr>pm_info_base := ib\<rparr>)
      | (ib, Some si) \<Rightarrow>
          (case updated_subscribe_data q new_group (si_subscribe_data si) of
             Inl e \<Rightarrow> (pm\<lparr>pm_info_base := ib\<rparr>, if is_exception e then Inr () else Inl e)
           | Inr data \<Rightarrow> send_subscribe_all False (si\<lparr>si_subscribe_data := data\<rparr>) (pm\<lparr>pm_info_base := ib\<rparr>)))"

definition ClientSubscribe :: "quicr_api \<Rightarrow> bytes list \<Rightarrow> bytes \<Rightarrow> bytes \<Rightarrow> PeerManager \<Rightarrow> unit pm_res" where
  "ClientSubscribe q ns name subscribe_data pm =
     (if subscribe_data = [] then pm_ok pm
      else let si = \<lparr>si_seq = 0, si_source_node_id = ni_id (pm_node_info pm), si_track_hash = h_track (q_hash q) ns name,
                     si_subscribe_data = subscribe_data\<rparr>
           in send_subscribe_all False si (pm\<lparr>pm_info_base := fst (AddSubscribe si (pm_info_base pm))\<rparr>))"

text \<open>A subscribe of another node that a new local announce matches.\<close>

definition match_subscribe :: "quicr_api \<Rightarrow> u64 \<Rightarrow> bytes list \<Rightarrow> u64 \<times> SubscribeInfo \<Rightarrow> PeerManager \<Rightarrow> unit pm_res" where
  "match_subscribe q update_ref ns sub pm =
     (if fst sub = ni_id (pm_node_info pm) then pm_ok pm
      else catch_std
        (case m_parse (q_msg q) (si_subscribe_data (snd sub)) of
           Inl e \<Rightarrow> pm_fail e pm
         | Inr (_, track_namespace, track_name, parameters) \<Rightarrow>
             if \<not> m_same_prefix (q_msg q) ns track_namespace \<or> si_source_node_id (snd sub) = ni_id (pm_node_info pm) then pm_ok pm
             else andthen
               (if pm_client_manager pm
                then call_client (CM_Process_Subscribe (si_track_hash (snd sub)) track_namespace track_name
                       (if list_ex (\<lambda>p. fst p = kNewGroupRequest) parameters then Some 1 else None)) pm
                else pm_ok pm)
               (\<lambda>_. add_client_fib q update_ref None (snd sub) (m_get_u8 (q_msg q) kSubscriberPriority parameters))))"

definition local_announce :: "quicr_api \<Rightarrow> bytes list \<Rightarrow> bytes \<Rightarrow> bool \<Rightarrow> PeerManager \<Rightarrow> AnnounceInfo" where
  "local_announce q ns name publish_namespace pm =
     \<lparr>ai_source_node_id = ni_id (pm_node_info pm), ai_name_space = ns, ai_name = name,
      ai_fullname_hash = th_fullname (h_track (q_hash q) ns name), ai_flags = (if publish_namespace then 1 else 0)\<rparr>"

definition ClientAnnounce :: "quicr_api \<Rightarrow> u64 \<Rightarrow> bytes list \<Rightarrow> bytes \<Rightarrow> bool \<Rightarrow> bool \<Rightarrow> PeerManager \<Rightarrow> unit pm_res" where
  "ClientAnnounce q update_ref ns name withdraw publish_namespace pm =
     (let ai = local_announce q ns name publish_namespace pm;
          ib = fst (if \<not> withdraw then AddAnnounce (q_hash q) ai (pm_info_base pm) else RemoveAnnounce (q_hash q) ai (pm_info_base pm));
          pm = pm\<lparr>pm_info_base := ib\<rparr>
      in andthen (foreach (announce_to ai withdraw) (all_sessions pm) pm) (\<lambda>_ pm.
           if withdraw then pm_ok pm
           else foreach (\<lambda>(_, subs). foreach (match_subscribe q update_ref ns) subs) (ib_subscribes (pm_info_base pm)) pm))"

definition ClientUnannounce :: "quicr_api \<Rightarrow> u64 \<Rightarrow> bytes list \<Rightarrow> bytes \<Rightarrow> PeerManager \<Rightarrow> unit pm_res" where
  "ClientUnannounce q update_ref ns name = ClientAnnounce q update_ref ns name True False"

section \<open>Bringing a new peer up to date\<close>

definition sync_node :: "quicr_api \<Rightarrow> sref \<Rightarrow> (u64 \<times> u64) \<times> NodeItem \<Rightarrow> PeerManager \<Rightarrow> unit pm_res" where
  "sync_node q r item pm =
     (case map_of (pm_sessions pm) r of
        None \<Rightarrow> pm_fail Null_Deref pm
      | Some s \<Rightarrow>
          (let remote = ni_id (ps_remote_node_info s); ni = nit_node_info (snd item) in
           if fst (fst item) = ni_id (ps_node_info s) \<or> snd (fst item) = ps_t_conn_id s \<or> fst (fst item) = remote
              \<or> list_ex (\<lambda>npi. pi_id npi = remote) (ni_path ni)
           then pm_ok pm
           else session_do r (SendNodeInfo (q_uintvar q) (via (ni_id (ps_node_info s)) (ps_srtt_us s) ni) False) pm))"

definition sync_announce :: "sref \<Rightarrow> AnnounceInfo \<Rightarrow> PeerManager \<Rightarrow> unit pm_res" where
  "sync_announce r ai pm =
     (case map_of (pm_sessions pm) r of
        None \<Rightarrow> pm_fail Null_Deref pm
      | Some s \<Rightarrow> if ni_id (ps_remote_node_info s) = ai_source_node_id ai then pm_ok pm
                  else session_do r (SendAnnounceInfo ai False) pm)"

text \<open>The stored subscribe info is sent by reference, so its sequence number may change.\<close>

definition sync_subscribe :: "sref \<Rightarrow> u64 \<Rightarrow> u64 \<times> SubscribeInfo \<Rightarrow> PeerManager \<Rightarrow> unit pm_res" where
  "sync_subscribe r fh sub pm =
     (case map_of (pm_sessions pm) r of
        None \<Rightarrow> pm_fail Null_Deref pm
      | Some s \<Rightarrow>
          if ni_id (ps_remote_node_info s) = si_source_node_id (snd sub) then pm_ok pm
          else andthen (on_session r (SendSubscribeInfo (snd sub) False) pm) (\<lambda>si pm.
            pm_ok (pm\<lparr>pm_info_base := (pm_info_base pm)\<lparr>ib_subscribes :=
              mput fh (mput (fst sub) si (mat [] (ib_subscribes (pm_info_base pm)) fh)) (ib_subscribes (pm_info_base pm))\<rparr>\<rparr>)))"

definition InfoBaseSyncPeer :: "quicr_api \<Rightarrow> sref \<Rightarrow> PeerManager \<Rightarrow> unit pm_res" where
  "InfoBaseSyncPeer q r pm =
     andthen (foreach (sync_node q r) (ib_nodes (pm_info_base pm)) pm) (\<lambda>_ pm.
     andthen (foreach (\<lambda>(_, origins). foreach (\<lambda>(_, ai). sync_announce r ai) origins) (ib_announces (pm_info_base pm)) pm) (\<lambda>_ pm.
       foreach (\<lambda>(fh, subs). foreach (sync_subscribe r fh) subs) (ib_subscribes (pm_info_base pm)) pm))"

section \<open>What every handler keeps\<close>

text \<open>
  A running manager: every session map entry refers to an object of the store under the session's own
  identifier, the node tables are consistent for the live sessions, and the client manager is set.
\<close>

definition pm_wf :: "PeerManager \<Rightarrow> bool" where
  "pm_wf pm \<longleftrightarrow> msorted (pm_sessions pm) \<and> pm_client_manager pm
     \<and> (\<forall>(sid, r) \<in> set (all_sessions pm). live_of pm r = Some sid)
     \<and> ib_wf (live_of pm) (pm_info_base pm) \<and> msorted (ib_peer_fib (pm_info_base pm))"

definition sess_keep :: "PeerSession \<Rightarrow> PeerSession \<Rightarrow> bool" where
  "sess_keep s s' \<longleftrightarrow> same_control s s' \<and> ps_remote_node_info s' = ps_remote_node_info s \<and> ps_srtt_us s' = ps_srtt_us s
     \<and> ps_is_inbound s' = ps_is_inbound s"

text \<open>What a handler of peering traffic leaves alone: the session maps, the connection state of every
  session, the identity of the relay; and the log only grows.\<close>

definition pm_keep :: "PeerManager \<Rightarrow> PeerManager \<Rightarrow> bool" where
  "pm_keep pm pm' \<longleftrightarrow> pm_server pm' = pm_server pm \<and> pm_client pm' = pm_client pm \<and> pm_next pm' = pm_next pm
     \<and> pm_node_info pm' = pm_node_info pm \<and> pm_client_manager pm' = pm_client_manager pm
     \<and> pm_stop pm' = pm_stop pm \<and> pm_state pm' = pm_state pm
     \<and> (\<forall>r. rel_option sess_keep (map_of (pm_sessions pm) r) (map_of (pm_sessions pm') r))
     \<and> (\<exists>evs. pm_log pm' = pm_log pm @ evs)"

lemma sess_keep_refl [simp]: "sess_keep s s"
  by (simp add: sess_keep_def)

lemma sess_keep_trans: "sess_keep a b \<Longrightarrow> sess_keep b c \<Longrightarrow> sess_keep a c"
  by (auto simp: sess_keep_def intro: same_control_trans)

lemma pm_keep_refl [simp]: "pm_keep pm pm"
  by (simp add: pm_keep_def option.rel_refl)

lemma pm_keep_trans:
  assumes "pm_keep a b" and "pm_keep b c"
  shows "pm_keep a c"
proof -
  have "rel_option sess_keep (map_of (pm_sessions a) r) (map_of (pm_sessions c) r)" for r
    using assms sess_keep_trans unfolding pm_keep_def by (metis (no_types, lifting) option.rel_transp transpD transpI)
  then show ?thesis using assms by (auto simp: pm_keep_def)
qed

lemma pm_keep_live: "pm_keep pm pm' \<Longrightarrow> live_of pm' = live_of pm"
proof (rule ext)
  fix r
  assume "pm_keep pm pm'"
  then have "rel_option sess_keep (map_of (pm_sessions pm) r) (map_of (pm_sessions pm') r)" by (simp add: pm_keep_def)
  then show "live_of pm' r = live_of pm r"
    by (cases rule: option.rel_cases) (auto simp: live_of_def sess_keep_def same_control_def)
qed

lemma pm_keep_all_sessions: "pm_keep pm pm' \<Longrightarrow> all_sessions pm' = all_sessions pm"
  by (simp add: pm_keep_def all_sessions_def)

text \<open>
  \<open>safe pm r\<close>: the result \<open>r\<close> of a step from \<open>pm\<close> keeps the above, leaves a running
  manager, and is not undefined behaviour.
\<close>

definition safe :: "PeerManager \<Rightarrow> 'a pm_res \<Rightarrow> bool" where
  "safe pm r \<longleftrightarrow> pm_keep pm (fst r) \<and> pm_wf (fst r) \<and> (\<forall>e. snd r = Inl e \<longrightarrow> is_exception e)"

named_theorems sess_methods \<open>methods of a session that keep its connection state\<close>

definition sess_method :: "(sess_st \<Rightarrow> sess_st \<times> 'a) \<Rightarrow> bool" where
  "sess_method f \<longleftrightarrow> (\<forall>s log. sess_keep s (fst (fst (f (s, log)))) \<and> (\<exists>evs. snd (fst (f (s, log))) = log @ evs))"

lemma sess_methodI:
  "(\<And>s log. sess_keep s (fst (fst (f (s, log))))) \<Longrightarrow> (\<And>s log. \<exists>evs. snd (fst (f (s, log))) = log @ evs) \<Longrightarrow> sess_method f"
  by (simp add: sess_method_def)

lemma safe_ok: "pm_wf pm \<Longrightarrow> safe pm (pm, Inr x)"
  by (simp add: safe_def)

lemma safe_fail: "pm_wf pm \<Longrightarrow> is_exception e \<Longrightarrow> safe pm (pm, Inl e)"
  by (simp add: safe_def)

lemma safe_andthen:
  assumes "safe pm r" and "\<And>x pm'. pm_keep pm pm' \<Longrightarrow> pm_wf pm' \<Longrightarrow> safe pm' (f x pm')"
  shows "safe pm (andthen r f)"
proof (cases "snd r")
  case (Inl e)
  then show ?thesis using assms(1) by (simp add: safe_def andthen_def)
next
  case (Inr x)
  have "pm_keep pm (fst r)" "pm_wf (fst r)" using assms(1) by (simp_all add: safe_def)
  then have "safe (fst r) (f x (fst r))" by (rule assms(2))
  then show ?thesis using assms(1) Inr pm_keep_trans by (simp add: safe_def andthen_def) blast
qed

lemma safe_foreach:
  assumes "pm_wf pm" and "\<And>x pm'. x \<in> set xs \<Longrightarrow> pm_keep pm pm' \<Longrightarrow> pm_wf pm' \<Longrightarrow> safe pm' (f x pm')"
  shows "safe pm (foreach f xs pm)"
proof -
  let ?R = "\<lambda>a b. pm_wf a \<longrightarrow> pm_keep a b \<and> pm_wf b"
  have "?R pm (fst (foreach f xs pm)) \<and> (\<forall>e. snd (foreach f xs pm) = Inl e \<longrightarrow> is_exception e)"
  proof (rule foreach_rel)
    fix a b c
    assume "?R a b" and "?R b c"
    then show "?R a c" using pm_keep_trans by blast
  next
    fix x pm'
    assume "x \<in> set xs" and "?R pm pm'"
    then have "safe pm' (f x pm')" using assms by blast
    then show "?R pm' (fst (f x pm')) \<and> (\<forall>e. snd (f x pm') = Inl e \<longrightarrow> is_exception e)" by (simp add: safe_def)
  qed simp
  then show ?thesis using assms(1) by (simp add: safe_def)
qed

lemma safe_catch: "safe pm r \<Longrightarrow> safe pm (catch_std r) \<and> snd (catch_std r) = Inr ()"
  by (auto simp: safe_def catch_std_def split: sum.splits)

lemma safe_on_session:
  assumes "pm_wf pm" and "live_of pm r \<noteq> None" and "sess_method f"
  shows "safe pm (on_session r f pm)" and "\<exists>x. snd (on_session r f pm) = Inr x"
proof -
  obtain s where s: "map_of (pm_sessions pm) r = Some s" using assms(2) by (auto simp: live_of_def)
  obtain s' log x where f: "f (s, pm_log pm) = ((s', log), x)" by (metis prod.collapse)
  then have k: "sess_keep s s'" "\<exists>evs. log = pm_log pm @ evs"
    using assms(3) unfolding sess_method_def by (metis fst_conv snd_conv)+
  let ?pm = "pm\<lparr>pm_sessions := mput r s' (pm_sessions pm), pm_log := log\<rparr>"
  have eq: "on_session r f pm = (?pm, Inr x)" by (simp add: on_session_def s f)
  have keep: "pm_keep pm ?pm" using k s by (auto simp: pm_keep_def option.rel_refl)
  then have "live_of ?pm = live_of pm" by (rule pm_keep_live)
  then have "pm_wf ?pm" using assms(1) by (simp add: pm_wf_def all_sessions_def)
  then show "safe pm (on_session r f pm)" using keep by (simp add: safe_def eq)
  show "\<exists>x. snd (on_session r f pm) = Inr x" by (simp add: eq)
qed

lemma safe_session_do: "pm_wf pm \<Longrightarrow> live_of pm r \<noteq> None \<Longrightarrow> sess_method (\<lambda>st. (f st, ())) \<Longrightarrow> safe pm (session_do r f pm)"
  unfolding session_do_def by (rule safe_on_session(1))

text \<open>Steps that only write the log or the tables of the information base that are not about nodes.\<close>

lemma live_of_update [simp]:
  "live_of (pm\<lparr>pm_log := log\<rparr>) = live_of pm" "live_of (pm\<lparr>pm_info_base := ib\<rparr>) = live_of pm"
  by (simp_all add: live_of_def fun_eq_iff)

lemma all_sessions_update [simp]:
  "all_sessions (pm\<lparr>pm_log := log\<rparr>) = all_sessions pm" "all_sessions (pm\<lparr>pm_info_base := ib\<rparr>) = all_sessions pm"
  by (simp_all add: all_sessions_def)

lemma pm_wf_log [simp]: "pm_wf (pm\<lparr>pm_log := log\<rparr>) \<longleftrightarrow> pm_wf pm"
  by (simp add: pm_wf_def)

lemma pm_keep_log [simp]: "pm_keep pm (pm\<lparr>pm_log := pm_log pm @ evs\<rparr>)"
  by (simp add: pm_keep_def option.rel_refl)

lemma pm_keep_info_base [simp]: "pm_keep pm (pm\<lparr>pm_info_base := ib\<rparr>)"
  by (simp add: pm_keep_def option.rel_refl)

lemma safe_call_client: "pm_wf pm \<Longrightarrow> safe pm (call_client e pm)"
  by (auto simp: call_client_def safe_def) (simp add: pm_wf_def)

lemma wf_session_live: "pm_wf pm \<Longrightarrow> sess \<in> set (all_sessions pm) \<Longrightarrow> live_of pm (snd sess) = Some (fst sess)"
  by (cases sess) (auto simp: pm_wf_def)

lemma GetPeerSession_live:
  assumes "pm_wf pm" and "GetPeerSession sid pm = Inr r"
  shows "live_of pm r = Some sid"
proof -
  have "(sid, r) \<in> set (all_sessions pm)"
    using assms(2) by (auto simp: GetPeerSession_def all_sessions_def dest: map_of_SomeD split: option.splits)
  then show ?thesis using wf_session_live [OF assms(1)] by fastforce
qed

lemma GetPeerSession_exception: "GetPeerSession sid pm = Inl e \<Longrightarrow> is_exception e"
  by (auto simp: GetPeerSession_def split: option.splits)

lemma control_methods [sess_methods]:
  "sess_method (\<lambda>st. (SendNodeInfo uv ni w st, ()))" "sess_method (\<lambda>st. (SendAnnounceInfo ai w st, ()))"
  "sess_method (\<lambda>st. (SendSns sns w st, ()))" "sess_method (SendSubscribeInfo si w)"
  by (rule sess_methodI; simp add: SendNodeInfo_def SendAnnounceInfo_def SendSns_def SendSubscribeInfo_def
      send_control_def sess_emit_def case_prod_unfold)+

lemma stream_methods [sess_methods]:
  "sess_method (\<lambda>st. (SendData p ttl sid n rel data st, ()))" "sess_method (PS_CreateStream ta sid p)"
  "sess_method (\<lambda>st. (PS_CloseStream sid n reset st, ()))"
  by (rule sess_methodI; simp add: SendData_def PS_CreateStream_def PS_CloseStream_def sess_emit_def Let_def)+

lemma sns_add_methods [sess_methods]:
  "sess_method (AddSubscribeSourceNode ta fh node p)" "sess_method (AddPeerSnsSourceNode ta sid i node p)"
  by (rule sess_methodI; simp add: AddSubscribeSourceNode_def AddPeerSnsSourceNode_def sns_add_eq Let_def sess_keep_def same_control_def)+

lemma sns_remove_methods [sess_methods]:
  "sess_method (RemoveSubscribeSourceNode fh node)" "sess_method (RemovePeerSnsSourceNode sid i node)"
  by (rule sess_methodI; simp add: RemoveSubscribeSourceNode_def RemovePeerSnsSourceNode_def drop_sns_def sess_emit_def SendSns_eq
      Let_def sess_keep_def same_control_def split: option.split)+

section \<open>Received control information is safe\<close>

definition nodes_same :: "InfoBase \<Rightarrow> InfoBase \<Rightarrow> bool" where
  "nodes_same ib ib' \<longleftrightarrow> ib_nodes ib' = ib_nodes ib \<and> ib_nodes_best ib' = ib_nodes_best ib
     \<and> ib_nodes_by_peer_session ib' = ib_nodes_by_peer_session ib"

lemma nodes_same_refl [simp]: "nodes_same ib ib"
  by (simp add: nodes_same_def)

lemma nodes_same_wf: "nodes_same ib ib' \<Longrightarrow> ib_wf l ib' \<longleftrightarrow> ib_wf l ib"
  by (simp add: nodes_same_def ib_wf_def nodes_wf_def has_best_def by_session_wf_def usable_def)

lemma pm_wf_info_base: "pm_wf pm \<Longrightarrow> nodes_same (pm_info_base pm) ib \<Longrightarrow> msorted (ib_peer_fib ib) \<Longrightarrow> pm_wf (pm\<lparr>pm_info_base := ib\<rparr>)"
  by (simp add: pm_wf_def nodes_same_wf)

text \<open>The operations on subscribes and announces leave the node and peer forwarding tables alone.\<close>

definition same_routes :: "InfoBase \<Rightarrow> InfoBase \<Rightarrow> bool" where
  "same_routes ib ib' \<longleftrightarrow> nodes_same ib ib' \<and> ib_peer_fib ib' = ib_peer_fib ib"

lemma subscribe_same_routes [simp]:
  "same_routes ib (fst (AddSubscribe si ib))" "same_routes ib (fst (RemoveSubscribe si ib))" "same_routes ib (fst (GetSubscribe fh n ib))"
  by (simp_all add: same_routes_def nodes_same_def AddSubscribe_eq RemoveSubscribe_def GetSubscribe_def Let_def split: option.split)

lemma announce_same_routes [simp]:
  "same_routes ib (fst (AddAnnounce ha ai ib))" "same_routes ib (fst (RemoveAnnounce ha ai ib))"
  by (simp_all add: same_routes_def nodes_same_def AddAnnounce_def RemoveAnnounce_def Let_def case_prod_unfold split: option.split)

lemma same_routes_trans: "same_routes a b \<Longrightarrow> same_routes b c \<Longrightarrow> same_routes a c"
  by (simp add: same_routes_def nodes_same_def)

lemma pm_wf_routes: "pm_wf pm \<Longrightarrow> same_routes (pm_info_base pm) ib \<Longrightarrow> pm_wf (pm\<lparr>pm_info_base := ib\<rparr>)"
  by (rule pm_wf_info_base) (auto simp: same_routes_def pm_wf_def)

lemma same_routes_client_fib [simp]: "same_routes ib (ib\<lparr>ib_client_fib := f\<rparr>)" "same_routes ib (ib\<lparr>ib_subscribes := g\<rparr>)"
  by (simp_all add: same_routes_def nodes_same_def)

text \<open>The best session of a node is always one that is still there.\<close>

lemma best_live:
  assumes "pm_wf pm" and "map_of (ib_nodes_best (pm_info_base pm)) nid = Some r"
  shows "\<exists>sid. live_of pm r = Some sid"
  using assms unfolding pm_wf_def ib_wf_def nodes_wf_def usable_def by blast

lemma session_still_live: "pm_wf pm \<Longrightarrow> sess \<in> set (all_sessions pm) \<Longrightarrow> pm_keep pm pm' \<Longrightarrow> live_of pm' (snd sess) \<noteq> None"
  using wf_session_live [of pm sess] by (simp add: pm_keep_live)

lemma propagate_to_safe: "pm_wf pm \<Longrightarrow> live_of pm (snd sess) \<noteq> None \<Longrightarrow> safe pm (propagate_to q ni w sess pm)"
  by (auto simp: propagate_to_def live_of_def intro: safe_ok safe_session_do sess_methods split: option.split)

lemma PropagateNodeInfo_safe: "pm_wf pm \<Longrightarrow> safe pm (PropagateNodeInfo q ni w pm)"
  unfolding PropagateNodeInfo_def
  by (rule safe_foreach) (simp_all add: propagate_to_safe session_still_live)

lemma AddNode_step_safe: "pm_wf pm \<Longrightarrow> live_of pm r = Some sid \<Longrightarrow> safe pm (on_info_base (AddNode (live_of pm) r ni) pm)"
  using AddNode_keeps [of "live_of pm" "pm_info_base pm" r sid ni] AddNode_peer_fib [of "live_of pm" r ni "pm_info_base pm"]
  by (cases "AddNode (live_of pm) r ni (pm_info_base pm)") (auto simp: on_info_base_def safe_def pm_wf_def)

lemma RemoveNode_step_safe: "pm_wf pm \<Longrightarrow> safe pm (on_info_base (RemoveNode (live_of pm) sid nid) pm)"
  using RemoveNode_keeps [of "live_of pm" "pm_info_base pm" sid nid] RemoveNode_peer_fib [of "live_of pm" sid nid "pm_info_base pm"]
  by (cases "RemoveNode (live_of pm) sid nid (pm_info_base pm)") (auto simp: on_info_base_def safe_def pm_wf_def)

lemma NodeReceived_safe:
  assumes "pm_wf pm"
  shows "safe pm (NodeReceived q sid ni w pm) \<and> snd (NodeReceived q sid ni w pm) = Inr ()"
proof (cases "GetPeerSession sid pm")
  case (Inl e)
  then show ?thesis using assms GetPeerSession_exception [OF Inl] by (simp add: NodeReceived_def safe_ok)
next
  case (Inr r)
  have l: "live_of pm r = Some sid" by (rule GetPeerSession_live [OF assms Inr])
  then obtain s where s: "map_of (pm_sessions pm) r = Some s" by (auto simp: live_of_def)
  have "safe pm (if \<not> w
       then andthen (on_info_base (AddNode (live_of pm) r ni) pm) (\<lambda>updated pm.
              if updated then PropagateNodeInfo q (via (ni_id ni) (ps_srtt_us s) ni) False pm else pm_ok pm)
       else andthen (on_info_base (RemoveNode (live_of pm) sid (ni_id ni)) pm) (\<lambda>_ pm.
              PropagateNodeInfo q (via (ni_id (ps_node_info s)) (ps_srtt_us s) ni) True pm))"
    using assms l by (auto intro!: safe_andthen AddNode_step_safe RemoveNode_step_safe PropagateNodeInfo_safe safe_ok)
  then show ?thesis using safe_catch by (simp add: NodeReceived_def Inr s)
qed

lemma announce_to_safe: "pm_wf pm \<Longrightarrow> live_of pm (snd sess) \<noteq> None \<Longrightarrow> safe pm (announce_to ai w sess pm)"
  unfolding announce_to_def by (intro safe_session_do sess_methods)

lemma announce_all_safe: "pm_wf pm \<Longrightarrow> safe pm (foreach (announce_to ai w) (all_sessions pm) pm)"
  by (rule safe_foreach) (simp_all add: announce_to_safe session_still_live)

lemma flood_announce_safe: "pm_wf pm \<Longrightarrow> safe pm (flood_announce ing ai w pm)"
  unfolding flood_announce_def
  by (rule safe_foreach) (simp_all add: announce_to_safe session_still_live safe_ok)

lemma safe_update:
  assumes "pm_keep pm pm'" and "safe pm' r"
  shows "safe pm r"
  using assms pm_keep_trans unfolding safe_def by blast

lemma AnnounceInfoReceived_safe:
  assumes "pm_wf pm"
  shows "safe pm (AnnounceInfoReceived q sid ai w pm) \<and> snd (AnnounceInfoReceived q sid ai w pm) = Inr ()"
proof (cases "GetPeerSession sid pm")
  case (Inl e)
  then show ?thesis using assms GetPeerSession_exception [OF Inl] by (simp add: AnnounceInfoReceived_def safe_ok)
next
  case (Inr r)
  define a where "a = (if \<not> w then AddAnnounce (q_hash q) ai (pm_info_base pm) else RemoveAnnounce (q_hash q) ai (pm_info_base pm))"
  let ?pm = "pm\<lparr>pm_info_base := fst a\<rparr>"
  have wf: "pm_wf ?pm" using assms by (rule pm_wf_routes) (simp add: a_def)
  then have "safe ?pm (andthen (flood_announce sid ai w ?pm) (\<lambda>_. call_client e))" for e
    by (intro safe_andthen flood_announce_safe safe_call_client)
  then have "safe pm (if \<not> snd a then pm_ok ?pm else andthen (flood_announce sid ai w ?pm) (\<lambda>_. call_client e))" for e
    using wf by (intro safe_update [of pm ?pm]) (simp_all add: safe_ok)
  then show ?thesis
    unfolding AnnounceInfoReceived_def a_def [symmetric] Let_def case_prod_unfold Inr sum.case by (intro safe_catch)
qed

lemma subscribe_to_safe:
  assumes "pm_wf (fst st)" and "live_of (fst st) (snd sess) \<noteq> None"
  shows "safe (fst st) (fst (fst (subscribe_to w sess st)), snd (subscribe_to w sess st))"
  using safe_on_session [OF assms, of "SendSubscribeInfo (snd st) w"] control_methods(4)
  by (auto simp: subscribe_to_def safe_def split: prod.split sum.split)

lemma flood_subscribe_safe:
  assumes "pm_wf (fst st)"
  shows "safe (fst st) (fst (fst (flood_subscribe ing w st)), snd (flood_subscribe ing w st))"
proof -
  let ?f = "\<lambda>sess st. if Some (fst sess) \<noteq> ing then subscribe_to w sess st else (st, Inr ())"
  let ?R = "\<lambda>a b. pm_wf (fst a) \<longrightarrow> pm_keep (fst a) (fst b) \<and> pm_wf (fst b)"
  let ?r = "foreach ?f (all_sessions (fst st)) st"
  have "?R st (fst ?r) \<and> (\<forall>e. snd ?r = Inl e \<longrightarrow> is_exception e)"
  proof (rule foreach_rel)
    fix a b c :: "PeerManager \<times> SubscribeInfo"
    assume "?R a b" and "?R b c"
    then show "?R a c" using pm_keep_trans by blast
  next
    fix x and st' :: "PeerManager \<times> SubscribeInfo"
    assume x: "x \<in> set (all_sessions (fst st))" and "?R st st'"
    then have k: "pm_wf (fst st')" "pm_keep (fst st) (fst st')" using assms by blast+
    then have "live_of (fst st') (snd x) \<noteq> None" using session_still_live assms x by blast
    then show "?R st' (fst (?f x st')) \<and> (\<forall>e. snd (?f x st') = Inl e \<longrightarrow> is_exception e)"
      using subscribe_to_safe [OF k(1)] by (simp add: safe_def)
  qed simp
  then show ?thesis using assms by (simp add: safe_def flood_subscribe_def)
qed

text \<open>What the relay relies on of libquicr's message parser: it fails by throwing a \<open>std::exception\<close>.\<close>

definition msg_throws_std :: "msg_api \<Rightarrow> bool" where
  "msg_throws_std m \<longleftrightarrow> (\<forall>bs e. m_parse m bs = Inl e \<longrightarrow> is_exception e) \<and> (\<forall>t ps e. m_get_u8 m t ps = Inl e \<longrightarrow> is_exception e)"

lemma add_client_fib_safe:
  assumes wf: "pm_wf pm" and p: "\<And>e. priority = Inl e \<Longrightarrow> is_exception e"
  shows "safe pm (add_client_fib q ref in_sess si priority pm)"
proof (cases "map_of (ib_nodes_best (pm_info_base pm)) (si_source_node_id si)")
  case None
  then show ?thesis using wf by (simp add: add_client_fib_def safe_ok)
next
  case (Some r)
  then obtain sid where l: "live_of pm r = Some sid" using best_live [OF wf] by blast
  show ?thesis
  proof (cases priority)
    case (Inl e)
    then show ?thesis using wf p by (simp add: add_client_fib_def Some l safe_fail)
  next
    case (Inr pr)
    have "safe pm' (pm_ok (if b then pm'\<lparr>pm_info_base := (pm_info_base pm')\<lparr>ib_client_fib := f\<rparr>\<rparr> else pm'))" if "pm_wf pm'" for b f pm'
      using that pm_wf_routes [OF that, of "(pm_info_base pm')\<lparr>ib_client_fib := f\<rparr>"] by (simp add: safe_def)
    then show ?thesis using wf
      by (simp add: add_client_fib_def Some l Inr Let_def)
        (intro safe_andthen safe_on_session(1) sess_methods; simp add: l case_prod_unfold)
  qed
qed

lemma subscribe_egress_safe:
  assumes "pm_wf pm" and "msg_throws_std (q_msg q)"
  shows "safe pm (subscribe_egress q ref sid si pm)"
  using assms unfolding subscribe_egress_def Let_def msg_throws_std_def
  by (auto intro!: safe_ok safe_fail safe_andthen safe_call_client add_client_fib_safe split: sum.split)

lemma unsubscribe_egress_safe:
  assumes wf: "pm_wf pm"
  shows "safe pm (unsubscribe_egress sid si pm)"
proof -
  let ?fh = "th_fullname (si_track_hash si)"
  have "safe pm (case map_of (ib_nodes_best (pm_info_base pm)) (si_source_node_id si) of
           None \<Rightarrow> pm_ok pm
         | Some r \<Rightarrow> andthen (on_session r (RemoveSubscribeSourceNode ?fh (si_source_node_id si)) pm) (\<lambda>(_, sns_removed) pm.
             if sns_removed
             then (let pm = pm\<lparr>pm_info_base := (pm_info_base pm)\<lparr>ib_client_fib :=
                              mdel (?fh, sid) (ib_client_fib (pm_info_base pm))\<rparr>\<rparr>
                   in if \<not> PM_HasSubscribers ?fh pm then call_client (CM_Peer_Unsubscribe_Track ?fh) pm else pm_ok pm)
             else pm_ok pm))"
  proof (cases "map_of (ib_nodes_best (pm_info_base pm)) (si_source_node_id si)")
    case (Some r)
    have c: "safe pm' (if b then call_client e (pm'\<lparr>pm_info_base := (pm_info_base pm')\<lparr>ib_client_fib := f\<rparr>\<rparr>)
        else pm_ok (pm'\<lparr>pm_info_base := (pm_info_base pm')\<lparr>ib_client_fib := f\<rparr>\<rparr>))" if "pm_wf pm'" for b e f pm'
      using pm_wf_routes [OF that, of "(pm_info_base pm')\<lparr>ib_client_fib := f\<rparr>"]
      by (intro safe_update [of pm' "pm'\<lparr>pm_info_base := (pm_info_base pm')\<lparr>ib_client_fib := f\<rparr>\<rparr>"]) (simp_all add: safe_call_client safe_ok)
    show ?thesis using best_live [OF wf Some] wf c
      by (simp add: Some Let_def case_prod_unfold)
        (intro safe_andthen safe_on_session(1) sess_methods; auto simp: safe_ok Let_def)
  qed (simp add: safe_ok wf)
  then show ?thesis
    unfolding unsubscribe_egress_def Let_def by (intro safe_andthen) (auto intro: safe_call_client safe_ok)
qed

lemma SubscribeInfoReceived_safe:
  assumes wf: "pm_wf pm" and q: "msg_throws_std (q_msg q)"
  shows "safe pm (SubscribeInfoReceived q ref sid si w pm) \<and> snd (SubscribeInfoReceived q ref sid si w pm) = Inr ()"
proof (cases "GetPeerSession sid pm")
  case (Inl e)
  then show ?thesis using wf GetPeerSession_exception [OF Inl] by (simp add: SubscribeInfoReceived_def safe_ok)
next
  case (Inr r)
  define a where "a = (if w then RemoveSubscribe si (pm_info_base pm) else AddSubscribe si (pm_info_base pm))"
  let ?pm = "pm\<lparr>pm_info_base := fst a\<rparr>"
  define f where "f = (if snd a then flood_subscribe (Some sid) w (?pm, si) else ((?pm, si), Inr ()))"
  have wf': "pm_wf ?pm" using wf by (rule pm_wf_routes) (simp add: a_def)
  have "safe ?pm (fst (fst f), snd f)"
    using flood_subscribe_safe [of "(?pm, si)"] wf' by (simp add: f_def safe_ok)
  then have "safe ?pm (andthen (fst (fst f), snd f) (\<lambda>_. if \<not> w then subscribe_egress q ref sid (snd (fst f)) else unsubscribe_egress sid (snd (fst f))))"
    using q by (intro safe_andthen) (simp_all add: subscribe_egress_safe unsubscribe_egress_safe)
  then have "safe pm (andthen (fst (fst f), snd f) (\<lambda>_. if \<not> w then subscribe_egress q ref sid (snd (fst f)) else unsubscribe_egress sid (snd (fst f))))"
    by (rule safe_update [rotated]) simp
  then show ?thesis
    unfolding SubscribeInfoReceived_def a_def [symmetric] Let_def case_prod_unfold f_def [symmetric]
    unfolding Inr sum.case by (rule safe_catch)
qed

text \<open>The operations the client manager starts.\<close>

lemma send_subscribe_all_safe: "pm_wf pm \<Longrightarrow> safe pm (send_subscribe_all w si pm)"
  using flood_subscribe_safe [of "(pm, si)" None w] by (simp add: send_subscribe_all_def case_prod_unfold)

lemma safe_with_routes:
  assumes "pm_wf pm" and "same_routes (pm_info_base pm) ib" and "\<And>pm'. pm_wf pm' \<Longrightarrow> safe pm' (f pm')"
  shows "safe pm (f (pm\<lparr>pm_info_base := ib\<rparr>))"
  using pm_wf_routes [OF assms(1,2)] assms(3) by (intro safe_update [of pm "pm\<lparr>pm_info_base := ib\<rparr>"]) simp_all

lemma GetSubscribe_routes: "GetSubscribe fh n ib = (ib', x) \<Longrightarrow> same_routes ib ib'"
  using subscribe_same_routes(3) [of ib fh n] by simp

lemma ClientUnsubscribe_safe:
  assumes "pm_wf pm"
  shows "safe pm (ClientUnsubscribe fh pm)"
proof -
  obtain ib x where g: "GetSubscribe fh (ni_id (pm_node_info pm)) (pm_info_base pm) = (ib, x)" by fastforce
  have "same_routes (pm_info_base pm) (fst (RemoveSubscribe si ib))" for si
    using GetSubscribe_routes [OF g] subscribe_same_routes(2) by (rule same_routes_trans)
  then show ?thesis
    using assms g GetSubscribe_routes [OF g]
    by (auto simp: ClientUnsubscribe_def intro: safe_with_routes safe_ok send_subscribe_all_safe split: option.split)
qed

lemma updated_subscribe_data_throws: "msg_throws_std (q_msg q) \<Longrightarrow> updated_subscribe_data q g d = Inl e \<Longrightarrow> is_exception e"
  by (auto simp: updated_subscribe_data_def msg_throws_std_def res_bind_def Let_def split: sum.splits prod.splits)

lemma ClientSubscribeUpdate_safe:
  assumes "pm_wf pm"
  shows "msg_throws_std (q_msg q) \<Longrightarrow> safe pm (ClientSubscribeUpdate q ns name g pm)"
proof -
  assume q: "msg_throws_std (q_msg q)"
  let ?fh = "th_fullname (h_track (q_hash q) ns name)"
  obtain ib x where g: "GetSubscribe ?fh (ni_id (pm_node_info pm)) (pm_info_base pm) = (ib, x)" by fastforce
  note s = safe_with_routes [OF assms GetSubscribe_routes [OF g]]
  show ?thesis
    unfolding ClientSubscribeUpdate_def g
    using s [of pm_ok] s [of "send_subscribe_all False _"] updated_subscribe_data_throws [OF q]
    by (auto simp: safe_ok send_subscribe_all_safe split: option.split sum.split)
qed

lemma ClientSubscribe_safe: "pm_wf pm \<Longrightarrow> safe pm (ClientSubscribe q ns name d pm)"
  by (auto simp: ClientSubscribe_def Let_def intro: safe_ok safe_with_routes send_subscribe_all_safe)

lemma match_subscribe_safe:
  assumes "pm_wf pm" and q: "msg_throws_std (q_msg q)"
  shows "safe pm (match_subscribe q ref ns sub pm)"
proof -
  have "safe pm (case m_parse (q_msg q) (si_subscribe_data (snd sub)) of
           Inl e \<Rightarrow> pm_fail e pm
         | Inr (_, track_namespace, track_name, parameters) \<Rightarrow>
             if \<not> m_same_prefix (q_msg q) ns track_namespace \<or> si_source_node_id (snd sub) = ni_id (pm_node_info pm) then pm_ok pm
             else andthen
               (if pm_client_manager pm
                then call_client (CM_Process_Subscribe (si_track_hash (snd sub)) track_namespace track_name
                       (if list_ex (\<lambda>p. fst p = kNewGroupRequest) parameters then Some 1 else None)) pm
                else pm_ok pm)
               (\<lambda>_. add_client_fib q ref None (snd sub) (m_get_u8 (q_msg q) kSubscriberPriority parameters)))"
    using assms(1) q [unfolded msg_throws_std_def]
    by (auto intro!: safe_ok safe_fail safe_andthen safe_call_client add_client_fib_safe split: sum.split)
  then show ?thesis using assms(1) safe_catch unfolding match_subscribe_def by (auto intro: safe_ok)
qed

lemma ClientAnnounce_safe:
  assumes "pm_wf pm" and "msg_throws_std (q_msg q)"
  shows "safe pm (ClientAnnounce q ref ns name w p pm)"
proof -
  define ai where "ai = local_announce q ns name p pm"
  define ib where "ib = fst (if \<not> w then AddAnnounce (q_hash q) ai (pm_info_base pm) else RemoveAnnounce (q_hash q) ai (pm_info_base pm))"
  let ?step = "\<lambda>pm. andthen (foreach (announce_to ai w) (all_sessions pm) pm) (\<lambda>_ pm. if w then pm_ok pm
      else foreach (\<lambda>(_, subs). foreach (match_subscribe q ref ns) subs) (ib_subscribes (pm_info_base pm)) pm)"
  have "safe pm' (?step pm')" if "pm_wf pm'" for pm'
    using that assms(2)
    by (auto intro!: safe_andthen announce_all_safe safe_ok safe_foreach match_subscribe_safe split: prod.split)
  moreover have "same_routes (pm_info_base pm) ib" by (simp add: ib_def)
  ultimately have "safe pm (?step (pm\<lparr>pm_info_base := ib\<rparr>))" using assms(1) by (intro safe_with_routes [where f = ?step]) blast+
  then show ?thesis unfolding ClientAnnounce_def Let_def ai_def [symmetric] ib_def [symmetric] .
qed

lemma sync_node_safe: "pm_wf pm \<Longrightarrow> live_of pm r \<noteq> None \<Longrightarrow> safe pm (sync_node q r item pm)"
  by (auto simp: sync_node_def live_of_def Let_def intro!: safe_ok safe_session_do sess_methods split: option.split)

lemma sync_announce_safe: "pm_wf pm \<Longrightarrow> live_of pm r \<noteq> None \<Longrightarrow> safe pm (sync_announce r ai pm)"
  by (auto simp: sync_announce_def live_of_def intro!: safe_ok safe_session_do sess_methods split: option.split)

lemma sync_subscribe_safe:
  assumes "pm_wf pm" and "live_of pm r \<noteq> None"
  shows "safe pm (sync_subscribe r fh sub pm)"
proof -
  have put: "safe pm' (pm_ok (pm'\<lparr>pm_info_base := (pm_info_base pm')\<lparr>ib_subscribes := f\<rparr>\<rparr>))" if "pm_wf pm'" for pm' f
    using pm_wf_routes [OF that, of "(pm_info_base pm')\<lparr>ib_subscribes := f\<rparr>"] by (simp add: safe_def)
  obtain s where "map_of (pm_sessions pm) r = Some s" using assms(2) by (auto simp: live_of_def)
  then show ?thesis using assms put
    by (auto simp: sync_subscribe_def intro!: safe_ok safe_andthen safe_on_session sess_methods)
qed

lemma InfoBaseSyncPeer_safe:
  assumes "pm_wf pm" and "live_of pm r \<noteq> None"
  shows "safe pm (InfoBaseSyncPeer q r pm)"
proof -
  obtain sid where "live_of pm r = Some sid" using assms(2) by auto
  then show ?thesis unfolding InfoBaseSyncPeer_def using assms(1)
    by (auto intro!: safe_andthen safe_foreach sync_node_safe sync_announce_safe sync_subscribe_safe
        simp: pm_keep_live split: prod.split)
qed

section \<open>What goes out\<close>

text \<open>
  A loop that sends to the sessions: each send appends what the session and the message determine and
  leaves everything else alone.
\<close>

definition sess_of :: "PeerManager \<Rightarrow> u64 \<times> sref \<Rightarrow> PeerSession" where
  "sess_of pm e = the (map_of (pm_sessions pm) (snd e))"

lemma sess_of_update [simp]: "sess_of (pm\<lparr>pm_log := log\<rparr>) = sess_of pm" "sess_of (pm\<lparr>pm_info_base := ib\<rparr>) = sess_of pm"
  by (simp_all add: sess_of_def fun_eq_iff)

locale session_send =
  fixes send :: "u64 \<times> sref \<Rightarrow> PeerManager \<Rightarrow> unit pm_res" and out :: "u64 \<Rightarrow> PeerSession \<Rightarrow> event list"
  assumes send_live: "msorted (pm_sessions pm) \<Longrightarrow> map_of (pm_sessions pm) (snd e) = Some s \<Longrightarrow>
      send e pm = pm_ok (pm\<lparr>pm_log := pm_log pm @ out (fst e) s\<rparr>)"
begin

lemma send_all:
  assumes "msorted (pm_sessions pm)" and "\<forall>e \<in> set es. map_of (pm_sessions pm) (snd e) \<noteq> None"
  shows "foreach send es pm = pm_ok (pm\<lparr>pm_log := pm_log pm @ concat (map (\<lambda>e. out (fst e) (sess_of pm e)) es)\<rparr>)"
  using assms
proof (induction es arbitrary: pm)
  case (Cons e es)
  then obtain s where s: "map_of (pm_sessions pm) (snd e) = Some s" by auto
  then show ?case using Cons send_live [OF Cons.prems(1) s] s by (simp add: sess_of_def)
qed simp

lemma send_sessions:
  assumes "pm_wf pm"
  shows "foreach send (all_sessions pm) pm =
    pm_ok (pm\<lparr>pm_log := pm_log pm @ concat (map (\<lambda>e. out (fst e) (sess_of pm e)) (all_sessions pm))\<rparr>)"
proof (rule send_all)
  show "msorted (pm_sessions pm)" using assms by (simp add: pm_wf_def)
  show "\<forall>e \<in> set (all_sessions pm). map_of (pm_sessions pm) (snd e) \<noteq> None"
    using wf_session_live [OF assms] by (fastforce simp: live_of_def)
qed

end

text \<open>One message on the control stream if the session is connected.\<close>

definition if_connected :: "PeerSession \<Rightarrow> bytes \<Rightarrow> event list" where
  "if_connected s data = (if ps_status s = S_Connected then [control_message s data] else [])"

lemma session_do_same:
  assumes "msorted (pm_sessions pm)" and "map_of (pm_sessions pm) r = Some s" and "f (s, pm_log pm) = (s, pm_log pm @ evs)"
  shows "session_do r f pm = pm_ok (pm\<lparr>pm_log := pm_log pm @ evs\<rparr>)"
  using assms by (simp add: session_do_def on_session_def mput_same)

lemma send_eqs:
  "SendNodeInfo uv ni w (s, log) = (s, log @ if_connected s (NodeInfo_Serialize uv ni True w))"
  "SendAnnounceInfo ai w (s, log) = (s, log @ if_connected s (AnnounceInfo_Serialize ai True w))"
  "SendSubscribeInfo si w (s, log) = (case SubscribeInfo_Serialize si True w (ni_id (ps_node_info s) = si_source_node_id si) of
     (si', data) \<Rightarrow> ((s, log @ if_connected s data), if ps_status s = S_Connected then si' else si))"
  by (simp_all add: SendNodeInfo_def SendAnnounceInfo_def SendSubscribeInfo_def if_connected_def send_control_def sess_emit_def
      control_message_def case_prod_unfold)

interpretation nodes_out: session_send "propagate_to q ni w"
  "\<lambda>_ s. if skip_node ni (ps_remote_node_info s) then [] else if_connected s (NodeInfo_Serialize (q_uintvar q) ni True w)" for q ni w
  by unfold_locales (simp add: propagate_to_def session_do_same send_eqs)

interpretation announces_out: session_send "announce_to ai w" "\<lambda>_ s. if_connected s (AnnounceInfo_Serialize ai True w)" for ai w
  by unfold_locales (simp add: announce_to_def session_do_same send_eqs)

interpretation announces_flood: session_send "\<lambda>sess pm. if fst sess \<noteq> ing then announce_to ai w sess pm else pm_ok pm"
  "\<lambda>sid s. if sid = ing then [] else if_connected s (AnnounceInfo_Serialize ai True w)" for ing ai w
  by unfold_locales (simp add: announces_out.send_live)

lemma skip_node_iff: "skip_node a b \<longleftrightarrow> ni_id a = 0 \<or> ni_id b \<in> {0, ni_id a} \<union> pi_id ` set (ni_path a)"
proof -
  have "list_ex (\<lambda>npi. pi_id npi = n) path \<longleftrightarrow> n \<in> pi_id ` set path" for n path by (induction path) auto
  then show ?thesis unfolding skip_node_def by auto
qed

lemma concat_if_singleton: "concat (map (\<lambda>x. if P x then [f x] else []) xs) = map f (filter P xs)"
  by (induction xs) auto

section \<open>Properties\<close>

text \<open>Node information never loops back along its path.  On a running manager \<open>PropagateNodeInfo\<close>
  returns, and what it puts on the wire is exactly one node info message on the control stream of each
  connected session, outbound ones first, except those whose remote relay is the node itself, is on the
  node's path, or has not introduced itself yet; it changes nothing else.\<close>

theorem node_info_flood:
  assumes "pm_wf pm"
  shows "PropagateNodeInfo q ni w pm = pm_ok (pm\<lparr>pm_log := pm_log pm @
      map (\<lambda>e. control_message (sess_of pm e) (NodeInfo_Serialize (q_uintvar q) ni True w))
        (filter (\<lambda>e. ps_status (sess_of pm e) = S_Connected \<and> ni_id ni \<noteq> 0
             \<and> ni_id (ps_remote_node_info (sess_of pm e)) \<notin> {0, ni_id ni} \<union> pi_id ` set (ni_path ni)) (all_sessions pm))\<rparr>)"
proof -
  let ?keep = "\<lambda>e. ps_status (sess_of pm e) = S_Connected \<and> ni_id ni \<noteq> 0
             \<and> ni_id (ps_remote_node_info (sess_of pm e)) \<notin> {0, ni_id ni} \<union> pi_id ` set (ni_path ni)"
  have "(if skip_node ni (ps_remote_node_info (sess_of pm e)) then [] else if_connected (sess_of pm e) d) =
      (if ?keep e then [control_message (sess_of pm e) d] else [])" for e d
    by (simp add: skip_node_iff if_connected_def)
  then show ?thesis
    unfolding PropagateNodeInfo_def nodes_out.send_sessions [OF assms] by (simp add: concat_if_singleton)
qed

definition plain_msg :: msg_api where
  "plain_msg = \<lparr>m_parse = (\<lambda>bs. case bs of [] \<Rightarrow> Inl Std_Out_Of_Range | b # rest \<Rightarrow> Inr (ucast b, [[b]], rest, [(kSubscriberPriority, [1])])),
     m_build = (\<lambda>r ns name ps. ucast r # name @ concat (map snd ps)),
     m_get_u8 = (\<lambda>t ps. case map_of ps t of Some [b] \<Rightarrow> Inr b | _ \<Rightarrow> Inl Std_Invalid_Argument),
     m_get_optional = (\<lambda>t ps. map_option (\<lambda>bs. word_of_nat (le_val bs)) (map_of ps t)),
     m_add_optional = (\<lambda>t v ps. case v of None \<Rightarrow> ps | Some x \<Rightarrow> ps @ [(t, put_int x)]),
     m_add = (\<lambda>t v ps. ps @ [(t, case v of None \<Rightarrow> [] | Some x \<Rightarrow> put_int x)]),
     m_same_prefix = (\<lambda>a b. a = take (length a) b)\<rparr>"

definition sample_quicr :: quicr_api where
  "sample_quicr = \<lparr>q_transport = sample_transport, q_uintvar = quic_varint, q_hash = plain_hash, q_msg = plain_msg, q_namespace = Inr\<rparr>"

lemma plain_msg_throws: "msg_throws_std (q_msg sample_quicr)"
  by (auto simp: msg_throws_std_def sample_quicr_def plain_msg_def split: list.splits option.splits)

text \<open>An outbound session 20 to node 5 and an inbound session 10 from node 3.\<close>

definition sample_peer :: "bool \<Rightarrow> u64 \<Rightarrow> u64 \<Rightarrow> PeerSession" where
  "sample_peer inbound conn remote = (PeerSession_make inbound conn sample_node)
     \<lparr>ps_status := S_Connected, ps_remote_node_info := NodeInfo_default\<lparr>ni_id := remote\<rparr>\<rparr>"

definition sample_manager :: PeerManager where
  "sample_manager = \<lparr>pm_info_base = InfoBase_init, pm_sessions = [(0, sample_peer True 10 3), (1, sample_peer False 20 5)],
     pm_next = 2, pm_server = [(10, 0)], pm_client = [(20, 1)], pm_node_info = sample_node, pm_client_manager = True,
     pm_stop = False, pm_state = \<lparr>st_pub_namespace_active = [], st_pub_subscribes = []\<rparr>, pm_log = []\<rparr>"

lemma sample_manager_wf: "pm_wf sample_manager"
  by (simp add: pm_wf_def ib_wf_init sample_manager_def all_sessions_def live_of_def sample_peer_def PeerSession_make_def msorted_Cons InfoBase_init_def)
    (simp add: InfoBase_init_def [symmetric] ib_wf_init)

theorem node_info_flood_witness:
  defines "ni \<equiv> NodeInfo_default\<lparr>ni_id := 8, ni_path := [\<lparr>pi_id = 5, pi_srtt_us = 1\<rparr>]\<rparr>"
  shows "pm_log (fst (PropagateNodeInfo sample_quicr ni False sample_manager)) =
    [control_message (sample_peer True 10 3) (NodeInfo_Serialize quic_varint ni True False)]"
  using node_info_flood [OF sample_manager_wf, of sample_quicr ni False]
  by (simp add: ni_def sample_manager_def all_sessions_def sess_of_def sample_peer_def sample_quicr_def NodeInfo_default_def)

text \<open>Node information is echoed to the relay it came from.  When the information of a node that was
  learned from a neighbour makes the neighbour the best way to the node, the relay passes it on with the
  node's own identifier appended to the path instead of the neighbour's.  The neighbour is therefore not on
  the path, and gets its own information back.\<close>

theorem node_info_echoed:
  assumes wf: "pm_wf pm" and r: "GetPeerSession sid pm = Inr r" and s: "map_of (pm_sessions pm) r = Some s"
    and con: "ps_status s = S_Connected"
    and best: "snd (AddNode (live_of pm) r ni (pm_info_base pm)) = Inr True"
    and ids: "ni_id ni \<noteq> 0" "ni_id (ps_remote_node_info s) \<noteq> 0" "ni_id (ps_remote_node_info s) \<noteq> ni_id ni"
    and path: "ni_id (ps_remote_node_info s) \<notin> pi_id ` set (ni_path ni)"
  shows "control_message s (NodeInfo_Serialize (q_uintvar q) (via (ni_id ni) (ps_srtt_us s) ni) True False)
     \<in> set (pm_log (fst (NodeReceived q sid ni False pm)))"
proof -
  define pm1 where "pm1 = fst (on_info_base (AddNode (live_of pm) r ni) pm)"
  have "safe pm (on_info_base (AddNode (live_of pm) r ni) pm)"
    by (rule AddNode_step_safe [OF wf GetPeerSession_live [OF wf r]])
  then have wf1: "pm_wf pm1" by (simp add: safe_def pm1_def)
  have p1: "pm1 = pm\<lparr>pm_info_base := pm_info_base pm1\<rparr>" by (simp add: pm1_def on_info_base_def case_prod_unfold)
  have ev: "on_info_base (AddNode (live_of pm) r ni) pm = (pm1, Inr True)"
    using best by (simp add: pm1_def on_info_base_def case_prod_unfold)
  have "(sid, r) \<in> set (all_sessions pm)"
    using r by (auto simp: GetPeerSession_def all_sessions_def dest: map_of_SomeD split: option.splits)
  then have mem: "(sid, r) \<in> set (all_sessions pm1)" and so: "sess_of pm1 (sid, r) = s"
    using s by (subst p1, simp, subst p1, simp add: sess_of_def)
  have v: "ni_id (via a b ni) = ni_id ni" "pi_id ` set (ni_path (via a b ni)) = insert a (pi_id ` set (ni_path ni))" for a b
    by (simp_all add: via_def)
  have N: "NodeReceived q sid ni False pm = PropagateNodeInfo q (via (ni_id ni) (ps_srtt_us s) ni) False pm1"
    using nodes_out.send_sessions [OF wf1] by (simp add: NodeReceived_def r s ev PropagateNodeInfo_def)
  show ?thesis
    unfolding N PropagateNodeInfo_def nodes_out.send_sessions [OF wf1]
    using mem so con ids path by (force simp: skip_node_iff v if_connected_def)
qed

text \<open>Node 9 is learned from node 3 with an empty path, and node 3 is told about node 9.\<close>

theorem node_info_echoed_witness:
  "control_message (sample_peer True 10 3) (NodeInfo_Serialize quic_varint (via 9 0 (NodeInfo_default\<lparr>ni_id := 9\<rparr>)) True False)
     \<in> set (pm_log (fst (NodeReceived sample_quicr 10 (NodeInfo_default\<lparr>ni_id := 9\<rparr>) False sample_manager)))"
proof -
  let ?ni = "NodeInfo_default\<lparr>ni_id := 9\<rparr>"
  have b: "snd (AddNode (live_of sample_manager) 0 ?ni (pm_info_base sample_manager)) = Inr True"
    by code_simp
  show ?thesis
    using node_info_echoed [OF sample_manager_wf _ _ _ b, of 10 "sample_peer True 10 3" sample_quicr]
    by (simp add: sample_manager_def GetPeerSession_def sample_peer_def PeerSession_make_def NodeInfo_default_def sample_quicr_def)
qed

text \<open>The sessions that lead away from a node: the peer is not the node, and the node has not been heard of through the session.\<close>

definition leads_away :: "u64 \<Rightarrow> PeerManager \<Rightarrow> u64 \<times> sref \<Rightarrow> bool" where
  "leads_away n pm e \<longleftrightarrow> ni_id (ps_remote_node_info (sess_of pm e)) \<noteq> n \<and> map_of (ib_nodes (pm_info_base pm)) (n, fst e) = None"

text \<open>An announce or withdrawal that changes the announce table is sent to every connected session but the one it came from, in the order of the
  session maps, and then reported to the client manager; one that changes nothing is neither sent nor reported.\<close>

lemma announce_flood_all:
  fixes q :: quicr_api and ai :: AnnounceInfo and w :: bool
  assumes wf: "pm_wf pm" and r: "GetPeerSession sid pm = Inr r"
  defines "a \<equiv> if w then RemoveAnnounce (q_hash q) ai (pm_info_base pm) else AddAnnounce (q_hash q) ai (pm_info_base pm)"
  shows "AnnounceInfoReceived q sid ai w pm = pm_ok (pm\<lparr>pm_info_base := fst a, pm_log := pm_log pm @
      (if snd a then map (\<lambda>e. control_message (sess_of pm e) (AnnounceInfo_Serialize ai True w))
           (filter (\<lambda>e. fst e \<noteq> sid \<and> ps_status (sess_of pm e) = S_Connected) (all_sessions pm)) @ [announce_call q ai w]
       else [])\<rparr>)"
proof -
  let ?pm = "pm\<lparr>pm_info_base := fst a\<rparr>"
  have wf': "pm_wf ?pm" using wf by (rule pm_wf_routes) (simp add: a_def)
  have cm: "pm_client_manager pm" using wf by (simp add: pm_wf_def)
  have flood: "flood_announce sid ai w ?pm = pm_ok (?pm\<lparr>pm_log := pm_log pm @
      map (\<lambda>e. control_message (sess_of pm e) (AnnounceInfo_Serialize ai True w))
        (filter (\<lambda>e. fst e \<noteq> sid \<and> ps_status (sess_of pm e) = S_Connected) (all_sessions pm))\<rparr>)"
  proof -
    have "(if fst e = sid then [] else if_connected s d) =
        (if fst e \<noteq> sid \<and> ps_status s = S_Connected then [control_message s d] else [])" for e :: "u64 \<times> sref" and s d
      by (simp add: if_connected_def)
    then show ?thesis
      unfolding flood_announce_def announces_flood.send_sessions [OF wf'] by (simp add: concat_if_singleton)
  qed
  have a': "(if \<not> w then AddAnnounce (q_hash q) ai (pm_info_base pm) else RemoveAnnounce (q_hash q) ai (pm_info_base pm)) = a"
    by (simp add: a_def)
  show ?thesis
    unfolding AnnounceInfoReceived_def a' Let_def case_prod_unfold r sum.case
    by (cases "snd a") (simp_all add: flood call_client_def cm)
qed

text \<open>C29. Announces are flooded once and not sent back.  Let a peer advertise an announce, and let no other session lead towards the node that made
  it.  If the announce is new, it is sent to every connected session that leads away from its source, but not where it came from, in the
  order of the session maps, and then reported to the client manager; one that was seen before is neither sent nor reported.  In both
  cases the handler returns and the rest of the manager is unchanged.  (A session that does lead towards the source gets
  the announce too: \<open>announce_reaches_source\<close>.  Withdrawals, which the client manager passes on to all sessions once more, are not meant
  here.)\<close>

theorem announce_flood:
  fixes q :: quicr_api and ai :: AnnounceInfo
  assumes wf: "pm_wf pm" and r: "GetPeerSession sid pm = Inr r"
    and away: "\<forall>e \<in> set (all_sessions pm). fst e \<noteq> sid \<longrightarrow> leads_away (ai_source_node_id ai) pm e"
  defines "a \<equiv> AddAnnounce (q_hash q) ai (pm_info_base pm)"
  shows "AnnounceInfoReceived q sid ai False pm = pm_ok (pm\<lparr>pm_info_base := fst a, pm_log := pm_log pm @
      (if snd a then map (\<lambda>e. control_message (sess_of pm e) (AnnounceInfo_Serialize ai True False))
           (filter (\<lambda>e. fst e \<noteq> sid \<and> leads_away (ai_source_node_id ai) pm e \<and> ps_status (sess_of pm e) = S_Connected) (all_sessions pm))
           @ [announce_call q ai False]
       else [])\<rparr>)"
proof -
  have "filter (\<lambda>e. fst e \<noteq> sid \<and> leads_away (ai_source_node_id ai) pm e \<and> ps_status (sess_of pm e) = S_Connected) (all_sessions pm)
      = filter (\<lambda>e. fst e \<noteq> sid \<and> ps_status (sess_of pm e) = S_Connected) (all_sessions pm)"
    using away by (intro filter_cong) auto
  then show ?thesis using announce_flood_all [OF wf r, of q ai False] by (simp add: a_def)
qed

lemma announce_reaches_source:
  assumes "pm_wf pm" and "GetPeerSession sid pm = Inr r" and "snd (AddAnnounce (q_hash q) ai (pm_info_base pm))"
    and "e \<in> set (all_sessions pm)" "fst e \<noteq> sid" "ps_status (sess_of pm e) = S_Connected"
    and "ni_id (ps_remote_node_info (sess_of pm e)) = ai_source_node_id ai"
  shows "control_message (sess_of pm e) (AnnounceInfo_Serialize ai True False) \<in> set (pm_log (fst (AnnounceInfoReceived q sid ai False pm)))"
  using assms announce_flood_all [OF assms(1,2), of q ai False] by auto

theorem announce_flood_witness:
  "pm_log (fst (AnnounceInfoReceived sample_quicr 10 (AnnounceInfo_make 3 [[1]] [] False) False sample_manager)) =
     [control_message (sample_peer False 20 5) (AnnounceInfo_Serialize (AnnounceInfo_make 3 [[1]] [] False) True False), CM_Publish_Namespace_Received [[1]] 1]"
proof -
  let ?ai = "AnnounceInfo_make 3 [[1]] [] False"
  have a: "snd (AddAnnounce (q_hash sample_quicr) ?ai (pm_info_base sample_manager))" by code_simp
  have away: "\<forall>e \<in> set (all_sessions sample_manager). fst e \<noteq> 10 \<longrightarrow> leads_away (ai_source_node_id ?ai) sample_manager e"
    by (simp add: leads_away_def sample_manager_def all_sessions_def sess_of_def sample_peer_def AnnounceInfo_make_def InfoBase_init_def)
  have g: "GetPeerSession 10 sample_manager = Inr 0" by code_simp
  show ?thesis
    using announce_flood [OF sample_manager_wf g away, of sample_quicr] a
    by (simp add: sample_manager_def all_sessions_def sess_of_def sample_peer_def announce_call_def AnnounceInfo_make_def leads_away_def InfoBase_init_def
        sample_quicr_def plain_hash_def Let_def)
qed

text \<open>The operations that come from peers and clients while the sessions stay up.\<close>

inductive ctl_step :: "quicr_api \<Rightarrow> PeerManager \<Rightarrow> PeerManager \<Rightarrow> bool" for q where
  ctl_node: "ctl_step q pm (fst (NodeReceived q sid ni w pm))"
| ctl_subscribe: "ctl_step q pm (fst (SubscribeInfoReceived q ref sid si w pm))"
| ctl_announce: "ctl_step q pm (fst (AnnounceInfoReceived q sid ai w pm))"
| ctl_sync: "GetPeerSession sid pm = Inr r \<Longrightarrow> ctl_step q pm (fst (InfoBaseSyncPeer q r pm))"
| ctl_client_subscribe: "ctl_step q pm (fst (ClientSubscribe q ns name d pm))"
| ctl_client_update: "ctl_step q pm (fst (ClientSubscribeUpdate q ns name g pm))"
| ctl_client_unsubscribe: "ctl_step q pm (fst (ClientUnsubscribe fh pm))"
| ctl_client_announce: "ctl_step q pm (fst (ClientAnnounce q ref ns name w p pm))"

inductive ctl_reach :: "quicr_api \<Rightarrow> PeerManager \<Rightarrow> PeerManager \<Rightarrow> bool" for q pm where
  ctl_refl: "ctl_reach q pm pm"
| ctl_trans: "ctl_reach q pm pm' \<Longrightarrow> ctl_step q pm' pm'' \<Longrightarrow> ctl_reach q pm pm''"

inductive_cases ctl_stepE: "ctl_step q pm pm'"

lemma ctl_step_keeps:
  assumes "ctl_step q pm pm'" and "msg_throws_std (q_msg q)" and "pm_wf pm"
  shows "pm_keep pm pm' \<and> pm_wf pm'"
  using assms(1)
proof cases
  case (ctl_sync sid r)
  then show ?thesis using InfoBaseSyncPeer_safe [OF assms(3), of r q] GetPeerSession_live [OF assms(3)] by (simp add: safe_def)
qed (use assms(2,3) NodeReceived_safe SubscribeInfoReceived_safe AnnounceInfoReceived_safe ClientSubscribe_safe
      ClientSubscribeUpdate_safe ClientUnsubscribe_safe ClientAnnounce_safe in \<open>simp_all add: safe_def\<close>)

lemma ctl_reach_keeps: "ctl_reach q pm pm' \<Longrightarrow> msg_throws_std (q_msg q) \<Longrightarrow> pm_wf pm \<Longrightarrow> pm_keep pm pm' \<and> pm_wf pm'"
proof (induction rule: ctl_reach.induct)
  case (ctl_trans pm' pm'')
  then show ?case using ctl_step_keeps pm_keep_trans by blast
qed simp

text \<open>C3. Control traffic does not bring the relay down.  Start from a running manager and let any sequence
  of received node infos, subscribes, announces, withdrawals of any content, synchronisations and client
  operations happen while the sessions stay up.  The manager then still runs, its log has only grown, and the
  next node info, subscribe info or announce is handled to the end: no expired session is dereferenced, no
  table lookup fails, every exception (an unknown session, an unreadable subscribe message) is caught.\<close>

theorem control_traffic_safe:
  assumes "ctl_reach q pm0 pm" and "msg_throws_std (q_msg q)" and "pm_wf pm0"
  shows "pm_wf pm \<and> pm_keep pm0 pm
    \<and> snd (NodeReceived q sid ni w pm) = Inr ()
    \<and> snd (SubscribeInfoReceived q ref sid si w pm) = Inr ()
    \<and> snd (AnnounceInfoReceived q sid ai w pm) = Inr ()"
  using ctl_reach_keeps [OF assms] NodeReceived_safe SubscribeInfoReceived_safe [OF _ assms(2)] AnnounceInfoReceived_safe
  by (metis (no_types))

theorem control_traffic_safe_witness:
  "snd (SubscribeInfoReceived sample_quicr 1 10 \<lparr>si_seq = 1, si_source_node_id = 3, si_track_hash = \<lparr>th_namespace = 1, th_name = 2, th_fullname = 3\<rparr>,
      si_subscribe_data = []\<rparr> False (fst (NodeReceived sample_quicr 10 sample_node False sample_manager))) = Inr ()"
  using control_traffic_safe [OF ctl_trans [OF ctl_refl ctl_node] plain_msg_throws sample_manager_wf] by blast

text \<open>Flooding a subscribe info: each send of the originating relay takes the next sequence number.\<close>

fun subscribe_out :: "bool \<Rightarrow> SubscribeInfo \<Rightarrow> PeerSession list \<Rightarrow> event list \<times> SubscribeInfo" where
  "subscribe_out w si [] = ([], si)"
| "subscribe_out w si (s # ss) =
     (if ps_status s \<noteq> S_Connected then subscribe_out w si ss
      else case SubscribeInfo_Serialize si True w (ni_id (ps_node_info s) = si_source_node_id si) of (si', data) \<Rightarrow>
        case subscribe_out w si' ss of (evs, si'') \<Rightarrow> (control_message s data # evs, si''))"

lemma subscribe_to_live:
  assumes "msorted (pm_sessions pm)" and "map_of (pm_sessions pm) (snd e) = Some s"
  shows "subscribe_to w e (pm, si) = (case subscribe_out w si [s] of (evs, si') \<Rightarrow> ((pm\<lparr>pm_log := pm_log pm @ evs\<rparr>, si'), Inr ()))"
  using assms by (simp add: subscribe_to_def on_session_def send_eqs case_prod_unfold if_connected_def mput_same)

lemma subscribe_out_Cons: "subscribe_out w si (s # ss) =
    (case subscribe_out w si [s] of (evs, si') \<Rightarrow> case subscribe_out w si' ss of (evs', si'') \<Rightarrow> (evs @ evs', si''))"
  by (simp add: case_prod_unfold)

lemma flood_subscribe_loop:
  assumes "msorted (pm_sessions pm)" and "\<forall>e \<in> set es. map_of (pm_sessions pm) (snd e) \<noteq> None"
  shows "foreach (\<lambda>sess st. if Some (fst sess) \<noteq> ing then subscribe_to w sess st else (st, Inr ())) es (pm, si) =
    (case subscribe_out w si (map (sess_of pm) (filter (\<lambda>e. Some (fst e) \<noteq> ing) es)) of
       (evs, si') \<Rightarrow> ((pm\<lparr>pm_log := pm_log pm @ evs\<rparr>, si'), Inr ()))"
  using assms
proof (induction es arbitrary: pm si)
  case (Cons e es)
  then obtain s where s: "map_of (pm_sessions pm) (snd e) = Some s" by auto
  show ?case
  proof (cases "Some (fst e) = ing")
    case False
    obtain evs si' where o1: "subscribe_out w si [s] = (evs, si')" by fastforce
    then have "subscribe_to w e (pm, si) = ((pm\<lparr>pm_log := pm_log pm @ evs\<rparr>, si'), Inr ())"
      using subscribe_to_live [OF Cons.prems(1) s] by simp
    moreover have "sess_of pm e = s" using s by (simp add: sess_of_def)
    moreover have "subscribe_out w si (s # rest) = (case subscribe_out w si' rest of (evs', si'') \<Rightarrow> (evs @ evs', si''))" for rest
      by (subst subscribe_out_Cons) (simp add: o1 del: subscribe_out.simps(2))
    ultimately show ?thesis using False Cons.IH [of "pm\<lparr>pm_log := pm_log pm @ evs\<rparr>" si'] Cons.prems
      by (simp add: case_prod_unfold del: subscribe_out.simps(2))
  qed (use Cons in simp)
qed simp

lemma flood_subscribe_eq:
  assumes "pm_wf pm"
  shows "flood_subscribe ing w (pm, si) =
    (case subscribe_out w si (map (sess_of pm) (filter (\<lambda>e. Some (fst e) \<noteq> ing) (all_sessions pm))) of
       (evs, si') \<Rightarrow> ((pm\<lparr>pm_log := pm_log pm @ evs\<rparr>, si'), Inr ()))"
proof -
  have "\<forall>e \<in> set (all_sessions pm). map_of (pm_sessions pm) (snd e) \<noteq> None"
    using wf_session_live [OF assms] by (fastforce simp: live_of_def)
  moreover have "msorted (pm_sessions pm)" using assms by (simp add: pm_wf_def)
  ultimately show ?thesis unfolding flood_subscribe_def by (simp add: flood_subscribe_loop)
qed

definition subscribe_message :: "bool \<Rightarrow> SubscribeInfo \<Rightarrow> u16 \<Rightarrow> PeerSession \<Rightarrow> event" where
  "subscribe_message w si seq s = control_message s (snd (SubscribeInfo_Serialize (si\<lparr>si_seq := seq\<rparr>) True w False))"

text \<open>A relay that passes a subscribe on sends the same message everywhere; the origin numbers them.\<close>

lemma subscribe_out_relayed: "(\<forall>s \<in> set ss. ni_id (ps_node_info s) \<noteq> si_source_node_id si) \<Longrightarrow>
    subscribe_out w si ss = (map (subscribe_message w si (si_seq si)) (filter (\<lambda>s. ps_status s = S_Connected) ss), si)"
  by (induction ss) (auto simp: SubscribeInfo_Serialize_def subscribe_message_def Let_def)

lemma enumerate_Suc: "enumerate (Suc n) xs = map (\<lambda>(k, x). (Suc k, x)) (enumerate n xs)"
  by (induction xs arbitrary: n) auto

lemma subscribe_out_origin: "(\<forall>s \<in> set ss. ni_id (ps_node_info s) = si_source_node_id si) \<Longrightarrow>
    fst (subscribe_out w si ss) =
      map (\<lambda>(k, s). subscribe_message w si (si_seq si + 1 + word_of_nat k) s) (enumerate 0 (filter (\<lambda>s. ps_status s = S_Connected) ss))"
proof (induction ss arbitrary: si)
  case (Cons s ss)
  show ?case
  proof (cases "ps_status s = S_Connected")
    case True
    let ?si = "si\<lparr>si_seq := bump_seq (si_seq si)\<rparr>"
    have "fst (subscribe_out w ?si ss) =
        map (\<lambda>(k, s). subscribe_message w ?si (si_seq ?si + 1 + word_of_nat k) s) (enumerate 0 (filter (\<lambda>s. ps_status s = S_Connected) ss))"
      by (rule Cons.IH) (use Cons.prems in simp)
    then show ?thesis using True Cons.prems
      by (simp add: SubscribeInfo_Serialize_def Let_def case_prod_unfold subscribe_message_def bump_seq_wrap add_ac
          enumerate_Suc)
  qed (use Cons in simp)
qed simp

text \<open>The sessions carry this relay's own node information, as the constructor calls pass it.\<close>

definition own_sessions :: "PeerManager \<Rightarrow> bool" where
  "own_sessions pm \<longleftrightarrow> (\<forall>e \<in> set (all_sessions pm). ni_id (ps_node_info (sess_of pm e)) = ni_id (pm_node_info pm))"

definition connected :: "PeerManager \<Rightarrow> PeerSession list" where
  "connected pm = filter (\<lambda>s. ps_status s = S_Connected) (map (sess_of pm) (all_sessions pm))"

lemma connected_log [simp]: "connected (pm\<lparr>pm_log := l\<rparr>) = connected pm" "connected (pm\<lparr>pm_info_base := ib\<rparr>) = connected pm"
  by (simp_all add: connected_def)

lemma send_subscribe_all_origin:
  assumes "pm_wf pm" and "own_sessions pm" and "si_source_node_id si = ni_id (pm_node_info pm)"
  shows "send_subscribe_all w si pm = pm_ok (pm\<lparr>pm_log := pm_log pm @
      map (\<lambda>(k, s). subscribe_message w si (si_seq si + 1 + word_of_nat k) s) (enumerate 0 (connected pm))\<rparr>)"
proof -
  have "\<forall>s \<in> set (map (sess_of pm) (all_sessions pm)). ni_id (ps_node_info s) = si_source_node_id si"
    using assms(2,3) by (auto simp: own_sessions_def)
  from subscribe_out_origin [OF this, of w] show ?thesis
    by (simp add: send_subscribe_all_def flood_subscribe_eq [OF assms(1)] case_prod_unfold connected_def)
qed

lemma AddSubscribe_GetSubscribe:
  assumes "subscription ib (th_fullname (si_track_hash si)) (si_source_node_id si) = None"
  shows "snd (GetSubscribe (th_fullname (si_track_hash si)) (si_source_node_id si) (fst (AddSubscribe si ib))) = Some si"
  using assms by (simp add: GetSubscribe_def AddSubscribe_eq Let_def subscription_def mat_def split: option.split)

text \<open>A subscribe update reuses the sequence numbers of the subscribe.  \<open>ClientSubscribe\<close> stores the
  subscribe with sequence number 0 and then numbers its messages on the object it sends, 1 for the first
  connected session, 2 for the second and so on; \<open>ClientSubscribeUpdate\<close> starts from the stored object, so
  each session gets the new data under the very number it already has.  The receiving relay takes the
  update for a repetition: it keeps the old data and does not pass the update on.\<close>

theorem subscribe_update_ignored:
  fixes q :: quicr_api and ns :: "bytes list" and name d :: bytes
  assumes wf: "pm_wf pm" and own: "own_sessions pm" and "d \<noteq> []"
    and fresh: "subscription (pm_info_base pm) (th_fullname (h_track (q_hash q) ns name)) (ni_id (pm_node_info pm)) = None"
    and upd: "updated_subscribe_data q g d = Inr d'"
  defines "si \<equiv> \<lambda>k data. \<lparr>si_seq = 1 + word_of_nat k, si_source_node_id = ni_id (pm_node_info pm),
      si_track_hash = h_track (q_hash q) ns name, si_subscribe_data = data\<rparr>"
    and "pm1 \<equiv> fst (ClientSubscribe q ns name d pm)"
  shows "pm_log pm1 = pm_log pm @ map (\<lambda>(k, s). control_message s (snd (SubscribeInfo_Serialize (si k d) True False False))) (enumerate 0 (connected pm))
    \<and> pm_log (fst (ClientSubscribeUpdate q ns name g pm1)) = pm_log pm1
        @ map (\<lambda>(k, s). control_message s (snd (SubscribeInfo_Serialize (si k d') True False False))) (enumerate 0 (connected pm))
    \<and> \<not> snd (AddSubscribe (si k d') (fst (AddSubscribe (si k d) remote)))
    \<and> (snd (AddSubscribe (si k d) remote) \<longrightarrow> subscription (fst (AddSubscribe (si k d') (fst (AddSubscribe (si k d) remote))))
          (th_fullname (h_track (q_hash q) ns name)) (ni_id (pm_node_info pm)) = Some (si k d))"
proof -
  define si0 where "si0 = \<lparr>si_seq = 0, si_source_node_id = ni_id (pm_node_info pm), si_track_hash = h_track (q_hash q) ns name, si_subscribe_data = d\<rparr>"
  let ?fh = "th_fullname (h_track (q_hash q) ns name)" and ?n = "ni_id (pm_node_info pm)"
  let ?out = "\<lambda>data. map (\<lambda>(k, s). control_message s (snd (SubscribeInfo_Serialize (si k data) True False False))) (enumerate 0 (connected pm))"
  have msg: "map (\<lambda>(k, s). subscribe_message False (si0\<lparr>si_subscribe_data := data\<rparr>) (1 + word_of_nat k) s) (enumerate 0 (connected pm)) = ?out data" for data
    by (simp add: subscribe_message_def si0_def si_def)
  define ib1 where "ib1 = fst (AddSubscribe si0 (pm_info_base pm))"
  have wf1: "pm_wf (pm\<lparr>pm_info_base := ib1\<rparr>)" using wf by (rule pm_wf_routes) (simp add: ib1_def)
  have pm1: "pm1 = pm\<lparr>pm_info_base := ib1, pm_log := pm_log pm @ ?out d\<rparr>"
    using send_subscribe_all_origin [OF wf1, of si0 False] own msg [of d] \<open>d \<noteq> []\<close>
    by (simp add: pm1_def ClientSubscribe_def Let_def si0_def own_sessions_def sess_of_def ib1_def)
  define ib2 where "ib2 = fst (GetSubscribe ?fh ?n ib1)"
  have get: "GetSubscribe ?fh ?n ib1 = (ib2, Some si0)"
    using AddSubscribe_GetSubscribe [of "pm_info_base pm" si0] fresh
    by (metis ib1_def ib2_def prod.collapse si0_def SubscribeInfo.select_convs(2,3))
  let ?pm2 = "pm1\<lparr>pm_info_base := ib2\<rparr>"
  have "pm_wf pm1" using wf1 by (simp add: pm1)
  moreover have "same_routes (pm_info_base pm1) ib2" by (simp add: pm1 ib2_def)
  ultimately have wf2: "pm_wf ?pm2" by (rule pm_wf_routes)
  have "ClientSubscribeUpdate q ns name g pm1 = send_subscribe_all False (si0\<lparr>si_subscribe_data := d'\<rparr>) ?pm2"
    using get upd by (simp add: ClientSubscribeUpdate_def pm1 si0_def)
  then have two: "pm_log (fst (ClientSubscribeUpdate q ns name g pm1)) = pm_log pm1 @ ?out d'"
    using send_subscribe_all_origin [OF wf2, of "si0\<lparr>si_subscribe_data := d'\<rparr>" False] own msg [of d']
    by (simp add: pm1 si0_def own_sessions_def sess_of_def)
  have "\<not> snd (AddSubscribe (si k d') (fst (AddSubscribe (si k d) remote)))"
    by (auto simp: AddSubscribe_eq Let_def si_def mat_def split: option.splits)
  moreover have "snd (AddSubscribe (si k d) remote) \<longrightarrow> subscription (fst (AddSubscribe (si k d') (fst (AddSubscribe (si k d) remote)))) ?fh ?n = Some (si k d)"
    by (auto simp: AddSubscribe_eq Let_def si_def mat_def subscription_def split: option.splits)
  ultimately show ?thesis using two by (simp add: pm1)
qed

theorem subscribe_update_ignored_witness:
  "pm_log (fst (ClientSubscribeUpdate sample_quicr [[1]] [2] (Some 4) (fst (ClientSubscribe sample_quicr [[1]] [2] [9] sample_manager))))
     = pm_log (fst (ClientSubscribe sample_quicr [[1]] [2] [9] sample_manager))
       @ map (\<lambda>(k, s). control_message s (snd (SubscribeInfo_Serialize
            \<lparr>si_seq = 1 + word_of_nat k, si_source_node_id = ni_id sample_node, si_track_hash = h_track plain_hash [[1]] [2],
             si_subscribe_data = [9, 1, 0, 0, 0, 0, 0, 0, 0, 4]\<rparr> True False False)))
           [(0, sample_peer False 20 5), (1, sample_peer True 10 3)]"
proof -
  have own: "own_sessions sample_manager" by (simp add: own_sessions_def sample_manager_def all_sessions_def sess_of_def sample_peer_def PeerSession_make_def)
  have con: "connected sample_manager = [sample_peer False 20 5, sample_peer True 10 3]"
    by (simp add: connected_def sample_manager_def all_sessions_def sess_of_def sample_peer_def PeerSession_make_def)
  have upd: "updated_subscribe_data sample_quicr (Some 4) [9] = Inr [9, 1, 0, 0, 0, 0, 0, 0, 0, 4]" by code_simp
  have q: "q_hash sample_quicr = plain_hash" "pm_node_info sample_manager = sample_node" by (simp_all add: sample_quicr_def sample_manager_def)
  have fresh: "subscription (pm_info_base sample_manager) (th_fullname (h_track (q_hash sample_quicr) [[1]] [2])) (ni_id (pm_node_info sample_manager)) = None"
    by (simp add: sample_manager_def subscription_def InfoBase_init_def mat_def)
  show ?thesis
    using subscribe_update_ignored [OF sample_manager_wf own _ fresh upd] by (simp add: con q)
qed

text \<open>Flooding of another node's subscribe info, with everything but the log unchanged.\<close>

lemma flood_subscribe_relayed:
  assumes "pm_wf pm" and "own_sessions pm" and "si_source_node_id si \<noteq> ni_id (pm_node_info pm)"
  shows "flood_subscribe (Some sid) w (pm, si) = ((pm\<lparr>pm_log := pm_log pm @
      map (\<lambda>e. subscribe_message w si (si_seq si) (sess_of pm e))
        (filter (\<lambda>e. fst e \<noteq> sid \<and> ps_status (sess_of pm e) = S_Connected) (all_sessions pm))\<rparr>, si), Inr ())"
proof -
  have "\<forall>s \<in> set (map (sess_of pm) (filter (\<lambda>e. Some (fst e) \<noteq> Some sid) (all_sessions pm))). ni_id (ps_node_info s) \<noteq> si_source_node_id si"
    using assms(2,3) by (auto simp: own_sessions_def)
  from subscribe_out_relayed [OF this, of w] show ?thesis
    unfolding flood_subscribe_eq [OF assms(1)] by (simp add: filter_map comp_def conj_commute)
qed

text \<open>Whether the subscribe can be read and a publisher of this relay matches it.\<close>

definition has_publisher :: "quicr_api \<Rightarrow> SubscribeInfo \<Rightarrow> State \<Rightarrow> bool" where
  "has_publisher q si st \<longleftrightarrow> (case m_parse (q_msg q) (si_subscribe_data si) of
      Inl _ \<Rightarrow> False
    | Inr (_, ns, _, ps) \<Rightarrow> (\<exists>p. m_get_u8 (q_msg q) kSubscriberPriority ps = Inr p)
        \<and> announce_matches q (th_fullname (si_track_hash si)) ns st)"

lemma SubscribeInfoReceived_advertise:
  assumes wf: "pm_wf pm" and own: "own_sessions pm" and other: "si_source_node_id si \<noteq> ni_id (pm_node_info pm)"
    and r: "GetPeerSession sid pm = Inr r"
  defines "a \<equiv> AddSubscribe si (pm_info_base pm)"
  shows "SubscribeInfoReceived q ref sid si False pm = catch_std (subscribe_egress q ref sid si
      (pm\<lparr>pm_info_base := fst a, pm_log := pm_log pm @
        (if snd a then map (\<lambda>e. subscribe_message False si (si_seq si) (sess_of pm e))
             (filter (\<lambda>e. fst e \<noteq> sid \<and> ps_status (sess_of pm e) = S_Connected) (all_sessions pm)) else [])\<rparr>))"
proof -
  let ?pm = "pm\<lparr>pm_info_base := fst a\<rparr>"
  have wf': "pm_wf ?pm" using wf by (rule pm_wf_routes) (simp add: a_def)
  have "own_sessions ?pm" using own by (simp add: own_sessions_def)
  from flood_subscribe_relayed [OF wf' this, of si sid False] other
  show ?thesis unfolding SubscribeInfoReceived_def r a_def by (simp add: Let_def case_prod_unfold)
qed

text \<open>A subscribe that changes the subscribe table goes unchanged to every connected session but the one it came from.\<close>

lemma subscribe_flood_all:
  fixes si :: SubscribeInfo
  assumes wf: "pm_wf pm" and own: "own_sessions pm" and other: "si_source_node_id si \<noteq> ni_id (pm_node_info pm)"
    and r: "GetPeerSession sid pm = Inr r" and q: "msg_throws_std (q_msg q)" and none: "\<not> has_publisher q si (pm_state pm)"
  defines "a \<equiv> AddSubscribe si (pm_info_base pm)"
  shows "SubscribeInfoReceived q ref sid si False pm = pm_ok (pm\<lparr>pm_info_base := fst a, pm_log := pm_log pm @
      (if snd a then map (\<lambda>e. subscribe_message False si (si_seq si) (sess_of pm e))
           (filter (\<lambda>e. fst e \<noteq> sid \<and> ps_status (sess_of pm e) = S_Connected) (all_sessions pm)) else [])\<rparr>)"
proof -
  have "catch_std (subscribe_egress q ref sid si pm') = pm_ok pm'" if "pm_state pm' = pm_state pm" for pm'
    using none q that unfolding has_publisher_def subscribe_egress_def msg_throws_std_def
    by (auto simp: Let_def split: sum.split)
  then show ?thesis unfolding SubscribeInfoReceived_advertise [OF wf own other r] a_def by simp
qed


lemma older_subscribe_flooded:
  assumes "pm_wf pm" "own_sessions pm" "si_source_node_id si \<noteq> ni_id (pm_node_info pm)" "GetPeerSession sid pm = Inr r" "msg_throws_std (q_msg q)"
    "\<not> has_publisher q si (pm_state pm)" and e: "e \<in> set (all_sessions pm)" "fst e \<noteq> sid" "ps_status (sess_of pm e) = S_Connected"
    and "subscription (pm_info_base pm) (th_fullname (si_track_hash si)) (si_source_node_id si) = Some newer" "si_seq si < si_seq newer"
  shows "subscribe_message False si (si_seq si) (sess_of pm e) \<in> set (pm_log (fst (SubscribeInfoReceived q ref sid si False pm)))"
  using e older_subscribe_replaces(1) [OF assms(10,11)] subscribe_flood_all [OF assms(1-6), of ref] by auto

lemma subscribe_reaches_source:
  assumes "pm_wf pm" "own_sessions pm" "si_source_node_id si \<noteq> ni_id (pm_node_info pm)" "GetPeerSession sid pm = Inr r" "msg_throws_std (q_msg q)"
    "\<not> has_publisher q si (pm_state pm)" and e: "e \<in> set (all_sessions pm)" "fst e \<noteq> sid" "ps_status (sess_of pm e) = S_Connected"
    and "ni_id (ps_remote_node_info (sess_of pm e)) = si_source_node_id si" "snd (AddSubscribe si (pm_info_base pm))"
  shows "subscribe_message False si (si_seq si) (sess_of pm e) \<in> set (pm_log (fst (SubscribeInfoReceived q ref sid si False pm)))"
  using e assms(11) subscribe_flood_all [OF assms(1-6), of ref] by auto

definition sample_subscribe :: "bytes \<Rightarrow> SubscribeInfo" where
  "sample_subscribe d = \<lparr>si_seq = 1, si_source_node_id = 3, si_track_hash = \<lparr>th_namespace = 1, th_name = 2, th_fullname = 33\<rparr>, si_subscribe_data = d\<rparr>"

lemma sample_own: "own_sessions sample_manager"
  by (simp add: own_sessions_def sample_manager_def all_sessions_def sess_of_def sample_peer_def PeerSession_make_def)


lemma AddSubscribe_keeps [simp]:
  "ib_nodes_best (fst (AddSubscribe si ib)) = ib_nodes_best ib" "ib_client_fib (fst (AddSubscribe si ib)) = ib_client_fib ib"
  by (simp_all add: AddSubscribe_eq Let_def)

text \<open>
  An entry of the track's table leads to the session \<open>r\<close> under the identifier of the set that the session keeps for the track.  A
  subscriber can be reached through \<open>r\<close> if there is such an entry, or if nothing stands in its way: the table has no entry for
  the session the subscribe came from, and the subscriber is not in the set yet.
\<close>

definition entry_to :: "sref \<Rightarrow> SubscribeNodeSet option \<Rightarrow> FibEntry \<Rightarrow> bool" where
  "entry_to r sns e \<longleftrightarrow> fib_peer_session e = Some r \<and> (\<exists>set. sns = Some set \<and> fib_out_sns_id e = sns_id set \<and> sns_id set \<noteq> 0)"

definition reachable_through :: "u64 \<Rightarrow> u64 \<Rightarrow> u64 \<Rightarrow> sref \<Rightarrow> PeerSession \<Rightarrow> InfoBase \<Rightarrow> bool" where
  "reachable_through fh sid n r s ib \<longleftrightarrow>
     (\<exists>k e. map_of (ib_client_fib ib) (fh, k) = Some e \<and> entry_to r (map_of (ps_sub_sns s) fh) e)
     \<or> map_of (ib_client_fib ib) (fh, sid) = None \<and> n \<notin> sns_nodes_at (map_of (ps_sub_sns s) fh)"

lemma add_client_fib_way:
  assumes best: "map_of (ib_nodes_best (pm_info_base pm)) (si_source_node_id si) = Some r"
    and s: "map_of (pm_sessions pm) r = Some s"
    and way: "reachable_through (th_fullname (si_track_hash si)) sid (si_source_node_id si) r s (pm_info_base pm)"
  shows "\<exists>pm' s' sns k entry. add_client_fib q ref (Some sid) si (Inr p) pm = pm_ok pm'
    \<and> map_of (pm_sessions pm') r = Some s' \<and> map_of (ps_sub_sns s') (th_fullname (si_track_hash si)) = Some sns
    \<and> si_source_node_id si \<in> set (sns_nodes sns)
    \<and> map_of (ib_client_fib (pm_info_base pm')) (th_fullname (si_track_hash si), k) = Some entry
    \<and> fib_peer_session entry = Some r \<and> fib_out_sns_id entry = sns_id sns
    \<and> (msorted (ib_client_fib (pm_info_base pm)) \<longrightarrow> msorted (ib_client_fib (pm_info_base pm')))"
proof -
  let ?fh = "th_fullname (si_track_hash si)" and ?n = "si_source_node_id si"
  let ?old = "map_of (ps_sub_sns s) ?fh"
  obtain s' log i b where add: "AddSubscribeSourceNode (q_transport q) ?fh ?n p (s, pm_log pm) = ((s', log), i, b)"
    by (metis prod.collapse)
  have b: "b \<longleftrightarrow> ?n \<notin> sns_nodes_at ?old" using sub.add_is_new [of "q_transport q" ?fh ?n p "(s, pm_log pm)"] by (simp add: add)
  define sns where "sns = fst (snd (sns_add (q_transport q) ?n p (sns_or_new ?old) (s, pm_log pm)))"
  have look: "map_of (ps_sub_sns s') ?fh = Some sns"
    using sub.look_add [of "q_transport q" ?fh ?n p "(s, pm_log pm)" ?fh] by (simp add: add sns_def)
  have i: "i = sns_id sns"
    using sub.add_result [of "q_transport q" ?fh ?n p "(s, pm_log pm)"] by (simp add: add sns_def case_prod_unfold)
  have mem: "?n \<in> set (sns_nodes sns)" by (simp add: sns_def sns_add_eq Let_def)
  have same: "sns_id sns = sns_id set" if "?old = Some set" "sns_id set \<noteq> 0" for set
    using that by (simp add: sns_def sns_add_eq Let_def sns_or_new_def with_context_def)
  note d = add_client_fib_def best live_of_def s on_session_def add Let_def map_of_mtry
  from way consider (entry) k e where "map_of (ib_client_fib (pm_info_base pm)) (?fh, k) = Some e" "entry_to r ?old e"
    | (new) "map_of (ib_client_fib (pm_info_base pm)) (?fh, sid) = None" "?n \<notin> sns_nodes_at ?old"
    unfolding reachable_through_def by metis
  then show ?thesis
  proof cases
    case entry
    then have "fib_peer_session e = Some r" "fib_out_sns_id e = sns_id sns" using same by (auto simp: entry_to_def)
    then show ?thesis using look mem entry(1)
      by (intro exI [of _ "fst (add_client_fib q ref (Some sid) si (Inr p) pm)"] exI [of _ s'] exI [of _ sns] exI [of _ k] exI [of _ e]) (auto simp: d)
  next
    case new
    then show ?thesis using look i mem b by (intro exI [of _ "fst (add_client_fib q ref (Some sid) si (Inr p) pm)"] exI [of _ s'] exI [of _ sns] exI [of _ sid]) (simp add: d)
  qed
qed

text \<open>The handler of a subscribe for a published track, up to the entry in the table.\<close>

lemma subscribe_to_fib:
  assumes wf: "pm_wf pm" and own: "own_sessions pm" and other: "si_source_node_id si \<noteq> ni_id (pm_node_info pm)"
    and g: "GetPeerSession sid pm = Inr rin" and pub: "has_publisher q si (pm_state pm)"
  obtains p pm2 where "SubscribeInfoReceived q ref sid si False pm = catch_std (add_client_fib q ref (Some sid) si (Inr p) pm2)"
    "pm_sessions pm2 = pm_sessions pm" "ib_client_fib (pm_info_base pm2) = ib_client_fib (pm_info_base pm)"
    "ib_nodes_best (pm_info_base pm2) = ib_nodes_best (pm_info_base pm)"
proof -
  define pm1 where "pm1 = pm\<lparr>pm_info_base := fst (AddSubscribe si (pm_info_base pm)), pm_log := pm_log pm @
        (if snd (AddSubscribe si (pm_info_base pm)) then map (\<lambda>e. subscribe_message False si (si_seq si) (sess_of pm e))
             (filter (\<lambda>e. fst e \<noteq> sid \<and> ps_status (sess_of pm e) = S_Connected) (all_sessions pm)) else [])\<rparr>"
  obtain rid ns name ps p where parse: "m_parse (q_msg q) (si_subscribe_data si) = Inr (rid, ns, name, ps)"
    "m_get_u8 (q_msg q) kSubscriberPriority ps = Inr p" "announce_matches q (th_fullname (si_track_hash si)) ns (pm_state pm)"
    using pub by (auto simp: has_publisher_def split: sum.splits)
  have "pm_client_manager pm" using wf by (simp add: pm_wf_def)
  define pm2 where "pm2 = pm1\<lparr>pm_log := pm_log pm1 @ [CM_Process_Subscribe (si_track_hash si) ns name (m_get_optional (q_msg q) kNewGroupRequest ps)]\<rparr>"
  have "subscribe_egress q ref sid si pm1 = add_client_fib q ref (Some sid) si (Inr p) pm2"
    using parse \<open>pm_client_manager pm\<close> by (simp add: subscribe_egress_def pm1_def pm2_def call_client_def Let_def)
  then have "SubscribeInfoReceived q ref sid si False pm = catch_std (add_client_fib q ref (Some sid) si (Inr p) pm2)"
    unfolding SubscribeInfoReceived_advertise [OF wf own other g] pm1_def [symmetric] by simp
  then show thesis by (rule that) (simp_all add: pm1_def pm2_def)
qed

lemma subscribe_path:
  assumes wf: "pm_wf pm" and own: "own_sessions pm" and other: "si_source_node_id si \<noteq> ni_id (pm_node_info pm)"
    and g: "GetPeerSession sid pm = Inr rin" and pub: "has_publisher q si (pm_state pm)"
    and best: "GetBestPeerSession (si_source_node_id si) (pm_info_base pm) = Some r" and s: "map_of (pm_sessions pm) r = Some s"
    and way: "reachable_through (th_fullname (si_track_hash si)) sid (si_source_node_id si) r s (pm_info_base pm)"
  shows "\<exists>pm' s' sns k entry. SubscribeInfoReceived q ref sid si False pm = pm_ok pm'
    \<and> map_of (pm_sessions pm') r = Some s' \<and> map_of (ps_sub_sns s') (th_fullname (si_track_hash si)) = Some sns
    \<and> si_source_node_id si \<in> set (sns_nodes sns)
    \<and> map_of (ib_client_fib (pm_info_base pm')) (th_fullname (si_track_hash si), k) = Some entry
    \<and> fib_peer_session entry = Some r \<and> fib_out_sns_id entry = sns_id sns
    \<and> (msorted (ib_client_fib (pm_info_base pm)) \<longrightarrow> msorted (ib_client_fib (pm_info_base pm')))"
proof -
  obtain p pm2 where S: "SubscribeInfoReceived q ref sid si False pm = catch_std (add_client_fib q ref (Some sid) si (Inr p) pm2)"
    and same: "pm_sessions pm2 = pm_sessions pm" "ib_client_fib (pm_info_base pm2) = ib_client_fib (pm_info_base pm)"
      "ib_nodes_best (pm_info_base pm2) = ib_nodes_best (pm_info_base pm)"
    using subscribe_to_fib [OF wf own other g pub] .
  have b: "map_of (ib_nodes_best (pm_info_base pm2)) (si_source_node_id si) = Some r" using best same(3) by (simp add: GetBestPeerSession_def)
  have s2: "map_of (pm_sessions pm2) r = Some s" using s same(1) by simp
  have "reachable_through (th_fullname (si_track_hash si)) sid (si_source_node_id si) r s (pm_info_base pm2)"
    using way same(2) by (simp add: reachable_through_def)
  from add_client_fib_way [OF b s2 this, of q ref p] show ?thesis unfolding S same(2) by (metis catch_std_simps(1))
qed

text \<open>Where an entry for the session the subscribe came from leads elsewhere, it stays, and a subscriber with another best session has none.\<close>

lemma second_subscriber_no_entry:
  assumes wf: "pm_wf pm" and own: "own_sessions pm" and other: "si_source_node_id si \<noteq> ni_id (pm_node_info pm)"
    and g: "GetPeerSession sid pm = Inr rin" and pub: "has_publisher q si (pm_state pm)"
    and old: "map_of (ib_client_fib (pm_info_base pm)) (th_fullname (si_track_hash si), sid) = Some e"
  shows "ib_client_fib (pm_info_base (fst (SubscribeInfoReceived q ref sid si False pm))) = ib_client_fib (pm_info_base pm)"
proof -
  obtain p pm2 where S: "SubscribeInfoReceived q ref sid si False pm = catch_std (add_client_fib q ref (Some sid) si (Inr p) pm2)"
    and same: "ib_client_fib (pm_info_base pm2) = ib_client_fib (pm_info_base pm)"
    using subscribe_to_fib [OF wf own other g pub] .
  show ?thesis unfolding S fst_catch_std
    using old same by (auto simp: add_client_fib_def on_session_def andthen_def Let_def fst_mtry case_prod_unfold split: option.split sum.split)
qed

text \<open>Node 3 is known through session 10, and a client of this relay announced the namespace.\<close>

definition publishing_manager :: PeerManager where
  "publishing_manager = (fst (NodeReceived sample_quicr 10 (NodeInfo_default\<lparr>ni_id := 3\<rparr>) False sample_manager))
     \<lparr>pm_state := \<lparr>st_pub_namespace_active = [(([[4]], 8), [])], st_pub_subscribes = []\<rparr>\<rparr>"

lemma publishing_manager_wf: "pm_wf publishing_manager"
proof -
  have "pm_wf (fst (NodeReceived sample_quicr 10 (NodeInfo_default\<lparr>ni_id := 3\<rparr>) False sample_manager))"
    using NodeReceived_safe [OF sample_manager_wf] by (simp add: safe_def)
  moreover have "live_of (pm\<lparr>pm_state := st\<rparr>) = live_of pm" "all_sessions (pm\<lparr>pm_state := st\<rparr>) = all_sessions pm" for pm st
    by (simp_all add: live_of_def all_sessions_def fun_eq_iff)
  ultimately show ?thesis by (simp add: publishing_manager_def pm_wf_def)
qed

end
