(* ===== verification/Peer_Forward.thy ===== *)
theory Peer_Forward
  imports Peer_Manager
begin

text \<open>
  Forwarding of object data by the peering manager, \<open>src/src/peering/peer_manager.cc\<close>: the
  forwarding table of a received subscribe node set (\<open>SnsReceived\<close>), data from peers
  (\<open>ForwardPeerData\<close>), data from the publishers of this relay (\<open>ClientDataRecv\<close>,
  \<open>EndSubgroup\<close>), and closing of streams (\<open>CloseStream\<close>).

  A loop that rewrites entries of a table while it walks over it visits a snapshot of the entries and
  writes each of them back; the source does not insert or erase entries of the table it walks over.
\<close>

section \<open>Node sets of peers\<close>

definition set_peer_fib :: "u64 \<times> u32 \<Rightarrow> (u64, FibEntry) omap \<Rightarrow> PeerManager \<Rightarrow> PeerManager" where
  "set_peer_fib key entries pm = pm\<lparr>pm_info_base := (pm_info_base pm)\<lparr>ib_peer_fib := mput key entries (ib_peer_fib (pm_info_base pm))\<rparr>\<rparr>"

definition peer_fib_entries :: "u64 \<times> u32 \<Rightarrow> PeerManager \<Rightarrow> (u64, FibEntry) omap" where
  "peer_fib_entries key pm = mat [] (ib_peer_fib (pm_info_base pm)) key"

text \<open>One node of a received set: this relay itself (key 0), or the best session to the node.\<close>

definition sns_node :: "quicr_api \<Rightarrow> u64 \<Rightarrow> u64 \<times> u32 \<Rightarrow> u8 \<Rightarrow> u64 \<Rightarrow> PeerManager \<Rightarrow> unit pm_res" where
  "sns_node q update_ref key priority node_id pm =
     (let entries = peer_fib_entries key pm in
      if node_id = ni_id (pm_node_info pm)
      then pm_ok (set_peer_fib key (mput 0 \<lparr>fib_update_ref = update_ref, fib_streams = [], fib_out_sns_id = 0,
             fib_peer_session = None, fib_track_fullname_hash = 0\<rparr> entries) pm)
      else case lock_sess pm (GetBestPeerSession node_id (pm_info_base pm)) of
          None \<Rightarrow> pm_ok pm
        | Some (r, s) \<Rightarrow>
            andthen (on_session r (AddPeerSnsSourceNode (q_transport q) (fst key) (snd key) node_id priority) pm) (\<lambda>(out_sns, _) pm.
              pm_ok (set_peer_fib key (mput (ps_t_conn_id s) \<lparr>fib_update_ref = update_ref, fib_streams = [], fib_out_sns_id = out_sns,
                 fib_peer_session = Some r, fib_track_fullname_hash = 0\<rparr> entries) pm)))"

text \<open>An egress that the updated set no longer needs.\<close>

definition sns_stale :: "u64 \<Rightarrow> u32 \<Rightarrow> u64 \<times> FibEntry \<Rightarrow> PeerManager \<Rightarrow> unit pm_res" where
  "sns_stale update_ref in_sns entry pm =
     (if fib_update_ref (snd entry) = update_ref then pm_ok pm
      else case lock_sess pm (fib_peer_session (snd entry)) of
          None \<Rightarrow> pm_ok pm
        | Some (r, s) \<Rightarrow> andthen (on_session r (RemovePeerSnsSourceNode (ps_t_conn_id s) in_sns 0) pm) (\<lambda>_. pm_ok))"

definition SnsReceived :: "quicr_api \<Rightarrow> u64 \<Rightarrow> sref \<Rightarrow> SubscribeNodeSet \<Rightarrow> bool \<Rightarrow> PeerManager \<Rightarrow> unit pm_res" where
  "SnsReceived q update_ref r sns withdraw pm =
     (case map_of (pm_sessions pm) r of
        None \<Rightarrow> pm_fail Null_Deref pm
      | Some s \<Rightarrow>
          (let key = (ps_t_conn_id s, sns_id sns) in
           if withdraw
           then (case map_of (ib_peer_fib (pm_info_base pm)) key of
                   None \<Rightarrow> pm_ok pm
                 | Some entries \<Rightarrow>
                     andthen (foreach (\<lambda>(out_sess, entry) pm.
                         if out_sess = 0 then pm_ok pm
                         else case fib_peer_session entry of
                             None \<Rightarrow> pm_fail Null_Deref pm
                           | Some ro \<Rightarrow> andthen (on_session ro (RemovePeerSnsSourceNode (fst key) (snd key) 0) pm) (\<lambda>_. pm_ok))
                       entries pm)
                     (\<lambda>_ pm. pm_ok (pm\<lparr>pm_info_base := (pm_info_base pm)\<lparr>ib_peer_fib := mdel key (ib_peer_fib (pm_info_base pm))\<rparr>\<rparr>)))
           else
             (let new_ingress = (map_of (ib_peer_fib (pm_info_base pm)) key = None);
                  pm = (if new_ingress then set_peer_fib key [] pm else pm)
              in andthen (foreach (sns_node q update_ref key (sns_priority sns)) (sns_nodes sns) pm) (\<lambda>_ pm.
                   if new_ingress then pm_ok pm
                   else andthen (foreach (sns_stale update_ref (sns_id sns)) (peer_fib_entries key pm) pm) (\<lambda>_ pm.
                     pm_ok (set_peer_fib key (filter (\<lambda>(_, e). fib_update_ref e = update_ref) (peer_fib_entries key pm)) pm))))))"

section \<open>Data\<close>

text \<open>\<open>std::copy(sns_id_bytes.rbegin(), sns_id_bytes.rend(), data.begin() + 2)\<close>\<close>

definition put_sns_id :: "u32 \<Rightarrow> bytes \<Rightarrow> bytes res" where
  "put_sns_id sid data = (if length data < 6 then Inl Out_Of_Bounds else Inr (take 2 data @ put_int sid @ drop 6 data))"

text \<open>
  Data of a peer to one egress.  The copy of the data is shared by all iterations.
\<close>

definition forward_self :: "bool \<Rightarrow> u64 \<Rightarrow> DataHeader \<Rightarrow> bytes \<Rightarrow> u64 \<Rightarrow> bool \<Rightarrow> PeerManager \<Rightarrow> unit pm_res" where
  "forward_self is_new_stream stream_id hdr data data_offset use_reliable pm =
     (case map_of (ib_subscribes (pm_info_base pm)) (dh_track_full_name_hash hdr) of
        None \<Rightarrow> pm_ok pm
      | Some subs \<Rightarrow> (case map_of subs (ni_id (pm_node_info pm)) of
          None \<Rightarrow> pm_ok pm
        | Some si \<Rightarrow>
            if length data < unat data_offset then pm_fail Out_Of_Bounds pm
            else call_client
              (if use_reliable
               then CM_Peer_Data_Received (th_fullname (si_track_hash si)) is_new_stream (Some stream_id) (drop (unat data_offset) data)
               else CM_Peer_Data_Received (th_fullname (si_track_hash si)) False None (drop (unat data_offset) data)) pm))"

text \<open>The egress stream of an ingress stream: known, or created at the start of a stream.\<close>

definition egress_stream :: "quicr_api \<Rightarrow> u64 \<times> u32 \<Rightarrow> bool \<Rightarrow> u64 \<Rightarrow> u8 \<Rightarrow> u64 \<times> FibEntry \<Rightarrow> PeerManager \<Rightarrow> u64 option pm_res" where
  "egress_stream q key is_new_stream stream_id priority out pm =
     (case map_of (fib_streams (snd out)) stream_id of
        Some n \<Rightarrow> (pm, Inr (Some n))
      | None \<Rightarrow>
          if \<not> is_new_stream then (pm, Inr None)
          else case lock_sess pm (fib_peer_session (snd out)) of
              None \<Rightarrow> pm_fail Null_Deref pm
            | Some (r, _) \<Rightarrow> andthen (on_session r (PS_CreateStream (q_transport q) (fib_out_sns_id (snd out)) priority) pm) (\<lambda>n pm.
                (set_peer_fib key (mput (fst out) ((snd out)\<lparr>fib_streams := mput stream_id n (fib_streams (snd out))\<rparr>) (peer_fib_entries key pm)) pm,
                 Inr (Some n))))"

definition forward_entry :: "quicr_api \<Rightarrow> u64 \<times> u32 \<Rightarrow> bool \<Rightarrow> u64 \<Rightarrow> DataHeader \<Rightarrow> bytes \<Rightarrow> u64 \<Rightarrow> bool \<Rightarrow> u64 \<times> FibEntry
    \<Rightarrow> PeerManager \<times> bytes \<Rightarrow> (PeerManager \<times> bytes) \<times> unit res" where
  "forward_entry q key is_new_stream stream_id hdr data data_offset use_reliable out st =
     (case st of (pm, data_out) \<Rightarrow>
        if fst out = fst key then (st, Inr ())
        else if fst out = 0
        then (case forward_self is_new_stream stream_id hdr data data_offset use_reliable pm of (pm, x) \<Rightarrow> ((pm, data_out), x))
        else
          (case (if is_new_stream \<or> \<not> use_reliable then put_sns_id (fib_out_sns_id (snd out)) data_out else Inr data_out) of
             Inl e \<Rightarrow> (st, Inl e)
           | Inr data_out \<Rightarrow>
               (case andthen
                  (if use_reliable then egress_stream q key is_new_stream stream_id (dh_priority hdr) out pm else (pm, Inr (Some 0)))
                  (\<lambda>n pm. case n of
                     None \<Rightarrow> pm_ok pm
                   | Some out_stream_id \<Rightarrow> (case lock_sess pm (fib_peer_session (snd out)) of
                         None \<Rightarrow> pm_fail Null_Deref pm
                       | Some (r, _) \<Rightarrow> session_do r
                           (SendData (dh_priority hdr) (dh_ttl hdr) (fib_out_sns_id (snd out)) out_stream_id use_reliable data_out) pm))
                of (pm, x) \<Rightarrow> ((pm, data_out), x))))"

definition ForwardPeerData :: "quicr_api \<Rightarrow> u64 \<Rightarrow> bool \<Rightarrow> u64 \<Rightarrow> DataHeader \<Rightarrow> bytes \<Rightarrow> u64 \<Rightarrow> bool \<Rightarrow> PeerManager \<Rightarrow> unit pm_res" where
  "ForwardPeerData q peer_session_id is_new_stream stream_id hdr data data_offset use_reliable pm =
     (let key = (peer_session_id, dh_sns_id hdr) in
      case map_of (ib_peer_fib (pm_info_base pm)) key of
        None \<Rightarrow> pm_ok pm
      | Some entries \<Rightarrow>
          (case foreach (forward_entry q key is_new_stream stream_id hdr data data_offset use_reliable) entries (pm, data) of
             (st, x) \<Rightarrow> (fst st, x)))"

section \<open>Data of local publishers\<close>

text \<open>\<open>group_id << 16 | static_cast<uint16_t>(subgroup_id)\<close>\<close>

definition in_stream_id :: "u64 \<Rightarrow> u64 \<Rightarrow> u64" where
  "in_stream_id group_id subgroup_id = or (push_bit 16 group_id) (ucast (ucast subgroup_id :: u16))"

definition set_client_entry :: "u64 \<times> u64 \<Rightarrow> FibEntry \<Rightarrow> PeerManager \<Rightarrow> PeerManager" where
  "set_client_entry key e pm = pm\<lparr>pm_info_base := (pm_info_base pm)\<lparr>ib_client_fib := mput key e (ib_client_fib (pm_info_base pm))\<rparr>\<rparr>"

definition EndSubgroup :: "u64 \<Rightarrow> u64 \<Rightarrow> u64 \<Rightarrow> bool \<Rightarrow> PeerManager \<Rightarrow> unit pm_res" where
  "EndSubgroup fh group_id subgroup_id reset pm =
     foreach (\<lambda>(key, entry) pm.
         case lock_sess pm (fib_peer_session entry) of
           None \<Rightarrow> pm_ok pm
         | Some (r, _) \<Rightarrow> (case map_of (fib_streams entry) (in_stream_id group_id subgroup_id) of
             None \<Rightarrow> pm_ok pm
           | Some n \<Rightarrow> andthen (session_do r (PS_CloseStream (fib_out_sns_id entry) n reset) pm) (\<lambda>_ pm.
               pm_ok (set_client_entry key (entry\<lparr>fib_streams := mdel (in_stream_id group_id subgroup_id) (fib_streams entry)\<rparr>) pm))))
       (key_range fh (ib_client_fib (pm_info_base pm))) pm"

text \<open>
  The loop over the egress sessions of the track.  It is left by \<open>return\<close> at an entry that does
  not know the stream of an existing-stream object.
\<close>

fun client_data_loop :: "quicr_api \<Rightarrow> u8 \<Rightarrow> u32 \<Rightarrow> u8 \<Rightarrow> u64 \<Rightarrow> bytes \<Rightarrow> ((u64 \<times> u64) \<times> FibEntry) list \<Rightarrow> PeerManager \<Rightarrow> unit pm_res" where
  "client_data_loop q priority ttl typ sid net_data [] pm = pm_ok pm"
| "client_data_loop q priority ttl typ sid net_data ((key, entry) # rest) pm =
     (case lock_sess pm (fib_peer_session entry) of
        None \<Rightarrow> client_data_loop q priority ttl typ sid net_data rest pm
      | Some (r, _) \<Rightarrow>
          (case (if typ = kDatagram \<or> typ = kNewStream then put_sns_id (fib_out_sns_id entry) net_data else Inr net_data) of
             Inl e \<Rightarrow> pm_fail e pm
           | Inr send_data \<Rightarrow>
               (let use_reliable = (typ = kExistingStream \<or> typ = kNewStream);
                    send = (\<lambda>n pm. andthen (session_do r (SendData priority ttl (fib_out_sns_id entry) n use_reliable send_data) pm)
                             (\<lambda>_. client_data_loop q priority ttl typ sid net_data rest))
                in if \<not> use_reliable then send 0 pm
                   else case map_of (fib_streams entry) sid of
                       Some n \<Rightarrow> send n pm
                     | None \<Rightarrow>
                         if typ \<noteq> kNewStream then pm_ok pm
                         else andthen (on_session r (PS_CreateStream (q_transport q) (fib_out_sns_id entry) priority) pm) (\<lambda>n pm.
                           send n (set_client_entry key (entry\<lparr>fib_streams := mput sid n (fib_streams entry)\<rparr>) pm)))))"

definition ClientDataRecv :: "quicr_api \<Rightarrow> u64 \<Rightarrow> u8 \<Rightarrow> u32 \<Rightarrow> u8 \<Rightarrow> u64 \<Rightarrow> u64 \<Rightarrow> bytes \<Rightarrow> PeerManager \<Rightarrow> unit pm_res" where
  "ClientDataRecv q fh priority ttl typ group_id subgroup_id data pm =
     (case DataHeader_Serialize (DataHeader_init\<lparr>dh_type := typ, dh_priority := priority, dh_ttl := ttl, dh_track_full_name_hash := fh\<rparr>) of
        Inl e \<Rightarrow> pm_fail e pm
      | Inr hdr \<Rightarrow> client_data_loop q priority ttl typ (in_stream_id group_id subgroup_id) (hdr @ data)
                     (key_range fh (ib_client_fib (pm_info_base pm))) pm)"

section \<open>Closing of streams\<close>

definition close_egress :: "u64 \<times> u32 \<Rightarrow> u64 \<Rightarrow> u64 \<Rightarrow> bool \<Rightarrow> u64 \<times> FibEntry \<Rightarrow> PeerManager \<Rightarrow> unit pm_res" where
  "close_egress key stream_id fh reset out pm =
     (if fst out = 0 then call_client (CM_Peer_Stream_Closed fh stream_id reset) pm
      else case map_of (fib_streams (snd out)) stream_id of
          None \<Rightarrow> pm_ok pm
        | Some n \<Rightarrow> (case lock_sess pm (fib_peer_session (snd out)) of
            None \<Rightarrow> pm_ok pm
          | Some (r, _) \<Rightarrow> andthen (session_do r (PS_CloseStream (fib_out_sns_id (snd out)) n reset) pm) (\<lambda>_ pm.
              pm_ok (set_peer_fib key (mput (fst out) ((snd out)\<lparr>fib_streams := mdel stream_id (fib_streams (snd out))\<rparr>) (peer_fib_entries key pm)) pm))))"

text \<open>The client table is searched by egress stream, but the entry is erased by the same number as a key.\<close>

definition close_client :: "u64 \<Rightarrow> u64 \<Rightarrow> bool \<Rightarrow> (u64 \<times> u64) \<times> FibEntry \<Rightarrow> PeerManager \<Rightarrow> unit pm_res" where
  "close_client peer_session_id stream_id reset e pm =
     (case e of (key, entry) \<Rightarrow>
        if snd key \<noteq> peer_session_id \<or> lock_sess pm (fib_peer_session entry) = None \<or> stream_id \<notin> snd ` set (fib_streams entry) then pm_ok pm
        else call_client (CM_Peer_Stream_Closed (fst key) stream_id reset)
               (set_client_entry key (entry\<lparr>fib_streams := mdel stream_id (fib_streams entry)\<rparr>) pm))"

definition CloseStream :: "u64 \<Rightarrow> u32 \<Rightarrow> u64 \<Rightarrow> u64 \<Rightarrow> bool \<Rightarrow> PeerManager \<Rightarrow> unit pm_res" where
  "CloseStream peer_session_id in_sns stream_id fh reset pm =
     andthen (case map_of (ib_peer_fib (pm_info_base pm)) (peer_session_id, in_sns) of
                None \<Rightarrow> pm_ok pm
              | Some entries \<Rightarrow> foreach (close_egress (peer_session_id, in_sns) stream_id fh reset) entries pm)
       (\<lambda>_ pm. foreach (close_client peer_session_id stream_id reset) (ib_client_fib (pm_info_base pm)) pm)"

section \<open>Streams of a publisher\<close>

lemma in_stream_id_nat:
  assumes "unat g < 2 ^ 48" and "unat s < 2 ^ 16"
  shows "unat (in_stream_id g s) = unat g * 2 ^ 16 + unat s"
proof -
  have t: "take_bit 16 s = s"
    using assms(2) by (intro unsigned_word_eqI [where ?'a = nat]) (simp add: unsigned_take_bit_eq take_bit_nat_eq_self)
  have s: "ucast (ucast s :: u16) = s" using t by (auto simp: bit_eq_iff bit_ucast_iff bit_take_bit_iff)
  have "unat (push_bit 16 g) = unat g * 2 ^ 16"
    using assms(1) by (subst unsigned_push_bit_eq) (simp add: push_bit_eq_mult take_bit_nat_eq_self)
  moreover have "or (push_bit 16 g) s = push_bit 16 g + s"
  proof (rule disjunctive_add_eq_or [symmetric])
    show "and (push_bit 16 g) s = 0"
      by (subst t [symmetric]) (auto simp: bit_eq_iff bit_and_iff bit_push_bit_iff bit_take_bit_iff)
  qed
  moreover have "unat g * 2 ^ 16 + unat s < 2 ^ 64" using assms by simp
  ultimately show ?thesis by (simp add: in_stream_id_def s unat_word_ariths)
qed

text \<open>Streams of a publisher are told apart.  The key under which the stream of a subgroup is kept is
  different for different pairs of group below $2^{48}$ and subgroup below $2^{16}$; a subgroup number beyond
  16 bits is cut, so it falls on the key of another subgroup of the same group.\<close>

theorem in_stream_id_injective:
  assumes "unat g < 2 ^ 48" and "unat g' < 2 ^ 48" and "unat s < 2 ^ 16" and "unat s' < 2 ^ 16"
  shows "(in_stream_id g s = in_stream_id g' s' \<longleftrightarrow> g = g' \<and> s = s') \<and> in_stream_id g (s + 0x10000) = in_stream_id g s"
proof -
  have "g = g' \<and> s = s'" if "in_stream_id g s = in_stream_id g' s'"
  proof -
    have e: "unat g * 2 ^ 16 + unat s = unat g' * 2 ^ 16 + unat s'"
      using that assms by (metis in_stream_id_nat)
    have "unat g = unat g'" using arg_cong [OF e, of "\<lambda>x. x div 2 ^ 16"] assms(3,4) by simp
    moreover have "unat s = unat s'" using arg_cong [OF e, of "\<lambda>x. x mod 2 ^ 16"] assms(3,4) by simp
    ultimately show ?thesis using unsigned_word_eqI by blast
  qed
  moreover have "(ucast (s + 0x10000) :: u16) = ucast s" by transfer (simp add: take_bit_eq_mod mod_mod_cancel)
  ultimately show ?thesis by (auto simp: in_stream_id_def)
qed

theorem in_stream_id_injective_witness:
  "in_stream_id 7 1 \<noteq> in_stream_id 7 2 \<and> in_stream_id 7 0x10001 = in_stream_id 7 1"
  using in_stream_id_injective [of 7 7 1 2] by simp

section \<open>Rewriting the node set identifier\<close>

text \<open>Two byte strings that differ at most in the identifier.\<close>

definition same_but_sns :: "bytes \<Rightarrow> bytes \<Rightarrow> bool" where
  "same_but_sns d d' \<longleftrightarrow> length d' = length d \<and> take 2 d' = take 2 d \<and> drop 6 d' = drop 6 d"

definition with_sns :: "u32 \<Rightarrow> bytes \<Rightarrow> bytes" where
  "with_sns i d = take 2 d @ put_int i @ drop 6 d"

lemma put_sns_id_eq:
  assumes "6 \<le> length d" and "same_but_sns d d'"
  shows "put_sns_id i d' = Inr (with_sns i d)" and "same_but_sns d (with_sns i d)"
  using assms by (simp_all add: put_sns_id_def same_but_sns_def with_sns_def)

lemma same_but_sns_refl [simp]: "same_but_sns d d"
  by (simp add: same_but_sns_def)

text \<open>Rewriting the identifier of a serialised header is serialising the header with the identifier.\<close>

lemma with_sns_header:
  assumes t: "dh_type h = kDatagram \<or> dh_type h = kNewStream" and "dh_header_len h = 0"
  shows "\<exists>hdr hdr'. DataHeader_Serialize h = Inr hdr \<and> DataHeader_Serialize (h\<lparr>dh_sns_id := i\<rparr>) = Inr hdr'
    \<and> with_sns i (hdr @ payload) = hdr' @ payload \<and> 6 \<le> length hdr"
proof -
  have "DataHeader_Serialize h = Inr (word_of_nat (header_bytes h) # dh_type h # DataHeader_fields h)"
    by (rule DataHeader_Serialize_eq) (use assms in simp_all)
  moreover have "DataHeader_Serialize (h\<lparr>dh_sns_id := i\<rparr>) =
      Inr (word_of_nat (header_bytes h) # dh_type h # DataHeader_fields (h\<lparr>dh_sns_id := i\<rparr>))"
    by (subst DataHeader_Serialize_eq) (use assms in \<open>simp_all add: header_bytes_def\<close>)
  moreover have "\<exists>rest. DataHeader_fields h = put_int (dh_sns_id h) @ rest \<and> DataHeader_fields (h\<lparr>dh_sns_id := i\<rparr>) = put_int i @ rest"
    using t by (auto simp: DataHeader_fields_def)
  ultimately show ?thesis by (auto simp: with_sns_def)
qed

section \<open>Data of peers\<close>

text \<open>The egress sessions a data object needs are there.\<close>

definition egress_live :: "PeerManager \<Rightarrow> u64 \<Rightarrow> u64 \<times> FibEntry \<Rightarrow> bool" where
  "egress_live pm ingress out \<longleftrightarrow> fst out \<in> {0, ingress} \<or> lock_sess pm (fib_peer_session (snd out)) \<noteq> None"

text \<open>What one egress gets: nothing for the ingress itself; the payload for the clients of this relay; the
  data for another relay, with the identifier rewritten when the data carries one.\<close>

definition self_out :: "bool \<Rightarrow> u64 \<Rightarrow> DataHeader \<Rightarrow> bytes \<Rightarrow> u64 \<Rightarrow> bool \<Rightarrow> PeerManager \<Rightarrow> event list" where
  "self_out is_new stream_id hdr data off rel pm =
     (case subscription (pm_info_base pm) (dh_track_full_name_hash hdr) (ni_id (pm_node_info pm)) of
        None \<Rightarrow> []
      | Some si \<Rightarrow> [CM_Peer_Data_Received (th_fullname (si_track_hash si)) (rel \<and> is_new) (if rel then Some stream_id else None) (drop (unat off) data)])"

definition peer_out :: "DataHeader \<Rightarrow> bytes \<Rightarrow> bool \<Rightarrow> FibEntry \<Rightarrow> u64 \<Rightarrow> PeerSession \<Rightarrow> event list" where
  "peer_out hdr data rel entry n s =
     (if ps_status s = S_Connected
      then [E_Enqueue (ps_t_conn_id s) (ucast (fib_out_sns_id entry)) n data (dh_priority hdr) (dh_ttl hdr) (Some rel)] else [])"

definition egress_out :: "PeerManager \<Rightarrow> u64 \<Rightarrow> bool \<Rightarrow> u64 \<Rightarrow> DataHeader \<Rightarrow> bytes \<Rightarrow> u64 \<Rightarrow> bool \<Rightarrow> u64 \<times> FibEntry \<Rightarrow> event list" where
  "egress_out pm ingress is_new stream_id hdr data off rel out =
     (if fst out = ingress then []
      else if fst out = 0 then self_out is_new stream_id hdr data off rel pm
      else case (if rel then map_of (fib_streams (snd out)) stream_id else Some 0) of
          None \<Rightarrow> []
        | Some n \<Rightarrow> peer_out hdr (if rel then data else with_sns (fib_out_sns_id (snd out)) data) rel (snd out) n
                     (snd (the (lock_sess pm (fib_peer_session (snd out))))))"

lemma SendData_eq: "SendData (dh_priority hdr) (dh_ttl hdr) (fib_out_sns_id entry) n rel data (s, log) = (s, log @ peer_out hdr data rel entry n s)"
  by (simp add: SendData_def peer_out_def sess_emit_def)

lemma lock_sess_log [simp]: "lock_sess (pm\<lparr>pm_log := log\<rparr>) = lock_sess pm" "lock_sess (pm\<lparr>pm_info_base := ib\<rparr>) = lock_sess pm"
  by (simp_all add: lock_sess_def fun_eq_iff split: option.split)

lemma lock_sess_Some: "lock_sess pm w = Some (r, s) \<longleftrightarrow> w = Some r \<and> map_of (pm_sessions pm) r = Some s"
  by (auto simp: lock_sess_def split: option.splits)

lemma forward_self_eq:
  assumes "pm_client_manager pm" and "unat off \<le> length data"
  shows "forward_self is_new stream_id hdr data off rel pm = pm_ok (pm\<lparr>pm_log := pm_log pm @ self_out is_new stream_id hdr data off rel pm\<rparr>)"
  using assms by (simp add: forward_self_def self_out_def subscription_def mat_def call_client_def split: option.split)

text \<open>One step of the loop, for a datagram or for data of an existing stream.\<close>

lemma forward_entry_eq:
  assumes wf: "msorted (pm_sessions pm)" "pm_client_manager pm" and live: "egress_live pm (fst key) out"
    and kind: "\<not> (rel \<and> is_new)" and len: "rel \<or> 6 \<le> length data" "unat off \<le> length data"
    and d: "if rel then d = data else same_but_sns data d"
  shows "\<exists>d'. forward_entry q key is_new stream_id hdr data off rel out (pm, d) =
      ((pm\<lparr>pm_log := pm_log pm @ egress_out pm (fst key) is_new stream_id hdr data off rel out\<rparr>, d'), Inr ())
    \<and> (if rel then d' = data else same_but_sns data d')"
proof (cases "fst out \<in> {0, fst key}")
  case True
  then show ?thesis using d forward_self_eq [OF wf(2) len(2)] by (auto simp: forward_entry_def egress_out_def)
next
  case False
  then obtain r s where l: "lock_sess pm (fib_peer_session (snd out)) = Some (r, s)" using live by (auto simp: egress_live_def)
  then have s: "map_of (pm_sessions pm) r = Some s" by (simp add: lock_sess_Some)
  define d' where "d' = (if rel then data else with_sns (fib_out_sns_id (snd out)) data)"
  have put: "(if is_new \<or> \<not> rel then put_sns_id (fib_out_sns_id (snd out)) d else Inr d) = Inr d'"
    "if rel then d' = data else same_but_sns data d'"
    using kind len(1) d put_sns_id_eq by (auto simp: d'_def)
  have send: "session_do r (SendData (dh_priority hdr) (dh_ttl hdr) (fib_out_sns_id (snd out)) n rel d') pm
      = pm_ok (pm\<lparr>pm_log := pm_log pm @ peer_out hdr d' rel (snd out) n s\<rparr>)" for n
    by (rule session_do_same [OF wf(1) s]) (simp add: SendData_eq)
  have eg: "(if rel then egress_stream q key is_new stream_id (dh_priority hdr) out pm else (pm, Inr (Some 0)))
      = (pm, Inr (if rel then map_of (fib_streams (snd out)) stream_id else Some 0))"
    using kind by (simp add: egress_stream_def split: option.split)
  define m where "m = (if rel then map_of (fib_streams (snd out)) stream_id else Some 0)"
  show ?thesis
    unfolding forward_entry_def egress_out_def d'_def [symmetric] m_def [symmetric] eg [folded m_def] put(1) split sum.case
    using False put(2) by (cases m) (simp_all add: l send)
qed

lemma forward_loop:
  assumes "msorted (pm_sessions pm)" "pm_client_manager pm" and "\<forall>out \<in> set entries. egress_live pm (fst key) out"
    and "\<not> (rel \<and> is_new)" and "rel \<or> 6 \<le> length data" "unat off \<le> length data" and "if rel then d = data else same_but_sns data d"
  shows "\<exists>d'. foreach (forward_entry q key is_new stream_id hdr data off rel) entries (pm, d) =
      ((pm\<lparr>pm_log := pm_log pm @ concat (map (egress_out pm (fst key) is_new stream_id hdr data off rel) entries)\<rparr>, d'), Inr ())"
  using assms
proof (induction entries arbitrary: pm d)
  case (Cons out entries)
  let ?pm = "pm\<lparr>pm_log := pm_log pm @ egress_out pm (fst key) is_new stream_id hdr data off rel out\<rparr>"
  obtain d1 where step: "forward_entry q key is_new stream_id hdr data off rel out (pm, d) = ((?pm, d1), Inr ())"
      "if rel then d1 = data else same_but_sns data d1"
    using forward_entry_eq [OF Cons.prems(1,2) _ Cons.prems(4-7), of key out q stream_id hdr] Cons.prems(3) by auto
  have "egress_out ?pm = egress_out pm" by (intro ext) (simp add: egress_out_def self_out_def cong: option.case_cong)
  moreover have "egress_live ?pm = egress_live pm" by (simp add: egress_live_def fun_eq_iff)
  ultimately show ?case using Cons.IH [of ?pm d1] step Cons.prems by auto
qed simp

lemma ForwardPeerData_eq:
  assumes "pm_wf pm" and "map_of (ib_peer_fib (pm_info_base pm)) (sid, dh_sns_id hdr) = Some entries"
    and "\<forall>out \<in> set entries. egress_live pm sid out"
    and "\<not> (rel \<and> is_new)" and "rel \<or> 6 \<le> length data" "unat off \<le> length data"
  shows "ForwardPeerData q sid is_new stream_id hdr data off rel pm =
    pm_ok (pm\<lparr>pm_log := pm_log pm @ concat (map (egress_out pm sid is_new stream_id hdr data off rel) entries)\<rparr>)"
proof -
  have "msorted (pm_sessions pm)" "pm_client_manager pm" using assms(1) by (simp_all add: pm_wf_def)
  moreover have "if rel then data = data else same_but_sns data data" by simp
  ultimately obtain d' where "foreach (forward_entry q (sid, dh_sns_id hdr) is_new stream_id hdr data off rel) entries (pm, data) =
      ((pm\<lparr>pm_log := pm_log pm @ concat (map (egress_out pm sid is_new stream_id hdr data off rel) entries)\<rparr>, d'), Inr ())"
    using forward_loop [of pm entries "(sid, dh_sns_id hdr)" rel is_new data off data q stream_id hdr] assms(3-) by (auto simp only: fst_conv)
  then show ?thesis using assms(2) by (simp add: ForwardPeerData_def)
qed

text \<open>C27. Forwarding of peer data.  A datagram, or data of a stream that was started before, is put on the
  wire once for every egress of its node set, in table order, and for nothing else: never to the session
  it came from; to the clients of this relay only if it has subscribed itself, without the header; to
  another relay under that relay's own identifier, rewritten in a datagram and left alone in the middle
  of a stream, and on the stream that belongs to the ingress stream (not at all if there is none).  The
  copy that is rewritten in place for one egress does not leak into the next.  The handler returns and
  changes nothing but the log.\<close>

theorem forward_peer_data_exact:
  assumes "pm_wf pm" and "map_of (ib_peer_fib (pm_info_base pm)) (sid, dh_sns_id hdr) = Some entries"
    and "\<forall>out \<in> set entries. egress_live pm sid out"
    and "\<not> (rel \<and> is_new)" and "rel \<or> 6 \<le> length data" "unat off \<le> length data"
  shows "ForwardPeerData q sid is_new stream_id hdr data off rel pm =
    pm_ok (pm\<lparr>pm_log := pm_log pm @ concat (map (egress_out pm sid is_new stream_id hdr data off rel) entries)\<rparr>)"
  by (rule ForwardPeerData_eq [OF assms])

definition sample_entry :: "u32 \<Rightarrow> sref \<Rightarrow> FibEntry" where
  "sample_entry i r = \<lparr>fib_update_ref = 1, fib_streams = [(4, 8)], fib_out_sns_id = i, fib_peer_session = Some r, fib_track_fullname_hash = 0\<rparr>"

text \<open>The node set 6 of session 10 goes out through session 20 (and would go back through 10).\<close>

definition forwarding_manager :: PeerManager where
  "forwarding_manager = sample_manager\<lparr>pm_info_base := InfoBase_init\<lparr>ib_peer_fib := [((10, 6), [(10, sample_entry 2 0), (20, sample_entry 9 1)])]\<rparr>\<rparr>"

lemma forwarding_manager_wf: "pm_wf forwarding_manager"
  unfolding forwarding_manager_def
  by (rule pm_wf_info_base [OF sample_manager_wf]) (simp_all add: nodes_same_def sample_manager_def msorted_Cons)

lemma forwarding_manager_live: "\<forall>out \<in> set [(10, sample_entry 2 0), (20, sample_entry 9 1)]. egress_live forwarding_manager 10 out"
  by (simp add: egress_live_def lock_sess_def sample_entry_def forwarding_manager_def sample_manager_def)

theorem forward_peer_data_exact_witness:
  "pm_log (fst (ForwardPeerData sample_quicr 10 False 0 (DataHeader_make 6 33 kDatagram) [14, 0, 0, 0, 0, 6, 1] 0 False forwarding_manager)) =
     [E_Enqueue 20 9 0 [14, 0, 0, 0, 0, 9, 1] 1 2000 (Some False)]"
proof -
  have f: "map_of (ib_peer_fib (pm_info_base forwarding_manager)) (10, dh_sns_id (DataHeader_make 6 33 kDatagram)) = Some [(10, sample_entry 2 0), (20, sample_entry 9 1)]"
    by (simp add: forwarding_manager_def DataHeader_make_def)
  have w: "with_sns 9 [14, 0, 0, 0, 0, 6, 1] = [14, 0, 0, 0, 0, 9, 1]" by code_simp
  show ?thesis
    using forward_peer_data_exact [OF forwarding_manager_wf f forwarding_manager_live, of False False "[14, 0, 0, 0, 0, 6, 1]" 0 sample_quicr 0] w
    by (simp add: egress_out_def peer_out_def sample_entry_def lock_sess_def forwarding_manager_def sample_manager_def sample_peer_def
        PeerSession_make_def DataHeader_make_def DataHeader_init_def)
qed

section \<open>Starting a stream\<close>

text \<open>What the start of a stream leaves for one egress: an egress stream \<open>n\<close>, created now or before,
  under which the entry keeps it and on which the data went out with the egress identifier.\<close>

definition stream_started :: "u64 \<times> u32 \<Rightarrow> u64 \<Rightarrow> DataHeader \<Rightarrow> bytes \<Rightarrow> PeerManager \<Rightarrow> event list \<Rightarrow> u64 \<times> FibEntry \<Rightarrow> bool" where
  "stream_started key stream_id hdr data pm evs out \<longleftrightarrow> (\<exists>n r s.
     lock_sess pm (fib_peer_session (snd out)) = Some (r, s)
     \<and> map_of (peer_fib_entries key pm) (fst out) = Some ((snd out)\<lparr>fib_streams := mput stream_id n (fib_streams (snd out))\<rparr>)
     \<and> (case map_of (fib_streams (snd out)) stream_id of
          None \<Rightarrow> E_Create_Stream (ps_t_conn_id s) (ucast (fib_out_sns_id (snd out))) (dh_priority hdr) n \<in> set evs
        | Some m \<Rightarrow> n = m)
     \<and> set (peer_out hdr (with_sns (fib_out_sns_id (snd out)) data) True (snd out) n s) \<subseteq> set evs)"

text \<open>What the loop leaves alone while it works on the entries with the given keys.\<close>

definition fwd_frame :: "u64 \<times> u32 \<Rightarrow> u64 set \<Rightarrow> PeerManager \<Rightarrow> PeerManager \<Rightarrow> event list \<Rightarrow> bool" where
  "fwd_frame key ks pm pm' evs \<longleftrightarrow> pm_sessions pm' = pm_sessions pm \<and> pm_client_manager pm' = pm_client_manager pm
     \<and> pm_log pm' = pm_log pm @ evs
     \<and> (\<forall>k. k \<notin> ks \<longrightarrow> map_of (peer_fib_entries key pm') k = map_of (peer_fib_entries key pm) k)"

lemma peer_fib_entries_simps [simp]:
  "peer_fib_entries key (pm\<lparr>pm_log := l\<rparr>) = peer_fib_entries key pm" "peer_fib_entries key (pm\<lparr>pm_sessions := ss\<rparr>) = peer_fib_entries key pm"
  "peer_fib_entries key (set_peer_fib key es pm) = es"
  by (simp_all add: peer_fib_entries_def set_peer_fib_def)

lemma set_peer_fib_simps [simp]: "pm_sessions (set_peer_fib key es pm) = pm_sessions pm" "pm_log (set_peer_fib key es pm) = pm_log pm"
  "pm_client_manager (set_peer_fib key es pm) = pm_client_manager pm" "lock_sess (set_peer_fib key es pm) = lock_sess pm"
  by (simp_all add: set_peer_fib_def)

lemma create_stream_eq:
  assumes "msorted (pm_sessions pm)" and "map_of (pm_sessions pm) r = Some s"
  shows "on_session r (PS_CreateStream ta sid p) pm = (pm\<lparr>pm_log := pm_log pm @
     [E_Create_Stream (ps_t_conn_id s) (ucast sid) p (t_stream ta (pm_log pm))]\<rparr>, Inr (t_stream ta (pm_log pm)))"
  using assms by (simp add: on_session_def PS_CreateStream_def sess_emit_def Let_def mput_same)

lemma new_stream_step:
  assumes wf: "msorted (pm_sessions pm)" "pm_client_manager pm" and live: "egress_live pm (fst key) out"
    and len: "6 \<le> length data" "unat off \<le> length data" and d: "same_but_sns data d"
    and cur: "map_of (peer_fib_entries key pm) (fst out) = Some (snd out)" and streams: "msorted (fib_streams (snd out))"
  shows "\<exists>pm' d' evs. forward_entry q key True stream_id hdr data off True out (pm, d) = ((pm', d'), Inr ())
    \<and> same_but_sns data d' \<and> fwd_frame key {fst out} pm pm' evs
    \<and> (fst out \<notin> {0, fst key} \<longrightarrow> stream_started key stream_id hdr data pm' evs out)"
proof (cases "fst out \<in> {0, fst key}")
  case True
  then show ?thesis using d forward_self_eq [OF wf(2) len(2)] by (auto simp: forward_entry_def fwd_frame_def)
next
  case False
  then obtain r s where l: "lock_sess pm (fib_peer_session (snd out)) = Some (r, s)" using live by (auto simp: egress_live_def)
  then have s: "map_of (pm_sessions pm) r = Some s" by (simp add: lock_sess_Some)
  let ?i = "fib_out_sns_id (snd out)"
  let ?d = "with_sns ?i data"
  have put: "put_sns_id ?i d = Inr ?d" "same_but_sns data ?d" using put_sns_id_eq [OF len(1)] d by auto
  have send: "session_do r (SendData (dh_priority hdr) (dh_ttl hdr) ?i n True ?d) pm'
      = pm_ok (pm'\<lparr>pm_log := pm_log pm' @ peer_out hdr ?d True (snd out) n s\<rparr>)" if "pm_sessions pm' = pm_sessions pm" for n pm'
    using that wf(1) s by (intro session_do_same) (simp_all add: SendData_eq)
  show ?thesis
  proof (cases "map_of (fib_streams (snd out)) stream_id")
    case (Some n)
    let ?evs = "peer_out hdr ?d True (snd out) n s"
    have "forward_entry q key True stream_id hdr data off True out (pm, d) = ((pm\<lparr>pm_log := pm_log pm @ ?evs\<rparr>, ?d), Inr ())"
      using False by (simp add: forward_entry_def put egress_stream_def Some l send)
    moreover have "mput stream_id n (fib_streams (snd out)) = fib_streams (snd out)" using streams Some by (rule mput_same)
    ultimately show ?thesis using put(2) l cur Some
      by (intro exI [of _ "pm\<lparr>pm_log := pm_log pm @ ?evs\<rparr>"] exI [of _ ?d] exI [of _ ?evs])
        (simp add: fwd_frame_def stream_started_def)
  next
    case None
    define n where "n = t_stream (q_transport q) (pm_log pm)"
    let ?ev = "E_Create_Stream (ps_t_conn_id s) (ucast ?i) (dh_priority hdr) n"
    let ?e = "(snd out)\<lparr>fib_streams := mput stream_id n (fib_streams (snd out))\<rparr>"
    define pm1 where "pm1 = set_peer_fib key (mput (fst out) ?e (peer_fib_entries key pm)) (pm\<lparr>pm_log := pm_log pm @ [?ev]\<rparr>)"
    let ?evs = "?ev # peer_out hdr ?d True (snd out) n s"
    have "egress_stream q key True stream_id (dh_priority hdr) out pm = (pm1, Inr (Some n))"
      by (simp add: egress_stream_def None l create_stream_eq [OF wf(1) s] pm1_def n_def)
    moreover have p1: "pm_sessions pm1 = pm_sessions pm" "lock_sess pm1 = lock_sess pm" "pm_log pm1 = pm_log pm @ [?ev]"
      by (simp_all add: pm1_def)
    ultimately have "forward_entry q key True stream_id hdr data off True out (pm, d) = ((pm1\<lparr>pm_log := pm_log pm @ ?evs\<rparr>, ?d), Inr ())"
      using False by (simp add: forward_entry_def put l send)
    moreover have "fwd_frame key {fst out} pm (pm1\<lparr>pm_log := pm_log pm @ ?evs\<rparr>) ?evs" by (simp add: fwd_frame_def pm1_def)
    moreover have "stream_started key stream_id hdr data (pm1\<lparr>pm_log := pm_log pm @ ?evs\<rparr>) ?evs out"
      using l None by (auto simp: stream_started_def p1) (auto simp: pm1_def)
    ultimately show ?thesis using put(2) by blast
  qed
qed

lemma fwd_frame_trans: "fwd_frame key A pm pm1 evs1 \<Longrightarrow> fwd_frame key B pm1 pm2 evs2 \<Longrightarrow> fwd_frame key (A \<union> B) pm pm2 (evs1 @ evs2)"
  by (simp add: fwd_frame_def)

lemma stream_started_mono:
  assumes "stream_started key stream_id hdr data pm evs out" and "set evs \<subseteq> set evs'"
  shows "stream_started key stream_id hdr data pm evs' out"
  using assms unfolding stream_started_def by (cases "map_of (fib_streams (snd out)) stream_id") (simp_all, blast+)

lemma stream_started_later:
  assumes "stream_started key stream_id hdr data pm evs out" and "fwd_frame key ks pm pm' evs'" and "fst out \<notin> ks"
  shows "stream_started key stream_id hdr data pm' (evs @ evs') out"
proof -
  have "lock_sess pm' = lock_sess pm" using assms(2) by (simp add: fwd_frame_def lock_sess_def fun_eq_iff split: option.split)
  moreover have "map_of (peer_fib_entries key pm') (fst out) = map_of (peer_fib_entries key pm) (fst out)"
    using assms(2,3) by (simp add: fwd_frame_def)
  ultimately have "stream_started key stream_id hdr data pm' evs out" using assms(1) unfolding stream_started_def by metis
  then show ?thesis by (rule stream_started_mono) simp
qed

lemma new_stream_loop:
  assumes "msorted (pm_sessions pm)" "pm_client_manager pm" and "\<forall>out \<in> set entries. egress_live pm (fst key) out"
    and "6 \<le> length data" "unat off \<le> length data" and "same_but_sns data d" and "distinct (map fst entries)"
    and "\<forall>out \<in> set entries. map_of (peer_fib_entries key pm) (fst out) = Some (snd out) \<and> msorted (fib_streams (snd out))"
  shows "\<exists>pm' d' evs. foreach (forward_entry q key True stream_id hdr data off True) entries (pm, d) = ((pm', d'), Inr ())
    \<and> fwd_frame key (fst ` set entries) pm pm' evs
    \<and> (\<forall>out \<in> set entries. fst out \<notin> {0, fst key} \<longrightarrow> stream_started key stream_id hdr data pm' evs out)"
  using assms
proof (induction entries arbitrary: pm d)
  case Nil
  then show ?case by (auto simp: fwd_frame_def intro!: exI [of _ pm])
next
  case (Cons out entries)
  obtain pm1 d1 evs1 where step: "forward_entry q key True stream_id hdr data off True out (pm, d) = ((pm1, d1), Inr ())"
      "same_but_sns data d1" and f1: "fwd_frame key {fst out} pm pm1 evs1"
      and s1: "fst out \<notin> {0, fst key} \<longrightarrow> stream_started key stream_id hdr data pm1 evs1 out"
    using new_stream_step [OF Cons.prems(1,2) _ Cons.prems(4-6), of key out q stream_id hdr] Cons.prems(3,8) by auto
  have o: "fst out \<notin> fst ` set entries" using Cons.prems(7) by simp
  have same: "pm_sessions pm1 = pm_sessions pm" "pm_client_manager pm1 = pm_client_manager pm" "egress_live pm1 = egress_live pm"
    using f1 by (auto simp: fwd_frame_def egress_live_def lock_sess_def fun_eq_iff split: option.split)
  have "map_of (peer_fib_entries key pm1) (fst e) = Some (snd e)" if "e \<in> set entries" for e
  proof -
    have "fst e \<noteq> fst out" using that o by (metis imageI)
    then show ?thesis using that f1 Cons.prems(8) by (simp add: fwd_frame_def)
  qed
  then obtain pm2 d2 evs2 where rest: "foreach (forward_entry q key True stream_id hdr data off True) entries (pm1, d1) = ((pm2, d2), Inr ())"
      and f2: "fwd_frame key (fst ` set entries) pm1 pm2 evs2"
      and s2: "\<forall>e \<in> set entries. fst e \<notin> {0, fst key} \<longrightarrow> stream_started key stream_id hdr data pm2 evs2 e"
    using Cons.IH [of pm1 d1] same Cons.prems step(2) by auto
  have "stream_started key stream_id hdr data pm2 (evs1 @ evs2) e" if "stream_started key stream_id hdr data pm2 evs2 e" for e
    using that by (rule stream_started_mono) simp
  then have "\<forall>e \<in> set (out # entries). fst e \<notin> {0, fst key} \<longrightarrow> stream_started key stream_id hdr data pm2 (evs1 @ evs2) e"
    using s1 s2 stream_started_later [OF _ f2 o] by auto
  then show ?case using step(1) rest fwd_frame_trans [OF f1 f2] by auto
qed

text \<open>The start of a stream.  Data that starts a stream gives every egress relay of its node set one egress
  stream for it: the one already known, or one created now on that relay's session with the egress node
  set and the priority of the header.  The table keeps it under the ingress stream, and the data goes out on
  it with the egress identifier in the header.  The handler returns, and apart from the entries
  of this node set and the log nothing the sessions have is changed.\<close>

theorem forward_new_stream:
  assumes wf: "pm_wf pm" and fib: "map_of (ib_peer_fib (pm_info_base pm)) (sid, dh_sns_id hdr) = Some entries"
    and ok: "msorted entries" "\<forall>out \<in> set entries. egress_live pm sid out \<and> msorted (fib_streams (snd out))"
    and len: "6 \<le> length data" "unat off \<le> length data"
  shows "\<exists>pm' evs. ForwardPeerData q sid True stream_id hdr data off True pm = pm_ok pm'
    \<and> pm_log pm' = pm_log pm @ evs \<and> pm_sessions pm' = pm_sessions pm
    \<and> (\<forall>out \<in> set entries. fst out \<notin> {0, sid} \<longrightarrow> stream_started (sid, dh_sns_id hdr) stream_id hdr data pm' evs out)"
proof -
  let ?key = "(sid, dh_sns_id hdr)"
  have m: "msorted (pm_sessions pm)" "pm_client_manager pm" using wf by (simp_all add: pm_wf_def)
  have cur: "\<forall>out \<in> set entries. map_of (peer_fib_entries ?key pm) (fst out) = Some (snd out) \<and> msorted (fib_streams (snd out))"
    using fib ok om.entries_find [of entries] by (fastforce simp: peer_fib_entries_def mat_def)
  obtain pm' d' evs where "foreach (forward_entry q ?key True stream_id hdr data off True) entries (pm, data) = ((pm', d'), Inr ())"
      "fwd_frame ?key (fst ` set entries) pm pm' evs"
      "\<forall>out \<in> set entries. fst out \<notin> {0, sid} \<longrightarrow> stream_started ?key stream_id hdr data pm' evs out"
    using new_stream_loop [OF m _ len same_but_sns_refl msorted_distinct [OF ok(1)] cur, of q stream_id hdr] ok(2) by auto
  then show ?thesis using fib by (auto simp: ForwardPeerData_def fwd_frame_def)
qed

theorem forward_new_stream_witness:
  "\<exists>pm' evs. ForwardPeerData sample_quicr 10 True 12 (DataHeader_make 6 33 kNewStream) [19, 2, 0, 0, 0, 6, 1] 0 True forwarding_manager = pm_ok pm'
     \<and> stream_started (10, 6) 12 (DataHeader_make 6 33 kNewStream) [19, 2, 0, 0, 0, 6, 1] pm' evs (20, sample_entry 9 1)"
proof -
  let ?h = "DataHeader_make 6 33 kNewStream"
  let ?es = "[(10, sample_entry 2 0), (20, sample_entry 9 1)] :: (u64 \<times> FibEntry) list"
  have f: "map_of (ib_peer_fib (pm_info_base forwarding_manager)) (10, dh_sns_id ?h) = Some ?es"
    by (simp add: forwarding_manager_def DataHeader_make_def)
  have "msorted ?es" "\<forall>out \<in> set ?es. egress_live forwarding_manager 10 out \<and> msorted (fib_streams (snd out))"
    using forwarding_manager_live by (simp_all add: msorted_Cons sample_entry_def)
  from forward_new_stream [OF forwarding_manager_wf f this, of "[19, 2, 0, 0, 0, 6, 1]" 0 sample_quicr 12] show ?thesis
    by (auto simp: DataHeader_make_def)
qed

section \<open>The forwarding table of a node set\<close>

text \<open>The egress of a node: this relay (0), or the session that is the best way to the node.\<close>

definition egress_of :: "PeerManager \<Rightarrow> u64 \<Rightarrow> u64 option" where
  "egress_of pm n = (if n = ni_id (pm_node_info pm) then Some 0
     else map_option (\<lambda>(_, s). ps_t_conn_id s) (lock_sess pm (GetBestPeerSession n (pm_info_base pm))))"

lemma set_peer_fib_wf: "pm_wf pm \<Longrightarrow> pm_wf (set_peer_fib key es pm) \<and> pm_keep pm (set_peer_fib key es pm)"
  unfolding set_peer_fib_def
  by (intro conjI pm_wf_info_base pm_keep_info_base) (simp_all add: nodes_same_def pm_wf_def)

lemma on_session_keeps:
  assumes "pm_wf pm" and "live_of pm r \<noteq> None" and "sess_method f"
  shows "\<exists>pm' x. on_session r f pm = (pm', Inr x) \<and> pm_wf pm' \<and> pm_keep pm pm' \<and> pm_info_base pm' = pm_info_base pm"
proof -
  obtain x where x: "snd (on_session r f pm) = Inr x" using safe_on_session(2) [OF assms] by blast
  have "pm_info_base (fst (on_session r f pm)) = pm_info_base pm"
    by (simp add: on_session_def case_prod_unfold split: option.split)
  then show ?thesis using safe_on_session(1) [OF assms] x unfolding safe_def by (metis prod.collapse)
qed

lemma egress_of_keep:
  assumes "pm_keep pm pm'" and "ib_nodes_best (pm_info_base pm') = ib_nodes_best (pm_info_base pm)"
  shows "egress_of pm' = egress_of pm"
proof
  fix n
  have "map_option (\<lambda>(_, s). ps_t_conn_id s) (lock_sess p w) = (case w of None \<Rightarrow> None | Some r \<Rightarrow> live_of p r)" for p w
    by (simp add: lock_sess_def live_of_def option.map_comp comp_def split: option.split)
  then show "egress_of pm' n = egress_of pm n"
    using assms pm_keep_live [OF assms(1)] 
    by (simp add: egress_of_def GetBestPeerSession_def pm_keep_def split: option.split)
qed

text \<open>An entry written by the update \<open>ref\<close> for the egress \<open>k\<close>.\<close>

definition fresh_entry :: "PeerManager \<Rightarrow> u64 \<Rightarrow> u64 \<Rightarrow> FibEntry \<Rightarrow> bool" where
  "fresh_entry pm ref k e \<longleftrightarrow> fib_update_ref e = ref \<and> fib_streams e = []
     \<and> (k \<noteq> 0 \<longrightarrow> (\<exists>r. fib_peer_session e = Some r \<and> live_of pm r = Some k))"

definition other_sets_same :: "u64 \<times> u32 \<Rightarrow> PeerManager \<Rightarrow> PeerManager \<Rightarrow> bool" where
  "other_sets_same key pm pm' \<longleftrightarrow> ib_nodes_best (pm_info_base pm') = ib_nodes_best (pm_info_base pm)
     \<and> (\<forall>key'. key' \<noteq> key \<longrightarrow> map_of (ib_peer_fib (pm_info_base pm')) key' = map_of (ib_peer_fib (pm_info_base pm)) key')"

lemma sns_node_step:
  assumes wf: "pm_wf pm"
  shows "\<exists>pm'. sns_node q ref key p n pm = pm_ok pm' \<and> pm_wf pm' \<and> pm_keep pm pm' \<and> other_sets_same key pm pm'
    \<and> (case egress_of pm n of
         None \<Rightarrow> peer_fib_entries key pm' = peer_fib_entries key pm
       | Some k \<Rightarrow> (\<exists>e. peer_fib_entries key pm' = mput k e (peer_fib_entries key pm) \<and> fresh_entry pm ref k e))"
proof (cases "n = ni_id (pm_node_info pm)")
  case True
  define e where "e = \<lparr>fib_update_ref = ref, fib_streams = [], fib_out_sns_id = 0, fib_peer_session = None, fib_track_fullname_hash = 0\<rparr>"
  let ?pm = "set_peer_fib key (mput 0 e (peer_fib_entries key pm)) pm"
  have "sns_node q ref key p n pm = pm_ok ?pm" using True by (simp add: sns_node_def e_def)
  moreover have "other_sets_same key pm ?pm" by (simp add: other_sets_same_def set_peer_fib_def)
  moreover have "fresh_entry pm ref 0 e" by (simp add: fresh_entry_def e_def)
  ultimately show ?thesis using True set_peer_fib_wf [OF wf] by (auto simp: egress_of_def)
next
  case False
  show ?thesis
  proof (cases "lock_sess pm (GetBestPeerSession n (pm_info_base pm))")
    case None
    then show ?thesis using False wf by (simp add: sns_node_def egress_of_def other_sets_same_def)
  next
    case (Some rs)
    obtain r s where rs: "rs = (r, s)" by (cases rs)
    have l: "live_of pm r = Some (ps_t_conn_id s)" using Some by (simp add: rs lock_sess_Some live_of_def)
    obtain pm1 out_sns b where on: "on_session r (AddPeerSnsSourceNode (q_transport q) (fst key) (snd key) n p) pm = (pm1, Inr (out_sns, b))"
        and k1: "pm_wf pm1" "pm_keep pm pm1" "pm_info_base pm1 = pm_info_base pm"
      using on_session_keeps [OF wf _ sns_add_methods(2), of r "q_transport q" "fst key" "snd key" n p] l by auto
    define e where "e = \<lparr>fib_update_ref = ref, fib_streams = [], fib_out_sns_id = out_sns, fib_peer_session = Some r, fib_track_fullname_hash = 0\<rparr>"
    let ?pm = "set_peer_fib key (mput (ps_t_conn_id s) e (peer_fib_entries key pm)) pm1"
    have "sns_node q ref key p n pm = pm_ok ?pm" using False Some by (simp add: sns_node_def rs on e_def Let_def)
    moreover have "pm_keep pm ?pm" using pm_keep_trans [OF k1(2)] set_peer_fib_wf [OF k1(1)] by blast
    moreover have "other_sets_same key pm ?pm" by (simp add: other_sets_same_def set_peer_fib_def k1)
    moreover have "fresh_entry pm ref (ps_t_conn_id s) e" using l by (simp add: fresh_entry_def e_def)
    ultimately show ?thesis using False Some set_peer_fib_wf [OF k1(1)] by (auto simp: egress_of_def rs)
  qed
qed

lemma other_sets_same_trans: "other_sets_same key a b \<Longrightarrow> other_sets_same key b c \<Longrightarrow> other_sets_same key a c"
  by (simp add: other_sets_same_def)

lemma fresh_entry_keep: "pm_keep pm pm' \<Longrightarrow> fresh_entry pm' ref k e \<longleftrightarrow> fresh_entry pm ref k e"
  by (simp add: fresh_entry_def pm_keep_live)

text \<open>The loop over the nodes of a set: the entries of their egresses are fresh, the others as before.\<close>

lemma sns_node_loop:
  assumes "pm_wf pm"
  shows "\<exists>pm'. foreach (sns_node q ref key p) nodes pm = pm_ok pm' \<and> pm_wf pm' \<and> pm_keep pm pm' \<and> other_sets_same key pm pm'
    \<and> (msorted (peer_fib_entries key pm) \<longrightarrow> msorted (peer_fib_entries key pm'))
    \<and> (\<forall>k. if k \<in> {k. \<exists>n \<in> set nodes. egress_of pm n = Some k}
           then \<exists>e. map_of (peer_fib_entries key pm') k = Some e \<and> fresh_entry pm ref k e
           else map_of (peer_fib_entries key pm') k = map_of (peer_fib_entries key pm) k)"
  using assms
proof (induction nodes arbitrary: pm)
  case Nil
  then show ?case by (simp add: other_sets_same_def)
next
  case (Cons n nodes)
  obtain pm1 where s1: "sns_node q ref key p n pm = pm_ok pm1" "pm_wf pm1" "pm_keep pm pm1" "other_sets_same key pm pm1"
      and e1: "case egress_of pm n of
         None \<Rightarrow> peer_fib_entries key pm1 = peer_fib_entries key pm
       | Some k \<Rightarrow> (\<exists>e. peer_fib_entries key pm1 = mput k e (peer_fib_entries key pm) \<and> fresh_entry pm ref k e)"
    using sns_node_step [OF Cons.prems] by blast
  have eg: "egress_of pm1 = egress_of pm" using s1(3,4) by (intro egress_of_keep) (simp_all add: other_sets_same_def)
  obtain pm2 where s2: "foreach (sns_node q ref key p) nodes pm1 = pm_ok pm2" "pm_wf pm2" "pm_keep pm1 pm2" "other_sets_same key pm1 pm2"
      "msorted (peer_fib_entries key pm1) \<longrightarrow> msorted (peer_fib_entries key pm2)"
      and e2: "\<And>k. if k \<in> {k. \<exists>n \<in> set nodes. egress_of pm n = Some k}
           then \<exists>e. map_of (peer_fib_entries key pm2) k = Some e \<and> fresh_entry pm ref k e
           else map_of (peer_fib_entries key pm2) k = map_of (peer_fib_entries key pm1) k"
    using Cons.IH [OF s1(2)] unfolding eg fresh_entry_keep [OF s1(3)] by blast
  have "if k \<in> {k. \<exists>n \<in> set (n # nodes). egress_of pm n = Some k}
      then \<exists>e. map_of (peer_fib_entries key pm2) k = Some e \<and> fresh_entry pm ref k e
      else map_of (peer_fib_entries key pm2) k = map_of (peer_fib_entries key pm) k" for k
    using e1 e2 [of k] by (cases "egress_of pm n") (auto split: if_splits)
  moreover have "msorted (peer_fib_entries key pm) \<longrightarrow> msorted (peer_fib_entries key pm1)"
    using e1 by (auto split: option.splits)
  moreover have "pm_keep pm pm2" "other_sets_same key pm pm2"
    using pm_keep_trans [OF s1(3) s2(3)] other_sets_same_trans [OF s1(4) s2(4)] by blast+
  ultimately show ?case using s1(1) s2(1,2,5) by auto
qed

lemma sns_stale_loop:
  assumes "pm_wf pm"
  shows "\<exists>pm'. foreach (sns_stale ref i) es pm = pm_ok pm' \<and> pm_wf pm' \<and> pm_keep pm pm' \<and> pm_info_base pm' = pm_info_base pm"
  using assms
proof (induction es arbitrary: pm)
  case (Cons e es)
  have "\<exists>pm1. sns_stale ref i e pm = pm_ok pm1 \<and> pm_wf pm1 \<and> pm_keep pm pm1 \<and> pm_info_base pm1 = pm_info_base pm"
  proof (cases "fib_update_ref (snd e) = ref \<or> lock_sess pm (fib_peer_session (snd e)) = None")
    case True
    then show ?thesis using Cons.prems by (auto simp: sns_stale_def)
  next
    case False
    then obtain r s where l: "lock_sess pm (fib_peer_session (snd e)) = Some (r, s)" by auto
    then have "live_of pm r \<noteq> None" by (simp add: lock_sess_Some live_of_def)
    from on_session_keeps [OF Cons.prems this sns_remove_methods(2), of "ps_t_conn_id s" i 0]
    show ?thesis using False l by (auto simp: sns_stale_def)
  qed
  then show ?case using Cons.IH pm_keep_trans by fastforce
qed simp

text \<open>Of a table in which the entries of \<open>K\<close> are fresh and all others are old, the entries with the current reference are those of \<open>K\<close>.\<close>

lemma fresh_entries:
  assumes sorted: "msorted es"
    and es: "\<And>k. if k \<in> K then \<exists>e. map_of es k = Some e \<and> fresh_entry pm ref k e else map_of es k = map_of old k"
    and old: "\<And>k e. map_of old k = Some e \<Longrightarrow> fib_update_ref e \<noteq> ref"
  shows "fst ` set (filter (\<lambda>(_, e). fib_update_ref e = ref) es) = K"
    and "map_of (filter (\<lambda>(_, e). fib_update_ref e = ref) es) k = Some e \<longrightarrow> fresh_entry pm ref k e"
proof -
  let ?keep = "filter (\<lambda>(_, e). fib_update_ref e = ref) es"
  have kept: "(k, e) \<in> set ?keep \<longleftrightarrow> k \<in> K \<and> map_of es k = Some e \<and> fresh_entry pm ref k e" for k e
  proof (cases "k \<in> K")
    case True
    then show ?thesis using es [of k] om.entries_find [OF sorted, of k e] by (auto simp: fresh_entry_def)
  next
    case False
    then show ?thesis using es [of k] old [of k e] om.entries_find [OF sorted, of k e] by auto
  qed
  show "fst ` set ?keep = K"
  proof
    show "fst ` set ?keep \<subseteq> K" using kept by fastforce
    show "K \<subseteq> fst ` set ?keep"
    proof
      fix k
      assume k: "k \<in> K"
      then obtain e where "map_of es k = Some e" "fresh_entry pm ref k e" using es [of k] by auto
      then show "k \<in> fst ` set ?keep" using kept [of k e] k by (metis fst_conv imageI)
    qed
  qed
  show "map_of ?keep k = Some e \<longrightarrow> fresh_entry pm ref k e"
    by (intro impI) (drule map_of_SomeD, simp only: kept)
qed

text \<open>The table after an advertised set, with the whole content of its entries.\<close>

lemma sns_table_exact:
  assumes wf: "pm_wf pm" and s: "map_of (pm_sessions pm) r = Some s"
    and sorted: "msorted (peer_fib_entries (ps_t_conn_id s, sns_id sns) pm)"
    and fresh: "\<forall>e \<in> snd ` set (peer_fib_entries (ps_t_conn_id s, sns_id sns) pm). fib_update_ref e \<noteq> ref"
  shows "\<exists>pm'. SnsReceived q ref r sns False pm = pm_ok pm' \<and> pm_wf pm' \<and> pm_keep pm pm'
    \<and> other_sets_same (ps_t_conn_id s, sns_id sns) pm pm'
    \<and> fst ` set (peer_fib_entries (ps_t_conn_id s, sns_id sns) pm') = {k. \<exists>n \<in> set (sns_nodes sns). egress_of pm n = Some k}
    \<and> (\<forall>k e. map_of (peer_fib_entries (ps_t_conn_id s, sns_id sns) pm') k = Some e \<longrightarrow> fresh_entry pm ref k e)"
proof -
  define key where "key = (ps_t_conn_id s, sns_id sns)"
  define is_new where "is_new = (map_of (ib_peer_fib (pm_info_base pm)) key = None)"
  define pm0 where "pm0 = (if is_new then set_peer_fib key [] pm else pm)"
  let ?K = "{k. \<exists>n \<in> set (sns_nodes sns). egress_of pm n = Some k}"
  have p0: "pm_wf pm0" "pm_keep pm pm0" "other_sets_same key pm pm0" "peer_fib_entries key pm0 = peer_fib_entries key pm"
    using set_peer_fib_wf [OF wf] wf
    by (auto simp: pm0_def is_new_def other_sets_same_def peer_fib_entries_def mat_def set_peer_fib_def)
  have eg: "egress_of pm0 = egress_of pm" using p0(2,3) by (intro egress_of_keep) (simp_all add: other_sets_same_def)
  obtain pm1 where l1: "foreach (sns_node q ref key (sns_priority sns)) (sns_nodes sns) pm0 = pm_ok pm1"
      "pm_wf pm1" "pm_keep pm0 pm1" "other_sets_same key pm0 pm1" "msorted (peer_fib_entries key pm1)"
      and e1: "\<And>k. if k \<in> ?K then \<exists>e. map_of (peer_fib_entries key pm1) k = Some e \<and> fresh_entry pm ref k e
           else map_of (peer_fib_entries key pm1) k = map_of (peer_fib_entries key pm) k"
    using sns_node_loop [OF p0(1), of q ref key "sns_priority sns" "sns_nodes sns"] sorted [folded key_def]
    unfolding eg fresh_entry_keep [OF p0(2)] p0(4) by blast
  have keep1: "pm_keep pm pm1" and same1: "other_sets_same key pm pm1"
    using pm_keep_trans [OF p0(2) l1(3)] other_sets_same_trans [OF p0(3) l1(4)] by blast+
  have old: "fib_update_ref e \<noteq> ref" if "map_of (peer_fib_entries key pm) k = Some e" for k e
    using that fresh by (force simp: key_def dest: map_of_SomeD)
  show ?thesis
  proof (cases is_new)
    case True
    then have none: "map_of (peer_fib_entries key pm) k = None" for k by (simp add: is_new_def peer_fib_entries_def mat_def)
    have "map_of (peer_fib_entries key pm1) k \<noteq> None \<longleftrightarrow> k \<in> ?K" for k using e1 [of k] none by (auto split: if_splits)
    then have "fst ` set (peer_fib_entries key pm1) = ?K" unfolding dom_map_of_conv_image_fst [symmetric] dom_def by blast
    moreover have "map_of (peer_fib_entries key pm1) k = Some e \<longrightarrow> fresh_entry pm ref k e" for k e using e1 [of k] none by (auto split: if_splits)
    moreover have "SnsReceived q ref r sns False pm = pm_ok pm1"
      using True l1(1) by (simp add: SnsReceived_def s Let_def key_def [symmetric] is_new_def [symmetric]) (simp add: pm0_def)
    ultimately show ?thesis using l1(2) keep1 same1 by (simp add: key_def)
  next
    case False
    obtain pm2 where l2: "foreach (sns_stale ref (sns_id sns)) (peer_fib_entries key pm1) pm1 = pm_ok pm2" "pm_wf pm2" "pm_keep pm1 pm2"
        "pm_info_base pm2 = pm_info_base pm1" using sns_stale_loop [OF l1(2)] by blast
    let ?keep = "filter (\<lambda>(_, e). fib_update_ref e = ref) (peer_fib_entries key pm1)"
    let ?pm = "set_peer_fib key ?keep pm2"
    have es2: "peer_fib_entries key pm2 = peer_fib_entries key pm1" by (simp add: peer_fib_entries_def l2(4))
    note kept = fresh_entries [OF l1(5) e1 old]
    have "SnsReceived q ref r sns False pm = pm_ok ?pm"
      using False l1(1) l2(1) es2
      by (simp add: SnsReceived_def s Let_def key_def [symmetric] is_new_def [symmetric]) (simp add: pm0_def)
    moreover have "pm_keep pm ?pm" using pm_keep_trans [OF keep1 pm_keep_trans [OF l2(3)]] set_peer_fib_wf [OF l2(2)] by blast
    moreover have "other_sets_same key pm ?pm" using same1 by (simp add: other_sets_same_def set_peer_fib_def l2(4))
    ultimately show ?thesis using set_peer_fib_wf [OF l2(2)] kept by (simp add: key_def [symmetric])
  qed
qed

section \<open>Node sets are handled safely\<close>

text \<open>An advertised set, whatever it changes.\<close>

lemma advertised_set_safe:
  assumes wf: "pm_wf pm" and r: "live_of pm r \<noteq> None"
  shows "safe pm (SnsReceived q ref r sns False pm)"
proof -
  obtain s where s: "map_of (pm_sessions pm) r = Some s" using r by (auto simp: live_of_def)
  define key where "key = (ps_t_conn_id s, sns_id sns)"
  define is_new where "is_new = (map_of (ib_peer_fib (pm_info_base pm)) key = None)"
  define pm0 where "pm0 = (if is_new then set_peer_fib key [] pm else pm)"
  have p0: "pm_wf pm0" "pm_keep pm pm0" using set_peer_fib_wf [OF wf] wf by (auto simp: pm0_def)
  obtain pm1 where l1: "foreach (sns_node q ref key (sns_priority sns)) (sns_nodes sns) pm0 = pm_ok pm1" "pm_wf pm1" "pm_keep pm0 pm1"
    using sns_node_loop [OF p0(1)] by blast
  obtain pm2 where l2: "foreach (sns_stale ref (sns_id sns)) (peer_fib_entries key pm1) pm1 = pm_ok pm2" "pm_wf pm2" "pm_keep pm1 pm2"
    using sns_stale_loop [OF l1(2)] by blast
  have k: "pm_keep pm pm1" "pm_keep pm pm2" using pm_keep_trans p0(2) l1(3) l2(3) by blast+
  have "SnsReceived q ref r sns False pm = (if is_new then pm_ok pm1
      else pm_ok (set_peer_fib key (filter (\<lambda>(_, e). fib_update_ref e = ref) (peer_fib_entries key pm2)) pm2))"
    using l1(1) l2(1)
    by (cases is_new) (simp_all add: SnsReceived_def s Let_def key_def [symmetric] is_new_def [symmetric] pm0_def)
  then show ?thesis using k l1(2) set_peer_fib_wf [OF l2(2)] pm_keep_trans [OF k(2)] by (simp add: safe_def)
qed

text \<open>
  A withdrawn set: the loop dereferences the session of every egress but this relay, without asking
  whether it has expired.
\<close>

definition lost_egress :: "u64 \<times> u32 \<Rightarrow> PeerManager \<Rightarrow> bool" where
  "lost_egress key pm = list_ex (\<lambda>(k, e). k \<noteq> 0 \<and> lock_sess pm (fib_peer_session e) = None) (peer_fib_entries key pm)"

lemma lock_sess_live: "lock_sess pm w = None \<longleftrightarrow> (case w of None \<Rightarrow> True | Some r \<Rightarrow> live_of pm r = None)"
  by (simp add: lock_sess_def live_of_def split: option.split)

lemma withdraw_egress_loop:
  fixes key :: "u64 \<times> u32"
  assumes "pm_wf pm"
  defines "step \<equiv> (\<lambda>(out_sess, entry) pm.
      if out_sess = 0 then pm_ok pm
      else case fib_peer_session entry of
          None \<Rightarrow> pm_fail Null_Deref pm
        | Some ro \<Rightarrow> andthen (on_session ro (RemovePeerSnsSourceNode (fst key) (snd key) 0) pm) (\<lambda>_. pm_ok))"
  shows "if list_ex (\<lambda>(k, e). k \<noteq> 0 \<and> lock_sess pm (fib_peer_session e) = None) es
    then snd (foreach step es pm) = Inl Null_Deref
    else safe pm (foreach step es pm) \<and> snd (foreach step es pm) = Inr () "
  using assms(1)
proof (induction es arbitrary: pm)
  case (Cons ke es)
  obtain k e where ke: "ke = (k, e)" by (cases ke)
  show ?case
  proof (cases "k \<noteq> 0 \<and> lock_sess pm (fib_peer_session e) = None")
    case True
    then have "snd (step ke pm) = Inl Null_Deref"
      by (auto simp: step_def ke lock_sess_live on_session_def live_of_def split: option.splits)
    then show ?thesis using True by (simp add: ke andthen_def)
  next
    case False
    have "\<exists>pm1. step ke pm = pm_ok pm1 \<and> pm_wf pm1 \<and> pm_keep pm pm1"
    proof (cases "k = 0")
      case True
      then show ?thesis using Cons.prems by (simp add: step_def ke)
    next
      case nonzero: False
      then obtain ro where ro: "fib_peer_session e = Some ro" "live_of pm ro \<noteq> None"
        using False by (auto simp: lock_sess_live split: option.splits)
      from on_session_keeps [OF Cons.prems this(2) sns_remove_methods(2), of "fst key" "snd key" 0]
      show ?thesis using nonzero ro(1) by (auto simp: step_def ke)
    qed
    then obtain pm1 where s1: "step ke pm = pm_ok pm1" "pm_wf pm1" "pm_keep pm pm1" by blast
    have "lock_sess pm1 w = None \<longleftrightarrow> lock_sess pm w = None" for w
      by (simp add: lock_sess_live pm_keep_live [OF s1(3)] split: option.split)
    then show ?thesis using Cons.IH [OF s1(2)] False s1(1) by (auto simp: ke intro: safe_update [OF s1(3)])
  qed
qed (simp add: safe_ok)

lemma withdrawn_set_outcome:
  assumes wf: "pm_wf pm" and s: "map_of (pm_sessions pm) r = Some s"
  shows "if lost_egress (ps_t_conn_id s, sns_id sns) pm then snd (SnsReceived q ref r sns True pm) = Inl Null_Deref
    else safe pm (SnsReceived q ref r sns True pm) \<and> snd (SnsReceived q ref r sns True pm) = Inr ()"
proof (cases "map_of (ib_peer_fib (pm_info_base pm)) (ps_t_conn_id s, sns_id sns)")
  case None
  then show ?thesis using wf by (simp add: SnsReceived_def s lost_egress_def peer_fib_entries_def mat_def safe_ok)
next
  case (Some es)
  let ?f = "foreach (\<lambda>(out_sess, entry) pm.
      if out_sess = 0 then pm_ok pm
      else case fib_peer_session entry of
          None \<Rightarrow> pm_fail Null_Deref pm
        | Some ro \<Rightarrow> andthen (on_session ro (RemovePeerSnsSourceNode (fst (ps_t_conn_id s, sns_id sns)) (snd (ps_t_conn_id s, sns_id sns)) 0) pm)
            (\<lambda>_. pm_ok)) es pm"
  let ?del = "\<lambda>pm. pm\<lparr>pm_info_base := (pm_info_base pm)\<lparr>ib_peer_fib := mdel (ps_t_conn_id s, sns_id sns) (ib_peer_fib (pm_info_base pm))\<rparr>\<rparr>"
  have eq: "SnsReceived q ref r sns True pm = andthen ?f (\<lambda>_ pm. pm_ok (?del pm))" by (simp add: SnsReceived_def s Some Let_def)
  have l: "lost_egress (ps_t_conn_id s, sns_id sns) pm \<longleftrightarrow> list_ex (\<lambda>(k, e). k \<noteq> 0 \<and> lock_sess pm (fib_peer_session e) = None) es"
    by (simp add: lost_egress_def peer_fib_entries_def mat_def Some)
  have del: "pm_wf (?del pm') \<and> pm_keep pm' (?del pm')" if "pm_wf pm'" for pm'
    using that by (intro conjI pm_wf_info_base pm_keep_info_base) (simp_all add: nodes_same_def pm_wf_def)
  note loop = withdraw_egress_loop [OF wf, of es "(ps_t_conn_id s, sns_id sns)"]
  show ?thesis
  proof (cases "lost_egress (ps_t_conn_id s, sns_id sns) pm")
    case True
    then show ?thesis using loop by (simp add: eq l andthen_def)
  next
    case False
    then obtain pm1 where "?f = pm_ok pm1" "pm_wf pm1" "pm_keep pm pm1"
      using loop unfolding l safe_def by (metis (no_types, lifting) prod.collapse)
    then show ?thesis using del [of pm1] pm_keep_trans [of pm pm1 "?del pm1"] False by (simp add: eq safe_def)
  qed
qed

text \<open>C26. The forwarding table follows the node sets.  After a relay advertised a node set, new or changed, the
  table of that set has exactly one entry for each egress of its nodes: this relay, if it is in the set, and
  the session that is the best way to each other node that can be reached; sessions that are no longer
  needed are gone.  Every entry for a session refers to that session.  The tables
  of other sets, the routes and the session maps are unchanged, and the handler returns.  (The reference
  number of the update is one no entry has yet.  An entry that stays loses its streams: \<open>changed_set_drops_streams\<close>.)\<close>

theorem sns_table_refines:
  assumes wf: "pm_wf pm" and s: "map_of (pm_sessions pm) r = Some s"
    and sorted: "msorted (peer_fib_entries (ps_t_conn_id s, sns_id sns) pm)"
    and fresh: "\<forall>e \<in> snd ` set (peer_fib_entries (ps_t_conn_id s, sns_id sns) pm). fib_update_ref e \<noteq> ref"
  shows "\<exists>pm'. SnsReceived q ref r sns False pm = pm_ok pm' \<and> pm_wf pm' \<and> pm_keep pm pm'
    \<and> other_sets_same (ps_t_conn_id s, sns_id sns) pm pm'
    \<and> fst ` set (peer_fib_entries (ps_t_conn_id s, sns_id sns) pm') = {k. \<exists>n \<in> set (sns_nodes sns). egress_of pm n = Some k}
    \<and> (\<forall>k e. map_of (peer_fib_entries (ps_t_conn_id s, sns_id sns) pm') k = Some e \<and> k \<noteq> 0 \<longrightarrow>
        (\<exists>ro. fib_peer_session e = Some ro \<and> live_of pm ro = Some k))"
proof -
  obtain pm' where "SnsReceived q ref r sns False pm = pm_ok pm'" "pm_wf pm'" "pm_keep pm pm'" "other_sets_same (ps_t_conn_id s, sns_id sns) pm pm'"
    "fst ` set (peer_fib_entries (ps_t_conn_id s, sns_id sns) pm') = {k. \<exists>n \<in> set (sns_nodes sns). egress_of pm n = Some k}"
    "\<forall>k e. map_of (peer_fib_entries (ps_t_conn_id s, sns_id sns) pm') k = Some e \<longrightarrow> fresh_entry pm ref k e"
    using sns_table_exact [OF assms, of q] by (elim exE conjE) (rule that)
  then show ?thesis by (intro exI [of _ pm']) (simp add: fresh_entry_def)
qed

text \<open>The documentation has data flow without interruption when relays are added to a set; the update forgets the streams that
  are open on every egress, new or not.\<close>

lemma changed_set_drops_streams:
  assumes "pm_wf pm" "map_of (pm_sessions pm) r = Some s" "msorted (peer_fib_entries (ps_t_conn_id s, sns_id sns) pm)"
    "\<forall>e \<in> snd ` set (peer_fib_entries (ps_t_conn_id s, sns_id sns) pm). fib_update_ref e \<noteq> ref"
    "map_of (peer_fib_entries (ps_t_conn_id s, sns_id sns) (fst (SnsReceived q ref r sns False pm))) k = Some e"
  shows "fib_streams e = []"
  using sns_table_exact [OF assms(1-4), of q] assms(5) by (auto simp: fresh_entry_def)

theorem sns_table_refines_witness:
  "\<exists>pm'. SnsReceived sample_quicr 77 0 \<lparr>sns_id = 6, sns_priority = 1, sns_nodes = [ni_id sample_node]\<rparr> False forwarding_manager = pm_ok pm'
     \<and> fst ` set (peer_fib_entries (10, 6) pm') = {0}"
proof -
  let ?sns = "\<lparr>sns_id = 6, sns_priority = 1, sns_nodes = [ni_id sample_node]\<rparr>"
  have s: "map_of (pm_sessions forwarding_manager) 0 = Some (sample_peer True 10 3)" "ps_t_conn_id (sample_peer True 10 3) = 10"
    by (simp_all add: forwarding_manager_def sample_manager_def sample_peer_def PeerSession_make_def)
  have es: "peer_fib_entries (10, 6) forwarding_manager = [(10, sample_entry 2 0), (20, sample_entry 9 1)]"
    by (simp add: peer_fib_entries_def forwarding_manager_def mat_def)
  have eg: "egress_of forwarding_manager (ni_id sample_node) = Some 0"
    by (simp add: egress_of_def forwarding_manager_def sample_manager_def)
  show ?thesis
    using sns_table_refines [OF forwarding_manager_wf s(1), of ?sns 77 sample_quicr] eg
    by (simp add: s(2) es msorted_Cons sample_entry_def) blast
qed

section \<open>Data of local publishers\<close>

definition client_header :: "u64 \<Rightarrow> u8 \<Rightarrow> u32 \<Rightarrow> u8 \<Rightarrow> DataHeader" where
  "client_header fh priority ttl typ = DataHeader_init\<lparr>dh_type := typ, dh_priority := priority, dh_ttl := ttl, dh_track_full_name_hash := fh\<rparr>"

text \<open>What one egress gets of an object that starts no stream.\<close>

definition client_out :: "PeerManager \<Rightarrow> DataHeader \<Rightarrow> u64 \<Rightarrow> bytes \<Rightarrow> (u64 \<times> u64) \<times> FibEntry \<Rightarrow> event list" where
  "client_out pm hdr sid net_data e =
     (let s = snd (the (lock_sess pm (fib_peer_session (snd e)))) in
      if dh_type hdr = kExistingStream then peer_out hdr net_data True (snd e) (the (map_of (fib_streams (snd e)) sid)) s
      else peer_out hdr (with_sns (fib_out_sns_id (snd e)) net_data) False (snd e) 0 s)"

lemma client_data_loop_eq:
  assumes wf: "msorted (pm_sessions pm)" and t: "dh_type hdr = kDatagram \<and> 6 \<le> length net_data \<or> dh_type hdr = kExistingStream"
  shows "client_data_loop q (dh_priority hdr) (dh_ttl hdr) (dh_type hdr) sid net_data es pm =
    pm_ok (pm\<lparr>pm_log := pm_log pm @ concat (map (client_out pm hdr sid net_data)
      (takeWhile (\<lambda>e. dh_type hdr = kDatagram \<or> map_of (fib_streams (snd e)) sid \<noteq> None)
        (filter (\<lambda>e. lock_sess pm (fib_peer_session (snd e)) \<noteq> None) es)))\<rparr>)"
  using wf
proof (induction es arbitrary: pm)
  case (Cons e es)
  obtain key entry where e: "e = (key, entry)" by (cases e)
  show ?case
  proof (cases "lock_sess pm (fib_peer_session entry)")
    case None
    then show ?thesis using Cons by (simp add: e)
  next
    case (Some rs)
    obtain r s where rs: "rs = (r, s)" by (cases rs)
    have s: "map_of (pm_sessions pm) r = Some s" using Some by (simp add: rs lock_sess_Some)
    have send: "session_do r (SendData (dh_priority hdr) (dh_ttl hdr) (fib_out_sns_id entry) n rel d) pm
        = pm_ok (pm\<lparr>pm_log := pm_log pm @ peer_out hdr d rel entry n s\<rparr>)" for n rel d
      by (rule session_do_same [OF Cons.prems s]) (simp add: SendData_eq)
    have co: "client_out (pm\<lparr>pm_log := l\<rparr>) = client_out pm" for l by (intro ext) (simp add: client_out_def)
    have p: "put_sns_id i net_data = Inr (with_sns i net_data)" if "6 \<le> length net_data" for i
      using that put_sns_id_eq(1) [of net_data net_data] by simp
    have IH: "client_data_loop q (dh_priority hdr) (dh_ttl hdr) (dh_type hdr) sid net_data es (pm\<lparr>pm_log := l\<rparr>) =
        pm_ok (pm\<lparr>pm_log := l @ concat (map (client_out pm hdr sid net_data)
          (takeWhile (\<lambda>e. dh_type hdr = kDatagram \<or> map_of (fib_streams (snd e)) sid \<noteq> None)
            (filter (\<lambda>e. lock_sess pm (fib_peer_session (snd e)) \<noteq> None) es)))\<rparr>)" for l
      using Cons.IH [of "pm\<lparr>pm_log := l\<rparr>"] Cons.prems by (simp add: co)
    show ?thesis
    proof (cases "dh_type hdr = kDatagram")
      case True
      then have p': "put_sns_id i net_data = Inr (with_sns i net_data)" for i using t p by simp
      have "client_out pm hdr sid net_data e = peer_out hdr (with_sns (fib_out_sns_id entry) net_data) False entry 0 s"
        using True by (simp add: client_out_def e Some rs)
      then show ?thesis using True IH by (simp add: e Some rs p' send)
    next
      case False
      then have ex: "dh_type hdr = kExistingStream" using t by blast
      show ?thesis
      proof (cases "map_of (fib_streams entry) sid")
        case None
        then show ?thesis using ex by (simp add: e Some)
      next
        case n: (Some n)
        have "client_out pm hdr sid net_data e = peer_out hdr net_data True entry n s"
          using ex n by (simp add: client_out_def e Some rs)
        then show ?thesis using ex n IH by (simp add: e Some rs send)
      qed
    qed
  qed
qed simp

lemma key_range_client: "msorted m \<Longrightarrow> (key, e) \<in> set (key_range fh m) \<longleftrightarrow> fst key = fh \<and> map_of m key = Some e"
  by (auto simp: key_range_eq om.entries_find)

lemma client_datagram:
  assumes "pm_wf pm"
  shows "\<exists>hdr. (\<forall>i. DataHeader_Serialize ((client_header fh priority ttl kDatagram)\<lparr>dh_sns_id := i\<rparr>) = Inr (hdr i))
    \<and> ClientDataRecv q fh priority ttl kDatagram group_id subgroup_id data pm = pm_ok (pm\<lparr>pm_log := pm_log pm @
        concat (map (\<lambda>e. peer_out (client_header fh priority ttl kDatagram) (hdr (fib_out_sns_id (snd e)) @ data) False (snd e) 0
                      (snd (the (lock_sess pm (fib_peer_session (snd e))))))
          (filter (\<lambda>e. lock_sess pm (fib_peer_session (snd e)) \<noteq> None) (key_range fh (ib_client_fib (pm_info_base pm)))))\<rparr>)"
proof -
  let ?h = "client_header fh priority ttl kDatagram"
  have t: "dh_type ?h = kDatagram" "dh_header_len ?h = 0" by (simp_all add: client_header_def DataHeader_init_def)
  then have ht: "dh_type ?h = kDatagram \<or> dh_type ?h = kNewStream" by simp
  define hdr where "hdr i = projr (DataHeader_Serialize (?h\<lparr>dh_sns_id := i\<rparr>))" for i
  obtain h0 where h0: "DataHeader_Serialize ?h = Inr h0" "6 \<le> length h0"
    using with_sns_header [OF ht t(2)] by blast
  have hdr: "DataHeader_Serialize (?h\<lparr>dh_sns_id := i\<rparr>) = Inr (hdr i)" "with_sns i (h0 @ data) = hdr i @ data" for i
    using with_sns_header [OF ht t(2), of i data] h0(1) by (auto simp: hdr_def)
  have "ClientDataRecv q fh priority ttl kDatagram group_id subgroup_id data pm =
      client_data_loop q (dh_priority ?h) (dh_ttl ?h) (dh_type ?h) (in_stream_id group_id subgroup_id) (h0 @ data)
        (key_range fh (ib_client_fib (pm_info_base pm))) pm"
    using h0(1) by (simp add: ClientDataRecv_def client_header_def)
  also have "\<dots> = pm_ok (pm\<lparr>pm_log := pm_log pm @
        concat (map (\<lambda>e. peer_out ?h (hdr (fib_out_sns_id (snd e)) @ data) False (snd e) 0 (snd (the (lock_sess pm (fib_peer_session (snd e))))))
          (filter (\<lambda>e. lock_sess pm (fib_peer_session (snd e)) \<noteq> None) (key_range fh (ib_client_fib (pm_info_base pm)))))\<rparr>)"
    using assms h0(2) t(1) by (subst client_data_loop_eq) (auto simp: pm_wf_def client_out_def [abs_def] hdr(2) takeWhile_eq_all_conv [THEN iffD2])
  finally show ?thesis using hdr(1) by blast
qed

text \<open>One egress without the stream starves the others.  An object of a stream that is under way is sent on
  the stream of each egress session, in table order, but only up to the first session that does not know the
  stream (one that joined the track later): the sessions behind it get nothing, whether they know the stream
  or not.\<close>

theorem client_stream_starves:
  assumes "pm_wf pm"
  shows "ClientDataRecv q fh priority ttl kExistingStream group_id subgroup_id data pm = pm_ok (pm\<lparr>pm_log := pm_log pm @
        concat (map (\<lambda>e. peer_out (client_header fh priority ttl kExistingStream) data True (snd e)
                      (the (map_of (fib_streams (snd e)) (in_stream_id group_id subgroup_id)))
                      (snd (the (lock_sess pm (fib_peer_session (snd e))))))
          (takeWhile (\<lambda>e. map_of (fib_streams (snd e)) (in_stream_id group_id subgroup_id) \<noteq> None)
            (filter (\<lambda>e. lock_sess pm (fib_peer_session (snd e)) \<noteq> None) (key_range fh (ib_client_fib (pm_info_base pm))))))\<rparr>)"
proof -
  let ?h = "client_header fh priority ttl kExistingStream"
  have t: "dh_type ?h = kExistingStream" by (simp add: client_header_def)
  have "ClientDataRecv q fh priority ttl kExistingStream group_id subgroup_id data pm =
      client_data_loop q (dh_priority ?h) (dh_ttl ?h) (dh_type ?h) (in_stream_id group_id subgroup_id) data
        (key_range fh (ib_client_fib (pm_info_base pm))) pm"
    by (simp add: ClientDataRecv_def client_header_def DataHeader_Serialize_def DataHeader_write_def)
  also have "\<dots> = pm_ok (pm\<lparr>pm_log := pm_log pm @ concat (map (client_out pm ?h (in_stream_id group_id subgroup_id) data)
      (takeWhile (\<lambda>e. dh_type ?h = kDatagram \<or> map_of (fib_streams (snd e)) (in_stream_id group_id subgroup_id) \<noteq> None)
        (filter (\<lambda>e. lock_sess pm (fib_peer_session (snd e)) \<noteq> None) (key_range fh (ib_client_fib (pm_info_base pm))))))\<rparr>)"
    using assms t by (intro client_data_loop_eq) (simp_all add: pm_wf_def)
  finally show ?thesis by (simp add: t client_out_def [abs_def] Let_def)
qed

text \<open>Track 33 goes out through session 10, which joined late, and through session 20, which has the stream.\<close>

definition publishing_fib :: "((u64 \<times> u64) \<times> FibEntry) list" where
  "publishing_fib = [((33, 10), (sample_entry 2 0)\<lparr>fib_streams := []\<rparr>), ((33, 20), (sample_entry 9 1)\<lparr>fib_streams := [(in_stream_id 1 0, 8)]\<rparr>)]"

definition two_egress_manager :: PeerManager where
  "two_egress_manager = sample_manager\<lparr>pm_info_base := InfoBase_init\<lparr>ib_client_fib := publishing_fib\<rparr>\<rparr>"

lemma two_egress_manager_wf: "pm_wf two_egress_manager"
  unfolding two_egress_manager_def by (rule pm_wf_info_base [OF sample_manager_wf]) (simp_all add: nodes_same_def sample_manager_def InfoBase_init_def)

lemma two_egress_range: "key_range 33 (ib_client_fib (pm_info_base two_egress_manager)) = publishing_fib"
  by (simp add: two_egress_manager_def publishing_fib_def key_range_def)

lemmas two_egress_defs = publishing_fib_def sample_entry_def lock_sess_def two_egress_manager_def sample_manager_def sample_peer_def
  PeerSession_make_def peer_out_def client_header_def DataHeader_init_def

theorem client_stream_starves_witness:
  "pm_log (fst (ClientDataRecv sample_quicr 33 5 100 kExistingStream 1 0 [7] two_egress_manager)) = []"
  using client_stream_starves [OF two_egress_manager_wf, of sample_quicr 33 5 100 1 0 "[7]"]
  unfolding two_egress_range by (simp add: two_egress_defs)

section \<open>From a peer's subscribe to the data\<close>



end
