(* ===== verification/Peer_Dispatch.thy ===== *)
theory Peer_Dispatch
  imports Peer_Forward
begin

text \<open>
  Connections and received bytes: what the peering manager does when sessions come and go
  (\<open>SessionChanged\<close>, \<open>OnConnectionStatus\<close>, \<open>OnNewConnection\<close>, \<open>CreatePeerSession\<close>, \<open>CheckThread\<close> of
  \<open>src/src/peering/peer_manager.cc\<close>), and how a session takes control messages and object data off
  its streams (\<open>ProcessControlMessage\<close>, \<open>ProcessReceivedData\<close>, \<open>OnRecvStream\<close>, \<open>OnRecvDgram\<close>,
  \<open>OnStreamClosed\<close> of \<open>src/src/peering/peer_session.cc\<close>).

  A session runs as a reference into the manager's store.  What libquicr's receive context of a
  stream holds, the queued chunks and the \<open>std::any\<close> of the caller, comes in as an argument
  and goes out with the result; the \<open>std::any\<close> is empty or holds a data header.
\<close>

section \<open>Sessions that come and go\<close>

text \<open>An object whose last \<open>shared_ptr\<close> is gone is destroyed.\<close>

definition release :: "PeerManager \<Rightarrow> PeerManager" where
  "release pm = pm\<lparr>pm_sessions := filter (\<lambda>(r, _). r \<in> snd ` set (all_sessions pm)) (pm_sessions pm)\<rparr>"

definition new_session :: "bool \<Rightarrow> u64 \<Rightarrow> PeerManager \<Rightarrow> PeerManager \<times> sref" where
  "new_session is_inbound conn_id pm =
     (pm\<lparr>pm_sessions := mput (pm_next pm) (PeerSession_make is_inbound conn_id (pm_node_info pm)) (pm_sessions pm),
        pm_next := Suc (pm_next pm)\<rparr>, pm_next pm)"

definition CreatePeerSession :: "quicr_api \<Rightarrow> PeerManager \<Rightarrow> unit pm_res" where
  "CreatePeerSession q pm =
     (let (pm, r) = new_session False 0 pm in
      andthen (session_do r (PS_Connect (q_transport q)) pm) (\<lambda>_ pm.
        case map_of (pm_sessions pm) r of
          None \<Rightarrow> pm_fail Null_Deref pm
        | Some s \<Rightarrow> pm_ok (release (pm\<lparr>pm_client := fst (mtry (ps_t_conn_id s) r (pm_client pm))\<rparr>))))"

definition OnNewConnection :: "quicr_api \<Rightarrow> u64 \<Rightarrow> PeerManager \<Rightarrow> unit pm_res" where
  "OnNewConnection q conn_id pm =
     (case map_of (pm_server pm) conn_id of
        Some _ \<Rightarrow> pm_ok pm
      | None \<Rightarrow> (let (pm, r) = new_session True conn_id pm in
          session_do r (PS_Connect (q_transport q)) (pm\<lparr>pm_server := mput conn_id r (pm_server pm)\<rparr>)))"

text \<open>
  One pass of the check thread: every disconnected outbound session connects again and moves to the
  key of its new connection; the old keys are erased at the end.  A session that the loop inserts is
  connecting, so a later iteration that comes across it does nothing.
\<close>

definition reconnect :: "quicr_api \<Rightarrow> u64 \<times> sref \<Rightarrow> PeerManager \<Rightarrow> unit pm_res" where
  "reconnect q e pm =
     (case map_of (pm_sessions pm) (snd e) of
        None \<Rightarrow> pm_fail Null_Deref pm
      | Some s \<Rightarrow>
          if ps_status s \<noteq> S_Disconnected then pm_ok pm
          else andthen (session_do (snd e) (PS_Connect (q_transport q)) pm) (\<lambda>_ pm.
            case map_of (pm_sessions pm) (snd e) of
              None \<Rightarrow> pm_fail Null_Deref pm
            | Some s' \<Rightarrow> pm_ok (pm\<lparr>pm_client := fst (mtry (ps_t_conn_id s') (snd e) (pm_client pm))\<rparr>)))"

definition check_pass :: "quicr_api \<Rightarrow> PeerManager \<Rightarrow> unit pm_res" where
  "check_pass q pm =
     (let old = map fst (filter (\<lambda>e. case map_of (pm_sessions pm) (snd e) of
                                       None \<Rightarrow> False | Some s \<Rightarrow> ps_status s = S_Disconnected) (pm_client pm))
      in andthen (foreach (reconnect q) (pm_client pm) pm) (\<lambda>_ pm.
           pm_ok (release (pm\<lparr>pm_client := fold mdel old (pm_client pm)\<rparr>))))"

section \<open>A session is lost\<close>

text \<open>
  The search for the subscribes that went through the session, under the lock of the information base:
  the subscribes of the lost node itself are to be removed; for the subscribe of another node whose
  forwarding entry has the session as its key, the entry is erased and \<open>GetBestPeerSession\<close> is
  called, which takes the same lock again.
\<close>

fun scan_subscribes :: "u64 \<Rightarrow> u64 \<Rightarrow> (u64, (u64, SubscribeInfo) omap) omap \<Rightarrow> PeerManager \<Rightarrow> SubscribeInfo list pm_res" where
  "scan_subscribes sid remote [] pm = (pm, Inr [])"
| "scan_subscribes sid remote ((_, subs) # rest) pm =
     (case map_of subs remote of
        Some si \<Rightarrow> andthen (scan_subscribes sid remote rest pm) (\<lambda>remove pm. (pm, Inr (si # remove)))
      | None \<Rightarrow>
          (case find (\<lambda>(_, si). map_of (ib_client_fib (pm_info_base pm)) (th_fullname (si_track_hash si), sid) \<noteq> None) subs of
             None \<Rightarrow> scan_subscribes sid remote rest pm
           | Some (_, si) \<Rightarrow> pm_fail Self_Deadlock (pm\<lparr>pm_info_base := (pm_info_base pm)\<lparr>ib_client_fib :=
                 mdel (th_fullname (si_track_hash si), sid) (ib_client_fib (pm_info_base pm))\<rparr>\<rparr>)))"

definition any_connected :: "PeerManager \<Rightarrow> bool" where
  "any_connected pm = list_ex (\<lambda>e. case map_of (pm_sessions pm) (snd e) of None \<Rightarrow> False | Some s \<Rightarrow> ps_status s = S_Connected) (all_sessions pm)"

definition SessionChanged :: "quicr_api \<Rightarrow> u64 \<Rightarrow> session_status \<Rightarrow> NodeInfo \<Rightarrow> PeerManager \<Rightarrow> unit pm_res" where
  "SessionChanged q sid status remote pm =
     (if status \<noteq> S_Disconnected then pm_ok pm
      else andthen (PropagateNodeInfo q remote True pm) (\<lambda>_ pm.
           andthen (if pm_stop pm then pm_ok pm else on_info_base (PurgePeerSessionInfo (live_of pm) sid) pm) (\<lambda>_ pm.
           andthen (scan_subscribes sid (ni_id remote) (ib_subscribes (pm_info_base pm)) pm) (\<lambda>remove pm.
           andthen (foreach (\<lambda>si. SubscribeInfoReceived q 0 sid si True) remove pm) (\<lambda>_ pm.
             pm_ok (if any_connected pm then pm else pm\<lparr>pm_info_base := (pm_info_base pm)\<lparr>ib_announces := []\<rparr>\<rparr>))))))"

text \<open>Connection status of the server transport: whatever the status, the session leaves the map.\<close>

definition server_status :: "transport_status \<Rightarrow> session_status" where
  "server_status status = (if status = T_Ready \<or> status = T_Connecting then S_Connected else S_Disconnected)"

definition PM_OnConnectionStatus :: "quicr_api \<Rightarrow> u64 \<Rightarrow> transport_status \<Rightarrow> PeerManager \<Rightarrow> unit pm_res" where
  "PM_OnConnectionStatus q conn_id status pm =
     (case map_of (pm_server pm) conn_id of
        None \<Rightarrow> pm_ok pm
      | Some r \<Rightarrow> (case map_of (pm_sessions pm) r of
          None \<Rightarrow> pm_fail Null_Deref pm
        | Some s \<Rightarrow> andthen (SessionChanged q (ps_t_conn_id s) (server_status status) (ps_remote_node_info s) pm) (\<lambda>_ pm.
            pm_ok (release (pm\<lparr>pm_server := mdel conn_id (pm_server pm)\<rparr>)))))"

text \<open>Connection status of an outbound session's own transport.\<close>

definition report_status :: "quicr_api \<Rightarrow> sref \<Rightarrow> PeerManager \<Rightarrow> unit pm_res" where
  "report_status q r pm =
     (case map_of (pm_sessions pm) r of
        None \<Rightarrow> pm_fail Null_Deref pm
      | Some s \<Rightarrow> SessionChanged q (ps_t_conn_id s) (ps_status s) (ps_remote_node_info s) pm)"

definition PS_OnConnectionStatus :: "quicr_api \<Rightarrow> sref \<Rightarrow> transport_status \<Rightarrow> PeerManager \<Rightarrow> unit pm_res" where
  "PS_OnConnectionStatus q r status pm =
     andthen (session_do r (PS_status_change (q_uintvar q) status) pm) (\<lambda>_. report_status q r)"

section \<open>Control messages\<close>

definition update_session :: "sref \<Rightarrow> (PeerSession \<Rightarrow> PeerSession) \<Rightarrow> PeerManager \<Rightarrow> unit pm_res" where
  "update_session r f = session_do r (\<lambda>(s, log). (f s, log))"

text \<open>\<open>GetSessionId()\<close> of the session that runs the handler.\<close>

definition with_id :: "sref \<Rightarrow> (u64 \<Rightarrow> PeerManager \<Rightarrow> unit pm_res) \<Rightarrow> PeerManager \<Rightarrow> unit pm_res" where
  "with_id r f pm = (case map_of (pm_sessions pm) r of None \<Rightarrow> pm_fail Null_Deref pm | Some s \<Rightarrow> f (ps_t_conn_id s) pm)"

definition from_wire :: "'a res \<Rightarrow> ('a \<Rightarrow> PeerManager \<Rightarrow> unit pm_res) \<Rightarrow> PeerManager \<Rightarrow> unit pm_res" where
  "from_wire x f pm = (case x of Inl e \<Rightarrow> pm_fail e pm | Inr v \<Rightarrow> f v pm)"

definition handle_connect :: "quicr_api \<Rightarrow> sref \<Rightarrow> Connect \<Rightarrow> PeerManager \<Rightarrow> unit pm_res" where
  "handle_connect q r c pm =
     andthen (update_session r (\<lambda>s. s\<lparr>ps_remote_node_info := cn_node_info c, ps_status := S_Connected\<rparr>) pm) (\<lambda>_ pm.
     andthen (with_id r (\<lambda>sid. NodeReceived q sid (cn_node_info c) False) pm) (\<lambda>_ pm.
     andthen (report_status q r pm) (\<lambda>_ pm.
     andthen (on_session r (SendConnectOk (q_uintvar q)) pm) (\<lambda>ok pm.
       case ok of Inl e \<Rightarrow> pm_fail e pm | Inr _ \<Rightarrow> InfoBaseSyncPeer q r pm))))"

definition handle_connect_response :: "quicr_api \<Rightarrow> sref \<Rightarrow> ConnectResponse \<Rightarrow> PeerManager \<Rightarrow> unit pm_res" where
  "handle_connect_response q r cr pm =
     andthen
       (if cr_error cr = kNoError
        then (case cr_node_info cr of
                None \<Rightarrow> pm_fail Null_Deref pm
              | Some ni \<Rightarrow>
                  andthen (update_session r (\<lambda>s. s\<lparr>ps_remote_node_info := ni\<rparr>) pm) (\<lambda>_ pm.
                  andthen (with_id r (\<lambda>sid. NodeReceived q sid ni False) pm) (\<lambda>_.
                    InfoBaseSyncPeer q r)))
        else pm_ok pm) (\<lambda>_ pm.
     andthen (update_session r (\<lambda>s. s\<lparr>ps_status := S_Connected\<rparr>) pm) (\<lambda>_ pm.
     andthen (report_status q r pm) (\<lambda>_.
       InfoBaseSyncPeer q r)))"

definition handle_control :: "quicr_api \<Rightarrow> u64 \<Rightarrow> sref \<Rightarrow> u16 \<Rightarrow> bytes \<Rightarrow> PeerManager \<Rightarrow> unit pm_res" where
  "handle_control q ref r typ body =
     (if typ = msg_code kConnect then from_wire (Connect_read (q_uintvar q) body) (handle_connect q r)
      else if typ = msg_code kConnectResponse then from_wire (ConnectResponse_read (q_uintvar q) body) (handle_connect_response q r)
      else if typ = msg_code kSubscribeNodeSetAdvertised
        then from_wire (SubscribeNodeSet_read body False) (\<lambda>sns. SnsReceived q ref r sns False)
      else if typ = msg_code kSubscribeNodeSetWithdrawn
        then from_wire (SubscribeNodeSet_read body True) (\<lambda>sns. SnsReceived q ref r sns True)
      else if typ = msg_code kNodeInfoAdvertise
        then from_wire (NodeInfo_read (q_uintvar q) body) (\<lambda>ni. with_id r (\<lambda>sid. NodeReceived q sid ni False))
      else if typ = msg_code kNodeInfoWithdrawn
        then from_wire (NodeInfo_read (q_uintvar q) body) (\<lambda>ni. with_id r (\<lambda>sid. NodeReceived q sid ni True))
      else if typ = msg_code kSubscribeInfoAdvertised
        then from_wire (SubscribeInfo_read body) (\<lambda>si. with_id r (\<lambda>sid. SubscribeInfoReceived q ref sid si False))
      else if typ = msg_code kSubscribeInfoWithdrawn
        then from_wire (SubscribeInfo_read body) (\<lambda>si. with_id r (\<lambda>sid. SubscribeInfoReceived q ref sid si True))
      else if typ = msg_code kAnnounceInfoAdvertised
        then from_wire (AnnounceInfo_read (q_namespace q) body) (\<lambda>ai. with_id r (\<lambda>sid. AnnounceInfoReceived q sid ai False))
      else if typ = msg_code kAnnounceInfoWithdrawn
        then from_wire (AnnounceInfo_read (q_namespace q) body) (\<lambda>ai. with_id r (\<lambda>sid. AnnounceInfoReceived q sid ai True))
      else pm_ok)"

text \<open>
  The length test adds in 32 bits.  When the sum wraps, the span behind the header leaves the
  buffer.
\<close>

definition set_buffer :: "sref \<Rightarrow> bytes \<Rightarrow> PeerManager \<Rightarrow> unit pm_res" where
  "set_buffer r bs = update_session r (\<lambda>s. s\<lparr>ps_control_msg_buffer := bs\<rparr>)"

definition frame_length :: "bytes \<Rightarrow> u32 res" where
  "frame_length buf = res_bind (rd_int (drop 3 buf)) (\<lambda>(data_len, _). Inr data_len)"

definition ProcessControlMessage :: "quicr_api \<Rightarrow> u64 \<Rightarrow> sref \<Rightarrow> PeerManager \<Rightarrow> unit pm_res" where
  "ProcessControlMessage q ref r pm =
     (case map_of (pm_sessions pm) r of
        None \<Rightarrow> pm_fail Null_Deref pm
      | Some s \<Rightarrow>
          (let buf = ps_control_msg_buffer s; hdr = unat kCommonHeadersSize in
           if length buf < hdr then pm_ok pm
           else case (rd_int (drop 1 buf), frame_length buf) of
               (Inr (typ, _), Inr data_len) \<Rightarrow>
                 if length buf < unat (ucast kCommonHeadersSize + data_len) then pm_ok pm
                 else if length buf < hdr + unat data_len then pm_fail Out_Of_Bounds pm
                 else (case handle_control q ref r typ (take (unat data_len) (drop hdr buf)) pm of
                     (pm, Inr _) \<Rightarrow> set_buffer r (drop (hdr + unat data_len) buf) pm
                   | (pm, Inl e) \<Rightarrow> if is_exception e then set_buffer r [] pm else pm_fail e pm)
             | _ \<Rightarrow> pm_fail Out_Of_Bounds pm))"

section \<open>Object data\<close>

text \<open>The result is whether the data was used; the header object is the stream's context.\<close>

definition ProcessReceivedData :: "quicr_api \<Rightarrow> sref \<Rightarrow> u64 option \<Rightarrow> DataHeader option \<Rightarrow> bytes \<Rightarrow> PeerManager
    \<Rightarrow> (PeerManager \<times> DataHeader option) \<times> bool res" where
  "ProcessReceivedData q r stream_id ctx data pm =
     (let n = (case stream_id of None \<Rightarrow> 0 | Some n \<Rightarrow> n); rel = (stream_id \<noteq> None);
          fwd = (\<lambda>is_new hdr off pm. with_id r (\<lambda>sid. ForwardPeerData q sid is_new n hdr data off rel) pm)
      in case ctx of
           Some hdr \<Rightarrow> (case fwd False hdr 0 pm of (pm, x) \<Rightarrow> ((pm, ctx), res_bind x (\<lambda>_. Inr True)))
         | None \<Rightarrow>
             (case data of
                [] \<Rightarrow> ((pm, Some DataHeader_init), Inl Out_Of_Bounds)
              | hdr_len # _ \<Rightarrow>
                  if length data < unat hdr_len then ((pm, Some DataHeader_init), Inr False)
                  else (case DataHeader_Deserialize DataHeader_init data of
                      (hdr, Inl e) \<Rightarrow> ((pm, Some hdr), Inl e)
                    | (hdr, Inr _) \<Rightarrow> (case fwd True hdr (ucast hdr_len) pm of (pm, x) \<Rightarrow> ((pm, Some hdr), res_bind x (\<lambda>_. Inr True))))))"

text \<open>
  The read loop: \<open>queue\<close> is what the stream's queue holds, \<open>limit\<close> is libquicr's
  \<open>kReadLoopMaxPerStream\<close>.  Data that was not used sets the counter to 59 before it is increased.
\<close>

fun recv_loop :: "quicr_api \<Rightarrow> u64 \<Rightarrow> sref \<Rightarrow> u64 \<Rightarrow> u64 option \<Rightarrow> bool \<Rightarrow> nat \<Rightarrow> nat \<Rightarrow> DataHeader option \<Rightarrow> bytes list \<Rightarrow> PeerManager
    \<Rightarrow> (PeerManager \<times> DataHeader option \<times> bytes list) \<times> unit res" where
  "recv_loop q ref r stream_id data_ctx_id is_bidir limit i ctx [] pm = ((pm, ctx, []), Inr ())"
| "recv_loop q ref r stream_id data_ctx_id is_bidir limit i ctx (data # queue) pm =
     (if limit \<le> i then ((pm, ctx, data # queue), Inr ())
      else if is_bidir
      then (case data_ctx_id of
              None \<Rightarrow> ((pm, ctx, queue), Inl Null_Deref)
            | Some c \<Rightarrow>
                (case andthen (update_session r (\<lambda>s. s\<lparr>ps_control_data_ctx_id := c, ps_control_msg_buffer := ps_control_msg_buffer s @ data\<rparr>) pm)
                        (\<lambda>_. ProcessControlMessage q ref r) of
                   (pm, Inl e) \<Rightarrow> ((pm, ctx, queue), Inl e)
                 | (pm, Inr _) \<Rightarrow> recv_loop q ref r stream_id data_ctx_id is_bidir limit (Suc i) ctx queue pm))
      else (case ProcessReceivedData q r (Some stream_id) ctx data pm of
              ((pm, ctx), Inl e) \<Rightarrow> ((pm, ctx, queue), Inl e)
            | ((pm, ctx), Inr used) \<Rightarrow>
                recv_loop q ref r stream_id data_ctx_id is_bidir limit (if used then Suc i else 60) ctx queue pm))"

definition PS_OnRecvStream :: "quicr_api \<Rightarrow> u64 \<Rightarrow> sref \<Rightarrow> u64 \<Rightarrow> u64 option \<Rightarrow> bool \<Rightarrow> nat \<Rightarrow> DataHeader option \<Rightarrow> bytes list \<Rightarrow> PeerManager
    \<Rightarrow> (PeerManager \<times> DataHeader option \<times> bytes list) \<times> unit res" where
  "PS_OnRecvStream q ref r stream_id data_ctx_id is_bidir limit = recv_loop q ref r stream_id data_ctx_id is_bidir limit 0"

text \<open>Up to 80 datagrams of the connection.\<close>

definition recv_dgram :: "quicr_api \<Rightarrow> sref \<Rightarrow> bytes \<Rightarrow> PeerManager \<Rightarrow> unit pm_res" where
  "recv_dgram q r data pm =
     (case DataHeader_Deserialize DataHeader_init data of
        (_, Inl e) \<Rightarrow> pm_fail e pm
      | (hdr, Inr _) \<Rightarrow> with_id r (\<lambda>sid. ForwardPeerData q sid False 0 hdr data (ucast (dh_header_len hdr)) False) pm)"

definition PS_OnRecvDgram :: "quicr_api \<Rightarrow> sref \<Rightarrow> bytes list \<Rightarrow> PeerManager \<Rightarrow> unit pm_res" where
  "PS_OnRecvDgram q r queue pm = foreach (recv_dgram q r) (take 80 queue) pm"

text \<open>The context of a closed stream: none, or one whose \<open>std::any\<close> may be empty.\<close>

definition PS_OnStreamClosed :: "u64 \<Rightarrow> u64 \<Rightarrow> DataHeader option option \<Rightarrow> bool \<Rightarrow> PeerManager \<Rightarrow> unit pm_res" where
  "PS_OnStreamClosed conn_id stream_id rx reset pm =
     (case rx of
        None \<Rightarrow> pm_ok pm
      | Some None \<Rightarrow> pm_fail Std_Bad_Any_Cast pm
      | Some (Some hdr) \<Rightarrow> CloseStream conn_id (dh_sns_id hdr) stream_id (dh_track_full_name_hash hdr) reset pm)"

text \<open>The server transport's callbacks find the session by its connection.\<close>

definition PM_OnRecvStream :: "quicr_api \<Rightarrow> u64 \<Rightarrow> u64 \<Rightarrow> u64 \<Rightarrow> u64 option \<Rightarrow> bool \<Rightarrow> nat \<Rightarrow> DataHeader option \<Rightarrow> bytes list \<Rightarrow> PeerManager
    \<Rightarrow> (PeerManager \<times> DataHeader option \<times> bytes list) \<times> unit res" where
  "PM_OnRecvStream q ref conn_id stream_id data_ctx_id is_bidir limit ctx queue pm =
     (case map_of (pm_server pm) conn_id of
        None \<Rightarrow> ((pm, ctx, queue), Inr ())
      | Some r \<Rightarrow> PS_OnRecvStream q ref r stream_id data_ctx_id is_bidir limit ctx queue pm)"

definition PM_OnRecvDgram :: "quicr_api \<Rightarrow> u64 \<Rightarrow> bytes list \<Rightarrow> PeerManager \<Rightarrow> unit pm_res" where
  "PM_OnRecvDgram q conn_id queue pm =
     (case map_of (pm_server pm) conn_id of None \<Rightarrow> pm_ok pm | Some r \<Rightarrow> PS_OnRecvDgram q r queue pm)"

definition PM_OnStreamClosed :: "u64 \<Rightarrow> u64 \<Rightarrow> DataHeader option option \<Rightarrow> bool \<Rightarrow> PeerManager \<Rightarrow> unit pm_res" where
  "PM_OnStreamClosed conn_id stream_id rx reset pm =
     (case map_of (pm_server pm) conn_id of None \<Rightarrow> pm_ok pm | Some _ \<Rightarrow> PS_OnStreamClosed conn_id stream_id rx reset pm)"


section \<open>Frames\<close>

lemma update_session_eq:
  "map_of (pm_sessions pm) r = Some s \<Longrightarrow> update_session r f pm = pm_ok (pm\<lparr>pm_sessions := mput r (f s) (pm_sessions pm)\<rparr>)"
  by (simp add: update_session_def session_do_def on_session_def)

text \<open>A message on the wire: its common header and a body of the declared length, which is small enough
  for the 32 bit length test.\<close>

definition frame :: "msg_type \<Rightarrow> bytes \<Rightarrow> bytes" where
  "frame t body = common_header t (word_of_nat (length body)) @ body"

definition small_body :: "bytes \<Rightarrow> bool" where
  "small_body body \<longleftrightarrow> unat kCommonHeadersSize + length body < 2 ^ 32"

lemma length_frame [simp]: "length (frame t body) = unat kCommonHeadersSize + length body"
  by (simp add: frame_def)

lemma frame_fields:
  assumes "take (unat kCommonHeadersSize) buf = take (unat kCommonHeadersSize) (frame t body)" and "unat kCommonHeadersSize \<le> length buf"
  shows "\<exists>rest. rd_int (drop 1 buf) = Inr (msg_code t, rest)" and "frame_length buf = Inr (word_of_nat (length body))"
proof -
  have "take (unat kCommonHeadersSize) (frame t body) = common_header t (word_of_nat (length body))" by (simp add: frame_def)
  then have b: "buf = common_header t (word_of_nat (length body)) @ drop (unat kCommonHeadersSize) buf"
    using assms(1) append_take_drop_id [of "unat kCommonHeadersSize" buf] by simp
  show "\<exists>rest. rd_int (drop 1 buf) = Inr (msg_code t, rest)" by (subst b) (simp add: common_header_def)
  show "frame_length buf = Inr (word_of_nat (length body))" by (subst b) (simp add: frame_length_def common_header_def)
qed

lemma small_body_length:
  assumes "small_body body"
  shows "unat (word_of_nat (length body) :: u32) = length body"
    and "unat (ucast kCommonHeadersSize + word_of_nat (length body) :: u32) = unat kCommonHeadersSize + length body"
proof -
  show u: "unat (word_of_nat (length body) :: u32) = length body"
    using assms by (simp add: small_body_def unat_of_nat)
  have "unat (ucast kCommonHeadersSize :: u32) = unat kCommonHeadersSize" by (simp add: kCommonHeadersSize_def)
  then show "unat (ucast kCommonHeadersSize + word_of_nat (length body) :: u32) = unat kCommonHeadersSize + length body"
    using assms u by (subst unat_add_lem [THEN iffD1]) (simp_all add: small_body_def)
qed

text \<open>What a complete message at the start of the buffer does; behind a strict prefix of one nothing happens.\<close>

definition dispatched :: "quicr_api \<Rightarrow> u64 \<Rightarrow> sref \<Rightarrow> msg_type \<Rightarrow> bytes \<Rightarrow> bytes \<Rightarrow> PeerManager \<Rightarrow> unit pm_res" where
  "dispatched q ref r t body rest pm =
     (case handle_control q ref r (msg_code t) body pm of
        (pm, Inr _) \<Rightarrow> set_buffer r rest pm
      | (pm, Inl e) \<Rightarrow> if is_exception e then set_buffer r [] pm else pm_fail e pm)"

lemma ProcessControlMessage_frame:
  assumes "map_of (pm_sessions pm) r = Some s" and "ps_control_msg_buffer s = frame t body @ rest" and "small_body body"
  shows "ProcessControlMessage q ref r pm = dispatched q ref r t body rest pm"
proof -
  let ?buf = "frame t body @ rest"
  have "unat kCommonHeadersSize \<le> length ?buf" by simp
  then obtain x where "rd_int (drop 1 ?buf) = Inr (msg_code t, x)" and "frame_length ?buf = Inr (word_of_nat (length body))"
    using frame_fields [of ?buf t body] by auto
  moreover have "take (length body) (drop (unat kCommonHeadersSize) ?buf) = body" by (simp add: frame_def)
  moreover have "drop (unat kCommonHeadersSize + length body) ?buf = rest" by simp
  ultimately show ?thesis
    using assms by (simp add: ProcessControlMessage_def dispatched_def small_body_length Let_def case_prod_unfold split: sum.split)
qed

lemma ProcessControlMessage_incomplete:
  assumes "map_of (pm_sessions pm) r = Some s" and "frame t body = ps_control_msg_buffer s @ missing" and "missing \<noteq> []" and "small_body body"
  shows "ProcessControlMessage q ref r pm = pm_ok pm"
proof (cases "length (ps_control_msg_buffer s) < unat kCommonHeadersSize")
  case True
  then show ?thesis using assms(1) by (simp add: ProcessControlMessage_def Let_def)
next
  case False
  let ?buf = "ps_control_msg_buffer s"
  have "unat kCommonHeadersSize \<le> length ?buf" using False by simp
  moreover have "take (unat kCommonHeadersSize) ?buf = take (unat kCommonHeadersSize) (frame t body)" using False assms(2) by simp
  ultimately obtain x where "rd_int (drop 1 ?buf) = Inr (msg_code t, x)" and "frame_length ?buf = Inr (word_of_nat (length body))"
    using frame_fields [of ?buf t body] by auto
  moreover have "length ?buf < unat kCommonHeadersSize + length body"
    using arg_cong [OF assms(2), of length] assms(3) by simp
  ultimately show ?thesis
    using assms(1,4) False by (simp add: ProcessControlMessage_def small_body_length Let_def)
qed


text \<open>The session with what has arrived of the message.\<close>

definition buffered :: "sref \<Rightarrow> u64 \<Rightarrow> bytes \<Rightarrow> PeerManager \<Rightarrow> PeerManager" where
  "buffered r c bs pm = pm\<lparr>pm_sessions := mput r ((the (map_of (pm_sessions pm) r))
      \<lparr>ps_control_data_ctx_id := c, ps_control_msg_buffer := bs\<rparr>) (pm_sessions pm)\<rparr>"

lemma recv_loop_frame:
  assumes "map_of (pm_sessions pm) r = Some s" and "msorted (pm_sessions pm)" and "small_body body"
    and "ps_control_msg_buffer s @ concat chunks = frame t body" and "chunks \<noteq> []" and "[] \<notin> set chunks"
    and "i + length chunks \<le> limit"
  shows "recv_loop q ref r stream (Some c) True limit i ctx chunks pm =
    (case dispatched q ref r t body [] (buffered r c (frame t body) pm) of (pm', x) \<Rightarrow> ((pm', ctx, []), x))"
  using assms
proof (induction chunks arbitrary: i pm s)
  case (Cons data chunks)
  let ?s = "s\<lparr>ps_control_data_ctx_id := c, ps_control_msg_buffer := ps_control_msg_buffer s @ data\<rparr>"
  define pm1 where "pm1 = pm\<lparr>pm_sessions := mput r ?s (pm_sessions pm)\<rparr>"
  have u: "update_session r (\<lambda>s. s\<lparr>ps_control_data_ctx_id := c, ps_control_msg_buffer := ps_control_msg_buffer s @ data\<rparr>) pm = pm_ok pm1"
    using Cons.prems(1) by (simp add: update_session_eq pm1_def)
  have s1: "map_of (pm_sessions pm1) r = Some ?s" and m1: "msorted (pm_sessions pm1)"
    using Cons.prems(2) by (simp_all add: pm1_def)
  have lim: "\<not> limit \<le> i" using Cons.prems(7) by simp
  show ?case
  proof (cases "chunks = []")
    case True
    then have b: "ps_control_msg_buffer s @ data = frame t body" using Cons.prems(4) by simp
    then have "ps_control_msg_buffer ?s = frame t body @ []" by simp
    from ProcessControlMessage_frame [OF s1 this Cons.prems(3)]
    have "ProcessControlMessage q ref r pm1 = dispatched q ref r t body [] pm1" .
    moreover have "pm1 = buffered r c (frame t body) pm" using Cons.prems(1) b by (simp add: pm1_def buffered_def)
    ultimately show ?thesis using True lim u by (auto split: prod.split sum.split)
  next
    case False
    have "frame t body = ps_control_msg_buffer ?s @ concat chunks" using Cons.prems(4) by simp
    moreover have "concat chunks \<noteq> []" using False Cons.prems(6) by (cases chunks) auto
    ultimately have "ProcessControlMessage q ref r pm1 = pm_ok pm1"
      by (rule ProcessControlMessage_incomplete [OF s1 _ _ Cons.prems(3)])
    moreover have "buffered r c (frame t body) pm1 = buffered r c (frame t body) pm"
      using Cons.prems(1,2) by (simp add: buffered_def pm1_def mput_mput)
    moreover have "ps_control_msg_buffer ?s @ concat chunks = frame t body" using Cons.prems(4) by simp
    note IH = Cons.IH [OF s1 m1 Cons.prems(3) this False, of "Suc i"]
    ultimately show ?thesis using lim u IH Cons.prems(6,7) by simp
  qed
qed simp


text \<open>Receiving changes the buffer and the data context of the session, nothing the manager relies on.\<close>

lemma buffered_wf:
  assumes "pm_wf pm" and "map_of (pm_sessions pm) r = Some s"
  shows "pm_wf (buffered r c bs pm)" and "live_of (buffered r c bs pm) = live_of pm"
    and "map_of (pm_sessions (buffered r c bs pm)) r = Some (s\<lparr>ps_control_data_ctx_id := c, ps_control_msg_buffer := bs\<rparr>)"
proof -
  show l: "live_of (buffered r c bs pm) = live_of pm" using assms(2) by (auto simp: live_of_def buffered_def fun_eq_iff)
  show "pm_wf (buffered r c bs pm)"
    using assms unfolding pm_wf_def l by (simp add: buffered_def all_sessions_def)
  show "map_of (pm_sessions (buffered r c bs pm)) r = Some (s\<lparr>ps_control_data_ctx_id := c, ps_control_msg_buffer := bs\<rparr>)"
    using assms(2) by (simp add: buffered_def)
qed

lemma set_buffer_live: "live_of pm r \<noteq> None \<Longrightarrow> set_buffer r bs pm = pm_ok (fst (set_buffer r bs pm))"
  by (auto simp: live_of_def set_buffer_def update_session_eq)

lemma dispatched_act:
  assumes s: "map_of (pm_sessions pm) r = Some s" and h: "handle_control q ref r (msg_code t) body pm = with_id r act pm"
    and a: "safe pm (act (ps_t_conn_id s) pm) \<and> snd (act (ps_t_conn_id s) pm) = Inr ()"
  shows "dispatched q ref r t body rest pm = pm_ok (fst (set_buffer r rest (fst (act (ps_t_conn_id s) pm))))"
proof -
  have "live_of (fst (act (ps_t_conn_id s) pm)) = live_of pm" using a by (simp add: safe_def pm_keep_live)
  moreover have "live_of pm r \<noteq> None" using s by (simp add: live_of_def)
  moreover have "with_id r act pm = act (ps_t_conn_id s) pm" using s by (simp add: with_id_def)
  ultimately show ?thesis
    using a set_buffer_live [of "fst (act (ps_t_conn_id s) pm)" r rest]
    by (cases "act (ps_t_conn_id s) pm") (simp add: dispatched_def h)
qed

lemma recv_stream_delivers:
  assumes wf: "pm_wf pm" and s: "map_of (pm_sessions pm) r = Some s" "ps_control_msg_buffer s = []"
    and c: "concat chunks = frame t body" "chunks \<noteq> []" "[] \<notin> set chunks" "length chunks \<le> limit" "small_body body"
    and h: "\<And>pm'. handle_control q ref r (msg_code t) body pm' = with_id r act pm'"
    and a: "\<And>sid pm'. pm_wf pm' \<Longrightarrow> safe pm' (act sid pm') \<and> snd (act sid pm') = Inr ()"
  shows "PS_OnRecvStream q ref r stream (Some c) True limit ctx chunks pm =
    ((fst (set_buffer r [] (fst (act (ps_t_conn_id s) (buffered r c (concat chunks) pm)))), ctx, []), Inr ())"
proof -
  let ?pm = "buffered r c (concat chunks) pm"
  note b = buffered_wf [OF wf s(1), of c "concat chunks"]
  have "dispatched q ref r t body [] ?pm = pm_ok (fst (set_buffer r [] (fst (act (ps_t_conn_id s) ?pm))))"
    using dispatched_act [OF b(3) h, of "[]"] a [OF b(1)] by simp
  moreover have "msorted (pm_sessions pm)" using wf by (simp add: pm_wf_def)
  ultimately show ?thesis
    unfolding PS_OnRecvStream_def
    by (subst recv_loop_frame [OF s(1) _ c(5), where t = t]) (use s c in simp_all)
qed

lemma framed_messages:
  "uintvar_contract uv \<Longrightarrow> NodeInfo_fits uv ni \<Longrightarrow>
     NodeInfo_Serialize uv ni True w = frame (if w then kNodeInfoWithdrawn else kNodeInfoAdvertise) (NodeInfo_write uv ni) \<and> small_body (NodeInfo_write uv ni)"
  "SubscribeInfo_fits si \<Longrightarrow>
     snd (SubscribeInfo_Serialize si True w False) = frame (if w then kSubscribeInfoWithdrawn else kSubscribeInfoAdvertised) (SubscribeInfo_write si)
       \<and> small_body (SubscribeInfo_write si)"
  "AnnounceInfo_fits tn ai \<Longrightarrow>
     AnnounceInfo_Serialize ai True w = frame (if w then kAnnounceInfoWithdrawn else kAnnounceInfoAdvertised) (AnnounceInfo_write ai)
       \<and> small_body (AnnounceInfo_write ai)"
proof -
  have eq: "len = word_of_nat n" if "unat len = n" for len :: u32 and n using that [symmetric] by simp
  show "uintvar_contract uv \<Longrightarrow> NodeInfo_fits uv ni \<Longrightarrow>
     NodeInfo_Serialize uv ni True w = frame (if w then kNodeInfoWithdrawn else kNodeInfoAdvertise) (NodeInfo_write uv ni) \<and> small_body (NodeInfo_write uv ni)"
    using eq [OF NodeInfo_size_eq] by (simp add: NodeInfo_Serialize_def frame_def small_body_def NodeInfo_fits_def kCommonHeadersSize_def)
  show "SubscribeInfo_fits si \<Longrightarrow>
     snd (SubscribeInfo_Serialize si True w False) = frame (if w then kSubscribeInfoWithdrawn else kSubscribeInfoAdvertised) (SubscribeInfo_write si)
       \<and> small_body (SubscribeInfo_write si)"
    using eq [OF si.len_enc]
    by (simp add: SubscribeInfo_Serialize_def frame_def small_body_def SubscribeInfo_fits_def kCommonHeadersSize_def SubscribeInfo_write_def)
  show "AnnounceInfo_fits tn ai \<Longrightarrow>
     AnnounceInfo_Serialize ai True w = frame (if w then kAnnounceInfoWithdrawn else kAnnounceInfoAdvertised) (AnnounceInfo_write ai)
       \<and> small_body (AnnounceInfo_write ai)"
    using eq [OF AnnounceInfo_size_eq] AnnounceInfo_write_bound [of tn ai]
    by (simp add: AnnounceInfo_Serialize_def frame_def small_body_def kCommonHeadersSize_def)
qed


lemma handle_control_reads:
  "uintvar_contract (q_uintvar q) \<Longrightarrow> NodeInfo_fits (q_uintvar q) ni \<Longrightarrow>
     handle_control q ref r (msg_code (if w then kNodeInfoWithdrawn else kNodeInfoAdvertise)) (NodeInfo_write (q_uintvar q) ni) pm
       = with_id r (\<lambda>sid. NodeReceived q sid ni w) pm"
  "SubscribeInfo_fits si \<Longrightarrow>
     handle_control q ref r (msg_code (if w then kSubscribeInfoWithdrawn else kSubscribeInfoAdvertised)) (SubscribeInfo_write si) pm
       = with_id r (\<lambda>sid. SubscribeInfoReceived q ref sid si w) pm"
  "AnnounceInfo_fits (q_namespace q) ai \<Longrightarrow>
     handle_control q ref r (msg_code (if w then kAnnounceInfoWithdrawn else kAnnounceInfoAdvertised)) (AnnounceInfo_write ai) pm
       = with_id r (\<lambda>sid. AnnounceInfoReceived q sid ai w) pm"
  by (cases w; simp add: handle_control_def from_wire_def uintvar_contract.NodeInfo_read_write si.dec_enc ai.dec_enc)+

text \<open>C5. However a control message is cut on its way, it has its effect exactly once.  A session of a
  running relay with an empty buffer receives, in non-empty chunks that fit one read loop, what a
  peer's \<open>SendNodeInfo\<close>, \<open>SendSubscribeInfo\<close> or \<open>SendAnnounceInfo\<close> put on the control
  stream: the read loop takes every chunk, the manager's handler runs once, with the message the peer
  sent and the identifier of the session, nothing is thrown, and the buffer is empty again.\<close>

theorem control_message_delivered:
  assumes "pm_wf pm" and "map_of (pm_sessions pm) r = Some s" and "ps_control_msg_buffer s = []"
    and "uintvar_contract (q_uintvar q)" and "msg_throws_std (q_msg q)"
    and "chunks \<noteq> []" and "[] \<notin> set chunks" and "length chunks \<le> limit"
  shows "(\<forall>ni w. NodeInfo_fits (q_uintvar q) ni \<and> concat chunks = NodeInfo_Serialize (q_uintvar q) ni True w \<longrightarrow>
        PS_OnRecvStream q ref r stream (Some c) True limit ctx chunks pm =
          ((fst (set_buffer r [] (fst (NodeReceived q (ps_t_conn_id s) ni w (buffered r c (concat chunks) pm)))), ctx, []), Inr ()))
    \<and> (\<forall>si w. SubscribeInfo_fits si \<and> concat chunks = snd (SubscribeInfo_Serialize si True w False) \<longrightarrow>
        PS_OnRecvStream q ref r stream (Some c) True limit ctx chunks pm =
          ((fst (set_buffer r [] (fst (SubscribeInfoReceived q ref (ps_t_conn_id s) si w (buffered r c (concat chunks) pm)))), ctx, []), Inr ()))
    \<and> (\<forall>ai w. AnnounceInfo_fits (q_namespace q) ai \<and> concat chunks = AnnounceInfo_Serialize ai True w \<longrightarrow>
        PS_OnRecvStream q ref r stream (Some c) True limit ctx chunks pm =
          ((fst (set_buffer r [] (fst (AnnounceInfoReceived q (ps_t_conn_id s) ai w (buffered r c (concat chunks) pm)))), ctx, []), Inr ()))"
proof -
  note d = recv_stream_delivers [OF assms(1-3) _ assms(6-8), where q = q and ref = ref and c = c and ctx = ctx and stream = stream]
  have "PS_OnRecvStream q ref r stream (Some c) True limit ctx chunks pm =
          ((fst (set_buffer r [] (fst (NodeReceived q (ps_t_conn_id s) ni w (buffered r c (concat chunks) pm)))), ctx, []), Inr ())"
    if f: "NodeInfo_fits (q_uintvar q) ni" and "concat chunks = NodeInfo_Serialize (q_uintvar q) ni True w" for ni w
    by (rule d [OF _ _ handle_control_reads(1) [OF assms(4) f] NodeReceived_safe]) (simp_all add: that framed_messages(1) [OF assms(4) f])
  moreover have "PS_OnRecvStream q ref r stream (Some c) True limit ctx chunks pm =
          ((fst (set_buffer r [] (fst (SubscribeInfoReceived q ref (ps_t_conn_id s) si w (buffered r c (concat chunks) pm)))), ctx, []), Inr ())"
    if f: "SubscribeInfo_fits si" and "concat chunks = snd (SubscribeInfo_Serialize si True w False)" for si w
    by (rule d [OF _ _ handle_control_reads(2) [OF f] SubscribeInfoReceived_safe [OF _ assms(5)]]) (simp_all add: that framed_messages(2) [OF f])
  moreover have "PS_OnRecvStream q ref r stream (Some c) True limit ctx chunks pm =
          ((fst (set_buffer r [] (fst (AnnounceInfoReceived q (ps_t_conn_id s) ai w (buffered r c (concat chunks) pm)))), ctx, []), Inr ())"
    if f: "AnnounceInfo_fits (q_namespace q) ai" and "concat chunks = AnnounceInfo_Serialize ai True w" for ai w
    by (rule d [OF _ _ handle_control_reads(3) [OF f] AnnounceInfoReceived_safe]) (simp_all add: that framed_messages(3) [OF f])
  ultimately show ?thesis by blast
qed


theorem control_message_delivered_witness:
  defines "m \<equiv> NodeInfo_Serialize quic_varint sample_node True False"
  shows "PS_OnRecvStream sample_quicr 7 0 3 (Some 1) True 60 None [take 5 m, drop 5 m] sample_manager =
    ((fst (set_buffer 0 [] (fst (NodeReceived sample_quicr 10 sample_node False (buffered 0 1 m sample_manager)))), None, []), Inr ())"
proof -
  have "5 < length m" by (simp add: m_def NodeInfo_Serialize_def kCommonHeadersSize_def)
  then have "[take 5 m, drop 5 m] \<noteq> []" "[] \<notin> set [take 5 m, drop 5 m]" "length [take 5 m, drop 5 m] \<le> 60" by auto
  moreover have "map_of (pm_sessions sample_manager) 0 = Some (sample_peer True 10 3)" by (simp add: sample_manager_def)
  moreover have "ps_control_msg_buffer (sample_peer True 10 3) = []" "ps_t_conn_id (sample_peer True 10 3) = 10"
    by (simp_all add: sample_peer_def PeerSession_make_def)
  moreover have "uintvar_contract (q_uintvar sample_quicr)" "q_uintvar sample_quicr = quic_varint"
    by (simp_all add: sample_quicr_def quic.uintvar_contract_axioms)
  ultimately show ?thesis
    using control_message_delivered [OF sample_manager_wf, of 0 "sample_peer True 10 3" sample_quicr "[take 5 m, drop 5 m]" 60 7 3 1 None]
      plain_msg_throws sample_node_fits by (simp add: m_def)
qed


section \<open>A lost session\<close>

text \<open>A withdrawn subscribe leaves the node and peer forwarding tables alone.\<close>

definition routes_kept :: "PeerManager \<Rightarrow> 'a pm_res \<Rightarrow> bool" where
  "routes_kept pm r \<longleftrightarrow> same_routes (pm_info_base pm) (pm_info_base (fst r))"

lemma routes_kept_refl [simp]: "routes_kept pm (pm, x)"
  by (simp add: routes_kept_def same_routes_def)

lemma routes_kept_andthen:
  assumes "routes_kept pm r" and "\<And>x pm'. routes_kept pm' (f x pm')"
  shows "routes_kept pm (andthen r f)"
  using assms same_routes_trans unfolding routes_kept_def andthen_def by (auto split: sum.split)

lemma routes_kept_update: "same_routes (pm_info_base pm) (pm_info_base pm') \<Longrightarrow> routes_kept pm' r \<Longrightarrow> routes_kept pm r"
  using same_routes_trans unfolding routes_kept_def by blast

lemma on_session_info_base [simp]: "pm_info_base (fst (on_session r f pm)) = pm_info_base pm"
  by (simp add: on_session_def split: option.split prod.split)

lemma routes_kept_simps [simp]: "routes_kept pm (on_session r f pm)" "routes_kept pm (call_client e pm)"
  by (simp_all add: routes_kept_def same_routes_def call_client_def)

lemma subscribe_to_info_base: "pm_info_base (fst (fst (subscribe_to w sess st))) = pm_info_base (fst st)"
  using on_session_info_base [of "snd sess" "SendSubscribeInfo (snd st) w" "fst st"]
  by (auto simp: subscribe_to_def simp del: on_session_info_base split: prod.split sum.split)

lemma flood_subscribe_info_base: "pm_info_base (fst (fst (flood_subscribe ing w st))) = pm_info_base (fst st)"
proof -
  let ?f = "\<lambda>sess st. if Some (fst sess) \<noteq> ing then subscribe_to w sess st else (st, Inr ())"
  have "pm_info_base (fst (fst (foreach ?f xs st))) = pm_info_base (fst st)" for xs
    by (induction xs arbitrary: st) (simp_all add: andthen_def subscribe_to_info_base split: sum.split)
  then show ?thesis by (simp add: flood_subscribe_def)
qed

lemma withdrawn_subscribe_routes: "routes_kept pm (SubscribeInfoReceived q ref sid si True pm)"
proof (cases "GetPeerSession sid pm")
  case (Inl e)
  then show ?thesis by (simp add: SubscribeInfoReceived_def routes_kept_def same_routes_def)
next
  case (Inr r)
  have del: "routes_kept pm' (if b then call_client e (pm'\<lparr>pm_info_base := (pm_info_base pm')\<lparr>ib_client_fib := f\<rparr>\<rparr>)
      else pm_ok (pm'\<lparr>pm_info_base := (pm_info_base pm')\<lparr>ib_client_fib := f\<rparr>\<rparr>))" for b e f pm'
    by (rule routes_kept_update [of _ "pm'\<lparr>pm_info_base := (pm_info_base pm')\<lparr>ib_client_fib := f\<rparr>\<rparr>"]) simp_all
  have "routes_kept pm' (unsubscribe_egress sid si' pm')" for si' pm'
    unfolding unsubscribe_egress_def Let_def
    by (intro routes_kept_andthen) (auto simp: del case_prod_unfold intro!: routes_kept_andthen split: option.split)
  moreover define f where "f = (if snd (RemoveSubscribe si (pm_info_base pm))
      then flood_subscribe (Some sid) True (pm\<lparr>pm_info_base := fst (RemoveSubscribe si (pm_info_base pm))\<rparr>, si)
      else ((pm\<lparr>pm_info_base := fst (RemoveSubscribe si (pm_info_base pm))\<rparr>, si), Inr ()))"
  moreover have "routes_kept pm (fst (fst f), snd f)"
    by (simp add: f_def routes_kept_def flood_subscribe_info_base)
  ultimately have "routes_kept pm (andthen (fst (fst f), snd f) (\<lambda>_. unsubscribe_egress sid (snd (fst f))))"
    by (intro routes_kept_andthen)
  then show ?thesis
    by (simp add: SubscribeInfoReceived_def Inr Let_def case_prod_unfold f_def routes_kept_def cong: if_cong)
qed


text \<open>Another node's subscribe is forwarded on an entry keyed by the session.\<close>

definition serves_other :: "u64 \<Rightarrow> u64 \<Rightarrow> InfoBase \<Rightarrow> u64 \<times> (u64, SubscribeInfo) omap \<Rightarrow> bool" where
  "serves_other sid remote ib entry \<longleftrightarrow> map_of (snd entry) remote = None
     \<and> list_ex (\<lambda>(_, si). map_of (ib_client_fib ib) (th_fullname (si_track_hash si), sid) \<noteq> None) (snd entry)"

lemma scan_subscribes_cases:
  "(list_ex (serves_other sid remote (pm_info_base pm)) subs \<longrightarrow> snd (scan_subscribes sid remote subs pm) = Inl Self_Deadlock)
    \<and> (\<not> list_ex (serves_other sid remote (pm_info_base pm)) subs \<longrightarrow> (\<exists>remove. scan_subscribes sid remote subs pm = (pm, Inr remove)))"
proof (induction subs)
  case (Cons entry rest)
  obtain fh m where e: "entry = (fh, m)" by fastforce
  show ?case
  proof (cases "map_of m remote")
    case (Some si)
    then show ?thesis using Cons.IH by (auto simp: e serves_other_def andthen_def)
  next
    case None
    let ?P = "\<lambda>(_ :: u64, si). map_of (ib_client_fib (pm_info_base pm)) (th_fullname (si_track_hash si), sid) \<noteq> None"
    have "serves_other sid remote (pm_info_base pm) entry \<longleftrightarrow> find ?P m \<noteq> None"
      using None find_None_iff [of ?P m] by (auto simp: e serves_other_def list_ex_iff)
    then show ?thesis using Cons.IH None by (cases "find ?P m") (auto simp: e)
  qed
qed simp

definition same_subscribes :: "InfoBase \<Rightarrow> InfoBase \<Rightarrow> bool" where
  "same_subscribes ib ib' \<longleftrightarrow> ib_subscribes ib' = ib_subscribes ib \<and> ib_client_fib ib' = ib_client_fib ib"

lemma SelectBestNode_subscribes: "same_subscribes ib (fst (SelectBestNode live nid ib))"
  by (simp add: same_subscribes_def SelectBestNode_def Let_def split: sum.split prod.split option.split)

lemma reselect_subscribes: "same_subscribes ib (fst (reselect live nid ib))"
  using SelectBestNode_subscribes [of "ib\<lparr>ib_nodes_best := mdel nid (ib_nodes_best ib)\<rparr>" live nid]
  by (simp add: reselect_def andthen_def same_subscribes_def split: sum.split)

lemma PurgePeerSessionInfo_subscribes: "same_subscribes ib (fst (PurgePeerSessionInfo live sid ib))"
proof -
  let ?f = "\<lambda>node_id ib. reselect live node_id (ib\<lparr>ib_nodes := mdel (node_id, sid) (ib_nodes ib)\<rparr>)"
  have "same_subscribes ib (fst (foreach ?f ids ib))" for ids
  proof (induction ids arbitrary: ib)
    case (Cons n ids)
    have "same_subscribes ib (fst (?f n ib))"
      using reselect_subscribes [of "ib\<lparr>ib_nodes := mdel (n, sid) (ib_nodes ib)\<rparr>" live n] by (simp add: same_subscribes_def)
    moreover have "same_subscribes (fst (?f n ib)) (fst (foreach ?f ids (fst (?f n ib))))" by (rule Cons.IH)
    ultimately show ?case by (simp add: andthen_def same_subscribes_def split: sum.split)
  qed (simp add: same_subscribes_def)
  then show ?thesis
    by (auto simp: PurgePeerSessionInfo_def andthen_def same_subscribes_def split: option.split sum.split)
qed

lemma Purge_step_safe:
  assumes "pm_wf pm"
  shows "safe pm (on_info_base (PurgePeerSessionInfo (live_of pm) sid) pm)"
    and "snd (on_info_base (PurgePeerSessionInfo (live_of pm) sid) pm) = Inr ()"
proof -
  have wf: "ib_wf (live_of pm) (pm_info_base pm)" "msorted (ib_peer_fib (pm_info_base pm))" using assms by (simp_all add: pm_wf_def)
  obtain ib where p: "PurgePeerSessionInfo (live_of pm) sid (pm_info_base pm) = (ib, Inr ())" "ib_wf (live_of pm) ib"
    using PurgePeerSessionInfo_keeps [OF wf] by blast
  moreover have "msorted (ib_peer_fib ib)" using msorted_purge_fib [OF wf, of sid] p(1) by simp
  ultimately show "safe pm (on_info_base (PurgePeerSessionInfo (live_of pm) sid) pm)"
    and "snd (on_info_base (PurgePeerSessionInfo (live_of pm) sid) pm) = Inr ()"
    using assms by (simp_all add: on_info_base_def safe_def pm_wf_def)
qed


text \<open>The first half of the handler: the withdrawal of the lost node goes out, the session's tables are purged.\<close>

lemma lost_session_purged:
  assumes wf: "pm_wf pm"
  shows "\<exists>pm2. andthen (PropagateNodeInfo q remote True pm) (\<lambda>_ pm.
      if pm_stop pm then pm_ok pm else on_info_base (PurgePeerSessionInfo (live_of pm) sid) pm) = pm_ok pm2
    \<and> pm_wf pm2 \<and> pm_keep pm pm2 \<and> same_subscribes (pm_info_base pm) (pm_info_base pm2)
    \<and> (\<not> pm_stop pm \<longrightarrow> (\<forall>n. map_of (ib_nodes (pm_info_base pm2)) (n, sid) = None)
        \<and> (\<forall>s i. map_of (ib_peer_fib (pm_info_base pm2)) (s, i) = (if s = sid then None else map_of (ib_peer_fib (pm_info_base pm)) (s, i))))"
proof -
  obtain evs where p: "PropagateNodeInfo q remote True pm = pm_ok (pm\<lparr>pm_log := pm_log pm @ evs\<rparr>)"
    unfolding PropagateNodeInfo_def nodes_out.send_sessions [OF wf] by blast
  define pm1 where "pm1 = pm\<lparr>pm_log := pm_log pm @ evs\<rparr>"
  have wf1: "pm_wf pm1" and k1: "pm_keep pm pm1" and st: "pm_stop pm1 = pm_stop pm" "pm_info_base pm1 = pm_info_base pm"
    using wf by (simp_all add: pm1_def)
  show ?thesis
  proof (cases "pm_stop pm")
    case True
    then show ?thesis using p wf1 k1 st by (auto simp: pm1_def [symmetric] same_subscribes_def)
  next
    case False
    let ?r = "on_info_base (PurgePeerSessionInfo (live_of pm1) sid) pm1"
    have wf': "ib_wf (live_of pm1) (pm_info_base pm)" "msorted (ib_peer_fib (pm_info_base pm))" using wf1 st(2) by (simp_all add: pm_wf_def)
    obtain ib where ib: "PurgePeerSessionInfo (live_of pm1) sid (pm_info_base pm) = (ib, Inr ())"
      "\<forall>n. map_of (ib_nodes ib) (n, sid) = None"
      "\<forall>s i. map_of (ib_peer_fib ib) (s, i) = (if s = sid then None else map_of (ib_peer_fib (pm_info_base pm)) (s, i))"
      using PurgePeerSessionInfo_keeps [OF wf', of sid] by auto
    then have r: "?r = pm_ok (fst ?r)" and i: "pm_info_base (fst ?r) = ib" by (simp_all add: on_info_base_def st)
    have "safe pm1 ?r" by (rule Purge_step_safe(1) [OF wf1])
    then have "pm_wf (fst ?r)" and "pm_keep pm (fst ?r)" using pm_keep_trans [OF k1] by (simp_all add: safe_def)
    moreover have "same_subscribes (pm_info_base pm) ib"
      using PurgePeerSessionInfo_subscribes [of "pm_info_base pm" "live_of pm1" sid] ib(1) by simp
    ultimately show ?thesis
      using False p r i ib(2,3) st(1) by (intro exI [of _ "fst ?r"]) (simp add: pm1_def [symmetric])
  qed
qed

lemma andthen_assoc: "andthen (andthen r f) g = andthen r (\<lambda>x s. andthen (f x s) g)"
  by (simp add: andthen_def split: sum.split)

lemma withdraw_subscribes:
  assumes "pm_wf pm" and "msg_throws_std (q_msg q)"
  shows "safe pm (foreach (\<lambda>si. SubscribeInfoReceived q ref sid si True) remove pm)
    \<and> snd (foreach (\<lambda>si. SubscribeInfoReceived q ref sid si True) remove pm) = Inr ()
    \<and> routes_kept pm (foreach (\<lambda>si. SubscribeInfoReceived q ref sid si True) remove pm)"
  using assms(1)
proof (induction remove arbitrary: pm)
  case (Cons si remove)
  obtain pm1 where r: "SubscribeInfoReceived q ref sid si True pm = pm_ok pm1" and k: "pm_keep pm pm1" "pm_wf pm1"
    using SubscribeInfoReceived_safe [OF Cons.prems assms(2), of ref sid si True] by (metis prod.collapse safe_def)
  have "same_routes (pm_info_base pm) (pm_info_base pm1)"
    using withdrawn_subscribe_routes [of pm q ref sid si] by (simp add: r routes_kept_def)
  then show ?case
    using Cons.IH [OF k(2)] r by (auto intro: safe_update [OF k(1)] routes_kept_update)
qed (simp add: safe_ok)

lemma SessionChanged_lost:
  assumes wf: "pm_wf pm" and q: "msg_throws_std (q_msg q)"
  shows "(list_ex (serves_other sid (ni_id remote) (pm_info_base pm)) (ib_subscribes (pm_info_base pm)) \<longrightarrow>
        snd (SessionChanged q sid S_Disconnected remote pm) = Inl Self_Deadlock)
    \<and> (\<not> list_ex (serves_other sid (ni_id remote) (pm_info_base pm)) (ib_subscribes (pm_info_base pm)) \<longrightarrow>
        safe pm (SessionChanged q sid S_Disconnected remote pm)
        \<and> snd (SessionChanged q sid S_Disconnected remote pm) = Inr ()
        \<and> (\<not> pm_stop pm \<longrightarrow> (\<forall>n. map_of (ib_nodes (pm_info_base (fst (SessionChanged q sid S_Disconnected remote pm)))) (n, sid) = None)
          \<and> (\<forall>s i. map_of (ib_peer_fib (pm_info_base (fst (SessionChanged q sid S_Disconnected remote pm)))) (s, i)
                = (if s = sid then None else map_of (ib_peer_fib (pm_info_base pm)) (s, i)))))"
proof -
  let ?r = "SessionChanged q sid S_Disconnected remote pm"
  obtain pm2 where p: "andthen (PropagateNodeInfo q remote True pm) (\<lambda>_ pm.
      if pm_stop pm then pm_ok pm else on_info_base (PurgePeerSessionInfo (live_of pm) sid) pm) = pm_ok pm2"
    and wf2: "pm_wf pm2" and k2: "pm_keep pm pm2" and subs: "same_subscribes (pm_info_base pm) (pm_info_base pm2)"
    and tabs: "\<not> pm_stop pm \<longrightarrow> (\<forall>n. map_of (ib_nodes (pm_info_base pm2)) (n, sid) = None)
        \<and> (\<forall>s i. map_of (ib_peer_fib (pm_info_base pm2)) (s, i) = (if s = sid then None else map_of (ib_peer_fib (pm_info_base pm)) (s, i)))"
    using lost_session_purged [OF wf, of q remote sid] by blast
  have ex: "list_ex (serves_other sid (ni_id remote) (pm_info_base pm2)) (ib_subscribes (pm_info_base pm2)) =
      list_ex (serves_other sid (ni_id remote) (pm_info_base pm)) (ib_subscribes (pm_info_base pm))"
    using subs by (simp add: same_subscribes_def serves_other_def [abs_def])
  have r: "?r = andthen (scan_subscribes sid (ni_id remote) (ib_subscribes (pm_info_base pm2)) pm2) (\<lambda>remove pm.
       andthen (foreach (\<lambda>si. SubscribeInfoReceived q 0 sid si True) remove pm) (\<lambda>_ pm.
         pm_ok (if any_connected pm then pm else pm\<lparr>pm_info_base := (pm_info_base pm)\<lparr>ib_announces := []\<rparr>\<rparr>)))"
    unfolding SessionChanged_def if_not_P [of "S_Disconnected \<noteq> S_Disconnected", simplified] andthen_assoc [symmetric]
    using p by (simp add: andthen_assoc)
  show ?thesis
  proof (cases "list_ex (serves_other sid (ni_id remote) (pm_info_base pm)) (ib_subscribes (pm_info_base pm))")
    case True
    then show ?thesis using scan_subscribes_cases [of sid "ni_id remote" pm2 "ib_subscribes (pm_info_base pm2)"] ex
      by (simp add: r andthen_def)
  next
    case False
    then obtain remove where s: "scan_subscribes sid (ni_id remote) (ib_subscribes (pm_info_base pm2)) pm2 = (pm2, Inr remove)"
      using scan_subscribes_cases [of sid "ni_id remote" pm2 "ib_subscribes (pm_info_base pm2)"] ex by auto
    obtain pm3 where f: "foreach (\<lambda>si. SubscribeInfoReceived q 0 sid si True) remove pm2 = pm_ok pm3"
      and k3: "pm_keep pm2 pm3" "pm_wf pm3" and rt: "same_routes (pm_info_base pm2) (pm_info_base pm3)"
      using withdraw_subscribes [OF wf2 q, of 0 sid remove] by (metis prod.collapse safe_def routes_kept_def)
    let ?pm = "if any_connected pm3 then pm3 else pm3\<lparr>pm_info_base := (pm_info_base pm3)\<lparr>ib_announces := []\<rparr>\<rparr>"
    have "?r = pm_ok ?pm" by (simp add: r s f)
    moreover have rt': "same_routes (pm_info_base pm3) (pm_info_base ?pm)" by (simp add: same_routes_def nodes_same_def)
    then have "pm_wf ?pm" using pm_wf_routes [OF k3(2), of "(pm_info_base pm3)\<lparr>ib_announces := []\<rparr>"] k3(2) by auto
    moreover have "pm_keep pm ?pm" using pm_keep_trans [OF pm_keep_trans [OF k2 k3(1)]] by simp
    moreover have "ib_nodes (pm_info_base ?pm) = ib_nodes (pm_info_base pm2)" "ib_peer_fib (pm_info_base ?pm) = ib_peer_fib (pm_info_base pm2)"
      using same_routes_trans [OF rt rt'] by (simp_all add: same_routes_def nodes_same_def)
    ultimately show ?thesis using tabs False by (simp add: safe_def)
  qed
qed


section \<open>Sessions come and go\<close>

text \<open>
  \<open>linked\<close>: a running manager whose session maps are maps and whose next object is new.  In \<open>conn_wf\<close>
  every session object is also held by one of the maps.
\<close>

definition linked :: "PeerManager \<Rightarrow> bool" where
  "linked pm \<longleftrightarrow> pm_wf pm \<and> msorted (pm_server pm) \<and> msorted (pm_client pm) \<and> \<not> pm_stop pm
     \<and> (\<forall>r. live_of pm r \<noteq> None \<longrightarrow> r < pm_next pm)"

definition conn_wf :: "PeerManager \<Rightarrow> bool" where
  "conn_wf pm \<longleftrightarrow> linked pm \<and> (\<forall>r. live_of pm r \<noteq> None \<longrightarrow> r \<in> snd ` set (all_sessions pm))"

lemma pm_keep_linked: "pm_keep pm pm' \<Longrightarrow> pm_wf pm' \<Longrightarrow> linked pm \<Longrightarrow> linked pm'"
  using pm_keep_live [of pm pm'] by (simp add: linked_def pm_keep_def)

lemma pm_keep_conn_wf: "pm_keep pm pm' \<Longrightarrow> pm_wf pm' \<Longrightarrow> conn_wf pm \<Longrightarrow> conn_wf pm'"
  using pm_keep_linked pm_keep_live pm_keep_all_sessions by (simp add: conn_wf_def)

text \<open>Only the sessions that the node tables refer to have to stay.\<close>

definition used :: "InfoBase \<Rightarrow> sref \<Rightarrow> bool" where
  "used ib r \<longleftrightarrow> r \<in> nit_peer_session ` snd ` set (ib_nodes ib) \<union> snd ` set (ib_nodes_best ib)"

lemma ib_wf_live:
  assumes wf: "ib_wf l ib" and keep: "\<And>r sid n. used ib r \<Longrightarrow> l r = Some sid \<Longrightarrow> map_of (ib_nodes ib) (n, sid) \<noteq> None \<Longrightarrow> l' r = Some sid"
  shows "ib_wf l' ib"
proof -
  have "usable l' ib nid r" if "map_of (ib_nodes_best ib) nid = Some r" for nid r
  proof -
    have "used ib r" using map_of_SomeD [OF that] by (force simp: used_def)
    then show ?thesis using wf that keep unfolding ib_wf_def nodes_wf_def usable_def by blast
  qed
  moreover have "l' (nit_peer_session item) = Some sid" if "map_of (ib_nodes ib) (nid, sid) = Some item" for nid sid item
  proof -
    have "used ib (nit_peer_session item)" using map_of_SomeD [OF that] by (force simp: used_def)
    then show ?thesis using wf that keep unfolding ib_wf_def nodes_wf_def by (metis option.discI)
  qed
  ultimately show ?thesis using wf unfolding ib_wf_def nodes_wf_def by blast
qed

lemma used_live:
  assumes "pm_wf pm" and "used (pm_info_base pm) r"
  shows "live_of pm r \<noteq> None"
proof -
  have n: "nodes_wf (live_of pm) (pm_info_base pm)" using assms(1) by (simp add: pm_wf_def ib_wf_def)
  consider nid sid item where "((nid, sid), item) \<in> set (ib_nodes (pm_info_base pm))" "r = nit_peer_session item"
    | nid where "(nid, r) \<in> set (ib_nodes_best (pm_info_base pm))"
    using assms(2) by (auto simp: used_def)
  then show ?thesis
  proof cases
    case 1
    then show ?thesis using nodes_wf_item [OF n] by fastforce
  next
    case 2
    then have "map_of (ib_nodes_best (pm_info_base pm)) nid = Some r" using n by (simp add: nodes_wf_def om.entries_find)
    then show ?thesis using best_live [OF assms(1)] by blast
  qed
qed

lemma map_of_filter_key: "map_of (filter (\<lambda>(k, _). P k) m) k = (if P k then map_of m k else None)"
  by (induction m) auto

lemma live_of_release: "live_of (release pm) r = (if r \<in> snd ` set (all_sessions pm) then live_of pm r else None)"
  by (simp add: live_of_def release_def map_of_filter_key)

lemma release_fields [simp]:
  "pm_info_base (release pm) = pm_info_base pm" "pm_client_manager (release pm) = pm_client_manager pm"
  "pm_server (release pm) = pm_server pm" "pm_client (release pm) = pm_client pm" "pm_stop (release pm) = pm_stop pm"
  "pm_next (release pm) = pm_next pm" "all_sessions (release pm) = all_sessions pm"
  by (simp_all add: release_def all_sessions_def)

lemma release_conn_wf:
  assumes "linked pm"
    and "\<And>r sid n. used (pm_info_base pm) r \<Longrightarrow> live_of pm r = Some sid \<Longrightarrow> map_of (ib_nodes (pm_info_base pm)) (n, sid) \<noteq> None \<Longrightarrow>
      r \<in> snd ` set (all_sessions pm)"
  shows "conn_wf (release pm)"
proof -
  have "ib_wf (live_of (release pm)) (pm_info_base pm)"
    by (rule ib_wf_live [of "live_of pm"]) (use assms in \<open>auto simp: linked_def pm_wf_def live_of_release\<close>)
  moreover have "msorted (pm_sessions (release pm))"
    using assms(1) by (simp add: linked_def pm_wf_def release_def msorted_def sorted_wrt_map sorted_wrt_filter)
  moreover have "live_of (release pm) r = Some sid" if "(sid, r) \<in> set (all_sessions pm)" for sid r
    using that assms(1) wf_session_live [of pm "(sid, r)"] by (force simp: live_of_release linked_def)
  ultimately have "pm_wf (release pm)" using assms(1) by (auto simp: linked_def pm_wf_def)
  then show ?thesis
    using assms(1) by (auto simp: conn_wf_def linked_def live_of_release split: if_splits)
qed

text \<open>A new object, before a map holds it.\<close>

definition with_new :: "PeerSession \<Rightarrow> event list \<Rightarrow> PeerManager \<Rightarrow> PeerManager" where
  "with_new s log pm = pm\<lparr>pm_sessions := mput (pm_next pm) s (pm_sessions pm), pm_next := Suc (pm_next pm), pm_log := log\<rparr>"

lemma with_new_fields [simp]:
  "live_of (with_new s log pm) = (live_of pm)(pm_next pm \<mapsto> ps_t_conn_id s)" "all_sessions (with_new s log pm) = all_sessions pm"
  "pm_info_base (with_new s log pm) = pm_info_base pm" "pm_server (with_new s log pm) = pm_server pm"
  "pm_client (with_new s log pm) = pm_client pm" "pm_next (with_new s log pm) = Suc (pm_next pm)"
  "map_of (pm_sessions (with_new s log pm)) (pm_next pm) = Some s"
  "pm_stop (with_new s log pm) = pm_stop pm" "pm_client_manager (with_new s log pm) = pm_client_manager pm"
  by (auto simp: with_new_def live_of_def all_sessions_def fun_eq_iff)

lemma linked_next: "linked pm \<Longrightarrow> live_of pm (pm_next pm) = None"
  unfolding linked_def by (metis less_irrefl)

lemma linked_next_unused: "linked pm \<Longrightarrow> (sid, r) \<in> set (all_sessions pm) \<Longrightarrow> r \<noteq> pm_next pm"
  using linked_next [of pm] wf_session_live [of pm "(sid, r)"] by (auto simp: linked_def)

lemma with_new_linked:
  assumes "linked pm"
  shows "linked (with_new s log pm)"
proof -
  have "ib_wf (live_of (with_new s log pm)) (pm_info_base pm)"
    by (rule ib_wf_live [of "live_of pm"]) (use assms linked_next [OF assms] in \<open>auto simp: linked_def pm_wf_def\<close>)
  moreover have "live_of (with_new s log pm) r = Some sid" if "(sid, r) \<in> set (all_sessions pm)" for sid r
    using that assms wf_session_live [of pm "(sid, r)"] linked_next_unused [OF assms that] by (simp add: linked_def)
  moreover have "msorted (pm_sessions (with_new s log pm))" using assms by (simp add: linked_def pm_wf_def with_new_def)
  ultimately have "pm_wf (with_new s log pm)" using assms unfolding linked_def pm_wf_def by (simp del: with_new_fields(1)) fastforce
  then show ?thesis using assms by (auto simp: linked_def less_Suc_eq)
qed

text \<open>Entering an object under its identifier.\<close>

lemma linked_maps:
  assumes "linked pm" and "msorted sv" and "msorted cl"
    and "\<And>e. e \<in> set cl \<union> set sv \<Longrightarrow> live_of pm (snd e) = Some (fst e)"
  shows "linked (pm\<lparr>pm_server := sv, pm_client := cl\<rparr>)"
proof -
  have "live_of (pm\<lparr>pm_server := sv, pm_client := cl\<rparr>) = live_of pm" by (simp add: live_of_def fun_eq_iff)
  then show ?thesis using assms by (fastforce simp: linked_def pm_wf_def all_sessions_def)
qed

lemma session_maps_live:
  assumes "linked pm"
  shows "e \<in> set (pm_client pm) \<union> set (pm_server pm) \<Longrightarrow> live_of pm (snd e) = Some (fst e)"
  using assms wf_session_live [of pm e] by (auto simp: linked_def all_sessions_def)

lemma OnNewConnection_conn_wf:
  assumes "conn_wf pm"
  shows "conn_wf (fst (OnNewConnection q conn pm)) \<and> snd (OnNewConnection q conn pm) = Inr ()"
proof (cases "map_of (pm_server pm) conn")
  case (Some r)
  then show ?thesis using assms by (simp add: OnNewConnection_def)
next
  case None
  define s where "s = (PeerSession_make True conn (pm_node_info pm))\<lparr>ps_status := S_Connected, ps_remote_node_info := NodeInfo_default\<rparr>"
  define pm1 where "pm1 = with_new s (pm_log pm) pm"
  let ?pm = "pm1\<lparr>pm_server := mput conn (pm_next pm) (pm_server pm1), pm_client := pm_client pm1\<rparr>"
  have l: "linked pm" and l1: "linked pm1" using assms with_new_linked by (simp_all add: conn_wf_def pm1_def)
  have m: "msorted (pm_sessions pm)" "msorted (pm_server pm)" "msorted (pm_client pm)" using l by (simp_all add: linked_def pm_wf_def)
  have "OnNewConnection q conn pm = pm_ok ?pm"
    using None m by (simp add: OnNewConnection_def new_session_def session_do_def on_session_def PS_Connect_def pm1_def with_new_def
        s_def PeerSession_make_def Let_def)
  moreover have "linked ?pm"
  proof (rule linked_maps [OF l1])
    fix e
    assume "e \<in> set (pm_client pm1) \<union> set (mput conn (pm_next pm) (pm_server pm1))"
    then have "e = (conn, pm_next pm) \<or> e \<in> set (pm_client pm1) \<union> set (pm_server pm1)" using m(2) by (auto simp: set_mput pm1_def)
    then show "live_of pm1 (snd e) = Some (fst e)"
      using session_maps_live [OF l1, of e] by (auto simp: pm1_def s_def PeerSession_make_def)
  qed (use m in \<open>simp_all add: pm1_def\<close>)
  moreover have "r \<in> snd ` set (all_sessions ?pm)" if live: "live_of ?pm r \<noteq> None" for r
  proof (cases "r = pm_next pm")
    case True
    then show ?thesis using m(2) by (auto simp: all_sessions_def pm1_def set_mput image_iff)
  next
    case False
    have "live_of ?pm r = live_of pm r" using False by (simp add: live_of_def pm1_def with_new_def)
    then obtain k where "(k, r) \<in> set (all_sessions pm)" using live assms by (force simp: conn_wf_def)
    moreover have "k \<noteq> conn" if "(k, r) \<in> set (pm_server pm)" for k
      using that None by (metis om.entries_find [OF m(2)] option.discI)
    ultimately show ?thesis using m(2) by (force simp: all_sessions_def pm1_def set_mput)
  qed
  ultimately show ?thesis by (simp add: conn_wf_def)
qed

lemma CreatePeerSession_conn_wf:
  assumes "conn_wf pm"
  shows "conn_wf (fst (CreatePeerSession q pm)) \<and> snd (CreatePeerSession q pm) = Inr ()"
proof -
  define st where "st = PS_Connect (q_transport q) (PeerSession_make False 0 (pm_node_info pm), pm_log pm)"
  define pm1 where "pm1 = with_new (fst st) (snd st) pm"
  let ?k = "ps_t_conn_id (fst st)"
  let ?pm = "pm1\<lparr>pm_server := pm_server pm1, pm_client := fst (mtry ?k (pm_next pm) (pm_client pm1))\<rparr>"
  have l: "linked pm" and l1: "linked pm1" using assms with_new_linked by (simp_all add: conn_wf_def pm1_def)
  have m: "msorted (pm_sessions pm)" "msorted (pm_server pm)" "msorted (pm_client pm)" using l by (simp_all add: linked_def pm_wf_def)
  have "CreatePeerSession q pm = pm_ok (release ?pm)"
    using m by (simp add: CreatePeerSession_def new_session_def session_do_def on_session_def pm1_def with_new_def case_prod_unfold
        st_def [symmetric] Let_def) (rule arg_cong [where f = release], simp)
  moreover have "linked ?pm"
  proof (rule linked_maps [OF l1])
    fix e
    assume "e \<in> set (fst (mtry ?k (pm_next pm) (pm_client pm1))) \<union> set (pm_server pm1)"
    then have "e = (?k, pm_next pm) \<or> e \<in> set (pm_client pm1) \<union> set (pm_server pm1)"
      using m(3) by (auto simp: fst_mtry set_mput pm1_def split: if_splits)
    then show "live_of pm1 (snd e) = Some (fst e)"
      using session_maps_live [OF l1, of e] by (auto simp: pm1_def)
  qed (use m in \<open>simp_all add: pm1_def fst_mtry\<close>)
  moreover have "r \<in> snd ` set (all_sessions ?pm)"
    if "used (pm_info_base ?pm) r" for r
  proof -
    have "live_of pm r \<noteq> None" using that l used_live [of pm r] by (simp add: linked_def pm1_def)
    then have "r \<in> snd ` set (all_sessions pm)" using assms by (simp add: conn_wf_def)
    then show ?thesis using m(3) by (auto simp: all_sessions_def pm1_def fst_mtry set_mput om.entries_find)
  qed
  ultimately show ?thesis using release_conn_wf [of ?pm] by (metis fst_conv snd_conv)
qed


text \<open>An inbound connection that ends: the session leaves the map and is destroyed.\<close>

lemma lost_inbound_conn_wf:
  assumes cw: "conn_wf pm" and q: "msg_throws_std (q_msg q)" and st: "server_status status = S_Disconnected"
  shows "conn_wf (fst (PM_OnConnectionStatus q conn status pm)) \<and> snd (PM_OnConnectionStatus q conn status pm) = Inr ()
    \<or> snd (PM_OnConnectionStatus q conn status pm) = Inl Self_Deadlock"
proof (cases "map_of (pm_server pm) conn")
  case None
  then show ?thesis using cw by (simp add: PM_OnConnectionStatus_def)
next
  case (Some r)
  have wf: "pm_wf pm" and l: "linked pm" and run: "\<not> pm_stop pm" using cw by (simp_all add: conn_wf_def linked_def)
  have "live_of pm r = Some conn" using wf_session_live [OF wf, of "(conn, r)"] map_of_SomeD [OF Some] by (simp add: all_sessions_def)
  then obtain s where s: "map_of (pm_sessions pm) r = Some s" "ps_t_conn_id s = conn" by (auto simp: live_of_def)
  let ?c = "SessionChanged q conn S_Disconnected (ps_remote_node_info s) pm"
  have eq: "PM_OnConnectionStatus q conn status pm = andthen ?c (\<lambda>_ pm. pm_ok (release (pm\<lparr>pm_server := mdel conn (pm_server pm)\<rparr>)))"
    by (simp add: PM_OnConnectionStatus_def Some s st)
  show ?thesis
  proof (cases "snd ?c = Inl Self_Deadlock")
    case True
    then show ?thesis by (simp add: eq andthen_def)
  next
    case False
    then obtain pm3 where c: "?c = pm_ok pm3" and k: "pm_keep pm pm3" "pm_wf pm3"
      and no: "\<forall>n. map_of (ib_nodes (pm_info_base pm3)) (n, conn) = None"
      using SessionChanged_lost [OF wf q, of conn "ps_remote_node_info s"] run by (metis prod.collapse safe_def)
    have l3: "linked pm3" and cw3: "conn_wf pm3" using k pm_keep_linked l pm_keep_conn_wf cw by blast+
    let ?pm = "pm3\<lparr>pm_server := mdel conn (pm_server pm3), pm_client := pm_client pm3\<rparr>"
    have "linked ?pm"
      using l3 session_maps_live [OF l3] by (intro linked_maps) (auto simp: linked_def)
    moreover have "r' \<in> snd ` set (all_sessions ?pm)" if "live_of ?pm r' = Some sid" and "map_of (ib_nodes (pm_info_base ?pm)) (n, sid) \<noteq> None" for r' sid n
    proof -
      have lv: "live_of pm3 r' = Some sid" using that(1) by (simp add: live_of_def)
      then obtain k where k: "(k, r') \<in> set (all_sessions pm3)" using cw3 by (force simp: conn_wf_def)
      then have "k = sid" using lv wf_session_live [of pm3 "(k, r')"] l3 by (simp add: linked_def)
      moreover have "sid \<noteq> conn" using that(2) no by auto
      ultimately show ?thesis using k by (force simp: all_sessions_def)
    qed
    ultimately have "conn_wf (release ?pm)" by (rule release_conn_wf)
    then show ?thesis by (simp add: eq c)
  qed
qed

text \<open>The status of an outbound connection, whatever it is.\<close>

lemma status_change_conn_wf:
  assumes cw: "conn_wf pm" and s: "map_of (pm_sessions pm) r = Some s"
  shows "\<exists>pm1 s1. session_do r (PS_status_change uv status) pm = pm_ok pm1 \<and> conn_wf pm1
    \<and> map_of (pm_sessions pm1) r = Some s1 \<and> ps_t_conn_id s1 = ps_t_conn_id s"
proof -
  obtain s1 log1 where f: "PS_status_change uv status (s, pm_log pm) = (s1, log1)" by fastforce
  then have i: "ps_t_conn_id s1 = ps_t_conn_id s"
    by (auto simp: PS_status_change_def SendConnect_def send_control_def sess_emit_def split: transport_status.splits)
  let ?pm = "pm\<lparr>pm_sessions := mput r s1 (pm_sessions pm), pm_log := log1\<rparr>"
  have l: "live_of ?pm = live_of pm" using s i by (auto simp: live_of_def fun_eq_iff)
  have "conn_wf ?pm" using cw unfolding conn_wf_def linked_def pm_wf_def l by (simp add: all_sessions_def)
  then show ?thesis using s i by (intro exI [of _ ?pm] exI [of _ s1]) (simp add: session_do_def on_session_def f)
qed

lemma outbound_status_conn_wf:
  assumes cw: "conn_wf pm" and q: "msg_throws_std (q_msg q)" and r: "live_of pm r \<noteq> None"
  shows "conn_wf (fst (PS_OnConnectionStatus q r status pm)) \<and> snd (PS_OnConnectionStatus q r status pm) = Inr ()
    \<or> snd (PS_OnConnectionStatus q r status pm) = Inl Self_Deadlock"
proof -
  obtain s where "map_of (pm_sessions pm) r = Some s" using r by (auto simp: live_of_def)
  then obtain pm1 s1 where d: "session_do r (PS_status_change (q_uintvar q) status) pm = pm_ok pm1" and cw1: "conn_wf pm1"
    and s1: "map_of (pm_sessions pm1) r = Some s1"
    using status_change_conn_wf [OF cw] by blast
  let ?c = "SessionChanged q (ps_t_conn_id s1) (ps_status s1) (ps_remote_node_info s1) pm1"
  have eq: "PS_OnConnectionStatus q r status pm = ?c" by (simp add: PS_OnConnectionStatus_def d report_status_def s1)
  show ?thesis
  proof (cases "ps_status s1 = S_Disconnected")
    case False
    then show ?thesis using cw1 by (simp add: eq SessionChanged_def)
  next
    case True
    have "pm_wf pm1" using cw1 by (simp add: conn_wf_def linked_def)
    then show ?thesis
      using SessionChanged_lost [of pm1 q "ps_t_conn_id s1" "ps_remote_node_info s1"] q pm_keep_conn_wf [OF _ _ cw1]
      unfolding eq True safe_def by blast
  qed
qed

text \<open>
  Control messages.  \<open>settled r res\<close>: the handler returned or threw a standard exception, which
  \<open>ProcessControlMessage\<close> catches, and the session \<open>r\<close> and the maps are as they should be; or it stopped
  in the deadlock of \<open>SessionChanged\<close>.
\<close>

definition settled :: "sref \<Rightarrow> 'a pm_res \<Rightarrow> bool" where
  "settled r res \<longleftrightarrow> conn_wf (fst res) \<and> live_of (fst res) r \<noteq> None \<and> (\<forall>e. snd res = Inl e \<longrightarrow> is_exception e)
     \<or> snd res = Inl Self_Deadlock"

lemma settled_andthen:
  assumes "settled r res" and "\<And>x pm'. conn_wf pm' \<Longrightarrow> live_of pm' r \<noteq> None \<Longrightarrow> settled r (f x pm')"
  shows "settled r (andthen res f)"
  using assms(1) assms(2) [of "fst res"] by (cases "snd res") (auto simp: settled_def andthen_def)

lemma conn_wf_pm_wf: "conn_wf pm \<Longrightarrow> pm_wf pm"
  by (simp add: conn_wf_def linked_def)

lemma settled_safe: "conn_wf pm \<Longrightarrow> live_of pm r \<noteq> None \<Longrightarrow> safe pm res \<Longrightarrow> settled r res"
  using pm_keep_conn_wf [of pm "fst res"] pm_keep_live [of pm "fst res"] by (simp add: settled_def safe_def)

lemma settled_with_id:
  "conn_wf pm \<Longrightarrow> live_of pm r \<noteq> None \<Longrightarrow> (\<And>sid. safe pm (f sid pm)) \<Longrightarrow> settled r (with_id r f pm)"
  by (auto simp: with_id_def live_of_def intro!: settled_safe)

text \<open>A session object whose connection identifier stays keeps its place.\<close>

lemma settled_update:
  assumes cw: "conn_wf pm" and r: "live_of pm r \<noteq> None" and f: "\<And>s. ps_t_conn_id (f s) = ps_t_conn_id s"
  shows "settled r (update_session r f pm)"
proof -
  obtain s where s: "map_of (pm_sessions pm) r = Some s" using r by (auto simp: live_of_def)
  let ?pm = "pm\<lparr>pm_sessions := mput r (f s) (pm_sessions pm)\<rparr>"
  have l: "live_of ?pm = live_of pm" using s f by (auto simp: live_of_def fun_eq_iff)
  have "conn_wf ?pm" using cw unfolding conn_wf_def linked_def pm_wf_def l by (simp add: all_sessions_def)
  moreover have "update_session r f pm = pm_ok ?pm" by (simp add: update_session_def session_do_def on_session_def s)
  ultimately show ?thesis using r l by (simp add: settled_def)
qed

lemma settled_report:
  assumes cw: "conn_wf pm" and r: "live_of pm r \<noteq> None" and q: "msg_throws_std (q_msg q)"
  shows "settled r (report_status q r pm)"
proof -
  obtain s where s: "map_of (pm_sessions pm) r = Some s" using r by (auto simp: live_of_def)
  show ?thesis
  proof (cases "ps_status s = S_Disconnected")
    case True
    then have "safe pm (report_status q r pm) \<or> snd (report_status q r pm) = Inl Self_Deadlock"
      using SessionChanged_lost [OF conn_wf_pm_wf [OF cw] q, of "ps_t_conn_id s" "ps_remote_node_info s"]
      by (simp add: report_status_def s) blast
    then show ?thesis using settled_safe [OF cw r, of "report_status q r pm"] by (auto simp: settled_def)
  next
    case False
    then show ?thesis using cw r by (simp add: report_status_def s SessionChanged_def settled_def)
  qed
qed

text \<open>\<open>SendConnectOk\<close> always has a node to send.\<close>

lemma SendConnectOk_method: "sess_method (SendConnectOk uv)"
  by (rule sess_methodI) (simp_all add: SendConnectOk_def send_control_def sess_emit_def split: sum.split)

lemma connect_ok_sent: "on_session r (SendConnectOk uv) pm = (pm', Inr x) \<Longrightarrow> x = Inr ()"
  by (auto simp: on_session_def SendConnectOk_def ConnectResponse_Serialize_def ConnectResponse_SizeBytes_def ConnectResponse_write_def
      split: option.splits prod.splits sum.splits)

lemma handle_connect_settled:
  assumes "conn_wf pm" and "live_of pm r \<noteq> None" and "msg_throws_std (q_msg q)"
  shows "settled r (handle_connect q r c pm)"
proof -
  have ok: "settled r (andthen (on_session r (SendConnectOk (q_uintvar q)) pm) (\<lambda>ok pm.
       case ok of Inl e \<Rightarrow> pm_fail e pm | Inr _ \<Rightarrow> InfoBaseSyncPeer q r pm))"
    if pm: "conn_wf pm" "live_of pm r \<noteq> None" for pm
  proof -
    obtain pm' x where on: "on_session r (SendConnectOk (q_uintvar q)) pm = (pm', Inr x)" and k: "pm_wf pm'" "pm_keep pm pm'"
      using on_session_keeps [OF conn_wf_pm_wf [OF pm(1)] pm(2) SendConnectOk_method] by blast
    have "x = Inr ()" by (rule connect_ok_sent [OF on])
    moreover have "safe pm (InfoBaseSyncPeer q r pm')"
      using InfoBaseSyncPeer_safe [OF k(1)] pm(2) by (intro safe_update [OF k(2)]) (simp add: pm_keep_live [OF k(2)])
    ultimately show ?thesis using settled_safe [OF pm] on by simp
  qed
  show ?thesis unfolding handle_connect_def
    by (intro settled_andthen settled_update settled_with_id settled_report ok assms conjunct1 [OF NodeReceived_safe])
      (simp_all add: conn_wf_pm_wf)
qed

lemma handle_connect_response_settled:
  assumes "conn_wf pm" and "live_of pm r \<noteq> None" and "msg_throws_std (q_msg q)" and "cr_error cr = kNoError \<Longrightarrow> cr_node_info cr \<noteq> None"
  shows "settled r (handle_connect_response q r cr pm)"
proof -
  have sync: "settled r (InfoBaseSyncPeer q r pm)" if "conn_wf pm" "live_of pm r \<noteq> None" for pm
    by (rule settled_safe [OF that InfoBaseSyncPeer_safe [OF conn_wf_pm_wf [OF that(1)] that(2)]])
  have node: "settled r (andthen (update_session r (\<lambda>s. s\<lparr>ps_remote_node_info := ni\<rparr>) pm) (\<lambda>_ pm.
      andthen (with_id r (\<lambda>sid. NodeReceived q sid ni False) pm) (\<lambda>_. InfoBaseSyncPeer q r)))" for ni
    by (intro settled_andthen settled_update settled_with_id sync assms conjunct1 [OF NodeReceived_safe]) (simp_all add: conn_wf_pm_wf)
  have first: "settled r (if cr_error cr = kNoError
      then (case cr_node_info cr of
              None \<Rightarrow> pm_fail Null_Deref pm
            | Some ni \<Rightarrow> andthen (update_session r (\<lambda>s. s\<lparr>ps_remote_node_info := ni\<rparr>) pm) (\<lambda>_ pm.
                andthen (with_id r (\<lambda>sid. NodeReceived q sid ni False) pm) (\<lambda>_. InfoBaseSyncPeer q r)))
      else pm_ok pm)"
    using node assms by (auto simp: settled_def split: option.split)
  show ?thesis unfolding handle_connect_response_def
    by (intro settled_andthen first settled_update settled_report sync assms) simp_all
qed

text \<open>A body that its reader accepts: a message of an unknown type has none.\<close>

definition well_formed :: "quicr_api \<Rightarrow> u16 \<Rightarrow> bytes \<Rightarrow> bool" where
  "well_formed q typ body \<longleftrightarrow>
     (typ = msg_code kConnect \<longrightarrow> \<not> isl (Connect_read (q_uintvar q) body))
     \<and> (typ = msg_code kConnectResponse \<longrightarrow> \<not> isl (ConnectResponse_read (q_uintvar q) body))
     \<and> (typ = msg_code kSubscribeNodeSetAdvertised \<longrightarrow> \<not> isl (SubscribeNodeSet_read body False))
     \<and> (typ = msg_code kSubscribeNodeSetWithdrawn \<longrightarrow> \<not> isl (SubscribeNodeSet_read body True))
     \<and> (typ = msg_code kNodeInfoAdvertise \<or> typ = msg_code kNodeInfoWithdrawn \<longrightarrow> \<not> isl (NodeInfo_read (q_uintvar q) body))
     \<and> (typ = msg_code kSubscribeInfoAdvertised \<or> typ = msg_code kSubscribeInfoWithdrawn \<longrightarrow> \<not> isl (SubscribeInfo_read body))
     \<and> (typ = msg_code kAnnounceInfoAdvertised \<or> typ = msg_code kAnnounceInfoWithdrawn \<longrightarrow> \<not> isl (AnnounceInfo_read (q_namespace q) body))"

lemma settled_from_wire: "\<not> isl x \<Longrightarrow> (\<And>v. x = Inr v \<Longrightarrow> settled r (f v pm)) \<Longrightarrow> settled r (from_wire x f pm)"
  by (cases x) (simp_all add: from_wire_def)

lemma response_has_node: "ConnectResponse_read uv bs = Inr cr \<Longrightarrow> cr_error cr = kNoError \<Longrightarrow> cr_node_info cr \<noteq> None"
  by (auto simp: ConnectResponse_read_def res_bind_def split: sum.splits prod.splits if_splits)

lemma handle_control_settled:
  assumes cw: "conn_wf pm" and r: "live_of pm r \<noteq> None" and q: "msg_throws_std (q_msg q)"
    and body: "well_formed q typ body" and other: "typ \<noteq> msg_code kSubscribeNodeSetWithdrawn"
  shows "settled r (handle_control q ref r typ body pm)"
proof -
  have wf: "pm_wf pm" by (rule conn_wf_pm_wf [OF cw])
  have id: "settled r (with_id r f pm)" if "\<And>sid. safe pm (f sid pm)" for f
    using that by (intro settled_with_id cw r)
  have connect: "settled r (handle_connect q r c pm)" for c by (rule handle_connect_settled [OF cw r q])
  have resp: "settled r (handle_connect_response q r cr pm)" if "ConnectResponse_read (q_uintvar q) body = Inr cr" for cr
    by (rule handle_connect_response_settled [OF cw r q response_has_node [OF that]])
  have sns: "settled r (SnsReceived q ref r sns False pm)" for sns by (rule settled_safe [OF cw r advertised_set_safe [OF wf r]])
  have node: "settled r (with_id r (\<lambda>sid. NodeReceived q sid ni w) pm)" for ni w using NodeReceived_safe [OF wf] by (intro id) blast
  have sub: "settled r (with_id r (\<lambda>sid. SubscribeInfoReceived q ref sid si w) pm)" for si w
    using SubscribeInfoReceived_safe [OF wf q] by (intro id) blast
  have ann: "settled r (with_id r (\<lambda>sid. AnnounceInfoReceived q sid ai w) pm)" for ai w
    using AnnounceInfoReceived_safe [OF wf] by (intro id) blast
  have ok: "settled r (pm_ok pm)" using cw r by (simp add: settled_def)
  show ?thesis unfolding handle_control_def
    using body other by (auto simp: well_formed_def intro!: settled_from_wire connect resp sns node sub ann ok split: if_split)
qed

text \<open>
  What happens to a relay between peers: well-formed control messages on a session of the maps, client
  operations, accepted and opened connections, connections whose status changes.  The result is the state
  with the outcome of the handler.  After an exception the relay goes on.
\<close>

inductive conn_step :: "quicr_api \<Rightarrow> PeerManager \<Rightarrow> unit pm_res \<Rightarrow> bool" for q where
  conn_traffic: "ctl_step q pm pm' \<Longrightarrow> conn_step q pm (pm_ok pm')"
| conn_message: "(sid, r) \<in> set (all_sessions pm) \<Longrightarrow> well_formed q typ body \<Longrightarrow> conn_step q pm (handle_control q ref r typ body pm)"
| conn_accept: "conn_step q pm (OnNewConnection q conn pm)"
| conn_open: "conn_step q pm (CreatePeerSession q pm)"
| conn_lost: "server_status status = S_Disconnected \<Longrightarrow> conn_step q pm (PM_OnConnectionStatus q conn status pm)"
| conn_status: "(sid, r) \<in> set (pm_client pm) \<Longrightarrow> conn_step q pm (PS_OnConnectionStatus q r status pm)"

definition survived :: "'a pm_res \<Rightarrow> bool" where
  "survived res \<longleftrightarrow> (case snd res of Inl e \<Rightarrow> is_exception e | Inr _ \<Rightarrow> True)"

inductive conn_reach :: "quicr_api \<Rightarrow> PeerManager \<Rightarrow> PeerManager \<Rightarrow> bool" for q pm where
  conn_refl: "conn_reach q pm pm"
| conn_trans: "conn_reach q pm pm' \<Longrightarrow> conn_step q pm' res \<Longrightarrow> survived res \<Longrightarrow> conn_reach q pm (fst res)"

inductive_cases conn_stepE: "conn_step q pm r"

text \<open>The one message that is not settled: the withdrawal of a node set with a lost egress.\<close>

definition withdraws_lost :: "quicr_api \<Rightarrow> PeerManager \<Rightarrow> unit pm_res \<Rightarrow> bool" where
  "withdraws_lost q pm res \<longleftrightarrow> (\<exists>ref sid r body sns. (sid, r) \<in> set (all_sessions pm)
     \<and> SubscribeNodeSet_read body True = Inr sns \<and> lost_egress (sid, sns_id sns) pm
     \<and> res = handle_control q ref r (msg_code kSubscribeNodeSetWithdrawn) body pm \<and> snd res = Inl Null_Deref)"

lemma withdrawn_message:
  fixes ref :: u64
  assumes cw: "conn_wf pm" and r: "(sid, r) \<in> set (all_sessions pm)" and q: "msg_throws_std (q_msg q)"
    and body: "well_formed q (msg_code kSubscribeNodeSetWithdrawn) body"
  defines "res \<equiv> handle_control q ref r (msg_code kSubscribeNodeSetWithdrawn) body pm"
  shows "settled r res \<or> withdraws_lost q pm res"
proof -
  have wf: "pm_wf pm" by (rule conn_wf_pm_wf [OF cw])
  have l: "live_of pm r = Some sid" using wf_session_live [OF wf r] by simp
  then obtain s where s: "map_of (pm_sessions pm) r = Some s" "ps_t_conn_id s = sid" by (auto simp: live_of_def)
  obtain sns where sns: "SubscribeNodeSet_read body True = Inr sns"
    using body by (cases "SubscribeNodeSet_read body True") (simp_all add: well_formed_def)
  have eq: "res = SnsReceived q ref r sns True pm" by (simp add: res_def handle_control_def from_wire_def sns)
  show ?thesis
  proof (cases "lost_egress (sid, sns_id sns) pm")
    case True
    then have "snd res = Inl Null_Deref" using withdrawn_set_outcome [OF wf s(1), of sns q ref] s(2) by (simp add: eq)
    then have "withdraws_lost q pm res" unfolding withdraws_lost_def using True r sns res_def by blast
    then show ?thesis ..
  next
    case False
    then have "safe pm res" using withdrawn_set_outcome [OF wf s(1), of sns q ref] s(2) by (simp add: eq)
    then have "settled r res" using settled_safe [OF cw, of r res] l by simp
    then show ?thesis ..
  qed
qed

lemma conn_step_safe:
  assumes "conn_step q pm res" and q: "msg_throws_std (q_msg q)" and cw: "conn_wf pm"
  shows "conn_wf (fst res) \<and> survived res \<or> snd res = Inl Self_Deadlock \<or> withdraws_lost q pm res"
  using assms(1)
proof cases
  case (conn_traffic pm')
  then show ?thesis using ctl_step_keeps [OF _ q] pm_keep_conn_wf [OF _ _ cw] conn_wf_pm_wf [OF cw] by (auto simp: survived_def)
next
  case (conn_status sid r status)
  have "live_of pm r \<noteq> None" using session_maps_live [of pm "(sid, r)"] conn_status(2) cw by (simp add: conn_wf_def)
  then show ?thesis using outbound_status_conn_wf [OF cw q] conn_status(1) by (metis survived_def sum.simps(6))
next
  case (conn_message sid r t body ref)
  have "live_of pm r \<noteq> None" using wf_session_live [OF conn_wf_pm_wf [OF cw] conn_message(2)] by simp
  then have "settled r res \<or> withdraws_lost q pm res"
    using handle_control_settled [OF cw _ q conn_message(3)] withdrawn_message [OF cw conn_message(2) q] conn_message(1,3) by metis
  then show ?thesis by (auto simp: settled_def survived_def split: sum.split)
qed (use OnNewConnection_conn_wf [OF cw] CreatePeerSession_conn_wf [OF cw] lost_inbound_conn_wf [OF cw q] in \<open>force simp: survived_def\<close>)+

lemma conn_reach_wf: "conn_reach q pm0 pm \<Longrightarrow> msg_throws_std (q_msg q) \<Longrightarrow> conn_wf pm0 \<Longrightarrow> conn_wf pm"
proof (induction rule: conn_reach.induct)
  case (conn_trans pm' res)
  then show ?case using conn_step_safe [of q pm' res] by (auto simp: survived_def withdraws_lost_def)
qed


section \<open>Properties of connections\<close>

text \<open>C2. Peers may come and go at any time.  Start from a running manager in which the session maps hold
  exactly the session objects, and let any sequence of well-formed control messages of all ten types, client
  operations, accepted and opened connections, lost inbound connections and status changes of outbound
  connections happen.  The same then holds again: the maps name live sessions by their identifiers, no object
  is leaked or freed too early, and every best session of the information base is in a map.  The next such
  event is handled to the end or ends in a standard exception, with two exceptions to that: the self-deadlock
  that \<open>lost_session_deadlock\<close> describes, and the withdrawal of a node set that has an egress whose session is
  gone, which dereferences the expired pointer.  Not among the events are object data
  (\<open>lost_egress_null_deref\<close> has its failure), malformed control messages, the rounds of the check thread
  (\<open>lost_peers_reconnect\<close>) and the server's report that a connection is ready, which drops the session.\<close>

theorem connections_safe:
  assumes "conn_reach q pm0 pm" and "msg_throws_std (q_msg q)" and "conn_wf pm0"
  shows "conn_wf pm
    \<and> (\<forall>nid r. GetBestPeerSession nid (pm_info_base pm) = Some r \<longrightarrow> r \<in> snd ` set (all_sessions pm))
    \<and> (\<forall>res. conn_step q pm res \<longrightarrow>
          conn_wf (fst res) \<and> survived res \<or> snd res = Inl Self_Deadlock \<or> withdraws_lost q pm res)"
proof -
  have cw: "conn_wf pm" using conn_reach_wf [OF assms] .
  then have "r \<in> snd ` set (all_sessions pm)" if "GetBestPeerSession nid (pm_info_base pm) = Some r" for nid r
    using best_live [of pm nid r] that by (auto simp: conn_wf_def linked_def GetBestPeerSession_def)
  then show ?thesis using cw conn_step_safe [OF _ assms(2) cw] by blast
qed

lemma sample_manager_conn_wf: "conn_wf sample_manager"
  using sample_manager_wf
  by (auto simp: conn_wf_def linked_def msorted_Cons) (auto simp: sample_manager_def live_of_def all_sessions_def msorted_Cons split: if_splits)

text \<open>A connection is accepted and the peer of session 20 advertises a node set, then connection 10 is lost.\<close>

theorem connections_safe_witness:
  "conn_wf (fst (PM_OnConnectionStatus sample_quicr 10 T_Disconnected
     (fst (handle_control sample_quicr 7 1 (msg_code kSubscribeNodeSetAdvertised) [0, 0, 0, 6, 2, 0, 1, 0, 0, 0, 0, 0, 0, 0, 9]
       (fst (OnNewConnection sample_quicr 30 sample_manager))))))"
proof -
  let ?pm1 = "fst (OnNewConnection sample_quicr 30 sample_manager)"
  let ?body = "[0, 0, 0, 6, 2, 0, 1, 0, 0, 0, 0, 0, 0, 0, 9]"
  let ?m = "handle_control sample_quicr 7 1 (msg_code kSubscribeNodeSetAdvertised) ?body ?pm1"
  let ?r = "PM_OnConnectionStatus sample_quicr 10 T_Disconnected (fst ?m)"
  have read: "SubscribeNodeSet_read ?body False = Inr \<lparr>sns_id = 6, sns_priority = 2, sns_nodes = [9]\<rparr>" by code_simp
  have m: "?m = SnsReceived sample_quicr 7 1 \<lparr>sns_id = 6, sns_priority = 2, sns_nodes = [9]\<rparr> False ?pm1"
    by (simp add: handle_control_def from_wire_def read)
  have "survived (OnNewConnection sample_quicr 30 sample_manager)" by code_simp
  then have "conn_reach sample_quicr sample_manager ?pm1" by (intro conn_trans [OF conn_refl] conn_accept)
  moreover have "(20, 1) \<in> set (all_sessions ?pm1)" by code_simp
  moreover have "well_formed sample_quicr (msg_code kSubscribeNodeSetAdvertised) ?body" by (simp add: well_formed_def read)
  moreover have "survived ?m" unfolding m by code_simp
  ultimately have reach: "conn_reach sample_quicr sample_manager (fst ?m)" by (blast intro: conn_trans conn_message)
  have "conn_step sample_quicr (fst ?m) ?r" by (intro conn_lost) (simp add: server_status_def)
  moreover have "snd ?r = Inr ()" unfolding m by code_simp
  ultimately show ?thesis
    using connections_safe [OF reach plain_msg_throws sample_manager_conn_wf] by (fastforce simp: withdraws_lost_def)
qed

text \<open>C32. A lost session can stop the relay.  When a session of a running manager is reported lost, the
  handler returns, having purged the nodes and forwarding tables of the session and kept the manager running,
  unless a track has a subscribe that is not of the lost node and whose forwarding entry is keyed by the
  session.  In that case, and only then, the handler calls \<open>GetBestPeerSession\<close> while it holds the mutex of
  the information base, which that call takes again.\<close>

theorem lost_session_deadlock:
  assumes "pm_wf pm" and "msg_throws_std (q_msg q)" and "\<not> pm_stop pm"
  shows "snd (SessionChanged q sid S_Disconnected remote pm) =
      (if list_ex (serves_other sid (ni_id remote) (pm_info_base pm)) (ib_subscribes (pm_info_base pm)) then Inl Self_Deadlock else Inr ())
    \<and> (snd (SessionChanged q sid S_Disconnected remote pm) = Inr () \<longrightarrow>
        pm_wf (fst (SessionChanged q sid S_Disconnected remote pm))
        \<and> (\<forall>n. map_of (ib_nodes (pm_info_base (fst (SessionChanged q sid S_Disconnected remote pm)))) (n, sid) = None)
        \<and> (\<forall>i. map_of (ib_peer_fib (pm_info_base (fst (SessionChanged q sid S_Disconnected remote pm)))) (sid, i) = None))"
  using SessionChanged_lost [OF assms(1,2), of sid remote] assms(3)
  by (cases "list_ex (serves_other sid (ni_id remote) (pm_info_base pm)) (ib_subscribes (pm_info_base pm))") (simp_all add: safe_def)

text \<open>Node 8 subscribed through session 10, whose peer is node 3.\<close>

definition relaying_manager :: PeerManager where
  "relaying_manager = sample_manager\<lparr>pm_info_base := InfoBase_init
     \<lparr>ib_subscribes := [(33, [(8, (sample_subscribe [4])\<lparr>si_source_node_id := 8\<rparr>)])], ib_client_fib := [((33, 10), sample_entry 2 0)]\<rparr>\<rparr>"

lemma relaying_manager_wf: "pm_wf relaying_manager"
  unfolding relaying_manager_def
  by (rule pm_wf_info_base [OF sample_manager_wf]) (simp_all add: nodes_same_def sample_manager_def InfoBase_init_def)

theorem lost_session_deadlock_witness:
  "snd (SessionChanged sample_quicr 10 S_Disconnected (NodeInfo_default\<lparr>ni_id := 3\<rparr>) relaying_manager) = Inl Self_Deadlock"
proof -
  have "list_ex (serves_other 10 (ni_id (NodeInfo_default\<lparr>ni_id := 3\<rparr>)) (pm_info_base relaying_manager)) (ib_subscribes (pm_info_base relaying_manager))"
    by (simp add: relaying_manager_def serves_other_def sample_subscribe_def)
  moreover have "\<not> pm_stop relaying_manager" by (simp add: relaying_manager_def sample_manager_def)
  ultimately show ?thesis using lost_session_deadlock [OF relaying_manager_wf plain_msg_throws] by simp
qed


text \<open>What is left of a lost inbound session: its own tables and the object are gone, the egress entries of
  other ingress sessions still name it.\<close>

lemma lost_inbound_leaves_egress:
  assumes cw: "conn_wf pm" and q: "msg_throws_std (q_msg q)" and st: "server_status status = S_Disconnected"
    and r: "map_of (pm_server pm) conn = Some r" and c: "map_of (pm_client pm) conn = None"
    and ok: "PM_OnConnectionStatus q conn status pm = pm_ok pm'"
  shows "live_of pm' r = None" and "sid \<noteq> conn \<Longrightarrow> map_of (ib_peer_fib (pm_info_base pm')) (sid, i) = map_of (ib_peer_fib (pm_info_base pm)) (sid, i)"
proof -
  have wf: "pm_wf pm" and run: "\<not> pm_stop pm" using cw by (simp_all add: conn_wf_def linked_def)
  have lr: "live_of pm r = Some conn" using wf_session_live [OF wf, of "(conn, r)"] map_of_SomeD [OF r] by (simp add: all_sessions_def)
  then obtain s where s: "map_of (pm_sessions pm) r = Some s" "ps_t_conn_id s = conn" by (auto simp: live_of_def)
  let ?c = "SessionChanged q conn S_Disconnected (ps_remote_node_info s) pm"
  have eq: "PM_OnConnectionStatus q conn status pm = andthen ?c (\<lambda>_ pm. pm_ok (release (pm\<lparr>pm_server := mdel conn (pm_server pm)\<rparr>)))"
    by (simp add: PM_OnConnectionStatus_def r s st)
  then have "snd ?c \<noteq> Inl Self_Deadlock" using ok by (auto simp: andthen_def split: sum.splits)
  then obtain pm3 where c3: "?c = pm_ok pm3" and k: "pm_keep pm pm3"
    and fib: "\<forall>s i. map_of (ib_peer_fib (pm_info_base pm3)) (s, i) = (if s = conn then None else map_of (ib_peer_fib (pm_info_base pm)) (s, i))"
    using SessionChanged_lost [OF wf q, of conn "ps_remote_node_info s"] run by (metis prod.collapse safe_def)
  have pm': "pm' = release (pm3\<lparr>pm_server := mdel conn (pm_server pm3)\<rparr>)" using ok by (simp add: eq c3)
  have a: "pm_server pm3 = pm_server pm" "pm_client pm3 = pm_client pm" using k by (simp_all add: pm_keep_def)
  have "sid = conn" if "(sid, r) \<in> set (all_sessions pm)" for sid using wf_session_live [OF wf that] lr by simp
  moreover have "(conn, r) \<notin> set (pm_client pm)" using c cw by (metis conn_wf_def linked_def om.entries_find option.discI)
  ultimately have "r \<notin> snd ` set (all_sessions (pm3\<lparr>pm_server := mdel conn (pm_server pm3)\<rparr>))"
    by (force simp: all_sessions_def a)
  then show "live_of pm' r = None" by (simp add: pm' live_of_release)
  show "sid \<noteq> conn \<Longrightarrow> map_of (ib_peer_fib (pm_info_base pm')) (sid, i) = map_of (ib_peer_fib (pm_info_base pm)) (sid, i)"
    using fib by (simp add: pm')
qed

text \<open>C33. Data for a peer that is gone brings the relay down.  An inbound session is lost and the handler
  returns.  The forwarding table of another session still has the lost one as its first egress; the next
  datagram of that node set dereferences the expired \<open>weak_ptr\<close>.\<close>

theorem lost_egress_null_deref:
  assumes "conn_wf pm" and "msg_throws_std (q_msg q)" and "server_status status = S_Disconnected"
    and "map_of (pm_server pm) conn = Some r" and "map_of (pm_client pm) conn = None"
    and "PM_OnConnectionStatus q conn status pm = pm_ok pm'"
    and "map_of (ib_peer_fib (pm_info_base pm)) (sid, dh_sns_id hdr) = Some ((conn, entry) # others)"
    and "fib_peer_session entry = Some r" and "conn \<noteq> 0" and "sid \<noteq> conn" and "6 \<le> length data"
  shows "snd (ForwardPeerData q sid False n hdr data offset False pm') = Inl Null_Deref"
proof -
  note l = lost_inbound_leaves_egress [OF assms(1-6)]
  have "map_of (pm_sessions pm') r = None" using l(1) by (simp add: live_of_def)
  then show ?thesis
    using l(2) [OF assms(10), of "dh_sns_id hdr"] assms(7-11)
    by (simp add: ForwardPeerData_def forward_entry_def put_sns_id_def lock_sess_def Let_def)
qed

definition egress_10_manager :: PeerManager where
  "egress_10_manager = sample_manager\<lparr>pm_info_base := InfoBase_init\<lparr>ib_peer_fib := [((20, 6), [(10, sample_entry 2 0)])]\<rparr>\<rparr>"

lemma egress_10_conn_wf: "conn_wf egress_10_manager"
proof -
  have "pm_wf egress_10_manager" unfolding egress_10_manager_def
    by (rule pm_wf_info_base [OF sample_manager_wf]) (simp_all add: nodes_same_def sample_manager_def msorted_Cons)
  then show ?thesis using sample_manager_conn_wf by (simp add: conn_wf_def linked_def egress_10_manager_def)
qed

theorem lost_egress_null_deref_witness:
  "snd (ForwardPeerData sample_quicr 20 False 0 (DataHeader_make 6 33 kDatagram) [14, 0, 0, 0, 0, 6, 1] 0 False
     (fst (PM_OnConnectionStatus sample_quicr 10 T_Disconnected egress_10_manager))) = Inl Null_Deref"
proof -
  let ?r = "PM_OnConnectionStatus sample_quicr 10 T_Disconnected egress_10_manager"
  have "snd ?r = Inr ()" by code_simp
  then have ok: "?r = pm_ok (fst ?r)" by (cases ?r) simp
  show ?thesis
    by (rule lost_egress_null_deref [OF egress_10_conn_wf plain_msg_throws _ _ _ ok, where r = 0 and entry = "sample_entry 2 0" and others = "[]"])
      (simp_all add: server_status_def egress_10_manager_def sample_manager_def DataHeader_make_def sample_entry_def)
qed

text \<open>The withdrawal of the node set has the same fault.\<close>

lemma withdrawn_set_null_deref:
  "snd (handle_control sample_quicr 7 1 (msg_code kSubscribeNodeSetWithdrawn) [0, 0, 0, 6]
     (fst (PM_OnConnectionStatus sample_quicr 10 T_Disconnected egress_10_manager))) = Inl Null_Deref"
proof -
  have read: "SubscribeNodeSet_read [0, 0, 0, 6] True = Inr \<lparr>sns_id = 6, sns_priority = 2, sns_nodes = []\<rparr>" by code_simp
  have "snd (SnsReceived sample_quicr 7 1 \<lparr>sns_id = 6, sns_priority = 2, sns_nodes = []\<rparr> True
      (fst (PM_OnConnectionStatus sample_quicr 10 T_Disconnected egress_10_manager))) = Inl Null_Deref" by code_simp
  then show ?thesis by (simp add: handle_control_def from_wire_def read)
qed


section \<open>Limits of the receive path\<close>

text \<open>C36. One control message per received chunk.  When a chunk holds a node info message and anything
  behind it, such as the next message in full, only the first message is handled; the rest stays in the buffer
  until another chunk arrives on the control stream.\<close>

theorem bundled_messages_wait:
  assumes wf: "pm_wf pm" and s: "map_of (pm_sessions pm) r = Some s" "ps_control_msg_buffer s = []"
    and uv: "uintvar_contract (q_uintvar q)" and fits: "NodeInfo_fits (q_uintvar q) ni" and lim: "0 < limit"
  shows "PS_OnRecvStream q ref r stream (Some c) True limit ctx [NodeInfo_Serialize (q_uintvar q) ni True w @ behind] pm =
    ((fst (set_buffer r behind (fst (NodeReceived q (ps_t_conn_id s) ni w
        (buffered r c (NodeInfo_Serialize (q_uintvar q) ni True w @ behind) pm)))), ctx, []), Inr ())"
proof -
  let ?m = "NodeInfo_Serialize (q_uintvar q) ni True w"
  let ?pm = "buffered r c (?m @ behind) pm"
  note b = buffered_wf [OF wf s(1), of c "?m @ behind"] and f = framed_messages(1) [OF uv fits, of w]
  have u: "update_session r (\<lambda>s. s\<lparr>ps_control_data_ctx_id := c, ps_control_msg_buffer := ps_control_msg_buffer s @ ?m @ behind\<rparr>) pm = pm_ok ?pm"
    using s by (simp add: update_session_eq buffered_def)
  have d: "ProcessControlMessage q ref r ?pm =
      dispatched q ref r (if w then kNodeInfoWithdrawn else kNodeInfoAdvertise) (NodeInfo_write (q_uintvar q) ni) behind ?pm"
    by (rule ProcessControlMessage_frame [OF b(3)]) (use f in simp_all)
  have "dispatched q ref r (if w then kNodeInfoWithdrawn else kNodeInfoAdvertise) (NodeInfo_write (q_uintvar q) ni) behind ?pm =
      pm_ok (fst (set_buffer r behind (fst (NodeReceived q (ps_t_conn_id s) ni w ?pm))))"
    using dispatched_act [OF b(3) handle_control_reads(1) [OF uv fits], where rest = behind] NodeReceived_safe [OF b(1)] by simp
  then show ?thesis using lim u d by (simp add: PS_OnRecvStream_def)
qed

theorem bundled_messages_wait_witness:
  defines "m \<equiv> NodeInfo_Serialize quic_varint sample_node True False"
  shows "PS_OnRecvStream sample_quicr 7 0 3 (Some 1) True 60 None [m @ m] sample_manager =
    ((fst (set_buffer 0 m (fst (NodeReceived sample_quicr 10 sample_node False (buffered 0 1 (m @ m) sample_manager)))), None, []), Inr ())"
proof -
  have "map_of (pm_sessions sample_manager) 0 = Some (sample_peer True 10 3)" by (simp add: sample_manager_def)
  moreover have "ps_control_msg_buffer (sample_peer True 10 3) = []" "ps_t_conn_id (sample_peer True 10 3) = 10"
    by (simp_all add: sample_peer_def PeerSession_make_def)
  moreover have "uintvar_contract (q_uintvar sample_quicr)" "q_uintvar sample_quicr = quic_varint"
    by (simp_all add: sample_quicr_def quic.uintvar_contract_axioms)
  ultimately show ?thesis
    using bundled_messages_wait [OF sample_manager_wf, of 0 "sample_peer True 10 3" sample_quicr sample_node 60 7 3 1 None False m]
      sample_node_fits by (simp add: m_def)
qed

text \<open>A declared length near \<open>2 ^ 32\<close> wraps the 32 bit test, and the span leaves the buffer.\<close>

lemma frame_length_wraps:
  assumes "map_of (pm_sessions pm) r = Some s" and "ps_control_msg_buffer s = common_header t 0xFFFFFFFF"
  shows "ProcessControlMessage q ref r pm = pm_fail Out_Of_Bounds pm"
proof -
  have "rd_int (drop 1 (common_header t 0xFFFFFFFF)) = Inr (msg_code t, put_int (0xFFFFFFFF :: u32))"
    "frame_length (common_header t 0xFFFFFFFF) = Inr 0xFFFFFFFF"
    using c32.rd_enc_end [of "0xFFFFFFFF"] by (simp_all add: common_header_def frame_length_def)
  then show ?thesis using assms by (simp add: ProcessControlMessage_def Let_def kCommonHeadersSize_def)
qed

text \<open>A data stream whose header comes in two chunks is taken for one that has started: the context is there,
  with a default header, and every later chunk is forwarded under node set 0.\<close>

lemma split_header_lost:
  assumes "b # bs = data" and "length data < unat b"
  shows "ProcessReceivedData q r (Some n) None data pm = ((pm, Some DataHeader_init), Inr False)"
  using assms(2) by (simp add: ProcessReceivedData_def Let_def flip: assms(1))

text \<open>A stream that is closed before it carried data, such as a control stream, has an empty context.\<close>

lemma empty_stream_close_throws: "PS_OnStreamClosed conn n (Some None) reset pm = pm_fail Std_Bad_Any_Cast pm"
  by (simp add: PS_OnStreamClosed_def)

text \<open>Every status of the server transport takes the session out of the map, also the one that says that the
  connection is ready.\<close>

lemma ready_drops_session:
  assumes "pm_wf pm" and "map_of (pm_server pm) conn = Some r"
  shows "PM_OnConnectionStatus q conn T_Ready pm = pm_ok (release (pm\<lparr>pm_server := mdel conn (pm_server pm)\<rparr>))"
proof -
  have "live_of pm r = Some conn" using wf_session_live [OF assms(1), of "(conn, r)"] map_of_SomeD [OF assms(2)] by (simp add: all_sessions_def)
  then show ?thesis using assms(2) by (auto simp: PM_OnConnectionStatus_def SessionChanged_def server_status_def live_of_def)
qed

end
