(* ===== verification/Peer_Reconnect.thy ===== *)
theory Peer_Reconnect
  imports Peer_Dispatch
begin

text \<open>
  The check thread of the peering manager (\<open>CheckThread\<close> of \<open>src/src/peering/peer_manager.cc\<close>): one round of its
  loop, and what the pass over the outbound sessions (\<open>check_pass\<close>) achieves.

  Shown: every outbound session that has lost its connection is started again and moves to the key of its new connection, the
  others stay as they are, and the manager stays well formed if the lost sessions had been purged.
\<close>

section \<open>The check thread\<close>

definition check_interval :: "int \<Rightarrow> int" where
  "check_interval interval_ms = (if interval_ms < 2000 then 2000 else interval_ms)"

text \<open>One round: the reading of the clock at its begin and the one that a pass takes as its start, both in milliseconds.  The state of
  the thread is the start of the last pass; \<open>None\<close> is the end of the thread.\<close>

definition check_round :: "quicr_api \<Rightarrow> int \<Rightarrow> int \<Rightarrow> int \<Rightarrow> int \<Rightarrow> PeerManager \<Rightarrow> (int \<times> unit pm_res) option" where
  "check_round q interval_ms check now start pm =
     (if pm_stop pm then None
      else Some (if check - start \<ge> check_interval interval_ms then (now, check_pass q pm) else (start, pm_ok pm)))"

section \<open>One session\<close>

definition disconnected :: "PeerManager \<Rightarrow> sref \<Rightarrow> bool" where
  "disconnected pm r \<longleftrightarrow> (\<exists>s. map_of (pm_sessions pm) r = Some s \<and> ps_status s = S_Disconnected)"

text \<open>The sessions of the map of outbound sessions exist and are outbound.\<close>

definition outbound :: "(u64 \<times> sref) list \<Rightarrow> PeerManager \<Rightarrow> bool" where
  "outbound es pm \<longleftrightarrow> (\<forall>r \<in> snd ` set es. \<exists>s. map_of (pm_sessions pm) r = Some s \<and> \<not> ps_is_inbound s)"

text \<open>What libquicr promises of \<open>Start\<close>: each of the next \<open>n\<close> connections has an identifier that none of the given connections, and none
  started before, has.\<close>

definition starts :: "event list \<Rightarrow> nat" where
  "starts log = length (filter (\<lambda>e. case e of E_Start _ \<Rightarrow> True | _ \<Rightarrow> False) log)"

definition start_fresh :: "transport_api \<Rightarrow> u64 set \<Rightarrow> event list \<Rightarrow> nat \<Rightarrow> bool" where
  "start_fresh ta ids log n \<longleftrightarrow> (\<forall>ext. starts ext < n \<longrightarrow> t_start ta (log @ ext) \<notin> ids \<and> E_Start (t_start ta (log @ ext)) \<notin> set (log @ ext))"

lemma start_freshD: "start_fresh ta ids log n \<Longrightarrow> 0 < n \<Longrightarrow> t_start ta log \<notin> ids \<and> E_Start (t_start ta log) \<notin> set log"
  unfolding start_fresh_def by (drule spec [of _ "[]"]) (simp add: starts_def)

lemma start_fresh_mono: "start_fresh ta ids log n \<Longrightarrow> m \<le> n \<Longrightarrow> start_fresh ta ids log m"
  unfolding start_fresh_def by auto

lemma start_fresh_next: "start_fresh ta ids log (Suc n) \<Longrightarrow> starts ext = 1 \<Longrightarrow> start_fresh ta ids (log @ ext) n"
  unfolding start_fresh_def
proof (intro allI impI)
  fix ext'
  assume a: "\<forall>ext. starts ext < Suc n \<longrightarrow> t_start ta (log @ ext) \<notin> ids \<and> E_Start (t_start ta (log @ ext)) \<notin> set (log @ ext)"
    "starts ext = 1" "starts ext' < n"
  have "starts (ext @ ext') < Suc n" using a(2,3) by (simp add: starts_def)
  then show "t_start ta ((log @ ext) @ ext') \<notin> ids \<and> E_Start (t_start ta ((log @ ext) @ ext')) \<notin> set ((log @ ext) @ ext')"
    using a(1) [rule_format, of "ext @ ext'"] by simp
qed

lemma PS_Connect_outbound:
  assumes "\<not> ps_is_inbound s"
  shows "ps_t_conn_id (fst (PS_Connect ta (s, log))) = t_start ta log" "ps_status (fst (PS_Connect ta (s, log))) = S_Connecting"
    "\<not> ps_is_inbound (fst (PS_Connect ta (s, log)))"
    "\<exists>ext. snd (PS_Connect ta (s, log)) = log @ ext \<and> starts ext = 1 \<and> E_Start (t_start ta log) \<in> set ext"
  using assms by (auto simp: starts_def PS_Connect_def Let_def create_data_context_def sess_emit_def)

lemma reconnect_connected: "map_of (pm_sessions pm) r = Some s \<Longrightarrow> ps_status s \<noteq> S_Disconnected \<Longrightarrow> reconnect q (sid, r) pm = pm_ok pm"
  by (simp add: reconnect_def)

definition restarted :: "quicr_api \<Rightarrow> sref \<Rightarrow> PeerSession \<Rightarrow> PeerManager \<Rightarrow> PeerManager" where
  "restarted q r s pm = (let st = PS_Connect (q_transport q) (s, pm_log pm) in
     pm\<lparr>pm_sessions := mput r (fst st) (pm_sessions pm), pm_log := snd st, pm_client := mput (ps_t_conn_id (fst st)) r (pm_client pm)\<rparr>)"

lemma reconnect_disconnected:
  assumes "map_of (pm_sessions pm) r = Some s" "ps_status s = S_Disconnected" "\<not> ps_is_inbound s"
    "t_start (q_transport q) (pm_log pm) \<notin> fst ` set (pm_client pm)"
  shows "reconnect q (sid, r) pm = pm_ok (restarted q r s pm)"
proof -
  have "map_of (pm_client pm) (t_start (q_transport q) (pm_log pm)) = None" using assms(4) by (simp add: map_of_eq_None_iff)
  then show ?thesis using assms(1,2) PS_Connect_outbound(1) [OF assms(3), of "q_transport q" "pm_log pm"]
    by (cases "PS_Connect (q_transport q) (s, pm_log pm)")
      (simp add: reconnect_def restarted_def session_do_def on_session_def fst_mtry)
qed

section \<open>A pass\<close>

text \<open>The entries \<open>es\<close> have been visited between \<open>pm\<close> and \<open>pm'\<close>.  The disconnected ones among them are connecting again, and the
  map has them under their new keys as well.\<close>

definition visited :: "(u64 \<times> sref) list \<Rightarrow> PeerManager \<Rightarrow> PeerManager \<Rightarrow> bool" where
  "visited es pm pm' \<longleftrightarrow>
     (\<forall>r. if r \<in> snd ` set es \<and> disconnected pm r
       then \<exists>s. map_of (pm_sessions pm') r = Some s \<and> ps_status s = S_Connecting \<and> \<not> ps_is_inbound s \<and> ps_t_conn_id s \<notin> fst ` set (pm_client pm)
         \<and> E_Start (ps_t_conn_id s) \<in> set (pm_log pm') \<and> E_Start (ps_t_conn_id s) \<notin> set (pm_log pm)
       else map_of (pm_sessions pm') r = map_of (pm_sessions pm) r)
   \<and> (\<forall>k r. map_of (pm_client pm') k = Some r \<longleftrightarrow> map_of (pm_client pm) k = Some r \<or> r \<in> snd ` set es \<and> disconnected pm r \<and> live_of pm' r = Some k)
   \<and> set (pm_log pm) \<subseteq> set (pm_log pm') \<and> msorted (pm_client pm') \<and> msorted (pm_sessions pm')
   \<and> (\<exists>sessions log client. pm' = pm\<lparr>pm_sessions := sessions, pm_log := log, pm_client := client\<rparr>)"

lemma visited_session: "visited es pm pm' \<Longrightarrow> if r \<in> snd ` set es \<and> disconnected pm r
    then \<exists>s. map_of (pm_sessions pm') r = Some s \<and> ps_status s = S_Connecting \<and> ps_t_conn_id s \<notin> fst ` set (pm_client pm)
      \<and> E_Start (ps_t_conn_id s) \<in> set (pm_log pm') - set (pm_log pm)
    else map_of (pm_sessions pm') r = map_of (pm_sessions pm) r"
  unfolding visited_def by (drule conjunct1, drule spec [of _ r]) (auto split: if_splits)

lemma visited_Nil: "msorted (pm_client pm) \<Longrightarrow> msorted (pm_sessions pm) \<Longrightarrow> visited [] pm pm"
  unfolding visited_def by simp (metis PeerManager.surjective PeerManager.update_convs(1-10))

lemma restarted_fields:
  fixes q :: quicr_api and r :: sref and pm :: PeerManager
  assumes "\<not> ps_is_inbound s"
  defines "pm' \<equiv> restarted q r s pm" and "n \<equiv> t_start (q_transport q) (pm_log pm)"
  shows "map_of (pm_sessions pm') = (map_of (pm_sessions pm))(r \<mapsto> fst (PS_Connect (q_transport q) (s, pm_log pm)))"
    "pm_client pm' = mput n r (pm_client pm)" "set (pm_log pm') \<supseteq> insert (E_Start n) (set (pm_log pm))" "start_fresh ta ids (pm_log pm) (Suc m) \<Longrightarrow> start_fresh ta ids (pm_log pm') m"
    "live_of pm' r = Some n" "\<not> disconnected pm' r" "r' \<noteq> r \<Longrightarrow> disconnected pm' r' \<longleftrightarrow> disconnected pm r'"
  using PS_Connect_outbound [OF assms(1), of "q_transport q" "pm_log pm"]
  by (auto simp: pm'_def n_def restarted_def Let_def live_of_def disconnected_def start_fresh_next)

text \<open>One more entry in front of those visited later.\<close>

lemma visited_skip:
  assumes "\<not> disconnected pm r" "visited es pm pm'"
  shows "visited ((sid, r) # es) pm pm'"
  using assms unfolding visited_def by (auto split: if_splits)

lemma visited_restart:
  assumes s: "map_of (pm_sessions pm) r = Some s" "ps_status s = S_Disconnected" "\<not> ps_is_inbound s" and r: "r \<notin> snd ` set es"
    and n: "t_start (q_transport q) (pm_log pm) \<notin> fst ` set (pm_client pm)" "E_Start (t_start (q_transport q) (pm_log pm)) \<notin> set (pm_log pm)"
    and v: "visited es (restarted q r s pm) pm'"
  shows "visited ((sid, r) # es) pm pm'"
proof -
  let ?pm = "restarted q r s pm" and ?n = "t_start (q_transport q) (pm_log pm)" and ?s = "fst (PS_Connect (q_transport q) (s, pm_log pm))"
  note f = restarted_fields [OF s(3), where q = q and r = r and pm = pm] and c = PS_Connect_outbound [OF s(3), of "q_transport q" "pm_log pm"]
  have d: "disconnected pm r" using s by (simp add: disconnected_def)
  have mine: "map_of (pm_sessions pm') r = Some ?s" using v r f(1) unfolding visited_def by simp
  have log: "insert (E_Start ?n) (set (pm_log pm)) \<subseteq> set (pm_log pm')" using v f(3) unfolding visited_def by blast
  have "if x \<in> snd ` set ((sid, r) # es) \<and> disconnected pm x
       then \<exists>s. map_of (pm_sessions pm') x = Some s \<and> ps_status s = S_Connecting \<and> \<not> ps_is_inbound s \<and> ps_t_conn_id s \<notin> fst ` set (pm_client pm)
         \<and> E_Start (ps_t_conn_id s) \<in> set (pm_log pm') \<and> E_Start (ps_t_conn_id s) \<notin> set (pm_log pm)
       else map_of (pm_sessions pm') x = map_of (pm_sessions pm) x" for x
  proof (cases "x = r")
    case True
    then show ?thesis using mine c(1-3) d log n by simp
  next
    case False
    have "if x \<in> snd ` set es \<and> disconnected ?pm x
       then \<exists>s. map_of (pm_sessions pm') x = Some s \<and> ps_status s = S_Connecting \<and> \<not> ps_is_inbound s \<and> ps_t_conn_id s \<notin> fst ` set (pm_client ?pm)
         \<and> E_Start (ps_t_conn_id s) \<in> set (pm_log pm') \<and> E_Start (ps_t_conn_id s) \<notin> set (pm_log ?pm)
       else map_of (pm_sessions pm') x = map_of (pm_sessions ?pm) x" using v unfolding visited_def by blast
    then show ?thesis using False f(1,3) f(7) [OF False] by (auto simp: f(2) fst_mput split: if_splits)
  qed
  moreover have "map_of (pm_client pm') k = Some x \<longleftrightarrow>
      map_of (pm_client pm) k = Some x \<or> x \<in> snd ` set ((sid, r) # es) \<and> disconnected pm x \<and> live_of pm' x = Some k" for k x
  proof -
    have "map_of (pm_client pm') k = Some x \<longleftrightarrow> map_of (pm_client ?pm) k = Some x \<or> x \<in> snd ` set es \<and> disconnected ?pm x \<and> live_of pm' x = Some k"
      using v unfolding visited_def by blast
    moreover have "live_of pm' r = Some ?n" using mine c(1) by (simp add: live_of_def)
    moreover have "map_of (pm_client pm) ?n = None" using n(1) by (simp add: map_of_eq_None_iff)
    ultimately show ?thesis using r d f(2,7) by (cases "x = r") auto
  qed
  moreover obtain sessions lg client where "pm' = ?pm\<lparr>pm_sessions := sessions, pm_log := lg, pm_client := client\<rparr>" using v unfolding visited_def by blast
  then have "pm' = pm\<lparr>pm_sessions := sessions, pm_log := lg, pm_client := client\<rparr>" by (simp add: restarted_def Let_def)
  ultimately show ?thesis using v log unfolding visited_def by blast
qed

lemma reconnect_loop:
  assumes "start_fresh (q_transport q) ids (pm_log pm) (length es)" "msorted (pm_client pm)" "msorted (pm_sessions pm)" "outbound es pm" "distinct (map snd es)"
    "fst ` set (pm_client pm) \<subseteq> ids \<union> {k. E_Start k \<in> set (pm_log pm)}"
  shows "\<exists>pm'. foreach (reconnect q) es pm = pm_ok pm' \<and> visited es pm pm'"
  using assms
proof (induction es arbitrary: pm)
  case Nil
  then show ?case using visited_Nil by simp
next
  case (Cons e es)
  obtain sid r where e: "e = (sid, r)" by fastforce
  obtain s where s: "map_of (pm_sessions pm) r = Some s" "\<not> ps_is_inbound s" using Cons.prems(4) by (auto simp: outbound_def e)
  show ?case
  proof (cases "ps_status s = S_Disconnected")
    case False
    moreover obtain pm' where "foreach (reconnect q) es pm = pm_ok pm'" "visited es pm pm'"
      using Cons.IH [of pm] Cons.prems start_fresh_mono by (force simp: outbound_def)
    ultimately show ?thesis using reconnect_connected [OF s(1)] visited_skip [of pm r es pm' sid] s by (auto simp: e disconnected_def)
  next
    case True
    let ?pm = "restarted q r s pm" and ?n = "t_start (q_transport q) (pm_log pm)"
    note f = restarted_fields [OF s(2), where q = q and r = r and pm = pm]
    have r: "r \<notin> snd ` set es" using Cons.prems(5) by (simp add: e)
    have n: "?n \<notin> fst ` set (pm_client pm)" "E_Start ?n \<notin> set (pm_log pm)" using start_freshD [OF Cons.prems(1)] Cons.prems(6) by auto
    have "outbound es ?pm" using Cons.prems(4) r by (auto simp: outbound_def f(1))
    moreover have "fst ` set (pm_client ?pm) \<subseteq> ids \<union> {k. E_Start k \<in> set (pm_log ?pm)}"
      using Cons.prems(6) f(3) by (auto simp: f(2) fst_mput)
    moreover have "msorted (pm_client ?pm)" "msorted (pm_sessions ?pm)" using Cons.prems(2,3) by (simp_all add: restarted_def Let_def)
    ultimately obtain pm' where "foreach (reconnect q) es ?pm = pm_ok pm'" "visited es ?pm pm'" using Cons.IH [of ?pm] f(4) [OF Cons.prems(1) [simplified]] Cons.prems(5) by auto
    then show ?thesis using reconnect_disconnected [OF s(1) True s(2) n(1)] visited_restart [OF s(1) True s(2) r n] by (auto simp: e)
  qed
qed

section \<open>The effect of a pass\<close>

definition sided :: "PeerManager \<Rightarrow> bool" where
  "sided pm \<longleftrightarrow> outbound (pm_client pm) pm \<and> (\<forall>r \<in> snd ` set (pm_server pm). \<exists>s. map_of (pm_sessions pm) r = Some s \<and> ps_is_inbound s)"

lemma client_refs_distinct: "conn_wf pm \<Longrightarrow> distinct (map snd (pm_client pm))"
proof -
  assume "conn_wf pm"
  then have w: "pm_wf pm" "distinct (map fst (pm_client pm))" by (simp_all add: conn_wf_def linked_def msorted_distinct)
  have "a = b" if "a \<in> set (pm_client pm)" "b \<in> set (pm_client pm)" "snd a = snd b" for a b
    using that wf_session_live [OF w(1), of a] wf_session_live [OF w(1), of b] by (auto simp: all_sessions_def prod_eq_iff)
  then show ?thesis using w(2) by (simp add: distinct_map inj_on_def)
qed

text \<open>After the old keys are erased, the map has every session under the identifier of its connection, and nothing else.\<close>

lemma erased_map:
  assumes cw: "conn_wf pm" and v: "visited (pm_client pm) pm pm1"
    and old: "set old = {k. \<exists>r. map_of (pm_client pm) k = Some r \<and> disconnected pm r}"
  shows "map_of (fold mdel old (pm_client pm1)) k = Some r \<longleftrightarrow> r \<in> snd ` set (pm_client pm) \<and> live_of pm1 r = Some k"
proof -
  have w: "pm_wf pm" "msorted (pm_client pm)" using cw by (simp_all add: conn_wf_def linked_def)
  have inm: "map_of (pm_client pm) k' = Some r' \<longleftrightarrow> (k', r') \<in> set (pm_client pm)" for k' r' using om.entries_find [OF w(2)] by simp
  have lv: "live_of pm r' = Some k'" if "map_of (pm_client pm) k' = Some r'" for k' r'
    using that wf_session_live [OF w(1), of "(k', r')"] by (simp add: inm all_sessions_def)
  have kept: "live_of pm1 r = live_of pm r" if "\<not> disconnected pm r"
    using v that unfolding visited_def live_of_def by metis
  have new: "k \<notin> fst ` set (pm_client pm)" if "r \<in> snd ` set (pm_client pm)" "disconnected pm r" "live_of pm1 r = Some k"
    using v that unfolding visited_def live_of_def by (metis option.sel option.simps(9))
  have m: "map_of (pm_client pm1) k = Some r \<longleftrightarrow> map_of (pm_client pm) k = Some r \<or> r \<in> snd ` set (pm_client pm) \<and> disconnected pm r \<and> live_of pm1 r = Some k"
    using v unfolding visited_def by blast
  have o': "k \<in> set old \<Longrightarrow> k \<in> fst ` set (pm_client pm)" using old by (force simp: inm)
  show ?thesis
  proof (cases "disconnected pm r")
    case True
    then have "map_of (pm_client pm) k = Some r \<Longrightarrow> k \<in> set old" using old by blast
    then show ?thesis using m new True o' by (auto simp: fold_mdel_keys)
  next
    case False
    have "k \<notin> set old" if "map_of (pm_client pm) k = Some r" using that False old by auto
    moreover have "map_of (pm_client pm) k = Some r \<longleftrightarrow> r \<in> snd ` set (pm_client pm) \<and> live_of pm r = Some k"
      using lv inm by (force simp: inm)
    ultimately show ?thesis using m False kept by (auto simp: fold_mdel_keys)
  qed
qed

lemma check_pass_eq:
  assumes cw: "conn_wf pm" and out: "outbound (pm_client pm) pm"
    and fresh: "start_fresh (q_transport q) (fst ` set (pm_client pm)) (pm_log pm) (length (pm_client pm))"
  obtains pm1 m where "check_pass q pm = pm_ok (release (pm1\<lparr>pm_client := m\<rparr>))" "visited (pm_client pm) pm pm1" "msorted m"
    "\<forall>k r. map_of m k = Some r \<longleftrightarrow> r \<in> snd ` set (pm_client pm) \<and> live_of pm1 r = Some k"
proof -
  have w: "msorted (pm_client pm)" "msorted (pm_sessions pm)" using cw by (simp_all add: conn_wf_def linked_def pm_wf_def)
  let ?old = "map fst (filter (\<lambda>e. case map_of (pm_sessions pm) (snd e) of None \<Rightarrow> False | Some s \<Rightarrow> ps_status s = S_Disconnected) (pm_client pm))"
  obtain pm1 where l: "foreach (reconnect q) (pm_client pm) pm = pm_ok pm1" "visited (pm_client pm) pm pm1"
    using reconnect_loop [OF fresh w out client_refs_distinct [OF cw]] by blast
  have "set ?old = {k. \<exists>r. map_of (pm_client pm) k = Some r \<and> disconnected pm r}"
    by (force simp: disconnected_def om.entries_find [OF w(1), symmetric] split: option.splits)
  then have "\<forall>k r. map_of (fold mdel ?old (pm_client pm1)) k = Some r \<longleftrightarrow> r \<in> snd ` set (pm_client pm) \<and> live_of pm1 r = Some k"
    using erased_map [OF cw l(2)] by blast
  then show thesis by (intro that [OF _ l(2)]) (use l in \<open>simp_all add: check_pass_def Let_def msorted_fold_mdel visited_def\<close>)
qed

text \<open>The manager before the release of sessions.\<close>

lemma pass_linked:
  assumes cw: "conn_wf pm" and sd: "sided pm" and v: "visited (pm_client pm) pm pm1" and m: "msorted m"
    "\<And>k r. map_of m k = Some r \<longleftrightarrow> r \<in> snd ` set (pm_client pm) \<and> live_of pm1 r = Some k"
    and purged: "\<And>r. r \<in> snd ` set (pm_client pm) \<Longrightarrow> disconnected pm r \<Longrightarrow> \<not> used (pm_info_base pm) r"
  shows "linked (pm1\<lparr>pm_client := m\<rparr>)"
proof -
  let ?pm = "pm1\<lparr>pm_client := m\<rparr>"
  have w: "pm_wf pm" "linked pm" using cw by (simp_all add: conn_wf_def linked_def)
  obtain sessions log client where pm1: "pm1 = pm\<lparr>pm_sessions := sessions, pm_log := log, pm_client := client\<rparr>" using v unfolding visited_def by blast
  have lv: "live_of ?pm r = live_of pm1 r" for r by (simp add: live_of_def)
  have kept: "live_of pm1 r = live_of pm r" if "\<not> (r \<in> snd ` set (pm_client pm) \<and> disconnected pm r)" for r
    using v that unfolding visited_def live_of_def by metis
  have "live_of pm1 r = Some sid" if "(sid, r) \<in> set (pm_server pm)" for sid r
  proof -
    have "r \<notin> snd ` set (pm_client pm)" using that sd by (force simp: sided_def outbound_def)
    then show ?thesis using kept wf_session_live [OF w(1), of "(sid, r)"] that by (simp add: all_sessions_def)
  qed
  moreover have "live_of pm1 r = Some sid" if "(sid, r) \<in> set m" for sid r using that m by (simp add: om.entries_find)
  moreover have "ib_wf (live_of pm1) (pm_info_base pm)"
  proof (rule ib_wf_live [of "live_of pm"])
    show "ib_wf (live_of pm) (pm_info_base pm)" using w(1) by (simp add: pm_wf_def)
    show "live_of pm1 r = Some sid" if "used (pm_info_base pm) r" "live_of pm r = Some sid" for r sid
      using that(2) kept [of r] purged [of r] that(1) by auto
  qed
  ultimately have "pm_wf ?pm" using w(1) v unfolding pm_wf_def lv [abs_def] by (auto simp: all_sessions_def pm1 visited_def)
  moreover have "live_of pm1 r \<noteq> None \<Longrightarrow> live_of pm r \<noteq> None" for r
  proof (cases "disconnected pm r")
    case True
    then show "live_of pm r \<noteq> None" by (auto simp: disconnected_def live_of_def)
  next
    case False
    assume "live_of pm1 r \<noteq> None"
    then show "live_of pm r \<noteq> None" using kept [of r] False by simp
  qed
  then have "\<forall>r. live_of pm1 r \<noteq> None \<longrightarrow> r < pm_next pm" using w(2) unfolding linked_def by blast
  ultimately show ?thesis using w(2) m(1) unfolding linked_def lv [abs_def] by (simp add: pm1)
qed

text \<open>A pass loses no session.\<close>

lemma pass_refs:
  assumes out: "outbound (pm_client pm) pm" and v: "visited (pm_client pm) pm pm1" and m: "msorted m"
    "\<And>k r. map_of m k = Some r \<longleftrightarrow> r \<in> snd ` set (pm_client pm) \<and> live_of pm1 r = Some k"
  shows "snd ` set m = snd ` set (pm_client pm)"
proof -
  have lv: "live_of pm1 r \<noteq> None" if r: "r \<in> snd ` set (pm_client pm)" for r
  proof -
    obtain s where "map_of (pm_sessions pm) r = Some s" using r out by (auto simp: outbound_def)
    then have "map_of (pm_sessions pm1) r \<noteq> None" using visited_session [OF v, of r] r by (auto split: if_splits)
    then show ?thesis by (simp add: live_of_def)
  qed
  have "r \<in> snd ` set m \<longleftrightarrow> (\<exists>k. map_of m k = Some r)" for r by (force simp: om.entries_find [OF m(1), symmetric])
  then have "r \<in> snd ` set m \<longleftrightarrow> r \<in> snd ` set (pm_client pm)" for r using lv [of r] m(2) by (cases "live_of pm1 r") auto
  then show ?thesis by (rule set_eqI)
qed

lemma pass_gone:
  assumes "conn_wf pm" "visited (pm_client pm) pm pm1" "r \<notin> snd ` set (pm_client pm) \<union> snd ` set (pm_server pm)"
  shows "map_of (pm_sessions pm1) r = None"
proof -
  have "live_of pm r = None" using assms(1,3) unfolding conn_wf_def all_sessions_def by auto
  then show ?thesis using visited_session [OF assms(2), of r] assms(3) by (simp add: live_of_def)
qed

lemma pass_sessions:
  assumes cw: "conn_wf pm" and out: "outbound (pm_client pm) pm" and v: "visited (pm_client pm) pm pm1" and m: "msorted m"
    "\<And>k r. map_of m k = Some r \<longleftrightarrow> r \<in> snd ` set (pm_client pm) \<and> live_of pm1 r = Some k"
  shows "map_of (pm_sessions (release (pm1\<lparr>pm_client := m\<rparr>))) r = map_of (pm_sessions pm1) r"
proof -
  have "pm_server pm1 = pm_server pm" using v unfolding visited_def by auto
  then have a: "snd ` set (all_sessions (pm1\<lparr>pm_client := m\<rparr>)) = snd ` set (pm_client pm) \<union> snd ` set (pm_server pm)"
    using pass_refs [OF out v m] by (simp add: all_sessions_def image_Un)
  show ?thesis using pass_gone [OF cw v, of r] unfolding release_def a by (simp add: map_of_filter_key)
qed

text \<open>C10. Lost peers are connected again.  Let the manager run, let its outbound sessions be outbound, its server
  sessions inbound, and let the transport give new connections new identifiers.  A round of the check thread does nothing before the
  interval (of at least two seconds) is over.  Then every outbound session that is
  disconnected is started again and connecting, every other session is as before, and the map of outbound sessions holds the same sessions, each under the
  identifier of its connection: none is lost, none is there twice, no old identifier stays.  If the lost sessions had been
  purged from the information base, the manager is well formed again.\<close>

theorem lost_peers_reconnect:
  assumes cw: "conn_wf pm" and sd: "sided pm"
    and fresh: "start_fresh (q_transport q) (fst ` set (pm_client pm)) (pm_log pm) (length (pm_client pm))"
  shows "\<exists>pm'. check_round q interval_ms check now start pm =
      Some (if check - start < 2000 \<or> check - start < interval_ms then (start, pm_ok pm) else (now, pm_ok pm'))
    \<and> (\<forall>r. if r \<in> snd ` set (pm_client pm) \<and> disconnected pm r
        then \<exists>s. map_of (pm_sessions pm') r = Some s \<and> ps_status s = S_Connecting \<and> ps_t_conn_id s \<notin> fst ` set (pm_client pm)
          \<and> E_Start (ps_t_conn_id s) \<in> set (pm_log pm') - set (pm_log pm)
        else map_of (pm_sessions pm') r = map_of (pm_sessions pm) r)
    \<and> snd ` set (pm_client pm') = snd ` set (pm_client pm) \<and> pm_server pm' = pm_server pm \<and> pm_info_base pm' = pm_info_base pm
    \<and> (\<forall>k r. map_of (pm_client pm') k = Some r \<longleftrightarrow> r \<in> snd ` set (pm_client pm) \<and> live_of pm' r = Some k)
    \<and> ((\<forall>r \<in> snd ` set (pm_client pm). disconnected pm r \<longrightarrow> \<not> used (pm_info_base pm) r) \<longrightarrow> conn_wf pm')"
proof -
  have out: "outbound (pm_client pm) pm" using sd by (simp add: sided_def)
  obtain pm1 m where p: "check_pass q pm = pm_ok (release (pm1\<lparr>pm_client := m\<rparr>))" and v: "visited (pm_client pm) pm pm1" and m': "msorted m"
    "\<forall>k r. map_of m k = Some r \<longleftrightarrow> r \<in> snd ` set (pm_client pm) \<and> live_of pm1 r = Some k" by (rule check_pass_eq [OF cw out fresh])
  note m = m'(1) m'(2) [rule_format]
  let ?pm = "release (pm1\<lparr>pm_client := m\<rparr>)"
  obtain sessions log client where pm1: "pm1 = pm\<lparr>pm_sessions := sessions, pm_log := log, pm_client := client\<rparr>" using v unfolding visited_def by blast
  note refs = pass_refs [OF out v m] and gone = pass_gone [OF cw v] and sess = pass_sessions [OF cw out v m]
  have live: "live_of ?pm = live_of pm1" by (simp add: live_of_def sess fun_eq_iff)
  have log: "pm_log ?pm = pm_log pm1" by (simp add: release_def)
  have wf: "conn_wf ?pm" if "\<forall>r \<in> snd ` set (pm_client pm). disconnected pm r \<longrightarrow> \<not> used (pm_info_base pm) r"
  proof (rule release_conn_wf)
    show l: "linked (pm1\<lparr>pm_client := m\<rparr>)" using pass_linked [OF cw sd v m] that by blast
    fix r sid n
    assume "live_of (pm1\<lparr>pm_client := m\<rparr>) r = Some sid"
    then show "r \<in> snd ` set (all_sessions (pm1\<lparr>pm_client := m\<rparr>))"
      using gone [of r] refs by (auto simp: live_of_def all_sessions_def image_Un pm1)
  qed
  have round: "check_round q interval_ms check now start pm =
      Some (if check - start < 2000 \<or> check - start < interval_ms then (start, pm_ok pm) else (now, pm_ok ?pm))"
    using cw p by (simp add: check_round_def check_interval_def conn_wf_def linked_def)
  have each: "if r \<in> snd ` set (pm_client pm) \<and> disconnected pm r
        then \<exists>s. map_of (pm_sessions ?pm) r = Some s \<and> ps_status s = S_Connecting \<and> ps_t_conn_id s \<notin> fst ` set (pm_client pm)
          \<and> E_Start (ps_t_conn_id s) \<in> set (pm_log ?pm) - set (pm_log pm)
        else map_of (pm_sessions ?pm) r = map_of (pm_sessions pm) r" for r
    using visited_session [OF v, of r] unfolding sess log .
  have same: "pm_client ?pm = m" "pm_server ?pm = pm_server pm" "pm_info_base ?pm = pm_info_base pm" by (simp_all add: pm1)
  show ?thesis
    by (intro exI [of _ ?pm] conjI allI impI, rule round, rule each, simp only: same refs, rule same, rule same, simp only: same live m(2), erule wf)
qed

text \<open>A manager with one outbound session that has lost its connection, and a transport that calls its next connection 77.\<close>

definition lost_session :: PeerSession where
  "lost_session = (PeerSession_make False 10 sample_node)\<lparr>ps_status := S_Disconnected\<rparr>"

definition lost_manager :: PeerManager where
  "lost_manager = sample_manager\<lparr>pm_info_base := InfoBase_init, pm_sessions := [(0, lost_session)], pm_server := [], pm_client := [(10, 0)], pm_next := 1, pm_log := []\<rparr>"

definition next_quicr :: quicr_api where
  "next_quicr = sample_quicr\<lparr>q_transport := (sample_transport\<lparr>t_start := (\<lambda>_. 77)\<rparr>)\<rparr>"

lemma lost_manager_wf: "conn_wf lost_manager"
  using ib_wf_init by (auto simp: conn_wf_def linked_def pm_wf_def lost_manager_def all_sessions_def live_of_def msorted_Cons sample_manager_def
    lost_session_def PeerSession_make_def InfoBase_init_def split: if_splits)

theorem lost_peers_reconnect_witness:
  "\<exists>pm'. check_round next_quicr 5000 6001 6002 1000 lost_manager = Some (6002, pm_ok pm') \<and> conn_wf pm'
    \<and> map_of (pm_client pm') 10 = None \<and> snd ` set (pm_client pm') = {0} \<and> \<not> disconnected pm' 0"
proof -
  have s: "sided lost_manager" by (simp add: sided_def outbound_def lost_manager_def sample_manager_def lost_session_def PeerSession_make_def)
  have f: "start_fresh (q_transport next_quicr) (fst ` set (pm_client lost_manager)) (pm_log lost_manager) (length (pm_client lost_manager))"
    by (auto simp: start_fresh_def starts_def next_quicr_def lost_manager_def filter_empty_conv)
  have d: "disconnected lost_manager 0" by (simp add: disconnected_def lost_manager_def lost_session_def)
  have c: "snd ` set (pm_client lost_manager) = {0}" "pm_log lost_manager = []" by (simp_all add: lost_manager_def)
  have u: "\<forall>r \<in> {0}. disconnected lost_manager r \<longrightarrow> \<not> used (pm_info_base lost_manager) r" by (simp add: used_def lost_manager_def InfoBase_init_def)
  show ?thesis
    using lost_peers_reconnect [OF lost_manager_wf s f, of 5000 6001 6002 1000]
  proof (elim exE conjE, intro exI conjI)
    fix pm'
    assume a: "\<forall>r. if r \<in> snd ` set (pm_client lost_manager) \<and> disconnected lost_manager r
        then \<exists>s. map_of (pm_sessions pm') r = Some s \<and> ps_status s = S_Connecting \<and> ps_t_conn_id s \<notin> fst ` set (pm_client lost_manager)
          \<and> E_Start (ps_t_conn_id s) \<in> set (pm_log pm') - set (pm_log lost_manager)
        else map_of (pm_sessions pm') r = map_of (pm_sessions lost_manager) r"
      and b: "\<forall>k r. map_of (pm_client pm') k = Some r \<longleftrightarrow> r \<in> snd ` set (pm_client lost_manager) \<and> live_of pm' r = Some k"
    obtain s where s: "map_of (pm_sessions pm') 0 = Some s" "ps_status s = S_Connecting" "ps_t_conn_id s \<noteq> 10"
      using a [rule_format, of 0] d by (auto simp: c) (simp add: lost_manager_def)
    then show "\<not> disconnected pm' 0" by (simp add: disconnected_def)
    show "map_of (pm_client pm') 10 = None"
    proof (rule ccontr)
      assume "map_of (pm_client pm') 10 \<noteq> None"
      then show False using b c s by (auto simp: live_of_def)
    qed
  qed (use u c in auto)
qed

end
