(* ===== verification/Subscribe_Handler.thy ===== *)
theory Subscribe_Handler
  imports Track_Ranking Info_Base
begin

text \<open>
  The handler of a track that the relay receives: \<open>src/src/subscribe_handler.{h,cc}\<close>.  It takes
  stream data and datagrams of a publisher (or of the peers), forwards the bytes to the subscribers that are
  past their first object and to the peering manager, parses one object at a time, caches it, reports its
  ranking properties and publishes it to the subscribers that have no object of the subgroup yet.

  The publish handlers of the subscribers and the namespace handlers live in stores, as in
  \<open>Publish_Namespace\<close>.  libquicr's base class, message parsers and server are the record \<open>sub_api\<close>;
  calls into the peering manager, the cache and the server are entries of a log.  Rankings live in a store too and
  are really called (theory \<open>Track_Ranking\<close>).  A
  parser that waits for more bytes keeps what it has read in \<open>sm_partial\<close>.
\<close>

section \<open>Data\<close>

type_synonym nref = nat
type_synonym kref = nat   \<comment> \<open>a \<open>weak_ptr<TrackRanking>\<close>\<close>
type_synonym extensions = "(u64, bytes list) omap"

record ObjectHeaders =
  oh_group_id :: u64
  oh_object_id :: u64
  oh_subgroup_id :: u64
  oh_payload_length :: nat
  oh_status :: nat
  oh_priority :: "u8 option"
  oh_track_mode :: "nat option"
  oh_extensions :: "extensions option"
  oh_immutable_extensions :: "extensions option"

record StreamHeaderSubGroup =
  shd_track_alias :: u64
  shd_group_id :: u64
  shd_subgroup_id :: "u64 option"
  shd_priority :: "u8 option"
  shd_properties :: "nat option"

record StreamSubGroupObject =
  so_object_delta :: u64
  so_payload :: bytes
  so_status :: nat
  so_extensions :: "extensions option"
  so_immutable_extensions :: "extensions option"

record ObjectDatagram =
  od_track_alias :: u64
  od_group_id :: u64
  od_object_id :: u64
  od_priority :: "u8 option"
  od_payload :: bytes
  od_extensions :: "extensions option"

text \<open>A stream of the track; \<open>sm_header\<close> is \<open>None\<close> while the buffer's \<open>std::any\<close> is empty.\<close>

record StreamContext =
  sm_buffer :: bytes
  sm_header :: "StreamHeaderSubGroup option"
  sm_partial :: bytes
  sm_current_group_id :: u64
  sm_current_subgroup_id :: u64
  sm_next_object_id :: "u64 option"

record TrackPropertyValue =
  tpv_latest_value :: u64
  tpv_latest_tick_ms :: u64

record SubscribeTrackHandler =
  sth_self :: nat                                      \<comment> \<open>which object it is\<close>
  sth_full_track_name :: "bytes list \<times> bytes"
  sth_track_alias :: "u64 option"
  sth_received_track_alias :: "u64 option"
  sth_connection_id :: u64
  sth_priority :: u8
  sth_delivery_timeout :: "u64 option"
  sth_publisher_initiated :: bool
  sth_pending_new_group_request_id :: "u64 option"
  sth_pub_last_update :: "u64 option"                  \<comment> \<open>\<open>pub_last_update_info_.time\<close>, in ms\<close>
  sth_is_datagram :: bool
  sth_is_from_peer :: bool
  sth_subscribers :: "(u64, tref option) omap"         \<comment> \<open>\<open>nullptr\<close> for the peering manager\<close>
  sth_sub_namespaces :: "(u64, (u64, nref) omap) omap"
  sth_tracked_properties_value :: "(u64, TrackPropertyValue) omap"
  sth_track_ranking :: "kref option"
  sth_streams :: "(u64, StreamContext) omap"

datatype sub_event =
    Sv_Client_Data_Recv u64 u8 u64 u8 u64 u64 bytes
      \<comment> \<open>\<open>PeerManager::ClientDataRecv\<close>: alias, priority, ttl, type, group, subgroup, data\<close>
  | Sv_Peer_End_Subgroup u64 u64 u64 bool
  | Sv_Cache_Object u64 ObjectHeaders bytes
  | Sv_Bind_Publisher_Track u64 u64 u64 tref
  | Sv_Unbind_Publisher_Track u64 u64 "tref option"
  | Sv_Resume nat
  | Sv_Pause nat

record sub_env =
  se_pub :: pub_env
  se_next :: tref
  se_ns :: "(nref, PublishNamespaceHandler) omap"
  se_rankings :: "(kref, TrackRanking) omap"
  se_log :: "sub_event list"

type_synonym sub_state = "SubscribeTrackHandler \<times> sub_env"

record sub_api =
  sb_pub :: pub_api
  sb_hash :: hash_api
  sb_uintvar :: uintvar_api
  sb_make_track :: "bytes list \<times> bytes \<Rightarrow> nat \<Rightarrow> u8 \<Rightarrow> u32 \<Rightarrow> PublishTrackHandler"  \<comment> \<open>base class constructor\<close>
  sb_bind :: "u64 \<Rightarrow> u64 \<Rightarrow> PublishTrackHandler \<Rightarrow> PublishTrackHandler"
  sb_mode_stream :: nat
  sb_mode_datagram :: nat
  sb_new_stream :: StreamContext
  sb_read_header :: "bytes \<Rightarrow> StreamHeaderSubGroup \<times> bytes \<times> bool"   \<comment> \<open>the header, what is left, is it complete\<close>
  sb_write_header :: "StreamHeaderSubGroup \<Rightarrow> bytes"
  sb_read_object :: "nat \<Rightarrow> bytes \<Rightarrow> bytes \<Rightarrow> bytes \<times> bytes \<times> StreamSubGroupObject option"
    \<comment> \<open>properties, what was read before, the buffer; the same afterwards, and the object\<close>
  sb_read_datagram :: "bytes \<Rightarrow> ObjectDatagram option"
  sb_available :: nat                                                  \<comment> \<open>\<open>ObjectStatus::kAvailable\<close>\<close>
  sb_object_ttl :: u32
  sb_disable_cache :: bool

definition kDefaultObjectTtl :: u64 where "kDefaultObjectTtl = 5000"
definition kRefreshRankingIntervalMs :: u64 where "kRefreshRankingIntervalMs = 120"

definition sub_emit :: "sub_event \<Rightarrow> sub_env \<Rightarrow> sub_env" where
  "sub_emit ev e = e\<lparr>se_log := se_log e @ [ev]\<rparr>"

text \<open>The constructor; what the base class sets up comes with the argument.\<close>

definition SubscribeTrackHandler_make :: "SubscribeTrackHandler \<Rightarrow> SubscribeTrackHandler" where
  "SubscribeTrackHandler_make base = base\<lparr>sth_is_datagram := False, sth_is_from_peer := False, sth_subscribers := [],
     sth_sub_namespaces := [], sth_tracked_properties_value := [(12, \<lparr>tpv_latest_value = 0, tpv_latest_tick_ms = 0\<rparr>)], sth_track_ranking := None\<rparr>"

definition SubscribeTrackHandler_destroy :: "sub_state \<Rightarrow> sub_env" where
  "SubscribeTrackHandler_destroy st = (case st of (h, e) \<Rightarrow>
     fold (\<lambda>(conn_handle, handler). sub_emit (Sv_Unbind_Publisher_Track conn_handle (sth_connection_id h) handler)) (sth_subscribers h) e)"

section \<open>Subscribers\<close>

definition Resume :: "sub_state \<Rightarrow> sub_state" where
  "Resume st = (fst st, sub_emit (Sv_Resume (sth_self (fst st))) (snd st))"

definition Pause :: "sub_state \<Rightarrow> sub_state" where
  "Pause st = (fst st, sub_emit (Sv_Pause (sth_self (fst st))) (snd st))"

definition ns_hash :: "sub_api \<Rightarrow> PublishNamespaceHandler \<Rightarrow> u64" where
  "ns_hash api p = th_fullname (h_track (sb_hash api) (pns_prefix p) [])"

definition AddSubscribeNamespace :: "sub_api \<Rightarrow> nref \<Rightarrow> sub_state \<Rightarrow> sub_state \<times> unit res" where
  "AddSubscribeNamespace api n st = (case st of (h, e) \<Rightarrow>
     (case map_of (se_ns e) n of
        None \<Rightarrow> (st, Inl Null_Deref)
      | Some p \<Rightarrow>
          (let fh = ns_hash api p; conns = mat [] (sth_sub_namespaces h) fh in
           if map_of conns (pns_connection_id p) \<noteq> None then (st, Inr ())
           else let prop = (case pns_property_type p of None \<Rightarrow> 0 | Some t \<Rightarrow> t);
                    h = h\<lparr>sth_sub_namespaces := mput fh (mput (pns_connection_id p) n conns) (sth_sub_namespaces h),
                          sth_tracked_properties_value := fst (mtry prop \<lparr>tpv_latest_value = 0, tpv_latest_tick_ms = 0\<rparr>
                            (sth_tracked_properties_value h))\<rparr>
                in (Resume (h, e), Inr ()))))"

definition RemoveSubscribeNamespace :: "sub_api \<Rightarrow> nref \<Rightarrow> sub_state \<Rightarrow> sub_state \<times> unit res" where
  "RemoveSubscribeNamespace api n st = (case st of (h, e) \<Rightarrow>
     (case map_of (se_ns e) n of
        None \<Rightarrow> (st, Inl Null_Deref)
      | Some p \<Rightarrow>
          (let fh = ns_hash api p in
           case map_of (sth_sub_namespaces h) fh of
             None \<Rightarrow> (st, Inr ())
           | Some conns \<Rightarrow>
               (let conns = mdel (pns_connection_id p) conns
                in ((h\<lparr>sth_sub_namespaces := (if conns = [] then mdel fh (sth_sub_namespaces h)
                                            else mput fh conns (sth_sub_namespaces h))\<rparr>, e), Inr ())))))"

definition track_ttl :: "sub_api \<Rightarrow> SubscribeTrackHandler \<Rightarrow> u64 \<Rightarrow> u32" where
  "track_ttl api h delivery_timeout =
     (if delivery_timeout = 0
      then (case sth_delivery_timeout h of None \<Rightarrow> sb_object_ttl api | Some t \<Rightarrow> ucast t)
      else ucast delivery_timeout)"

definition AddSubscriber :: "sub_api \<Rightarrow> u64 \<Rightarrow> u64 \<Rightarrow> u8 \<Rightarrow> u64 \<Rightarrow> u64 \<times> u64 \<Rightarrow> sub_state \<Rightarrow> sub_state" where
  "AddSubscriber api conn_handle request_id priority delivery_timeout start_location st = (case st of (h, e) \<Rightarrow>
     if map_of (sth_subscribers h) conn_handle \<noteq> None then st
     else if conn_handle \<noteq> 0
     then (let t = (sb_make_track api (sth_full_track_name h) (if sth_is_datagram h then sb_mode_datagram api else sb_mode_stream api)
                     (if priority = 0 then sth_priority h else priority) (track_ttl api h delivery_timeout))
                   \<lparr>pth_laps := True, pth_start_location := start_location\<rparr>;
               r = se_next e;
               e = sub_emit (Sv_Bind_Publisher_Track conn_handle (sth_connection_id h) request_id r)
                     (e\<lparr>se_pub := (se_pub e)\<lparr>pe_tracks := mput r (sb_bind api conn_handle request_id t) (pe_tracks (se_pub e))\<rparr>, se_next := Suc r\<rparr>)
           in Resume (h\<lparr>sth_subscribers := mput conn_handle (Some r) (sth_subscribers h)\<rparr>, e))
     else Resume (h\<lparr>sth_subscribers := mput conn_handle None (sth_subscribers h)\<rparr>, e))"

definition RemoveSubscriber :: "u64 \<Rightarrow> sub_state \<Rightarrow> sub_state" where
  "RemoveSubscriber conn_handle st = (case st of (h, e) \<Rightarrow>
     let (h, e) = (case map_of (sth_subscribers h) conn_handle of
                     None \<Rightarrow> (h, e)
                   | Some w \<Rightarrow> (h\<lparr>sth_subscribers := mdel conn_handle (sth_subscribers h)\<rparr>,
                                if w \<noteq> None then sub_emit (Sv_Unbind_Publisher_Track conn_handle (sth_connection_id h) w) e else e))
     in if sth_subscribers h = [] \<and> sth_sub_namespaces h = [] then Pause (h, e) else (h, e))"

definition STH_HasSubscribers :: "SubscribeTrackHandler \<Rightarrow> bool" where
  "STH_HasSubscribers h \<longleftrightarrow> sth_subscribers h \<noteq> [] \<or> sth_sub_namespaces h \<noteq> []"


section \<open>Received objects\<close>

text \<open>\<open>track_ranking_.lock()\<close>, and the call of \<open>UpdateValue\<close> on it.\<close>

definition ranking_of :: "sub_state \<Rightarrow> TrackRanking option" where
  "ranking_of st = (case sth_track_ranking (fst st) of None \<Rightarrow> None | Some k \<Rightarrow> map_of (se_rankings (snd st)) k)"

definition report_value :: "sub_api \<Rightarrow> u64 option \<Rightarrow> u64 \<Rightarrow> u64 \<Rightarrow> u64 \<Rightarrow> u64 \<Rightarrow> sub_state \<Rightarrow> sub_state \<times> unit res" where
  "report_value api now ta prop recv_value tick st =
     (case (ranking_of st, sth_track_ranking (fst st)) of
        (Some r, Some k) \<Rightarrow>
          (case UpdateValue (sb_pub api) now ta prop recv_value tick (sth_connection_id (fst st))
                  (r, \<lparr>rw_handlers = se_ns (snd st), rw_env = se_pub (snd st)\<rparr>) of
             ((r, w), x) \<Rightarrow> ((fst st, (snd st)\<lparr>se_rankings := mput k r (se_rankings (snd st)), se_ns := rw_handlers w, se_pub := rw_env w\<rparr>), x))
      | _ \<Rightarrow> (st, Inr ()))"

text \<open>The lambda \<open>update\<close>: a changed or old value is stored and reported.\<close>

definition update_property :: "sub_api \<Rightarrow> u64 option \<Rightarrow> u64 \<Rightarrow> u64 \<Rightarrow> u64 \<Rightarrow> sub_state \<Rightarrow> sub_state \<times> unit res" where
  "update_property api now ta prop recv_value st = (case st of (h, e) \<Rightarrow>
     (case map_of (sth_tracked_properties_value h) prop of
        None \<Rightarrow> (st, Inr ())
      | Some v \<Rightarrow>
          (let cur_tick = cur_ticks now in
           if tpv_latest_value v \<noteq> recv_value \<or> kRefreshRankingIntervalMs < cur_tick - tpv_latest_tick_ms v
           then report_value api now ta prop recv_value cur_tick
                  (h\<lparr>sth_tracked_properties_value := mput prop \<lparr>tpv_latest_value = recv_value, tpv_latest_tick_ms = cur_tick\<rparr>
                      (sth_tracked_properties_value h)\<rparr>, e)
           else (st, Inr ()))))"

definition update_from :: "sub_api \<Rightarrow> u64 option \<Rightarrow> u64 \<Rightarrow> u64 \<Rightarrow> bytes list \<Rightarrow> sub_state \<Rightarrow> sub_state \<times> unit res" where
  "update_from api now ta prop vals st = (case vals of
      [] \<Rightarrow> (st, Inl Out_Of_Bounds)
    | v # _ \<Rightarrow> update_property api now ta prop (uv_value (sb_uintvar api) v) st)"

definition UpdateTrackedProperties :: "sub_api \<Rightarrow> u64 option \<Rightarrow> extensions option \<Rightarrow> extensions option \<Rightarrow> sub_state \<Rightarrow> sub_state \<times> unit res" where
  "UpdateTrackedProperties api now exts immutable st =
     (case sth_track_alias (fst st) of
        None \<Rightarrow> (st, Inl Std_Bad_Optional)
      | Some ta \<Rightarrow> (case exts of
          None \<Rightarrow> (st, Inr ())
        | Some ex \<Rightarrow> foreach (\<lambda>(prop, _) st.
              if prop mod 2 \<noteq> 0 then (st, Inr ())
              else case map_of ex prop of
                  Some vals \<Rightarrow> update_from api now ta prop vals st
                | None \<Rightarrow> (case immutable of
                    None \<Rightarrow> (st, Inr ())
                  | Some im \<Rightarrow> (case map_of im prop of
                      None \<Rightarrow> (st, Inr ())
                    | Some vals \<Rightarrow> update_from api now ta prop vals st)))
            (sth_tracked_properties_value (fst st)) st))"

text \<open>A call on a namespace handler of the store.\<close>

definition on_ns :: "nref \<Rightarrow> (pns_state \<Rightarrow> pns_state \<times> nat res) \<Rightarrow> sub_env \<Rightarrow> sub_env \<times> unit res" where
  "on_ns n f e = (case map_of (se_ns e) n of
      None \<Rightarrow> (e, Inl Null_Deref)
    | Some p \<Rightarrow> (case f (p, se_pub e) of ((p', pe), x) \<Rightarrow>
        (e\<lparr>se_ns := mput n p' (se_ns e), se_pub := pe\<rparr>, res_bind x (\<lambda>_. Inr ()))))"

definition each_ns :: "SubscribeTrackHandler \<Rightarrow> (nref \<Rightarrow> sub_env \<Rightarrow> sub_env \<times> unit res) \<Rightarrow> sub_env \<Rightarrow> sub_env \<times> unit res" where
  "each_ns h f e = foreach (\<lambda>(_, conn_subs). foreach (\<lambda>(_, n). f n) conn_subs) (sth_sub_namespaces h) e"

text \<open>A publish handler of a subscriber.\<close>

definition set_track :: "tref \<Rightarrow> PublishTrackHandler \<Rightarrow> sub_env \<Rightarrow> sub_env" where
  "set_track r t e = e\<lparr>se_pub := upd_track r (\<lambda>_. t) (se_pub e)\<rparr>"

definition with_track :: "tref option \<Rightarrow> (tref \<Rightarrow> PublishTrackHandler \<Rightarrow> sub_env \<Rightarrow> sub_env) \<Rightarrow> sub_env \<Rightarrow> sub_env \<times> unit res" where
  "with_track w f e = (case w of
      None \<Rightarrow> (e, Inl Null_Deref)
    | Some r \<Rightarrow> (case lock_track (se_pub e) r of None \<Rightarrow> (e, Inl Null_Deref) | Some t \<Rightarrow> (f r t e, Inr ())))"

definition publish_object :: "sub_api \<Rightarrow> SubscribeTrackHandler \<Rightarrow> ObjectHeaders \<Rightarrow> bytes \<Rightarrow> u64 \<times> tref option \<Rightarrow> sub_env \<Rightarrow> sub_env \<times> unit res" where
  "publish_object api h hdr data sub e =
     (if fst sub = 0 then (e, Inr ())
      else with_track (snd sub) (\<lambda>r t e.
        if \<not> sth_is_datagram h \<and> SentFirstObject t (ucast (oh_group_id hdr)) (ucast (oh_subgroup_id hdr)) then e
        else (let t = q_set_track_mode (sb_pub api) (if sth_is_datagram h then sb_mode_datagram api else sb_mode_stream api) t in
              if fst (pth_start_location t) \<le> oh_group_id hdr \<and> snd (pth_start_location t) \<le> oh_object_id hdr
              then (case q_publish_object (sb_pub api) t (oh_group_id hdr) (oh_subgroup_id hdr) data of (t, _) \<Rightarrow>
                      (set_track r t e)\<lparr>se_pub := pub_emit (Ev_Publish_Object r (oh_group_id hdr) (oh_subgroup_id hdr) data) (se_pub (set_track r t e))\<rparr>)
              else set_track r t e)) e)"

definition clear_pending :: "u64 \<Rightarrow> SubscribeTrackHandler \<Rightarrow> SubscribeTrackHandler" where
  "clear_pending group_id h = (case sth_pending_new_group_request_id h of
      None \<Rightarrow> h
    | Some p \<Rightarrow> if group_id = 0 \<or> p < group_id then h\<lparr>sth_pending_new_group_request_id := None\<rparr> else h)"

definition ObjectReceived :: "sub_api \<Rightarrow> u64 option \<Rightarrow> ObjectHeaders \<Rightarrow> bytes \<Rightarrow> sub_state \<Rightarrow> sub_state \<times> unit res" where
  "ObjectReceived api now hdr data st =
     andthen (UpdateTrackedProperties api now (oh_extensions hdr) (oh_immutable_extensions hdr) st) (\<lambda>_ (h, e).
       (case sth_track_alias h of
          None \<Rightarrow> ((h, e), Inl Std_Bad_Optional)
        | Some ta \<Rightarrow>
            (let h = clear_pending (oh_group_id hdr) h;
                 e = (if sb_disable_cache api then e else sub_emit (Sv_Cache_Object ta hdr data) e)
             in case catch_std (andthen
                  (each_ns h (\<lambda>n. on_ns n (PNS_PublishObject (sb_pub api) ta (oh_group_id hdr) (oh_subgroup_id hdr) (oh_track_mode hdr) data)) e)
                  (\<lambda>_. foreach (publish_object api h hdr data) (sth_subscribers h)))
                of (e, x) \<Rightarrow> ((h, e), x))))"

section \<open>Received bytes\<close>

definition delivery_ttl :: "SubscribeTrackHandler \<Rightarrow> u64" where
  "delivery_ttl h = (case sth_delivery_timeout h of None \<Rightarrow> kDefaultObjectTtl | Some t \<Rightarrow> t)"

definition forward_to :: "sub_api \<Rightarrow> SubscribeTrackHandler \<Rightarrow> u64 \<Rightarrow> u8 \<Rightarrow> bool \<Rightarrow> u64 \<Rightarrow> u64 \<Rightarrow> bytes \<Rightarrow> u64 \<times> tref option \<Rightarrow> sub_env \<Rightarrow> sub_env \<times> unit res" where
  "forward_to api h ta d_type is_new_stream group_id subgroup_id data sub e =
     (if fst sub = 0
      then (sub_emit (Sv_Client_Data_Recv ta (sth_priority h) (delivery_ttl h) d_type group_id subgroup_id data) e, Inr ())
      else with_track (snd sub) (\<lambda>r t e.
        if SentFirstObject t (ucast group_id) (ucast subgroup_id)
        then (case q_forward_data (sb_pub api) t is_new_stream group_id subgroup_id data of (t, _) \<Rightarrow>
                (set_track r t e)\<lparr>se_pub := pub_emit (Ev_Forward_Data r is_new_stream group_id subgroup_id data) (se_pub (set_track r t e))\<rparr>)
        else e) e)"

definition ForwardReceivedData :: "sub_api \<Rightarrow> bool \<Rightarrow> u64 \<Rightarrow> u64 \<Rightarrow> bytes \<Rightarrow> sub_state \<Rightarrow> sub_state \<times> unit res" where
  "ForwardReceivedData api is_new_stream group_id subgroup_id data st = (case st of (h, e) \<Rightarrow>
     (case sth_track_alias h of
        None \<Rightarrow> (st, Inr ())
      | Some ta \<Rightarrow>
          (let d_type = (if sth_is_datagram h then kDatagram else if is_new_stream then kNewStream else kExistingStream);
               h = (if \<not> sth_is_datagram h \<and> is_new_stream \<and> delivery_ttl h = 0
                    then h\<lparr>sth_delivery_timeout := Some (ucast (sb_object_ttl api))\<rparr> else h)
           in case andthen
                (each_ns h (\<lambda>n. on_ns n (PNS_ForwardPublishedData (sb_pub api) ta is_new_stream group_id subgroup_id data)) e)
                (\<lambda>_. foreach (forward_to api h ta d_type is_new_stream group_id subgroup_id data) (sth_subscribers h))
              of (e, x) \<Rightarrow> ((h, e), x))))"

definition stream_of :: "sub_api \<Rightarrow> u64 \<Rightarrow> SubscribeTrackHandler \<Rightarrow> StreamContext" where
  "stream_of api n h = (case map_of (sth_streams h) n of None \<Rightarrow> sb_new_stream api | Some s \<Rightarrow> s)"

definition put_stream :: "u64 \<Rightarrow> StreamContext \<Rightarrow> sub_state \<Rightarrow> sub_state" where
  "put_stream n s st = ((fst st)\<lparr>sth_streams := mput n s (sth_streams (fst st))\<rparr>, snd st)"

definition subgroup_or_0 :: "StreamHeaderSubGroup \<Rightarrow> u64" where
  "subgroup_or_0 shdr = (case shd_subgroup_id shdr of None \<Rightarrow> 0 | Some s \<Rightarrow> s)"

text \<open>The start of a stream: whether the header was complete.\<close>

definition start_stream :: "sub_api \<Rightarrow> u64 \<Rightarrow> bytes \<Rightarrow> sub_state \<Rightarrow> sub_state \<times> bool res" where
  "start_stream api n data st =
     (case sb_read_header api data of
        (shdr, rest, False) \<Rightarrow> (put_stream n ((stream_of api n (fst st))\<lparr>sm_buffer := rest, sm_header := Some shdr, sm_partial := []\<rparr>) st, Inr False)
      | (shdr, rest, True) \<Rightarrow>
          (case sth_track_alias (fst st) of
             None \<Rightarrow> (put_stream n ((stream_of api n (fst st))\<lparr>sm_buffer := rest, sm_header := Some shdr, sm_partial := []\<rparr>) st, Inl Std_Bad_Optional)
           | Some ta \<Rightarrow>
               (let same = ((case sth_received_track_alias (fst st) of None \<Rightarrow> 0 | Some a \<Rightarrow> a) = ta);
                    shdr = (if same then shdr else shdr\<lparr>shd_track_alias := ta\<rparr>);
                    out = (if same then data else sb_write_header api shdr @ drop (length data - length rest) data);
                    s = (stream_of api n (fst st))\<lparr>sm_buffer := rest, sm_header := Some shdr, sm_partial := []\<rparr>
                in andthen (ForwardReceivedData api True (shd_group_id shdr) (subgroup_or_0 shdr) out (put_stream n s st)) (\<lambda>_ st.
                     (put_stream n (s\<lparr>sm_current_group_id := shd_group_id shdr, sm_current_subgroup_id := subgroup_or_0 shdr\<rparr>) st, Inr True)))))"

definition continue_stream :: "sub_api \<Rightarrow> u64 \<Rightarrow> bytes option \<Rightarrow> sub_state \<Rightarrow> sub_state \<times> bool res" where
  "continue_stream api n data st =
     (let s = stream_of api n (fst st) in
      case data of
        None \<Rightarrow> (put_stream n s st, Inr True)
      | Some bs \<Rightarrow>
          andthen (ForwardReceivedData api False (sm_current_group_id s) (sm_current_subgroup_id s) bs (put_stream n s st)) (\<lambda>_ st.
            (put_stream n (s\<lparr>sm_buffer := sm_buffer s @ bs\<rparr>) st, Inr True)))"

definition next_id :: "StreamHeaderSubGroup \<Rightarrow> StreamSubGroupObject \<Rightarrow> StreamContext \<Rightarrow> u64" where
  "next_id shdr obj s = (case sm_next_object_id s of
      None \<Rightarrow> so_object_delta obj
    | Some n \<Rightarrow> if sm_current_group_id s \<noteq> shd_group_id shdr \<or> Some (sm_current_subgroup_id s) \<noteq> shd_subgroup_id shdr
               then so_object_delta obj else n + so_object_delta obj)"

definition stream_headers :: "sub_api \<Rightarrow> StreamHeaderSubGroup \<Rightarrow> u64 \<Rightarrow> u64 \<Rightarrow> StreamSubGroupObject \<Rightarrow> ObjectHeaders" where
  "stream_headers api shdr object_id subgroup_id obj =
     \<lparr>oh_group_id = shd_group_id shdr, oh_object_id = object_id, oh_subgroup_id = subgroup_id, oh_payload_length = length (so_payload obj),
      oh_status = so_status obj, oh_priority = shd_priority shdr, oh_track_mode = Some (sb_mode_stream api),
      oh_extensions = so_extensions obj, oh_immutable_extensions = so_immutable_extensions obj\<rparr>"

text \<open>
  The body of the \<open>while (true)\<close>, which ends with \<open>break\<close>.  The subgroup is read with \<open>value()\<close>
  before the code looks whether it is set.
\<close>

definition parse_object :: "sub_api \<Rightarrow> u64 option \<Rightarrow> bool \<Rightarrow> u64 \<Rightarrow> sub_state \<Rightarrow> sub_state \<times> unit res" where
  "parse_object api now is_start n st =
     (let s = stream_of api n (fst st) in
      case sm_header s of
        None \<Rightarrow> (st, Inl Std_Bad_Any_Cast)
      | Some shdr \<Rightarrow> (case shd_properties shdr of
          None \<Rightarrow> (st, Inl Null_Deref)
        | Some props \<Rightarrow>
            (case sb_read_object api props (sm_partial s) (sm_buffer s) of
               (partial, buf, None) \<Rightarrow> (put_stream n (s\<lparr>sm_partial := partial, sm_buffer := buf\<rparr>) st, Inr ())
             | (partial, buf, Some obj) \<Rightarrow>
                 (let object_id = next_id shdr obj s;
                      s = s\<lparr>sm_partial := partial, sm_buffer := buf, sm_next_object_id := Some object_id, sm_current_group_id := shd_group_id shdr\<rparr>
                  in case shd_subgroup_id shdr of
                       None \<Rightarrow> (put_stream n s st, Inl Std_Bad_Optional)
                     | Some subgroup \<Rightarrow>
                         (let s = s\<lparr>sm_current_subgroup_id := subgroup\<rparr>;
                              st = put_stream n s (clear_pending (shd_group_id shdr) (fst st), snd st)
                          in andthen (ObjectReceived api now (stream_headers api shdr object_id subgroup obj) (so_payload obj) st) (\<lambda>_ st.
                               let st = put_stream n (s\<lparr>sm_next_object_id := Some (object_id + 1), sm_partial := []\<rparr>) st
                               in if buf = [] then (st, Inr ())
                                  else ForwardReceivedData api is_start (shd_group_id shdr) (subgroup_or_0 shdr) buf st))))))"

definition StreamDataRecv :: "sub_api \<Rightarrow> u64 option \<Rightarrow> bool \<Rightarrow> u64 \<Rightarrow> bytes option \<Rightarrow> sub_state \<Rightarrow> sub_state \<times> unit res" where
  "StreamDataRecv api now is_start n data st =
     (let st = ((fst st)\<lparr>sth_is_datagram := False\<rparr>, snd st) in
      andthen
        (if is_start
         then (case data of None \<Rightarrow> (put_stream n (stream_of api n (fst st)) st, Inl Null_Deref) | Some bs \<Rightarrow> start_stream api n bs st)
         else continue_stream api n data st)
        (\<lambda>go st. if go then parse_object api now is_start n st else (st, Inr ())))"

definition DgramDataRecv :: "sub_api \<Rightarrow> u64 option \<Rightarrow> bytes \<Rightarrow> sub_state \<Rightarrow> sub_state \<times> unit res" where
  "DgramDataRecv api now data st =
     (let h = (fst st)\<lparr>sth_is_datagram := True\<rparr>; e = snd st in
      case sb_read_datagram api data of
        None \<Rightarrow> ((h, e), Inr ())
      | Some msg \<Rightarrow>
          (let e = (if map_of (sth_subscribers h) 0 \<noteq> None
                    then sub_emit (Sv_Client_Data_Recv (od_track_alias msg) (sth_priority h) (delivery_ttl h) kDatagram (od_group_id msg) 0 data) e
                    else e)
           in ObjectReceived api now
                \<lparr>oh_group_id = od_group_id msg, oh_object_id = od_object_id msg, oh_subgroup_id = 0, oh_payload_length = length (od_payload msg),
                 oh_status = sb_available api, oh_priority = od_priority msg, oh_track_mode = Some (sb_mode_datagram api),
                 oh_extensions = od_extensions msg, oh_immutable_extensions = None\<rparr>
                (od_payload msg) (h, e)))"

definition end_for :: "sub_api \<Rightarrow> SubscribeTrackHandler \<Rightarrow> u64 \<Rightarrow> u64 \<Rightarrow> bool \<Rightarrow> u64 \<times> tref option \<Rightarrow> sub_env \<Rightarrow> sub_env \<times> unit res" where
  "end_for api h group_id subgroup_id use_reset sub e =
     (if fst sub = 0
      then (case sth_track_alias h of
              None \<Rightarrow> (e, Inr ())
            | Some ta \<Rightarrow> (sub_emit (Sv_Peer_End_Subgroup ta group_id subgroup_id use_reset) e, Inr ()))
      else with_track (snd sub) (\<lambda>r _ e. e\<lparr>se_pub := PTH_EndSubgroup (sb_pub api) r group_id subgroup_id (\<not> use_reset) (se_pub e)\<rparr>) e)"

definition StreamClosed :: "sub_api \<Rightarrow> u64 \<Rightarrow> bool \<Rightarrow> sub_state \<Rightarrow> sub_state \<times> unit res" where
  "StreamClosed api n use_reset st = (case st of (h, e) \<Rightarrow>
     (case map_of (sth_streams h) n of
        None \<Rightarrow> (st, Inr ())
      | Some s \<Rightarrow>
          (case andthen (foreach (end_for api h (sm_current_group_id s) (sm_current_subgroup_id s) use_reset) (sth_subscribers h) e) (\<lambda>_.
              each_ns h (\<lambda>m. on_ns m (\<lambda>ps. (PNS_EndSubgroup (sb_pub api) (sm_current_group_id s) (sm_current_subgroup_id s) (\<not> use_reset) ps, Inr 0))))
           of (e, x) \<Rightarrow> ((if x = Inr () then h\<lparr>sth_streams := mdel n (sth_streams h)\<rparr> else h, e), x))))"

definition SetFromPeer :: "SubscribeTrackHandler \<Rightarrow> SubscribeTrackHandler" where
  "SetFromPeer h = h\<lparr>sth_is_from_peer := True\<rparr>"


section \<open>The table of subscribers\<close>

text \<open>
  The peering manager is subscriber 0 and has no publish handler; every other subscriber has one of its own
  in the store.
\<close>

definition sub_wf :: "sub_state \<Rightarrow> bool" where
  "sub_wf st \<longleftrightarrow> msorted (sth_subscribers (fst st)) \<and> msorted (pe_tracks (se_pub (snd st)))
     \<and> (\<forall>(c, w) \<in> set (sth_subscribers (fst st)). (w = None \<longleftrightarrow> c = 0)
          \<and> (\<forall>r. w = Some r \<longrightarrow> lock_track (se_pub (snd st)) r \<noteq> None \<and> r < se_next (snd st)))
     \<and> distinct (List.map_filter snd (sth_subscribers (fst st)))"

lemma set_map_filter_snd: "r \<in> set (List.map_filter snd m) \<longleftrightarrow> (\<exists>c. (c, Some r) \<in> set m)"
  by (force simp: List.map_filter_def)

lemma map_filter_mput:
  assumes "\<forall>(c, w) \<in> set m. c \<noteq> k"
  shows "set (List.map_filter snd (mput k w m)) = set (List.map_filter snd m) \<union> (case w of None \<Rightarrow> {} | Some r \<Rightarrow> {r})"
    and "distinct (List.map_filter snd m) \<Longrightarrow> (\<And>r. w = Some r \<Longrightarrow> r \<notin> set (List.map_filter snd m)) \<Longrightarrow> distinct (List.map_filter snd (mput k w m))"
proof -
  show a: "set (List.map_filter snd (mput k w m)) = set (List.map_filter snd m) \<union> (case w of None \<Rightarrow> {} | Some r \<Rightarrow> {r})"
    using assms by (induction m) (auto simp: List.map_filter_simps split: option.splits)
  show "distinct (List.map_filter snd m) \<Longrightarrow> (\<And>r. w = Some r \<Longrightarrow> r \<notin> set (List.map_filter snd m)) \<Longrightarrow> distinct (List.map_filter snd (mput k w m))"
    using assms
  proof (induction m)
    case (Cons p m)
    then have i: "distinct (List.map_filter snd (mput k w m))"
      by (auto simp: List.map_filter_simps split: option.splits)
    have "set (List.map_filter snd (mput k w m)) = set (List.map_filter snd m) \<union> (case w of None \<Rightarrow> {} | Some r \<Rightarrow> {r})"
      using Cons.prems(3) by (induction m) (auto simp: List.map_filter_simps split: option.splits)
    then show ?case using Cons.prems i by (auto simp: List.map_filter_simps split: option.splits)
  qed (auto simp: List.map_filter_simps split: option.splits)
qed

lemma distinct_map_filter_mdel: "distinct (List.map_filter snd m) \<Longrightarrow> distinct (List.map_filter snd (mdel k m))"
proof (induction m)
  case (Cons p m)
  have "set (List.map_filter snd (mdel k m)) \<subseteq> set (List.map_filter snd m)"
    by (auto simp: set_map_filter_snd)
  then show ?case using Cons by (auto simp: List.map_filter_simps mdel_def split: option.splits)
qed (simp add: List.map_filter_simps mdel_def)

lemma sub_wf_log [simp]:
  "sub_wf (h, sub_emit ev e) = sub_wf (h, e)" "sub_wf (Resume st) = sub_wf st" "sub_wf (Pause st) = sub_wf st"
  by (cases st; simp add: sub_wf_def sub_emit_def Resume_def Pause_def)+

text \<open>A subscriber is entered once, with a fresh publish handler that starts at the location asked for, and its
  handler is the only thing that changes; removing it undoes it in the table.\<close>

lemma AddSubscriber_wf:
  assumes "sub_wf st"
  shows "sub_wf (AddSubscriber api conn req prio ttl start st)"
proof -
  obtain h e where st: "st = (h, e)" by fastforce
  show ?thesis
  proof (cases "map_of (sth_subscribers h) conn")
    case (Some w)
    then show ?thesis using assms by (simp add: st AddSubscriber_def)
  next
    case None
    then have new: "\<forall>(c, w) \<in> set (sth_subscribers h). c \<noteq> conn" by (force simp: map_of_eq_None_iff)
    have fresh: "se_next e \<notin> set (List.map_filter snd (sth_subscribers h))"
      using assms by (auto simp: st sub_wf_def set_map_filter_snd)
    show ?thesis
      using assms None fresh map_filter_mput(2) [OF new] unfolding st
      by (auto simp: AddSubscriber_def sub_wf_def Let_def sub_emit_def Resume_def set_mput lock_track_def less_Suc_eq split: if_splits)
  qed
qed

lemma RemoveSubscriber_wf: "sub_wf st \<Longrightarrow> sub_wf (RemoveSubscriber conn st)"
proof -
  assume wf: "sub_wf st"
  obtain h e where st: "st = (h, e)" by fastforce
  have "sub_wf (h\<lparr>sth_subscribers := mdel conn (sth_subscribers h)\<rparr>, e)"
    using wf by (auto simp: st sub_wf_def distinct_map_filter_mdel)
  then show ?thesis using wf by (auto simp: RemoveSubscriber_def st Let_def split: option.split)
qed

lemma subscribers_laws:
  "sth_subscribers (fst (RemoveSubscriber conn st)) = mdel conn (sth_subscribers (fst st))"
  "map_of (sth_subscribers (fst (AddSubscriber api conn req prio ttl start st))) c =
     (if c = conn \<and> map_of (sth_subscribers (fst st)) conn = None then Some (if conn = 0 then None else Some (se_next (snd st)))
      else map_of (sth_subscribers (fst st)) c)"
proof -
  show "sth_subscribers (fst (RemoveSubscriber conn st)) = mdel conn (sth_subscribers (fst st))"
    by (auto simp: RemoveSubscriber_def Pause_def Let_def mdel_absent split: option.split prod.split)
  show "map_of (sth_subscribers (fst (AddSubscriber api conn req prio ttl start st))) c =
     (if c = conn \<and> map_of (sth_subscribers (fst st)) conn = None then Some (if conn = 0 then None else Some (se_next (snd st)))
      else map_of (sth_subscribers (fst st)) c)"
    by (simp add: AddSubscriber_def Resume_def Let_def split: prod.split)
qed


section \<open>Fanning out\<close>

text \<open>
  A loop over the subscribers whose body appends to the peering log for the peering manager, and for every
  other subscriber only changes the subscriber's own publish handler and appends what that handler determines.
\<close>

definition outs :: "(tref \<Rightarrow> PublishTrackHandler \<Rightarrow> pub_event list) \<Rightarrow> pub_env \<Rightarrow> u64 \<times> tref option \<Rightarrow> pub_event list" where
  "outs out pub sub = (case snd sub of None \<Rightarrow> [] | Some r \<Rightarrow> (case lock_track pub r of None \<Rightarrow> [] | Some t \<Rightarrow> out r t))"

locale fanout =
  fixes body :: "u64 \<times> tref option \<Rightarrow> sub_env \<Rightarrow> sub_env \<times> unit res"
    and out :: "tref \<Rightarrow> PublishTrackHandler \<Rightarrow> pub_event list" and peer :: "sub_event list"
  assumes peer_body: "body (0, w) e = (e\<lparr>se_log := se_log e @ peer\<rparr>, Inr ())"
    and own_body: "c \<noteq> 0 \<Longrightarrow> msorted (pe_tracks (se_pub e)) \<Longrightarrow> lock_track (se_pub e) r = Some t \<Longrightarrow> \<exists>t'. body (c, Some r) e =
      (e\<lparr>se_pub := (upd_track r (\<lambda>_. t') (se_pub e))\<lparr>pe_log := pe_log (se_pub e) @ out r t\<rparr>\<rparr>, Inr ())"
begin

lemma fanout_all:
  assumes "\<forall>(c, w) \<in> set subs. (w = None \<longleftrightarrow> c = 0) \<and> (\<forall>r. w = Some r \<longrightarrow> lock_track (se_pub e) r \<noteq> None)"
    and "distinct (List.map_filter snd subs)" and "msorted (pe_tracks (se_pub e))"
  shows "\<exists>e'. foreach body subs e = (e', Inr ())
    \<and> pe_log (se_pub e') = pe_log (se_pub e) @ concat (map (outs out (se_pub e)) subs)
    \<and> se_log e' = se_log e @ concat (map (\<lambda>sub. if fst sub = 0 then peer else []) subs)
    \<and> (\<forall>r. r \<notin> set (List.map_filter snd subs) \<longrightarrow> lock_track (se_pub e') r = lock_track (se_pub e) r)
    \<and> msorted (pe_tracks (se_pub e')) \<and> (\<forall>r. lock_track (se_pub e) r \<noteq> None \<longrightarrow> lock_track (se_pub e') r \<noteq> None)
    \<and> se_next e' = se_next e"
  using assms
proof (induction subs arbitrary: e)
  case (Cons sub subs)
  obtain c w where sub: "sub = (c, w)" by fastforce
  show ?case
  proof (cases "c = 0")
    case True
    then have w: "w = None" using Cons.prems(1) by (auto simp: sub)
    let ?e = "e\<lparr>se_log := se_log e @ peer\<rparr>"
    obtain e' where "foreach body subs ?e = (e', Inr ())"
      "pe_log (se_pub e') = pe_log (se_pub ?e) @ concat (map (outs out (se_pub ?e)) subs)"
      "se_log e' = se_log ?e @ concat (map (\<lambda>sub. if fst sub = 0 then peer else []) subs)"
      "\<forall>r. r \<notin> set (List.map_filter snd subs) \<longrightarrow> lock_track (se_pub e') r = lock_track (se_pub ?e) r" "msorted (pe_tracks (se_pub e'))"
      "\<forall>r. lock_track (se_pub ?e) r \<noteq> None \<longrightarrow> lock_track (se_pub e') r \<noteq> None" "se_next e' = se_next ?e"
      using Cons.IH [of ?e] Cons.prems by (auto simp: sub w List.map_filter_simps)
    then show ?thesis using True w by (auto simp: sub peer_body List.map_filter_simps) (simp add: outs_def)
  next
    case False
    then obtain r t where w: "w = Some r" and l: "lock_track (se_pub e) r = Some t" using Cons.prems(1) by (auto simp: sub)
    obtain t' where b: "body (c, Some r) e = (e\<lparr>se_pub := (upd_track r (\<lambda>_. t') (se_pub e))\<lparr>pe_log := pe_log (se_pub e) @ out r t\<rparr>\<rparr>, Inr ())"
      using own_body [OF False Cons.prems(3) l] by blast
    define e1 where "e1 = e\<lparr>se_pub := (upd_track r (\<lambda>_. t') (se_pub e))\<lparr>pe_log := pe_log (se_pub e) @ out r t\<rparr>\<rparr>"
    have lk: "lock_track (se_pub e1) x = (if x = r then Some t' else lock_track (se_pub e) x)" for x
      using l lock_upd_track [of r "\<lambda>_. t'" "se_pub e" x] by (simp add: e1_def lock_track_def)
    have nr: "r \<notin> set (List.map_filter snd subs)" and d: "distinct (List.map_filter snd subs)"
      using Cons.prems(2) by (simp_all add: sub w List.map_filter_simps)
    have o': "map (outs out (se_pub e1)) subs = map (outs out (se_pub e)) subs"
    proof (rule map_cong [OF refl])
      fix x
      assume "x \<in> set subs"
      then have "snd x \<noteq> Some r" using nr by (metis prod.collapse set_map_filter_snd)
      then show "outs out (se_pub e1) x = outs out (se_pub e) x" by (auto simp: outs_def lk split: option.split)
    qed
    have a1: "\<forall>(c, w) \<in> set subs. (w = None \<longleftrightarrow> c = 0) \<and> (\<forall>r. w = Some r \<longrightarrow> lock_track (se_pub e1) r \<noteq> None)"
      using Cons.prems(1) by (auto simp: lk)
    have m1: "msorted (pe_tracks (se_pub e1))" using Cons.prems(3) by (simp add: e1_def upd_track_def split: option.split)
    obtain e' where f: "foreach body subs e1 = (e', Inr ())"
      and lg: "pe_log (se_pub e') = pe_log (se_pub e1) @ concat (map (outs out (se_pub e1)) subs)"
        "se_log e' = se_log e1 @ concat (map (\<lambda>sub. if fst sub = 0 then peer else []) subs)"
      and lo: "\<forall>r. r \<notin> set (List.map_filter snd subs) \<longrightarrow> lock_track (se_pub e') r = lock_track (se_pub e1) r"
      and rest: "msorted (pe_tracks (se_pub e'))" "\<forall>r. lock_track (se_pub e1) r \<noteq> None \<longrightarrow> lock_track (se_pub e') r \<noteq> None"
        "se_next e' = se_next e1"
      using Cons.IH [OF a1 d m1] by blast
    have e1: "pe_log (se_pub e1) = pe_log (se_pub e) @ out r t" "se_log e1 = se_log e" "se_next e1 = se_next e" by (simp_all add: e1_def)
    have "foreach body (sub # subs) e = (e', Inr ())" using f by (simp add: sub w b e1_def)
    moreover have "outs out (se_pub e) sub = out r t" by (simp add: outs_def sub w l)
    moreover have "lock_track (se_pub e') x = lock_track (se_pub e) x" if "x \<notin> set (List.map_filter snd (sub # subs))" for x
      using lo lk [of x] that by (simp add: sub w List.map_filter_simps)
    moreover have "lock_track (se_pub e') x \<noteq> None" if "lock_track (se_pub e) x \<noteq> None" for x
      using rest(2) lk [of x] that by simp
    ultimately show ?thesis using False lg [unfolded o'] e1 rest(1,3) by (intro exI [of _ e']) (simp add: sub)
  qed
qed (simp add: List.map_filter_simps)

end

lemma pub_emit_set_track: "lock_track (se_pub e) r = Some t \<Longrightarrow> (set_track r t' e)\<lparr>se_pub := pub_emit ev (se_pub (set_track r t' e))\<rparr> =
    e\<lparr>se_pub := (upd_track r (\<lambda>_. t') (se_pub e))\<lparr>pe_log := pe_log (se_pub e) @ [ev]\<rparr>\<rparr>"
  by (simp add: set_track_def pub_emit_def upd_track_def)

lemma upd_track_same: "msorted (pe_tracks pub) \<Longrightarrow> lock_track pub r = Some t \<Longrightarrow> upd_track r (\<lambda>_. t) pub = pub"
  by (simp add: upd_track_def lock_track_def mput_same)

text \<open>What \<open>forward_to\<close> and \<open>publish_object\<close> send to a subscriber.\<close>

definition forwarded :: "bool \<Rightarrow> u64 \<Rightarrow> u64 \<Rightarrow> bytes \<Rightarrow> tref \<Rightarrow> PublishTrackHandler \<Rightarrow> pub_event list" where
  "forwarded is_new_stream g s data r t = (if SentFirstObject t (ucast g) (ucast s) then [Ev_Forward_Data r is_new_stream g s data] else [])"

definition published :: "sub_api \<Rightarrow> SubscribeTrackHandler \<Rightarrow> ObjectHeaders \<Rightarrow> bytes \<Rightarrow> tref \<Rightarrow> PublishTrackHandler \<Rightarrow> pub_event list" where
  "published api h hdr data r t =
     (let t' = q_set_track_mode (sb_pub api) (if sth_is_datagram h then sb_mode_datagram api else sb_mode_stream api) t in
      if (sth_is_datagram h \<or> \<not> SentFirstObject t (ucast (oh_group_id hdr)) (ucast (oh_subgroup_id hdr)))
         \<and> fst (pth_start_location t') \<le> oh_group_id hdr \<and> snd (pth_start_location t') \<le> oh_object_id hdr
      then [Ev_Publish_Object r (oh_group_id hdr) (oh_subgroup_id hdr) data] else [])"


interpretation bytes_out: fanout "forward_to api h ta d is_new g s data" "forwarded is_new g s data"
  "[Sv_Client_Data_Recv ta (sth_priority h) (delivery_ttl h) d g s data]" for api h ta d is_new g s data
proof
  fix c :: u64 and e :: sub_env and r t
  assume "c \<noteq> 0" and m: "msorted (pe_tracks (se_pub e))" and l: "lock_track (se_pub e) r = Some t"
  then show "\<exists>t'. forward_to api h ta d is_new g s data (c, Some r) e =
      (e\<lparr>se_pub := (upd_track r (\<lambda>_. t') (se_pub e))\<lparr>pe_log := pe_log (se_pub e) @ forwarded is_new g s data r t\<rparr>\<rparr>, Inr ())"
    using pub_emit_set_track [OF l] upd_track_same [OF m l]
    by (cases "SentFirstObject t (ucast g) (ucast s)")
      (auto simp: forward_to_def with_track_def forwarded_def case_prod_unfold intro: exI [of _ t])
qed (simp add: forward_to_def sub_emit_def)

interpretation objects_out: fanout "publish_object api h hdr data" "published api h hdr data" "[]" for api h hdr data
proof
  fix c :: u64 and e :: sub_env and r t
  assume "c \<noteq> 0" and m: "msorted (pe_tracks (se_pub e))" and l: "lock_track (se_pub e) r = Some t"
  then show "\<exists>t'. publish_object api h hdr data (c, Some r) e =
      (e\<lparr>se_pub := (upd_track r (\<lambda>_. t') (se_pub e))\<lparr>pe_log := pe_log (se_pub e) @ published api h hdr data r t\<rparr>\<rparr>, Inr ())"
    using pub_emit_set_track [OF l] upd_track_same [OF m l]
    by (cases "\<not> sth_is_datagram h \<and> SentFirstObject t (ucast (oh_group_id hdr)) (ucast (oh_subgroup_id hdr))")
      (auto simp: publish_object_def with_track_def published_def case_prod_unfold Let_def set_track_def upd_track_def
        intro: exI [of _ t] split: option.split)
qed (simp add: publish_object_def)

lemma concat_peer:
  assumes "msorted subs"
  shows "concat (map (\<lambda>sub. if fst sub = 0 then peer else []) subs) = (if map_of subs 0 \<noteq> None then peer else [])"
  using assms
proof (induction subs)
  case (Cons p subs)
  show ?case
  proof (cases "fst p = 0")
    case True
    have "map_of subs 0 = None" using Cons.prems True by (force simp: msorted_Cons map_of_eq_None_iff)
    then show ?thesis using Cons True by (cases p) (simp add: msorted_Cons)
  next
    case False
    then show ?thesis using Cons by (cases p) (simp add: msorted_Cons)
  qed
qed simp


section \<open>Properties\<close>

definition peer_recv :: "SubscribeTrackHandler \<Rightarrow> u64 \<Rightarrow> u8 \<Rightarrow> u64 \<Rightarrow> u64 \<Rightarrow> bytes \<Rightarrow> sub_event list" where
  "peer_recv h ta d g s data =
     (if map_of (sth_subscribers h) 0 \<noteq> None then [Sv_Client_Data_Recv ta (sth_priority h) (delivery_ttl h) d g s data] else [])"

text \<open>The handler with the delivery timeout a new stream gives it.\<close>

definition with_timeout :: "sub_api \<Rightarrow> bool \<Rightarrow> SubscribeTrackHandler \<Rightarrow> SubscribeTrackHandler" where
  "with_timeout api is_new h = (if \<not> sth_is_datagram h \<and> is_new \<and> delivery_ttl h = 0
     then h\<lparr>sth_delivery_timeout := Some (ucast (sb_object_ttl api))\<rparr> else h)"

definition data_type :: "bool \<Rightarrow> SubscribeTrackHandler \<Rightarrow> u8" where
  "data_type is_new h = (if sth_is_datagram h then kDatagram else if is_new then kNewStream else kExistingStream)"

lemma with_timeout_same [simp]:
  "sth_subscribers (with_timeout api is_new h) = sth_subscribers h" "sth_sub_namespaces (with_timeout api is_new h) = sth_sub_namespaces h"
  "sth_track_alias (with_timeout api is_new h) = sth_track_alias h" "sth_is_datagram (with_timeout api is_new h) = sth_is_datagram h"
  "sth_streams (with_timeout api is_new h) = sth_streams h" "with_timeout api False h = h"
  by (simp_all add: with_timeout_def)

lemma sub_wf_same: "sth_subscribers h' = sth_subscribers h \<Longrightarrow> sub_wf (h', e) = sub_wf (h, e)"
  by (simp add: sub_wf_def)

lemma ForwardReceivedData_fanout:
  assumes wf: "sub_wf (h, e)" and ta: "sth_track_alias h = Some ta" and ns: "sth_sub_namespaces h = []"
  shows "\<exists>e'. ForwardReceivedData api is_new g s data (h, e) = ((with_timeout api is_new h, e'), Inr ())
    \<and> pe_log (se_pub e') = pe_log (se_pub e) @ concat (map (outs (forwarded is_new g s data) (se_pub e)) (sth_subscribers h))
    \<and> se_log e' = se_log e @ peer_recv (with_timeout api is_new h) ta (data_type is_new h) g s data
    \<and> sub_wf (with_timeout api is_new h, e')"
proof -
  let ?h = "with_timeout api is_new h"
  have eq: "ForwardReceivedData api is_new g s data (h, e) =
      (case foreach (forward_to api ?h ta (data_type is_new h) is_new g s data) (sth_subscribers h) e of (e, x) \<Rightarrow> ((?h, e), x))"
    by (simp add: ForwardReceivedData_def ta with_timeout_def data_type_def Let_def each_ns_def ns)
  have a: "\<forall>(c, w) \<in> set (sth_subscribers h). (w = None \<longleftrightarrow> c = 0) \<and> (\<forall>r. w = Some r \<longrightarrow> lock_track (se_pub e) r \<noteq> None)"
    and d: "distinct (List.map_filter snd (sth_subscribers h))" and m: "msorted (pe_tracks (se_pub e))"
    using wf by (auto simp: sub_wf_def)
  obtain e' where f: "foreach (forward_to api ?h ta (data_type is_new h) is_new g s data) (sth_subscribers h) e = (e', Inr ())"
    and lg: "pe_log (se_pub e') = pe_log (se_pub e) @ concat (map (outs (forwarded is_new g s data) (se_pub e)) (sth_subscribers h))"
      "se_log e' = se_log e @ concat (map (\<lambda>sub. if fst sub = 0
         then [Sv_Client_Data_Recv ta (sth_priority ?h) (delivery_ttl ?h) (data_type is_new h) g s data] else []) (sth_subscribers h))"
    and rest: "msorted (pe_tracks (se_pub e'))" "\<forall>r. lock_track (se_pub e) r \<noteq> None \<longrightarrow> lock_track (se_pub e') r \<noteq> None"
      "se_next e' = se_next e"
    using bytes_out.fanout_all [OF a d m, of api ?h ta "data_type is_new h" is_new g s data] by blast
  have "sub_wf (?h, e')" using wf rest unfolding sub_wf_def by fastforce
  moreover have "msorted (sth_subscribers h)" using wf by (simp add: sub_wf_def)
  note lg(2) [unfolded concat_peer [OF this]]
  ultimately show ?thesis using lg(1) by (simp add: eq f peer_recv_def)
qed

text \<open>C14. Received bytes reach everybody once.  When a track handler whose table of subscribers is in order
  forwards a chunk of a stream (or datagram) and no namespace subscription is involved, every subscriber that
  already has an object of the subgroup gets exactly this chunk, in the order of the connections; a
  subscriber without one gets nothing yet; and the peering manager, if it subscribed, gets the
  chunk with the data type of the stream.  Nothing fails and the table stays in order.\<close>

theorem received_bytes_fanout:
  assumes "sub_wf (h, e)" and "sth_track_alias h = Some ta" and "sth_sub_namespaces h = []"
  shows "\<exists>h' e'. ForwardReceivedData api is_new g s data (h, e) = ((h', e'), Inr ())
    \<and> pe_log (se_pub e') = pe_log (se_pub e) @ concat (map (outs (forwarded is_new g s data) (se_pub e)) (sth_subscribers h))
    \<and> se_log e' = se_log e @ peer_recv h' ta (data_type is_new h) g s data
    \<and> sub_wf (h', e') \<and> sth_subscribers h' = sth_subscribers h"
  using ForwardReceivedData_fanout [OF assms, of api is_new g s data] by fastforce


text \<open>A parser that takes one object of three bytes (delta and two bytes of payload) off a stream whose
  header is four bytes: alias, group, subgroup (255 for none) and properties.\<close>

definition sample_sub_api :: sub_api where
  "sample_sub_api = \<lparr>sb_pub = plain_api, sb_hash = plain_hash, sb_uintvar = quic_varint,
     sb_make_track = (\<lambda>_ _ _ _. \<lparr>pth_laps = True, pth_status = PS_Ok, pth_track_alias = None, pth_streams = [], pth_start_location = (0, 0)\<rparr>),
     sb_bind = (\<lambda>_ _ t. t), sb_mode_stream = 1, sb_mode_datagram = 0,
     sb_new_stream = \<lparr>sm_buffer = [], sm_header = None, sm_partial = [], sm_current_group_id = 0, sm_current_subgroup_id = 0, sm_next_object_id = None\<rparr>,
     sb_read_header = (\<lambda>bs. case bs of
         a # g # s # p # rest \<Rightarrow> (\<lparr>shd_track_alias = ucast a, shd_group_id = ucast g, shd_subgroup_id = (if s = 255 then None else Some (ucast s)),
                                 shd_priority = None, shd_properties = Some (unat p)\<rparr>, rest, True)
       | _ \<Rightarrow> (\<lparr>shd_track_alias = 0, shd_group_id = 0, shd_subgroup_id = None, shd_priority = None, shd_properties = None\<rparr>, bs, False)),
     sb_write_header = (\<lambda>h. [ucast (shd_track_alias h), ucast (shd_group_id h), (case shd_subgroup_id h of None \<Rightarrow> 255 | Some s \<Rightarrow> ucast s),
         (case shd_properties h of None \<Rightarrow> 0 | Some p \<Rightarrow> word_of_nat p)]),
     sb_read_object = (\<lambda>_ partial buf. case partial @ buf of
         d # x # y # rest \<Rightarrow> ([], rest, Some \<lparr>so_object_delta = ucast d, so_payload = [x, y], so_status = 0, so_extensions = None, so_immutable_extensions = None\<rparr>)
       | bs \<Rightarrow> (bs, [], None)),
     sb_read_datagram = (\<lambda>_. None), sb_available = 0, sb_object_ttl = 1000, sb_disable_cache = False\<rparr>"

text \<open>The peering manager and two clients subscribed; the first client is past the first object of group 1,
  subgroup 2.\<close>

definition sample_track :: "(u64, (u64, u64 option) omap) omap \<Rightarrow> PublishTrackHandler" where
  "sample_track streams = \<lparr>pth_laps = True, pth_status = PS_Ok, pth_track_alias = Some 33, pth_streams = streams, pth_start_location = (0, 0)\<rparr>"

definition sample_sub_env :: sub_env where
  "sample_sub_env = \<lparr>se_pub = \<lparr>pe_tracks = [(0, sample_track [(1, [(2, Some 0)])]), (1, sample_track [])], pe_log = []\<rparr>, se_next = 2, se_ns = [], se_rankings = [], se_log = []\<rparr>"

definition sample_stream :: StreamContext where
  "sample_stream = (sb_new_stream sample_sub_api)\<lparr>sm_header := Some \<lparr>shd_track_alias = 33, shd_group_id = 1, shd_subgroup_id = Some 2,
     shd_priority = None, shd_properties = Some 0\<rparr>, sm_current_group_id := 1, sm_current_subgroup_id := 2\<rparr>"

definition sample_handler :: SubscribeTrackHandler where
  "sample_handler = \<lparr>sth_self = 0, sth_full_track_name = ([[1]], [2]), sth_track_alias = Some 33, sth_received_track_alias = Some 33,
     sth_connection_id = 9, sth_priority = 4, sth_delivery_timeout = None, sth_publisher_initiated = True, sth_pending_new_group_request_id = None, sth_pub_last_update = None,
     sth_is_datagram = False, sth_is_from_peer = False, sth_subscribers = [(0, None), (5, Some 0), (6, Some 1)], sth_sub_namespaces = [],
     sth_tracked_properties_value = [], sth_track_ranking = None, sth_streams = [(3, sample_stream)]\<rparr>"

lemma sample_handler_wf: "sub_wf (sample_handler, sample_sub_env)"
  by (simp add: sub_wf_def sample_handler_def sample_sub_env_def msorted_Cons lock_track_def List.map_filter_simps)

theorem received_bytes_fanout_witness:
  "\<exists>h' e'. ForwardReceivedData sample_sub_api False 1 2 [7] (sample_handler, sample_sub_env) = ((h', e'), Inr ())
     \<and> pe_log (se_pub e') = [Ev_Forward_Data 0 False 1 2 [7]]
     \<and> se_log e' = [Sv_Client_Data_Recv 33 (sth_priority h') (delivery_ttl h') kExistingStream 1 2 [7]]"
proof -
  obtain h' e' where f: "ForwardReceivedData sample_sub_api False 1 2 [7] (sample_handler, sample_sub_env) = ((h', e'), Inr ())"
    "pe_log (se_pub e') = pe_log (se_pub sample_sub_env) @ concat (map (outs (forwarded False 1 2 [7]) (se_pub sample_sub_env)) (sth_subscribers sample_handler))"
    "se_log e' = se_log sample_sub_env @ peer_recv h' 33 (data_type False sample_handler) 1 2 [7]" "sth_subscribers h' = sth_subscribers sample_handler"
    using received_bytes_fanout [OF sample_handler_wf, of 33 sample_sub_api False 1 2 "[7]"] by (auto simp: sample_handler_def)
  moreover have "concat (map (outs (forwarded False 1 2 [7]) (se_pub sample_sub_env)) (sth_subscribers sample_handler)) = [Ev_Forward_Data 0 False 1 2 [7]]"
    by (simp add: outs_def sample_sub_env_def sample_handler_def lock_track_def forwarded_def SentFirstObject_def sample_track_def)
  ultimately show ?thesis
    by (simp add: peer_recv_def data_type_def) (simp add: sample_sub_env_def sample_handler_def)
qed


text \<open>The tracked properties of a track that takes part in no ranking: only the stored values change.\<close>

definition only_values :: "sub_state \<Rightarrow> sub_state \<Rightarrow> bool" where
  "only_values st st' \<longleftrightarrow> (ranking_of st = None \<longrightarrow> (\<exists>tp. st' = ((fst st)\<lparr>sth_tracked_properties_value := tp\<rparr>, snd st)))"

lemma only_values_refl: "only_values st st"
  unfolding only_values_def by (cases st) (auto intro: exI [of _ "sth_tracked_properties_value (fst st)"])

lemma ranking_of_values [simp]: "ranking_of (h\<lparr>sth_tracked_properties_value := tp\<rparr>, e) = ranking_of (h, e)"
  by (simp add: ranking_of_def split: option.split)

lemma only_values_ranking: "only_values st st' \<Longrightarrow> ranking_of st = None \<Longrightarrow> ranking_of st' = None"
  by (cases st) (auto simp: only_values_def)

lemma only_values_trans: "only_values a b \<Longrightarrow> only_values b c \<Longrightarrow> only_values a c"
proof -
  assume a: "only_values a b" and b: "only_values b c"
  show ?thesis unfolding only_values_def
  proof
    assume n: "ranking_of a = None"
    then obtain tp where "b = ((fst a)\<lparr>sth_tracked_properties_value := tp\<rparr>, snd a)" using a unfolding only_values_def by blast
    moreover obtain tp' where "c = ((fst b)\<lparr>sth_tracked_properties_value := tp'\<rparr>, snd b)"
      using b only_values_ranking [OF a n] unfolding only_values_def by blast
    ultimately show "\<exists>tp. c = ((fst a)\<lparr>sth_tracked_properties_value := tp\<rparr>, snd a)" by (intro exI [of _ tp']) simp
  qed
qed

lemma report_value_none [simp]: "ranking_of st = None \<Longrightarrow> report_value api now ta prop v tick st = (st, Inr ())"
  by (simp add: report_value_def)

lemma update_property_only:
  assumes "ranking_of st = None"
  shows "only_values st (fst (update_property api now ta prop v st)) \<and> snd (update_property api now ta prop v st) = Inr ()"
proof -
  obtain h e where st: "st = (h, e)" by fastforce
  have "only_values st (h\<lparr>sth_tracked_properties_value := tp\<rparr>, e)" for tp by (auto simp: st only_values_def)
  moreover have "report_value api now ta prop v tick (h\<lparr>sth_tracked_properties_value := tp\<rparr>, e) = ((h\<lparr>sth_tracked_properties_value := tp\<rparr>, e), Inr ())" for tick tp
    using assms by (simp add: st)
  ultimately show ?thesis using only_values_refl [of st] by (simp add: st update_property_def Let_def split: option.split)
qed

definition ext_ok :: "extensions option \<Rightarrow> bool" where
  "ext_ok ex \<longleftrightarrow> (\<forall>m prop vals. ex = Some m \<and> map_of m prop = Some vals \<longrightarrow> vals \<noteq> [])"

lemma update_from_only:
  "ranking_of st = None \<Longrightarrow> only_values st (fst (update_from api now ta prop vals st)) \<and> (vals \<noteq> [] \<longrightarrow> snd (update_from api now ta prop vals st) = Inr ())"
  by (simp add: update_from_def update_property_only only_values_refl split: list.split)

lemma UpdateTrackedProperties_only:
  assumes "sth_track_alias (fst st) = Some ta" and "ranking_of st = None" and "ext_ok ex" and "ext_ok im"
  shows "only_values st (fst (UpdateTrackedProperties api now ex im st)) \<and> snd (UpdateTrackedProperties api now ex im st) = Inr ()"
proof (cases ex)
  case None
  then show ?thesis using assms(1) by (simp add: UpdateTrackedProperties_def only_values_refl)
next
  case (Some m)
  let ?f = "\<lambda>(prop :: u64, _ :: TrackPropertyValue) st.
      if prop mod 2 \<noteq> 0 then (st, Inr ())
      else case map_of m prop of
          Some vals \<Rightarrow> update_from api now ta prop vals st
        | None \<Rightarrow> (case im of
            None \<Rightarrow> (st, Inr ())
          | Some im \<Rightarrow> (case map_of im prop of None \<Rightarrow> (st, Inr ()) | Some vals \<Rightarrow> update_from api now ta prop vals st))"
  have b: "only_values st' (fst (?f x st')) \<and> snd (?f x st') = Inr ()" if "ranking_of st' = None" for x st'
    using assms(3,4) update_from_only [OF that] by (auto simp: Some ext_ok_def only_values_refl split: prod.split option.split)
  have "snd (foreach ?f xs st) = Inr () \<and> (ranking_of (fst (foreach ?f xs st)) = None \<and> only_values st (fst (foreach ?f xs st)))" for xs
    by (rule foreach_inv) (use assms(2) b only_values_refl only_values_trans only_values_ranking in blast)+
  then show ?thesis using assms(1) by (simp add: UpdateTrackedProperties_def Some)
qed

lemma clear_pending_same [simp]:
  "sth_subscribers (clear_pending g h) = sth_subscribers h" "sth_sub_namespaces (clear_pending g h) = sth_sub_namespaces h"
  "sth_is_datagram (clear_pending g h) = sth_is_datagram h" "sth_track_alias (clear_pending g h) = sth_track_alias h"
  "sth_streams (clear_pending g h) = sth_streams h" "sth_track_ranking (clear_pending g h) = sth_track_ranking h" "sth_priority (clear_pending g h) = sth_priority h"
  "sth_delivery_timeout (clear_pending g h) = sth_delivery_timeout h"
  by (simp_all add: clear_pending_def split: option.split)


definition cached :: "sub_api \<Rightarrow> u64 \<Rightarrow> ObjectHeaders \<Rightarrow> bytes \<Rightarrow> sub_event list" where
  "cached api ta hdr data = (if sb_disable_cache api then [] else [Sv_Cache_Object ta hdr data])"

definition same_fanout :: "SubscribeTrackHandler \<Rightarrow> SubscribeTrackHandler \<Rightarrow> bool" where
  "same_fanout h h' \<longleftrightarrow> sth_subscribers h' = sth_subscribers h \<and> sth_sub_namespaces h' = sth_sub_namespaces h
     \<and> sth_track_alias h' = sth_track_alias h \<and> sth_is_datagram h' = sth_is_datagram h \<and> sth_streams h' = sth_streams h
     \<and> sth_priority h' = sth_priority h \<and> sth_delivery_timeout h' = sth_delivery_timeout h"

lemma ObjectReceived_fanout:
  assumes wf: "sub_wf (h, e)" and ta: "sth_track_alias h = Some ta" and ns: "sth_sub_namespaces h = []" and rk: "ranking_of (h, e) = None"
    and ext: "ext_ok (oh_extensions hdr)" "ext_ok (oh_immutable_extensions hdr)"
  shows "\<exists>h' e'. ObjectReceived api now hdr data (h, e) = ((h', e'), Inr ())
    \<and> pe_log (se_pub e') = pe_log (se_pub e) @ concat (map (outs (published api h hdr data) (se_pub e)) (sth_subscribers h))
    \<and> se_log e' = se_log e @ cached api ta hdr data
    \<and> same_fanout h h' \<and> sub_wf (h', e')"
proof -
  obtain h1 e1 where u: "UpdateTrackedProperties api now (oh_extensions hdr) (oh_immutable_extensions hdr) (h, e) = ((h1, e1), Inr ())"
    and o1: "only_values (h, e) (h1, e1)"
    using UpdateTrackedProperties_only [of "(h, e)" ta "oh_extensions hdr" "oh_immutable_extensions hdr" api now] ta ext rk
    by (metis fst_conv prod.collapse)
  then obtain tp where h1: "h1 = h\<lparr>sth_tracked_properties_value := tp\<rparr>" and e1: "e1 = e"
    using rk by (auto simp: only_values_def)
  define h2 where "h2 = clear_pending (oh_group_id hdr) h1"
  define e2 where "e2 = (if sb_disable_cache api then e1 else sub_emit (Sv_Cache_Object ta hdr data) e1)"
  have e2: "se_pub e2 = se_pub e" "se_log e2 = se_log e @ cached api ta hdr data" "se_next e2 = se_next e"
    by (simp_all add: e2_def e1 sub_emit_def cached_def)
  have same: "same_fanout h h2" by (simp add: same_fanout_def h2_def h1)
  then have subs: "sth_subscribers h2 = sth_subscribers h" "sth_sub_namespaces h2 = []" using ns by (simp_all add: same_fanout_def)
  have a: "\<forall>(c, w) \<in> set (sth_subscribers h2). (w = None \<longleftrightarrow> c = 0) \<and> (\<forall>r. w = Some r \<longrightarrow> lock_track (se_pub e2) r \<noteq> None)"
    and d: "distinct (List.map_filter snd (sth_subscribers h2))" and m: "msorted (pe_tracks (se_pub e2))"
    using wf by (auto simp: sub_wf_def subs e2)
  obtain e' where f: "foreach (publish_object api h2 hdr data) (sth_subscribers h2) e2 = (e', Inr ())"
    and lg: "pe_log (se_pub e') = pe_log (se_pub e2) @ concat (map (outs (published api h2 hdr data) (se_pub e2)) (sth_subscribers h2))"
      "se_log e' = se_log e2 @ concat (map (\<lambda>sub. if fst sub = 0 then [] else []) (sth_subscribers h2))"
    and rest: "msorted (pe_tracks (se_pub e'))" "\<forall>r. lock_track (se_pub e2) r \<noteq> None \<longrightarrow> lock_track (se_pub e') r \<noteq> None"
      "se_next e' = se_next e2"
    using objects_out.fanout_all [OF a d m, of api h2 hdr data] by blast
  have p: "published api h2 hdr data = published api h hdr data"
    using same by (simp add: published_def same_fanout_def fun_eq_iff)
  have "ObjectReceived api now hdr data (h, e) = ((h2, e'), Inr ())"
    using f ta ns by (cases "sb_disable_cache api") (simp_all add: ObjectReceived_def u h1 Let_def each_ns_def h2_def e2_def)
  moreover have "sub_wf (h2, e')" using wf rest unfolding sub_wf_def by (auto simp: subs e2)
  moreover have "se_log e' = se_log e2" using lg(2) by (simp add: concat_eq_Nil_conv)
  ultimately show ?thesis using same lg(1) by (auto simp: subs e2 p)
qed

text \<open>C13. A received object is cached and reaches every subscriber that waits for it.  A track handler whose
  table of subscribers is in order receives an object with readable extensions; no namespace subscription and no
  ranking is involved.  The object is published, once and in the order of the connections, to exactly the subscribers whose
  start location it has reached and that have no object of its subgroup on the stream yet (for a datagram: to all
  whose start location it has reached); it enters the cache unless caching is off; nothing else is sent and nothing fails.\<close>

theorem received_object_fanout:
  assumes "sub_wf (h, e)" and "sth_track_alias h = Some ta" and "sth_sub_namespaces h = []" and "ranking_of (h, e) = None"
    and "ext_ok (oh_extensions hdr)" and "ext_ok (oh_immutable_extensions hdr)"
  shows "\<exists>h' e'. ObjectReceived api now hdr data (h, e) = ((h', e'), Inr ())
    \<and> pe_log (se_pub e') = pe_log (se_pub e) @ concat (map (outs (published api h hdr data) (se_pub e)) (sth_subscribers h))
    \<and> se_log e' = se_log e @ cached api ta hdr data \<and> sub_wf (h', e')"
  using ObjectReceived_fanout [OF assms] by blast

theorem received_object_fanout_witness:
  defines "hdr \<equiv> stream_headers sample_sub_api (the (sm_header sample_stream)) 0 2
     \<lparr>so_object_delta = 0, so_payload = [8, 9], so_status = 0, so_extensions = None, so_immutable_extensions = None\<rparr>"
  shows "\<exists>h' e'. ObjectReceived sample_sub_api None hdr [8, 9] (sample_handler, sample_sub_env) = ((h', e'), Inr ())
     \<and> pe_log (se_pub e') = [Ev_Publish_Object 1 1 2 [8, 9]]"
proof -
  have "ext_ok (oh_extensions hdr)" "ext_ok (oh_immutable_extensions hdr)" by (simp_all add: hdr_def stream_headers_def ext_ok_def)
  then obtain h' e' where "ObjectReceived sample_sub_api None hdr [8, 9] (sample_handler, sample_sub_env) = ((h', e'), Inr ())"
    "pe_log (se_pub e') = pe_log (se_pub sample_sub_env) @ concat (map (outs (published sample_sub_api sample_handler hdr [8, 9]) (se_pub sample_sub_env)) (sth_subscribers sample_handler))"
    using received_object_fanout [OF sample_handler_wf, of 33 hdr sample_sub_api None "[8, 9]"] by (auto simp: sample_handler_def ranking_of_def)
  moreover have "concat (map (outs (published sample_sub_api sample_handler hdr [8, 9]) (se_pub sample_sub_env)) (sth_subscribers sample_handler))
      = [Ev_Publish_Object 1 1 2 [8, 9]]"
    by (simp add: outs_def sample_sub_env_def sample_handler_def lock_track_def published_def SentFirstObject_def sample_track_def
        hdr_def stream_headers_def sample_stream_def sample_sub_api_def plain_api_def)
  ultimately show ?thesis by (simp add: sample_sub_env_def)
qed


lemma put_stream_same [simp]:
  "sth_subscribers (fst (put_stream n s st)) = sth_subscribers (fst st)" "sth_sub_namespaces (fst (put_stream n s st)) = sth_sub_namespaces (fst st)"
  "sth_track_alias (fst (put_stream n s st)) = sth_track_alias (fst st)" "sth_is_datagram (fst (put_stream n s st)) = sth_is_datagram (fst st)"
  "sth_priority (fst (put_stream n s st)) = sth_priority (fst st)" "sth_delivery_timeout (fst (put_stream n s st)) = sth_delivery_timeout (fst st)"
  "sth_track_ranking (fst (put_stream n s st)) = sth_track_ranking (fst st)" "snd (put_stream n s st) = snd st" "stream_of api n (fst (put_stream n s st)) = s"
  by (simp_all add: put_stream_def stream_of_def)

lemma put_stream_pair: "put_stream n s st = (fst (put_stream n s st), snd st)"
  by (simp add: put_stream_def)

lemma peer_recv_cong:
  "sth_subscribers h' = sth_subscribers h \<Longrightarrow> sth_priority h' = sth_priority h \<Longrightarrow> sth_delivery_timeout h' = sth_delivery_timeout h \<Longrightarrow>
    peer_recv h' = peer_recv h"
  by (simp add: peer_recv_def delivery_ttl_def fun_eq_iff)

definition parsed :: "StreamHeaderSubGroup \<Rightarrow> StreamSubGroupObject \<Rightarrow> bytes \<Rightarrow> bytes \<Rightarrow> u64 \<Rightarrow> StreamContext \<Rightarrow> StreamContext" where
  "parsed shdr obj partial buf subgroup s = s\<lparr>sm_partial := partial, sm_buffer := buf, sm_next_object_id := Some (next_id shdr obj s),
     sm_current_group_id := shd_group_id shdr\<rparr>\<lparr>sm_current_subgroup_id := subgroup\<rparr>"

lemma parse_object_complete:
  assumes "stream_of api n (fst st) = s" and "sm_header s = Some shdr" and "shd_properties shdr = Some props" and "shd_subgroup_id shdr = Some subgroup"
    and "sb_read_object api props (sm_partial s) (sm_buffer s) = (partial, buf, Some obj)" and "buf \<noteq> []"
  shows "parse_object api now is_start n st =
    andthen (ObjectReceived api now (stream_headers api shdr (next_id shdr obj s) subgroup obj) (so_payload obj)
        (put_stream n (parsed shdr obj partial buf subgroup s) (clear_pending (shd_group_id shdr) (fst st), snd st))) (\<lambda>_ st.
      ForwardReceivedData api is_start (shd_group_id shdr) subgroup buf
        (put_stream n ((parsed shdr obj partial buf subgroup s)\<lparr>sm_next_object_id := Some (next_id shdr obj s + 1), sm_partial := []\<rparr>) st))"
  using assms by (simp add: parse_object_def parsed_def Let_def subgroup_or_0_def)

text \<open>One chunk of a running stream that ends an object: forwarded, parsed, cached, and what is behind the
  object forwarded again.\<close>

lemma StreamDataRecv_object:
  assumes wf: "sub_wf (h, e)" and ta: "sth_track_alias h = Some ta" and ns: "sth_sub_namespaces h = []" "sth_track_ranking h = None"
    and s: "map_of (sth_streams h) n = Some s" "sm_header s = Some shdr" "shd_properties shdr = Some props" "shd_subgroup_id shdr = Some subgroup"
    and obj: "sb_read_object api props (sm_partial s) (sm_buffer s @ bs) = (partial, buf, Some obj)"
    and ext: "ext_ok (so_extensions obj)" "ext_ok (so_immutable_extensions obj)" and buf: "buf \<noteq> []"
  shows "\<exists>h' e' hdr. StreamDataRecv api now False n (Some bs) (h, e) = ((h', e'), Inr ())
    \<and> se_log e' = se_log e @ peer_recv h ta kExistingStream (sm_current_group_id s) (sm_current_subgroup_id s) bs
        @ cached api ta hdr (so_payload obj) @ peer_recv h ta kExistingStream (shd_group_id shdr) subgroup buf"
proof -
  define h0 where "h0 = fst (put_stream n s (h\<lparr>sth_is_datagram := False\<rparr>, e))"
  have h0: "sth_subscribers h0 = sth_subscribers h" "sth_sub_namespaces h0 = []" "sth_track_ranking h0 = None" "sth_track_alias h0 = Some ta" "\<not> sth_is_datagram h0"
    "sth_priority h0 = sth_priority h" "sth_delivery_timeout h0 = sth_delivery_timeout h"
    using ta ns by (simp_all add: h0_def)
  obtain e1 where f1: "ForwardReceivedData api False (sm_current_group_id s) (sm_current_subgroup_id s) bs (h0, e) = ((h0, e1), Inr ())"
    and l1: "se_log e1 = se_log e @ peer_recv h0 ta kExistingStream (sm_current_group_id s) (sm_current_subgroup_id s) bs" and w1: "sub_wf (h0, e1)"
    using ForwardReceivedData_fanout [of h0 e ta api False "sm_current_group_id s" "sm_current_subgroup_id s" bs] h0 wf sub_wf_same [of h0 h e]
    by (auto simp: data_type_def)
  let ?s1 = "s\<lparr>sm_buffer := sm_buffer s @ bs\<rparr>"
  have c: "continue_stream api n (Some bs) (h\<lparr>sth_is_datagram := False\<rparr>, e) = (put_stream n ?s1 (h0, e1), Inr True)"
    using f1 s(1) put_stream_pair [of n s "(h\<lparr>sth_is_datagram := False\<rparr>, e)"] by (simp add: continue_stream_def stream_of_def h0_def)
  let ?id = "next_id shdr obj ?s1"
  let ?s2 = "parsed shdr obj partial buf subgroup ?s1"
  define h2 where "h2 = fst (put_stream n ?s2 (clear_pending (shd_group_id shdr) (fst (put_stream n ?s1 (h0, e1))), e1))"
  let ?hdr = "stream_headers api shdr ?id subgroup obj"
  have h2: "sth_subscribers h2 = sth_subscribers h" "sth_sub_namespaces h2 = []" "sth_track_ranking h2 = None" "sth_track_alias h2 = Some ta" "\<not> sth_is_datagram h2"
    "sth_priority h2 = sth_priority h" "sth_delivery_timeout h2 = sth_delivery_timeout h"
    using h0 by (simp_all add: h2_def)
  have "sub_wf (h2, e1)" using w1 sub_wf_same [of h2 h0 e1] h0 h2 by simp
  then obtain h3 e3 where o3: "ObjectReceived api now ?hdr (so_payload obj) (h2, e1) = ((h3, e3), Inr ())"
    and l3: "se_log e3 = se_log e1 @ cached api ta ?hdr (so_payload obj)"
    and same: "same_fanout h2 h3" and w3: "sub_wf (h3, e3)"
    using ObjectReceived_fanout [of h2 e1 ta ?hdr api now "so_payload obj"] h2 ext by (auto simp: stream_headers_def ranking_of_def)
  define h4 where "h4 = fst (put_stream n (?s2\<lparr>sm_next_object_id := Some (?id + 1), sm_partial := []\<rparr>) (h3, e3))"
  have h4: "sth_subscribers h4 = sth_subscribers h" "sth_sub_namespaces h4 = []" "sth_track_alias h4 = Some ta" "\<not> sth_is_datagram h4"
    "sth_priority h4 = sth_priority h" "sth_delivery_timeout h4 = sth_delivery_timeout h"
    using same h2 by (simp_all add: h4_def same_fanout_def)
  have "sub_wf (h4, e3)" using w3 sub_wf_same [of h4 h3 e3] by (simp add: h4_def)
  then obtain e4 where f4: "ForwardReceivedData api False (shd_group_id shdr) subgroup buf (h4, e3) = ((h4, e4), Inr ())"
    and l4: "se_log e4 = se_log e3 @ peer_recv h4 ta kExistingStream (shd_group_id shdr) subgroup buf"
    using ForwardReceivedData_fanout [of h4 e3 ta api False "shd_group_id shdr" subgroup buf] h4 by (auto simp: data_type_def)
  have "put_stream n ?s2 (clear_pending (shd_group_id shdr) (fst (put_stream n ?s1 (h0, e1))), e1) = (h2, e1)"
    "put_stream n (?s2\<lparr>sm_next_object_id := Some (?id + 1), sm_partial := []\<rparr>) (h3, e3) = (h4, e3)"
    by (simp_all add: h2_def h4_def prod_eq_iff)
  then have "parse_object api now False n (put_stream n ?s1 (h0, e1)) = ((h4, e4), Inr ())"
    using parse_object_complete [of api n "put_stream n ?s1 (h0, e1)" ?s1 shdr props subgroup partial buf obj now False] s obj buf o3 f4 by simp
  then have "StreamDataRecv api now False n (Some bs) (h, e) = ((h4, e4), Inr ())" by (simp add: StreamDataRecv_def Let_def c)
  moreover have "peer_recv h0 = peer_recv h" "peer_recv h4 = peer_recv h" using h0 h4 by (auto intro: peer_recv_cong)
  ultimately show ?thesis using l1 l3 l4 by (intro exI [of _ h4] exI [of _ e4] exI [of _ ?hdr]) simp
qed


text \<open>The peers get some bytes twice.  A chunk of a running stream ends an object and holds the start of the
  next one, and the peering manager is a subscriber.  It first gets the whole chunk and, after the object has been
  parsed, once more the bytes behind the object, as data of the same stream.\<close>

theorem bytes_behind_object_sent_twice:
  assumes "sub_wf (h, e)" and "sth_track_alias h = Some ta" and "sth_sub_namespaces h = []" and "sth_track_ranking h = None"
    and "map_of (sth_subscribers h) 0 \<noteq> None"
    and "map_of (sth_streams h) n = Some s" and "sm_header s = Some shdr" and "shd_properties shdr = Some props"
    and "shd_subgroup_id shdr = Some (sm_current_subgroup_id s)" and "shd_group_id shdr = sm_current_group_id s"
    and "sb_read_object api props (sm_partial s) (sm_buffer s @ used @ behind) = (partial, behind, Some obj)"
    and "ext_ok (so_extensions obj)" and "ext_ok (so_immutable_extensions obj)" and "behind \<noteq> []"
  defines "to_peers \<equiv> Sv_Client_Data_Recv ta (sth_priority h) (delivery_ttl h) kExistingStream (sm_current_group_id s) (sm_current_subgroup_id s)"
  shows "\<exists>st' evs. StreamDataRecv api now False n (Some (used @ behind)) (h, e) = (st', Inr ())
    \<and> se_log (snd st') = se_log e @ [to_peers (used @ behind)] @ evs @ [to_peers behind]"
proof -
  obtain h' e' hdr where "StreamDataRecv api now False n (Some (used @ behind)) (h, e) = ((h', e'), Inr ())"
    "se_log e' = se_log e @ peer_recv h ta kExistingStream (sm_current_group_id s) (sm_current_subgroup_id s) (used @ behind)
        @ cached api ta hdr (so_payload obj) @ peer_recv h ta kExistingStream (shd_group_id shdr) (sm_current_subgroup_id s) behind"
    using StreamDataRecv_object [OF assms(1-4,6-9) assms(11-14), of now] by blast
  then show ?thesis
    using assms(5,10) by (intro exI [of _ "(h', e')"] exI [of _ "cached api ta hdr (so_payload obj)"]) (simp add: peer_recv_def to_peers_def)
qed

theorem bytes_behind_object_sent_twice_witness:
  "\<exists>st' evs. StreamDataRecv sample_sub_api None False 3 (Some [0, 8, 9, 0, 7]) (sample_handler, sample_sub_env) = (st', Inr ())
     \<and> se_log (snd st') = [Sv_Client_Data_Recv 33 4 5000 kExistingStream 1 2 [0, 8, 9, 0, 7]] @ evs @ [Sv_Client_Data_Recv 33 4 5000 kExistingStream 1 2 [0, 7]]"
proof -
  let ?shdr = "\<lparr>shd_track_alias = 33, shd_group_id = 1, shd_subgroup_id = Some 2, shd_priority = None, shd_properties = Some 0\<rparr>"
  let ?obj = "\<lparr>so_object_delta = 0, so_payload = [8, 9], so_status = 0, so_extensions = None, so_immutable_extensions = None\<rparr>"
  have "sb_read_object sample_sub_api 0 (sm_partial sample_stream) (sm_buffer sample_stream @ [0, 8, 9] @ [0, 7]) = ([], [0, 7], Some ?obj)"
    by (simp add: sample_sub_api_def sample_stream_def)
  moreover have "sm_header sample_stream = Some ?shdr" "sm_current_group_id sample_stream = 1" "sm_current_subgroup_id sample_stream = 2"
    by (simp_all add: sample_stream_def)
  ultimately show ?thesis
    using bytes_behind_object_sent_twice [OF sample_handler_wf, of 33 3 sample_stream ?shdr 0 sample_sub_api "[0, 8, 9]" "[0, 7]" "[]" ?obj None]
    by (simp add: ext_ok_def) (simp add: sample_handler_def delivery_ttl_def kDefaultObjectTtl_def sample_sub_env_def)
qed

text \<open>A subgroup that is named by its first object cannot be received.  When the header of a stream has no
  subgroup identifier and an object is complete, the handler throws \<open>std::bad_optional_access\<close> before the
  code that would take the identifier from the object; the object is neither cached nor published.\<close>

theorem subgroup_of_first_object_throws:
  assumes "sm_header (stream_of api n (fst st)) = Some shdr" and "shd_properties shdr = Some props" and "shd_subgroup_id shdr = None"
    and "sb_read_object api props (sm_partial (stream_of api n (fst st))) (sm_buffer (stream_of api n (fst st))) = (partial, buf, Some obj)"
  shows "snd (parse_object api now is_start n st) = Inl Std_Bad_Optional \<and> snd (fst (parse_object api now is_start n st)) = snd st"
  using assms by (simp add: parse_object_def Let_def)

theorem subgroup_of_first_object_throws_witness:
  "snd (parse_object sample_sub_api None True 3
     (put_stream 3 (sample_stream\<lparr>sm_header := Some (fst (sb_read_header sample_sub_api [33, 1, 255, 0])), sm_buffer := [0, 8, 9]\<rparr>)
        (sample_handler, sample_sub_env))) = Inl Std_Bad_Optional"
proof -
  let ?s = "sample_stream\<lparr>sm_header := Some (fst (sb_read_header sample_sub_api [33, 1, 255, 0])), sm_buffer := [0, 8, 9]\<rparr>"
  show ?thesis
    using subgroup_of_first_object_throws [of sample_sub_api 3 "put_stream 3 ?s (sample_handler, sample_sub_env)" _ 0 "[]" "[]"
        "\<lparr>so_object_delta = 0, so_payload = [8, 9], so_status = 0, so_extensions = None, so_immutable_extensions = None\<rparr>" None True]
    by (simp add: sample_sub_api_def sample_stream_def)
qed

end
