(* ===== verification/Client_Manager.thy ===== *)
theory Client_Manager
  imports Subscribe_Handler Peer_Forward
begin

text \<open>
  The client side of the relay: \<open>src/src/client_manager.{h,cc}\<close> on the shared state of
  \<open>src/src/state.h\<close>.  Clients announce namespaces, publish and subscribe tracks; the manager keeps, for
  every track and publisher connection, a \<open>SubscribeTrackHandler\<close> (theory \<open>Subscribe_Handler\<close>) and
  adds the subscribers to it, and tells the peering manager (theories \<open>Peer_Manager\<close> and \<open>Peer_Forward\<close>) what
  its clients announce and subscribe.

  The peering manager is part of the state and is really called; the two tables of \<open>State\<close> that both
  managers use, \<open>pub_namespace_active\<close> and \<open>pub_subscribes\<close>, are the ones in it.  Handlers are
  shared objects, named by number in a store.  Calls of libquicr's server are entries of a log; what they
  do to a handler is in the record \<open>cm_api\<close>.  A call of \<open>ClientAnnounce\<close> calls \<open>ProcessSubscribe\<close> back
  for every subscribe of a peer that matches: the model runs these calls when \<open>ClientAnnounce\<close> returns, which is the
  same, as the called function (for connection and request 0) does not call the peering manager and the peering
  manager does not read what it changes.
\<close>

section \<open>State\<close>

type_synonym loc = "u64 \<times> u64"
type_synonym track_name = "bytes list \<times> bytes"
type_synonym shref = nat

record SubscribeAttributes =
  sa_priority :: u8
  sa_group_order :: "u64 option"
  sa_delivery_timeout :: u64
  sa_start_location :: loc
  sa_new_group_request_id :: "u64 option"
  sa_is_publisher_initiated :: bool

record PublishAttributes =
  pa_track_full_name :: track_name
  pa_track_alias :: u64
  pa_priority :: u8
  pa_delivery_timeout :: u64
  pa_start_location :: loc
  pa_dynamic_groups :: bool

record SubscribePublishHandlerInfo =
  sp_track_full_name :: track_name
  sp_track_alias :: u64
  sp_request_id :: u64
  sp_priority :: u8
  sp_object_ttl :: u32
  sp_group_order :: "u64 option"
  sp_start_location :: loc

text \<open>\<open>State::SubscribeInfo\<close>, which is ordered by connection and request.\<close>

record ActiveSubscribe =
  as_connection_handle :: u64
  as_request_id :: u64
  as_track_alias :: u64
  as_priority :: u8
  as_delivery_timeout :: u64
  as_start_location :: loc

datatype cm_event =
    Cv_Resolve_Publish_Namespace u64 u64 "bytes list" "u64 list"
  | Cv_Resolve_Publish_Namespace_Done u64 u64 "u64 list"
  | Cv_Resolve_Publish u64 u64 shref
  | Cv_Resolve_Subscribe_Namespace u64 u64 u64 "bytes list" "bytes list list"
  | Cv_Resolve_Subscribe u64 u64 u64 bool "loc option"       \<comment> \<open>connection, request, alias, ok, largest\<close>
  | Cv_Resolve_Track_Status u64 u64 bool bool "loc option"   \<comment> \<open>connection, request, ok, publisher initiated, largest\<close>
  | Cv_Subscribe_Track u64 shref
  | Cv_Unsubscribe_Track u64 shref
  | Cv_Update_Track_Subscription u64 shref
  | Cv_Request_New_Group shref
  | Cv_Support_New_Group_Request shref
  | Cv_Publish_Namespace u64 nref

record ClientManager =
  cm_requests :: "(u64 \<times> u64, bytes list) omap"            \<comment> \<open>(connection, request): the namespace\<close>
  cm_pub_subscribes_by_req_id :: "(u64 \<times> u64, shref) omap" \<comment> \<open>(request, connection)\<close>
  cm_subscribes_namespaces :: "(bytes list, (u64, nref) omap) omap"
  cm_subscribes :: "(u64 \<times> u64, SubscribePublishHandlerInfo) omap"   \<comment> \<open>(alias, connection)\<close>
  cm_subscribe_alias_req_id :: "(u64 \<times> u64, u64) omap"     \<comment> \<open>(connection, request): the alias\<close>
  cm_subscribe_active :: "(bytes list \<times> u64, ActiveSubscribe list) omap"
  cm_track_rankings :: "(u64, kref) omap"
  cm_handlers :: "(shref, SubscribeTrackHandler) omap"
  cm_next_handler :: shref
  cm_next_ns :: nref
  cm_next_ranking :: kref
  cm_env :: sub_env
  cm_peer :: PeerManager
  cm_log :: "cm_event list"

record cm_api =
  c_sub :: sub_api
  c_quicr :: quicr_api
  c_is_prefix_of :: "bytes list \<Rightarrow> bytes list \<Rightarrow> bool"      \<comment> \<open>\<open>IsPrefixOf\<close> is \<open>less\<close> or \<open>equivalent\<close>\<close>
  c_new_handler :: "track_name \<Rightarrow> bool \<Rightarrow> SubscribeTrackHandler"   \<comment> \<open>base class constructor\<close>
  c_subscribe_track :: "u64 \<Rightarrow> SubscribeTrackHandler \<Rightarrow> SubscribeTrackHandler"
  c_resolve_publish :: "u64 \<Rightarrow> u64 \<Rightarrow> SubscribeTrackHandler \<Rightarrow> SubscribeTrackHandler"
  c_request_id :: "cm_event list \<Rightarrow> u64 option"            \<comment> \<open>of the handler subscribed last\<close>
  c_cache_last :: "sub_event list \<Rightarrow> u64 \<Rightarrow> (ObjectHeaders \<times> bytes) list option"   \<comment> \<open>the last group of a track\<close>
  c_default_attributes :: SubscribeAttributes
  c_group_order_param :: param_type
  c_publish_namespace :: "u64 \<Rightarrow> PublishNamespaceHandler \<Rightarrow> PublishNamespaceHandler"   \<comment> \<open>\<open>Server::PublishNamespace\<close>\<close>
  c_set_new_group :: "u64 \<Rightarrow> SubscribeTrackHandler \<Rightarrow> SubscribeTrackHandler"   \<comment> \<open>\<open>SetNewGroupRequestId\<close>\<close>
  c_new_group_update :: "u64 option"     \<comment> \<open>\<open>new_group_request_id\<close> of the attributes in \<open>NewGroupRequested\<close>\<close>
  c_sub_dampen_ms :: u32
  c_allow_self :: bool
  c_detached_subs :: bool

type_synonym 'a cm_res = "ClientManager \<times> 'a res"

abbreviation cm_ok :: "ClientManager \<Rightarrow> unit cm_res" where
  "cm_ok cm \<equiv> (cm, Inr ())"

definition cm_emit :: "cm_event \<Rightarrow> ClientManager \<Rightarrow> ClientManager" where
  "cm_emit ev cm = cm\<lparr>cm_log := cm_log cm @ [ev]\<rparr>"

definition track_hash :: "cm_api \<Rightarrow> track_name \<Rightarrow> TrackHash" where
  "track_hash api tn = h_track (q_hash (c_quicr api)) (fst tn) (snd tn)"

text \<open>The tables that the two managers share.\<close>

definition pub_subscribes :: "ClientManager \<Rightarrow> (u64 \<times> u64, shref) omap" where
  "pub_subscribes cm = st_pub_subscribes (pm_state (cm_peer cm))"

definition set_pub_subscribes :: "(u64 \<times> u64, shref) omap \<Rightarrow> ClientManager \<Rightarrow> ClientManager" where
  "set_pub_subscribes m cm = cm\<lparr>cm_peer := (cm_peer cm)\<lparr>pm_state := (pm_state (cm_peer cm))\<lparr>st_pub_subscribes := m\<rparr>\<rparr>\<rparr>"

definition pub_namespace_active :: "ClientManager \<Rightarrow> (bytes list \<times> u64, u64 list) omap" where
  "pub_namespace_active cm = st_pub_namespace_active (pm_state (cm_peer cm))"

definition set_pub_namespace_active :: "(bytes list \<times> u64, u64 list) omap \<Rightarrow> ClientManager \<Rightarrow> ClientManager" where
  "set_pub_namespace_active m cm = cm\<lparr>cm_peer := (cm_peer cm)\<lparr>pm_state := (pm_state (cm_peer cm))\<lparr>st_pub_namespace_active := m\<rparr>\<rparr>\<rparr>"

text \<open>A call on a handler, a namespace handler, the peering manager.\<close>

definition on_handler :: "shref \<Rightarrow> (sub_state \<Rightarrow> sub_state \<times> unit res) \<Rightarrow> ClientManager \<Rightarrow> unit cm_res" where
  "on_handler r f cm = (case map_of (cm_handlers cm) r of
      None \<Rightarrow> (cm, Inl Null_Deref)
    | Some h \<Rightarrow> (case f (h, cm_env cm) of ((h', e), x) \<Rightarrow> (cm\<lparr>cm_handlers := mput r h' (cm_handlers cm), cm_env := e\<rparr>, x)))"

definition handler_do :: "shref \<Rightarrow> (sub_state \<Rightarrow> sub_state) \<Rightarrow> ClientManager \<Rightarrow> unit cm_res" where
  "handler_do r f = on_handler r (\<lambda>st. (f st, Inr ()))"

definition with_handler :: "shref \<Rightarrow> (SubscribeTrackHandler \<Rightarrow> ClientManager \<Rightarrow> 'a cm_res) \<Rightarrow> ClientManager \<Rightarrow> 'a cm_res" where
  "with_handler r f cm = (case map_of (cm_handlers cm) r of None \<Rightarrow> (cm, Inl Null_Deref) | Some h \<Rightarrow> f h cm)"

definition on_peer :: "(PeerManager \<Rightarrow> unit pm_res) \<Rightarrow> ClientManager \<Rightarrow> unit cm_res" where
  "on_peer f cm = (case f (cm_peer cm) of (pm, x) \<Rightarrow> (cm\<lparr>cm_peer := pm\<rparr>, x))"

text \<open>\<open>std::make_shared<SubscribeTrackHandler>\<close>\<close>

definition new_handler :: "cm_api \<Rightarrow> track_name \<Rightarrow> bool \<Rightarrow> ClientManager \<Rightarrow> ClientManager \<times> shref" where
  "new_handler api tn publisher_initiated cm =
     (cm\<lparr>cm_handlers := mput (cm_next_handler cm)
           ((SubscribeTrackHandler_make (c_new_handler api tn publisher_initiated))\<lparr>sth_self := cm_next_handler cm\<rparr>) (cm_handlers cm),
         cm_next_handler := Suc (cm_next_handler cm)\<rparr>, cm_next_handler cm)"

section \<open>Subscribing\<close>

definition DampenOrUpdateTrackSubscription :: "cm_api \<Rightarrow> u64 \<Rightarrow> shref \<Rightarrow> bool \<Rightarrow> ClientManager \<Rightarrow> unit cm_res" where
  "DampenOrUpdateTrackSubscription api now r new_group_request = with_handler r (\<lambda>h cm.
     if sth_connection_id h \<le> 1 then cm_ok cm
     else (let elapsed = (case sth_pub_last_update h of None \<Rightarrow> ucast (c_sub_dampen_ms api + 1) | Some t \<Rightarrow> now - t) in
           if new_group_request \<or> ucast (c_sub_dampen_ms api) < elapsed
           then (if sth_track_alias h = None then (cm, Inl Std_Bad_Optional)
                 else andthen (handler_do r (\<lambda>st. ((fst st)\<lparr>sth_pub_last_update := Some now\<rparr>, snd st)) cm) (\<lambda>_ cm.
                   cm_ok (cm_emit (if new_group_request then Cv_Request_New_Group r
                                   else Cv_Update_Track_Subscription (sth_connection_id h) r) cm)))
           else cm_ok cm))"

definition insert_active :: "ActiveSubscribe \<Rightarrow> ActiveSubscribe list \<Rightarrow> ActiveSubscribe list" where
  "insert_active a xs =
     (let key = (\<lambda>x. (as_connection_handle x, as_request_id x)) in
      if key a \<in> key ` set xs then xs
      else takeWhile (\<lambda>x. key x < key a) xs @ a # dropWhile (\<lambda>x. key x < key a) xs)"

text \<open>The subscribe as it is recorded, and as it goes to the peers.\<close>

definition record_subscribe :: "u64 \<Rightarrow> u64 \<Rightarrow> TrackHash \<Rightarrow> track_name \<Rightarrow> SubscribeAttributes \<Rightarrow> ClientManager \<Rightarrow> ClientManager" where
  "record_subscribe conn req th tn attrs cm =
     (let key = (fst tn, th_name th);
          a = \<lparr>as_connection_handle = conn, as_request_id = req, as_track_alias = th_fullname th, as_priority = sa_priority attrs,
               as_delivery_timeout = sa_delivery_timeout attrs, as_start_location = sa_start_location attrs\<rparr>
      in cm\<lparr>cm_subscribe_active := mput key (insert_active a (mat [] (cm_subscribe_active cm) key)) (cm_subscribe_active cm),
            cm_subscribe_alias_req_id := mput (conn, req) (th_fullname th) (cm_subscribe_alias_req_id cm),
            cm_subscribes := fst (mtry (th_fullname th, conn)
              \<lparr>sp_track_full_name = tn, sp_track_alias = th_fullname th, sp_request_id = req, sp_priority = sa_priority attrs,
               sp_object_ttl = ucast (sa_delivery_timeout attrs), sp_group_order = sa_group_order attrs, sp_start_location = (0, 0)\<rparr>
              (cm_subscribes cm))\<rparr>)"

definition subscribe_message_bytes :: "cm_api \<Rightarrow> u64 \<Rightarrow> track_name \<Rightarrow> SubscribeAttributes \<Rightarrow> bytes" where
  "subscribe_message_bytes api req tn attrs =
     (let m = q_msg (c_quicr api);
          params = m_add m kSubscriberPriority (Some (ucast (sa_priority attrs))) [];
          params = (case sa_group_order attrs of None \<Rightarrow> params | Some g \<Rightarrow> m_add m (c_group_order_param api) (Some g) params)
      in m_build m req (fst tn) (snd tn) params)"

definition add_to_publisher :: "cm_api \<Rightarrow> u64 \<Rightarrow> u64 \<Rightarrow> u64 \<Rightarrow> SubscribeAttributes \<Rightarrow> (u64 \<times> u64) \<times> shref \<Rightarrow> ClientManager \<Rightarrow> unit cm_res" where
  "add_to_publisher api now conn req attrs entry = with_handler (snd entry) (\<lambda>h cm.
     andthen (handler_do (snd entry) (\<lambda>st.
         AddSubscriber (c_sub api) conn req (sa_priority attrs) (sa_delivery_timeout attrs) (sa_start_location attrs)
           (if sth_publisher_initiated h then Resume st else st)) cm) (\<lambda>_.
       DampenOrUpdateTrackSubscription api now (snd entry) (sa_new_group_request_id attrs \<noteq> None)))"

text \<open>The server's \<open>SubscribeTrack\<close>, and entering the handler it was called with in the two tables.\<close>

definition subscribe_track :: "cm_api \<Rightarrow> u64 \<Rightarrow> shref \<Rightarrow> ClientManager \<Rightarrow> unit cm_res" where
  "subscribe_track api conn r cm =
     handler_do r (\<lambda>st. (c_subscribe_track api conn (fst st), snd st)) (cm_emit (Cv_Subscribe_Track conn r) cm)"

definition enter_subscription :: "cm_api \<Rightarrow> u64 \<times> u64 \<Rightarrow> shref \<Rightarrow> ClientManager \<Rightarrow> unit cm_res" where
  "enter_subscription api key r cm = (case c_request_id api (cm_log cm) of
      None \<Rightarrow> (cm, Inl Std_Bad_Optional)
    | Some req_id \<Rightarrow> cm_ok (set_pub_subscribes (mput key r (pub_subscribes cm))
        (cm\<lparr>cm_pub_subscribes_by_req_id := mput (req_id, snd key) r (cm_pub_subscribes_by_req_id cm)\<rparr>)))"

definition subscribe_to_announcer :: "cm_api \<Rightarrow> u64 \<Rightarrow> u64 \<Rightarrow> u64 \<Rightarrow> TrackHash \<Rightarrow> track_name \<Rightarrow> SubscribeAttributes
    \<Rightarrow> bytes list \<times> u64 \<Rightarrow> ClientManager \<Rightarrow> unit cm_res" where
  "subscribe_to_announcer api now conn req th tn attrs key cm =
     (if \<not> m_same_prefix (q_msg (c_quicr api)) (fst key) (fst tn) \<or> snd key = 0 then cm_ok cm
      else case map_of (pub_subscribes cm) (th_fullname th, snd key) of
        Some r \<Rightarrow> DampenOrUpdateTrackSubscription api now r (sa_new_group_request_id attrs \<noteq> None) cm
      | None \<Rightarrow>
          (let cm = set_pub_namespace_active (mput key (insort_insert (th_fullname th) (mat [] (pub_namespace_active cm) key)) (pub_namespace_active cm)) cm;
               (cm, r) = new_handler api tn False cm
           in andthen (subscribe_track api (snd key) r cm) (\<lambda>_ cm.
              andthen (handler_do r (AddSubscriber (c_sub api) conn req (sa_priority attrs) (sa_delivery_timeout attrs) (sa_start_location attrs)) cm) (\<lambda>_ cm.
              andthen (enter_subscription api (th_fullname th, snd key) r cm) (\<lambda>_ cm.
                cm_ok (if sa_new_group_request_id attrs \<noteq> None then cm_emit (Cv_Request_New_Group r) cm else cm))))))"

definition ProcessSubscribe :: "cm_api \<Rightarrow> u64 \<Rightarrow> u64 \<Rightarrow> u64 \<Rightarrow> TrackHash \<Rightarrow> track_name \<Rightarrow> SubscribeAttributes \<Rightarrow> ClientManager \<Rightarrow> unit cm_res" where
  "ProcessSubscribe api now conn req th tn attrs cm =
     andthen
       (if conn = 0 \<and> req = 0 then cm_ok cm
        else on_peer (ClientSubscribe (c_quicr api) (fst tn) (snd tn) (subscribe_message_bytes api req tn attrs))
               (record_subscribe conn req th tn attrs cm)) (\<lambda>_ cm.
     andthen (foreach (add_to_publisher api now conn req attrs) (key_range (th_fullname th) (pub_subscribes cm)) cm) (\<lambda>_ cm.
       foreach (\<lambda>(key, _). subscribe_to_announcer api now conn req th tn attrs key) (pub_namespace_active cm) cm))"

text \<open>The largest object in the last group of the cache.\<close>

definition GetLargestAvailable :: "cm_api \<Rightarrow> track_name \<Rightarrow> ClientManager \<Rightarrow> loc option" where
  "GetLargestAvailable api tn cm =
     (case c_cache_last api (se_log (cm_env cm)) (th_fullname (track_hash api tn)) of
        None \<Rightarrow> None
      | Some objects \<Rightarrow> if objects = [] then None
                        else Some (oh_group_id (fst (last objects)), oh_object_id (fst (last objects))))"

definition SubscribeReceived :: "cm_api \<Rightarrow> u64 \<Rightarrow> u64 \<Rightarrow> u64 \<Rightarrow> track_name \<Rightarrow> SubscribeAttributes \<Rightarrow> ClientManager \<Rightarrow> unit cm_res" where
  "SubscribeReceived api now conn req tn attrs cm =
     (let th = track_hash api tn in
      case map_of (cm_subscribes cm) (th_fullname th, conn) of
        Some _ \<Rightarrow> cm_ok (cm_emit (Cv_Resolve_Subscribe conn req (th_fullname th) False None) cm)
      | None \<Rightarrow> ProcessSubscribe api now conn req th tn attrs
          (cm_emit (Cv_Resolve_Subscribe conn req (th_fullname th) True (GetLargestAvailable api tn cm)) cm))"

definition TrackStatusReceived :: "cm_api \<Rightarrow> u64 \<Rightarrow> u64 \<Rightarrow> track_name \<Rightarrow> ClientManager \<Rightarrow> unit cm_res" where
  "TrackStatusReceived api conn req tn cm =
     (case find (\<lambda>(key, _). snd key \<noteq> conn) (key_range (th_fullname (track_hash api tn)) (pub_subscribes cm)) of
        None \<Rightarrow> cm_ok (cm_emit (Cv_Resolve_Track_Status conn req False False None) cm)
      | Some (_, r) \<Rightarrow> with_handler r (\<lambda>h cm.
          cm_ok (cm_emit (Cv_Resolve_Track_Status conn req True (sth_publisher_initiated h) (GetLargestAvailable api tn cm)) cm)) cm)"


section \<open>Unsubscribing\<close>

text \<open>One handler of the track: whether it still has subscribers, and whether it is to be removed.\<close>

definition pause_or_unsubscribe :: "(u64 \<times> u64) \<times> shref \<Rightarrow> ClientManager \<Rightarrow> (bool \<times> bool) cm_res" where
  "pause_or_unsubscribe entry = with_handler (snd entry) (\<lambda>h cm.
     if STH_HasSubscribers h then (cm, Inr (True, False))
     else if sth_publisher_initiated h then andthen (handler_do (snd entry) Pause cm) (\<lambda>_ cm. (cm, Inr (False, False)))
     else (cm_emit (Cv_Unsubscribe_Track (snd (fst entry)) (snd entry)) cm, Inr (False, True)))"

fun pause_loop :: "((u64 \<times> u64) \<times> shref) list \<Rightarrow> bool \<Rightarrow> (u64 \<times> u64) list \<Rightarrow> ClientManager \<Rightarrow> (bool \<times> (u64 \<times> u64) list) cm_res" where
  "pause_loop [] has_subs remove cm = (cm, Inr (has_subs, remove))"
| "pause_loop (entry # rest) has_subs remove cm =
     andthen (pause_or_unsubscribe entry cm) (\<lambda>(subs, rm) cm.
       pause_loop rest (has_subs \<or> subs) (if rm then remove @ [fst entry] else remove) cm)"

definition RemoveOrPausePublisherSubscribe :: "u64 \<Rightarrow> ClientManager \<Rightarrow> unit cm_res" where
  "RemoveOrPausePublisherSubscribe fh cm =
     (if PM_HasSubscribers fh (cm_peer cm) then cm_ok cm
      else andthen (pause_loop (key_range fh (pub_subscribes cm)) False [] cm) (\<lambda>(has_subs, remove) cm.
        let cm = set_pub_subscribes (fold mdel remove (pub_subscribes cm)) cm
        in if has_subs then cm_ok cm else on_peer (ClientUnsubscribe fh) cm))"

definition UnsubscribeReceived :: "cm_api \<Rightarrow> u64 \<Rightarrow> u64 \<Rightarrow> ClientManager \<Rightarrow> unit cm_res" where
  "UnsubscribeReceived api conn req cm =
     (case map_of (cm_subscribe_alias_req_id cm) (conn, req) of
        None \<Rightarrow> cm_ok cm
      | Some track_alias \<Rightarrow>
          (case map_of (cm_subscribes cm) (track_alias, conn) of
             None \<Rightarrow> cm_ok cm
           | Some info \<Rightarrow>
               (let th = track_hash api (sp_track_full_name info); key = (fst (sp_track_full_name info), th_name th);
                    cm = cm\<lparr>cm_subscribe_alias_req_id := mdel (conn, req) (cm_subscribe_alias_req_id cm)\<rparr>
                in andthen (foreach (\<lambda>(_, r). handler_do r (RemoveSubscriber conn)) (key_range (th_fullname th) (pub_subscribes cm)) cm) (\<lambda>_ cm.
                     let active = filter (\<lambda>a. (as_connection_handle a, as_request_id a) \<noteq> (conn, req)) (mat [] (cm_subscribe_active cm) key);
                         cm = cm\<lparr>cm_subscribe_active := (if active = [] then mdel key (cm_subscribe_active cm) else mput key active (cm_subscribe_active cm)),
                                 cm_subscribes := mdel (track_alias, conn) (cm_subscribes cm)\<rparr>
                     in RemoveOrPausePublisherSubscribe (th_fullname th) cm))))"

definition PeerUnsubscribeTrack :: "u64 \<Rightarrow> ClientManager \<Rightarrow> unit cm_res" where
  "PeerUnsubscribeTrack fh cm = foreach (\<lambda>(_, r). handler_do r (RemoveSubscriber 0)) (key_range fh (pub_subscribes cm)) cm"

section \<open>Publishing\<close>

text \<open>
  \<open>ClientAnnounce\<close> with the calls it makes back.  \<open>update_ref\<close> is the number the peering manager draws.
\<close>

definition announce_peers :: "cm_api \<Rightarrow> u64 \<Rightarrow> u64 \<Rightarrow> track_name \<Rightarrow> bool \<Rightarrow> bool \<Rightarrow> ClientManager \<Rightarrow> unit cm_res" where
  "announce_peers api now update_ref tn withdraw publish_namespace cm =
     andthen (on_peer (ClientAnnounce (c_quicr api) update_ref (fst tn) (snd tn) withdraw publish_namespace) cm) (\<lambda>_ cm'.
       foreach (\<lambda>ev cm. case ev of
           CM_Process_Subscribe th ns name new_group \<Rightarrow>
             ProcessSubscribe api now 0 0 th (ns, name) ((c_default_attributes api)\<lparr>sa_priority := 10, sa_new_group_request_id := new_group\<rparr>) cm
         | _ \<Rightarrow> cm_ok cm)
         (drop (length (pm_log (cm_peer cm))) (pm_log (cm_peer cm'))) cm')"

definition namespace_subscribers :: "cm_api \<Rightarrow> bytes list \<Rightarrow> ClientManager \<Rightarrow> u64 list" where
  "namespace_subscribers api ns cm =
     concat (map (\<lambda>(prefix, conns). if m_same_prefix (q_msg (c_quicr api)) prefix ns then map fst conns else []) (cm_subscribes_namespaces cm))"

text \<open>One track that the clients subscribed to under a newly announced namespace.\<close>

definition subscribe_active_track :: "cm_api \<Rightarrow> u64 \<Rightarrow> bytes list \<Rightarrow> (bytes list \<times> u64) \<times> ActiveSubscribe list \<Rightarrow> ClientManager \<Rightarrow> unit cm_res" where
  "subscribe_active_track api conn ns entry cm =
     (if \<not> m_same_prefix (q_msg (c_quicr api)) (fst (fst entry)) ns then cm_ok cm
      else case snd entry of
        [] \<Rightarrow> cm_ok cm
      | first # _ \<Rightarrow>
          (let anno_tracks = mat [] (pub_namespace_active cm) (ns, conn) in
           if as_track_alias first \<in> set anno_tracks then cm_ok cm
           else let cm = set_pub_namespace_active (mput (ns, conn) (insort_insert (as_track_alias first) anno_tracks) (pub_namespace_active cm)) cm in
             case map_of (cm_subscribes cm) (as_track_alias first, as_connection_handle first) of
               None \<Rightarrow> cm_ok cm
             | Some info \<Rightarrow>
                 (let (cm, r) = new_handler api (sp_track_full_name info) False cm in
                  andthen (handler_do r (fold (\<lambda>a. AddSubscriber (c_sub api) (as_connection_handle a) (as_request_id a) (as_priority a)
                              (as_delivery_timeout a) (as_start_location a)) (snd entry)) cm) (\<lambda>_ cm.
                  andthen (subscribe_track api conn r cm) (\<lambda>_ cm.
                    cm_ok (set_pub_subscribes (mput (as_track_alias first, conn) r (pub_subscribes cm)) cm))))))"

definition subscribe_to_publisher :: "cm_api \<Rightarrow> u64 \<Rightarrow> bytes list \<Rightarrow> ClientManager \<Rightarrow> unit cm_res" where
  "subscribe_to_publisher api conn ns cm = foreach (subscribe_active_track api conn ns) (cm_subscribe_active cm)
     (set_pub_namespace_active (fst (mtry (ns, conn) [] (pub_namespace_active cm))) cm)"

definition PublishNamespaceReceived :: "cm_api \<Rightarrow> u64 \<Rightarrow> u64 \<Rightarrow> u64 \<Rightarrow> bytes list \<Rightarrow> u64 \<Rightarrow> ClientManager \<Rightarrow> unit cm_res" where
  "PublishNamespaceReceived api now update_ref conn ns req cm =
     (let cm = cm\<lparr>cm_requests := mput (conn, req) ns (cm_requests cm)\<rparr> in
      case map_of (pub_namespace_active cm) (ns, conn) of
        Some _ \<Rightarrow> if conn \<noteq> 0 then subscribe_to_publisher api conn ns cm else cm_ok cm
      | None \<Rightarrow>
          (let cm = set_pub_namespace_active (mput (ns, conn) [] (pub_namespace_active cm)) cm;
               cm = cm_emit (Cv_Resolve_Publish_Namespace conn req ns (namespace_subscribers api ns cm)) cm
           in if conn = 0 then cm_ok cm
              else andthen (subscribe_to_publisher api conn ns cm) (\<lambda>_.
                announce_peers api now update_ref (ns, []) False True)))"

definition drop_announced :: "u64 \<Rightarrow> u64 \<Rightarrow> ClientManager \<Rightarrow> ClientManager" where
  "drop_announced conn track_alias cm =
     (let cm = (case map_of (pub_subscribes cm) (track_alias, conn) of None \<Rightarrow> cm | Some r \<Rightarrow> cm_emit (Cv_Unsubscribe_Track conn r) cm)
      in set_pub_subscribes (mdel (track_alias, conn) (pub_subscribes cm)) cm)"

definition PublishNamespaceDoneReceived :: "cm_api \<Rightarrow> u64 \<Rightarrow> u64 \<Rightarrow> u64 \<Rightarrow> u64 \<Rightarrow> ClientManager \<Rightarrow> (u64 list) cm_res" where
  "PublishNamespaceDoneReceived api now update_ref conn req cm =
     (case map_of (cm_requests cm) (conn, req) of
        None \<Rightarrow> (cm, Inr [])
      | Some ns \<Rightarrow>
          andthen (announce_peers api now update_ref (ns, []) True True cm) (\<lambda>_ cm.
            let conns = namespace_subscribers api ns cm;
                cm = cm_emit (Cv_Resolve_Publish_Namespace_Done conn req conns) cm;
                cm = fold (drop_announced conn) (mat [] (pub_namespace_active cm) (ns, conn)) cm;
                cm = set_pub_namespace_active (mdel (ns, conn) (pub_namespace_active cm)) cm
            in andthen (if conn \<noteq> 0 then on_peer (ClientUnannounce (c_quicr api) update_ref ns []) cm else cm_ok cm) (\<lambda>_ cm. (cm, Inr conns))))"

text \<open>\<open>PublishTrackHandler::Create\<close> with the alias of the track, handed to a namespace handler.\<close>

definition publish_in_namespace :: "cm_api \<Rightarrow> u64 option \<Rightarrow> track_name \<Rightarrow> u8 \<Rightarrow> u32 \<Rightarrow> loc \<Rightarrow> nref \<Rightarrow> ClientManager \<Rightarrow> unit cm_res" where
  "publish_in_namespace api now tn priority ttl start n cm =
     (let e = cm_env cm; r = se_next e;
          t = (sb_make_track (c_sub api) tn (sb_mode_stream (c_sub api)) priority ttl)\<lparr>pth_laps := True, pth_start_location := start\<rparr>;
          t = (if pth_track_alias t = None then t\<lparr>pth_track_alias := Some (th_fullname (track_hash api tn))\<rparr> else t);
          e = e\<lparr>se_pub := (se_pub e)\<lparr>pe_tracks := mput r t (pe_tracks (se_pub e))\<rparr>, se_next := Suc r\<rparr>
      in case map_of (se_ns e) n of
           None \<Rightarrow> (cm\<lparr>cm_env := e\<rparr>, Inl Null_Deref)
         | Some p \<Rightarrow> (case PNS_PublishTrack (sb_pub (c_sub api)) now r t (p, se_pub e) of ((p', pe), x) \<Rightarrow>
             (cm\<lparr>cm_env := e\<lparr>se_ns := mput n p' (se_ns e), se_pub := pe\<rparr>\<rparr>, x)))"

definition ns_connection :: "nref \<Rightarrow> ClientManager \<Rightarrow> u64 option" where
  "ns_connection n cm = map_option pns_connection_id (map_of (se_ns (cm_env cm)) n)"

definition publish_to_namespaces :: "cm_api \<Rightarrow> u64 option \<Rightarrow> u64 \<Rightarrow> PublishAttributes \<Rightarrow> ClientManager \<Rightarrow> unit cm_res" where
  "publish_to_namespaces api now conn attrs cm =
     foreach (\<lambda>(prefix, conns) cm.
         if c_is_prefix_of api prefix (fst (pa_track_full_name attrs))
         then foreach (\<lambda>(_, n) cm.
                if \<not> c_allow_self api \<and> ns_connection n cm = Some conn then cm_ok cm
                else publish_in_namespace api now (pa_track_full_name attrs) (pa_priority attrs) (ucast (pa_delivery_timeout attrs))
                       (pa_start_location attrs) n cm) conns cm
         else cm_ok cm)
       (cm_subscribes_namespaces cm) cm"

definition attach_subscribers :: "cm_api \<Rightarrow> u64 \<Rightarrow> shref \<Rightarrow> ClientManager \<Rightarrow> unit cm_res" where
  "attach_subscribers api fh r cm =
     foreach (\<lambda>(key, info). handler_do r (AddSubscriber (c_sub api) (snd key) (sp_request_id info) (sp_priority info)
         (ucast (sp_object_ttl info)) (sp_start_location info))) (key_range fh (cm_subscribes cm)) cm"

definition attach_namespaces :: "cm_api \<Rightarrow> bytes list \<Rightarrow> shref \<Rightarrow> ClientManager \<Rightarrow> unit cm_res" where
  "attach_namespaces api ns r cm =
     foreach (\<lambda>(prefix, conns) cm.
         if m_same_prefix (q_msg (c_quicr api)) prefix ns
         then foreach (\<lambda>(_, n). on_handler r (AddSubscribeNamespace (c_sub api) n)) conns cm else cm_ok cm)
       (cm_subscribes_namespaces cm) cm"

text \<open>The first non-empty prefix with subscribers decides the ranking the track takes part in.\<close>

definition matching_prefixes :: "cm_api \<Rightarrow> bytes list \<Rightarrow> ClientManager \<Rightarrow> bytes list list" where
  "matching_prefixes api ns cm = map fst (filter (\<lambda>(prefix, conns). m_same_prefix (q_msg (c_quicr api)) prefix ns \<and> conns \<noteq> []) (cm_subscribes_namespaces cm))"

definition ranking_namespace :: "bytes list list \<Rightarrow> bytes list" where
  "ranking_namespace prefixes = fold (\<lambda>prefix ns. if ns = [] then prefix else ns) prefixes []"

definition PublishReceived :: "cm_api \<Rightarrow> u64 \<Rightarrow> u64 option \<Rightarrow> u64 \<Rightarrow> u64 \<Rightarrow> u64 \<Rightarrow> PublishAttributes \<Rightarrow> ClientManager \<Rightarrow> unit cm_res" where
  "PublishReceived api now ticks update_ref conn req attrs cm =
     (let tn = pa_track_full_name attrs; fh = th_fullname (track_hash api tn); is_from_peer = (conn = 0 \<and> req = 0) in
      andthen (publish_to_namespaces api ticks conn attrs cm) (\<lambda>_ cm.
        let (cm, r) = new_handler api tn True cm in
        andthen (handler_do r (\<lambda>(h, e). (if is_from_peer then SetFromPeer (h\<lparr>sth_track_alias := Some (pa_track_alias attrs)\<rparr>) else h, e)) cm) (\<lambda>_ cm.
        let cm = (if pa_dynamic_groups attrs then cm_emit (Cv_Support_New_Group_Request r) cm else cm);
            cm = set_pub_subscribes (mput (fh, conn) r (pub_subscribes cm)) cm
        in andthen
             (if is_from_peer then cm_ok cm
              else andthen (handler_do r (\<lambda>(h, e). (c_resolve_publish api conn req h, e))
                     (cm_emit (Cv_Resolve_Publish conn req r)
                       (cm\<lparr>cm_pub_subscribes_by_req_id := mput (req, conn) r (cm_pub_subscribes_by_req_id cm)\<rparr>))) (\<lambda>_.
                   announce_peers api now update_ref tn False False)) (\<lambda>_ cm.
           let peer_subs = PM_HasSubscribers fh (cm_peer cm); prefixes = matching_prefixes api (fst tn) cm;
               has_subs = (peer_subs \<or> key_range fh (cm_subscribes cm) \<noteq> [] \<or> prefixes \<noteq> [])
           in andthen (attach_subscribers api fh r cm) (\<lambda>_ cm.
              andthen (attach_namespaces api (fst tn) r cm) (\<lambda>_ cm.
              andthen (case map_of (cm_track_rankings cm) (th_namespace (track_hash api (ranking_namespace prefixes, []))) of
                         None \<Rightarrow> cm_ok cm
                       | Some k \<Rightarrow> handler_do r (\<lambda>(h, e). (h\<lparr>sth_track_ranking := Some k\<rparr>, e)) cm) (\<lambda>_ cm.
                if has_subs then cm_ok cm else handler_do r Pause cm)))))))"

definition PublishDoneReceived :: "cm_api \<Rightarrow> u64 \<Rightarrow> u64 \<Rightarrow> u64 \<Rightarrow> u64 \<Rightarrow> ClientManager \<Rightarrow> unit cm_res" where
  "PublishDoneReceived api now update_ref conn req cm =
     (case map_of (cm_pub_subscribes_by_req_id cm) (req, conn) of
        None \<Rightarrow> cm_ok cm
      | Some r \<Rightarrow> with_handler r (\<lambda>h cm.
          (let tn = sth_full_track_name h; fh = th_fullname (track_hash api tn) in
           andthen (if conn \<noteq> 0 then announce_peers api now update_ref tn True False cm else cm_ok cm) (\<lambda>_ cm.
             let cm = set_pub_subscribes (mdel (fh, conn) (pub_subscribes cm)) cm;
                 unsub = (if key_range fh (pub_subscribes cm) = [] \<and> \<not> c_detached_subs api
                          then map (\<lambda>(key, info). (snd key, sp_request_id info)) (key_range fh (cm_subscribes cm)) else [])
             in andthen (foreach (\<lambda>(c, rq). UnsubscribeReceived api c rq) unsub cm) (\<lambda>_ cm.
                  cm_ok (cm\<lparr>cm_pub_subscribes_by_req_id := mdel (req, conn) (cm_pub_subscribes_by_req_id cm)\<rparr>))))) cm)"

definition PurgePublishState :: "u64 \<Rightarrow> ClientManager \<Rightarrow> ClientManager" where
  "PurgePublishState conn cm =
     (let cm = set_pub_subscribes (fold mdel (filter (\<lambda>key. snd key = conn) (map fst (pub_subscribes cm))) (pub_subscribes cm)) cm
      in set_pub_namespace_active (fold mdel (filter (\<lambda>key. snd key = conn) (map fst (pub_namespace_active cm))) (pub_namespace_active cm)) cm)"


section \<open>Namespace subscriptions\<close>

record TrackFilter =
  tf_property_type :: u64
  tf_max_tracks_selected :: u64
  tf_timeout :: u64

definition rank_world_of :: "ClientManager \<Rightarrow> rank_world" where
  "rank_world_of cm = \<lparr>rw_handlers = se_ns (cm_env cm), rw_env = se_pub (cm_env cm)\<rparr>"

definition namespace_hash :: "cm_api \<Rightarrow> bytes list \<Rightarrow> u64" where
  "namespace_hash api ns = th_namespace (track_hash api (ns, []))"

text \<open>\<open>PublishNamespaceHandler::Create\<close> and the server's \<open>PublishNamespace\<close>.\<close>

definition new_namespace :: "cm_api \<Rightarrow> u64 \<Rightarrow> bytes list \<Rightarrow> ClientManager \<Rightarrow> ClientManager \<times> nref" where
  "new_namespace api conn prefix cm =
     (let n = cm_next_ns cm; e = cm_env cm in
      (cm_emit (Cv_Publish_Namespace conn n)
         (cm\<lparr>cm_env := e\<lparr>se_ns := mput n (c_publish_namespace api conn (PNS_make prefix 0)) (se_ns e)\<rparr>, cm_next_ns := Suc n\<rparr>), n))"

text \<open>\<open>track_rankings_.try_emplace\<close>\<close>

definition ranking_at :: "u64 \<Rightarrow> ClientManager \<Rightarrow> ClientManager \<times> kref" where
  "ranking_at hash cm = (case map_of (cm_track_rankings cm) hash of
      Some k \<Rightarrow> (cm, k)
    | None \<Rightarrow> (cm\<lparr>cm_track_rankings := mput hash (cm_next_ranking cm) (cm_track_rankings cm),
                  cm_env := (cm_env cm)\<lparr>se_rankings := mput (cm_next_ranking cm) TrackRanking_init (se_rankings (cm_env cm))\<rparr>,
                  cm_next_ranking := Suc (cm_next_ranking cm)\<rparr>, cm_next_ranking cm))"

definition on_ranking :: "kref \<Rightarrow> (TrackRanking \<Rightarrow> TrackRanking) \<Rightarrow> ClientManager \<Rightarrow> unit cm_res" where
  "on_ranking k f cm = (case map_of (se_rankings (cm_env cm)) k of
      None \<Rightarrow> (cm, Inl Null_Deref)
    | Some r \<Rightarrow> cm_ok (cm\<lparr>cm_env := (cm_env cm)\<lparr>se_rankings := mput k (f r) (se_rankings (cm_env cm))\<rparr>\<rparr>))"

definition on_namespace :: "nref \<Rightarrow> (PublishNamespaceHandler \<Rightarrow> PublishNamespaceHandler) \<Rightarrow> ClientManager \<Rightarrow> unit cm_res" where
  "on_namespace n f cm = (case map_of (se_ns (cm_env cm)) n of
      None \<Rightarrow> (cm, Inl Null_Deref)
    | Some p \<Rightarrow> cm_ok (cm\<lparr>cm_env := (cm_env cm)\<lparr>se_ns := mput n (f p) (se_ns (cm_env cm))\<rparr>\<rparr>))"

definition apply_filter :: "TrackFilter option \<Rightarrow> nref \<Rightarrow> kref \<Rightarrow> ClientManager \<Rightarrow> unit cm_res" where
  "apply_filter filt n k cm = (case filt of
      None \<Rightarrow> cm_ok cm
    | Some tf \<Rightarrow>
        andthen (on_ranking k (\<lambda>r. if tr_inactive_age_ms r < tf_timeout tf then r\<lparr>tr_inactive_age_ms := tf_timeout tf\<rparr> else r) cm) (\<lambda>_.
          on_namespace n (\<lambda>p. p\<lparr>pns_max_tracks_selected := tf_max_tracks_selected tf, pns_inactive_age_ms := tf_timeout tf,
             pns_property_type := Some (tf_property_type tf)\<rparr>)))"

definition matched_namespaces :: "cm_api \<Rightarrow> bytes list \<Rightarrow> ClientManager \<Rightarrow> bytes list list" where
  "matched_namespaces api prefix cm = remdups_adj (filter (c_is_prefix_of api prefix) (map (fst \<circ> fst) (pub_namespace_active cm)))"

definition offer_track :: "cm_api \<Rightarrow> u64 option \<Rightarrow> u64 \<Rightarrow> bytes list \<Rightarrow> nref \<Rightarrow> kref \<Rightarrow> (u64 \<times> u64) \<times> shref \<Rightarrow> ClientManager \<Rightarrow> unit cm_res" where
  "offer_track api now conn prefix n k entry cm =
     (if \<not> c_allow_self api \<and> snd (fst entry) = conn then cm_ok cm
      else with_handler (snd entry) (\<lambda>h cm.
        if \<not> c_is_prefix_of api prefix (fst (sth_full_track_name h)) then cm_ok cm
        else let start = (case GetLargestAvailable api (sth_full_track_name h) cm of None \<Rightarrow> (0, 0) | Some l \<Rightarrow> l) in
          andthen (on_handler (snd entry) (AddSubscribeNamespace (c_sub api) n) cm) (\<lambda>_ cm.
          andthen (handler_do (snd entry) (\<lambda>(h, e). (h\<lparr>sth_track_ranking := Some k\<rparr>, e)) cm) (\<lambda>_.
            publish_in_namespace api now (sth_full_track_name h) (sth_priority h) (ucast (delivery_ttl h)) start n))) cm)"

text \<open>
  A second subscription of a connection to the same prefix gets a handler of its own, with the filter, but
  \<open>emplace\<close> keeps the first one, which is the one the tracks are offered to.
\<close>

definition enter_namespace :: "cm_api \<Rightarrow> u64 \<Rightarrow> bytes list \<Rightarrow> ClientManager \<Rightarrow> ClientManager \<times> nref \<times> nref" where
  "enter_namespace api conn prefix cm =
     (let cm = cm\<lparr>cm_subscribes_namespaces := fst (mtry prefix [] (cm_subscribes_namespaces cm))\<rparr>;
          (cm, handler) = new_namespace api conn prefix cm;
          conns = fst (mtry conn handler (mat [] (cm_subscribes_namespaces cm) prefix))
      in (cm\<lparr>cm_subscribes_namespaces := mput prefix conns (cm_subscribes_namespaces cm)\<rparr>, handler, mat handler conns conn))"

definition SubscribeNamespaceReceived :: "cm_api \<Rightarrow> u64 option \<Rightarrow> u64 \<Rightarrow> u64 \<Rightarrow> bytes list \<Rightarrow> u64 \<Rightarrow> TrackFilter option \<Rightarrow> ClientManager \<Rightarrow> unit cm_res" where
  "SubscribeNamespaceReceived api now conn data_ctx prefix req filt cm =
     (let (cm, handler, n) = enter_namespace api conn prefix cm;
          (cm, k) = ranking_at (namespace_hash api prefix) cm
      in andthen (apply_filter filt handler k cm) (\<lambda>_ cm.
         andthen (on_ranking k (AddNamespaceHandler (namespace_hash api) handler (rank_world_of cm)) cm) (\<lambda>_ cm.
           let cm = cm_emit (Cv_Resolve_Subscribe_Namespace conn data_ctx req prefix (matched_namespaces api prefix cm)) cm
           in foreach (offer_track api now conn prefix n k) (pub_subscribes cm) cm)))"

text \<open>
  The range-based \<open>for\<close> over \<open>pub_subscribes\<close> in \<open>UnsubscribeNamespaceReceived\<close>.  The body may
  erase entries: one that is erased before the iterator reaches it is not visited; when it is the entry the
  iterator stands on, the step to the next entry is undefined.
\<close>

definition withdraw_track :: "cm_api \<Rightarrow> u64 \<Rightarrow> bytes list \<Rightarrow> nref \<Rightarrow> (u64 \<times> u64) \<times> shref \<Rightarrow> ClientManager \<Rightarrow> unit cm_res" where
  "withdraw_track api conn prefix n entry cm =
     (if \<not> c_allow_self api \<and> snd (fst entry) = conn then cm_ok cm
      else with_handler (snd entry) (\<lambda>h cm.
        if \<not> m_same_prefix (q_msg (c_quicr api)) prefix (fst (sth_full_track_name h)) then cm_ok cm
        else andthen (on_handler (snd entry) (RemoveSubscribeNamespace (c_sub api) n) cm) (\<lambda>_ cm.
             andthen (case map_of (cm_track_rankings cm) (namespace_hash api prefix) of
                        None \<Rightarrow> (cm, Inl Null_Deref)
                      | Some k \<Rightarrow> on_ranking k (RemoveNamespaceHandler (namespace_hash api) n (rank_world_of cm)) cm) (\<lambda>_.
               RemoveOrPausePublisherSubscribe (fst (fst entry))))) cm)"

definition visit_entry :: "((u64 \<times> u64) \<times> shref \<Rightarrow> ClientManager \<Rightarrow> unit cm_res) \<Rightarrow> (u64 \<times> u64) \<times> shref \<Rightarrow> ClientManager \<Rightarrow> unit cm_res" where
  "visit_entry body entry cm =
     (if map_of (pub_subscribes cm) (fst entry) = None then cm_ok cm
      else andthen (body entry cm) (\<lambda>_ cm.
        if map_of (pub_subscribes cm) (fst entry) = None then (cm, Inl Bad_Iterator) else cm_ok cm))"

definition drop_ranking :: "u64 \<Rightarrow> ClientManager \<Rightarrow> ClientManager" where
  "drop_ranking hash cm = (case map_of (cm_track_rankings cm) hash of
      None \<Rightarrow> cm
    | Some k \<Rightarrow> cm\<lparr>cm_track_rankings := mdel hash (cm_track_rankings cm),
                    cm_env := (cm_env cm)\<lparr>se_rankings := mdel k (se_rankings (cm_env cm))\<rparr>\<rparr>)"

definition UnsubscribeNamespaceReceived :: "cm_api \<Rightarrow> u64 \<Rightarrow> bytes list \<Rightarrow> ClientManager \<Rightarrow> unit cm_res" where
  "UnsubscribeNamespaceReceived api conn prefix cm =
     (case map_of (cm_subscribes_namespaces cm) prefix of
        None \<Rightarrow> cm_ok cm
      | Some conns \<Rightarrow>
          (case map_of conns conn of
             None \<Rightarrow> cm_ok (if conns = [] then cm\<lparr>cm_subscribes_namespaces := mdel prefix (cm_subscribes_namespaces cm)\<rparr> else cm)
           | Some n \<Rightarrow>
               andthen (foreach (visit_entry (withdraw_track api conn prefix n)) (pub_subscribes cm) cm) (\<lambda>_ cm.
                 let conns = mdel conn conns
                 in cm_ok (if conns = [] then drop_ranking (namespace_hash api prefix) (cm\<lparr>cm_subscribes_namespaces := mdel prefix (cm_subscribes_namespaces cm)\<rparr>)
                           else cm\<lparr>cm_subscribes_namespaces := mput prefix conns (cm_subscribes_namespaces cm)\<rparr>))))"

section \<open>Connections\<close>

datatype client_status = CS_Connected | CS_Connecting | CS_NotConnected | CS_ClosedByRemote | CS_IdleTimeout

definition ConnectionStatusChanged :: "cm_api \<Rightarrow> u64 \<Rightarrow> client_status \<Rightarrow> ClientManager \<Rightarrow> unit cm_res" where
  "ConnectionStatusChanged api conn status cm =
     (if status \<in> {CS_Connected, CS_Connecting} then cm_ok cm
      else let remove_ns = map fst (filter (\<lambda>(_, conns). map_of conns conn \<noteq> None) (cm_subscribes_namespaces cm)) in
        andthen (foreach (UnsubscribeNamespaceReceived api conn) remove_ns cm) (\<lambda>_ cm.
        andthen (foreach (\<lambda>(c, req). UnsubscribeReceived api c req) (map fst (key_range conn (cm_subscribe_alias_req_id cm))) cm) (\<lambda>_ cm.
          cm_ok (PurgePublishState conn cm))))"

text \<open>What a handler does to the tables of its manager when the publisher's answer arrives.\<close>

datatype sub_status =
    SS_Ok | SS_NotConnected | SS_Error | SS_NotAuthorized | SS_NotSubscribed | SS_PendingResponse | SS_SendingUnsubscribe
  | SS_Paused | SS_NewGroupRequested | SS_DoneByFin | SS_DoneByReset

definition STH_StatusChanged :: "shref \<Rightarrow> sub_status \<Rightarrow> ClientManager \<Rightarrow> unit cm_res" where
  "STH_StatusChanged r status = with_handler r (\<lambda>h cm.
     (case sth_track_alias h of
        None \<Rightarrow> (cm, Inl Std_Bad_Optional)
      | Some ta \<Rightarrow>
          if status = SS_Error
          then let key = (fst (sth_full_track_name h), sth_connection_id h);
                   cm = set_pub_namespace_active (mput key (sdel ta (mat [] (pub_namespace_active cm) key)) (pub_namespace_active cm)) cm
               in cm_ok (set_pub_subscribes (mdel (ta, sth_connection_id h) (pub_subscribes cm)) cm)
          else cm_ok cm))"

section \<open>New groups and data of the peers\<close>

definition wants_new_group :: "u64 \<Rightarrow> SubscribeTrackHandler \<Rightarrow> bool" where
  "wants_new_group group_id h = (case sth_pending_new_group_request_id h of
      None \<Rightarrow> True
    | Some p \<Rightarrow> (group_id = 0 \<and> p \<noteq> 0) \<or> p < group_id)"

definition NewGroupRequested :: "cm_api \<Rightarrow> u64 \<Rightarrow> track_name \<Rightarrow> u64 \<Rightarrow> ClientManager \<Rightarrow> unit cm_res" where
  "NewGroupRequested api now tn group_id cm =
     andthen (on_peer (ClientSubscribeUpdate (c_quicr api) (fst tn) (snd tn) (c_new_group_update api)) cm) (\<lambda>_ cm.
       foreach (\<lambda>(_, r). with_handler r (\<lambda>h cm.
           if wants_new_group group_id h
           then andthen (handler_do r (\<lambda>(h, e). (c_set_new_group api group_id h, e)) cm) (\<lambda>_. DampenOrUpdateTrackSubscription api now r True)
           else cm_ok cm))
         (key_range (th_fullname (track_hash api tn)) (pub_subscribes cm)) cm)"

definition PeerDataReceived :: "cm_api \<Rightarrow> u64 option \<Rightarrow> u64 \<Rightarrow> bool \<Rightarrow> u64 option \<Rightarrow> bytes \<Rightarrow> ClientManager \<Rightarrow> unit cm_res" where
  "PeerDataReceived api now fh is_new_stream stream_id data cm =
     (case map_of (pub_subscribes cm) (fh, 0) of
        None \<Rightarrow> cm_ok cm
      | Some r \<Rightarrow> on_handler r (case stream_id of
            Some n \<Rightarrow> StreamDataRecv (c_sub api) now is_new_stream n (Some data)
          | None \<Rightarrow> DgramDataRecv (c_sub api) now data) cm)"

definition PeerStreamClosed :: "cm_api \<Rightarrow> u64 \<Rightarrow> u64 \<Rightarrow> bool \<Rightarrow> ClientManager \<Rightarrow> unit cm_res" where
  "PeerStreamClosed api fh stream_id reset cm =
     (case map_of (pub_subscribes cm) (fh, 0) of
        None \<Rightarrow> cm_ok cm
      | Some r \<Rightarrow> on_handler r (StreamClosed (c_sub api) stream_id reset) cm)"

end
