(* ===== verification/Client_Safety.thy ===== *)
theory Client_Safety
  imports Client_Manager
begin

text \<open>
  Safety of the client manager: the references its tables hold are valid, and no control operation of a client
  has undefined behaviour on such tables (theory \<open>Client_Manager\<close> has the operations).  As in
  \<open>Peer_Manager\<close>, a calculus of steps carries the proofs: a step is safe when it keeps the invariant, drops no object of
  the stores, and fails with a \<open>std::exception\<close> at most.
\<close>

section \<open>The invariant\<close>

definition has_handler :: "ClientManager \<Rightarrow> shref \<Rightarrow> bool" where
  "has_handler cm r \<longleftrightarrow> map_of (cm_handlers cm) r \<noteq> None"

definition has_ns :: "ClientManager \<Rightarrow> nref \<Rightarrow> bool" where
  "has_ns cm n \<longleftrightarrow> map_of (se_ns (cm_env cm)) n \<noteq> None"

text \<open>Every publisher has a handler, every namespace subscription a namespace handler and its prefix a ranking,
  which no other prefix has.\<close>

definition rankings_wf :: "ClientManager \<Rightarrow> bool" where
  "rankings_wf cm \<longleftrightarrow> msorted (cm_track_rankings cm) \<and> distinct (map snd (cm_track_rankings cm))
     \<and> (\<forall>(hash, k) \<in> set (cm_track_rankings cm). map_of (se_rankings (cm_env cm)) k \<noteq> None \<and> k < cm_next_ranking cm)"

definition namespaces_wf :: "cm_api \<Rightarrow> ClientManager \<Rightarrow> bool" where
  "namespaces_wf api cm \<longleftrightarrow> msorted (cm_subscribes_namespaces cm)
     \<and> (\<forall>(prefix, conns) \<in> set (cm_subscribes_namespaces cm). conns \<noteq> [] \<and> msorted conns \<and> (\<forall>(c, n) \<in> set conns. has_ns cm n)
          \<and> map_of (cm_track_rankings cm) (namespace_hash api prefix) \<noteq> None)
     \<and> inj_on (namespace_hash api) (fst ` set (cm_subscribes_namespaces cm))"

definition cm_wf :: "cm_api \<Rightarrow> ClientManager \<Rightarrow> bool" where
  "cm_wf api cm \<longleftrightarrow> pm_wf (cm_peer cm) \<and> msorted (pub_subscribes cm)
     \<and> (\<forall>(key, r) \<in> set (pub_subscribes cm). has_handler cm r)
     \<and> (\<forall>(key, r) \<in> set (cm_pub_subscribes_by_req_id cm). has_handler cm r)
     \<and> rankings_wf cm \<and> namespaces_wf api cm"

section \<open>Safe steps\<close>

text \<open>The tables of the subscribers, and what a step inside an operation leaves alone.\<close>

definition sub_tables :: "ClientManager \<Rightarrow> ((u64 \<times> u64, SubscribePublishHandlerInfo) omap \<times> (u64 \<times> u64, u64) omap)
    \<times> (bytes list \<times> u64, ActiveSubscribe list) omap \<times> (bytes list, (u64, nref) omap) omap" where
  "sub_tables cm = ((cm_subscribes cm, cm_subscribe_alias_req_id cm), cm_subscribe_active cm, cm_subscribes_namespaces cm)"

definition grows :: "ClientManager \<Rightarrow> ClientManager \<Rightarrow> bool" where
  "grows cm cm' \<longleftrightarrow> (\<forall>r. has_handler cm r \<longrightarrow> has_handler cm' r) \<and> (\<forall>n. has_ns cm n \<longrightarrow> has_ns cm' n)"

definition cm_keep :: "ClientManager \<Rightarrow> ClientManager \<Rightarrow> bool" where
  "cm_keep cm cm' \<longleftrightarrow> grows cm cm' \<and> sub_tables cm' = sub_tables cm \<and> cm_track_rankings cm' = cm_track_rankings cm"

definition csafe :: "cm_api \<Rightarrow> ClientManager \<Rightarrow> 'a cm_res \<Rightarrow> bool" where
  "csafe api cm r \<longleftrightarrow> cm_wf api (fst r) \<and> cm_keep cm (fst r) \<and> (\<forall>e. snd r = Inl e \<longrightarrow> is_exception e)"

lemma cm_keep_refl [simp]: "cm_keep cm cm"
  by (simp add: cm_keep_def grows_def)

lemma cm_keep_trans: "cm_keep a b \<Longrightarrow> cm_keep b c \<Longrightarrow> cm_keep a c"
  by (simp add: cm_keep_def grows_def)

lemma csafe_ok [intro]: "cm_wf api cm \<Longrightarrow> csafe api cm (cm, Inr x)"
  by (simp add: csafe_def)

lemma csafe_done: "cm_wf api cm' \<Longrightarrow> cm_keep cm cm' \<Longrightarrow> csafe api cm (cm', Inr x)"
  by (simp add: csafe_def)

lemma csafe_throw: "cm_wf api cm \<Longrightarrow> is_exception e \<Longrightarrow> csafe api cm (cm, Inl e)"
  by (simp add: csafe_def)

lemma csafe_andthen:
  assumes "csafe api cm r" and "\<And>x cm'. cm_wf api cm' \<Longrightarrow> cm_keep cm cm' \<Longrightarrow> csafe api cm' (f x cm')"
  shows "csafe api cm (andthen r f)"
proof (cases r)
  case (Pair cm' x)
  show ?thesis
  proof (cases x)
    case (Inr y)
    have k: "cm_wf api cm'" "cm_keep cm cm'" using assms(1) by (simp_all add: csafe_def Pair)
    then show ?thesis using assms(2) [OF k, of y] cm_keep_trans [OF k(2)] by (simp add: csafe_def Pair Inr)
  qed (use assms(1) in \<open>simp add: csafe_def Pair\<close>)
qed

lemma csafe_after: "cm_keep cm cm1 \<Longrightarrow> csafe api cm1 r \<Longrightarrow> csafe api cm r"
  using cm_keep_trans by (auto simp: csafe_def)

lemma csafe_foreach:
  assumes "cm_wf api cm" and "\<And>x cm'. x \<in> set xs \<Longrightarrow> cm_wf api cm' \<Longrightarrow> cm_keep cm cm' \<Longrightarrow> csafe api cm' (f x cm')"
  shows "csafe api cm (foreach f xs cm)"
  using assms
proof (induction xs arbitrary: cm)
  case (Cons x xs)
  have "csafe api cm' (foreach f xs cm')" if "cm_wf api cm'" "cm_keep cm cm'" for cm'
    using that Cons.prems(2) by (intro Cons.IH) (auto intro: cm_keep_trans)
  then show ?case using Cons.prems by (auto intro: csafe_andthen)
qed (simp add: csafe_ok)

subsection \<open>Primitive steps\<close>

lemma pub_tables [simp]:
  "pub_subscribes (set_pub_subscribes m cm) = m" "pub_subscribes (set_pub_namespace_active a cm) = pub_subscribes cm"
  "pub_namespace_active (set_pub_subscribes m cm) = pub_namespace_active cm" "pub_namespace_active (set_pub_namespace_active a cm) = a"
  "pub_subscribes (cm_emit ev cm) = pub_subscribes cm" "pub_namespace_active (cm_emit ev cm) = pub_namespace_active cm"
  "pm_wf (cm_peer (set_pub_subscribes m cm)) = pm_wf (cm_peer cm)" "pm_wf (cm_peer (set_pub_namespace_active a cm)) = pm_wf (cm_peer cm)"
  "cm_peer (cm_emit ev cm) = cm_peer cm"
  by (simp_all add: pub_subscribes_def pub_namespace_active_def set_pub_subscribes_def set_pub_namespace_active_def cm_emit_def
      pm_wf_def live_of_def [abs_def] all_sessions_def)

text \<open>What the manager keeps besides the peering manager and the publishers' tables.\<close>

lemma other_parts [simp]:
  "cm_handlers (set_pub_subscribes m cm) = cm_handlers cm" "cm_handlers (set_pub_namespace_active a cm) = cm_handlers cm" "cm_handlers (cm_emit ev cm) = cm_handlers cm"
  "cm_env (set_pub_subscribes m cm) = cm_env cm" "cm_env (set_pub_namespace_active a cm) = cm_env cm" "cm_env (cm_emit ev cm) = cm_env cm"
  "sub_tables (set_pub_subscribes m cm) = sub_tables cm" "sub_tables (set_pub_namespace_active a cm) = sub_tables cm" "sub_tables (cm_emit ev cm) = sub_tables cm"
  "cm_pub_subscribes_by_req_id (set_pub_subscribes m cm) = cm_pub_subscribes_by_req_id cm"
  "cm_pub_subscribes_by_req_id (set_pub_namespace_active a cm) = cm_pub_subscribes_by_req_id cm"
  "cm_pub_subscribes_by_req_id (cm_emit ev cm) = cm_pub_subscribes_by_req_id cm"
  "cm_track_rankings (set_pub_subscribes m cm) = cm_track_rankings cm" "cm_track_rankings (set_pub_namespace_active a cm) = cm_track_rankings cm"
  "cm_track_rankings (cm_emit ev cm) = cm_track_rankings cm"
  "cm_next_ranking (set_pub_subscribes m cm) = cm_next_ranking cm" "cm_next_ranking (set_pub_namespace_active a cm) = cm_next_ranking cm"
  "cm_next_ranking (cm_emit ev cm) = cm_next_ranking cm"
  by (simp_all add: set_pub_subscribes_def set_pub_namespace_active_def cm_emit_def sub_tables_def)

text \<open>The invariant survives a change that drops no object and leaves the references alone.\<close>

lemma cm_wf_change:
  assumes "cm_wf api cm" and "pm_wf (cm_peer cm')" and "pub_subscribes cm' = pub_subscribes cm"
    and "cm_pub_subscribes_by_req_id cm' = cm_pub_subscribes_by_req_id cm" and "cm_keep cm cm'" and "cm_next_ranking cm' = cm_next_ranking cm"
    and "\<And>k. map_of (se_rankings (cm_env cm)) k \<noteq> None \<Longrightarrow> map_of (se_rankings (cm_env cm')) k \<noteq> None"
  shows "cm_wf api cm'"
proof -
  have t: "cm_subscribes_namespaces cm' = cm_subscribes_namespaces cm" "cm_track_rankings cm' = cm_track_rankings cm"
    using assms(5) by (simp_all add: cm_keep_def sub_tables_def)
  have g: "has_handler cm r \<Longrightarrow> has_handler cm' r" "has_ns cm n \<Longrightarrow> has_ns cm' n" for r n using assms(5) by (simp_all add: cm_keep_def grows_def)
  have "rankings_wf cm'" using assms(1,6,7) t by (fastforce simp: cm_wf_def rankings_wf_def)
  moreover have "namespaces_wf api cm'" using assms(1) g t by (fastforce simp: cm_wf_def namespaces_wf_def)
  ultimately show ?thesis using assms(1-4) g by (fastforce simp: cm_wf_def)
qed

lemma csafe_change:
  assumes "cm_wf api cm" and "pm_wf (cm_peer cm')" and "pub_subscribes cm' = pub_subscribes cm"
    and "cm_pub_subscribes_by_req_id cm' = cm_pub_subscribes_by_req_id cm" and "cm_keep cm cm'" and "cm_next_ranking cm' = cm_next_ranking cm"
    and "\<And>k. map_of (se_rankings (cm_env cm)) k \<noteq> None \<Longrightarrow> map_of (se_rankings (cm_env cm')) k \<noteq> None"
    and "\<And>e. x = Inl e \<Longrightarrow> is_exception e"
  shows "csafe api cm (cm', x)"
  using cm_wf_change [OF assms(1-7)] assms(5,8) by (simp add: csafe_def)

lemma cm_keep_emit [simp]: "cm_keep cm (cm_emit ev cm)" "cm_wf api (cm_emit ev cm) = cm_wf api cm"
proof -
  show k: "cm_keep cm (cm_emit ev cm)" by (simp add: cm_keep_def grows_def has_handler_def has_ns_def)
  show "cm_wf api (cm_emit ev cm) = cm_wf api cm"
    by (simp add: cm_wf_def cm_emit_def rankings_wf_def namespaces_wf_def has_handler_def has_ns_def pub_subscribes_def)
qed

text \<open>An environment that lost no namespace handler and no ranking.\<close>

definition env_keep :: "sub_env \<Rightarrow> sub_env \<Rightarrow> bool" where
  "env_keep e e' \<longleftrightarrow> (\<forall>n. map_of (se_ns e) n \<noteq> None \<longrightarrow> map_of (se_ns e') n \<noteq> None)
     \<and> (\<forall>k. map_of (se_rankings e) k \<noteq> None \<longrightarrow> map_of (se_rankings e') k \<noteq> None)"

lemma env_keep_refl [simp]: "env_keep e e" "env_keep e (sub_emit ev e)"
  by (simp_all add: env_keep_def sub_emit_def)

lemma csafe_on_handler:
  assumes "cm_wf api cm" and "has_handler cm r"
    and "\<And>h. env_keep (cm_env cm) (snd (fst (f (h, cm_env cm))))"
    and "\<And>h e. map_of (cm_handlers cm) r = Some h \<Longrightarrow> snd (f (h, cm_env cm)) = Inl e \<Longrightarrow> is_exception e"
  shows "csafe api cm (on_handler r f cm)"
proof -
  obtain h where h: "map_of (cm_handlers cm) r = Some h" using assms(2) by (auto simp: has_handler_def)
  obtain h' e' x where f: "f (h, cm_env cm) = ((h', e'), x)" by (metis prod.collapse)
  let ?cm = "cm\<lparr>cm_handlers := mput r h' (cm_handlers cm), cm_env := e'\<rparr>"
  have e: "env_keep (cm_env cm) e'" using assms(3) [of h] by (simp add: f)
  have k: "cm_keep cm ?cm" using e by (auto simp: cm_keep_def grows_def has_handler_def has_ns_def sub_tables_def env_keep_def)
  have "csafe api cm (?cm, x)"
    using e assms(1) assms(4) [OF h] f by (intro csafe_change [OF assms(1) _ _ _ k]) (auto simp: env_keep_def cm_wf_def pub_subscribes_def)
  then show ?thesis by (simp add: on_handler_def h f)
qed

lemma csafe_handler_do:
  assumes "cm_wf api cm" and "has_handler cm r" and "\<And>h. env_keep (cm_env cm) (snd (f (h, cm_env cm)))"
  shows "csafe api cm (handler_do r f cm)"
  unfolding handler_do_def by (rule csafe_on_handler) (use assms in simp_all)

lemma csafe_with_handler:
  assumes "has_handler cm r" and "\<And>h. map_of (cm_handlers cm) r = Some h \<Longrightarrow> csafe api cm (f h cm)"
  shows "csafe api cm (with_handler r f cm)"
  using assms by (auto simp: with_handler_def has_handler_def)

lemma csafe_on_peer:
  assumes "cm_wf api cm" and "safe (cm_peer cm) (f (cm_peer cm))"
  shows "csafe api cm (on_peer f cm)"
proof -
  obtain pm x where f: "f (cm_peer cm) = (pm, x)" by fastforce
  have p: "pm_keep (cm_peer cm) pm" "pm_wf pm" "\<forall>e. x = Inl e \<longrightarrow> is_exception e" using assms(2) by (simp_all add: safe_def f)
  have "csafe api cm (cm\<lparr>cm_peer := pm\<rparr>, x)"
    using p by (intro csafe_change [OF assms(1)])
      (auto simp: pub_subscribes_def pm_keep_def cm_keep_def grows_def has_handler_def has_ns_def sub_tables_def)
  then show ?thesis by (simp add: on_peer_def f)
qed

lemma set_pub_subscribes_same [simp]:
  "has_handler (set_pub_subscribes m cm) = has_handler cm" "has_ns (set_pub_subscribes m cm) = has_ns cm"
  "rankings_wf (set_pub_subscribes m cm) = rankings_wf cm" "namespaces_wf api (set_pub_subscribes m cm) = namespaces_wf api cm"
  by (simp_all add: set_pub_subscribes_def has_handler_def [abs_def] has_ns_def [abs_def] rankings_wf_def namespaces_wf_def)

lemma csafe_set_pub_subscribes:
  assumes "cm_wf api cm" and "msorted m" and "\<And>k r. (k, r) \<in> set m \<Longrightarrow> has_handler cm r"
  shows "cm_wf api (set_pub_subscribes m cm)" "cm_keep cm (set_pub_subscribes m cm)"
  using assms by (auto simp: cm_wf_def cm_keep_def grows_def)

lemma csafe_set_pub_namespace:
  assumes "cm_wf api cm"
  shows "cm_wf api (set_pub_namespace_active m cm)" "cm_keep cm (set_pub_namespace_active m cm)"
proof -
  show k: "cm_keep cm (set_pub_namespace_active m cm)" by (simp add: cm_keep_def grows_def has_handler_def has_ns_def)
  show "cm_wf api (set_pub_namespace_active m cm)" using assms by (intro cm_wf_change [OF assms _ _ _ k]) (auto simp: cm_wf_def)
qed

lemma pub_subscribes_handler: "cm_wf api cm \<Longrightarrow> (k, r) \<in> set (pub_subscribes cm) \<Longrightarrow> has_handler cm r"
  by (auto simp: cm_wf_def)

lemma kept_handler: "cm_keep cm cm' \<Longrightarrow> has_handler cm r \<Longrightarrow> has_handler cm' r" "cm_keep cm cm' \<Longrightarrow> has_ns cm n \<Longrightarrow> has_ns cm' n"
  by (simp_all add: cm_keep_def grows_def)

lemma set_key_range: "set (key_range x m) \<subseteq> set m"
  unfolding key_range_def by (meson set_dropWhileD set_takeWhileD subsetI)

lemma range_handler: "cm_wf api cm \<Longrightarrow> entry \<in> set (key_range fh (pub_subscribes cm)) \<Longrightarrow> has_handler cm (snd entry)"
  using set_key_range [of fh "pub_subscribes cm"] pub_subscribes_handler by (cases entry) auto

section \<open>The operations are safe\<close>

subsection \<open>Subscribing\<close>

lemma env_keep_ops [simp]:
  "env_keep e (snd (AddSubscriber api conn req prio ttl start (h, e)))" "env_keep e (snd (RemoveSubscriber conn (h, e)))"
  "env_keep e (snd (Resume (h, e)))" "env_keep e (snd (Pause (h, e)))"
  by (simp_all add: AddSubscriber_def RemoveSubscriber_def Resume_def Pause_def env_keep_def sub_emit_def Let_def split: option.split)

lemma Dampen_csafe:
  "cm_wf api cm \<Longrightarrow> has_handler cm r \<Longrightarrow> csafe api cm (DampenOrUpdateTrackSubscription api now r g cm)"
  unfolding DampenOrUpdateTrackSubscription_def
  by (rule csafe_with_handler)
    (auto simp: Let_def intro!: csafe_done csafe_throw csafe_andthen csafe_handler_do)

lemma add_to_publisher_csafe:
  "cm_wf api cm \<Longrightarrow> has_handler cm (snd entry) \<Longrightarrow> csafe api cm (add_to_publisher api now conn req attrs entry cm)"
  unfolding add_to_publisher_def
proof (rule csafe_with_handler, assumption)
  fix h
  assume wf: "cm_wf api cm" and hh: "has_handler cm (snd entry)"
  have e: "env_keep e (snd (AddSubscriber (c_sub api) conn req p t s (if b then Resume (h', e) else (h', e))))" for e h' p t s b
    by (simp add: Resume_def AddSubscriber_def env_keep_def sub_emit_def Let_def)
  show "csafe api cm (andthen (handler_do (snd entry) (\<lambda>st.
         AddSubscriber (c_sub api) conn req (sa_priority attrs) (sa_delivery_timeout attrs) (sa_start_location attrs)
           (if sth_publisher_initiated h then Resume st else st)) cm) (\<lambda>_.
       DampenOrUpdateTrackSubscription api now (snd entry) (sa_new_group_request_id attrs \<noteq> None)))"
    by (rule csafe_andthen, rule csafe_handler_do [OF wf hh]) (use hh e kept_handler Dampen_csafe in blast)+
qed

lemma new_handler_csafe:
  assumes "cm_wf api cm" and "new_handler api tn b cm = (cm', r)"
  shows "cm_wf api cm'" "cm_keep cm cm'" "has_handler cm' r"
proof -
  have d: "cm' = cm\<lparr>cm_handlers := mput (cm_next_handler cm) ((SubscribeTrackHandler_make (c_new_handler api tn b))\<lparr>sth_self := cm_next_handler cm\<rparr>) (cm_handlers cm),
     cm_next_handler := Suc (cm_next_handler cm)\<rparr>" "r = cm_next_handler cm"
    using assms(2) by (auto simp: new_handler_def)
  show k: "cm_keep cm cm'" by (simp add: d cm_keep_def grows_def has_handler_def has_ns_def sub_tables_def)
  show "cm_wf api cm'" using assms(1) by (intro cm_wf_change [OF assms(1) _ _ _ k]) (simp_all add: d cm_wf_def pub_subscribes_def)
  show "has_handler cm' r" by (simp add: d has_handler_def)
qed

text \<open>The tail of \<open>subscribe_to_announcer\<close>: the new handler enters the two tables.\<close>

lemma enter_handler_csafe:
  assumes "cm_wf api cm" and "has_handler cm r"
  shows "cm_wf api (set_pub_subscribes (mput key r (pub_subscribes cm)) cm)" "cm_keep cm (set_pub_subscribes (mput key r (pub_subscribes cm)) cm)"
    "cm_wf api (cm\<lparr>cm_pub_subscribes_by_req_id := mput rq r (cm_pub_subscribes_by_req_id cm)\<rparr>)"
    "cm_keep cm (cm\<lparr>cm_pub_subscribes_by_req_id := mput rq r (cm_pub_subscribes_by_req_id cm)\<rparr>)"
proof -
  have m: "msorted (mput key r (pub_subscribes cm))" using assms(1) by (simp add: cm_wf_def)
  have h: "has_handler cm r'" if "(k, r') \<in> set (mput key r (pub_subscribes cm))" for k r'
    using that assms set_mput [of "pub_subscribes cm"] by (auto simp: cm_wf_def)
  show "cm_wf api (set_pub_subscribes (mput key r (pub_subscribes cm)) cm)" "cm_keep cm (set_pub_subscribes (mput key r (pub_subscribes cm)) cm)"
    using csafe_set_pub_subscribes [OF assms(1) m] h by blast+
  let ?cm = "cm\<lparr>cm_pub_subscribes_by_req_id := mput rq r (cm_pub_subscribes_by_req_id cm)\<rparr>"
  have "(k, r') \<in> set (mput rq r m) \<Longrightarrow> r' = r \<or> (k, r') \<in> set m" for k r' and m :: "(u64 \<times> u64, shref) omap"
    by (induction m) (auto split: if_splits)
  then have "\<forall>(k, r') \<in> set (mput rq r (cm_pub_subscribes_by_req_id cm)). has_handler cm r'" using assms by (fastforce simp: cm_wf_def)
  then show "cm_wf api ?cm" using assms
    by (simp add: cm_wf_def rankings_wf_def namespaces_wf_def has_handler_def has_ns_def pub_subscribes_def)
  show "cm_keep cm ?cm" by (simp add: cm_keep_def grows_def has_handler_def has_ns_def sub_tables_def)
qed

lemma subscribe_track_csafe: "cm_wf api cm \<Longrightarrow> has_handler cm r \<Longrightarrow> csafe api cm (subscribe_track api conn r cm)"
  unfolding subscribe_track_def
  by (rule csafe_after [OF cm_keep_emit(1)], rule csafe_handler_do) (simp_all add: has_handler_def)

lemma enter_subscription_csafe:
  assumes "cm_wf api cm" and "has_handler cm r"
  shows "csafe api cm (enter_subscription api key r cm)"
proof (cases "c_request_id api (cm_log cm)")
  case (Some q)
  let ?cm = "cm\<lparr>cm_pub_subscribes_by_req_id := mput (q, snd key) r (cm_pub_subscribes_by_req_id cm)\<rparr>"
  have e: "cm_wf api ?cm" "cm_keep cm ?cm" using enter_handler_csafe [OF assms] by blast+
  have p: "pub_subscribes ?cm = pub_subscribes cm" by (simp add: pub_subscribes_def)
  show ?thesis
    using enter_handler_csafe(1,2) [OF e(1) kept_handler(1) [OF e(2) assms(2)], of key] cm_keep_trans [OF e(2)]
    by (simp add: enter_subscription_def Some csafe_done p)
qed (simp add: enter_subscription_def assms csafe_throw)

lemma subscribe_to_announcer_csafe:
  assumes wf: "cm_wf api cm"
  shows "csafe api cm (subscribe_to_announcer api now conn req th tn attrs key cm)"
proof (cases "map_of (pub_subscribes cm) (th_fullname th, snd key)")
  case (Some r)
  then have "has_handler cm r" using map_of_SomeD pub_subscribes_handler [OF wf] by fastforce
  then show ?thesis using Some Dampen_csafe [OF wf] wf by (auto simp: subscribe_to_announcer_def)
next
  case None
  define cm1 where "cm1 = set_pub_namespace_active (mput key (insort_insert (th_fullname th) (mat [] (pub_namespace_active cm) key)) (pub_namespace_active cm)) cm"
  obtain cm2 r where n: "new_handler api tn False cm1 = (cm2, r)" by fastforce
  have w1: "cm_wf api cm1" "cm_keep cm cm1" using csafe_set_pub_namespace [OF wf] by (simp_all add: cm1_def)
  note w2 = new_handler_csafe [OF w1(1) n]
  have "csafe api cm2 (andthen (subscribe_track api (snd key) r cm2) (\<lambda>_ cm.
      andthen (handler_do r (AddSubscriber (c_sub api) conn req (sa_priority attrs) (sa_delivery_timeout attrs) (sa_start_location attrs)) cm) (\<lambda>_ cm.
      andthen (enter_subscription api (th_fullname th, snd key) r cm) (\<lambda>_ cm.
        cm_ok (if sa_new_group_request_id attrs \<noteq> None then cm_emit (Cv_Request_New_Group r) cm else cm)))))"
    using w2 by (auto intro!: csafe_andthen subscribe_track_csafe csafe_handler_do enter_subscription_csafe csafe_done intro: kept_handler cm_keep_trans)
  from csafe_after [OF cm_keep_trans [OF w1(2) w2(2)] this] show ?thesis
    using wf None n by (simp add: subscribe_to_announcer_def cm1_def csafe_ok)
qed

text \<open>The state an operation works on once it has recorded the subscribe.\<close>

definition recorded :: "u64 \<Rightarrow> u64 \<Rightarrow> TrackHash \<Rightarrow> track_name \<Rightarrow> SubscribeAttributes \<Rightarrow> ClientManager \<Rightarrow> ClientManager" where
  "recorded conn req th tn attrs cm = (if conn = 0 \<and> req = 0 then cm else record_subscribe conn req th tn attrs cm)"

lemma record_subscribe_same [simp]:
  "cm_peer (record_subscribe conn req th tn attrs cm) = cm_peer cm" "cm_handlers (record_subscribe conn req th tn attrs cm) = cm_handlers cm"
  "cm_env (record_subscribe conn req th tn attrs cm) = cm_env cm"
  "cm_subscribes_namespaces (record_subscribe conn req th tn attrs cm) = cm_subscribes_namespaces cm"
  "cm_track_rankings (record_subscribe conn req th tn attrs cm) = cm_track_rankings cm"
  "cm_next_ranking (record_subscribe conn req th tn attrs cm) = cm_next_ranking cm"
  "cm_pub_subscribes_by_req_id (record_subscribe conn req th tn attrs cm) = cm_pub_subscribes_by_req_id cm"
  by (simp_all add: record_subscribe_def Let_def)

text \<open>The invariant does not mention the tables of the subscribers.\<close>

lemma cm_wf_cong:
  assumes "cm_peer cm' = cm_peer cm" "cm_handlers cm' = cm_handlers cm" "cm_env cm' = cm_env cm"
    "cm_subscribes_namespaces cm' = cm_subscribes_namespaces cm" "cm_track_rankings cm' = cm_track_rankings cm"
    "cm_next_ranking cm' = cm_next_ranking cm" "cm_pub_subscribes_by_req_id cm' = cm_pub_subscribes_by_req_id cm"
  shows "cm_wf api cm' = cm_wf api cm" "grows cm cm'"
  using assms by (simp_all add: cm_wf_def pub_subscribes_def rankings_wf_def namespaces_wf_def has_handler_def has_ns_def grows_def)

lemma recorded_wf: "cm_wf api cm \<Longrightarrow> cm_wf api (recorded conn req th tn attrs cm)" "grows cm (recorded conn req th tn attrs cm)"
  using cm_wf_cong [of "record_subscribe conn req th tn attrs cm" cm] by (simp_all add: recorded_def grows_def)

lemma ProcessSubscribe_csafe:
  assumes "cm_wf api cm"
  shows "csafe api (recorded conn req th tn attrs cm) (ProcessSubscribe api now conn req th tn attrs cm)"
  unfolding ProcessSubscribe_def
proof (rule csafe_andthen)
  let ?cm = "recorded conn req th tn attrs cm"
  have w: "cm_wf api ?cm" using recorded_wf(1) [OF assms] .
  then show "csafe api ?cm (if conn = 0 \<and> req = 0 then cm_ok cm
      else on_peer (ClientSubscribe (c_quicr api) (fst tn) (snd tn) (subscribe_message_bytes api req tn attrs)) (record_subscribe conn req th tn attrs cm))"
    using csafe_on_peer [OF w, of "ClientSubscribe (c_quicr api) (fst tn) (snd tn) (subscribe_message_bytes api req tn attrs)"]
      ClientSubscribe_safe [of "cm_peer ?cm"]
    by (auto simp: recorded_def cm_wf_def [of api "record_subscribe conn req th tn attrs cm"])
next
  fix x cm1
  assume w1: "cm_wf api cm1"
  note h = range_handler [OF w1]
  show "csafe api cm1 (andthen (foreach (add_to_publisher api now conn req attrs) (key_range (th_fullname th) (pub_subscribes cm1)) cm1) (\<lambda>_ cm.
       foreach (\<lambda>(key, _). subscribe_to_announcer api now conn req th tn attrs key) (pub_namespace_active cm) cm))"
  proof (rule csafe_andthen, rule csafe_foreach [OF w1])
    fix entry cm2
    assume "entry \<in> set (key_range (th_fullname th) (pub_subscribes cm1))" "cm_wf api cm2" "cm_keep cm1 cm2"
    then show "csafe api cm2 (add_to_publisher api now conn req attrs entry cm2)" using h kept_handler(1) add_to_publisher_csafe by blast
  next
    fix u cm2
    assume "cm_wf api cm2"
    then show "csafe api cm2 (foreach (\<lambda>(key, _). subscribe_to_announcer api now conn req th tn attrs key) (pub_namespace_active cm2) cm2)"
      by (rule csafe_foreach) (simp add: subscribe_to_announcer_csafe split: prod.split)
  qed
qed

definition tsafe :: "cm_api \<Rightarrow> ClientManager \<Rightarrow> 'a cm_res \<Rightarrow> bool" where
  "tsafe api cm r \<longleftrightarrow> cm_wf api (fst r) \<and> grows cm (fst r) \<and> (\<forall>e. snd r = Inl e \<longrightarrow> is_exception e)"

lemma grows_trans: "grows a b \<Longrightarrow> grows b c \<Longrightarrow> grows a c"
  by (simp add: grows_def)

lemma csafe_tsafe: "csafe api cm r \<Longrightarrow> tsafe api cm r"
  by (simp add: csafe_def tsafe_def cm_keep_def)

lemma tsafe_after: "grows cm cm1 \<Longrightarrow> tsafe api cm1 r \<Longrightarrow> tsafe api cm r"
  using grows_trans by (auto simp: tsafe_def)

lemma tsafe_done: "cm_wf api cm' \<Longrightarrow> grows cm cm' \<Longrightarrow> tsafe api cm (cm', Inr x)"
  by (simp add: tsafe_def)

lemma tsafe_andthen:
  assumes "tsafe api cm r" and "\<And>x cm'. cm_wf api cm' \<Longrightarrow> grows cm cm' \<Longrightarrow> tsafe api cm' (f x cm')"
  shows "tsafe api cm (andthen r f)"
proof (cases r)
  case (Pair cm' x)
  show ?thesis
  proof (cases x)
    case (Inr y)
    have k: "cm_wf api cm'" "grows cm cm'" using assms(1) by (simp_all add: tsafe_def Pair)
    then show ?thesis using assms(2) [OF k, of y] grows_trans [OF k(2)] by (simp add: tsafe_def Pair Inr)
  qed (use assms(1) in \<open>simp add: tsafe_def Pair\<close>)
qed

lemma tsafe_foreach:
  assumes "cm_wf api cm" and "\<And>x cm'. x \<in> set xs \<Longrightarrow> cm_wf api cm' \<Longrightarrow> grows cm cm' \<Longrightarrow> tsafe api cm' (f x cm')"
  shows "tsafe api cm (foreach f xs cm)"
  using assms
proof (induction xs arbitrary: cm)
  case Nil
  then show ?case by (simp add: tsafe_def grows_def)
next
  case (Cons x xs)
  have "tsafe api cm' (foreach f xs cm')" if "cm_wf api cm'" "grows cm cm'" for cm'
    using that Cons.prems(2) by (intro Cons.IH) (auto intro: grows_trans)
  moreover have "grows cm cm" by (simp add: grows_def)
  ultimately show ?case using Cons.prems by (auto intro: tsafe_andthen)
qed

lemma SubscribeReceived_tsafe: "cm_wf api cm \<Longrightarrow> tsafe api cm (SubscribeReceived api now conn req tn attrs cm)"
proof -
  assume wf: "cm_wf api cm"
  let ?th = "track_hash api tn"
  let ?cm = "cm_emit (Cv_Resolve_Subscribe conn req (th_fullname ?th) True (GetLargestAvailable api tn cm)) cm"
  have w: "cm_wf api ?cm" "grows cm ?cm" using wf cm_keep_emit(1) [of cm] by (simp_all add: cm_keep_def)
  have "tsafe api cm (ProcessSubscribe api now conn req ?th tn attrs ?cm)"
    by (rule tsafe_after [OF grows_trans [OF w(2) recorded_wf(2)] csafe_tsafe [OF ProcessSubscribe_csafe [OF w(1)]]])
  moreover have "grows cm (cm_emit ev cm)" for ev using cm_keep_emit(1) by (simp add: cm_keep_def)
  ultimately show ?thesis using wf by (auto simp: SubscribeReceived_def Let_def intro: tsafe_done split: option.split)
qed

subsection \<open>Unsubscribing\<close>

lemma fold_mdel: "msorted m \<Longrightarrow> msorted (fold mdel ks m)" "set (fold mdel ks m) \<subseteq> set m"
  "map_of (fold mdel ks m) k = (if k \<in> set ks then None else map_of m k)"
proof -
  show "msorted m \<Longrightarrow> msorted (fold mdel ks m)" by (induction ks arbitrary: m) auto
  show "set (fold mdel ks m) \<subseteq> set m" by (induction ks arbitrary: m) (simp, simp, metis filter_is_subset mdel_def subset_trans)
  show "map_of (fold mdel ks m) k = (if k \<in> set ks then None else map_of m k)"
    by (induction ks arbitrary: m) auto
qed

lemma delete_handlers_csafe:
  assumes "cm_wf api cm"
  shows "cm_wf api (set_pub_subscribes (fold mdel ks (pub_subscribes cm)) cm)" "cm_keep cm (set_pub_subscribes (fold mdel ks (pub_subscribes cm)) cm)"
    "cm_wf api (set_pub_subscribes (mdel k (pub_subscribes cm)) cm)" "cm_keep cm (set_pub_subscribes (mdel k (pub_subscribes cm)) cm)"
proof -
  have m: "msorted (fold mdel ks (pub_subscribes cm))" for ks using assms by (simp add: cm_wf_def fold_mdel(1))
  have h: "has_handler cm r" if "(x, r) \<in> set (fold mdel ks (pub_subscribes cm))" for x r ks
    using that fold_mdel(2) pub_subscribes_handler [OF assms] by fast
  show "cm_wf api (set_pub_subscribes (fold mdel ks (pub_subscribes cm)) cm)" "cm_keep cm (set_pub_subscribes (fold mdel ks (pub_subscribes cm)) cm)"
    "cm_wf api (set_pub_subscribes (mdel k (pub_subscribes cm)) cm)" "cm_keep cm (set_pub_subscribes (mdel k (pub_subscribes cm)) cm)"
    using csafe_set_pub_subscribes [OF assms m h] m [of "[k]"] h [of _ _ "[k]"] csafe_set_pub_subscribes [OF assms, of "mdel k (pub_subscribes cm)"] by auto
qed

lemma pause_loop_csafe:
  assumes "cm_wf api cm" and "\<forall>entry \<in> set es. has_handler cm (snd entry)"
  shows "csafe api cm (pause_loop es subs remove cm)"
  using assms
proof (induction es arbitrary: subs remove cm)
  case (Cons entry es)
  have "csafe api cm (pause_or_unsubscribe entry cm)"
    unfolding pause_or_unsubscribe_def using Cons.prems
    by (intro csafe_with_handler) (auto intro!: csafe_andthen csafe_handler_do csafe_done)
  moreover have "csafe api cm' ((\<lambda>(s, rm) cm. pause_loop es (subs \<or> s) (if rm then remove @ [fst entry] else remove) cm) x cm')"
    if "cm_wf api cm'" "cm_keep cm cm'" for x cm'
  proof -
    have "\<forall>e \<in> set es. has_handler cm' (snd e)" using Cons.prems(2) kept_handler(1) [OF that(2)] by simp
    then show ?thesis using Cons.IH [OF that(1)] by (cases x) simp
  qed
  ultimately show ?case by (simp add: csafe_andthen)
qed (simp add: csafe_ok)

lemma RemoveOrPause_csafe:
  assumes "cm_wf api cm"
  shows "csafe api cm (RemoveOrPausePublisherSubscribe fh cm)"
proof (cases "PM_HasSubscribers fh (cm_peer cm)")
  case False
  have "csafe api cm1 (if has_subs then cm_ok cm2 else on_peer (ClientUnsubscribe fh) cm2)"
    if "cm_wf api cm1" and "cm2 = set_pub_subscribes (fold mdel remove (pub_subscribes cm1)) cm1" for cm1 cm2 has_subs remove
  proof (rule csafe_after)
    show "cm_keep cm1 cm2" using delete_handlers_csafe [OF that(1)] that(2) by simp
    have w: "cm_wf api cm2" using delete_handlers_csafe [OF that(1)] that(2) by simp
    then have "safe (cm_peer cm2) (ClientUnsubscribe fh (cm_peer cm2))" using ClientUnsubscribe_safe by (simp add: cm_wf_def)
    then show "csafe api cm2 (if has_subs then cm_ok cm2 else on_peer (ClientUnsubscribe fh) cm2)"
      using csafe_on_peer [OF w, of "ClientUnsubscribe fh"] w by (auto intro: csafe_ok)
  qed
  then show ?thesis
    using False assms pause_loop_csafe [OF assms, of "key_range fh (pub_subscribes cm)"] range_handler [OF assms]
    by (auto simp: RemoveOrPausePublisherSubscribe_def Let_def intro!: csafe_andthen)
qed (use assms in \<open>auto simp: RemoveOrPausePublisherSubscribe_def\<close>)

lemma remove_everywhere_csafe:
  assumes "cm_wf api cm"
  shows "csafe api cm (foreach (\<lambda>(_, r). handler_do r (RemoveSubscriber conn)) (key_range fh (pub_subscribes cm)) cm)"
  by (rule csafe_foreach [OF assms]) (use range_handler [OF assms] kept_handler(1) in \<open>auto intro!: csafe_handler_do split: prod.split\<close>)

lemma handler_do_returns:
  assumes "has_handler cm r"
  shows "snd (handler_do r f cm) = Inr ()" "has_handler (fst (handler_do r f cm)) x = has_handler cm x"
proof -
  obtain h where "map_of (cm_handlers cm) r = Some h" using assms by (auto simp: has_handler_def)
  then show "snd (handler_do r f cm) = Inr ()" "has_handler (fst (handler_do r f cm)) x = has_handler cm x"
    by (auto simp: handler_do_def on_handler_def has_handler_def split: prod.split)
qed

lemma remove_everywhere_returns:
  assumes "cm_wf api cm"
  shows "snd (foreach (\<lambda>(_, r). handler_do r (RemoveSubscriber conn)) (key_range fh (pub_subscribes cm)) cm) = Inr ()"
proof -
  let ?es = "key_range fh (pub_subscribes cm)" and ?P = "\<lambda>cm'. \<forall>e \<in> set (key_range fh (pub_subscribes cm)). has_handler cm' (snd e)"
  have "snd ((\<lambda>(_, r). handler_do r (RemoveSubscriber conn)) e cm') = Inr () \<and> ?P (fst ((\<lambda>(_, r). handler_do r (RemoveSubscriber conn)) e cm'))"
    if "e \<in> set ?es" "?P cm'" for e cm'
    using that handler_do_returns [of cm' "snd e" "RemoveSubscriber conn"] by (auto simp: case_prod_unfold)
  then show ?thesis using foreach_inv [of ?P cm ?es "\<lambda>(_, r). handler_do r (RemoveSubscriber conn)"] range_handler [OF assms] by blast
qed

lemma UnsubscribeReceived_tsafe:
  assumes "cm_wf api cm"
  shows "tsafe api cm (UnsubscribeReceived api conn req cm)"
proof -
  let ?del = "cm\<lparr>cm_subscribe_alias_req_id := mdel (conn, req) (cm_subscribe_alias_req_id cm)\<rparr>"
  have d: "cm_wf api ?del" "grows cm ?del" using assms cm_wf_cong [of ?del cm] by simp_all
  have t: "tsafe api cm1 (RemoveOrPausePublisherSubscribe fh (cm1\<lparr>cm_subscribe_active := a, cm_subscribes := s\<rparr>))" if "cm_wf api cm1" for cm1 fh a s
  proof (rule tsafe_after, rule cm_wf_cong(2))
    show "tsafe api (cm1\<lparr>cm_subscribe_active := a, cm_subscribes := s\<rparr>) (RemoveOrPausePublisherSubscribe fh (cm1\<lparr>cm_subscribe_active := a, cm_subscribes := s\<rparr>))"
      using that cm_wf_cong [of "cm1\<lparr>cm_subscribe_active := a, cm_subscribes := s\<rparr>" cm1] by (intro csafe_tsafe RemoveOrPause_csafe) simp
  qed simp_all
  have "tsafe api ?del (andthen (foreach (\<lambda>(_, r). handler_do r (RemoveSubscriber conn)) (key_range fh (pub_subscribes ?del)) ?del) (\<lambda>_ cm.
      RemoveOrPausePublisherSubscribe fh (cm\<lparr>cm_subscribe_active := a cm, cm_subscribes := s cm\<rparr>)))" for fh a s
    by (intro tsafe_andthen csafe_tsafe [OF remove_everywhere_csafe [OF d(1)]] t)
  from tsafe_after [OF d(2) this] show ?thesis
    using assms by (simp add: UnsubscribeReceived_def Let_def tsafe_done grows_def split: option.split)
qed

lemma TrackStatusReceived_csafe: "cm_wf api cm \<Longrightarrow> csafe api cm (TrackStatusReceived api conn req tn cm)"
proof -
  assume wf: "cm_wf api cm"
  have "has_handler cm (snd e)" if "find P (key_range fh (pub_subscribes cm)) = Some e" for P fh e
    using that range_handler [OF wf] by (metis find_Some_iff nth_mem)
  then show ?thesis using wf
    by (fastforce simp: TrackStatusReceived_def intro: csafe_with_handler csafe_done split: option.split)
qed

subsection \<open>Publishing\<close>

lemma announce_peers_csafe:
  assumes "cm_wf api cm" and "msg_throws_std (q_msg (c_quicr api))"
  shows "csafe api cm (announce_peers api now ref tn w p cm)"
  unfolding announce_peers_def
proof (rule csafe_andthen)
  have "pm_wf (cm_peer cm)" using assms(1) by (simp add: cm_wf_def)
  then show "csafe api cm (on_peer (ClientAnnounce (c_quicr api) ref (fst tn) (snd tn) w p) cm)"
    by (intro csafe_on_peer assms(1) ClientAnnounce_safe assms(2))
next
  fix x cm1
  assume "cm_wf api cm1"
  then show "csafe api cm1 (foreach (\<lambda>ev cm. case ev of
           CM_Process_Subscribe th ns name new_group \<Rightarrow>
             ProcessSubscribe api now 0 0 th (ns, name) ((c_default_attributes api)\<lparr>sa_priority := 10, sa_new_group_request_id := new_group\<rparr>) cm
         | _ \<Rightarrow> cm_ok cm)
         (drop (length (pm_log (cm_peer cm))) (pm_log (cm_peer cm1))) cm1)"
  proof (rule csafe_foreach)
    fix ev cm2
    assume w: "cm_wf api cm2"
    have "csafe api cm2 (ProcessSubscribe api now 0 0 th (ns, name) attrs cm2)" for th ns name attrs
      using ProcessSubscribe_csafe [OF w, of 0 0 th "(ns, name)" attrs now] by (simp add: recorded_def)
    then show "csafe api cm2 (case ev of
           CM_Process_Subscribe th ns name new_group \<Rightarrow>
             ProcessSubscribe api now 0 0 th (ns, name) ((c_default_attributes api)\<lparr>sa_priority := 10, sa_new_group_request_id := new_group\<rparr>) cm2
         | _ \<Rightarrow> cm_ok cm2)" using w by (auto split: event.split)
  qed
qed

lemma env_keep_trans: "env_keep a b \<Longrightarrow> env_keep b c \<Longrightarrow> env_keep a c"
  by (simp add: env_keep_def)

lemma env_keep_add_all: "env_keep e (snd (fold (\<lambda>a. AddSubscriber api (conn a) (req a) (prio a) (ttl a) (start a)) xs (h, e)))"
proof (induction xs arbitrary: h e)
  case (Cons a xs)
  obtain h' e' where "AddSubscriber api (conn a) (req a) (prio a) (ttl a) (start a) (h, e) = (h', e')" by fastforce
  moreover from this have "env_keep e e'" using env_keep_ops(1) by (metis snd_conv)
  ultimately show ?case using Cons.IH [of e' h'] env_keep_trans by simp
qed simp

lemma subscribe_active_track_csafe:
  assumes "cm_wf api cm"
  shows "csafe api cm (subscribe_active_track api conn ns entry cm)"
proof (cases "snd entry")
  case (Cons first rest)
  define cm1 where "cm1 = set_pub_namespace_active (mput (ns, conn) (insort_insert (as_track_alias first) (mat [] (pub_namespace_active cm) (ns, conn))) (pub_namespace_active cm)) cm"
  have w1: "cm_wf api cm1" "cm_keep cm cm1" using csafe_set_pub_namespace [OF assms] by (simp_all add: cm1_def)
  have "csafe api cm1 (let (cm, r) = new_handler api tn False cm1 in
      andthen (handler_do r (fold (\<lambda>a. AddSubscriber (c_sub api) (as_connection_handle a) (as_request_id a) (as_priority a)
                  (as_delivery_timeout a) (as_start_location a)) (snd entry)) cm) (\<lambda>_ cm.
      andthen (subscribe_track api conn r cm) (\<lambda>_ cm.
        cm_ok (set_pub_subscribes (mput (as_track_alias first, conn) r (pub_subscribes cm)) cm))))" for tn
  proof -
    obtain cm2 r where n: "new_handler api tn False cm1 = (cm2, r)" by fastforce
    note w2 = new_handler_csafe [OF w1(1) n]
    show ?thesis unfolding n prod.case Let_def
      by (rule csafe_after [OF w2(2)])
        (use w2 in \<open>auto intro!: csafe_andthen csafe_handler_do env_keep_add_all subscribe_track_csafe csafe_done
           intro: enter_handler_csafe(1,2) kept_handler(1) kept_handler(1) [OF cm_keep_trans]\<close>)
  qed
  note csafe_after [OF w1(2) this]
  then show ?thesis using assms w1
    by (simp add: subscribe_active_track_def Cons Let_def csafe_ok csafe_done flip: cm1_def split: option.split)
qed (use assms in \<open>simp add: subscribe_active_track_def csafe_ok\<close>)

lemma subscribe_to_publisher_csafe:
  assumes "cm_wf api cm"
  shows "csafe api cm (subscribe_to_publisher api conn ns cm)"
  unfolding subscribe_to_publisher_def
  using csafe_set_pub_namespace [OF assms]
  by (intro csafe_after [OF _ csafe_foreach]) (auto intro: subscribe_active_track_csafe)

lemma requests_same: "cm_wf api (cm\<lparr>cm_requests := m\<rparr>) = cm_wf api cm" "cm_keep cm (cm\<lparr>cm_requests := m\<rparr>)"
  by (rule cm_wf_cong; simp) (simp add: cm_keep_def grows_def has_handler_def has_ns_def sub_tables_def)

lemma PublishNamespaceReceived_csafe:
  assumes "cm_wf api cm" and "msg_throws_std (q_msg (c_quicr api))"
  shows "csafe api cm (PublishNamespaceReceived api now ref conn ns req cm)"
proof -
  define cm1 where "cm1 = cm\<lparr>cm_requests := mput (conn, req) ns (cm_requests cm)\<rparr>"
  have w1: "cm_wf api cm1" "cm_keep cm cm1" using assms(1) by (simp_all add: cm1_def requests_same)
  define cm2 where "cm2 = set_pub_namespace_active (mput (ns, conn) [] (pub_namespace_active cm1)) cm1"
  have w2: "cm_wf api cm2" "cm_keep cm1 cm2" using csafe_set_pub_namespace [OF w1(1)] by (simp_all add: cm2_def)
  have a: "csafe api cm2 (if conn = 0 then cm_ok (cm_emit ev cm2)
      else andthen (subscribe_to_publisher api conn ns (cm_emit ev cm2)) (\<lambda>_. announce_peers api now ref (ns, []) False True))" for ev
  proof (rule csafe_after [OF cm_keep_emit(1)], cases "conn = 0")
    case False
    have "csafe api (cm_emit ev cm2) (andthen (subscribe_to_publisher api conn ns (cm_emit ev cm2)) (\<lambda>_. announce_peers api now ref (ns, []) False True))"
      by (rule csafe_andthen [OF subscribe_to_publisher_csafe]) (simp_all add: w2(1) announce_peers_csafe assms(2))
    with False show "csafe api (cm_emit ev cm2) (if conn = 0 then cm_ok (cm_emit ev cm2)
        else andthen (subscribe_to_publisher api conn ns (cm_emit ev cm2)) (\<lambda>_. announce_peers api now ref (ns, []) False True))" by simp
  qed (simp add: w2(1) csafe_ok)
  show ?thesis
  proof (cases "map_of (pub_namespace_active cm1) (ns, conn)")
    case None
    then show ?thesis using csafe_after [OF cm_keep_trans [OF w1(2) w2(2)] a]
      by (simp add: PublishNamespaceReceived_def Let_def flip: cm1_def cm2_def)
  next
    case (Some tas)
    then show ?thesis using csafe_after [OF w1(2) subscribe_to_publisher_csafe [OF w1(1)]] csafe_done [OF w1, of "()"]
      by (simp add: PublishNamespaceReceived_def Let_def flip: cm1_def)
  qed
qed

lemma drop_announced_csafe: "cm_wf api cm \<Longrightarrow> cm_wf api (drop_announced conn ta cm) \<and> cm_keep cm (drop_announced conn ta cm)"
proof -
  assume wf: "cm_wf api cm"
  define cm1 where "cm1 = (case map_of (pub_subscribes cm) (ta, conn) of None \<Rightarrow> cm | Some r \<Rightarrow> cm_emit (Cv_Unsubscribe_Track conn r) cm)"
  have w: "cm_wf api cm1" "cm_keep cm cm1" using wf by (simp_all add: cm1_def split: option.split)
  show ?thesis using delete_handlers_csafe(3,4) [OF w(1)] cm_keep_trans [OF w(2)] by (simp add: drop_announced_def flip: cm1_def)
qed

lemma drop_all_csafe: "cm_wf api cm \<Longrightarrow> cm_wf api (fold (drop_announced conn) tas cm) \<and> cm_keep cm (fold (drop_announced conn) tas cm)"
proof (induction tas arbitrary: cm)
  case (Cons ta tas)
  then show ?case using drop_announced_csafe [OF Cons.prems, of conn ta] cm_keep_trans by fastforce
qed simp

lemma PublishNamespaceDoneReceived_csafe:
  assumes "cm_wf api cm" and "msg_throws_std (q_msg (c_quicr api))"
  shows "csafe api cm (PublishNamespaceDoneReceived api now ref conn req cm)"
proof (cases "map_of (cm_requests cm) (conn, req)")
  case (Some ns)
  have body: "csafe api cm1 (andthen (if conn \<noteq> 0 then on_peer (ClientUnannounce (c_quicr api) ref ns []) (set_pub_namespace_active m (fold (drop_announced conn) tas (cm_emit ev cm1)))
      else cm_ok (set_pub_namespace_active m (fold (drop_announced conn) tas (cm_emit ev cm1)))) (\<lambda>_ cm. (cm, Inr x)))" if "cm_wf api cm1" for cm1 ev tas m and x :: "u64 list"
  proof -
    let ?cm = "fold (drop_announced conn) tas (cm_emit ev cm1)"
    have w: "cm_wf api ?cm" "cm_keep cm1 ?cm" using drop_all_csafe [of api "cm_emit ev cm1" conn tas] that cm_keep_trans [OF cm_keep_emit(1)] by auto
    have w': "cm_wf api (set_pub_namespace_active m ?cm)" "cm_keep cm1 (set_pub_namespace_active m ?cm)"
      using csafe_set_pub_namespace [OF w(1)] cm_keep_trans [OF w(2)] by blast+
    then have "pm_wf (cm_peer (set_pub_namespace_active m ?cm))" by (simp only: cm_wf_def)
    then have "csafe api (set_pub_namespace_active m ?cm) (on_peer (ClientUnannounce (c_quicr api) ref ns []) (set_pub_namespace_active m ?cm))"
      unfolding ClientUnannounce_def by (intro csafe_on_peer w'(1) ClientAnnounce_safe assms(2))
    then show ?thesis using w' by (intro csafe_andthen) (auto intro: csafe_after csafe_done csafe_ok)
  qed
  show ?thesis unfolding PublishNamespaceDoneReceived_def Some option.case Let_def
    by (rule csafe_andthen [OF announce_peers_csafe [OF assms]], rule body)
qed (simp add: PublishNamespaceDoneReceived_def assms csafe_ok)

lemma publish_in_namespace_csafe:
  assumes "cm_wf api cm" and "has_ns cm n"
  shows "csafe api cm (publish_in_namespace api now tn prio ttl start n cm)"
proof -
  obtain p where p: "map_of (se_ns (cm_env cm)) n = Some p" using assms(2) by (auto simp: has_ns_def)
  have x: "is_exception e" if "snd (PNS_PublishTrack papi now r t st) = Inl e" for papi r t st e
    using that by (auto simp: PNS_PublishTrack_def Let_def split: prod.splits option.splits)
  have k: "csafe api cm (cm\<lparr>cm_env := (cm_env cm)\<lparr>se_pub := pe, se_next := nx, se_ns := mput n p' (se_ns (cm_env cm))\<rparr>\<rparr>, x)"
    if "\<And>e. x = Inl e \<Longrightarrow> is_exception e" for pe nx p' and x :: "unit res"
    using that assms(1)
    by (intro csafe_change [OF assms(1)]) (auto simp: cm_keep_def grows_def has_handler_def has_ns_def sub_tables_def cm_wf_def pub_subscribes_def)
  let ?r = "se_next (cm_env cm)"
  let ?t0 = "(sb_make_track (c_sub api) tn (sb_mode_stream (c_sub api)) prio ttl)\<lparr>pth_laps := True, pth_start_location := start\<rparr>"
  let ?t = "if pth_track_alias ?t0 = None then ?t0\<lparr>pth_track_alias := Some (th_fullname (track_hash api tn))\<rparr> else ?t0"
  let ?pub = "(se_pub (cm_env cm))\<lparr>pe_tracks := mput ?r ?t (pe_tracks (se_pub (cm_env cm)))\<rparr>"
  obtain p' pe y where f: "PNS_PublishTrack (sb_pub (c_sub api)) now ?r ?t (p, ?pub) = ((p', pe), y)" by (metis prod.collapse)
  have "publish_in_namespace api now tn prio ttl start n cm =
      (cm\<lparr>cm_env := (cm_env cm)\<lparr>se_pub := pe, se_next := Suc ?r, se_ns := mput n p' (se_ns (cm_env cm))\<rparr>\<rparr>, y)"
    using p f by (simp add: publish_in_namespace_def Let_def)
  moreover have "is_exception e" if "y = Inl e" for e using x [of "sb_pub (c_sub api)" ?r ?t "(p, ?pub)" e] f that by simp
  ultimately show ?thesis using k by simp
qed

lemma namespaces_live:
  assumes "cm_wf api cm" and "(prefix, conns) \<in> set (cm_subscribes_namespaces cm)" and "(c, n) \<in> set conns"
  shows "has_ns cm n"
  using assms by (auto simp: cm_wf_def namespaces_wf_def)

lemma publish_to_namespaces_csafe:
  assumes "cm_wf api cm"
  shows "csafe api cm (publish_to_namespaces api now conn attrs cm)"
  unfolding publish_to_namespaces_def
proof (rule csafe_foreach [OF assms], clarify)
  fix prefix conns cm1
  assume p: "(prefix, conns) \<in> set (cm_subscribes_namespaces cm)" and w1: "cm_wf api cm1" and k1: "cm_keep cm cm1"
  have "csafe api cm1 (foreach (\<lambda>(_, n) cm.
      if \<not> c_allow_self api \<and> ns_connection n cm = Some conn then cm_ok cm
      else publish_in_namespace api now (pa_track_full_name attrs) (pa_priority attrs) (ucast (pa_delivery_timeout attrs)) (pa_start_location attrs) n cm) conns cm1)"
  proof (rule csafe_foreach [OF w1], clarify)
    fix c n cm2
    assume "(c, n) \<in> set conns" and w2: "cm_wf api cm2" and k2: "cm_keep cm1 cm2"
    then have "has_ns cm2 n" using namespaces_live [OF assms p] kept_handler(2) [OF cm_keep_trans [OF k1 k2]] by blast
    then show "csafe api cm2 (if \<not> c_allow_self api \<and> ns_connection n cm2 = Some conn then cm_ok cm2
      else publish_in_namespace api now (pa_track_full_name attrs) (pa_priority attrs) (ucast (pa_delivery_timeout attrs)) (pa_start_location attrs) n cm2)"
      using publish_in_namespace_csafe [OF w2] w2 by (simp add: csafe_ok)
  qed
  then show "csafe api cm1 (if c_is_prefix_of api prefix (fst (pa_track_full_name attrs))
      then foreach (\<lambda>(_, n) cm.
        if \<not> c_allow_self api \<and> ns_connection n cm = Some conn then cm_ok cm
        else publish_in_namespace api now (pa_track_full_name attrs) (pa_priority attrs) (ucast (pa_delivery_timeout attrs)) (pa_start_location attrs) n cm) conns cm1
      else cm_ok cm1)" using w1 by (simp add: csafe_ok)
qed

lemma AddSubscribeNamespace_csafe:
  assumes "cm_wf api cm" and "has_handler cm r" and "has_ns cm n"
  shows "csafe api cm (on_handler r (AddSubscribeNamespace sapi n) cm)"
proof (rule csafe_on_handler [OF assms(1,2)])
  show "env_keep (cm_env cm) (snd (fst (AddSubscribeNamespace sapi n (h, cm_env cm))))" for h
    by (simp add: AddSubscribeNamespace_def Let_def Resume_def split: option.split)
  show "is_exception e" if "snd (AddSubscribeNamespace sapi n (h, cm_env cm)) = Inl e" for h e
    using that assms(3) by (auto simp: AddSubscribeNamespace_def Let_def has_ns_def split: if_splits)
qed

lemma attach_csafe:
  assumes "cm_wf api cm" and "has_handler cm r"
  shows "csafe api cm (attach_subscribers api fh r cm)" "csafe api cm (attach_namespaces api ns r cm)"
proof -
  show "csafe api cm (attach_subscribers api fh r cm)"
    unfolding attach_subscribers_def
    by (rule csafe_foreach [OF assms(1)]) (auto intro!: csafe_handler_do intro: kept_handler(1) [OF _ assms(2)])
  show "csafe api cm (attach_namespaces api ns r cm)"
    unfolding attach_namespaces_def
  proof (rule csafe_foreach [OF assms(1)], clarify)
    fix prefix conns cm1
    assume p: "(prefix, conns) \<in> set (cm_subscribes_namespaces cm)" and w1: "cm_wf api cm1" and k1: "cm_keep cm cm1"
    have "csafe api cm1 (foreach (\<lambda>(_, n). on_handler r (AddSubscribeNamespace (c_sub api) n)) conns cm1)"
    proof (rule csafe_foreach [OF w1], clarify)
      fix c n cm2
      assume "(c, n) \<in> set conns" and w2: "cm_wf api cm2" and k2: "cm_keep cm1 cm2"
      then show "csafe api cm2 (on_handler r (AddSubscribeNamespace (c_sub api) n) cm2)"
        using namespaces_live [OF assms(1) p] kept_handler [OF cm_keep_trans [OF k1 k2]] assms(2) by (intro AddSubscribeNamespace_csafe) blast+
    qed
    then show "csafe api cm1 (if m_same_prefix (q_msg (c_quicr api)) prefix ns
        then foreach (\<lambda>(_, n). on_handler r (AddSubscribeNamespace (c_sub api) n)) conns cm1 else cm_ok cm1)" using w1 by (simp add: csafe_ok)
  qed
qed

text \<open>Handing the new handler of a publisher its subscribers and its ranking.\<close>

lemma attach_all_csafe:
  assumes "cm_wf api cm" and "has_handler cm r"
  shows "csafe api cm (andthen (attach_subscribers api fh r cm) (\<lambda>_ cm.
      andthen (attach_namespaces api ns r cm) (\<lambda>_ cm.
      andthen (case map_of (cm_track_rankings cm) hash of
                 None \<Rightarrow> cm_ok cm
               | Some k \<Rightarrow> handler_do r (\<lambda>(h, e). (h\<lparr>sth_track_ranking := Some k\<rparr>, e)) cm) (\<lambda>_ cm.
        if has_subs then cm_ok cm else handler_do r Pause cm))))"
proof (rule csafe_andthen [OF attach_csafe(1) [OF assms]])
  fix u cm1
  assume w1: "cm_wf api cm1" and k1: "cm_keep cm cm1"
  note h1 = kept_handler(1) [OF k1 assms(2)]
  show "csafe api cm1 (andthen (attach_namespaces api ns r cm1) (\<lambda>_ cm.
      andthen (case map_of (cm_track_rankings cm) hash of
                 None \<Rightarrow> cm_ok cm
               | Some k \<Rightarrow> handler_do r (\<lambda>(h, e). (h\<lparr>sth_track_ranking := Some k\<rparr>, e)) cm) (\<lambda>_ cm.
        if has_subs then cm_ok cm else handler_do r Pause cm)))"
  proof (rule csafe_andthen [OF attach_csafe(2) [OF w1 h1]])
    fix v cm2
    assume w2: "cm_wf api cm2" and k2: "cm_keep cm1 cm2"
    note h2 = kept_handler(1) [OF k2 h1]
    show "csafe api cm2 (andthen (case map_of (cm_track_rankings cm2) hash of
                 None \<Rightarrow> cm_ok cm2
               | Some k \<Rightarrow> handler_do r (\<lambda>(h, e). (h\<lparr>sth_track_ranking := Some k\<rparr>, e)) cm2) (\<lambda>_ cm.
        if has_subs then cm_ok cm else handler_do r Pause cm))"
      by (rule csafe_andthen)
        (auto intro!: csafe_handler_do csafe_ok w2 h2 intro: kept_handler(1) [OF _ h2] split: option.split)
  qed
qed

lemma announce_publish_csafe:
  assumes "cm_wf api cm" and "has_handler cm r" and "msg_throws_std (q_msg (c_quicr api))"
  shows "csafe api cm (andthen (handler_do r (\<lambda>(h, e). (c_resolve_publish api conn req h, e))
      (cm_emit ev (cm\<lparr>cm_pub_subscribes_by_req_id := mput rq r (cm_pub_subscribes_by_req_id cm)\<rparr>))) (\<lambda>_. announce_peers api now ref tn w p))"
proof -
  let ?cm = "cm_emit ev (cm\<lparr>cm_pub_subscribes_by_req_id := mput rq r (cm_pub_subscribes_by_req_id cm)\<rparr>)"
  have w: "cm_wf api ?cm" "cm_keep cm ?cm" using enter_handler_csafe(3,4) [OF assms(1,2)] cm_keep_trans [OF _ cm_keep_emit(1)] by auto
  show ?thesis
    by (rule csafe_after [OF w(2)], rule csafe_andthen [OF csafe_handler_do])
      (use w kept_handler(1) [OF w(2) assms(2)] announce_peers_csafe [OF _ assms(3)] in auto)
qed

lemma PublishReceived_csafe:
  assumes "cm_wf api cm" and "msg_throws_std (q_msg (c_quicr api))"
  shows "csafe api cm (PublishReceived api now ticks ref conn req attrs cm)"
  unfolding PublishReceived_def Let_def
proof (rule csafe_andthen [OF publish_to_namespaces_csafe [OF assms(1)]], goal_cases)
  case (1 u cm1)
  let ?tn = "pa_track_full_name attrs" and ?peer = "conn = 0 \<and> req = 0"
  obtain cm2 r where n: "new_handler api ?tn True cm1 = (cm2, r)" by fastforce
  note w2 = new_handler_csafe [OF 1(1) n]
  show ?case unfolding n prod.case
  proof (rule csafe_after [OF w2(2)], rule csafe_andthen [OF csafe_handler_do [OF w2(1,3)]], simp, goal_cases)
    case (1 v cm3)
    define cm4 where "cm4 = (if pa_dynamic_groups attrs then cm_emit (Cv_Support_New_Group_Request r) cm3 else cm3)"
    have w4: "cm_wf api cm4" "cm_keep cm3 cm4" using 1(1) by (simp_all add: cm4_def)
    have h4: "has_handler cm4 r" using kept_handler(1) [OF cm_keep_trans [OF 1(2) w4(2)] w2(3)] .
    define cm5 where "cm5 = set_pub_subscribes (mput (th_fullname (track_hash api ?tn), conn) r (pub_subscribes cm4)) cm4"
    have w5: "cm_wf api cm5" "cm_keep cm4 cm5" using enter_handler_csafe(1,2) [OF w4(1) h4] by (simp_all add: cm5_def)
    note h5 = kept_handler(1) [OF w5(2) h4]
    have p: "csafe api cm5 (if ?peer then cm_ok cm5
        else andthen (handler_do r (\<lambda>(h, e). (c_resolve_publish api conn req h, e))
               (cm_emit (Cv_Resolve_Publish conn req r) (cm5\<lparr>cm_pub_subscribes_by_req_id := mput (req, conn) r (cm_pub_subscribes_by_req_id cm5)\<rparr>))) (\<lambda>_.
             announce_peers api now ref ?tn False False))"
      using announce_publish_csafe [OF w5(1) h5 assms(2)] w5(1) by (simp add: csafe_ok)
    show ?case
      by (rule csafe_after [OF cm_keep_trans [OF w4(2) w5(2)]], fold cm4_def, fold cm5_def, rule csafe_andthen [OF p], rule attach_all_csafe)
        (use kept_handler(1) [OF _ h5] in auto)
  qed
qed

lemma PublishDoneReceived_tsafe:
  assumes "cm_wf api cm" and "msg_throws_std (q_msg (c_quicr api))"
  shows "tsafe api cm (PublishDoneReceived api now ref conn req cm)"
proof (cases "map_of (cm_pub_subscribes_by_req_id cm) (req, conn)")
  case None
  then show ?thesis using assms by (simp add: PublishDoneReceived_def csafe_tsafe csafe_ok)
next
  case (Some r)
  then obtain h where h: "map_of (cm_handlers cm) r = Some h" using assms(1) map_of_SomeD [OF Some] by (fastforce simp: cm_wf_def has_handler_def)
  have u: "tsafe api cm1 (andthen (foreach (\<lambda>(c, rq). UnsubscribeReceived api c rq) unsub (set_pub_subscribes (mdel k (pub_subscribes cm1)) cm1)) (\<lambda>_ cm.
      cm_ok (cm\<lparr>cm_pub_subscribes_by_req_id := mdel rq (cm_pub_subscribes_by_req_id cm)\<rparr>)))" if w: "cm_wf api cm1" for cm1 k unsub rq
  proof (rule tsafe_after, rule_tac [2] tsafe_andthen)
    show "grows cm1 (set_pub_subscribes (mdel k (pub_subscribes cm1)) cm1)" by (simp add: grows_def)
    show "tsafe api (set_pub_subscribes (mdel k (pub_subscribes cm1)) cm1)
        (foreach (\<lambda>(c, rq). UnsubscribeReceived api c rq) unsub (set_pub_subscribes (mdel k (pub_subscribes cm1)) cm1))"
      by (rule tsafe_foreach [OF delete_handlers_csafe(3) [OF w]]) (auto intro: UnsubscribeReceived_tsafe)
    show "tsafe api cm' (cm_ok (cm'\<lparr>cm_pub_subscribes_by_req_id := mdel rq (cm_pub_subscribes_by_req_id cm')\<rparr>))" if "cm_wf api cm'" for cm'
      using that by (intro tsafe_done)
        (auto simp: cm_wf_def grows_def has_handler_def has_ns_def rankings_wf_def namespaces_wf_def pub_subscribes_def mdel_def)
  qed
  show ?thesis
    unfolding PublishDoneReceived_def Some option.case with_handler_def h Let_def
    by (rule tsafe_andthen [OF csafe_tsafe u]) (simp_all add: announce_peers_csafe assms csafe_ok)
qed

lemma PurgePublishState_safe:
  assumes "cm_wf api cm"
  shows "cm_wf api (PurgePublishState conn cm)" "grows cm (PurgePublishState conn cm)"
  using csafe_set_pub_namespace(1) [OF delete_handlers_csafe(1) [OF assms]]
    cm_keep_trans [OF delete_handlers_csafe(2) [OF assms] csafe_set_pub_namespace(2) [OF delete_handlers_csafe(1) [OF assms]]]
  by (auto simp: PurgePublishState_def Let_def cm_keep_def)

lemma NewGroupRequested_csafe:
  assumes "cm_wf api cm" and "msg_throws_std (q_msg (c_quicr api))"
  shows "csafe api cm (NewGroupRequested api now tn g cm)"
  unfolding NewGroupRequested_def
proof (rule csafe_andthen)
  have "pm_wf (cm_peer cm)" using assms(1) by (simp add: cm_wf_def)
  then show "csafe api cm (on_peer (ClientSubscribeUpdate (c_quicr api) (fst tn) (snd tn) (c_new_group_update api)) cm)"
    by (intro csafe_on_peer assms(1) ClientSubscribeUpdate_safe assms(2))
next
  fix x cm1
  assume w1: "cm_wf api cm1"
  show "csafe api cm1 (foreach (\<lambda>(_, r). with_handler r (\<lambda>h cm.
           if wants_new_group g h
           then andthen (handler_do r (\<lambda>(h, e). (c_set_new_group api g h, e)) cm) (\<lambda>_. DampenOrUpdateTrackSubscription api now r True)
           else cm_ok cm)) (key_range (th_fullname (track_hash api tn)) (pub_subscribes cm1)) cm1)"
  proof (rule csafe_foreach [OF w1], clarify)
    fix c1 c2 r cm2
    assume e: "((c1, c2), r) \<in> set (key_range (th_fullname (track_hash api tn)) (pub_subscribes cm1))" and w2: "cm_wf api cm2" and k2: "cm_keep cm1 cm2"
    have h2: "has_handler cm2 r" using range_handler [OF w1 e] kept_handler(1) [OF k2] by simp
    have "csafe api cm2 (andthen (handler_do r (\<lambda>(h, e). (c_set_new_group api g h, e)) cm2) (\<lambda>_. DampenOrUpdateTrackSubscription api now r True))"
      by (rule csafe_andthen [OF csafe_handler_do [OF w2 h2]]) (auto intro: Dampen_csafe kept_handler(1) [OF _ h2])
    then show "csafe api cm2 (with_handler r (\<lambda>h cm.
           if wants_new_group g h
           then andthen (handler_do r (\<lambda>(h, e). (c_set_new_group api g h, e)) cm) (\<lambda>_. DampenOrUpdateTrackSubscription api now r True)
           else cm_ok cm) cm2)"
      using w2 by (intro csafe_with_handler [OF h2]) (simp add: csafe_ok)
  qed
qed

lemma STH_StatusChanged_csafe:
  assumes "cm_wf api cm" and "has_handler cm r"
  shows "csafe api cm (STH_StatusChanged r status cm)"
proof -
  have "csafe api cm (cm_ok (set_pub_subscribes (mdel k (pub_subscribes (set_pub_namespace_active m cm))) (set_pub_namespace_active m cm)))" for k m
    using delete_handlers_csafe(3,4) [OF csafe_set_pub_namespace(1) [OF assms(1), of m], of k] cm_keep_trans [OF csafe_set_pub_namespace(2) [OF assms(1), of m]]
    by (intro csafe_done) simp_all
  then show ?thesis unfolding STH_StatusChanged_def
    by (intro csafe_with_handler [OF assms(2)]) (auto simp: Let_def assms(1) csafe_throw csafe_ok split: option.split)
qed

subsection \<open>Namespace subscriptions\<close>

definition has_ranking :: "ClientManager \<Rightarrow> kref \<Rightarrow> bool" where
  "has_ranking cm k \<longleftrightarrow> map_of (se_rankings (cm_env cm)) k \<noteq> None"

lemma on_ranking_csafe:
  assumes "cm_wf api cm" and "has_ranking cm k"
  shows "csafe api cm (on_ranking k f cm) \<and> has_ranking (fst (on_ranking k f cm)) k"
proof -
  obtain r where r: "map_of (se_rankings (cm_env cm)) k = Some r" using assms(2) by (auto simp: has_ranking_def)
  show ?thesis using assms(1)
    by (auto simp: on_ranking_def r has_ranking_def cm_keep_def grows_def has_handler_def has_ns_def sub_tables_def cm_wf_def pub_subscribes_def
        intro!: csafe_change [OF assms(1)])
qed

lemma on_namespace_csafe:
  assumes "cm_wf api cm" and "has_ns cm n"
  shows "csafe api cm (on_namespace n f cm)" "has_ranking (fst (on_namespace n f cm)) k = has_ranking cm k"
proof -
  obtain p where p: "map_of (se_ns (cm_env cm)) n = Some p" using assms(2) by (auto simp: has_ns_def)
  show "csafe api cm (on_namespace n f cm)" using assms(1)
    by (auto simp: on_namespace_def p cm_keep_def grows_def has_handler_def has_ns_def sub_tables_def cm_wf_def pub_subscribes_def
        intro!: csafe_change [OF assms(1)])
  show "has_ranking (fst (on_namespace n f cm)) k = has_ranking cm k" by (simp add: on_namespace_def p has_ranking_def)
qed

lemma apply_filter_csafe:
  assumes "cm_wf api cm" and "has_ranking cm k" and "has_ns cm n"
  shows "csafe api cm (apply_filter filt n k cm) \<and> has_ranking (fst (apply_filter filt n k cm)) k"
proof (cases filt)
  case (Some tf)
  let ?f = "\<lambda>r. if tr_inactive_age_ms r < tf_timeout tf then r\<lparr>tr_inactive_age_ms := tf_timeout tf\<rparr> else r"
  obtain cm1 where c1: "on_ranking k ?f cm = cm_ok cm1" using assms(2) by (auto simp: on_ranking_def has_ranking_def)
  have w1: "cm_wf api cm1" "cm_keep cm cm1" "has_ranking cm1 k" using on_ranking_csafe [OF assms(1,2), of ?f] by (simp_all add: c1 csafe_def)
  note n1 = on_namespace_csafe [OF w1(1) kept_handler(2) [OF w1(2) assms(3)]]
  show ?thesis using csafe_after [OF w1(2) n1(1)] n1(2) w1(3) by (simp add: apply_filter_def Some c1)
qed (simp add: apply_filter_def assms csafe_ok)

text \<open>The new namespace handler and its entry, before its prefix has a ranking.\<close>

lemma enter_namespace_eq:
  assumes "enter_namespace api conn prefix cm = (cm', handler, n)" and "msorted (cm_subscribes_namespaces cm)"
  shows "handler = cm_next_ns cm" "has_ns cm' handler" "grows cm cm'"
    "cm_subscribes_namespaces cm' = mput prefix (fst (mtry conn handler (mat [] (cm_subscribes_namespaces cm) prefix))) (cm_subscribes_namespaces cm)"
    "n = mat handler (mat [] (cm_subscribes_namespaces cm) prefix) conn"
    "cm_peer cm' = cm_peer cm" "cm_handlers cm' = cm_handlers cm" "cm_track_rankings cm' = cm_track_rankings cm"
    "se_rankings (cm_env cm') = se_rankings (cm_env cm)" "cm_next_ranking cm' = cm_next_ranking cm"
    "cm_pub_subscribes_by_req_id cm' = cm_pub_subscribes_by_req_id cm"
proof -
  let ?nss = "cm_subscribes_namespaces cm"
  have m: "mat [] (fst (mtry prefix [] ?nss)) prefix = mat [] ?nss prefix" by (simp add: mat_def map_of_mtry split: option.split)
  have p: "mput prefix v (fst (mtry prefix [] ?nss)) = mput prefix v ?nss" for v using assms(2) by (simp add: fst_mtry)
  have n: "mat handler (fst (mtry conn handler c)) conn = mat handler c conn" for c by (simp add: mat_def map_of_mtry split: option.split)
  show "handler = cm_next_ns cm" "has_ns cm' handler" "grows cm cm'"
    "cm_subscribes_namespaces cm' = mput prefix (fst (mtry conn handler (mat [] ?nss prefix))) ?nss"
    "n = mat handler (mat [] ?nss prefix) conn"
    "cm_peer cm' = cm_peer cm" "cm_handlers cm' = cm_handlers cm" "cm_track_rankings cm' = cm_track_rankings cm"
    "se_rankings (cm_env cm') = se_rankings (cm_env cm)" "cm_next_ranking cm' = cm_next_ranking cm"
    "cm_pub_subscribes_by_req_id cm' = cm_pub_subscribes_by_req_id cm"
    using assms(1) m p n
    by (auto simp: enter_namespace_def new_namespace_def Let_def cm_emit_def has_ns_def grows_def has_handler_def)
qed

text \<open>What the two steps establish; \<open>collides\<close> is another subscribed prefix with the same hash.\<close>

definition collides :: "cm_api \<Rightarrow> bytes list \<Rightarrow> ClientManager \<Rightarrow> bool" where
  "collides api prefix cm \<longleftrightarrow> (\<exists>p \<in> fst ` set (cm_subscribes_namespaces cm). p \<noteq> prefix \<and> namespace_hash api p = namespace_hash api prefix)"

lemma ranking_at_wf:
  assumes "rankings_wf cm" and "ranking_at hash cm = (cm', k)"
  shows "rankings_wf cm'" "has_ranking cm' k" "map_of (cm_track_rankings cm') h \<noteq> None \<longleftrightarrow> h = hash \<or> map_of (cm_track_rankings cm) h \<noteq> None"
    "cm_subscribes_namespaces cm' = cm_subscribes_namespaces cm" "cm_peer cm' = cm_peer cm" "cm_handlers cm' = cm_handlers cm"
    "cm_pub_subscribes_by_req_id cm' = cm_pub_subscribes_by_req_id cm" "se_ns (cm_env cm') = se_ns (cm_env cm)"
proof -
  show "cm_subscribes_namespaces cm' = cm_subscribes_namespaces cm" "cm_peer cm' = cm_peer cm" "cm_handlers cm' = cm_handlers cm"
    "cm_pub_subscribes_by_req_id cm' = cm_pub_subscribes_by_req_id cm" "se_ns (cm_env cm') = se_ns (cm_env cm)"
    using assms(2) by (auto simp: ranking_at_def split: option.splits)
  show "map_of (cm_track_rankings cm') h \<noteq> None \<longleftrightarrow> h = hash \<or> map_of (cm_track_rankings cm) h \<noteq> None"
    using assms(2) by (auto simp: ranking_at_def split: option.splits)
  have "rankings_wf cm' \<and> has_ranking cm' k"
  proof (cases "map_of (cm_track_rankings cm) hash")
    case (Some k')
    then show ?thesis using assms map_of_SomeD [OF Some] by (auto simp: ranking_at_def rankings_wf_def has_ranking_def)
  next
    case None
    let ?t = "cm_track_rankings cm"
    have m: "msorted ?t" and d: "distinct (map snd ?t)" and b: "\<forall>(h, k) \<in> set ?t. map_of (se_rankings (cm_env cm)) k \<noteq> None \<and> k < cm_next_ranking cm"
      using assms(1) by (simp_all add: rankings_wf_def)
    have s: "set (mput hash (cm_next_ranking cm) ?t) = insert (hash, cm_next_ranking cm) (set ?t)"
      using m None by (force simp: set_mput map_of_eq_None_iff)
    have "inj_on snd (set (mput hash (cm_next_ranking cm) ?t))"
      using d b s by (auto simp: distinct_map inj_on_def)
    then have "distinct (map snd (mput hash (cm_next_ranking cm) ?t))"
      using msorted_distinct [OF msorted_mput [OF m, of hash "cm_next_ranking cm"]] by (simp add: distinct_map)
    moreover have "\<forall>(h, k) \<in> set (mput hash (cm_next_ranking cm) ?t). map_of (mput (cm_next_ranking cm) TrackRanking_init (se_rankings (cm_env cm))) k \<noteq> None
        \<and> k < Suc (cm_next_ranking cm)" using b s by (fastforce simp: less_Suc_eq)
    moreover have "cm' = cm\<lparr>cm_track_rankings := mput hash (cm_next_ranking cm) ?t,
        cm_env := (cm_env cm)\<lparr>se_rankings := mput (cm_next_ranking cm) TrackRanking_init (se_rankings (cm_env cm))\<rparr>,
        cm_next_ranking := Suc (cm_next_ranking cm)\<rparr>" "k = cm_next_ranking cm"
      using assms(2) None by (auto simp: ranking_at_def)
    ultimately show ?thesis using m by (simp add: rankings_wf_def has_ranking_def)
  qed
  then show "rankings_wf cm'" "has_ranking cm' k" by blast+
qed

lemma namespace_entry:
  assumes "namespaces_wf api cm" and "map_of (cm_subscribes_namespaces cm) prefix = Some conns"
  shows "conns \<noteq> []" "msorted conns" "\<forall>(c, n) \<in> set conns. has_ns cm n" "map_of (cm_track_rankings cm) (namespace_hash api prefix) \<noteq> None"
  using assms(1) map_of_SomeD [OF assms(2)] unfolding namespaces_wf_def by blast+

lemma enter_with_ranking_wf:
  assumes wf: "cm_wf api cm" and nc: "\<not> collides api prefix cm"
    and e: "enter_namespace api conn prefix cm = (cm1, handler, n)" and r: "ranking_at (namespace_hash api prefix) cm1 = (cm2, k)"
  shows "cm_wf api cm2" "grows cm cm2" "has_ns cm2 handler" "has_ns cm2 n" "has_ranking cm2 k"
proof -
  let ?nss = "cm_subscribes_namespaces cm" let ?c = "mat [] ?nss prefix"
  have nw: "namespaces_wf api cm" and m: "msorted ?nss" using wf by (simp_all add: cm_wf_def namespaces_wf_def)
  note e = enter_namespace_eq [OF e m]
  have "rankings_wf cm1" using wf e by (simp add: cm_wf_def rankings_wf_def)
  note r = ranking_at_wf [OF this r]
  have ns: "has_ns cm2 = has_ns cm1" using r(8) by (simp add: has_ns_def fun_eq_iff)
  have g: "has_ns cm x \<Longrightarrow> has_ns cm2 x" for x using e(3) ns by (simp add: grows_def)
  show h: "has_ns cm2 handler" using e(2) ns by simp
  have c: "msorted ?c \<and> (\<forall>(c, x) \<in> set ?c. has_ns cm x)"
    using namespace_entry [OF nw] by (cases "map_of ?nss prefix") (simp_all add: mat_def)
  show "has_ns cm2 n"
  proof (cases "map_of ?c conn")
    case (Some x)
    then show ?thesis using c g e(5) map_of_SomeD [OF Some] by (auto simp: mat_def)
  qed (use h e(5) in \<open>simp add: mat_def\<close>)
  show "grows cm cm2" using e(3,7) r(6) ns by (simp add: grows_def has_handler_def)
  show "has_ranking cm2 k" using r(2) .
  have conns: "fst (mtry conn handler ?c) \<noteq> []" "msorted (fst (mtry conn handler ?c))" "\<forall>(c, x) \<in> set (fst (mtry conn handler ?c)). has_ns cm2 x"
  proof -
    have "map_of (fst (mtry conn handler ?c)) conn \<noteq> None" by (simp add: map_of_mtry)
    then show "fst (mtry conn handler ?c) \<noteq> []" by auto
    show "msorted (fst (mtry conn handler ?c))" using c by simp
    show "\<forall>(c, x) \<in> set (fst (mtry conn handler ?c)). has_ns cm2 x" using c g h by (auto simp: fst_mtry set_mput)
  qed
  have s: "set (cm_subscribes_namespaces cm2) = insert (prefix, fst (mtry conn handler ?c)) {p \<in> set ?nss. fst p \<noteq> prefix}"
    using e(4) r(4) m by (simp add: set_mput)
  have "namespaces_wf api cm2"
    unfolding namespaces_wf_def
  proof (intro conjI)
    show "msorted (cm_subscribes_namespaces cm2)" using e(4) r(4) m by simp
    show "\<forall>(prefix, conns) \<in> set (cm_subscribes_namespaces cm2). conns \<noteq> [] \<and> msorted conns \<and> (\<forall>(c, n) \<in> set conns. has_ns cm2 n)
        \<and> map_of (cm_track_rankings cm2) (namespace_hash api prefix) \<noteq> None"
      using nw conns g r(3) e(8) unfolding s namespaces_wf_def by fastforce
    have "fst ` set (cm_subscribes_namespaces cm2) \<subseteq> insert prefix (fst ` set ?nss)" using s by auto
    moreover have "inj_on (namespace_hash api) (insert prefix (fst ` set ?nss))"
      using nw nc by (auto simp: namespaces_wf_def collides_def inj_on_insert)
    ultimately show "inj_on (namespace_hash api) (fst ` set (cm_subscribes_namespaces cm2))" by (rule inj_on_subset [rotated])
  qed
  then show "cm_wf api cm2" using wf e r by (simp add: cm_wf_def pub_subscribes_def has_handler_def)
qed

lemma offer_track_csafe:
  assumes "cm_wf api cm" and "has_handler cm (snd entry)" and "has_ns cm n"
  shows "csafe api cm (offer_track api now conn prefix n k entry cm)"
proof -
  have "csafe api cm (andthen (on_handler (snd entry) (AddSubscribeNamespace (c_sub api) n) cm) (\<lambda>_ cm.
          andthen (handler_do (snd entry) (\<lambda>(h, e). (h\<lparr>sth_track_ranking := Some k\<rparr>, e)) cm) (\<lambda>_.
            publish_in_namespace api now tn prio ttl start n)))" for tn prio ttl start
    by (rule csafe_andthen [OF AddSubscribeNamespace_csafe [OF assms]], rule csafe_andthen [OF csafe_handler_do])
      (use assms kept_handler in \<open>auto intro!: publish_in_namespace_csafe\<close>)
  then have "csafe api cm (with_handler (snd entry) (\<lambda>h cm.
        if \<not> c_is_prefix_of api prefix (fst (sth_full_track_name h)) then cm_ok cm
        else let start = (case GetLargestAvailable api (sth_full_track_name h) cm of None \<Rightarrow> (0, 0) | Some l \<Rightarrow> l) in
          andthen (on_handler (snd entry) (AddSubscribeNamespace (c_sub api) n) cm) (\<lambda>_ cm.
          andthen (handler_do (snd entry) (\<lambda>(h, e). (h\<lparr>sth_track_ranking := Some k\<rparr>, e)) cm) (\<lambda>_.
            publish_in_namespace api now (sth_full_track_name h) (sth_priority h) (ucast (delivery_ttl h)) start n))) cm)"
    by (intro csafe_with_handler [OF assms(2)]) (simp add: Let_def csafe_ok assms(1))
  then show ?thesis unfolding offer_track_def using assms(1) by (simp add: csafe_ok)
qed

text \<open>After the entry is made, nothing the operation does changes the subscription tables.\<close>

lemma SubscribeNamespaceReceived_steps:
  assumes wf: "cm_wf api cm" and nc: "\<not> collides api prefix cm"
  shows "\<exists>cm2. csafe api cm2 (SubscribeNamespaceReceived api now conn ctx prefix req filt cm) \<and> grows cm cm2
    \<and> fst (sub_tables cm2) = fst (sub_tables cm) \<and> fst (snd (sub_tables cm2)) = fst (snd (sub_tables cm))"
proof -
  obtain cm1 handler n where e: "enter_namespace api conn prefix cm = (cm1, handler, n)" by (metis prod.collapse)
  obtain cm2 k where r: "ranking_at (namespace_hash api prefix) cm1 = (cm2, k)" by fastforce
  note w = enter_with_ranking_wf [OF wf nc e r]
  obtain cm3 x where a: "apply_filter filt handler k cm2 = (cm3, x)" by fastforce
  have w3: "cm_wf api cm3" "cm_keep cm2 cm3" "has_ranking cm3 k" "\<forall>e. x = Inl e \<longrightarrow> is_exception e"
    using apply_filter_csafe [OF w(1,5,3), of filt] by (simp_all add: a csafe_def)
  have "csafe api cm3 (andthen (on_ranking k f cm3) (\<lambda>_ cm.
      foreach (offer_track api now conn prefix n k) (pub_subscribes cm) (cm_emit (ev cm) cm)))" for f ev
  proof (rule csafe_andthen)
    show "csafe api cm3 (on_ranking k f cm3)" using on_ranking_csafe [OF w3(1,3)] by blast
    fix u cm4
    assume w4: "cm_wf api cm4" and k4: "cm_keep cm3 cm4"
    have n4: "has_ns cm4 n" using kept_handler(2) [OF cm_keep_trans [OF w3(2) k4] w(4)] .
    show "csafe api cm4 (foreach (offer_track api now conn prefix n k) (pub_subscribes cm4) (cm_emit (ev cm4) cm4))"
    proof (rule csafe_after [OF cm_keep_emit(1)], rule csafe_foreach)
      fix entry cm5
      assume "entry \<in> set (pub_subscribes cm4)" "cm_wf api cm5" and k5: "cm_keep (cm_emit (ev cm4) cm4) cm5"
      moreover have "cm_keep cm4 cm5" using cm_keep_trans [OF cm_keep_emit(1) k5] .
      moreover have "has_handler cm4 (snd entry)" using pub_subscribes_handler [OF w4, of "fst entry" "snd entry"] calculation(1) by simp
      ultimately show "csafe api cm5 (offer_track api now conn prefix n k entry cm5)"
        using n4 by (intro offer_track_csafe) (simp_all add: kept_handler)
    qed (simp add: w4)
  qed
  then have "csafe api cm2 (andthen (cm3, x) (\<lambda>_ cm. andthen (on_ranking k (f cm) cm) (\<lambda>_ cm.
      foreach (offer_track api now conn prefix n k) (pub_subscribes cm) (cm_emit (ev cm) cm))))" for f ev
    using w3 by (cases x) (auto simp: csafe_def intro: cm_keep_trans)
  then have "csafe api cm2 (SubscribeNamespaceReceived api now conn ctx prefix req filt cm)"
    by (simp add: SubscribeNamespaceReceived_def e r a Let_def)
  moreover have "fst (sub_tables cm1) = fst (sub_tables cm)" "fst (snd (sub_tables cm1)) = fst (snd (sub_tables cm))"
    using e by (auto simp: enter_namespace_def new_namespace_def Let_def cm_emit_def sub_tables_def)
  moreover have "fst (sub_tables cm2) = fst (sub_tables cm1)" "fst (snd (sub_tables cm2)) = fst (snd (sub_tables cm1))"
    using r by (auto simp: ranking_at_def sub_tables_def split: option.splits)
  ultimately show ?thesis using w(2) by (intro exI [of _ cm2]) simp
qed

lemma SubscribeNamespaceReceived_tsafe:
  "cm_wf api cm \<Longrightarrow> \<not> collides api prefix cm \<Longrightarrow> tsafe api cm (SubscribeNamespaceReceived api now conn ctx prefix req filt cm)"
  using SubscribeNamespaceReceived_steps [of api cm prefix now conn ctx req filt] tsafe_after csafe_tsafe by blast

text \<open>Leaving a namespace: the loop may fall over an entry that its own body erased, and that is all that can go wrong.\<close>

definition usafe :: "cm_api \<Rightarrow> ClientManager \<Rightarrow> 'a cm_res \<Rightarrow> bool" where
  "usafe api cm r \<longleftrightarrow> cm_wf api (fst r) \<and> grows cm (fst r) \<and> (\<forall>e. snd r = Inl e \<longrightarrow> is_exception e \<or> e = Bad_Iterator)"

lemma tsafe_usafe: "tsafe api cm r \<Longrightarrow> usafe api cm r"
  by (simp add: tsafe_def usafe_def)

lemma usafe_andthen:
  assumes "usafe api cm r" and "\<And>x cm'. cm_wf api cm' \<Longrightarrow> grows cm cm' \<Longrightarrow> usafe api cm' (f x cm')"
  shows "usafe api cm (andthen r f)"
proof (cases r)
  case (Pair cm' x)
  show ?thesis
  proof (cases x)
    case (Inr y)
    have k: "cm_wf api cm'" "grows cm cm'" using assms(1) by (simp_all add: usafe_def Pair)
    then show ?thesis using assms(2) [OF k, of y] grows_trans [OF k(2)] by (simp add: usafe_def Pair Inr)
  qed (use assms(1) in \<open>simp add: usafe_def Pair\<close>)
qed

lemma usafe_foreach:
  assumes "cm_wf api cm" and "\<And>x cm'. x \<in> set xs \<Longrightarrow> cm_wf api cm' \<Longrightarrow> grows cm cm' \<Longrightarrow> usafe api cm' (f x cm')"
  shows "usafe api cm (foreach f xs cm)"
  using assms
proof (induction xs arbitrary: cm)
  case Nil
  then show ?case by (simp add: usafe_def grows_def)
next
  case (Cons x xs)
  have "usafe api cm' (foreach f xs cm')" if "cm_wf api cm'" "grows cm cm'" for cm'
    using that Cons.prems(2) by (intro Cons.IH) (auto intro: grows_trans)
  moreover have "grows cm cm" by (simp add: grows_def)
  ultimately show ?case using Cons.prems by (auto intro: usafe_andthen)
qed

lemma withdraw_track_csafe:
  assumes "cm_wf api cm" and "has_handler cm (snd entry)" and "has_ns cm n" and "map_of (cm_subscribes_namespaces cm) prefix \<noteq> None"
  shows "csafe api cm (withdraw_track api conn prefix n entry cm)"
proof -
  have "csafe api cm (andthen (on_handler (snd entry) (RemoveSubscribeNamespace (c_sub api) n) cm) (\<lambda>_ cm.
             andthen (case map_of (cm_track_rankings cm) (namespace_hash api prefix) of
                        None \<Rightarrow> (cm, Inl Null_Deref)
                      | Some k \<Rightarrow> on_ranking k (RemoveNamespaceHandler (namespace_hash api) n (rank_world_of cm)) cm) (\<lambda>_.
               RemoveOrPausePublisherSubscribe (fst (fst entry)))))"
  proof (rule csafe_andthen [OF csafe_on_handler [OF assms(1,2)]])
    show "env_keep (cm_env cm) (snd (fst (RemoveSubscribeNamespace (c_sub api) n (h, cm_env cm))))" for h
      by (simp add: RemoveSubscribeNamespace_def Let_def split: option.split)
    show "is_exception e" if "snd (RemoveSubscribeNamespace (c_sub api) n (h, cm_env cm)) = Inl e" for h e
      using that assms(3) by (auto simp: RemoveSubscribeNamespace_def Let_def has_ns_def split: option.splits)
  next
    fix u cm1
    assume w1: "cm_wf api cm1" and k1: "cm_keep cm cm1"
    have "map_of (cm_subscribes_namespaces cm1) prefix \<noteq> None" using assms(4) k1 by (simp add: cm_keep_def sub_tables_def)
    then obtain k where k: "map_of (cm_track_rankings cm1) (namespace_hash api prefix) = Some k"
      using namespace_entry(4) [of api cm1 prefix] w1 by (auto simp: cm_wf_def)
    then have "has_ranking cm1 k" using w1 map_of_SomeD [OF k] by (auto simp: cm_wf_def rankings_wf_def has_ranking_def)
    then show "csafe api cm1 (andthen (case map_of (cm_track_rankings cm1) (namespace_hash api prefix) of
                        None \<Rightarrow> (cm1, Inl Null_Deref)
                      | Some k \<Rightarrow> on_ranking k (RemoveNamespaceHandler (namespace_hash api) n (rank_world_of cm1)) cm1) (\<lambda>_.
               RemoveOrPausePublisherSubscribe (fst (fst entry))))"
      unfolding k option.case by (intro csafe_andthen conjunct1 [OF on_ranking_csafe [OF w1]] RemoveOrPause_csafe)
  qed
  then show ?thesis unfolding withdraw_track_def
    using assms(1) csafe_with_handler [OF assms(2), of api "\<lambda>h cm. if \<not> m_same_prefix (q_msg (c_quicr api)) prefix (fst (sth_full_track_name h)) then cm_ok cm
        else andthen (on_handler (snd entry) (RemoveSubscribeNamespace (c_sub api) n) cm) (\<lambda>_ cm.
             andthen (case map_of (cm_track_rankings cm) (namespace_hash api prefix) of
                        None \<Rightarrow> (cm, Inl Null_Deref)
                      | Some k \<Rightarrow> on_ranking k (RemoveNamespaceHandler (namespace_hash api) n (rank_world_of cm)) cm) (\<lambda>_.
               RemoveOrPausePublisherSubscribe (fst (fst entry))))"]
    by (simp add: csafe_ok)
qed

text \<open>The loop keeps the tables of the subscribers and ends well or on the erased entry.\<close>

lemma withdraw_loop:
  assumes "cm_wf api cm" and "\<forall>entry \<in> set es. has_handler cm (snd entry)" and "has_ns cm n" and "map_of (cm_subscribes_namespaces cm) prefix \<noteq> None"
  shows "cm_wf api (fst (foreach (visit_entry (withdraw_track api conn prefix n)) es cm))
    \<and> cm_keep cm (fst (foreach (visit_entry (withdraw_track api conn prefix n)) es cm))
    \<and> (\<forall>e. snd (foreach (visit_entry (withdraw_track api conn prefix n)) es cm) = Inl e \<longrightarrow> is_exception e \<or> e = Bad_Iterator)"
  using assms
proof (induction es arbitrary: cm)
  case (Cons entry es)
  let ?f = "visit_entry (withdraw_track api conn prefix n)"
  have s: "csafe api cm (withdraw_track api conn prefix n entry cm)" using Cons.prems by (intro withdraw_track_csafe) auto
  obtain cm1 x where f: "?f entry cm = (cm1, x)" by fastforce
  have w1: "cm_wf api cm1" "cm_keep cm cm1" "\<forall>e. x = Inl e \<longrightarrow> is_exception e \<or> e = Bad_Iterator"
    using s f Cons.prems(1) by (auto simp: visit_entry_def andthen_def csafe_def split: if_splits sum.splits)
  show ?case
  proof (cases x)
    case (Inr u)
    have "map_of (cm_subscribes_namespaces cm1) prefix \<noteq> None" using Cons.prems(4) w1(2) by (simp add: cm_keep_def sub_tables_def)
    moreover have "\<forall>entry \<in> set es. has_handler cm1 (snd entry)" "has_ns cm1 n" using Cons.prems(2,3) kept_handler [OF w1(2)] by simp_all
    ultimately show ?thesis using Cons.IH [OF w1(1)] cm_keep_trans [OF w1(2)] by (simp add: f Inr)
  qed (use w1 f in simp)
qed simp

lemma keep_namespace_wf:
  assumes wf: "cm_wf api cm" and c: "map_of (cm_subscribes_namespaces cm) prefix = Some conns" and ne: "mdel conn conns \<noteq> []"
  shows "cm_wf api (cm\<lparr>cm_subscribes_namespaces := mput prefix (mdel conn conns) (cm_subscribes_namespaces cm)\<rparr>)"
proof -
  have nw: "namespaces_wf api cm" and m: "msorted (cm_subscribes_namespaces cm)" using wf by (simp_all add: cm_wf_def namespaces_wf_def)
  let ?nss = "mput prefix (mdel conn conns) (cm_subscribes_namespaces cm)" let ?cm = "cm\<lparr>cm_subscribes_namespaces := ?nss\<rparr>"
  have h: "has_ns ?cm = has_ns cm" by (simp add: has_ns_def fun_eq_iff)
  note e = namespace_entry [OF nw c]
  have a: "\<forall>(prefix, conns) \<in> set ?nss. conns \<noteq> [] \<and> msorted conns \<and> (\<forall>(c, n) \<in> set conns. has_ns cm n)
      \<and> map_of (cm_track_rankings cm) (namespace_hash api prefix) \<noteq> None"
    using nw e ne unfolding set_mput [OF m] namespaces_wf_def by (auto simp: mdel_def)
  have i: "fst ` set ?nss = fst ` set (cm_subscribes_namespaces cm)"
    using map_of_SomeD [OF c] by (simp add: fst_mput) (metis fst_conv image_eqI insert_absorb)
  have "namespaces_wf api ?cm"
    using a nw m unfolding namespaces_wf_def h by (simp add: i)
  then show ?thesis using wf by (simp add: cm_wf_def pub_subscribes_def has_handler_def rankings_wf_def)
qed

lemma drop_namespace_wf:
  assumes wf: "cm_wf api cm" and c: "map_of (cm_subscribes_namespaces cm) prefix = Some conns"
  defines "cm' \<equiv> drop_ranking (namespace_hash api prefix) (cm\<lparr>cm_subscribes_namespaces := mdel prefix (cm_subscribes_namespaces cm)\<rparr>)"
  shows "cm_wf api cm'" "grows cm cm'" "cm_subscribes_namespaces cm' = mdel prefix (cm_subscribes_namespaces cm)"
    "fst (sub_tables cm') = fst (sub_tables cm)" "fst (snd (sub_tables cm')) = fst (snd (sub_tables cm))"
proof -
  let ?hash = "namespace_hash api prefix" let ?t = "cm_track_rankings cm" let ?nss = "cm_subscribes_namespaces cm"
  have nw: "namespaces_wf api cm" and rw: "rankings_wf cm" and m: "msorted ?nss" using wf by (simp_all add: cm_wf_def namespaces_wf_def)
  obtain k where k: "map_of ?t ?hash = Some k" using namespace_entry(4) [OF nw c] by blast
  have cm': "cm' = cm\<lparr>cm_subscribes_namespaces := mdel prefix ?nss, cm_track_rankings := mdel ?hash ?t,
      cm_env := (cm_env cm)\<lparr>se_rankings := mdel k (se_rankings (cm_env cm))\<rparr>\<rparr>"
    using k by (simp add: cm'_def drop_ranking_def)
  show "grows cm cm'" "cm_subscribes_namespaces cm' = mdel prefix ?nss"
    "fst (sub_tables cm') = fst (sub_tables cm)" "fst (snd (sub_tables cm')) = fst (snd (sub_tables cm))"
    by (simp_all add: cm' grows_def has_handler_def has_ns_def sub_tables_def)
  have h: "has_ns cm' = has_ns cm" by (simp add: cm' has_ns_def fun_eq_iff)
  have d: "x \<noteq> k" if "(h, x) \<in> set (mdel ?hash ?t)" for h x
  proof -
    have "inj_on snd (set ?t)" using rw by (simp add: rankings_wf_def distinct_map)
    then show ?thesis using that map_of_SomeD [OF k] inj_onD [of snd "set ?t" "(h, x)" "(?hash, k)"] by auto
  qed
  have s: "set (mdel ?hash ?t) \<subseteq> set ?t" "distinct (map snd (mdel ?hash ?t))" "msorted (mdel ?hash ?t)"
    using rw by (auto simp: rankings_wf_def distinct_map_filter mdel_def)
  have "rankings_wf cm'" using rw d s unfolding cm' rankings_wf_def by (auto simp del: set_mdel)
  moreover have "namespaces_wf api cm'"
    unfolding namespaces_wf_def h
  proof (intro conjI)
    show "msorted (cm_subscribes_namespaces cm')" "inj_on (namespace_hash api) (fst ` set (cm_subscribes_namespaces cm'))"
      using m nw by (simp_all add: cm' namespaces_wf_def) (auto intro: inj_on_subset)
    have "namespace_hash api p \<noteq> ?hash" if "(p, v) \<in> set ?nss" "p \<noteq> prefix" for p v
    proof -
      have "prefix \<in> fst ` set ?nss" using map_of_SomeD [OF c] by force
      moreover have "inj_on (namespace_hash api) (fst ` set ?nss)" using nw by (simp add: namespaces_wf_def)
      ultimately show ?thesis using that inj_onD [of "namespace_hash api" "fst ` set ?nss" p prefix] by force
    qed
    then show "\<forall>(p, conns) \<in> set (cm_subscribes_namespaces cm'). conns \<noteq> [] \<and> msorted conns \<and> (\<forall>(c, n) \<in> set conns. has_ns cm n)
        \<and> map_of (cm_track_rankings cm') (namespace_hash api p) \<noteq> None"
      using nw unfolding namespaces_wf_def cm' by auto
  qed
  ultimately show "cm_wf api cm'" using wf by (simp add: cm' cm_wf_def pub_subscribes_def has_handler_def)
qed

text \<open>The whole operation: which tables it changes when it ends well.\<close>

lemma UnsubscribeNamespaceReceived_usafe:
  assumes wf: "cm_wf api cm"
  shows "usafe api cm (UnsubscribeNamespaceReceived api conn prefix cm)"
    "fst (sub_tables (fst (UnsubscribeNamespaceReceived api conn prefix cm))) = fst (sub_tables cm)"
    "fst (snd (sub_tables (fst (UnsubscribeNamespaceReceived api conn prefix cm)))) = fst (snd (sub_tables cm))"
    "snd (UnsubscribeNamespaceReceived api conn prefix cm) = Inr () \<Longrightarrow>
      map_of (cm_subscribes_namespaces (fst (UnsubscribeNamespaceReceived api conn prefix cm))) p =
        (case map_of (cm_subscribes_namespaces cm) p of
           None \<Rightarrow> None
         | Some conns \<Rightarrow> if p = prefix then (if mdel conn conns = [] then None else Some (mdel conn conns)) else Some conns)"
proof -
  let ?r = "UnsubscribeNamespaceReceived api conn prefix cm" and ?nss = "cm_subscribes_namespaces cm"
  have "usafe api cm ?r \<and> fst (sub_tables (fst ?r)) = fst (sub_tables cm) \<and> fst (snd (sub_tables (fst ?r))) = fst (snd (sub_tables cm))
    \<and> (snd ?r = Inr () \<longrightarrow> map_of (cm_subscribes_namespaces (fst ?r)) p =
        (case map_of ?nss p of None \<Rightarrow> None
         | Some conns \<Rightarrow> if p = prefix then (if mdel conn conns = [] then None else Some (mdel conn conns)) else Some conns))"
  proof (cases "map_of ?nss prefix")
    case None
    then show ?thesis using wf by (auto simp: UnsubscribeNamespaceReceived_def usafe_def grows_def split: option.split)
  next
    case (Some conns)
    have nw: "namespaces_wf api cm" using wf by (simp add: cm_wf_def)
    note e = namespace_entry [OF nw Some]
    show ?thesis
    proof (cases "map_of conns conn")
      case None
      then show ?thesis using wf Some e(1) by (auto simp: UnsubscribeNamespaceReceived_def usafe_def grows_def mdel_absent split: option.split)
    next
      case (Some n)
      have "has_ns cm n" using e(3) map_of_SomeD [OF Some] by blast
      moreover have "\<forall>entry \<in> set (pub_subscribes cm). has_handler cm (snd entry)" using wf by (auto simp: cm_wf_def)
      moreover obtain cm1 x where f: "foreach (visit_entry (withdraw_track api conn prefix n)) (pub_subscribes cm) cm = (cm1, x)" by fastforce
      ultimately have w1: "cm_wf api cm1" "cm_keep cm cm1" "\<forall>e. x = Inl e \<longrightarrow> is_exception e \<or> e = Bad_Iterator"
        using withdraw_loop [OF wf, of "pub_subscribes cm" n prefix conn] \<open>map_of ?nss prefix = Some conns\<close> by simp_all
      have t: "sub_tables cm1 = sub_tables cm" "cm_subscribes_namespaces cm1 = ?nss" "grows cm cm1"
        using w1(2) by (simp_all add: cm_keep_def) (simp_all add: sub_tables_def)
      have p: "map_of (cm_subscribes_namespaces cm1) prefix = Some conns" using t(2) \<open>map_of ?nss prefix = Some conns\<close> by simp
      note d = drop_namespace_wf [OF w1(1) p] and k = keep_namespace_wf [OF w1(1) p, of conn]
      have g: "grows cm (cm1\<lparr>cm_subscribes_namespaces := m\<rparr>)" for m using t(3) by (simp add: grows_def has_handler_def has_ns_def)
      show ?thesis
      proof (cases x)
        case (Inr u)
        let ?cm = "if mdel conn conns = [] then drop_ranking (namespace_hash api prefix) (cm1\<lparr>cm_subscribes_namespaces := mdel prefix (cm_subscribes_namespaces cm1)\<rparr>)
            else cm1\<lparr>cm_subscribes_namespaces := mput prefix (mdel conn conns) (cm_subscribes_namespaces cm1)\<rparr>"
        have r: "?r = (?cm, Inr ())"
          using \<open>map_of ?nss prefix = Some conns\<close> Some f Inr by (simp add: UnsubscribeNamespaceReceived_def Let_def)
        show ?thesis unfolding r using d k t g grows_trans [OF t(3) d(2)] \<open>map_of ?nss prefix = Some conns\<close>
          by (auto simp: usafe_def t(2) split: option.split) (simp_all add: sub_tables_def)
      next
        case (Inl e)
        then have "?r = (cm1, Inl e)" using \<open>map_of ?nss prefix = Some conns\<close> Some f by (simp add: UnsubscribeNamespaceReceived_def)
        then show ?thesis using w1 t Inl by (simp add: usafe_def)
      qed
    qed
  qed
  then show "usafe api cm ?r" "fst (sub_tables (fst ?r)) = fst (sub_tables cm)" "fst (snd (sub_tables (fst ?r))) = fst (snd (sub_tables cm))"
    "snd ?r = Inr () \<Longrightarrow> map_of (cm_subscribes_namespaces (fst ?r)) p =
        (case map_of ?nss p of None \<Rightarrow> None
         | Some conns \<Rightarrow> if p = prefix then (if mdel conn conns = [] then None else Some (mdel conn conns)) else Some conns)"
    by blast+
qed

lemma ConnectionStatusChanged_usafe:
  assumes wf: "cm_wf api cm"
  shows "usafe api cm (ConnectionStatusChanged api conn status cm)"
proof (cases "status \<in> {CS_Connected, CS_Connecting}")
  case False
  have u: "usafe api cm2 (andthen (foreach (\<lambda>(c, req). UnsubscribeReceived api c req) unsub cm2) (\<lambda>_ cm. cm_ok (PurgePublishState conn cm)))"
    if "cm_wf api cm2" for cm2 unsub
    using that PurgePublishState_safe
    by (intro usafe_andthen tsafe_usafe tsafe_foreach) (auto intro: UnsubscribeReceived_tsafe tsafe_usafe tsafe_done split: prod.split)
  moreover have "usafe api cm (foreach (UnsubscribeNamespaceReceived api conn) nss cm)" for nss
    using wf by (intro usafe_foreach) (auto intro: UnsubscribeNamespaceReceived_usafe)
  ultimately have "usafe api cm (andthen (foreach (UnsubscribeNamespaceReceived api conn) nss cm) (\<lambda>_ cm.
      andthen (foreach (\<lambda>(c, req). UnsubscribeReceived api c req) (unsub cm) cm) (\<lambda>_ cm. cm_ok (PurgePublishState conn cm))))" for nss unsub
    by (intro usafe_andthen [of api cm]) blast+
  then show ?thesis using False by (simp add: ConnectionStatusChanged_def Let_def)
qed (use wf in \<open>auto simp: ConnectionStatusChanged_def usafe_def grows_def\<close>)

section \<open>The subscription tables\<close>

text \<open>
  Three tables hold the subscriptions of the clients: by track and connection, by request, and by namespace and
  name.  They describe one set of subscriptions.
\<close>

definition subscriptions :: "ClientManager \<Rightarrow> (u64 \<times> u64 \<times> track_name) set" where
  "subscriptions cm = {(c, sp_request_id i, sp_track_full_name i) | a c i. map_of (cm_subscribes cm) (a, c) = Some i}"

lemma mem_subscriptions: "(c, q, tn) \<in> subscriptions cm \<longleftrightarrow>
    (\<exists>a i. map_of (cm_subscribes cm) (a, c) = Some i \<and> sp_request_id i = q \<and> sp_track_full_name i = tn)"
  by (auto simp: subscriptions_def)

definition subs_wf :: "cm_api \<Rightarrow> ClientManager \<Rightarrow> bool" where
  "subs_wf api cm \<longleftrightarrow>
     (\<forall>a c i. map_of (cm_subscribes cm) (a, c) = Some i \<longrightarrow> th_fullname (track_hash api (sp_track_full_name i)) = a)
   \<and> (\<forall>c q a. map_of (cm_subscribe_alias_req_id cm) (c, q) = Some a \<longleftrightarrow>
        (\<exists>i. map_of (cm_subscribes cm) (a, c) = Some i \<and> sp_request_id i = q))
   \<and> (\<forall>ns nh c q. (c, q) \<in> (\<lambda>x. (as_connection_handle x, as_request_id x)) ` set (mat [] (cm_subscribe_active cm) (ns, nh)) \<longleftrightarrow>
        (\<exists>tn. (c, q, tn) \<in> subscriptions cm \<and> fst tn = ns \<and> th_name (track_hash api tn) = nh))
   \<and> msorted (cm_subscribe_alias_req_id cm) \<and> (\<forall>key. map_of (cm_subscribe_active cm) key \<noteq> Some [])"

lemma subs_alias: "subs_wf api cm \<Longrightarrow> map_of (cm_subscribe_alias_req_id cm) (c, q) = Some a \<longleftrightarrow>
    (\<exists>i. map_of (cm_subscribes cm) (a, c) = Some i \<and> sp_request_id i = q)"
  unfolding subs_wf_def by blast

lemma subs_active: "subs_wf api cm \<Longrightarrow>
    (c, q) \<in> (\<lambda>x. (as_connection_handle x, as_request_id x)) ` set (mat [] (cm_subscribe_active cm) (ns, nh)) \<longleftrightarrow>
      (\<exists>tn. (c, q, tn) \<in> subscriptions cm \<and> fst tn = ns \<and> th_name (track_hash api tn) = nh)"
  unfolding subs_wf_def by blast

lemma subs_nonempty: "subs_wf api cm \<Longrightarrow> map_of (cm_subscribe_active cm) key \<noteq> Some []"
  unfolding subs_wf_def by blast

lemma tables_subscriptions: "fst (sub_tables cm') = fst (sub_tables cm) \<Longrightarrow> subscriptions cm' = subscriptions cm"
  by (simp add: sub_tables_def subscriptions_def)

lemma tables_subs_wf:
  "fst (sub_tables cm') = fst (sub_tables cm) \<Longrightarrow> fst (snd (sub_tables cm')) = fst (snd (sub_tables cm)) \<Longrightarrow> subs_wf api cm' = subs_wf api cm"
  by (simp add: sub_tables_def subs_wf_def subscriptions_def)

lemma keep_tables: "csafe api cm r \<Longrightarrow> sub_tables (fst r) = sub_tables cm"
  by (simp add: csafe_def cm_keep_def)

lemma insert_active_keys: "(\<lambda>x. (as_connection_handle x, as_request_id x)) ` set (insert_active a xs) =
    insert (as_connection_handle a, as_request_id a) ((\<lambda>x. (as_connection_handle x, as_request_id x)) ` set xs)"
proof -
  have "set (takeWhile P xs) \<union> set (dropWhile P xs) = set xs" for P by (metis set_append takeWhile_dropWhile_id)
  then show ?thesis by (auto simp: insert_active_def Let_def)
qed

lemma insert_active_nonempty [simp]: "insert_active a xs \<noteq> []"
  using insert_active_keys [of a xs] by auto

text \<open>Recording a subscribe whose request identifier is new and whose track the connection does not have yet.\<close>

lemma record_subscribe_subs:
  assumes wf: "subs_wf api cm" and th: "th = track_hash api tn"
    and new: "map_of (cm_subscribes cm) (th_fullname th, conn) = None" and fresh: "map_of (cm_subscribe_alias_req_id cm) (conn, req) = None"
  shows "subs_wf api (record_subscribe conn req th tn attrs cm)"
    "subscriptions (record_subscribe conn req th tn attrs cm) = insert (conn, req, tn) (subscriptions cm)"
proof -
  let ?cm = "record_subscribe conn req th tn attrs cm"
  let ?i = "\<lparr>sp_track_full_name = tn, sp_track_alias = th_fullname th, sp_request_id = req, sp_priority = sa_priority attrs,
     sp_object_ttl = ucast (sa_delivery_timeout attrs), sp_group_order = sa_group_order attrs, sp_start_location = (0, 0)\<rparr>"
  have s: "map_of (cm_subscribes ?cm) = (map_of (cm_subscribes cm))((th_fullname th, conn) \<mapsto> ?i)"
    using new by (simp add: record_subscribe_def Let_def fst_mtry)
  have a: "map_of (cm_subscribe_alias_req_id ?cm) = (map_of (cm_subscribe_alias_req_id cm))((conn, req) \<mapsto> th_fullname th)"
    by (simp add: record_subscribe_def Let_def)
  have v: "(\<lambda>x. (as_connection_handle x, as_request_id x)) ` set (mat [] (cm_subscribe_active ?cm) key) =
      (if key = (fst tn, th_name th) then {(conn, req)} else {}) \<union> (\<lambda>x. (as_connection_handle x, as_request_id x)) ` set (mat [] (cm_subscribe_active cm) key)" for key
    by (simp add: record_subscribe_def Let_def mat_def insert_active_keys)
  show subs: "subscriptions ?cm = insert (conn, req, tn) (subscriptions cm)"
  proof (rule set_eqI, clarify)
    fix c q ns name
    have "map_of (cm_subscribes ?cm) (a, c) = Some i \<longleftrightarrow> map_of (cm_subscribes cm) (a, c) = Some i \<or> (a, c) = (th_fullname th, conn) \<and> i = ?i" for a i
      using new unfolding s by auto
    then have "(c, q, ns, name) \<in> subscriptions ?cm \<longleftrightarrow> (c, q, ns, name) \<in> subscriptions cm
        \<or> (\<exists>a i. (a, c) = (th_fullname th, conn) \<and> i = ?i \<and> sp_request_id i = q \<and> sp_track_full_name i = (ns, name))"
      unfolding mem_subscriptions by blast
    then show "(c, q, ns, name) \<in> subscriptions ?cm \<longleftrightarrow> (c, q, ns, name) \<in> insert (conn, req, tn) (subscriptions cm)" by auto
  qed
  have old: "sp_request_id i \<noteq> req \<or> c \<noteq> conn" if "map_of (cm_subscribes cm) (b, c) = Some i" for b c i
    using subs_alias [OF wf, of conn req b] fresh that by auto
  show "subs_wf api ?cm"
    unfolding subs_wf_def
  proof (intro conjI allI impI)
    show "th_fullname (track_hash api (sp_track_full_name i)) = b" if "map_of (cm_subscribes ?cm) (b, c) = Some i" for b c i
      using that wf th unfolding s by (auto simp: subs_wf_def split: if_splits)
    show "map_of (cm_subscribe_alias_req_id ?cm) (c, q) = Some b \<longleftrightarrow> (\<exists>i. map_of (cm_subscribes ?cm) (b, c) = Some i \<and> sp_request_id i = q)" for b c q
      using subs_alias [OF wf, of c q b] new fresh old unfolding s a by auto
    show "(c, q) \<in> (\<lambda>x. (as_connection_handle x, as_request_id x)) ` set (mat [] (cm_subscribe_active ?cm) (ns, nh)) \<longleftrightarrow>
        (\<exists>tn. (c, q, tn) \<in> subscriptions ?cm \<and> fst tn = ns \<and> th_name (track_hash api tn) = nh)" for ns nh c q
      using subs_active [OF wf, of c q ns nh] th unfolding v subs by (cases tn) auto
    show "msorted (cm_subscribe_alias_req_id ?cm)" using wf by (simp add: record_subscribe_def Let_def subs_wf_def)
    show "map_of (cm_subscribe_active ?cm) key \<noteq> Some []" for key
      using subs_nonempty [OF wf, of key] by (simp add: record_subscribe_def Let_def insert_active_nonempty)
  qed
qed

text \<open>What \<open>UnsubscribeReceived\<close> does to the tables, whatever becomes of the publishers.\<close>

definition unsubscribed :: "cm_api \<Rightarrow> u64 \<Rightarrow> u64 \<Rightarrow> u64 \<Rightarrow> track_name \<Rightarrow> ClientManager \<Rightarrow> ClientManager" where
  "unsubscribed api conn req a tn cm =
     (let key = (fst tn, th_name (track_hash api tn));
          active = filter (\<lambda>x. (as_connection_handle x, as_request_id x) \<noteq> (conn, req)) (mat [] (cm_subscribe_active cm) key)
      in cm\<lparr>cm_subscribe_alias_req_id := mdel (conn, req) (cm_subscribe_alias_req_id cm),
            cm_subscribe_active := (if active = [] then mdel key (cm_subscribe_active cm) else mput key active (cm_subscribe_active cm)),
            cm_subscribes := mdel (a, conn) (cm_subscribes cm)\<rparr>)"

lemma unsubscribed_subs:
  assumes wf: "subs_wf api cm" and a: "map_of (cm_subscribe_alias_req_id cm) (conn, req) = Some a" and i: "map_of (cm_subscribes cm) (a, conn) = Some i"
  shows "subs_wf api (unsubscribed api conn req a (sp_track_full_name i) cm)"
    "subscriptions (unsubscribed api conn req a (sp_track_full_name i) cm) = {x \<in> subscriptions cm. (fst x, fst (snd x)) \<noteq> (conn, req)}"
proof -
  let ?tn = "sp_track_full_name i" and ?cm = "unsubscribed api conn req a (sp_track_full_name i) cm"
  let ?key = "(fst ?tn, th_name (track_hash api ?tn))" and ?k = "\<lambda>x. (as_connection_handle x, as_request_id x)"
  have s: "map_of (cm_subscribes ?cm) = (map_of (cm_subscribes cm))((a, conn) := None)"
    and al: "map_of (cm_subscribe_alias_req_id ?cm) = (map_of (cm_subscribe_alias_req_id cm))((conn, req) := None)"
    by (simp_all add: unsubscribed_def Let_def)
  have v: "?k ` set (mat [] (cm_subscribe_active ?cm) key) = {x \<in> ?k ` set (mat [] (cm_subscribe_active cm) key). key = ?key \<longrightarrow> x \<noteq> (conn, req)}" for key
    by (auto simp: unsubscribed_def Let_def mat_def filter_empty_conv split: option.split)
  have one: "b = a \<and> j = i" if "map_of (cm_subscribes cm) (b, conn) = Some j" "sp_request_id j = req" for b j
  proof -
    have "map_of (cm_subscribe_alias_req_id cm) (conn, req) = Some b" using subs_alias [OF wf] that by blast
    then show ?thesis using a i that by simp
  qed
  have ri: "sp_request_id i = req" using subs_alias [OF wf, of conn req a] a i by simp
  have kept: "map_of (cm_subscribes ?cm) (b, c) = Some j \<longleftrightarrow> map_of (cm_subscribes cm) (b, c) = Some j \<and> (c, sp_request_id j) \<noteq> (conn, req)" for b c j
  proof (cases "(b, c) = (a, conn)")
    case False
    then have "\<not> (map_of (cm_subscribes cm) (b, c) = Some j \<and> (c, sp_request_id j) = (conn, req))" using one [of b j] by blast
    then show ?thesis using False unfolding s by auto
  qed (use i ri in \<open>auto simp: s\<close>)
  then have m: "(c, q, tn) \<in> subscriptions ?cm \<longleftrightarrow> (c, q, tn) \<in> subscriptions cm \<and> (c, q) \<noteq> (conn, req)" for c q tn
    unfolding mem_subscriptions by auto
  then show "subscriptions ?cm = {x \<in> subscriptions cm. (fst x, fst (snd x)) \<noteq> (conn, req)}" by auto
  show "subs_wf api ?cm"
    unfolding subs_wf_def
  proof (intro conjI allI impI)
    show "th_fullname (track_hash api (sp_track_full_name j)) = b" if "map_of (cm_subscribes ?cm) (b, c) = Some j" for b c j
      using that wf unfolding s by (auto simp: subs_wf_def split: if_splits)
    show "map_of (cm_subscribe_alias_req_id ?cm) (c, q) = Some b \<longleftrightarrow> (\<exists>j. map_of (cm_subscribes ?cm) (b, c) = Some j \<and> sp_request_id j = q)" for b c q
      using subs_alias [OF wf, of c q b] unfolding kept al by auto
    have only: "tn = ?tn" if "(conn, req, tn) \<in> subscriptions cm" for tn using that one unfolding mem_subscriptions by blast
    show "(c, q) \<in> ?k ` set (mat [] (cm_subscribe_active ?cm) (ns, nh)) \<longleftrightarrow>
        (\<exists>tn. (c, q, tn) \<in> subscriptions ?cm \<and> fst tn = ns \<and> th_name (track_hash api tn) = nh)" for ns nh c q
    proof (cases "(c, q) = (conn, req)")
      case True
      then show ?thesis using subs_active [OF wf, of c q ns nh] only unfolding v m by auto
    qed (use subs_active [OF wf, of c q ns nh] in \<open>auto simp: v m\<close>)
    show "msorted (cm_subscribe_alias_req_id ?cm)" using wf by (simp add: unsubscribed_def Let_def subs_wf_def)
    show "map_of (cm_subscribe_active ?cm) key \<noteq> Some []" for key
      using subs_nonempty [OF wf, of key] by (auto simp: unsubscribed_def Let_def)
  qed
qed

lemma UnsubscribeReceived_tables:
  assumes wf: "cm_wf api cm" and s: "subs_wf api cm"
  shows "sub_tables (fst (UnsubscribeReceived api conn req cm)) =
    (case map_of (cm_subscribe_alias_req_id cm) (conn, req) of
       None \<Rightarrow> sub_tables cm
     | Some a \<Rightarrow> sub_tables (unsubscribed api conn req a (sp_track_full_name (the (map_of (cm_subscribes cm) (a, conn)))) cm))"
proof (cases "map_of (cm_subscribe_alias_req_id cm) (conn, req)")
  case (Some a)
  obtain i where i: "map_of (cm_subscribes cm) (a, conn) = Some i" using s Some by (auto simp: subs_wf_def)
  let ?th = "track_hash api (sp_track_full_name i)"
  let ?del = "cm\<lparr>cm_subscribe_alias_req_id := mdel (conn, req) (cm_subscribe_alias_req_id cm)\<rparr>"
  have d: "cm_wf api ?del" using wf cm_wf_cong [of ?del cm] by simp
  obtain cm1 x where f: "foreach (\<lambda>(_, r). handler_do r (RemoveSubscriber conn)) (key_range (th_fullname ?th) (pub_subscribes ?del)) ?del = (cm1, x)" by fastforce
  have c1: "csafe api ?del (cm1, x)" using remove_everywhere_csafe [OF d, of conn "th_fullname ?th"] by (simp add: f)
  then have t1: "sub_tables cm1 = sub_tables ?del" "cm_wf api cm1" by (simp_all add: csafe_def cm_keep_def)
  have x: "x = Inr ()"
    using remove_everywhere_returns [OF d, of conn "th_fullname ?th"] by (simp add: f)
  define cm2 where "cm2 = (let key = (fst (sp_track_full_name i), th_name ?th);
       active = filter (\<lambda>a. (as_connection_handle a, as_request_id a) \<noteq> (conn, req)) (mat [] (cm_subscribe_active cm1) key)
     in cm1\<lparr>cm_subscribe_active := (if active = [] then mdel key (cm_subscribe_active cm1) else mput key active (cm_subscribe_active cm1)),
        cm_subscribes := mdel (a, conn) (cm_subscribes cm1)\<rparr>)"
  have "sub_tables cm2 = sub_tables (unsubscribed api conn req a (sp_track_full_name i) cm)"
    using t1(1) by (simp add: cm2_def sub_tables_def unsubscribed_def Let_def)
  moreover have "cm_wf api cm2" using t1(2) cm_wf_cong [of cm2 cm1] by (simp add: cm2_def Let_def)
  then have "sub_tables (fst (RemoveOrPausePublisherSubscribe (th_fullname ?th) cm2)) = sub_tables cm2" by (intro keep_tables RemoveOrPause_csafe)
  moreover have "UnsubscribeReceived api conn req cm = RemoveOrPausePublisherSubscribe (th_fullname ?th) cm2"
    using f x by (simp add: UnsubscribeReceived_def Some i Let_def cm2_def)
  ultimately show ?thesis by (simp add: Some i)
qed (simp add: UnsubscribeReceived_def)

end
