(* ===== verification/Client_Data.thy ===== *)
theory Client_Data
  imports Client_Safety
begin

text \<open>
  Received data and the tables of the client manager.  Whatever a publisher or a peer sends on a stream
  or in a datagram, and however the handling of it ends, the track handler drops no namespace handler
  and no ranking, so that the references in the tables of the manager stay valid.
\<close>

section \<open>Operations of a handler keep the stores\<close>

definition ekeeps :: "(sub_env \<Rightarrow> sub_env \<times> 'a res) \<Rightarrow> bool" where
  "ekeeps f \<longleftrightarrow> (\<forall>e. env_keep e (fst (f e)))"

lemma ekeeps_foreach: "(\<And>x. x \<in> set xs \<Longrightarrow> ekeeps (f x)) \<Longrightarrow> ekeeps (foreach f xs)"
  using foreach_rel [of env_keep xs _ f "\<lambda>_. True"] env_keep_trans by (fastforce simp: ekeeps_def)

lemma skeeps_foreach: "(\<And>x st. x \<in> set xs \<Longrightarrow> env_keep (snd st) (snd (fst (f x st)))) \<Longrightarrow> env_keep (snd st) (snd (fst (foreach f xs st)))"
  using foreach_rel [of "\<lambda>a b. env_keep (snd a) (snd b)" xs st f "\<lambda>_. True"] env_keep_trans by fastforce

lemma skeeps_andthen:
  assumes "env_keep e (snd (fst r))" and "\<And>x st. env_keep (snd st) (snd (fst (f x st)))"
  shows "env_keep e (snd (fst (andthen r f)))"
  using assms by (cases r; cases "snd r") (auto intro: env_keep_trans)

lemma ekeeps_andthen:
  assumes "env_keep e (fst r)" and "\<And>x e. env_keep e (fst (f x e))"
  shows "env_keep e (fst (andthen r f))"
  using assms by (cases r; cases "snd r") (auto intro: env_keep_trans)

lemma env_keep_set [simp]:
  "env_keep e (e\<lparr>se_pub := p\<rparr>)" "env_keep e (set_track r t e)" "env_keep e (e\<lparr>se_pub := p, se_log := l\<rparr>)"
  "env_keep e ((set_track r t e)\<lparr>se_pub := p\<rparr>)"
  by (simp_all add: env_keep_def set_track_def)

lemma ekeeps_on_ns: "ekeeps (on_ns n f)"
  by (auto simp: ekeeps_def on_ns_def env_keep_def split: option.split prod.split)

lemma ekeeps_each_ns: "(\<And>n. ekeeps (f n)) \<Longrightarrow> ekeeps (each_ns h f)"
  unfolding each_ns_def [abs_def] by (intro ekeeps_foreach) (auto intro: ekeeps_foreach split: prod.split)

lemma ekeeps_with_track: "(\<And>r t e. env_keep e (f r t e)) \<Longrightarrow> ekeeps (with_track w f)"
  by (simp add: ekeeps_def with_track_def split: option.split)

lemma ekeeps_subscribers: "ekeeps (publish_object api h hdr data sub)" "ekeeps (forward_to api h ta d is_new g s data sub)"
  "ekeeps (end_for api h g s rst sub)"
  using ekeeps_with_track
  by (auto simp: ekeeps_def publish_object_def forward_to_def end_for_def with_track_def Let_def split: option.split prod.split)

lemma fanout_keeps:
  "env_keep e (fst (foreach (publish_object api h hdr data) subs e))" "env_keep e (fst (foreach (forward_to api h ta d is_new g s data) subs e))"
  "env_keep e (fst (foreach (end_for api h g s rst) subs e))" "env_keep e (fst (each_ns h (\<lambda>n. on_ns n (f n)) e))"
  using ekeeps_foreach [of subs "publish_object api h hdr data", OF ekeeps_subscribers(1)]
    ekeeps_foreach [of subs "forward_to api h ta d is_new g s data", OF ekeeps_subscribers(2)]
    ekeeps_foreach [of subs "end_for api h g s rst", OF ekeeps_subscribers(3)] ekeeps_each_ns [of "\<lambda>n. on_ns n (f n)" h, OF ekeeps_on_ns]
  by (simp_all add: ekeeps_def)

text \<open>The rankings notify the namespace handlers and erase none.\<close>

definition wkeeps :: "rank_world \<Rightarrow> rank_world \<Rightarrow> bool" where
  "wkeeps w w' \<longleftrightarrow> (\<forall>n. map_of (rw_handlers w) n \<noteq> None \<longrightarrow> map_of (rw_handlers w') n \<noteq> None)"

lemma wkeeps_trans: "wkeeps a b \<Longrightarrow> wkeeps b c \<Longrightarrow> wkeeps a c"
  by (simp add: wkeeps_def)

lemma wkeeps_foreach: "(\<And>x st. x \<in> set xs \<Longrightarrow> wkeeps (snd st) (snd (fst (f x st)))) \<Longrightarrow> wkeeps (snd st) (snd (fst (foreach f xs st)))"
  using foreach_rel [of "\<lambda>a b. wkeeps (snd a) (snd b)" xs st f "\<lambda>_. True"] wkeeps_trans by (fastforce simp: wkeeps_def)

lemma wkeeps_notify_one: "wkeeps (snd st) (snd (fst (notify_one api now flat nh ch st)))"
  by (auto simp: notify_one_def wkeeps_def split: prod.split option.split)

lemma wkeeps_notify_ns: "wkeeps (snd st) (snd (fst (notify_ns api now flat nh st)))"
proof -
  obtain hash chs where nh: "nh = (hash, chs)" by fastforce
  have "wkeeps (snd st) (snd (fst (foreach (notify_one api now flat hash) chs st)))" by (intro wkeeps_foreach wkeeps_notify_one)
  then show ?thesis by (cases "foreach (notify_one api now flat hash) chs st"; cases "snd (foreach (notify_one api now flat hash) chs st)") (auto simp: notify_ns_def nh split: prod.split)
qed

lemma UpdateValue_keeps: "wkeeps w (snd (fst (UpdateValue api now ta pr val tick conn (r, w))))"
  using wkeeps_foreach [of _ "notify_ns api now _" "(_, w)", OF wkeeps_notify_ns] by (simp add: UpdateValue_def Let_def case_prod_unfold)

lemma report_value_keeps: "env_keep (snd st) (snd (fst (report_value api now ta prop v tick st)))"
proof (cases "ranking_of st")
  case (Some r)
  then obtain k where k: "sth_track_ranking (fst st) = Some k" by (auto simp: ranking_of_def split: option.splits)
  obtain r' w x where u: "UpdateValue (sb_pub api) now ta prop v tick (sth_connection_id (fst st))
      (r, \<lparr>rw_handlers = se_ns (snd st), rw_env = se_pub (snd st)\<rparr>) = ((r', w), x)" by (metis prod.collapse)
  have "wkeeps \<lparr>rw_handlers = se_ns (snd st), rw_env = se_pub (snd st)\<rparr> w" using UpdateValue_keeps u by (metis fst_conv snd_conv)
  then show ?thesis by (auto simp: report_value_def Some k u wkeeps_def env_keep_def)
qed (simp add: report_value_def)

lemma UpdateTrackedProperties_keeps: "env_keep (snd st) (snd (fst (UpdateTrackedProperties api now exts imm st)))"
proof -
  have p: "env_keep (snd st) (snd (fst (update_property api now ta pr v st)))" for ta pr v st
    using report_value_keeps [of "(_, snd st)"] by (auto simp: update_property_def Let_def split: prod.split option.split)
  have "env_keep (snd st) (snd (fst (update_from api now ta pr vals st)))" for ta pr vals st
    using p by (simp add: update_from_def split: list.split)
  then show ?thesis
    unfolding UpdateTrackedProperties_def by (auto intro!: skeeps_foreach split: option.split)
qed

lemma ObjectReceived_keeps: "env_keep (snd st) (snd (fst (ObjectReceived api now hdr data st)))"
  unfolding ObjectReceived_def
proof (rule skeeps_andthen [OF UpdateTrackedProperties_keeps], goal_cases)
  case (1 x st)
  let ?body = "\<lambda>h subs ta e. andthen (each_ns h (\<lambda>n. on_ns n (PNS_PublishObject (sb_pub api) ta (oh_group_id hdr) (oh_subgroup_id hdr) (oh_track_mode hdr) data)) e)
      (\<lambda>_. foreach (publish_object api h hdr data) subs)"
  have "env_keep e (fst (?body h subs ta e))" for h subs ta e
    by (rule ekeeps_andthen) (rule fanout_keeps)+
  then have b: "env_keep e (fst (catch_std (?body h subs ta e)))" for h subs ta e by (simp add: catch_std_def split: prod.split sum.split)
  have "env_keep e (fst (catch_std (?body h subs ta (if sb_disable_cache api then e else sub_emit ev e))))" for h subs ta e ev
    using b env_keep_trans [OF env_keep_refl(2) b] by simp
  then show ?case by (auto simp: Let_def case_prod_unfold split: option.split)
qed

lemma ForwardReceivedData_keeps: "env_keep (snd st) (snd (fst (ForwardReceivedData api is_new g s data st)))"
proof -
  have "env_keep e (fst (andthen (each_ns h (\<lambda>n. on_ns n (PNS_ForwardPublishedData (sb_pub api) ta b g s data)) e)
      (\<lambda>_. foreach (forward_to api h ta d b g s data) subs)))" for h ta d e b subs
    by (rule ekeeps_andthen) (rule fanout_keeps)+
  then show ?thesis by (simp add: ForwardReceivedData_def Let_def case_prod_unfold split: option.split)
qed

lemma put_stream_env [simp]: "snd (put_stream n s st) = snd st"
  by (simp add: put_stream_def)

lemma forward_put_keeps: "env_keep (snd st) (snd (fst (ForwardReceivedData api is_new g s data (put_stream n c st))))"
  using ForwardReceivedData_keeps [of "put_stream n c st"] by simp

lemma start_stream_keeps: "env_keep (snd st) (snd (fst (start_stream api n data st)))"
  unfolding start_stream_def
  by (auto simp: Let_def intro!: skeeps_andthen forward_put_keeps split: prod.split bool.split option.split)

lemma continue_stream_keeps: "env_keep (snd st) (snd (fst (continue_stream api n data st)))"
  unfolding continue_stream_def
  by (auto simp: Let_def intro!: skeeps_andthen forward_put_keeps split: option.split)

lemma parse_object_keeps: "env_keep (snd st) (snd (fst (parse_object api now is_start n st)))"
proof -
  have o: "env_keep (snd st) (snd (fst (andthen (ObjectReceived api now hdr data (put_stream n s (h, snd st))) f)))"
    if "\<And>x st. env_keep (snd st) (snd (fst (f x st)))" for hdr data s h and f :: "unit \<Rightarrow> sub_state \<Rightarrow> sub_state \<times> unit res"
    using that ObjectReceived_keeps [of "put_stream n s (h, snd st)"] by (intro skeeps_andthen) simp_all
  have f: "env_keep (snd st) (snd (fst (let st = put_stream n s st in if b then (st, Inr ()) else ForwardReceivedData api is_start g sg buf st)))" for s st b g sg buf
    using ForwardReceivedData_keeps [of "put_stream n s st"] by (simp add: Let_def)
  show ?thesis unfolding parse_object_def
    by (auto simp: Let_def intro!: o f [unfolded Let_def] split: option.split prod.split)
qed

lemma StreamDataRecv_keeps: "env_keep (snd st) (snd (fst (StreamDataRecv api now is_start n data st)))"
  unfolding StreamDataRecv_def Let_def
  using start_stream_keeps [of "(_, snd st)"] continue_stream_keeps [of "(_, snd st)"] parse_object_keeps
  by (intro skeeps_andthen) (auto split: option.split)

lemma DgramDataRecv_keeps: "env_keep (snd st) (snd (fst (DgramDataRecv api now data st)))"
proof -
  have "env_keep e (snd (fst (ObjectReceived api now hdr bs (h, if b then sub_emit ev e else e))))" for e hdr bs h b ev
    using ObjectReceived_keeps [of "(h, e)" api now hdr bs] env_keep_trans [OF env_keep_refl(2) ObjectReceived_keeps [of "(h, sub_emit ev e)" api now hdr bs, simplified]]
    by simp
  then show ?thesis by (simp add: DgramDataRecv_def Let_def split: option.split)
qed

lemma StreamClosed_keeps: "env_keep (snd st) (snd (fst (StreamClosed api n rst st)))"
proof -
  have "env_keep e (fst (andthen (foreach (end_for api h g s rst) (sth_subscribers h) e) (\<lambda>_. each_ns h (\<lambda>m. on_ns m (f m)))))" for h g s f e
    by (rule ekeeps_andthen) (rule fanout_keeps)+
  then show ?thesis by (simp add: StreamClosed_def case_prod_unfold split: option.split)
qed

lemmas data_keeps = StreamDataRecv_keeps DgramDataRecv_keeps StreamClosed_keeps

section \<open>The tables stay well formed\<close>

lemma on_handler_keeps:
  assumes wf: "cm_wf api cm" and f: "\<And>st. env_keep (snd st) (snd (fst (f st)))"
  shows "cm_wf api (fst (on_handler r f cm)) \<and> cm_keep cm (fst (on_handler r f cm))"
proof (cases "has_handler cm r")
  case True
  have "csafe api cm (on_handler r (\<lambda>st. (fst (f st), Inr ())) cm)"
    by (rule csafe_on_handler [OF wf True]) (use f [of "(_, cm_env cm)"] in simp_all)
  moreover have "fst (on_handler r (\<lambda>st. (fst (f st), Inr ())) cm) = fst (on_handler r f cm)" by (simp add: on_handler_def case_prod_unfold split: option.split)
  ultimately show ?thesis by (simp add: csafe_def)
qed (use wf in \<open>simp add: on_handler_def has_handler_def\<close>)

lemma peer_data_keeps:
  assumes "cm_wf api cm"
  shows "cm_wf api (fst (PeerDataReceived api now fh is_new stream data cm)) \<and> cm_keep cm (fst (PeerDataReceived api now fh is_new stream data cm))"
    "cm_wf api (fst (PeerStreamClosed api fh n rst cm)) \<and> cm_keep cm (fst (PeerStreamClosed api fh n rst cm))"
  using assms on_handler_keeps [OF assms data_keeps(1)] on_handler_keeps [OF assms data_keeps(2)] on_handler_keeps [OF assms data_keeps(3)]
  by (auto simp: PeerDataReceived_def PeerStreamClosed_def split: option.split)

end
