(* ===== verification/Client_Traffic.thy ===== *)
theory Client_Traffic
  imports Client_Data
begin

text \<open>
  Traffic of the clients as a step relation over the operations of \<open>Client_Manager\<close>, with the
  invariant of \<open>Client_Safety\<close> (the references the tables hold, the agreement of the subscription tables), and what
  follows for the users: subscribing and unsubscribing act on one set of subscriptions, and a
  connection that goes away leaves nothing behind.
\<close>

section \<open>Unsubscribing always returns\<close>

lemma returned: "snd p = Inr x \<Longrightarrow> \<exists>s. p = (s, Inr x)"
  by (cases p) simp

lemma send_subscribe_all_returns: "pm_wf pm \<Longrightarrow> snd (send_subscribe_all w si pm) = Inr ()"
  by (simp add: send_subscribe_all_def flood_subscribe_eq case_prod_unfold)

lemma ClientUnsubscribe_returns:
  assumes "pm_wf pm"
  shows "snd (ClientUnsubscribe fh pm) = Inr ()"
proof -
  obtain ib x where g: "GetSubscribe fh (ni_id (pm_node_info pm)) (pm_info_base pm) = (ib, x)" by fastforce
  have "same_routes (pm_info_base pm) (fst (RemoveSubscribe si ib))" for si
    using GetSubscribe_routes [OF g] subscribe_same_routes(2) by (rule same_routes_trans)
  then have "snd (send_subscribe_all True si (pm\<lparr>pm_info_base := fst (RemoveSubscribe si ib)\<rparr>)) = Inr ()" for si
    by (intro send_subscribe_all_returns pm_wf_routes assms)
  then show ?thesis by (simp add: ClientUnsubscribe_def g split: option.split)
qed

lemma pause_loop_returns:
  assumes "\<forall>entry \<in> set es. has_handler cm (snd entry)"
  shows "\<exists>x. snd (pause_loop es subs remove cm) = Inr x"
  using assms
proof (induction es arbitrary: subs remove cm)
  case (Cons entry es)
  obtain h where h: "map_of (cm_handlers cm) (snd entry) = Some h" using Cons.prems by (auto simp: has_handler_def)
  have "\<exists>cm' x. pause_or_unsubscribe entry cm = (cm', Inr x) \<and> (\<forall>r. has_handler cm r \<longrightarrow> has_handler cm' r)"
    by (auto simp: pause_or_unsubscribe_def with_handler_def h handler_do_def on_handler_def Pause_def has_handler_def cm_emit_def)
  then obtain cm' x where p: "pause_or_unsubscribe entry cm = (cm', Inr x)" and k: "\<forall>r. has_handler cm r \<longrightarrow> has_handler cm' r" by blast
  have "\<forall>e \<in> set es. has_handler cm' (snd e)" using Cons.prems k by simp
  then show ?case using Cons.IH [of cm'] by (cases x) (simp add: p)
qed simp

lemma RemoveOrPause_returns:
  assumes "cm_wf api cm"
  shows "snd (RemoveOrPausePublisherSubscribe fh cm) = Inr ()"
proof (cases "PM_HasSubscribers fh (cm_peer cm)")
  case False
  let ?es = "key_range fh (pub_subscribes cm)"
  obtain cm1 subs remove where l: "pause_loop ?es False [] cm = (cm1, Inr (subs, remove))"
    using pause_loop_returns [of ?es cm False "[]"] range_handler [OF assms] returned by (metis surj_pair)
  have "cm_wf api cm1" using pause_loop_csafe [OF assms, of ?es False "[]"] range_handler [OF assms] l by (simp add: csafe_def)
  then have "pm_wf (cm_peer (set_pub_subscribes m cm1))" for m by (simp add: cm_wf_def)
  then show ?thesis
    using False ClientUnsubscribe_returns by (simp add: RemoveOrPausePublisherSubscribe_def l Let_def on_peer_def case_prod_unfold)
qed (simp add: RemoveOrPausePublisherSubscribe_def)

lemma UnsubscribeReceived_returns:
  assumes wf: "cm_wf api cm"
  shows "snd (UnsubscribeReceived api conn req cm) = Inr ()"
proof -
  let ?del = "cm\<lparr>cm_subscribe_alias_req_id := mdel (conn, req) (cm_subscribe_alias_req_id cm)\<rparr>"
  have d: "cm_wf api ?del" using wf cm_wf_cong [of ?del cm] by simp
  have "snd (andthen (foreach (\<lambda>(_, r). handler_do r (RemoveSubscriber conn)) (key_range fh (pub_subscribes ?del)) ?del) (\<lambda>_ cm.
      RemoveOrPausePublisherSubscribe fh (cm\<lparr>cm_subscribe_active := a cm, cm_subscribes := s cm\<rparr>))) = Inr ()" for fh a s
  proof -
    obtain cm1 where f: "foreach (\<lambda>(_, r). handler_do r (RemoveSubscriber conn)) (key_range fh (pub_subscribes ?del)) ?del = cm_ok cm1"
      using returned [OF remove_everywhere_returns [OF d]] by blast
    have "cm_wf api cm1" using remove_everywhere_csafe [OF d, of conn fh] by (simp add: f csafe_def)
    then have "cm_wf api (cm1\<lparr>cm_subscribe_active := a cm1, cm_subscribes := s cm1\<rparr>)"
      using cm_wf_cong(1) [of "cm1\<lparr>cm_subscribe_active := a cm1, cm_subscribes := s cm1\<rparr>" cm1] by simp
    then show ?thesis using RemoveOrPause_returns by (simp add: f)
  qed
  then show ?thesis by (simp add: UnsubscribeReceived_def Let_def split: option.split)
qed

lemma UnsubscribeReceived_spec:
  assumes wf: "cm_wf api cm" and s: "subs_wf api cm"
  shows "\<exists>cm'. UnsubscribeReceived api conn req cm = cm_ok cm' \<and> cm_wf api cm' \<and> subs_wf api cm' \<and> grows cm cm'
    \<and> subscriptions cm' = {x \<in> subscriptions cm. (fst x, fst (snd x)) \<noteq> (conn, req)}
    \<and> cm_subscribes_namespaces cm' = cm_subscribes_namespaces cm"
proof -
  obtain cm' where u: "UnsubscribeReceived api conn req cm = cm_ok cm'" using returned [OF UnsubscribeReceived_returns [OF wf]] by blast
  have w: "cm_wf api cm'" "grows cm cm'" using UnsubscribeReceived_tsafe [OF wf, of conn req] by (simp_all add: u tsafe_def)
  note t = UnsubscribeReceived_tables [OF wf s, of conn req, unfolded u fst_conv]
  show ?thesis
  proof (cases "map_of (cm_subscribe_alias_req_id cm) (conn, req)")
    case None
    have "(fst x, fst (snd x)) \<noteq> (conn, req)" if "x \<in> subscriptions cm" for x
      using that None subs_alias [OF s, of conn req] mem_subscriptions by (cases x) fastforce
    moreover have "sub_tables cm' = sub_tables cm" using t None by simp
    ultimately show ?thesis using u w s tables_subs_wf [of cm' cm api] tables_subscriptions [of cm' cm] by (auto simp: sub_tables_def)
  next
    case (Some a)
    then obtain i where i: "map_of (cm_subscribes cm) (a, conn) = Some i" using subs_alias [OF s] by blast
    note n = unsubscribed_subs [OF s Some i]
    have "sub_tables cm' = sub_tables (unsubscribed api conn req a (sp_track_full_name i) cm)" using t Some i by simp
    then show ?thesis
      using u w n tables_subs_wf [of cm' "unsubscribed api conn req a (sp_track_full_name i) cm" api]
        tables_subscriptions [of cm' "unsubscribed api conn req a (sp_track_full_name i) cm"]
      by (auto simp: sub_tables_def unsubscribed_def Let_def)
  qed
qed

lemma unsubscribe_loop:
  assumes "cm_wf api cm" and "subs_wf api cm"
  shows "\<exists>cm'. foreach (\<lambda>(c, rq). UnsubscribeReceived api c rq) xs cm = cm_ok cm' \<and> cm_wf api cm' \<and> subs_wf api cm' \<and> grows cm cm'
    \<and> subscriptions cm' = {x \<in> subscriptions cm. (fst x, fst (snd x)) \<notin> set xs}
    \<and> cm_subscribes_namespaces cm' = cm_subscribes_namespaces cm"
  using assms
proof (induction xs arbitrary: cm)
  case Nil
  then show ?case by (simp add: grows_def)
next
  case (Cons x xs)
  obtain c rq where x: "x = (c, rq)" by fastforce
  obtain cm1 where u: "UnsubscribeReceived api c rq cm = cm_ok cm1" and w: "cm_wf api cm1" "subs_wf api cm1" "grows cm cm1"
    "subscriptions cm1 = {y \<in> subscriptions cm. (fst y, fst (snd y)) \<noteq> (c, rq)}" "cm_subscribes_namespaces cm1 = cm_subscribes_namespaces cm"
    using UnsubscribeReceived_spec [OF Cons.prems] by blast
  obtain cm2 where "foreach (\<lambda>(c, rq). UnsubscribeReceived api c rq) xs cm1 = cm_ok cm2" "cm_wf api cm2" "subs_wf api cm2" "grows cm1 cm2"
    "subscriptions cm2 = {y \<in> subscriptions cm1. (fst y, fst (snd y)) \<notin> set xs}" "cm_subscribes_namespaces cm2 = cm_subscribes_namespaces cm1"
    using Cons.IH [OF w(1,2)] by blast
  then show ?case using u w grows_trans [OF w(3)] by (auto simp: x)
qed

section \<open>Client traffic\<close>

text \<open>
  One operation of a client, of the peering manager or of the server, as far as it returns or throws.  A client does not
  reuse a request identifier, and no two subscribed prefixes have the same hash.
\<close>

inductive client_step :: "cm_api \<Rightarrow> ClientManager \<Rightarrow> ClientManager \<Rightarrow> bool" for api where
  cs_subscribe: "map_of (cm_subscribe_alias_req_id cm) (conn, req) = None \<Longrightarrow> (conn, req) \<noteq> (0, 0) \<Longrightarrow>
    client_step api cm (fst (SubscribeReceived api now conn req tn attrs cm))"
| cs_unsubscribe: "client_step api cm (fst (UnsubscribeReceived api conn req cm))"
| cs_track_status: "client_step api cm (fst (TrackStatusReceived api conn req tn cm))"
| cs_publish_namespace: "client_step api cm (fst (PublishNamespaceReceived api now ref conn ns req cm))"
| cs_publish_namespace_done: "client_step api cm (fst (PublishNamespaceDoneReceived api now ref conn req cm))"
| cs_publish: "client_step api cm (fst (PublishReceived api now ticks ref conn req pattrs cm))"
| cs_publish_done: "client_step api cm (fst (PublishDoneReceived api now ref conn req cm))"
| cs_subscribe_namespace: "\<not> collides api prefix cm \<Longrightarrow>
    client_step api cm (fst (SubscribeNamespaceReceived api ticks conn ctx prefix req filt cm))"
| cs_unsubscribe_namespace: "client_step api cm (fst (UnsubscribeNamespaceReceived api conn prefix cm))"
| cs_status: "client_step api cm (fst (ConnectionStatusChanged api conn status cm))"
| cs_new_group: "client_step api cm (fst (NewGroupRequested api now tn g cm))"
| cs_handler_status: "has_handler cm r \<Longrightarrow> client_step api cm (fst (STH_StatusChanged r sstatus cm))"
| cs_peer_subscribe: "client_step api cm (fst (ProcessSubscribe api now 0 0 th tn attrs cm))"
| cs_peer_unsubscribe: "client_step api cm (fst (PeerUnsubscribeTrack fh cm))"
| cs_peer_pause: "client_step api cm (fst (RemoveOrPausePublisherSubscribe fh cm))"
| cs_stream_data: "client_step api cm (fst (on_handler r (StreamDataRecv (c_sub api) ticks is_start n bytes) cm))"
| cs_datagram: "client_step api cm (fst (on_handler r (DgramDataRecv (c_sub api) ticks data) cm))"
| cs_stream_closed: "client_step api cm (fst (on_handler r (StreamClosed (c_sub api) n reset) cm))"
| cs_peer_data: "client_step api cm (fst (PeerDataReceived api ticks fh is_start stream data cm))"
| cs_peer_stream_closed: "client_step api cm (fst (PeerStreamClosed api fh n reset cm))"
| cs_peer_control: "ctl_step (c_quicr api) (cm_peer cm) pm \<Longrightarrow> client_step api cm (cm\<lparr>cm_peer := pm\<rparr>)"

inductive_cases client_stepE: "client_step api cm cm'"

inductive client_reach :: "cm_api \<Rightarrow> ClientManager \<Rightarrow> ClientManager \<Rightarrow> bool" for api cm where
  cr_refl: "client_reach api cm cm"
| cr_step: "client_reach api cm cm' \<Longrightarrow> client_step api cm' cm'' \<Longrightarrow> client_reach api cm cm''"

definition client_inv :: "cm_api \<Rightarrow> ClientManager \<Rightarrow> bool" where
  "client_inv api cm \<longleftrightarrow> cm_wf api cm \<and> subs_wf api cm"

lemma csafe_inv: "csafe api cm r \<Longrightarrow> subs_wf api cm \<Longrightarrow> client_inv api (fst r)"
  using tables_subs_wf [of "fst r" cm api] by (simp add: client_inv_def csafe_def cm_keep_def)

lemma keep_inv: "cm_wf api cm' \<and> cm_keep cm cm' \<Longrightarrow> subs_wf api cm \<Longrightarrow> client_inv api cm'"
  using tables_subs_wf [of cm' cm api] by (simp add: client_inv_def cm_keep_def)

lemma SubscribeReceived_spec:
  assumes inv: "client_inv api cm" and fresh: "map_of (cm_subscribe_alias_req_id cm) (conn, req) = None" and c: "(conn, req) \<noteq> (0, 0)"
  shows "client_inv api (fst (SubscribeReceived api now conn req tn attrs cm))"
    "subscriptions (fst (SubscribeReceived api now conn req tn attrs cm)) =
      (if map_of (cm_subscribes cm) (th_fullname (track_hash api tn), conn) = None then insert (conn, req, tn) (subscriptions cm) else subscriptions cm)"
proof -
  let ?th = "track_hash api tn" and ?r = "SubscribeReceived api now conn req tn attrs cm"
  have w: "cm_wf api cm" "subs_wf api cm" using inv by (simp_all add: client_inv_def)
  have "cm_wf api (fst ?r)" using SubscribeReceived_tsafe [OF w(1)] by (simp add: tsafe_def)
  moreover have "subs_wf api (fst ?r) \<and> subscriptions (fst ?r) =
      (if map_of (cm_subscribes cm) (th_fullname ?th, conn) = None then insert (conn, req, tn) (subscriptions cm) else subscriptions cm)"
  proof (cases "map_of (cm_subscribes cm) (th_fullname ?th, conn)")
    case None
    let ?cm = "cm_emit (Cv_Resolve_Subscribe conn req (th_fullname ?th) True (GetLargestAvailable api tn cm)) cm"
    have e: "sub_tables ?cm = sub_tables cm" by simp
    have e': "subs_wf api ?cm" "subscriptions ?cm = subscriptions cm" "cm_wf api ?cm"
      using w tables_subs_wf [of ?cm cm api] tables_subscriptions [of ?cm cm] by simp_all
    have n: "map_of (cm_subscribes ?cm) (th_fullname ?th, conn) = None" "map_of (cm_subscribe_alias_req_id ?cm) (conn, req) = None"
      using None fresh by (simp_all add: cm_emit_def)
    let ?rec = "record_subscribe conn req ?th tn attrs ?cm"
    have r: "?r = ProcessSubscribe api now conn req ?th tn attrs ?cm" by (simp add: SubscribeReceived_def Let_def None)
    have "recorded conn req ?th tn attrs ?cm = ?rec" using c by (auto simp: recorded_def)
    then have "sub_tables (fst ?r) = sub_tables ?rec" using keep_tables [OF ProcessSubscribe_csafe [OF e'(3)]] by (metis r)
    then show ?thesis
      using record_subscribe_subs [OF e'(1) refl n] e'(2) None tables_subs_wf [of "fst ?r" ?rec api] tables_subscriptions [of "fst ?r" ?rec] by simp
  next
    case (Some i)
    then have "sub_tables (fst ?r) = sub_tables cm" by (simp add: SubscribeReceived_def Let_def)
    then show ?thesis using w(2) Some tables_subs_wf [of "fst ?r" cm api] tables_subscriptions [of "fst ?r" cm] by simp
  qed
  ultimately show "client_inv api (fst ?r)" "subscriptions (fst ?r) =
      (if map_of (cm_subscribes cm) (th_fullname ?th, conn) = None then insert (conn, req, tn) (subscriptions cm) else subscriptions cm)"
    by (simp_all add: client_inv_def)
qed

lemma PublishDoneReceived_inv:
  assumes "client_inv api cm" and m: "msg_throws_std (q_msg (c_quicr api))"
  shows "client_inv api (fst (PublishDoneReceived api now ref conn req cm))"
proof (cases "map_of (cm_pub_subscribes_by_req_id cm) (req, conn)")
  case (Some r)
  have w: "cm_wf api cm" "subs_wf api cm" using assms(1) by (simp_all add: client_inv_def)
  obtain h where h: "map_of (cm_handlers cm) r = Some h" using w(1) map_of_SomeD [OF Some] by (fastforce simp: cm_wf_def has_handler_def)
  obtain cm1 x where a: "(if conn \<noteq> 0 then announce_peers api now ref (sth_full_track_name h) True False cm else cm_ok cm) = (cm1, x)" by fastforce
  have c: "csafe api cm (cm1, x)" using announce_peers_csafe [OF w(1) m] w(1) a [symmetric] by (simp add: csafe_ok)
  have i1: "client_inv api cm1" using csafe_inv [OF c w(2)] by simp
  show ?thesis
  proof (cases x)
    case (Inr u)
    let ?fh = "th_fullname (track_hash api (sth_full_track_name h))"
    let ?cm2 = "set_pub_subscribes (mdel (?fh, conn) (pub_subscribes cm1)) cm1"
    have w2: "cm_wf api ?cm2" "subs_wf api ?cm2"
      using i1 delete_handlers_csafe(3) [of api cm1] tables_subs_wf [of ?cm2 cm1 api] by (simp_all add: client_inv_def)
    define unsub where "unsub = (if key_range ?fh (pub_subscribes ?cm2) = [] \<and> \<not> c_detached_subs api
        then map (\<lambda>(key, info). (snd key, sp_request_id info)) (key_range ?fh (cm_subscribes ?cm2)) else [])"
    obtain cm3 where l: "foreach (\<lambda>(c, rq). UnsubscribeReceived api c rq) unsub ?cm2 = cm_ok cm3" and i3: "subs_wf api cm3"
      using unsubscribe_loop [OF w2] by blast
    have r: "fst (PublishDoneReceived api now ref conn req cm) = cm3\<lparr>cm_pub_subscribes_by_req_id := mdel (req, conn) (cm_pub_subscribes_by_req_id cm3)\<rparr>"
      using l by (simp add: PublishDoneReceived_def Some with_handler_def h a Inr Let_def unsub_def)
    have "subs_wf api (fst (PublishDoneReceived api now ref conn req cm))"
      using i3 tables_subs_wf [of "fst (PublishDoneReceived api now ref conn req cm)" cm3 api] by (simp add: r sub_tables_def)
    moreover have "cm_wf api (fst (PublishDoneReceived api now ref conn req cm))"
      using PublishDoneReceived_tsafe [OF w(1) m] by (simp add: tsafe_def)
    ultimately show ?thesis by (simp add: client_inv_def)
  next
    case (Inl e)
    have "PublishDoneReceived api now ref conn req cm = (cm1, Inl e)"
      by (simp add: PublishDoneReceived_def Some with_handler_def h a Inl Let_def)
    then show ?thesis using i1 by simp
  qed
qed (use assms in \<open>simp add: PublishDoneReceived_def\<close>)

lemma SubscribeNamespaceReceived_inv:
  assumes "client_inv api cm" and "\<not> collides api prefix cm"
  shows "client_inv api (fst (SubscribeNamespaceReceived api now conn ctx prefix req filt cm))"
proof -
  obtain cm2 where c: "csafe api cm2 (SubscribeNamespaceReceived api now conn ctx prefix req filt cm)"
    and t: "fst (sub_tables cm2) = fst (sub_tables cm)" "fst (snd (sub_tables cm2)) = fst (snd (sub_tables cm))"
    using SubscribeNamespaceReceived_steps [of api cm prefix now conn ctx req filt] assms by (auto simp: client_inv_def)
  show ?thesis using csafe_inv [OF c] tables_subs_wf [OF t] assms(1) by (simp add: client_inv_def)
qed

lemma UnsubscribeNamespaceReceived_inv:
  assumes "client_inv api cm"
  shows "client_inv api (fst (UnsubscribeNamespaceReceived api conn prefix cm))"
    "subscriptions (fst (UnsubscribeNamespaceReceived api conn prefix cm)) = subscriptions cm"
proof -
  have w: "cm_wf api cm" "subs_wf api cm" using assms by (simp_all add: client_inv_def)
  note u = UnsubscribeNamespaceReceived_usafe [OF w(1), of conn prefix]
  show "client_inv api (fst (UnsubscribeNamespaceReceived api conn prefix cm))"
    using u(1) w(2) tables_subs_wf [OF u(2,3)] by (simp add: client_inv_def usafe_def)
  show "subscriptions (fst (UnsubscribeNamespaceReceived api conn prefix cm)) = subscriptions cm" by (rule tables_subscriptions [OF u(2)])
qed

lemma unsubscribe_namespace_loop:
  assumes "client_inv api cm"
  shows "client_inv api (fst (foreach (UnsubscribeNamespaceReceived api conn) nss cm))
    \<and> subscriptions (fst (foreach (UnsubscribeNamespaceReceived api conn) nss cm)) = subscriptions cm"
  using assms
proof (induction nss arbitrary: cm)
  case (Cons ns nss)
  obtain cm1 x where u: "UnsubscribeNamespaceReceived api conn ns cm = (cm1, x)" by fastforce
  have "client_inv api cm1" "subscriptions cm1 = subscriptions cm" using UnsubscribeNamespaceReceived_inv [OF Cons.prems, of conn ns] by (simp_all add: u)
  then show ?case using Cons.IH [of cm1] by (cases x) (simp_all add: u)
qed simp

lemma PurgePublishState_tables: "sub_tables (PurgePublishState conn cm) = sub_tables cm"
  by (simp add: PurgePublishState_def Let_def)

lemma ConnectionStatusChanged_inv:
  assumes "client_inv api cm"
  shows "client_inv api (fst (ConnectionStatusChanged api conn status cm))"
proof (cases "status \<in> {CS_Connected, CS_Connecting}")
  case False
  let ?nss = "map fst (filter (\<lambda>(_, conns). map_of conns conn \<noteq> None) (cm_subscribes_namespaces cm))"
  obtain cm1 x where n: "foreach (UnsubscribeNamespaceReceived api conn) ?nss cm = (cm1, x)" by fastforce
  have i1: "client_inv api cm1" using unsubscribe_namespace_loop [OF assms, of conn ?nss] unfolding n by simp
  show ?thesis
  proof (cases x)
    case (Inr u)
    let ?xs = "map fst (key_range conn (cm_subscribe_alias_req_id cm1))"
    obtain cm2 where l: "foreach (\<lambda>(c, rq). UnsubscribeReceived api c rq) ?xs cm1 = cm_ok cm2" and w2: "cm_wf api cm2" "subs_wf api cm2"
      using unsubscribe_loop [of api cm1 ?xs] i1 unfolding client_inv_def by blast
    have "ConnectionStatusChanged api conn status cm = cm_ok (PurgePublishState conn cm2)"
      using False n Inr l by (simp add: ConnectionStatusChanged_def Let_def)
    then show ?thesis
      using w2 PurgePublishState_safe [OF w2(1)] tables_subs_wf [of "PurgePublishState conn cm2" cm2 api] by (simp add: client_inv_def PurgePublishState_tables)
  next
    case (Inl e)
    then have "ConnectionStatusChanged api conn status cm = (cm1, Inl e)" using False n by (simp add: ConnectionStatusChanged_def Let_def)
    then show ?thesis using i1 by simp
  qed
qed (use assms in \<open>auto simp: ConnectionStatusChanged_def\<close>)

lemma client_step_inv:
  assumes "client_step api cm cm'" and m: "msg_throws_std (q_msg (c_quicr api))" and inv: "client_inv api cm"
  shows "client_inv api cm'"
proof -
  have w: "cm_wf api cm" and s: "subs_wf api cm" using inv by (simp_all add: client_inv_def)
  from assms(1) show ?thesis
  proof cases
    case (cs_subscribe conn req now tn attrs)
    then show ?thesis using SubscribeReceived_spec(1) [OF inv] by simp
  next
    case (cs_unsubscribe conn req)
    then show ?thesis using UnsubscribeReceived_spec [OF w s, of conn req] by (auto simp: client_inv_def)
  next
    case cs_publish_done
    then show ?thesis using PublishDoneReceived_inv [OF inv m] by simp
  next
    case cs_subscribe_namespace
    then show ?thesis using SubscribeNamespaceReceived_inv [OF inv] by simp
  next
    case cs_unsubscribe_namespace
    then show ?thesis using UnsubscribeNamespaceReceived_inv(1) [OF inv] by simp
  next
    case cs_status
    then show ?thesis using ConnectionStatusChanged_inv [OF inv] by simp
  next
    case (cs_peer_subscribe now th tn attrs)
    then show ?thesis using csafe_inv [OF ProcessSubscribe_csafe [OF w, of 0 0 th tn attrs now]] s by (simp add: recorded_def)
  next
    case cs_peer_unsubscribe
    then show ?thesis using csafe_inv [OF remove_everywhere_csafe [OF w] s] by (simp add: PeerUnsubscribeTrack_def)
  next
    case cs_stream_data
    then show ?thesis using keep_inv [OF on_handler_keeps [OF w data_keeps(1)] s] by simp
  next
    case cs_datagram
    then show ?thesis using keep_inv [OF on_handler_keeps [OF w data_keeps(2)] s] by simp
  next
    case cs_stream_closed
    then show ?thesis using keep_inv [OF on_handler_keeps [OF w data_keeps(3)] s] by simp
  next
    case (cs_peer_control pm)
    have "safe (cm_peer cm) (pm, Inr ())"
      using ctl_step_keeps [OF cs_peer_control(2) m] w by (simp add: cm_wf_def safe_def)
    then have "csafe api cm (on_peer (\<lambda>_. pm_ok pm) cm)" by (intro csafe_on_peer w)
    then show ?thesis using csafe_inv [OF _ s, of "on_peer (\<lambda>_. pm_ok pm) cm"] cs_peer_control(1) by (simp add: on_peer_def)
  qed (use csafe_inv [OF TrackStatusReceived_csafe [OF w] s] csafe_inv [OF PublishNamespaceReceived_csafe [OF w m] s]
        csafe_inv [OF PublishNamespaceDoneReceived_csafe [OF w m] s] csafe_inv [OF PublishReceived_csafe [OF w m] s]
        csafe_inv [OF NewGroupRequested_csafe [OF w m] s] csafe_inv [OF STH_StatusChanged_csafe [OF w] s]
        csafe_inv [OF RemoveOrPause_csafe [OF w] s] keep_inv [OF peer_data_keeps(1) [OF w] s] keep_inv [OF peer_data_keeps(2) [OF w] s] in simp_all)
qed

lemma client_reach_inv: "client_reach api cm cm' \<Longrightarrow> msg_throws_std (q_msg (c_quicr api)) \<Longrightarrow> client_inv api cm \<Longrightarrow> client_inv api cm'"
  by (induction rule: client_reach.induct) (auto intro: client_step_inv)

section \<open>When the last subscriber leaves\<close>

text \<open>What becomes of the handler of a publisher: it is kept while it has subscribers, paused when the publisher
  started it, and dropped otherwise.\<close>

definition the_handler :: "ClientManager \<Rightarrow> shref \<Rightarrow> SubscribeTrackHandler" where
  "the_handler cm r = the (map_of (cm_handlers cm) r)"

definition dropped :: "ClientManager \<Rightarrow> shref \<Rightarrow> bool" where
  "dropped cm r \<longleftrightarrow> \<not> STH_HasSubscribers (the_handler cm r) \<and> \<not> sth_publisher_initiated (the_handler cm r)"

definition paused_now :: "ClientManager \<Rightarrow> shref \<Rightarrow> bool" where
  "paused_now cm r \<longleftrightarrow> \<not> STH_HasSubscribers (the_handler cm r) \<and> sth_publisher_initiated (the_handler cm r)"

lemma the_handler_cong: "map_of (cm_handlers cm') = map_of (cm_handlers cm) \<Longrightarrow> the_handler cm' = the_handler cm"
  by (simp add: the_handler_def fun_eq_iff)

lemma pause_loop_spec:
  assumes "\<forall>entry \<in> set es. has_handler cm (snd entry)"
  shows "\<exists>cm'. pause_loop es subs remove cm =
        (cm', Inr (subs \<or> (\<exists>e \<in> set es. STH_HasSubscribers (the_handler cm (snd e))), remove @ map fst (filter (\<lambda>e. dropped cm (snd e)) es)))
    \<and> map_of (cm_handlers cm') = map_of (cm_handlers cm) \<and> cm_peer cm' = cm_peer cm
    \<and> cm_log cm' = cm_log cm @ map (\<lambda>e. Cv_Unsubscribe_Track (snd (fst e)) (snd e)) (filter (\<lambda>e. dropped cm (snd e)) es)
    \<and> se_log (cm_env cm') = se_log (cm_env cm) @ map (\<lambda>e. Sv_Pause (sth_self (the_handler cm (snd e)))) (filter (\<lambda>e. paused_now cm (snd e)) es)"
  using assms
proof (induction es arbitrary: subs remove cm)
  case (Cons e es)
  obtain h where h: "map_of (cm_handlers cm) (snd e) = Some h" using Cons.prems by (auto simp: has_handler_def)
  then have t: "the_handler cm (snd e) = h" by (simp add: the_handler_def)
  have step: "\<exists>cm1. pause_or_unsubscribe e cm = (cm1, Inr (STH_HasSubscribers h, dropped cm (snd e)))
    \<and> map_of (cm_handlers cm1) = map_of (cm_handlers cm) \<and> cm_peer cm1 = cm_peer cm
    \<and> cm_log cm1 = cm_log cm @ (if dropped cm (snd e) then [Cv_Unsubscribe_Track (snd (fst e)) (snd e)] else [])
    \<and> se_log (cm_env cm1) = se_log (cm_env cm) @ (if paused_now cm (snd e) then [Sv_Pause (sth_self h)] else [])"
    using h by (auto simp: pause_or_unsubscribe_def with_handler_def dropped_def paused_now_def t cm_emit_def handler_do_def on_handler_def Pause_def
        sub_emit_def fun_upd_idem_iff)
  then obtain cm1 where p: "pause_or_unsubscribe e cm = (cm1, Inr (STH_HasSubscribers h, dropped cm (snd e)))"
    and m: "map_of (cm_handlers cm1) = map_of (cm_handlers cm)" "cm_peer cm1 = cm_peer cm"
    and l: "cm_log cm1 = cm_log cm @ (if dropped cm (snd e) then [Cv_Unsubscribe_Track (snd (fst e)) (snd e)] else [])"
      "se_log (cm_env cm1) = se_log (cm_env cm) @ (if paused_now cm (snd e) then [Sv_Pause (sth_self h)] else [])" by blast
  have same: "the_handler cm1 = the_handler cm" "dropped cm1 = dropped cm" "paused_now cm1 = paused_now cm"
    using the_handler_cong [OF m(1)] by (simp_all add: dropped_def paused_now_def fun_eq_iff)
  have "\<forall>e \<in> set es. has_handler cm1 (snd e)" using Cons.prems m(1) by (simp add: has_handler_def)
  from Cons.IH [OF this, of "subs \<or> STH_HasSubscribers h" "if dropped cm (snd e) then remove @ [fst e] else remove", unfolded same]
  show ?case using m l t by (cases "dropped cm (snd e)"; cases "paused_now cm (snd e)") (auto simp: p)
qed simp

lemma fold_mdel_filter:
  assumes "\<And>e. e \<in> set m \<Longrightarrow> fst e \<in> set ks \<longleftrightarrow> P e"
  shows "fold mdel ks m = filter (\<lambda>e. \<not> P e) m"
proof -
  have "fold mdel ks m = filter (\<lambda>e. fst e \<notin> set ks) m" by (induction ks arbitrary: m) (auto simp: mdel_def filter_filter conj_commute)
  then show ?thesis using assms by (simp cong: filter_cong)
qed

lemma ClientUnsubscribe_state: "pm_wf pm \<Longrightarrow> pm_log (fst (ClientUnsubscribe fh (pm\<lparr>pm_state := s\<rparr>))) = pm_log (fst (ClientUnsubscribe fh pm))"
proof -
  assume wf: "pm_wf pm"
  obtain ib x where g: "GetSubscribe fh (ni_id (pm_node_info pm)) (pm_info_base pm) = (ib, x)" by fastforce
  have "same_routes (pm_info_base pm) (fst (RemoveSubscribe si ib))" for si
    using GetSubscribe_routes [OF g] subscribe_same_routes(2) by (rule same_routes_trans)
  then have w: "pm_wf (pm\<lparr>pm_info_base := fst (RemoveSubscribe si ib)\<rparr>)" for si by (intro pm_wf_routes wf)
  then have w': "pm_wf (pm\<lparr>pm_state := s, pm_info_base := fst (RemoveSubscribe si ib)\<rparr>)" for si
    by (simp add: pm_wf_def live_of_def [abs_def] all_sessions_def)
  show ?thesis using g
    by (simp add: ClientUnsubscribe_def send_subscribe_all_def flood_subscribe_eq [OF w] flood_subscribe_eq [OF w'] case_prod_unfold
        sess_of_def [abs_def] all_sessions_def split: option.split)
qed

lemma cm_log_set_pub_subscribes [simp]: "cm_log (set_pub_subscribes m cm) = cm_log cm"
  by (simp add: set_pub_subscribes_def)

lemma RemoveOrPause_spec:
  assumes wf: "cm_wf api cm" and no: "\<not> PM_HasSubscribers fh (cm_peer cm)"
  defines "es \<equiv> key_range fh (pub_subscribes cm)"
  shows "\<exists>cm'. RemoveOrPausePublisherSubscribe fh cm = cm_ok cm'
    \<and> pub_subscribes cm' = filter (\<lambda>e. \<not> (fst (fst e) = fh \<and> dropped cm (snd e))) (pub_subscribes cm)
    \<and> map_of (cm_handlers cm') = map_of (cm_handlers cm)
    \<and> cm_log cm' = cm_log cm @ map (\<lambda>e. Cv_Unsubscribe_Track (snd (fst e)) (snd e)) (filter (\<lambda>e. dropped cm (snd e)) es)
    \<and> se_log (cm_env cm') = se_log (cm_env cm) @ map (\<lambda>e. Sv_Pause (sth_self (the_handler cm (snd e)))) (filter (\<lambda>e. paused_now cm (snd e)) es)
    \<and> pm_log (cm_peer cm') = (if \<exists>e \<in> set es. STH_HasSubscribers (the_handler cm (snd e)) then pm_log (cm_peer cm)
         else pm_log (fst (ClientUnsubscribe fh (cm_peer cm))))"
proof -
  have m: "msorted (pub_subscribes cm)" using wf by (simp add: cm_wf_def)
  have "\<forall>e \<in> set es. has_handler cm (snd e)" using range_handler [OF wf] by (simp add: es_def)
  from pause_loop_spec [OF this, of False "[]"] obtain cm1 where
    l: "pause_loop es False [] cm = (cm1, Inr ((\<exists>e \<in> set es. STH_HasSubscribers (the_handler cm (snd e))), map fst (filter (\<lambda>e. dropped cm (snd e)) es)))"
    and k: "map_of (cm_handlers cm1) = map_of (cm_handlers cm)" "cm_peer cm1 = cm_peer cm"
      "cm_log cm1 = cm_log cm @ map (\<lambda>e. Cv_Unsubscribe_Track (snd (fst e)) (snd e)) (filter (\<lambda>e. dropped cm (snd e)) es)"
      "se_log (cm_env cm1) = se_log (cm_env cm) @ map (\<lambda>e. Sv_Pause (sth_self (the_handler cm (snd e)))) (filter (\<lambda>e. paused_now cm (snd e)) es)"
    by auto
  let ?cm2 = "set_pub_subscribes (fold mdel (map fst (filter (\<lambda>e. dropped cm (snd e)) es)) (pub_subscribes cm1)) cm1"
  have p1: "pub_subscribes cm1 = pub_subscribes cm" using k(2) by (simp add: pub_subscribes_def)
  have f: "fold mdel (map fst (filter (\<lambda>e. dropped cm (snd e)) es)) (pub_subscribes cm) =
      filter (\<lambda>e. \<not> (fst (fst e) = fh \<and> dropped cm (snd e))) (pub_subscribes cm)"
  proof (rule fold_mdel_filter)
    fix e
    assume "e \<in> set (pub_subscribes cm)"
    moreover have "x = e" if "x \<in> set (pub_subscribes cm)" "fst x = fst e" for x
      using that calculation msorted_map_of [OF m, of "fst e"] by (metis option.inject prod.collapse)
    ultimately show "fst e \<in> set (map fst (filter (\<lambda>e. dropped cm (snd e)) es)) \<longleftrightarrow> fst (fst e) = fh \<and> dropped cm (snd e)"
      by (force simp: es_def key_range_eq [OF m])
  qed
  have w: "pm_wf (cm_peer cm)" using wf by (simp add: cm_wf_def)
  have pe: "cm_peer ?cm2 = (cm_peer cm)\<lparr>pm_state := pm_state (cm_peer ?cm2)\<rparr>" using k(2) by (simp add: set_pub_subscribes_def)
  show ?thesis
  proof (cases "\<exists>e \<in> set es. STH_HasSubscribers (the_handler cm (snd e))")
    case True
    then have "RemoveOrPausePublisherSubscribe fh cm = cm_ok ?cm2"
      using no l by (simp add: RemoveOrPausePublisherSubscribe_def flip: es_def)
    moreover have "pm_log (cm_peer ?cm2) = pm_log (cm_peer cm)" using k(2) by (simp add: set_pub_subscribes_def)
    ultimately show ?thesis using True k f p1 by (intro exI [of _ ?cm2]) simp
  next
    case False
    have w2: "pm_wf (cm_peer ?cm2)" using w k(2) by simp
    obtain pm where u: "ClientUnsubscribe fh (cm_peer ?cm2) = pm_ok pm" using returned [OF ClientUnsubscribe_returns [OF w2]] by blast
    then have r: "RemoveOrPausePublisherSubscribe fh cm = cm_ok (?cm2\<lparr>cm_peer := pm\<rparr>)"
      using no l False by (auto simp: RemoveOrPausePublisherSubscribe_def on_peer_def simp flip: es_def)
    have "pm_keep (cm_peer ?cm2) pm" using ClientUnsubscribe_safe [OF w2, of fh] u by (simp add: safe_def)
    then have "pub_subscribes (?cm2\<lparr>cm_peer := pm\<rparr>) = pub_subscribes ?cm2" by (simp add: pub_subscribes_def pm_keep_def)
    moreover have "pm_log pm = pm_log (fst (ClientUnsubscribe fh (cm_peer cm)))" using arg_cong [OF pe, of "\<lambda>p. pm_log (fst (ClientUnsubscribe fh p))"] ClientUnsubscribe_state [OF w] u by simp
    ultimately show ?thesis using False k f p1 r by (intro exI [of _ "?cm2\<lparr>cm_peer := pm\<rparr>"]) simp
  qed
qed

section \<open>Leaving a namespace\<close>

text \<open>What one round of the loop does to a track under the prefix.\<close>

lemma withdraw_track_matching:
  assumes wf: "cm_wf api cm" and h: "map_of (cm_handlers cm) (snd e) = Some h" and n: "map_of (se_ns (cm_env cm)) n = Some p"
    and nss: "map_of (cm_subscribes_namespaces cm) prefix \<noteq> None"
    and self: "c_allow_self api \<or> snd (fst e) \<noteq> conn" and pre: "m_same_prefix (q_msg (c_quicr api)) prefix (fst (sth_full_track_name h))"
  shows "\<exists>cm1. withdraw_track api conn prefix n e cm = RemoveOrPausePublisherSubscribe (fst (fst e)) cm1
    \<and> cm_wf api cm1 \<and> cm_peer cm1 = cm_peer cm
    \<and> (\<forall>r. map_of (cm_handlers cm1) r =
         (if r = snd e then Some (fst (fst (RemoveSubscribeNamespace (c_sub api) n (h, cm_env cm)))) else map_of (cm_handlers cm) r))"
proof -
  obtain h' e' where r: "RemoveSubscribeNamespace (c_sub api) n (h, cm_env cm) = ((h', e'), Inr ())"
  proof -
    have "snd (RemoveSubscribeNamespace (c_sub api) n (h, cm_env cm)) = Inr ()" using n by (simp add: RemoveSubscribeNamespace_def Let_def split: option.split)
    then show ?thesis using that by (metis prod.collapse)
  qed
  let ?cm1 = "cm\<lparr>cm_handlers := mput (snd e) h' (cm_handlers cm), cm_env := e'\<rparr>"
  have o: "on_handler (snd e) (RemoveSubscribeNamespace (c_sub api) n) cm = cm_ok ?cm1" by (simp add: on_handler_def h r)
  have hh: "has_handler cm (snd e)" "has_ns cm n" using h n by (simp_all add: has_handler_def has_ns_def)
  have c1: "csafe api cm (cm_ok ?cm1)"
    unfolding o [symmetric]
  proof (rule csafe_on_handler [OF wf hh(1)])
    show "env_keep (cm_env cm) (snd (fst (RemoveSubscribeNamespace (c_sub api) n (h, cm_env cm))))" for h
      by (simp add: RemoveSubscribeNamespace_def Let_def split: option.split)
    show "is_exception x" if "snd (RemoveSubscribeNamespace (c_sub api) n (h, cm_env cm)) = Inl x" for h x
      using that n by (auto simp: RemoveSubscribeNamespace_def Let_def split: option.splits)
  qed
  have w1: "cm_wf api ?cm1" using c1 by (simp add: csafe_def)
  have t: "cm_track_rankings ?cm1 = cm_track_rankings cm" "cm_subscribes_namespaces ?cm1 = cm_subscribes_namespaces cm" by simp_all
  obtain k where k: "map_of (cm_track_rankings cm) (namespace_hash api prefix) = Some k"
    using namespace_entry(4) [of api cm prefix] nss wf by (auto simp: cm_wf_def)
  then have "has_ranking ?cm1 k" using w1 map_of_SomeD [OF k] by (auto simp: cm_wf_def rankings_wf_def has_ranking_def)
  then obtain cm2 where f: "on_ranking k (RemoveNamespaceHandler (namespace_hash api) n (rank_world_of ?cm1)) ?cm1 = cm_ok cm2"
    and c2: "cm_handlers cm2 = cm_handlers ?cm1" "cm_peer cm2 = cm_peer ?cm1"
    by (auto simp: on_ranking_def has_ranking_def)
  have "cm_wf api cm2" using on_ranking_csafe [OF w1 \<open>has_ranking ?cm1 k\<close>, of "RemoveNamespaceHandler (namespace_hash api) n (rank_world_of ?cm1)"] f
    by (simp add: csafe_def)
  moreover have "withdraw_track api conn prefix n e cm = RemoveOrPausePublisherSubscribe (fst (fst e)) cm2"
    using self pre o f k by (auto simp: withdraw_track_def with_handler_def h)
  ultimately show ?thesis using c2 r by (intro exI [of _ cm2]) simp
qed

lemma withdraw_track_other:
  assumes "map_of (cm_handlers cm) (snd e) = Some h"
    and "\<not> ((c_allow_self api \<or> snd (fst e) \<noteq> conn) \<and> m_same_prefix (q_msg (c_quicr api)) prefix (fst (sth_full_track_name h)))"
  shows "withdraw_track api conn prefix n e cm = cm_ok cm"
  using assms by (auto simp: withdraw_track_def with_handler_def)

lemma RemoveSubscribeNamespace_initiated [simp]:
  "sth_publisher_initiated (fst (fst (RemoveSubscribeNamespace sapi n (h, e)))) = sth_publisher_initiated h"
  by (simp add: RemoveSubscribeNamespace_def Let_def split: option.split)

text \<open>A relay all of whose tracks were started by their publishers: no handler is ever dropped.\<close>

definition published_only :: "ClientManager \<Rightarrow> bool" where
  "published_only cm \<longleftrightarrow> (\<forall>(key, r) \<in> set (pub_subscribes cm). \<exists>h. map_of (cm_handlers cm) r = Some h \<and> sth_publisher_initiated h)"

lemma RemoveOrPause_published:
  assumes wf: "cm_wf api cm" and p: "published_only cm"
  shows "\<exists>cm'. RemoveOrPausePublisherSubscribe fh cm = cm_ok cm' \<and> pub_subscribes cm' = pub_subscribes cm \<and> map_of (cm_handlers cm') = map_of (cm_handlers cm)"
proof (cases "PM_HasSubscribers fh (cm_peer cm)")
  case False
  have "\<not> dropped cm (snd e)" if "e \<in> set (pub_subscribes cm)" for e
    using that p by (auto simp: dropped_def the_handler_def published_only_def)
  then have "filter (\<lambda>e. \<not> (fst (fst e) = fh \<and> dropped cm (snd e))) (pub_subscribes cm) = pub_subscribes cm" by simp
  then show ?thesis using RemoveOrPause_spec [OF wf False] by auto
qed (simp add: RemoveOrPausePublisherSubscribe_def)

lemma withdraw_track_published:
  assumes wf: "cm_wf api cm" and p: "published_only cm" and e: "e \<in> set (pub_subscribes cm)" and n: "has_ns cm n"
    and nss: "map_of (cm_subscribes_namespaces cm) prefix \<noteq> None"
  shows "\<exists>cm'. visit_entry (withdraw_track api conn prefix n) e cm = cm_ok cm' \<and> pub_subscribes cm' = pub_subscribes cm \<and> published_only cm'"
proof -
  obtain h where h: "map_of (cm_handlers cm) (snd e) = Some h" "sth_publisher_initiated h" using p e by (cases e) (auto simp: published_only_def)
  obtain q where q: "map_of (se_ns (cm_env cm)) n = Some q" using n by (auto simp: has_ns_def)
  have "map_of (pub_subscribes cm) (fst e) = Some (snd e)" using wf e by (simp add: cm_wf_def flip: msorted_map_of)
  moreover have "\<exists>cm'. withdraw_track api conn prefix n e cm = cm_ok cm' \<and> pub_subscribes cm' = pub_subscribes cm \<and> published_only cm'"
  proof (cases "(c_allow_self api \<or> snd (fst e) \<noteq> conn) \<and> m_same_prefix (q_msg (c_quicr api)) prefix (fst (sth_full_track_name h))")
    case True
    obtain cm1 where w: "withdraw_track api conn prefix n e cm = RemoveOrPausePublisherSubscribe (fst (fst e)) cm1" "cm_wf api cm1" "cm_peer cm1 = cm_peer cm"
      and m: "\<forall>r. map_of (cm_handlers cm1) r = (if r = snd e then Some (fst (fst (RemoveSubscribeNamespace (c_sub api) n (h, cm_env cm)))) else map_of (cm_handlers cm) r)"
      using withdraw_track_matching [OF wf h(1) q nss] True by blast
    have ps: "pub_subscribes cm1 = pub_subscribes cm" using w(3) by (simp add: pub_subscribes_def)
    have "published_only cm1" using p h(2) unfolding published_only_def ps by (auto simp: m)
    then show ?thesis using RemoveOrPause_published [OF w(2)] w(1) ps unfolding published_only_def by fastforce
  qed (use withdraw_track_other [OF h(1)] p in auto)
  ultimately show ?thesis by (auto simp: visit_entry_def)
qed

lemma leave_published:
  assumes "cm_wf api cm" and "published_only cm"
  shows "\<exists>cm'. UnsubscribeNamespaceReceived api conn prefix cm = cm_ok cm' \<and> published_only cm'"
proof -
  have loop: "\<exists>cm'. foreach (visit_entry (withdraw_track api conn prefix n)) (pub_subscribes cm) cm = cm_ok cm' \<and> published_only cm'"
    if n: "has_ns cm n" and nss: "map_of (cm_subscribes_namespaces cm) prefix \<noteq> None" for n
  proof -
    let ?f = "visit_entry (withdraw_track api conn prefix n)"
    let ?I = "\<lambda>cm'. cm_wf api cm' \<and> cm_keep cm cm' \<and> pub_subscribes cm' = pub_subscribes cm \<and> published_only cm'"
    have "snd (?f e cm1) = Inr () \<and> ?I (fst (?f e cm1))" if e: "e \<in> set (pub_subscribes cm)" and i: "?I cm1" for e cm1
    proof -
      have n1: "has_ns cm1 n" "map_of (cm_subscribes_namespaces cm1) prefix \<noteq> None" "has_handler cm1 (snd e)"
        using i n nss kept_handler [of cm cm1] pub_subscribes_handler [OF assms(1), of "fst e" "snd e"] e by (auto simp: cm_keep_def sub_tables_def)
      obtain cm2 where v: "?f e cm1 = cm_ok cm2" and p2: "pub_subscribes cm2 = pub_subscribes cm1" "published_only cm2"
        using withdraw_track_published [of api cm1 e n prefix conn] i e n1 by auto
      have "csafe api cm1 (withdraw_track api conn prefix n e cm1)" using withdraw_track_csafe [OF _ n1(3,1,2)] i by blast
      then have "cm_wf api cm2 \<and> cm_keep cm1 cm2" using v i by (auto simp: visit_entry_def andthen_def csafe_def split: if_splits sum.splits)
      then show ?thesis using v p2 i cm_keep_trans by fastforce
    qed
    then have "snd (foreach ?f (pub_subscribes cm) cm) = Inr () \<and> ?I (fst (foreach ?f (pub_subscribes cm) cm))"
      using foreach_inv [of ?I cm "pub_subscribes cm" ?f] assms by simp
    then show ?thesis by (cases "foreach ?f (pub_subscribes cm) cm") simp
  qed
  have same: "published_only (cm1\<lparr>cm_subscribes_namespaces := m\<rparr>) = published_only cm1" "published_only (drop_ranking x cm1) = published_only cm1" for cm1 m x
    by (simp_all add: published_only_def pub_subscribes_def drop_ranking_def split: option.split)
  show ?thesis
  proof (cases "map_of (cm_subscribes_namespaces cm) prefix")
    case (Some conns)
    then have "has_ns cm n" if "map_of conns conn = Some n" for n
      using namespace_entry(3) [of api cm prefix conns] assms(1) map_of_SomeD [OF that] by (auto simp: cm_wf_def)
    then show ?thesis using loop Some assms(2) same by (cases "map_of conns conn") (fastforce simp: UnsubscribeNamespaceReceived_def Let_def)+
  qed (use assms(2) in \<open>simp add: UnsubscribeNamespaceReceived_def\<close>)
qed

section \<open>What closing a connection leaves alone\<close>

text \<open>
  Where every track was started by its publisher, neither kind of unsubscribe changes the tables of the
  publishers: the handlers are only paused.
\<close>

definition pub_kept :: "ClientManager \<Rightarrow> ClientManager \<Rightarrow> bool" where
  "pub_kept cm cm' \<longleftrightarrow> pub_subscribes cm' = pub_subscribes cm \<and> pub_namespace_active cm' = pub_namespace_active cm
     \<and> cm_pub_subscribes_by_req_id cm' = cm_pub_subscribes_by_req_id cm \<and> cm_requests cm' = cm_requests cm
     \<and> (\<forall>r h'. map_of (cm_handlers cm') r = Some h' \<longrightarrow>
          (\<exists>h. map_of (cm_handlers cm) r = Some h \<and> sth_publisher_initiated h' = sth_publisher_initiated h))"

definition initiated_only :: "ClientManager \<Rightarrow> bool" where
  "initiated_only cm \<longleftrightarrow> (\<forall>(key, r) \<in> set (pub_subscribes cm). \<forall>h. map_of (cm_handlers cm) r = Some h \<longrightarrow> sth_publisher_initiated h)"

definition keeps_pub :: "ClientManager \<Rightarrow> 'a cm_res \<Rightarrow> bool" where
  "keeps_pub cm res \<longleftrightarrow> (initiated_only cm \<longrightarrow> pub_kept cm (fst res))"

lemma pub_kept_refl [simp]: "pub_kept cm cm"
  by (simp add: pub_kept_def)

lemma pub_kept_trans: "pub_kept a b \<Longrightarrow> pub_kept b c \<Longrightarrow> pub_kept a c"
  unfolding pub_kept_def by metis

lemma pub_kept_initiated: "pub_kept cm cm' \<Longrightarrow> initiated_only cm \<Longrightarrow> initiated_only cm'"
  unfolding pub_kept_def initiated_only_def by fastforce

lemma keeps_pub_ok [simp]: "keeps_pub cm (cm, x)"
  by (simp add: keeps_pub_def)

lemma keeps_pub_andthen:
  assumes "keeps_pub cm res" and "\<And>x cm'. keeps_pub cm' (f x cm')"
  shows "keeps_pub cm (andthen res f)"
proof (cases "snd res")
  case (Inr x)
  then show ?thesis using assms(1) assms(2) [of "fst res" x] pub_kept_trans pub_kept_initiated
    by (fastforce simp: keeps_pub_def andthen_def)
qed (use assms(1) in \<open>simp add: keeps_pub_def andthen_def\<close>)

lemma keeps_pub_foreach: "(\<And>x cm'. keeps_pub cm' (f x cm')) \<Longrightarrow> keeps_pub cm (foreach f xs cm)"
  by (induction xs arbitrary: cm) (simp_all add: keeps_pub_andthen)

lemma keeps_pub_on_handler:
  assumes "\<And>st. sth_publisher_initiated (fst (fst (f st))) = sth_publisher_initiated (fst st)"
  shows "keeps_pub cm (on_handler r f cm)"
proof (cases "map_of (cm_handlers cm) r")
  case (Some h)
  obtain h' e x where f: "f (h, cm_env cm) = ((h', e), x)" by (metis prod.collapse)
  then have "sth_publisher_initiated h' = sth_publisher_initiated h" using assms [of "(h, cm_env cm)"] by simp
  then show ?thesis using Some by (simp add: keeps_pub_def on_handler_def f pub_kept_def pub_subscribes_def pub_namespace_active_def)
qed (simp add: on_handler_def)

lemma keeps_pub_with_handler: "(\<And>h. keeps_pub cm (f h cm)) \<Longrightarrow> keeps_pub cm (with_handler r f cm)"
  by (simp add: with_handler_def split: option.split)

text \<open>The peering manager does not touch the tables it shares.\<close>

lemma on_session_state [simp]: "pm_state (fst (on_session r f pm)) = pm_state pm"
  by (simp add: on_session_def case_prod_unfold split: option.split)

lemma flood_subscribe_state: "pm_state (fst (fst (flood_subscribe ing w st))) = pm_state (fst st)"
proof -
  have one: "pm_state (fst (fst (subscribe_to w sess st))) = pm_state (fst st)" for sess st
    using on_session_state [of "snd sess" "SendSubscribeInfo (snd st) w" "fst st"]
    by (auto simp: subscribe_to_def simp del: on_session_state split: prod.split sum.split)
  let ?f = "\<lambda>sess st. if Some (fst sess) \<noteq> ing then subscribe_to w sess st else (st, Inr ())"
  have "pm_state (fst (fst (foreach ?f xs st))) = pm_state (fst st)" for xs
    by (induction xs arbitrary: st) (simp_all add: andthen_def one split: sum.split)
  then show ?thesis by (simp add: flood_subscribe_def)
qed

lemma keeps_pub_unsubscribe: "keeps_pub cm (on_peer (ClientUnsubscribe fh) cm)"
proof -
  have "pm_state (fst (ClientUnsubscribe fh pm)) = pm_state pm" for pm
    using flood_subscribe_state [of None True] by (simp add: ClientUnsubscribe_def send_subscribe_all_def case_prod_unfold split: option.split)
  then show ?thesis by (simp add: keeps_pub_def on_peer_def case_prod_unfold pub_kept_def pub_subscribes_def pub_namespace_active_def)
qed

lemma pause_loop_kept:
  assumes "initiated_only cm" and "set es \<subseteq> set (pub_subscribes cm)"
  shows "pub_kept cm (fst (pause_loop es b rm cm)) \<and> (\<forall>x. snd (pause_loop es b rm cm) = Inr x \<longrightarrow> snd x = rm)"
  using assms
proof (induction es arbitrary: b cm)
  case (Cons e es)
  have p: "sth_publisher_initiated h" if "map_of (cm_handlers cm) (snd e) = Some h" for h
    using Cons.prems that unfolding initiated_only_def by (cases e) auto
  have "keeps_pub cm (handler_do (snd e) Pause cm)"
    unfolding handler_do_def by (rule keeps_pub_on_handler) (simp add: Pause_def case_prod_unfold)
  then have k: "pub_kept cm (fst (pause_or_unsubscribe e cm))"
    using p Cons.prems(1) by (auto simp: pause_or_unsubscribe_def with_handler_def keeps_pub_def andthen_def split: option.split sum.split)
  have rm: "\<not> snd x" if "snd (pause_or_unsubscribe e cm) = Inr x" for x
    using that p by (auto simp: pause_or_unsubscribe_def with_handler_def andthen_def split: option.splits sum.splits if_splits)
  show ?case
  proof (cases "snd (pause_or_unsubscribe e cm)")
    case (Inr x)
    have "set es \<subseteq> set (pub_subscribes (fst (pause_or_unsubscribe e cm)))" using Cons.prems(2) k by (simp add: pub_kept_def)
    from Cons.IH [OF pub_kept_initiated [OF k Cons.prems(1)] this, of "b \<or> fst x"] show ?thesis
      using pub_kept_trans [OF k] rm [OF Inr] by (simp add: andthen_def Inr case_prod_unfold)
  qed (use k in \<open>simp add: andthen_def\<close>)
qed simp

lemma RemoveOrPause_keeps_pub: "keeps_pub cm (RemoveOrPausePublisherSubscribe fh cm)"
proof (cases "PM_HasSubscribers fh (cm_peer cm)")
  case False
  let ?es = "key_range fh (pub_subscribes cm)"
  have "pub_kept cm (fst (RemoveOrPausePublisherSubscribe fh cm))" if i: "initiated_only cm"
  proof (cases "pause_loop ?es False [] cm")
    case (Pair cm1 x)
    have k: "pub_kept cm cm1" and rm: "x = Inr y \<Longrightarrow> snd y = []" for y
      using pause_loop_kept [OF i set_key_range, of fh False "[]"] by (simp_all add: Pair)
    have "pub_kept cm1 (fst (on_peer (ClientUnsubscribe fh) cm1))"
      using keeps_pub_unsubscribe [of cm1 fh] pub_kept_initiated [OF k i] by (simp add: keeps_pub_def)
    moreover have "set_pub_subscribes (pub_subscribes cm1) cm1 = cm1" by (simp add: set_pub_subscribes_def pub_subscribes_def)
    ultimately show ?thesis using False k rm pub_kept_trans [OF k]
      by (cases x) (auto simp: RemoveOrPausePublisherSubscribe_def Pair andthen_def Let_def case_prod_unfold)
  qed
  then show ?thesis by (simp add: keeps_pub_def)
qed (simp add: RemoveOrPausePublisherSubscribe_def)

lemma keeps_pub_update:
  "keeps_pub cm (cm\<lparr>cm_subscribes_namespaces := m\<rparr>, x)" "keeps_pub cm (cm\<lparr>cm_subscribe_alias_req_id := a\<rparr>, x)"
  "keeps_pub cm (cm\<lparr>cm_subscribe_active := s, cm_subscribes := t\<rparr>, x)" "keeps_pub cm (drop_ranking h cm, x)" "keeps_pub cm (on_ranking k f cm)"
  by (auto simp: keeps_pub_def pub_kept_def pub_subscribes_def pub_namespace_active_def drop_ranking_def on_ranking_def split: option.split)

text \<open>A step that first writes a table.\<close>

lemma keeps_pub_after: "keeps_pub cm (cm_ok cm') \<Longrightarrow> keeps_pub cm' res \<Longrightarrow> keeps_pub cm res"
  using pub_kept_trans pub_kept_initiated by (fastforce simp: keeps_pub_def)

lemma RemoveSubscriber_initiated: "sth_publisher_initiated (fst (RemoveSubscriber conn st)) = sth_publisher_initiated (fst st)"
  by (simp add: RemoveSubscriber_def Pause_def Let_def case_prod_unfold split: option.split)

lemma UnsubscribeReceived_keeps_pub: "keeps_pub cm (UnsubscribeReceived api conn req cm)"
proof -
  have r: "keeps_pub cm (handler_do r (RemoveSubscriber conn) cm)" for r cm
    unfolding handler_do_def by (rule keeps_pub_on_handler) (simp add: RemoveSubscriber_initiated)
  have last: "keeps_pub cm (RemoveOrPausePublisherSubscribe fh (cm\<lparr>cm_subscribe_active := s, cm_subscribes := t\<rparr>))" for cm fh s t
    by (rule keeps_pub_after [OF keeps_pub_update(3) RemoveOrPause_keeps_pub])
  have body: "keeps_pub cm (andthen (foreach (\<lambda>(_, r). handler_do r (RemoveSubscriber conn)) es (cm\<lparr>cm_subscribe_alias_req_id := a\<rparr>)) (\<lambda>_ cm.
      RemoveOrPausePublisherSubscribe fh (cm\<lparr>cm_subscribe_active := s cm, cm_subscribes := t cm\<rparr>)))" for es a fh s t
    by (rule keeps_pub_after [OF keeps_pub_update(2)], rule keeps_pub_andthen [OF keeps_pub_foreach last]) (simp add: case_prod_unfold r)
  show ?thesis unfolding UnsubscribeReceived_def Let_def by (simp add: body split: option.split)
qed

lemma UnsubscribeNamespaceReceived_keeps_pub: "keeps_pub cm (UnsubscribeNamespaceReceived api conn prefix cm)"
proof -
  have w: "keeps_pub cm (withdraw_track api conn prefix n e cm)" for n e cm
    unfolding withdraw_track_def
    by (auto split: option.split intro!: keeps_pub_with_handler keeps_pub_andthen keeps_pub_on_handler keeps_pub_update RemoveOrPause_keeps_pub)
  have v: "keeps_pub cm (visit_entry (withdraw_track api conn prefix n) e cm)" for n e cm
    unfolding visit_entry_def by (simp add: keeps_pub_andthen [OF w])
  have tail: "keeps_pub cm (cm_ok (if b then drop_ranking h (cm\<lparr>cm_subscribes_namespaces := m\<rparr>) else cm\<lparr>cm_subscribes_namespaces := m'\<rparr>))" for cm b h m m'
    by (simp add: keeps_pub_after [OF keeps_pub_update(1) keeps_pub_update(4)] keeps_pub_update(1))
  have empty: "keeps_pub cm (cm_ok (if b then cm\<lparr>cm_subscribes_namespaces := m\<rparr> else cm))" for b m by (simp add: keeps_pub_update(1))
  have loop: "keeps_pub cm (andthen (foreach (visit_entry (withdraw_track api conn prefix n)) es cm) (\<lambda>_ cm.
      cm_ok (if b then drop_ranking h (cm\<lparr>cm_subscribes_namespaces := m cm\<rparr>) else cm\<lparr>cm_subscribes_namespaces := m' cm\<rparr>)))" for n es b h m m'
    by (rule keeps_pub_andthen [OF keeps_pub_foreach tail]) (rule v)
  show ?thesis unfolding UnsubscribeNamespaceReceived_def Let_def
    by (cases "map_of (cm_subscribes_namespaces cm) prefix") (simp_all only: option.simps keeps_pub_ok empty loop split: option.split, simp)
qed

section \<open>A connection that goes away\<close>

definition without :: "u64 \<Rightarrow> (u64, nref) omap option \<Rightarrow> (u64, nref) omap option" where
  "without conn v = (case v of None \<Rightarrow> None | Some conns \<Rightarrow> if mdel conn conns = [] then None else Some (mdel conn conns))"

lemma without_twice [simp]: "without conn (without conn v) = without conn v"
  by (auto simp: without_def mdel_def split: option.split)

lemma leave_all:
  assumes "client_inv api cm" and "published_only cm"
  shows "\<exists>cm'. foreach (UnsubscribeNamespaceReceived api conn) nss cm = cm_ok cm' \<and> client_inv api cm' \<and> published_only cm'
    \<and> subscriptions cm' = subscriptions cm
    \<and> (\<forall>p. map_of (cm_subscribes_namespaces cm') p =
         (if p \<in> set nss then without conn (map_of (cm_subscribes_namespaces cm) p) else map_of (cm_subscribes_namespaces cm) p))"
  using assms
proof (induction nss arbitrary: cm)
  case (Cons ns nss)
  have w: "cm_wf api cm" using Cons.prems(1) by (simp add: client_inv_def)
  obtain cm1 where u: "UnsubscribeNamespaceReceived api conn ns cm = cm_ok cm1" and p1: "published_only cm1" using leave_published [OF w Cons.prems(2)] by blast
  have i1: "client_inv api cm1" "subscriptions cm1 = subscriptions cm" using UnsubscribeNamespaceReceived_inv [OF Cons.prems(1), of conn ns] by (simp_all add: u)
  have t1: "map_of (cm_subscribes_namespaces cm1) p = (if p = ns then without conn (map_of (cm_subscribes_namespaces cm) p) else map_of (cm_subscribes_namespaces cm) p)" for p
    using UnsubscribeNamespaceReceived_usafe(4) [OF w, of conn ns p] by (simp add: u without_def split: option.split)
  obtain cm2 where "foreach (UnsubscribeNamespaceReceived api conn) nss cm1 = cm_ok cm2" "client_inv api cm2" "published_only cm2"
    "subscriptions cm2 = subscriptions cm1" "\<forall>p. map_of (cm_subscribes_namespaces cm2) p =
       (if p \<in> set nss then without conn (map_of (cm_subscribes_namespaces cm1) p) else map_of (cm_subscribes_namespaces cm1) p)"
    using Cons.IH [OF i1(1) p1] by blast
  then show ?case using u i1(2) t1 by auto
qed simp

lemma purged_keys: "fold mdel (filter (\<lambda>key. snd key = conn) (map fst m)) m = filter (\<lambda>e. \<not> snd (fst e) = conn) m"
  by (rule fold_mdel_filter) auto

lemma PurgePublishState_clean:
  "\<forall>key \<in> fst ` set (pub_subscribes (PurgePublishState conn cm)). snd key \<noteq> conn"
  "\<forall>key \<in> fst ` set (pub_namespace_active (PurgePublishState conn cm)). snd key \<noteq> conn"
  by (auto simp: PurgePublishState_def Let_def purged_keys)

text \<open>The publishers and announced namespaces of the other connections.\<close>

definition others_entries :: "u64 \<Rightarrow> (('a \<times> u64) \<times> 'b) list \<Rightarrow> (('a \<times> u64) \<times> 'b) list" where
  "others_entries conn m = filter (\<lambda>e. snd (fst e) \<noteq> conn) m"

lemma PurgePublishState_exact:
  "pub_subscribes (PurgePublishState conn cm) = others_entries conn (pub_subscribes cm)"
  "pub_namespace_active (PurgePublishState conn cm) = others_entries conn (pub_namespace_active cm)"
  "cm_pub_subscribes_by_req_id (PurgePublishState conn cm) = cm_pub_subscribes_by_req_id cm" "cm_requests (PurgePublishState conn cm) = cm_requests cm"
  by (simp_all add: PurgePublishState_def Let_def purged_keys others_entries_def set_pub_subscribes_def set_pub_namespace_active_def
      pub_subscribes_def pub_namespace_active_def)

lemma connection_closed_tables:
  assumes p: "published_only cm" and st: "status \<notin> {CS_Connected, CS_Connecting}"
    and c: "ConnectionStatusChanged api conn status cm = cm_ok cm'"
  shows "pub_subscribes cm' = others_entries conn (pub_subscribes cm) \<and> pub_namespace_active cm' = others_entries conn (pub_namespace_active cm)
    \<and> cm_pub_subscribes_by_req_id cm' = cm_pub_subscribes_by_req_id cm \<and> cm_requests cm' = cm_requests cm"
proof -
  let ?nss = "map fst (filter (\<lambda>(_, conns). map_of conns conn \<noteq> None) (cm_subscribes_namespaces cm))"
  obtain cm1 where 1: "foreach (UnsubscribeNamespaceReceived api conn) ?nss cm = cm_ok cm1"
    using c st unfolding ConnectionStatusChanged_def Let_def if_not_P [OF st]
    by (cases "foreach (UnsubscribeNamespaceReceived api conn) ?nss cm") (auto simp: andthen_def split: sum.splits)
  obtain cm2 where 2: "foreach (\<lambda>(c, rq). UnsubscribeReceived api c rq) (map fst (key_range conn (cm_subscribe_alias_req_id cm1))) cm1 = cm_ok cm2"
    and cm': "cm' = PurgePublishState conn cm2"
    using c st unfolding ConnectionStatusChanged_def Let_def if_not_P [OF st] 1
    by (cases "foreach (\<lambda>(c, rq). UnsubscribeReceived api c rq) (map fst (key_range conn (cm_subscribe_alias_req_id cm1))) cm1")
      (auto simp: andthen_def split: sum.splits)
  have i: "initiated_only cm" using p by (fastforce simp: published_only_def initiated_only_def)
  have "keeps_pub cm (foreach (UnsubscribeNamespaceReceived api conn) ?nss cm)" by (intro keeps_pub_foreach UnsubscribeNamespaceReceived_keeps_pub)
  then have k1: "pub_kept cm cm1" using i unfolding 1 keeps_pub_def by simp
  have "keeps_pub cm1 (foreach (\<lambda>(c, rq). UnsubscribeReceived api c rq) (map fst (key_range conn (cm_subscribe_alias_req_id cm1))) cm1)"
    by (intro keeps_pub_foreach) (simp add: case_prod_unfold UnsubscribeReceived_keeps_pub)
  then have "pub_kept cm1 cm2" using pub_kept_initiated [OF k1 i] unfolding 2 keeps_pub_def by simp
  then show ?thesis using k1 by (simp add: cm' PurgePublishState_exact pub_kept_def)
qed

lemma connection_closed:
  assumes inv: "client_inv api cm" and p: "published_only cm" and st: "status \<notin> {CS_Connected, CS_Connecting}"
  shows "\<exists>cm'. ConnectionStatusChanged api conn status cm = cm_ok cm' \<and> client_inv api cm'
    \<and> subscriptions cm' = {x \<in> subscriptions cm. fst x \<noteq> conn}
    \<and> (\<forall>prefix. map_of (cm_subscribes_namespaces cm') prefix = without conn (map_of (cm_subscribes_namespaces cm) prefix))
    \<and> (\<forall>key \<in> fst ` set (pub_subscribes cm'). snd key \<noteq> conn) \<and> (\<forall>key \<in> fst ` set (pub_namespace_active cm'). snd key \<noteq> conn)"
proof -
  let ?nss = "map fst (filter (\<lambda>(_, conns). map_of conns conn \<noteq> None) (cm_subscribes_namespaces cm))"
  obtain cm1 where n: "foreach (UnsubscribeNamespaceReceived api conn) ?nss cm = cm_ok cm1" and i1: "client_inv api cm1" and s1: "subscriptions cm1 = subscriptions cm"
    and t1: "\<forall>p. map_of (cm_subscribes_namespaces cm1) p =
       (if p \<in> set ?nss then without conn (map_of (cm_subscribes_namespaces cm) p) else map_of (cm_subscribes_namespaces cm) p)"
    using leave_all [OF inv p, of conn ?nss] by blast
  have w1: "cm_wf api cm1" "subs_wf api cm1" using i1 by (simp_all add: client_inv_def)
  let ?xs = "map fst (key_range conn (cm_subscribe_alias_req_id cm1))"
  obtain cm2 where l: "foreach (\<lambda>(c, rq). UnsubscribeReceived api c rq) ?xs cm1 = cm_ok cm2" and w2: "cm_wf api cm2" "subs_wf api cm2"
    and s2: "subscriptions cm2 = {x \<in> subscriptions cm1. (fst x, fst (snd x)) \<notin> set ?xs}" and t2: "cm_subscribes_namespaces cm2 = cm_subscribes_namespaces cm1"
    using unsubscribe_loop [OF w1, of ?xs] by blast
  let ?cm = "PurgePublishState conn cm2"
  have r: "ConnectionStatusChanged api conn status cm = cm_ok ?cm"
    using st l unfolding ConnectionStatusChanged_def by (simp only: n Let_def andthen_simps if_False)
  have tb: "sub_tables ?cm = sub_tables cm2" by (rule PurgePublishState_tables)
  have m: "msorted (cm_subscribe_alias_req_id cm1)" using w1(2) by (simp add: subs_wf_def)
  have x: "(fst x, fst (snd x)) \<in> set ?xs \<longleftrightarrow> fst x = conn" if sub: "x \<in> subscriptions cm1" for x
  proof -
    obtain c q tn where c: "x = (c, q, tn)" by (cases x)
    obtain a where "map_of (cm_subscribe_alias_req_id cm1) (c, q) = Some a" using sub subs_alias [OF w1(2)] unfolding c mem_subscriptions by blast
    then have "((c, q), a) \<in> set (cm_subscribe_alias_req_id cm1)" by (rule map_of_SomeD)
    then show ?thesis by (force simp: key_range_eq [OF m] c)
  qed
  have "subscriptions cm2 = {x \<in> subscriptions cm. fst x \<noteq> conn}" unfolding s2 s1 [symmetric] using x by blast
  moreover have "without conn (map_of (cm_subscribes_namespaces cm) prefix) = map_of (cm_subscribes_namespaces cm) prefix" if p: "prefix \<notin> set ?nss" for prefix
  proof (cases "map_of (cm_subscribes_namespaces cm) prefix")
    case (Some conns)
    then have "map_of conns conn = None" "conns \<noteq> []"
      using p map_of_SomeD [OF Some] inv namespace_entry(1) [OF _ Some, of api] by (force simp: client_inv_def cm_wf_def)+
    then show ?thesis by (simp add: without_def Some mdel_absent)
  qed (simp add: without_def)
  ultimately show ?thesis
    using r PurgePublishState_clean [of conn cm2] PurgePublishState_safe(1) [OF w2(1)] w2(2) t1 t2 tables_subs_wf [of ?cm cm2 api] tables_subscriptions [of ?cm cm2] tb
    by (intro exI [of _ ?cm]) (auto simp: client_inv_def sub_tables_def)
qed

end
