(* ===== verification/Client_Correct.thy ===== *)
theory Client_Correct
  imports Client_Traffic
begin

text \<open>
  What the client manager promises: its subscriber tables implement a set of subscriptions, whatever its
  clients, its peers and the handlers do it stays a well-formed manager whose operations have no undefined
  behaviour but one, a closed connection leaves nothing behind, and the last subscriber of a track pauses or
  withdraws the relay's own subscribe.
\<close>

section \<open>The subscriptions\<close>

text \<open>A component whose operations act on an abstract view of its state; sequences of admissible
  operations do too.\<close>

primrec admits :: "('c \<Rightarrow> 'v \<Rightarrow> bool) \<Rightarrow> ('c \<Rightarrow> 'v \<Rightarrow> 'v) \<Rightarrow> 'c list \<Rightarrow> 'v \<Rightarrow> bool" where
  "admits pre spec [] v = True"
| "admits pre spec (c # cs) v \<longleftrightarrow> pre c v \<and> admits pre spec cs (spec c v)"

locale table_contract =
  fixes inv :: "'s \<Rightarrow> bool" and view :: "'s \<Rightarrow> 'v" and run :: "'c \<Rightarrow> 's \<Rightarrow> 's"
    and pre :: "'c \<Rightarrow> 'v \<Rightarrow> bool" and spec :: "'c \<Rightarrow> 'v \<Rightarrow> 'v"
  assumes run_inv: "inv s \<Longrightarrow> pre c (view s) \<Longrightarrow> inv (run c s)"
    and run_view: "inv s \<Longrightarrow> pre c (view s) \<Longrightarrow> view (run c s) = spec c (view s)"
begin

lemma runs: "inv s \<Longrightarrow> admits pre spec cs (view s) \<Longrightarrow> inv (fold run cs s) \<and> view (fold run cs s) = fold spec cs (view s)"
proof (induction cs arbitrary: s)
  case (Cons c cs)
  then show ?case using Cons.IH [of "run c s"] run_inv run_view by simp
qed simp

end

text \<open>What clients ask for, and what it does to the set of subscriptions (connection, request, track): a
  second subscription of a connection to a track of the same hash is refused.\<close>

datatype sub_request =
    Rq_Subscribe u64 u64 u64 track_name SubscribeAttributes   \<comment> \<open>time, connection, request\<close>
  | Rq_Unsubscribe u64 u64

fun serve :: "cm_api \<Rightarrow> sub_request \<Rightarrow> ClientManager \<Rightarrow> ClientManager" where
  "serve api (Rq_Subscribe now conn req tn attrs) cm = fst (SubscribeReceived api now conn req tn attrs cm)"
| "serve api (Rq_Unsubscribe conn req) cm = fst (UnsubscribeReceived api conn req cm)"

definition has_alias :: "cm_api \<Rightarrow> u64 \<Rightarrow> track_name \<Rightarrow> (u64 \<times> u64 \<times> track_name) set \<Rightarrow> bool" where
  "has_alias api conn tn subs \<longleftrightarrow> (\<exists>x \<in> subs. fst x = conn \<and> th_fullname (track_hash api (snd (snd x))) = th_fullname (track_hash api tn))"

fun serve_spec :: "cm_api \<Rightarrow> sub_request \<Rightarrow> (u64 \<times> u64 \<times> track_name) set \<Rightarrow> (u64 \<times> u64 \<times> track_name) set" where
  "serve_spec api (Rq_Subscribe now conn req tn attrs) subs = (if has_alias api conn tn subs then subs else insert (conn, req, tn) subs)"
| "serve_spec api (Rq_Unsubscribe conn req) subs = {x \<in> subs. (fst x, fst (snd x)) \<noteq> (conn, req)}"

text \<open>Request identifiers of a connection are not used twice while in use; connection and request 0 stand for
  the peering manager.\<close>

fun admissible :: "sub_request \<Rightarrow> (u64 \<times> u64 \<times> track_name) set \<Rightarrow> bool" where
  "admissible (Rq_Subscribe now conn req tn attrs) subs \<longleftrightarrow> (conn, req) \<noteq> (0, 0) \<and> (\<forall>x \<in> subs. (fst x, fst (snd x)) \<noteq> (conn, req))"
| "admissible (Rq_Unsubscribe conn req) subs \<longleftrightarrow> True"

lemma has_alias_subscribes:
  assumes "subs_wf api cm"
  shows "has_alias api conn tn (subscriptions cm) \<longleftrightarrow> map_of (cm_subscribes cm) (th_fullname (track_hash api tn), conn) \<noteq> None"
proof
  note key = conjunct1 [OF assms [unfolded subs_wf_def], rule_format]
  assume "has_alias api conn tn (subscriptions cm)"
  then obtain q tn' where "(conn, q, tn') \<in> subscriptions cm" "th_fullname (track_hash api tn') = th_fullname (track_hash api tn)"
    by (auto simp: has_alias_def)
  then show "map_of (cm_subscribes cm) (th_fullname (track_hash api tn), conn) \<noteq> None"
    unfolding mem_subscriptions using key by fastforce
next
  assume "map_of (cm_subscribes cm) (th_fullname (track_hash api tn), conn) \<noteq> None"
  then obtain i where i: "map_of (cm_subscribes cm) (th_fullname (track_hash api tn), conn) = Some i" by blast
  then have "(conn, sp_request_id i, sp_track_full_name i) \<in> subscriptions cm" unfolding mem_subscriptions by blast
  moreover have "th_fullname (track_hash api (sp_track_full_name i)) = th_fullname (track_hash api tn)" using i by (rule conjunct1 [OF assms [unfolded subs_wf_def], rule_format])
  ultimately show "has_alias api conn tn (subscriptions cm)" unfolding has_alias_def by (metis fst_conv snd_conv)
qed

lemma unused_request:
  assumes "subs_wf api cm"
  shows "(\<forall>x \<in> subscriptions cm. (fst x, fst (snd x)) \<noteq> (conn, req)) \<longleftrightarrow> map_of (cm_subscribe_alias_req_id cm) (conn, req) = None"
proof -
  have "(\<exists>x \<in> subscriptions cm. (fst x, fst (snd x)) = (conn, req)) \<longleftrightarrow> (\<exists>tn. (conn, req, tn) \<in> subscriptions cm)" by force
  also have "\<dots> \<longleftrightarrow> (\<exists>a. map_of (cm_subscribe_alias_req_id cm) (conn, req) = Some a)"
    unfolding mem_subscriptions subs_alias [OF assms] by blast
  finally show ?thesis by (cases "map_of (cm_subscribe_alias_req_id cm) (conn, req)") simp_all
qed

interpretation served: table_contract "client_inv api" subscriptions "serve api" admissible "serve_spec api" for api
proof
  fix cm c
  assume inv: "client_inv api cm" and pre: "admissible c (subscriptions cm)"
  then have w: "cm_wf api cm" "subs_wf api cm" by (simp_all add: client_inv_def)
  have "client_inv api (serve api c cm) \<and> subscriptions (serve api c cm) = serve_spec api c (subscriptions cm)"
  proof (cases c)
    case (Rq_Subscribe now conn req tn attrs)
    have a: "map_of (cm_subscribe_alias_req_id cm) (conn, req) = None" "(conn, req) \<noteq> (0, 0)"
      using pre unused_request [OF w(2), of conn req] by (simp_all add: Rq_Subscribe)
    show ?thesis unfolding Rq_Subscribe serve.simps serve_spec.simps has_alias_subscribes [OF w(2)] using SubscribeReceived_spec [OF inv a] by simp
  next
    case (Rq_Unsubscribe conn req)
    obtain cm' where "UnsubscribeReceived api conn req cm = cm_ok cm'" "cm_wf api cm'" "subs_wf api cm'"
      "subscriptions cm' = {x \<in> subscriptions cm. (fst x, fst (snd x)) \<noteq> (conn, req)}"
      using UnsubscribeReceived_spec [OF w] by blast
    then show ?thesis unfolding Rq_Unsubscribe serve.simps serve_spec.simps client_inv_def by simp
  qed
  then show "client_inv api (serve api c cm)" "subscriptions (serve api c cm) = serve_spec api c (subscriptions cm)" by simp_all
qed

section \<open>Sample managers\<close>

definition sample_attributes :: SubscribeAttributes where
  "sample_attributes = \<lparr>sa_priority = 4, sa_group_order = None, sa_delivery_timeout = 0, sa_start_location = (0, 0),
     sa_new_group_request_id = None, sa_is_publisher_initiated = False\<rparr>"

definition sample_cm_api :: cm_api where
  "sample_cm_api = \<lparr>c_sub = sample_sub_api, c_quicr = sample_quicr, c_is_prefix_of = (\<lambda>a b. take (length a) b = a),
     c_new_handler = (\<lambda>tn b. sample_handler\<lparr>sth_full_track_name := tn, sth_publisher_initiated := b, sth_subscribers := [], sth_streams := []\<rparr>),
     c_subscribe_track = (\<lambda>conn h. h\<lparr>sth_connection_id := conn\<rparr>), c_resolve_publish = (\<lambda>conn req h. h\<lparr>sth_connection_id := conn\<rparr>),
     c_request_id = (\<lambda>log. Some (word_of_nat (length log))), c_cache_last = (\<lambda>_ _. None), c_default_attributes = sample_attributes,
     c_group_order_param = kOtherParameter 0x22, c_publish_namespace = (\<lambda>_ p. p), c_set_new_group = (\<lambda>g h. h\<lparr>sth_pending_new_group_request_id := Some g\<rparr>),
     c_new_group_update = None, c_sub_dampen_ms = 0, c_allow_self = False, c_detached_subs = False\<rparr>"

text \<open>Connection 9 publishes the track of \<open>sample_handler\<close>, which has no subscribers.\<close>

definition sample_clients :: "bool \<Rightarrow> ClientManager" where
  "sample_clients initiated = \<lparr>cm_requests = [], cm_pub_subscribes_by_req_id = [], cm_subscribes_namespaces = [], cm_subscribes = [],
     cm_subscribe_alias_req_id = [], cm_subscribe_active = [], cm_track_rankings = [],
     cm_handlers = [(0, sample_handler\<lparr>sth_publisher_initiated := initiated, sth_subscribers := []\<rparr>)],
     cm_next_handler = 1, cm_next_ns = 0, cm_next_ranking = 0, cm_env = sample_sub_env,
     cm_peer = sample_manager\<lparr>pm_state := \<lparr>st_pub_namespace_active = [], st_pub_subscribes = [((0x201, 9), 0)]\<rparr>\<rparr>, cm_log = []\<rparr>"

lemma sample_alias: "th_fullname (track_hash sample_cm_api ([[1]], [2])) = 0x201"
  by (simp add: track_hash_def sample_cm_api_def sample_quicr_def plain_hash_def)

lemma sample_clients_subs: "subs_wf api (sample_clients b)" "subscriptions (sample_clients b) = {}"
  by (simp_all add: subs_wf_def sample_clients_def subscriptions_def mat_def)

lemma sample_clients_wf: "cm_wf api (sample_clients b)"
proof -
  have "pm_wf (cm_peer (sample_clients b))" using sample_manager_wf by (simp add: sample_clients_def pm_wf_def live_of_def [abs_def] all_sessions_def)
  then show ?thesis by (simp add: cm_wf_def sample_clients_def pub_subscribes_def has_handler_def rankings_wf_def namespaces_wf_def msorted_Cons)
qed

lemma sample_clients_inv: "client_inv api (sample_clients b)"
  by (simp add: client_inv_def sample_clients_wf sample_clients_subs)

lemma sample_throws: "msg_throws_std (q_msg (c_quicr sample_cm_api))"
  using plain_msg_throws by (simp add: sample_cm_api_def)

section \<open>Theorems\<close>

text \<open>The outcome of an operation: it returns, or it throws a \<open>std::exception\<close>.\<close>

definition at_most_throws :: "'a cm_res \<Rightarrow> bool" where
  "at_most_throws r = (case snd r of Inr _ \<Rightarrow> True | Inl e \<Rightarrow> is_exception e)"

lemma at_most_throws: "csafe api cm r \<Longrightarrow> at_most_throws r" "tsafe api cm r \<Longrightarrow> at_most_throws r"
  by (auto simp: at_most_throws_def csafe_def tsafe_def split: sum.split)

lemma usafe_outcome: "usafe api cm r \<Longrightarrow> at_most_throws r \<or> snd r = Inl Bad_Iterator"
  by (auto simp: at_most_throws_def usafe_def split: sum.split)

text \<open>C1. Client traffic is safe.  Take a manager whose tables are well formed: every entry of
  \<open>pub_subscribes\<close>, of \<open>pub_subscribes_by_req_id\<close> and of \<open>subscribes_namespaces\<close> has its handler or ranking, the three
  subscriber tables describe the same subscriptions, and the peering manager is well formed.  Whatever
  sequence of requests, withdrawals, connection changes, received streams and datagrams, handler status changes, peer data and
  peer control messages it handles (request identifiers in use are not reused and no two namespace prefixes in use have the same hash),
  it is well formed again, and every request to the manager then returns or throws a
  \<open>std::exception\<close>: no handler, iterator or optional is dereferenced that is not there.  The two operations
  that withdraw namespace subscriptions may besides step an invalid iterator; a client's unsubscribe always
  returns.\<close>

theorem client_traffic_safe:
  assumes "client_reach api cm0 cm" and m: "msg_throws_std (q_msg (c_quicr api))" and "client_inv api cm0"
  shows "client_inv api cm
    \<and> at_most_throws (SubscribeReceived api now conn req tn attrs cm)
    \<and> snd (UnsubscribeReceived api conn req cm) = Inr ()
    \<and> snd (RemoveOrPausePublisherSubscribe fh cm) = Inr ()
    \<and> at_most_throws (TrackStatusReceived api conn req tn cm)
    \<and> at_most_throws (PublishNamespaceReceived api now ref conn ns req cm)
    \<and> at_most_throws (PublishNamespaceDoneReceived api now ref conn req cm)
    \<and> at_most_throws (PublishReceived api now ticks ref conn req pattrs cm)
    \<and> at_most_throws (PublishDoneReceived api now ref conn req cm)
    \<and> at_most_throws (NewGroupRequested api now tn g cm)
    \<and> (collides api ns cm \<or> at_most_throws (SubscribeNamespaceReceived api ticks conn ctx ns req filt cm))
    \<and> (let r = UnsubscribeNamespaceReceived api conn ns cm in at_most_throws r \<or> snd r = Inl Bad_Iterator)
    \<and> (let r = ConnectionStatusChanged api conn status cm in at_most_throws r \<or> snd r = Inl Bad_Iterator)"
proof -
  have inv: "client_inv api cm" using client_reach_inv [OF assms] .
  then have w: "cm_wf api cm" by (simp add: client_inv_def)
  have "collides api ns cm \<or> at_most_throws (SubscribeNamespaceReceived api ticks conn ctx ns req filt cm)"
    using at_most_throws(2) [OF SubscribeNamespaceReceived_tsafe [OF w]] by blast
  moreover note inv at_most_throws(2) [OF SubscribeReceived_tsafe [OF w, of now conn req tn attrs]] UnsubscribeReceived_returns [OF w, of conn req]
    RemoveOrPause_returns [OF w, of fh] at_most_throws(1) [OF TrackStatusReceived_csafe [OF w, of conn req tn]]
    at_most_throws(1) [OF PublishNamespaceReceived_csafe [OF w m, of now ref conn ns req]]
    at_most_throws(1) [OF PublishNamespaceDoneReceived_csafe [OF w m, of now ref conn req]]
    at_most_throws(1) [OF PublishReceived_csafe [OF w m, of now ticks ref conn req pattrs]]
    at_most_throws(2) [OF PublishDoneReceived_tsafe [OF w m, of now ref conn req]]
    at_most_throws(1) [OF NewGroupRequested_csafe [OF w m, of now tn g]]
    usafe_outcome [OF UnsubscribeNamespaceReceived_usafe(1) [OF w, of conn ns]] usafe_outcome [OF ConnectionStatusChanged_usafe [OF w, of conn status]]
  ultimately show ?thesis unfolding Let_def by blast
qed

theorem client_traffic_safe_witness:
  "\<exists>cm. client_reach sample_cm_api (sample_clients True) cm \<and> client_inv sample_cm_api cm
     \<and> cm = fst (SubscribeReceived sample_cm_api 0 5 7 ([[1]], [2]) sample_attributes (sample_clients True))
     \<and> snd (UnsubscribeReceived sample_cm_api 5 7 cm) = Inr ()"
proof -
  let ?cm = "fst (SubscribeReceived sample_cm_api 0 5 7 ([[1]], [2]) sample_attributes (sample_clients True))"
  have "client_step sample_cm_api (sample_clients True) ?cm" by (rule cs_subscribe) (simp_all add: sample_clients_def)
  then have "client_reach sample_cm_api (sample_clients True) ?cm" by (rule cr_step [OF cr_refl])
  then show ?thesis using client_traffic_safe [OF _ sample_throws sample_clients_inv, of True ?cm] by blast
qed

text \<open>C4. The subscriber tables implement a set of subscriptions.  Whatever sequence of subscribes and
  unsubscribes the clients send (with request identifiers that are not in use), the set of (connection, request, track)
  that the tables describe afterwards is the one the abstract table has: a subscribe adds its entry unless the
  connection already has a subscription to the track, and an unsubscribe removes the entry of its request
  and no other.\<close>

theorem subscriptions_refine:
  assumes "client_inv api cm" and "admits admissible (serve_spec api) rs (subscriptions cm)"
  shows "client_inv api (fold (serve api) rs cm) \<and> subscriptions (fold (serve api) rs cm) = fold (serve_spec api) rs (subscriptions cm)"
  using served.runs [OF assms] .

theorem subscriptions_refine_witness:
  defines "rs \<equiv> [Rq_Subscribe 0 5 7 ([[1]], [2]) sample_attributes, Rq_Subscribe 0 6 7 ([[1]], [2]) sample_attributes,
      Rq_Subscribe 1 5 8 ([[1]], [2]) sample_attributes, Rq_Unsubscribe 6 7, Rq_Unsubscribe 6 9]"
  shows "subscriptions (fold (serve sample_cm_api) rs (sample_clients True)) = {(5, 7, ([[1]], [2]))}"
proof -
  have "admits admissible (serve_spec sample_cm_api) rs (subscriptions (sample_clients True))"
    by (simp add: rs_def sample_clients_subs has_alias_def)
  moreover have "fold (serve_spec sample_cm_api) rs {} = {(5, 7, ([[1]], [2]))}" by (auto simp: rs_def has_alias_def)
  ultimately show ?thesis using subscriptions_refine [OF sample_clients_inv] unfolding sample_clients_subs(2) by blast
qed

text \<open>C11. A closed connection is taken out and no other is disturbed.  When a client connection goes away and every track
  known to the relay was published to it by a client, the manager drops every subscription of the connection and
  no other, takes the connection out of every namespace subscription (a prefix without subscribers goes, the other prefixes
  and connections stay), and drops the publishers and announced namespaces of the connection and no others; the call
  returns and the tables stay well formed.  Two tables are not cleaned: \<open>pub_subscribes_by_req_id\<close> and \<open>requests\<close> keep what
  they have, the entries of the closed connection included.\<close>

theorem connection_closed_clean:
  assumes "client_inv api cm" and "published_only cm" and "status \<notin> {CS_Connected, CS_Connecting}"
  shows "\<exists>cm'. ConnectionStatusChanged api conn status cm = cm_ok cm' \<and> client_inv api cm'
    \<and> subscriptions cm' = {x \<in> subscriptions cm. fst x \<noteq> conn}
    \<and> (\<forall>prefix. map_of (cm_subscribes_namespaces cm') prefix = without conn (map_of (cm_subscribes_namespaces cm) prefix))
    \<and> pub_subscribes cm' = filter (\<lambda>((_, c), _). c \<noteq> conn) (pub_subscribes cm)
    \<and> pub_namespace_active cm' = filter (\<lambda>((_, c), _). c \<noteq> conn) (pub_namespace_active cm)
    \<and> cm_pub_subscribes_by_req_id cm' = cm_pub_subscribes_by_req_id cm \<and> cm_requests cm' = cm_requests cm"
proof -
  have o: "others_entries conn m = filter (\<lambda>((_, c), _). c \<noteq> conn) m" for m :: "(('a \<times> u64) \<times> 'b) list"
    by (simp add: others_entries_def case_prod_unfold)
  obtain cm' where c: "ConnectionStatusChanged api conn status cm = cm_ok cm'" "client_inv api cm'"
    "subscriptions cm' = {x \<in> subscriptions cm. fst x \<noteq> conn}"
    "\<forall>prefix. map_of (cm_subscribes_namespaces cm') prefix = without conn (map_of (cm_subscribes_namespaces cm) prefix)"
    using connection_closed [OF assms, of conn] by blast
  with connection_closed_tables [OF assms(2,3) c(1)] show ?thesis unfolding o by blast
qed

text \<open>Clients 5 and 6 subscribe to a track.\<close>

definition sample_subscribed :: ClientManager where
  "sample_subscribed = (let tn = ([[3]], [2]); th = track_hash sample_cm_api tn
     in record_subscribe 6 7 th tn sample_attributes (record_subscribe 5 7 th tn sample_attributes (sample_clients True)))"

lemma sample_subscribed: "client_inv sample_cm_api sample_subscribed" "subscriptions sample_subscribed = {(5, 7, ([[3]], [2])), (6, 7, ([[3]], [2]))}"
  "published_only sample_subscribed"
proof -
  let ?tn = "([[3]], [2]) :: track_name" and ?api = sample_cm_api
  let ?th = "track_hash ?api ?tn"
  let ?one = "record_subscribe 5 7 ?th ?tn sample_attributes (sample_clients True)"
  have one: "subs_wf ?api ?one" "subscriptions ?one = {(5, 7, ?tn)}"
    using record_subscribe_subs [OF sample_clients_subs(1) refl, of True ?api ?tn 5 7 sample_attributes] by (simp_all add: sample_clients_subs(2), simp_all add: sample_clients_def)
  have n: "map_of (cm_subscribes ?one) (th_fullname ?th, 6) = None" "map_of (cm_subscribe_alias_req_id ?one) (6, 7) = None"
    by (simp_all add: record_subscribe_def Let_def fst_mtry sample_clients_def)
  have two: "sample_subscribed = record_subscribe 6 7 ?th ?tn sample_attributes ?one" by (simp add: sample_subscribed_def Let_def)
  have "cm_wf ?api sample_subscribed"
    using recorded_wf(1) [OF recorded_wf(1) [OF sample_clients_wf], of ?api 6 7 ?th ?tn sample_attributes 5 7 ?th ?tn sample_attributes True]
    by (simp add: two recorded_def)
  then show "client_inv ?api sample_subscribed" "subscriptions sample_subscribed = {(5, 7, ?tn), (6, 7, ?tn)}"
    using record_subscribe_subs [OF one(1) refl n, of sample_attributes] one(2) by (auto simp: client_inv_def two)
  show "published_only sample_subscribed"
    by (simp add: published_only_def two record_subscribe_def Let_def sample_clients_def pub_subscribes_def)
qed

theorem connection_closed_clean_witness:
  "\<exists>cm'. ConnectionStatusChanged sample_cm_api 5 CS_IdleTimeout sample_subscribed = cm_ok cm' \<and> subscriptions cm' = {(6, 7, ([[3]], [2]))}
     \<and> pub_subscribes cm' = [((0x201, 9), 0)]"
proof -
  obtain cm' where "ConnectionStatusChanged sample_cm_api 5 CS_IdleTimeout sample_subscribed = cm_ok cm'"
    "subscriptions cm' = {x \<in> subscriptions sample_subscribed. fst x \<noteq> 5}"
    "pub_subscribes cm' = filter (\<lambda>((_, c), _). c \<noteq> 5) (pub_subscribes sample_subscribed)"
    using connection_closed_clean [OF sample_subscribed(1,3), of CS_IdleTimeout 5] by blast
  moreover have "{x \<in> subscriptions sample_subscribed. fst x \<noteq> 5} = {(6, 7, ([[3]], [2]))}" unfolding sample_subscribed(2) by auto
  moreover have "filter (\<lambda>((_, c), _). c \<noteq> 5) (pub_subscribes sample_subscribed) = [((0x201, 9), 0)]"
    by (simp add: sample_subscribed_def record_subscribe_def Let_def pub_subscribes_def sample_clients_def)
  ultimately show ?thesis by metis
qed

text \<open>C12. The last subscriber leaves.  When no peer subscribes to a track, removing or pausing its publishers
  drops exactly the publishers whose handlers are without subscribers and were not started by the
  publisher, unsubscribing from each; it pauses exactly those without subscribers that were, leaves every other publisher alone,
  and withdraws the relay's subscribe from its peers if and only if no publisher of the track has a subscriber left.\<close>

theorem last_subscriber_leaves:
  assumes "cm_wf api cm" and "\<not> PM_HasSubscribers fh (cm_peer cm)"
  shows "\<exists>cm'. RemoveOrPausePublisherSubscribe fh cm = cm_ok cm'
    \<and> pub_subscribes cm' = filter (\<lambda>e. \<not> (fst (fst e) = fh \<and> dropped cm (snd e))) (pub_subscribes cm)
    \<and> map_of (cm_handlers cm') = map_of (cm_handlers cm)
    \<and> cm_log cm' = cm_log cm @ map (\<lambda>e. Cv_Unsubscribe_Track (snd (fst e)) (snd e))
        (filter (\<lambda>e. fst (fst e) = fh \<and> dropped cm (snd e)) (pub_subscribes cm))
    \<and> se_log (cm_env cm') = se_log (cm_env cm) @ map (\<lambda>e. Sv_Pause (sth_self (the_handler cm (snd e))))
        (filter (\<lambda>e. fst (fst e) = fh \<and> paused_now cm (snd e)) (pub_subscribes cm))
    \<and> pm_log (cm_peer cm') = (if \<exists>e \<in> set (pub_subscribes cm). fst (fst e) = fh \<and> STH_HasSubscribers (the_handler cm (snd e)) then pm_log (cm_peer cm)
         else pm_log (fst (ClientUnsubscribe fh (cm_peer cm))))"
proof -
  have "msorted (pub_subscribes cm)" using assms(1) by (simp add: cm_wf_def)
  then have r: "key_range fh (pub_subscribes cm) = filter (\<lambda>e. fst (fst e) = fh) (pub_subscribes cm)" by (rule key_range_eq)
  have s: "(\<exists>e \<in> set (filter (\<lambda>e. fst (fst e) = fh) (pub_subscribes cm)). P e) \<longleftrightarrow> (\<exists>e \<in> set (pub_subscribes cm). fst (fst e) = fh \<and> P e)" for P by (simp only: set_filter mem_Collect_eq) blast
  show ?thesis using RemoveOrPause_spec [OF assms] unfolding r s filter_filter by (simp add: conj_commute)
qed

theorem last_subscriber_leaves_witness:
  "\<exists>cm' cm''. RemoveOrPausePublisherSubscribe 0x201 (sample_clients True) = cm_ok cm' \<and> pub_subscribes cm' = [((0x201, 9), 0)] \<and> se_log (cm_env cm') = [Sv_Pause 0]
     \<and> RemoveOrPausePublisherSubscribe 0x201 (sample_clients False) = cm_ok cm'' \<and> pub_subscribes cm'' = [] \<and> cm_log cm'' = [Cv_Unsubscribe_Track 9 0]"
proof -
  have no: "\<not> PM_HasSubscribers 0x201 (cm_peer (sample_clients b))" for b
    by (simp add: PM_HasSubscribers_def sample_clients_def sample_manager_def InfoBase_init_def key_range_def)
  have e: "dropped (sample_clients b) 0 \<longleftrightarrow> \<not> b" "paused_now (sample_clients b) 0 \<longleftrightarrow> b" "pub_subscribes (sample_clients b) = [((0x201, 9), 0)]"
    "cm_log (sample_clients b) = []" "se_log (cm_env (sample_clients b)) = []" "sth_self (the_handler (sample_clients b) 0) = 0" for b
    by (simp_all add: dropped_def paused_now_def the_handler_def sample_clients_def STH_HasSubscribers_def sample_handler_def pub_subscribes_def sample_sub_env_def)
  show ?thesis
    using last_subscriber_leaves [OF sample_clients_wf no, of True] last_subscriber_leaves [OF sample_clients_wf no, of False] unfolding e
    by (simp add: e) blast
qed

lemma visit_untouched:
  assumes "\<forall>e \<in> set es. withdraw_track api conn prefix n e cm = cm_ok cm"
  shows "foreach (visit_entry (withdraw_track api conn prefix n)) es cm = cm_ok cm"
  using assms by (induction es) (auto simp: visit_entry_def)

text \<open>C31. The loop that withdraws a namespace subscription erases the entry it stands on.  When the
  subscription of the leaving connection is the only one of a track that the relay itself subscribed to (the
  handler is not publisher initiated, no peer and no other client subscribes), the body of the loop over
  \<open>pub_subscribes\<close> removes the entry of the track through \<open>RemoveOrPausePublisherSubscribe\<close> and
  the loop then steps the erased iterator.\<close>

theorem unsubscribe_namespace_erases_under_iterator:
  assumes wf: "cm_wf api cm" and nss: "map_of (cm_subscribes_namespaces cm) prefix = Some conns" "map_of conns conn = Some n"
    and es: "pub_subscribes cm = pre @ ((fh, pub), r) # post"
    and skip: "\<forall>e \<in> set pre. snd (fst e) = conn"
    and h: "map_of (cm_handlers cm) r = Some h" "\<not> sth_publisher_initiated h"
    and p: "m_same_prefix (q_msg (c_quicr api)) prefix (fst (sth_full_track_name h))"
    and self: "\<not> c_allow_self api" "pub \<noteq> conn"
    and last: "\<not> STH_HasSubscribers (fst (fst (RemoveSubscribeNamespace (c_sub api) n (h, cm_env cm))))" "\<not> PM_HasSubscribers fh (cm_peer cm)"
  shows "snd (UnsubscribeNamespaceReceived api conn prefix cm) = Inl Bad_Iterator"
proof -
  let ?e = "((fh, pub), r)" and ?w = "withdraw_track api conn prefix n"
  obtain q where q: "map_of (se_ns (cm_env cm)) n = Some q"
    using namespace_entry(3) [OF _ nss(1), of api] wf map_of_SomeD [OF nss(2)] by (fastforce simp: cm_wf_def has_ns_def)
  obtain cm1 where w: "?w ?e cm = RemoveOrPausePublisherSubscribe fh cm1" "cm_wf api cm1" "cm_peer cm1 = cm_peer cm"
    and m: "\<forall>s. map_of (cm_handlers cm1) s = (if s = r then Some (fst (fst (RemoveSubscribeNamespace (c_sub api) n (h, cm_env cm)))) else map_of (cm_handlers cm) s)"
    using withdraw_track_matching [OF wf, of ?e h n q prefix conn] h(1) q nss(1) self(2) p by auto
  have d: "dropped cm1 r" using last(1) h(2) by (simp add: dropped_def the_handler_def m)
  obtain cm2 where rp: "RemoveOrPausePublisherSubscribe fh cm1 = cm_ok cm2"
    "pub_subscribes cm2 = filter (\<lambda>e. \<not> (fst (fst e) = fh \<and> dropped cm1 (snd e))) (pub_subscribes cm1)"
    using RemoveOrPause_spec [OF w(2), of fh] last(2) w(3) by auto
  have s: "msorted (pub_subscribes cm)" using wf by (simp add: cm_wf_def)
  have ps: "pub_subscribes cm1 = pub_subscribes cm" using w(3) by (simp add: pub_subscribes_def)
  have "map_of (pub_subscribes cm) (fh, pub) = Some r" unfolding msorted_map_of [OF s, symmetric] using es by simp
  moreover have "map_of (pub_subscribes cm2) (fh, pub) = None"
  proof (rule ccontr)
    assume "map_of (pub_subscribes cm2) (fh, pub) \<noteq> None"
    then obtain r' where "((fh, pub), r') \<in> set (pub_subscribes cm2)" using map_of_SomeD by fast
    then have "((fh, pub), r') \<in> set (pub_subscribes cm)" "\<not> dropped cm1 r'" by (simp_all add: rp(2) ps)
    then show False using msorted_map_of [OF s] es d calculation by (metis option.inject)
  qed
  ultimately have v: "visit_entry ?w ?e cm = (cm2, Inl Bad_Iterator)" by (simp add: visit_entry_def w(1) rp(1))
  have "foreach (visit_entry ?w) pre cm = cm_ok cm" by (rule visit_untouched) (use skip self(1) in \<open>auto simp: withdraw_track_def\<close>)
  then have "foreach (visit_entry ?w) (pub_subscribes cm) cm = (cm2, Inl Bad_Iterator)" by (simp add: es foreach_append v)
  then show ?thesis by (simp add: UnsubscribeNamespaceReceived_def nss)
qed

text \<open>Client 5 subscribes to the namespace of the track, which the relay subscribed to itself.\<close>

definition sample_followed :: ClientManager where
  "sample_followed = (sample_clients False)\<lparr>cm_subscribes_namespaces := [([[1]], [(5, 0)])], cm_track_rankings := [(1, 0)], cm_next_ns := 1, cm_next_ranking := 1,
     cm_handlers := [(0, sample_handler\<lparr>sth_publisher_initiated := False, sth_subscribers := [], sth_sub_namespaces := [(1, [(5, 0)])]\<rparr>)],
     cm_env := sample_sub_env\<lparr>se_ns := [(0, PNS_make [[1]] 5)], se_rankings := [(0, TrackRanking_init)]\<rparr>\<rparr>"

lemma sample_namespace_hash: "namespace_hash sample_cm_api [[1]] = 1"
  by (simp add: namespace_hash_def track_hash_def sample_cm_api_def sample_quicr_def plain_hash_def)

lemma sample_followed_wf: "cm_wf sample_cm_api sample_followed"
  using sample_clients_wf [of sample_cm_api False] sample_namespace_hash
  by (simp add: cm_wf_def sample_followed_def sample_clients_def pub_subscribes_def has_handler_def rankings_wf_def namespaces_wf_def has_ns_def msorted_Cons)

theorem unsubscribe_namespace_erases_under_iterator_witness:
  "snd (UnsubscribeNamespaceReceived sample_cm_api 5 [[1]] sample_followed) = Inl Bad_Iterator"
proof (rule unsubscribe_namespace_erases_under_iterator [OF sample_followed_wf])
  show "map_of (cm_subscribes_namespaces sample_followed) [[1]] = Some [(5, 0)]" "map_of [(5, 0)] 5 = Some 0" by (simp_all add: sample_followed_def)
  show "pub_subscribes sample_followed = [] @ ((0x201, 9), 0) # []" by (simp add: sample_followed_def sample_clients_def pub_subscribes_def)
  show "map_of (cm_handlers sample_followed) 0 = Some (sample_handler\<lparr>sth_publisher_initiated := False, sth_subscribers := [], sth_sub_namespaces := [(1, [(5, 0)])]\<rparr>)"
    by (simp add: sample_followed_def)
  show "\<not> PM_HasSubscribers 0x201 (cm_peer sample_followed)"
    by (simp add: PM_HasSubscribers_def sample_followed_def sample_clients_def sample_manager_def InfoBase_init_def key_range_def)
  show "m_same_prefix (q_msg (c_quicr sample_cm_api)) [[1]] (fst (sth_full_track_name (sample_handler\<lparr>sth_publisher_initiated := False, sth_subscribers := [], sth_sub_namespaces := [(1, [(5, 0)])]\<rparr>)))"
    by (simp add: sample_cm_api_def sample_quicr_def plain_msg_def sample_handler_def)
  show "\<not> STH_HasSubscribers (fst (fst (RemoveSubscribeNamespace (c_sub sample_cm_api) 0
      (sample_handler\<lparr>sth_publisher_initiated := False, sth_subscribers := [], sth_sub_namespaces := [(1, [(5, 0)])]\<rparr>, cm_env sample_followed))))"
    by (simp add: RemoveSubscribeNamespace_def sample_followed_def ns_hash_def sample_cm_api_def sample_sub_api_def plain_hash_def STH_HasSubscribers_def PNS_make_def mdel_def)
qed (simp_all add: sample_cm_api_def)

end
