(* ===== verification/Client_Fetch.thy ===== *)
theory Client_Fetch
  imports Client_Correct
begin

text \<open>
  Fetches: \<open>FetchReceived\<close>, \<open>StandaloneFetchReceived\<close>, \<open>JoiningFetchReceived\<close> and \<open>FetchCancelReceived\<close> of
  \<open>src/src/client_manager.cc\<close>, and \<open>src/src/fetch_handler.cc\<close>.

  A fetch is answered by a detached thread, from the cache or by a fetch of the relay to the publisher of the
  track.  \<open>FetchReceived\<close> returns what the thread captures, a \<open>fetch_task\<close>; \<open>fetch_thread\<close> runs it.  The thread shares
  the table \<open>stop_fetch_\<close> with the manager, so that one object at a time is sent (\<open>send_object\<close>) and
  other requests may come in between (\<open>fetch_step\<close>).  The cache is libquicr's: its content is a
  parameter, a function of what was put in it; the sets of objects are read as they were when the
  fetch was handled.  The status of the handler of a fetch to the publisher is changed by libquicr's threads:
  it is a parameter too, a function of how often it has been read.
\<close>

section \<open>State\<close>

type_synonym cache_object = "ObjectHeaders \<times> bytes"
type_synonym fetch_end = "u64 \<times> u64 option"

datatype fetch_rc = Fr_Ok | Fr_No_Objects | Fr_Invalid_Range | Fr_Internal_Error

datatype fetch_status = FS_Ok | FS_Not_Connected | FS_Error | FS_Not_Authorized | FS_Not_Subscribed
  | FS_Pending_Response | FS_Done_By_Fin | FS_Done_By_Reset | FS_Other nat

datatype fetch_event =
    Fv_Bind u64 u64
  | Fv_Unbind u64 u64
  | Fv_Resolve u64 u64 fetch_rc "loc option"
  | Fv_Publish_Object u64 u64 cache_object
  | Fv_Fetch_Track u64 track_name loc fetch_end
  | Fv_Cancel_Fetch_Track u64

record fetch_env =
  fe_stop :: "(u64 \<times> u64, bool) omap"
  fe_log :: "fetch_event list"

record fetch_task =
  ft_conn :: u64
  ft_req :: u64
  ft_track :: track_name
  ft_start :: loc
  ft_end :: fetch_end
  ft_rc :: fetch_rc
  ft_entries :: "cache_object list list"
  ft_largest :: "loc option"

record fetch_api =
  fa_cm :: cm_api
  fa_cache_get :: "sub_event list \<Rightarrow> u64 \<Rightarrow> u64 \<Rightarrow> u64 \<Rightarrow> cache_object list list option"
    \<comment> \<open>the groups of a track from one to another, \<open>None\<close> when nothing of the track was put in the cache\<close>

record fetch_source =
  fs_status :: "nat \<Rightarrow> fetch_status"
  fs_latest :: "nat \<Rightarrow> loc option"

definition fe_emit :: "fetch_event \<Rightarrow> fetch_env \<Rightarrow> fetch_env" where
  "fe_emit ev env = env\<lparr>fe_log := fe_log env @ [ev]\<rparr>"

section \<open>Requests\<close>

definition fetch_reason :: "loc option \<Rightarrow> loc \<Rightarrow> fetch_end \<Rightarrow> cache_object list list \<Rightarrow> fetch_rc" where
  "fetch_reason largest start end entries = (case largest of
      None \<Rightarrow> Fr_No_Objects
    | Some l \<Rightarrow> if fst start > fst end \<or> fst l < fst start then Fr_Invalid_Range
                else if entries = [] then Fr_No_Objects else Fr_Ok)"

definition FetchReceived :: "fetch_api \<Rightarrow> u64 \<Rightarrow> u64 \<Rightarrow> track_name \<Rightarrow> loc \<Rightarrow> fetch_end \<Rightarrow> ClientManager \<Rightarrow> fetch_env \<Rightarrow> fetch_env \<times> fetch_task" where
  "FetchReceived api conn req tn start end cm env =
     (let largest = GetLargestAvailable (fa_cm api) tn cm;
          entries = (case fa_cache_get api (se_log (cm_env cm)) (th_fullname (track_hash (fa_cm api) tn)) (fst start) (fst end) of
                       None \<Rightarrow> [] | Some es \<Rightarrow> es);
          env = fe_emit (Fv_Bind conn req) env
      in (env\<lparr>fe_stop := fst (mtry (conn, req) False (fe_stop env))\<rparr>,
          \<lparr>ft_conn = conn, ft_req = req, ft_track = tn, ft_start = start, ft_end = end, ft_rc = fetch_reason largest start end entries,
           ft_entries = entries, ft_largest = largest\<rparr>))"

record JoiningFetchAttributes =
  jf_relative :: bool
  jf_joining_start :: u64

definition joining_start :: "JoiningFetchAttributes \<Rightarrow> u64 \<Rightarrow> u64" where
  "joining_start attrs g =
     (if jf_relative attrs then if g > jf_joining_start attrs then g - jf_joining_start attrs else 0
      else jf_joining_start attrs)"

definition StandaloneFetchReceived :: "fetch_api \<Rightarrow> u64 \<Rightarrow> u64 \<Rightarrow> track_name \<Rightarrow> loc \<times> fetch_end \<Rightarrow> ClientManager \<Rightarrow> fetch_env \<Rightarrow> fetch_env \<times> fetch_task" where
  "StandaloneFetchReceived api conn req tn attrs cm env = FetchReceived api conn req tn (fst attrs) (snd attrs) cm env"

definition JoiningFetchReceived :: "fetch_api \<Rightarrow> u64 \<Rightarrow> u64 \<Rightarrow> track_name \<Rightarrow> JoiningFetchAttributes \<Rightarrow> ClientManager \<Rightarrow> fetch_env \<Rightarrow> fetch_env \<times> fetch_task option" where
  "JoiningFetchReceived api conn req tn attrs cm env =
     (case GetLargestAvailable (fa_cm api) tn cm of
        None \<Rightarrow> (fe_emit (Fv_Resolve conn req Fr_Invalid_Range None) env, None)
      | Some l \<Rightarrow> map_prod id Some (FetchReceived api conn req tn (joining_start attrs (fst l), 0) (fst l, None) cm env))"

definition FetchCancelReceived :: "u64 \<Rightarrow> u64 \<Rightarrow> fetch_env \<Rightarrow> fetch_env" where
  "FetchCancelReceived conn req env =
     (if map_of (fe_stop env) (conn, req) = None then env\<lparr>fe_stop := mput (conn, req) True (fe_stop env)\<rparr> else env)"

section \<open>The thread: from the cache\<close>

definition before_start :: "loc \<Rightarrow> cache_object \<Rightarrow> bool" where
  "before_start start ob \<longleftrightarrow> fst start = oh_group_id (fst ob) \<and> snd start > oh_object_id (fst ob)"

definition after_end :: "fetch_end \<Rightarrow> cache_object \<Rightarrow> bool" where
  "after_end end ob = (case snd end of None \<Rightarrow> False | Some o' \<Rightarrow> oh_group_id (fst ob) = fst end \<and> oh_object_id (fst ob) > o')"

text \<open>One object of the cache, and whether the thread goes on.  The stop flag is read with \<open>operator[]\<close>.\<close>

definition send_object :: "fetch_task \<Rightarrow> cache_object \<Rightarrow> fetch_env \<Rightarrow> fetch_env \<times> bool" where
  "send_object task ob env =
     (let key = (ft_conn task, ft_req task); env = env\<lparr>fe_stop := fst (mtry key False (fe_stop env))\<rparr> in
      if mat False (fe_stop env) key then (env\<lparr>fe_stop := mdel key (fe_stop env)\<rparr>, False)
      else if before_start (ft_start task) ob then (env, True)
      else if after_end (ft_end task) ob then (env, False)
      else (fe_emit (Fv_Publish_Object (ft_conn task) (ft_req task) ob) env, True))"

fun send_loop :: "fetch_task \<Rightarrow> cache_object list \<Rightarrow> fetch_env \<Rightarrow> fetch_env" where
  "send_loop task [] env = env"
| "send_loop task (ob # obs) env = (case send_object task ob env of (env, go_on) \<Rightarrow> if go_on then send_loop task obs env else env)"

section \<open>The thread: from the publisher\<close>

definition kFetchUpstreamMaxWaitMs :: nat where "kFetchUpstreamMaxWaitMs = 2000"

definition first_publisher :: "u64 \<Rightarrow> (u64 \<times> u64, shref) omap \<Rightarrow> fetch_rc \<Rightarrow> u64 \<times> fetch_rc" where
  "first_publisher fh ps rc = (case dropWhile (\<lambda>p. fst p < (fh, 0)) ps of
      [] \<Rightarrow> (0, rc)
    | (key, _) # _ \<Rightarrow> if fst key \<noteq> fh then (0, Fr_No_Objects) else (snd key, rc))"

text \<open>Waiting for the answer: how often the status was read, and how long the thread slept, in ms.\<close>

function await_response :: "(nat \<Rightarrow> fetch_status) \<Rightarrow> nat \<Rightarrow> nat \<Rightarrow> nat \<times> nat" where
  "await_response status n t =
     (if t < kFetchUpstreamMaxWaitMs
      then if status n \<noteq> FS_Pending_Response
           then if status (n + 1) \<noteq> FS_Not_Subscribed then (n + 2, t) else await_response status (n + 2) (t + 5)
           else await_response status (n + 1) (t + 5)
      else (n, t))"
  by pat_completeness auto
termination by (relation "measure (\<lambda>(status, n, t). kFetchUpstreamMaxWaitMs - t)") auto

declare await_response.simps [simp del]

fun upstream_rc :: "fetch_status \<Rightarrow> fetch_rc" where
  "upstream_rc FS_Done_By_Fin = Fr_Ok"
| "upstream_rc FS_Ok = Fr_Ok"
| "upstream_rc FS_Error = Fr_No_Objects"
| "upstream_rc _ = Fr_Internal_Error"

text \<open>\<open>while (status is kOk) sleep\<close>: nothing bounds it.\<close>

partial_function (option) drain :: "(nat \<Rightarrow> fetch_status) \<Rightarrow> nat \<Rightarrow> nat option" where
  "drain status n = (if status n = FS_Ok then drain status (Suc n) else Some n)"

definition fetch_upstream :: "fetch_api \<Rightarrow> fetch_task \<Rightarrow> fetch_source \<Rightarrow> (u64 \<times> u64, shref) omap \<Rightarrow> fetch_env \<Rightarrow> fetch_env option" where
  "fetch_upstream api task src ps env =
     (let (pub, rc) = first_publisher (th_fullname (track_hash (fa_cm api) (ft_track task))) ps (ft_rc task);
          (env, n, rc) = (if pub \<noteq> 0
             then let env = fe_emit (Fv_Fetch_Track pub (ft_track task) (ft_start task) (ft_end task)) env;
                      n = fst (await_response (fs_status src) 0 0)
                  in (env, n + 1, upstream_rc (fs_status src n))
             else (env, 0, rc));
          env = fe_emit (Fv_Resolve (ft_conn task) (ft_req task) rc (fs_latest src n)) env
      in case drain (fs_status src) n of
           None \<Rightarrow> None
         | Some _ \<Rightarrow> Some (fe_emit (Fv_Unbind (ft_conn task) (ft_req task)) (fe_emit (Fv_Cancel_Fetch_Track pub) env)))"

definition fetch_thread :: "fetch_api \<Rightarrow> fetch_task \<Rightarrow> fetch_source \<Rightarrow> (u64 \<times> u64, shref) omap \<Rightarrow> fetch_env \<Rightarrow> fetch_env option" where
  "fetch_thread api task src ps env =
     (if ft_rc task \<noteq> Fr_Ok then fetch_upstream api task src ps env
      else Some (fe_emit (Fv_Unbind (ft_conn task) (ft_req task))
             (send_loop task (concat (ft_entries task)) (fe_emit (Fv_Resolve (ft_conn task) (ft_req task) Fr_Ok (ft_largest task)) env))))"

section \<open>The handler of a fetch to the publisher\<close>

record FetchTrackHandler =
  fh_request_id :: "u64 option"         \<comment> \<open>of the \<open>PublishFetchHandler\<close> the data is passed to\<close>
  fh_streams :: "(u64, bytes) omap"     \<comment> \<open>what the stream buffers hold\<close>
  fh_forwarded :: "(bool \<times> bytes) list" \<comment> \<open>calls of its \<open>ForwardPublishedData\<close>: new stream, data\<close>

record fetch_header_api =
  fx_read :: "bytes \<Rightarrow> u64 \<times> bytes \<times> bool"    \<comment> \<open>request id, what is left, is the header complete\<close>
  fx_write :: "u64 \<Rightarrow> bytes"

definition FH_StreamDataRecv :: "fetch_header_api \<Rightarrow> bool \<Rightarrow> u64 \<Rightarrow> bytes \<Rightarrow> FetchTrackHandler \<Rightarrow> FetchTrackHandler \<times> unit res" where
  "FH_StreamDataRecv api is_start stream_id data h =
     (let h = h\<lparr>fh_streams := fst (mtry stream_id [] (fh_streams h))\<rparr> in
      if is_start then
        (let (_, rest, complete) = fx_read api data in
         if \<not> complete then (h\<lparr>fh_streams := mput stream_id rest (fh_streams h)\<rparr>, Inr ())
         else let header_size = length data - length rest in
           case fh_request_id h of
             None \<Rightarrow> (h\<lparr>fh_streams := mput stream_id rest (fh_streams h)\<rparr>, Inl Null_Deref)
           | Some req \<Rightarrow>
               (h\<lparr>fh_streams := mput stream_id [] (fh_streams h),
                  fh_forwarded := fh_forwarded h @ [(True, fx_write api req @ (if header_size < length data then drop header_size data else []))]\<rparr>, Inr ()))
      else (h\<lparr>fh_forwarded := fh_forwarded h @ [(False, data)]\<rparr>, Inr ()))"

section \<open>What is sent\<close>

definition in_range :: "loc \<Rightarrow> fetch_end \<Rightarrow> cache_object \<Rightarrow> bool" where
  "in_range start end ob \<longleftrightarrow>
     (oh_group_id (fst ob), oh_object_id (fst ob)) \<ge> start \<and>
     (case snd end of None \<Rightarrow> oh_group_id (fst ob) \<le> fst end | Some o' \<Rightarrow> (oh_group_id (fst ob), oh_object_id (fst ob)) \<le> (fst end, o'))"

text \<open>What \<open>Cache::Get\<close> returns: groups of the range, in order, each a set ordered by object.\<close>

definition cache_ok :: "u64 \<Rightarrow> u64 \<Rightarrow> cache_object list list \<Rightarrow> bool" where
  "cache_ok from to entries \<longleftrightarrow>
     sorted_wrt (\<lambda>a b. (oh_group_id (fst a), oh_object_id (fst a)) < (oh_group_id (fst b), oh_object_id (fst b))) (concat entries)
     \<and> (\<forall>ob \<in> set (concat entries). from \<le> oh_group_id (fst ob) \<and> oh_group_id (fst ob) \<le> to)"

fun range_cut :: "loc \<Rightarrow> fetch_end \<Rightarrow> cache_object list \<Rightarrow> cache_object list" where
  "range_cut start end [] = []"
| "range_cut start end (ob # obs) =
     (if before_start start ob then range_cut start end obs else if after_end end ob then [] else ob # range_cut start end obs)"

lemma range_cut_exact:
  assumes "sorted_wrt (\<lambda>a b. (oh_group_id (fst a), oh_object_id (fst a)) < (oh_group_id (fst b), oh_object_id (fst b))) obs"
    and "\<forall>ob \<in> set obs. fst start \<le> oh_group_id (fst ob) \<and> oh_group_id (fst ob) \<le> fst end"
  shows "range_cut start end obs = filter (in_range start end) obs"
  using assms
proof (induction obs)
  case (Cons ob obs)
  have IH: "range_cut start end obs = filter (in_range start end) obs" using Cons by simp
  have g: "fst start \<le> oh_group_id (fst ob)" "oh_group_id (fst ob) \<le> fst end" using Cons.prems(2) by simp_all
  have b: "before_start start ob \<longleftrightarrow> \<not> start \<le> (oh_group_id (fst ob), oh_object_id (fst ob))"
    using g(1) by (cases start) (auto simp: before_start_def)
  have a: "after_end end ob \<longleftrightarrow> (\<exists>o'. snd end = Some o' \<and> \<not> (oh_group_id (fst ob), oh_object_id (fst ob)) \<le> (fst end, o'))"
    using g(2) by (auto simp: after_end_def split: option.split)
  have "filter (in_range start end) obs = []" if ae: "after_end end ob"
  proof -
    obtain o' where o: "snd end = Some o'" "(fst end, o') < (oh_group_id (fst ob), oh_object_id (fst ob))" using ae unfolding a not_le by blast
    have "\<not> in_range start end x" if "x \<in> set obs" for x
    proof -
      have "(oh_group_id (fst ob), oh_object_id (fst ob)) < (oh_group_id (fst x), oh_object_id (fst x))" using Cons.prems(1) that by simp
      then have "(fst end, o') < (oh_group_id (fst x), oh_object_id (fst x))" using o(2) by order
      then show ?thesis using o(1) by (auto simp: in_range_def)
    qed
    then show ?thesis by (simp add: filter_empty_conv)
  qed
  moreover have "in_range start end ob \<longleftrightarrow> \<not> before_start start ob \<and> \<not> after_end end ob"
    unfolding in_range_def a b using g(2) by (auto split: option.split)
  ultimately show ?case using IH by simp
qed simp

definition sent :: "u64 \<Rightarrow> u64 \<Rightarrow> fetch_env \<Rightarrow> cache_object list" where
  "sent conn req env = List.map_filter (\<lambda>ev. case ev of Fv_Publish_Object c r ob \<Rightarrow> if (c, r) = (conn, req) then Some ob else None | _ \<Rightarrow> None) (fe_log env)"

lemma sent_emit [simp]: "sent c r (fe_emit ev env) = sent c r env @ (case ev of Fv_Publish_Object c' r' ob \<Rightarrow> if (c', r') = (c, r) then [ob] else [] | _ \<Rightarrow> [])"
  by (simp add: sent_def fe_emit_def map_filter_def split: fetch_event.split)

lemma sent_stop [simp]: "sent c r (env\<lparr>fe_stop := m\<rparr>) = sent c r env"
  by (simp add: sent_def)

abbreviation running :: "fetch_task \<Rightarrow> fetch_env \<Rightarrow> bool" where
  "running task env \<equiv> map_of (fe_stop env) (ft_conn task, ft_req task) = Some False"

lemma send_object_running:
  assumes "running task env"
  shows "send_object task ob env = (if before_start (ft_start task) ob then (env, True) else if after_end (ft_end task) ob then (env, False)
      else (fe_emit (Fv_Publish_Object (ft_conn task) (ft_req task) ob) env, True))"
  using assms by (simp add: send_object_def mat_def fst_mtry Let_def)

lemma fe_stop_emit [simp]: "fe_stop (fe_emit ev env) = fe_stop env"
  by (simp add: fe_emit_def)

lemma fe_emit_log: "fe_emit ev env = env\<lparr>fe_log := fe_log env @ [ev]\<rparr>"
  by (simp add: fe_emit_def)

lemma send_loop_running:
  "running task env \<Longrightarrow> send_loop task obs env =
     env\<lparr>fe_log := fe_log env @ map (Fv_Publish_Object (ft_conn task) (ft_req task)) (range_cut (ft_start task) (ft_end task) obs)\<rparr>"
  by (induction obs arbitrary: env) (simp_all add: send_object_running fe_emit_log)

text \<open>What a fetch from the cache sends.\<close>

lemma fetch_range:
  assumes last: "GetLargestAvailable (fa_cm api) tn cm = Some largest" and range: "fst start \<le> fst end" "fst start \<le> fst largest"
    and entries: "fa_cache_get api (se_log (cm_env cm)) (th_fullname (track_hash (fa_cm api) tn)) (fst start) (fst end) = Some entries"
      "entries \<noteq> []" "cache_ok (fst start) (fst end) entries"
    and new: "map_of (fe_stop env) (conn, req) \<noteq> Some True"
    and f: "FetchReceived api conn req tn start end cm env = (env1, task)"
  shows "\<exists>env'. fetch_thread api task src ps env1 = Some env'
    \<and> fe_log env' = fe_log env @ [Fv_Bind conn req, Fv_Resolve conn req Fr_Ok (Some largest)]
        @ map (Fv_Publish_Object conn req) (filter (in_range start end) (concat entries)) @ [Fv_Unbind conn req]"
proof -
  have task: "task = \<lparr>ft_conn = conn, ft_req = req, ft_track = tn, ft_start = start, ft_end = end, ft_rc = Fr_Ok, ft_entries = entries, ft_largest = Some largest\<rparr>"
    and env1: "env1 = (fe_emit (Fv_Bind conn req) env)\<lparr>fe_stop := fst (mtry (conn, req) False (fe_stop env))\<rparr>"
    using f range entries(1,2) by (auto simp: FetchReceived_def Let_def last fetch_reason_def not_less)
  have "running task (fe_emit ev env1)" for ev using new by (cases "map_of (fe_stop env) (conn, req)") (auto simp: task env1 map_of_mtry)
  moreover have "range_cut start end (concat entries) = filter (in_range start end) (concat entries)"
    by (rule range_cut_exact) (use entries(3) in \<open>auto simp: cache_ok_def\<close>)
  ultimately show ?thesis
    by (simp add: fetch_thread_def task send_loop_running) (simp add: env1 fe_emit_log)
qed

text \<open>C23. A fetch from the cache sends exactly the range asked for.  When the cache holds a largest object
  that is not before the start, the range is not empty and the cache has groups of it, the fetch is accepted with the largest location, then
  every cached object from the start location to the end location (to the last object of the end group when no
  end object is given) is sent once and in order, nothing else, and the fetch ends.  An end object of zero, for which the
  comment in the source and the test disagree, is left out here (\<open>zero_end_object_stops\<close>).\<close>

theorem fetch_range_exact:
  assumes last: "GetLargestAvailable (fa_cm api) tn cm = Some largest" and range: "fst start \<le> fst end" "fst start \<le> fst largest"
    and entries: "fa_cache_get api (se_log (cm_env cm)) (th_fullname (track_hash (fa_cm api) tn)) (fst start) (fst end) = Some entries"
      "entries \<noteq> []" "cache_ok (fst start) (fst end) entries"
    and new: "map_of (fe_stop env) (conn, req) \<noteq> Some True" and nonzero: "snd end \<noteq> Some 0"
    and f: "FetchReceived api conn req tn start end cm env = (env1, task)"
  shows "\<exists>env'. fetch_thread api task src ps env1 = Some env'
    \<and> fe_log env' = fe_log env @ [Fv_Bind conn req, Fv_Resolve conn req Fr_Ok (Some largest)]
        @ map (Fv_Publish_Object conn req) (filter (in_range start end) (concat entries)) @ [Fv_Unbind conn req]"
  by (rule fetch_range [OF last range entries new f])

section \<open>Cancelling\<close>

text \<open>The thread of a fetch sends the next object, or in between a cancel arrives, another fetch starts, or the
  thread of another fetch sends.\<close>

inductive fetch_step :: "fetch_api \<Rightarrow> fetch_task \<Rightarrow> cache_object list \<times> fetch_env \<Rightarrow> cache_object list \<times> fetch_env \<Rightarrow> bool" for api task where
  fi_send: "send_object task ob env = (env', go_on) \<Longrightarrow> fetch_step api task (ob # obs, env) (if go_on then obs else [], env')"
| fi_cancel: "fetch_step api task (obs, env) (obs, FetchCancelReceived conn req env)"
| fi_fetch: "fetch_step api task (obs, env) (obs, fst (FetchReceived api conn req tn start end cm env))"
| fi_other: "(ft_conn other, ft_req other) \<noteq> (ft_conn task, ft_req task) \<Longrightarrow> fetch_step api task (obs, env) (obs, fst (send_object other ob env))"

inductive_cases fetch_stepE: "fetch_step api task s s'"

abbreviation fetch_reach :: "fetch_api \<Rightarrow> fetch_task \<Rightarrow> cache_object list \<times> fetch_env \<Rightarrow> cache_object list \<times> fetch_env \<Rightarrow> bool" where
  "fetch_reach api task \<equiv> (fetch_step api task)\<^sup>*\<^sup>*"

lemma other_key: "(c', r') \<noteq> (c, r) \<Longrightarrow> sent c r (fe_emit (Fv_Publish_Object c' r' ob) env) = sent c r env"
  by auto

lemma send_object_other:
  assumes "(ft_conn other, ft_req other) \<noteq> (c, r)"
  shows "map_of (fe_stop (fst (send_object other ob env))) (c, r) = map_of (fe_stop env) (c, r)" "sent c r (fst (send_object other ob env)) = sent c r env"
  using assms by (auto simp: send_object_def Let_def map_of_mtry)

lemma FetchReceived_running:
  "running task env \<Longrightarrow> running task (fst (FetchReceived api conn req tn start end cm env))"
  "sent c r (fst (FetchReceived api conn req tn start end cm env)) = sent c r env"
  by (auto simp: FetchReceived_def Let_def map_of_mtry)

lemma fetch_step_keeps:
  assumes "fetch_step api task s s'" and "running task (snd s)"
  shows "running task (snd s') \<and> sent (ft_conn task) (ft_req task) (snd s') @ range_cut (ft_start task) (ft_end task) (fst s')
    = sent (ft_conn task) (ft_req task) (snd s) @ range_cut (ft_start task) (ft_end task) (fst s)"
  using assms(1)
proof cases
  case (fi_send ob env)
  then show ?thesis using assms(2) send_object_running [of env task ob] by (auto split: if_splits)
next
  case fi_cancel
  then show ?thesis using assms(2) by (auto simp: FetchCancelReceived_def)
next
  case fi_fetch
  then show ?thesis using assms(2) FetchReceived_running by simp
next
  case fi_other
  then show ?thesis using assms(2) send_object_other [OF fi_other(3)] by simp
qed

lemma fetch_reach_keeps:
  assumes "fetch_reach api task s s'" and "running task (snd s)"
  shows "running task (snd s') \<and> sent (ft_conn task) (ft_req task) (snd s') @ range_cut (ft_start task) (ft_end task) (fst s')
    = sent (ft_conn task) (ft_req task) (snd s) @ range_cut (ft_start task) (ft_end task) (fst s)"
  using assms(1)
proof (induction rule: rtranclp_induct)
  case (step y z)
  then show ?case using fetch_step_keeps [OF step(2)] by metis
qed (use assms(2) in simp)

text \<open>C25. A cancel does not stop a fetch.  \<open>FetchReceived\<close> enters the fetch in \<open>stop_fetch_\<close> with the
  flag not set, and \<open>FetchCancelReceived\<close> sets a flag only for a fetch that has no entry.  However cancels, other
  fetches and other threads interleave with the thread of the fetch: what was sent when the thread has no
  object left is the whole range that was asked for, as without any cancel, and the entry is still there.  A
  cancel that was received before its fetch, by contrast, stops the fetch at its first object.\<close>

theorem fetch_cancel_ignored:
  assumes f: "FetchReceived api conn req tn start end cm env = (env1, task)" and c: "cache_ok (fst start) (fst end) (ft_entries task)"
  shows "if map_of (fe_stop env) (conn, req) = Some True
    then sent conn req (send_loop task (concat (ft_entries task)) env1) = sent conn req env
    else \<forall>env'. fetch_reach api task (concat (ft_entries task), env1) ([], env') \<longrightarrow>
      sent conn req env' = sent conn req env @ filter (in_range start end) (concat (ft_entries task)) \<and> map_of (fe_stop env') (conn, req) = Some False"
proof -
  have task: "ft_conn task = conn" "ft_req task = req" "ft_start task = start" "ft_end task = end"
    and env1: "env1 = (fe_emit (Fv_Bind conn req) env)\<lparr>fe_stop := fst (mtry (conn, req) False (fe_stop env))\<rparr>"
    using f by (auto simp: FetchReceived_def Let_def)
  have sel: "range_cut start end (concat (ft_entries task)) = filter (in_range start end) (concat (ft_entries task))"
    by (rule range_cut_exact) (use c in \<open>auto simp: cache_ok_def\<close>)
  show ?thesis
  proof (cases "map_of (fe_stop env) (conn, req) = Some True")
    case True
    then have "map_of (fe_stop env1) (conn, req) = Some True" by (simp add: env1 fst_mtry)
    then have "sent conn req (send_loop task obs env1) = sent conn req env" for obs by (cases obs) (auto simp: send_object_def task Let_def mat_def fst_mtry env1)
    then show ?thesis using True by simp
  next
    case False
    then have "running task env1" by (cases "map_of (fe_stop env) (conn, req)") (auto simp: task env1 map_of_mtry)
    then show ?thesis using False fetch_reach_keeps [of api task "(concat (ft_entries task), env1)" "([], _)"] sel by (simp add: task env1)
  qed
qed

lemma fetch_finishes: "\<exists>env'. fetch_reach api task (obs, env) ([], env')"
proof (induction "length obs" arbitrary: obs env rule: less_induct)
  case less
  show ?case
  proof (cases obs)
    case (Cons ob obs')
    obtain env' go_on where s: "send_object task ob env = (env', go_on)" by fastforce
    let ?rest = "if go_on then obs' else []"
    have "fetch_step api task (obs, env) (?rest, env')" unfolding Cons by (rule fi_send [OF s])
    moreover obtain env'' where "fetch_reach api task (?rest, env') ([], env'')" using less [of ?rest env'] by (cases go_on) (auto simp: Cons)
    ultimately show ?thesis by (meson converse_rtranclp_into_rtranclp)
  qed auto
qed

section \<open>How long the thread runs\<close>

lemma drain_iff: "(\<exists>k. drain status n = Some k) \<longleftrightarrow> (\<exists>m \<ge> n. status m \<noteq> FS_Ok)"
proof
  have "\<exists>m \<ge> n. status m \<noteq> FS_Ok" if "drain status n = Some k" for k
    by (rule drain.raw_induct [OF _ that, of "\<lambda>status n k. \<exists>m \<ge> n. status m \<noteq> FS_Ok"]) (metis Suc_leD order_refl)
  then show "\<exists>k. drain status n = Some k \<Longrightarrow> \<exists>m \<ge> n. status m \<noteq> FS_Ok" by blast
next
  assume "\<exists>m \<ge> n. status m \<noteq> FS_Ok"
  then obtain m where "n \<le> m" "status m \<noteq> FS_Ok" by blast
  then show "\<exists>k. drain status n = Some k"
  proof (induction rule: inc_induct)
    case base
    then show ?case by (subst drain.simps) simp
  next
    case (step n)
    then show ?case by (subst drain.simps) simp
  qed
qed

lemma await_response_bounds:
  "5 dvd t \<Longrightarrow> t \<le> kFetchUpstreamMaxWaitMs \<Longrightarrow> await_response status n t = (n', t') \<Longrightarrow>
     t' \<le> kFetchUpstreamMaxWaitMs \<and> 5 * n' \<le> 5 * n + 2 * (kFetchUpstreamMaxWaitMs - t)"
proof (induction status n t rule: await_response.induct)
  case (1 status n t)
  obtain k where k: "t = 5 * k" using 1(3) by blast
  have s: "t < kFetchUpstreamMaxWaitMs \<Longrightarrow> t + 5 \<le> kFetchUpstreamMaxWaitMs" by (simp add: k kFetchUpstreamMaxWaitMs_def)
  show ?case
  proof (cases "t < kFetchUpstreamMaxWaitMs \<and> (status n = FS_Pending_Response \<or> status (n + 1) = FS_Not_Subscribed)")
    case True
    then show ?thesis using 1 s by (auto simp: await_response.simps [of status n t] split: if_splits)
  next
    case False
    then show ?thesis using 1(4,5) s by (auto simp: await_response.simps [of status n t] split: if_splits)
  qed
qed

text \<open>The read of the status at which the thread starts to wait for the end of the fetch.\<close>

definition drain_from :: "fetch_api \<Rightarrow> fetch_task \<Rightarrow> fetch_source \<Rightarrow> (u64 \<times> u64, shref) omap \<Rightarrow> nat" where
  "drain_from api task src ps =
     (if fst (first_publisher (th_fullname (track_hash (fa_cm api) (ft_track task))) ps (ft_rc task)) \<noteq> 0
      then fst (await_response (fs_status src) 0 0) + 1 else 0)"

lemma fetch_upstream_iff: "(\<exists>env'. fetch_upstream api task src ps env = Some env') \<longleftrightarrow> (\<exists>k. drain (fs_status src) (drain_from api task src ps) = Some k)"
  by (auto simp: fetch_upstream_def drain_from_def Let_def split: prod.split option.split)

text \<open>C24. The thread of a fetch ends, and when it does not.  It waits at most two seconds (and reads the status
  at most 800 times) for the answer of the publisher.  A fetch from the cache always ends; one
  that is passed on ends if and only if the status of the handler is at some later time other
  than ok: a publisher that accepts the fetch and never ends its stream keeps the thread forever.\<close>

theorem fetch_thread_terminates:
  "snd (await_response (fs_status src) 0 0) \<le> kFetchUpstreamMaxWaitMs \<and> fst (await_response (fs_status src) 0 0) \<le> 800
   \<and> ((\<exists>env'. fetch_thread api task src ps env = Some env') \<longleftrightarrow>
       ft_rc task = Fr_Ok \<or> (\<exists>m \<ge> drain_from api task src ps. fs_status src m \<noteq> FS_Ok))"
proof -
  obtain n t where a: "await_response (fs_status src) 0 0 = (n, t)" by fastforce
  have "t \<le> kFetchUpstreamMaxWaitMs \<and> 5 * n \<le> 2 * kFetchUpstreamMaxWaitMs" using await_response_bounds [OF _ _ a] by simp
  then show ?thesis by (simp add: a fetch_thread_def fetch_upstream_iff drain_iff, simp add: kFetchUpstreamMaxWaitMs_def)
qed

section \<open>Joining and relaying\<close>

text \<open>The range of a joining fetch.  It ends with the largest group in the cache and starts at the
  first object of a group: the given one, or, for a relative fetch, the given number of groups before the largest, and 0 when there
  are not that many (the unsigned subtraction never wraps).  The range is refused exactly when an
  absolute start lies behind the largest group.\<close>

theorem joining_fetch_range:
  assumes l: "GetLargestAvailable (fa_cm api) tn cm = Some l"
    and j: "JoiningFetchReceived api conn req tn attrs cm env = (env', Some task)"
  shows "ft_end task = (fst l, None) \<and> snd (ft_start task) = 0
    \<and> unat (fst (ft_start task)) = (if jf_relative attrs then unat (fst l) - unat (jf_joining_start attrs) else unat (jf_joining_start attrs))
    \<and> (ft_rc task = Fr_Invalid_Range \<longleftrightarrow> \<not> jf_relative attrs \<and> fst l < jf_joining_start attrs)"
proof -
  let ?s = "joining_start attrs (fst l)"
  have t: "ft_end task = (fst l, None)" "ft_start task = (?s, 0)" and rc: "ft_rc task = fetch_reason (Some l) (?s, 0) (fst l, None) (ft_entries task)"
    using j by (auto simp: JoiningFetchReceived_def l FetchReceived_def Let_def)
  have "unat ?s = (if jf_relative attrs then unat (fst l) - unat (jf_joining_start attrs) else unat (jf_joining_start attrs))"
    by (auto simp: joining_start_def unat_sub word_le_nat_alt word_less_nat_alt)
  moreover have "jf_relative attrs \<Longrightarrow> \<not> fst l < ?s" by (auto simp: joining_start_def word_less_nat_alt unat_sub word_le_nat_alt)
  then have "fst l < ?s \<longleftrightarrow> \<not> jf_relative attrs \<and> fst l < jf_joining_start attrs" by (auto simp: joining_start_def)
  ultimately show ?thesis using t rc by (auto simp: fetch_reason_def)
qed

text \<open>C30. A fetch that is passed on to the publisher is relayed unchanged but for the request: the fetch header
  that starts the publisher's stream is replaced by one with the request of the client, and every byte behind it is forwarded in order,
  in the chunks it arrived in.\<close>

theorem fetch_stream_relayed:
  assumes codec: "\<forall>r rest. fx_read api (fx_write api r @ rest) = (r, rest, True)" and rid: "fh_request_id h = Some req"
  shows "\<exists>h'. foreach (\<lambda>(is_start, data). FH_StreamDataRecv api is_start stream data) ((True, fx_write api upstream_req @ first) # map (Pair False) chunks) h = (h', Inr ())
    \<and> fh_forwarded h' = fh_forwarded h @ (True, fx_write api req @ first) # map (Pair False) chunks"
proof -
  have later: "\<exists>h'. foreach (\<lambda>(is_start, data). FH_StreamDataRecv api is_start stream data) (map (Pair False) chunks) h = (h', Inr ())
      \<and> fh_forwarded h' = fh_forwarded h @ map (Pair False) chunks" for h
  proof (induction chunks arbitrary: h)
    case (Cons c cs)
    from Cons [of "h\<lparr>fh_streams := fst (mtry stream [] (fh_streams h)), fh_forwarded := fh_forwarded h @ [(False, c)]\<rparr>"]
    show ?case by (simp add: FH_StreamDataRecv_def Let_def)
  qed simp
  obtain h1 where h1: "FH_StreamDataRecv api True stream (fx_write api upstream_req @ first) h = (h1, Inr ())"
    "fh_forwarded h1 = fh_forwarded h @ [(True, fx_write api req @ first)]"
    using codec rid by (simp add: FH_StreamDataRecv_def Let_def)
  from later [of h1] show ?thesis using h1 by auto
qed

text \<open>A start chunk that ends inside the header is dropped; the chunks behind it are forwarded without one.\<close>

lemma fetch_header_lost:
  assumes "fx_read api data = (r, rest, False)"
  shows "fh_forwarded (fst (FH_StreamDataRecv api False s tail (fst (FH_StreamDataRecv api True s data h)))) = fh_forwarded h @ [(False, tail)]"
  using assms by (simp add: FH_StreamDataRecv_def Let_def)

section \<open>Sample fetches\<close>

definition sample_object :: "u64 \<Rightarrow> u64 \<Rightarrow> cache_object" where
  "sample_object g i = (\<lparr>oh_group_id = g, oh_object_id = i, oh_subgroup_id = 0, oh_payload_length = 1, oh_status = 0, oh_priority = None,
     oh_track_mode = None, oh_extensions = None, oh_immutable_extensions = None\<rparr>, [7])"

definition sample_groups :: "cache_object list list" where
  "sample_groups = [[sample_object 1 0, sample_object 1 1], [sample_object 2 0, sample_object 2 1, sample_object 2 2]]"

definition sample_fetch_api :: fetch_api where
  "sample_fetch_api = \<lparr>fa_cm = sample_cm_api\<lparr>c_cache_last := (\<lambda>_ _. Some (last sample_groups))\<rparr>, fa_cache_get = (\<lambda>_ _ _ _. Some sample_groups)\<rparr>"

lemma sample_largest: "GetLargestAvailable (fa_cm sample_fetch_api) tn cm = Some (2, 2)"
  by (simp add: GetLargestAvailable_def sample_fetch_api_def sample_groups_def sample_object_def)

lemma sample_groups_ok: "cache_ok 1 2 sample_groups"
  by (simp add: cache_ok_def sample_groups_def sample_object_def)

lemma sample_range: "filter (in_range (1, 1) (2, Some 1)) (concat sample_groups) = [sample_object 1 1, sample_object 2 0, sample_object 2 1]"
  by (simp add: sample_groups_def sample_object_def in_range_def word_le_nat_alt)

definition no_fetches :: fetch_env where
  "no_fetches = \<lparr>fe_stop = [], fe_log = []\<rparr>"

theorem fetch_range_exact_witness:
  "\<exists>env1 task env'. FetchReceived sample_fetch_api 5 9 ([[1]], [2]) (1, 1) (2, Some 1) (sample_clients True) no_fetches = (env1, task)
     \<and> fetch_thread sample_fetch_api task \<lparr>fs_status = (\<lambda>_. FS_Ok), fs_latest = (\<lambda>_. None)\<rparr> [] env1 = Some env'
     \<and> fe_log env' = [Fv_Bind 5 9, Fv_Resolve 5 9 Fr_Ok (Some (2, 2)), Fv_Publish_Object 5 9 (sample_object 1 1), Fv_Publish_Object 5 9 (sample_object 2 0), Fv_Publish_Object 5 9 (sample_object 2 1), Fv_Unbind 5 9]"
proof -
  obtain env1 task where f: "FetchReceived sample_fetch_api 5 9 ([[1]], [2]) (1, 1) (2, Some 1) (sample_clients True) no_fetches = (env1, task)" by fastforce
  have "fa_cache_get sample_fetch_api log fh g g' = Some sample_groups" for log fh g g' by (simp add: sample_fetch_api_def)
  from fetch_range_exact [OF sample_largest _ _ this _ _ _ _ f, where src = "\<lparr>fs_status = (\<lambda>_. FS_Ok), fs_latest = (\<lambda>_. None)\<rparr>" and ps = "[]"]
  show ?thesis using f sample_groups_ok by (simp add: sample_range no_fetches_def) (simp add: sample_groups_def)
qed

text \<open>With the end object 0 the fetch stops at object 0 of the end group, although the group has more.\<close>

lemma zero_end_object_stops:
  assumes "FetchReceived sample_fetch_api 5 9 ([[1]], [2]) (1, 1) (2, Some 0) (sample_clients True) no_fetches = (env1, task)"
  shows "\<exists>env'. fetch_thread sample_fetch_api task src ps env1 = Some env' \<and> fe_log env' = [Fv_Bind 5 9, Fv_Resolve 5 9 Fr_Ok (Some (2, 2)),
    Fv_Publish_Object 5 9 (sample_object 1 1), Fv_Publish_Object 5 9 (sample_object 2 0), Fv_Unbind 5 9]"
proof -
  have "fa_cache_get sample_fetch_api log fh g g' = Some sample_groups" for log fh g g' by (simp add: sample_fetch_api_def)
  from fetch_range [OF sample_largest _ _ this _ _ _ assms, of src ps]
  have "\<exists>env'. fetch_thread sample_fetch_api task src ps env1 = Some env' \<and> fe_log env' = [Fv_Bind 5 9, Fv_Resolve 5 9 Fr_Ok (Some (2, 2))]
      @ map (Fv_Publish_Object 5 9) (filter (in_range (1, 1) (2, Some 0)) (concat sample_groups)) @ [Fv_Unbind 5 9]"
    using sample_groups_ok by (simp add: no_fetches_def) (simp add: sample_groups_def)
  moreover have "filter (in_range (1, 1) (2, Some 0)) (concat sample_groups) = [sample_object 1 1, sample_object 2 0]"
    by (simp add: sample_groups_def sample_object_def in_range_def)
  ultimately show ?thesis by simp
qed

theorem fetch_cancel_ignored_witness:
  "\<exists>env1 task env'. FetchReceived sample_fetch_api 5 9 ([[1]], [2]) (1, 1) (2, Some 1) (sample_clients True) no_fetches = (env1, task)
     \<and> fetch_reach sample_fetch_api task (concat (ft_entries task), FetchCancelReceived 5 9 env1) ([], env') \<and> sent 5 9 env' = [sample_object 1 1, sample_object 2 0, sample_object 2 1]"
proof -
  obtain env1 task where f: "FetchReceived sample_fetch_api 5 9 ([[1]], [2]) (1, 1) (2, Some 1) (sample_clients True) no_fetches = (env1, task)" by fastforce
  then have e: "ft_entries task = sample_groups" by (auto simp: FetchReceived_def Let_def sample_fetch_api_def)
  obtain env' where r: "fetch_reach sample_fetch_api task (concat (ft_entries task), FetchCancelReceived 5 9 env1) ([], env')" using fetch_finishes by blast
  then have "fetch_reach sample_fetch_api task (concat (ft_entries task), env1) ([], env')"
    by (rule converse_rtranclp_into_rtranclp [where r = "fetch_step sample_fetch_api task", OF fi_cancel])
  then have "sent 5 9 env' = [sample_object 1 1, sample_object 2 0, sample_object 2 1]"
    using fetch_cancel_ignored [OF f] sample_groups_ok by (simp add: e sample_range no_fetches_def) (simp add: sent_def)
  then show ?thesis using f r by blast
qed

theorem joining_fetch_range_witness:
  "\<exists>env' task. JoiningFetchReceived sample_fetch_api 5 9 ([[1]], [2]) \<lparr>jf_relative = True, jf_joining_start = 7\<rparr> (sample_clients True) no_fetches = (env', Some task)
     \<and> fst (ft_start task) = 0 \<and> ft_end task = (2, None)"
proof -
  obtain env' task where j: "JoiningFetchReceived sample_fetch_api 5 9 ([[1]], [2]) \<lparr>jf_relative = True, jf_joining_start = 7\<rparr> (sample_clients True) no_fetches = (env', Some task)"
    by (simp add: JoiningFetchReceived_def sample_largest FetchReceived_def Let_def)
  then show ?thesis using joining_fetch_range [OF sample_largest j] by (simp add: unat_eq_0)
qed

definition sample_fetch_header :: fetch_header_api where
  "sample_fetch_header = \<lparr>fx_read = (\<lambda>bs. case rd_int bs of Inr (r, rest) \<Rightarrow> (r, rest, True) | Inl _ \<Rightarrow> (0, bs, False)), fx_write = put_int\<rparr>"

theorem fetch_stream_relayed_witness:
  "\<exists>h'. foreach (\<lambda>(is_start, data). FH_StreamDataRecv sample_fetch_header is_start 3 data) [(True, put_int (8 :: u64) @ [4, 5]), (False, [6])]
      \<lparr>fh_request_id = Some 9, fh_streams = [], fh_forwarded = []\<rparr> = (h', Inr ())
    \<and> fh_forwarded h' = [(True, put_int (9 :: u64) @ [4, 5]), (False, [6])]"
proof -
  have c: "\<forall>r rest. fx_read sample_fetch_header (fx_write sample_fetch_header r @ rest) = (r, rest, True)"
    by (simp add: sample_fetch_header_def rd_int_put_int)
  show ?thesis
    using fetch_stream_relayed [OF c, of "\<lparr>fh_request_id = Some 9, fh_streams = [], fh_forwarded = []\<rparr>" 9 3 8 "[4, 5]" "[[6]]"]
    by (simp add: sample_fetch_header_def)
qed

end
