(* ===== verification/Relay.thy ===== *)
theory Relay
  imports Client_Correct
begin

text \<open>
  The two managers together.  The peering manager (\<open>src/src/peering/peer_manager.cc\<close>) and the client
  manager (\<open>src/src/client_manager.cc\<close>) call each other; in the models of each the calls
  of the other are entries of a log.  Here the calls are carried out.  The model carries out the calls of
  an operation when the operation has done its work: the calls of \<open>AnnounceInfoReceived\<close> and
  \<open>RemoveOrPausePublisherSubscribe\<close> are the last thing the operations do, \<open>ProcessSubscribe\<close> for a peer neither
  calls the peering manager nor reads what it changes, and the loops that hand on data go over tables that the called functions do not change.
\<close>

section \<open>Calls between the managers\<close>

definition peer_publish :: "cm_api \<Rightarrow> bytes list \<Rightarrow> bytes \<Rightarrow> u64 \<Rightarrow> PublishAttributes" where
  "peer_publish api ns name fh = \<lparr>pa_track_full_name = (ns, name), pa_track_alias = fh, pa_priority = 64,
     pa_delivery_timeout = kDefaultObjectTtl, pa_start_location = (0, 0), pa_dynamic_groups = True\<rparr>"

definition run_peer_call :: "cm_api \<Rightarrow> u64 \<Rightarrow> u64 option \<Rightarrow> u64 \<Rightarrow> event \<Rightarrow> ClientManager \<Rightarrow> unit cm_res" where
  "run_peer_call api now ticks update_ref ev cm = (case ev of
      CM_Process_Subscribe th ns name new_group \<Rightarrow>
        ProcessSubscribe api now 0 0 th (ns, name) ((c_default_attributes api)\<lparr>sa_priority := 10, sa_new_group_request_id := new_group\<rparr>) cm
    | CM_Peer_Data_Received fh is_new stream_id data \<Rightarrow> PeerDataReceived api ticks fh is_new stream_id data cm
    | CM_Peer_Stream_Closed fh stream_id reset \<Rightarrow> PeerStreamClosed api fh stream_id reset cm
    | CM_Peer_Unsubscribe_Track fh \<Rightarrow> PeerUnsubscribeTrack fh cm
    | CM_Remove_Or_Pause_Publisher_Subscribe fh \<Rightarrow> RemoveOrPausePublisherSubscribe fh cm
    | CM_Publish_Namespace_Received ns req \<Rightarrow> PublishNamespaceReceived api now update_ref 0 ns req cm
    | CM_Publish_Namespace_Done_Received req \<Rightarrow> andthen (PublishNamespaceDoneReceived api now update_ref 0 req cm) (\<lambda>_. cm_ok)
    | CM_Publish_Received ns name fh \<Rightarrow> PublishReceived api now ticks update_ref 0 0 (peer_publish api ns name fh) cm
    | CM_Publish_Done_Received \<Rightarrow> PublishDoneReceived api now update_ref 0 0 cm
    | _ \<Rightarrow> cm_ok cm)"

text \<open>An operation of the peering manager with the calls it makes, and an operation of a track handler with its.\<close>

definition peer_input :: "cm_api \<Rightarrow> u64 \<Rightarrow> u64 option \<Rightarrow> u64 \<Rightarrow> (PeerManager \<Rightarrow> unit pm_res) \<Rightarrow> ClientManager \<Rightarrow> unit cm_res" where
  "peer_input api now ticks update_ref f cm =
     (case on_peer f cm of (cm', x) \<Rightarrow>
        andthen (foreach (run_peer_call api now ticks update_ref) (drop (length (pm_log (cm_peer cm))) (pm_log (cm_peer cm'))) cm') (\<lambda>_ cm. (cm, x)))"

definition run_data_call :: "quicr_api \<Rightarrow> sub_event \<Rightarrow> PeerManager \<Rightarrow> unit pm_res" where
  "run_data_call q ev pm = (case ev of
      Sv_Client_Data_Recv track_alias priority ttl d_type group_id subgroup_id data \<Rightarrow>
        ClientDataRecv q track_alias priority (ucast ttl) d_type group_id subgroup_id data pm
    | Sv_Peer_End_Subgroup track_alias group_id subgroup_id reset \<Rightarrow> EndSubgroup track_alias group_id subgroup_id reset pm
    | _ \<Rightarrow> pm_ok pm)"

definition publisher_input :: "cm_api \<Rightarrow> shref \<Rightarrow> (sub_state \<Rightarrow> sub_state \<times> unit res) \<Rightarrow> ClientManager \<Rightarrow> unit cm_res" where
  "publisher_input api r f cm =
     (case on_handler r f cm of (cm', x) \<Rightarrow>
        andthen (foreach (\<lambda>ev. on_peer (run_data_call (c_quicr api) ev)) (drop (length (se_log (cm_env cm))) (se_log (cm_env cm'))) cm') (\<lambda>_ cm. (cm, x)))"

section \<open>Datagrams\<close>

definition datagram_headers :: "sub_api \<Rightarrow> ObjectDatagram \<Rightarrow> ObjectHeaders" where
  "datagram_headers api msg = \<lparr>oh_group_id = od_group_id msg, oh_object_id = od_object_id msg, oh_subgroup_id = 0,
     oh_payload_length = length (od_payload msg), oh_status = sb_available api, oh_priority = od_priority msg,
     oh_track_mode = Some (sb_mode_datagram api), oh_extensions = od_extensions msg, oh_immutable_extensions = None\<rparr>"

text \<open>A handler that can hand on a datagram: subscribers in order, an alias, no namespace subscription and no ranking.\<close>

definition plain_handler :: "sub_state \<Rightarrow> bool" where
  "plain_handler st \<longleftrightarrow> sub_wf st \<and> sth_track_alias (fst st) \<noteq> None \<and> sth_sub_namespaces (fst st) = [] \<and> ranking_of st = None"

text \<open>What the local subscribers get: the object, each whose start location it has reached.\<close>

definition datagram_out :: "sub_api \<Rightarrow> ObjectDatagram \<Rightarrow> sub_state \<Rightarrow> pub_event list" where
  "datagram_out api msg st = concat (map (outs (published api ((fst st)\<lparr>sth_is_datagram := True\<rparr>) (datagram_headers api msg) (od_payload msg)) (se_pub (snd st)))
     (sth_subscribers (fst st)))"

lemma DgramDataRecv_out:
  assumes p: "plain_handler (h, e)" and d: "sb_read_datagram api data = Some msg" and x: "ext_ok (od_extensions msg)"
  shows "\<exists>h' e' c. DgramDataRecv api now data (h, e) = ((h', e'), Inr ())
    \<and> pe_log (se_pub e') = pe_log (se_pub e) @ datagram_out api msg (h, e)
    \<and> se_log e' = se_log e @ (if map_of (sth_subscribers h) 0 \<noteq> None
        then [Sv_Client_Data_Recv (od_track_alias msg) (sth_priority h) (delivery_ttl h) kDatagram (od_group_id msg) 0 data] else []) @ c
    \<and> (\<forall>ev \<in> set c. \<exists>ta hdr bs. ev = Sv_Cache_Object ta hdr bs)"
proof -
  let ?h = "h\<lparr>sth_is_datagram := True\<rparr>"
  let ?e = "if map_of (sth_subscribers h) 0 \<noteq> None
    then sub_emit (Sv_Client_Data_Recv (od_track_alias msg) (sth_priority h) (delivery_ttl h) kDatagram (od_group_id msg) 0 data) e else e"
  obtain ta where ta: "sth_track_alias ?h = Some ta" using p by (auto simp: plain_handler_def)
  have e: "se_pub ?e = se_pub e" "se_next ?e = se_next e" "se_rankings ?e = se_rankings e" by (simp_all add: sub_emit_def)
  have "sub_wf (?h, ?e)" "sth_sub_namespaces ?h = []" "ranking_of (?h, ?e) = None"
    using p by (simp_all add: plain_handler_def sub_wf_def ranking_of_def sub_emit_def split: option.splits)
  from ObjectReceived_fanout [OF this(1) ta this(2,3), of "datagram_headers api msg" api now "od_payload msg"] x
  obtain h' e' where o: "ObjectReceived api now (datagram_headers api msg) (od_payload msg) (?h, ?e) = ((h', e'), Inr ())"
    "pe_log (se_pub e') = pe_log (se_pub ?e) @ concat (map (outs (published api ?h (datagram_headers api msg) (od_payload msg)) (se_pub ?e)) (sth_subscribers ?h))"
    "se_log e' = se_log ?e @ cached api ta (datagram_headers api msg) (od_payload msg)"
    by (auto simp: datagram_headers_def ext_ok_def)
  have "DgramDataRecv api now data (h, e) = ((h', e'), Inr ())"
    using o(1) d unfolding DgramDataRecv_def Let_def datagram_headers_def by (auto simp: delivery_ttl_def)
  moreover have "\<forall>ev \<in> set (cached api ta (datagram_headers api msg) (od_payload msg)). \<exists>ta hdr bs. ev = Sv_Cache_Object ta hdr bs" by (simp add: cached_def)
  moreover have "se_log ?e = se_log e @ (if map_of (sth_subscribers h) 0 \<noteq> None
        then [Sv_Client_Data_Recv (od_track_alias msg) (sth_priority h) (delivery_ttl h) kDatagram (od_group_id msg) 0 data] else [])"
    by (simp add: sub_emit_def)
  ultimately show ?thesis using o(2,3) unfolding e by (intro exI [of _ h'] exI [of _ e'] exI [of _ "cached api ta (datagram_headers api msg) (od_payload msg)"]) (simp add: datagram_out_def)
qed

lemma skip_calls: "\<forall>ev \<in> set evs. \<exists>ta hdr bs. ev = Sv_Cache_Object ta hdr bs \<Longrightarrow> foreach (\<lambda>ev. on_peer (run_data_call q ev)) evs cm = cm_ok cm"
  by (induction evs) (auto simp: on_peer_def run_data_call_def)

text \<open>What the peers get of a datagram: one copy for each session of the forwarding table, behind a header with
  the node set of that session.\<close>

definition peers_out :: "u64 \<Rightarrow> u8 \<Rightarrow> u32 \<Rightarrow> (u32 \<Rightarrow> bytes) \<Rightarrow> bytes \<Rightarrow> PeerManager \<Rightarrow> event list" where
  "peers_out fh priority ttl hdr data pm =
     concat (map (\<lambda>e. peer_out (client_header fh priority ttl kDatagram) (hdr (fib_out_sns_id (snd e)) @ data) False (snd e) 0
                    (snd (the (lock_sess pm (fib_peer_session (snd e))))))
       (filter (\<lambda>e. lock_sess pm (fib_peer_session (snd e)) \<noteq> None) (key_range fh (ib_client_fib (pm_info_base pm)))))"

text \<open>A client's datagram: the forwarding table and the data header use the alias that the publisher put into the datagram.\<close>

lemma datagram_crosses:
  assumes wf: "cm_wf api cm" and h: "map_of (cm_handlers cm) r = Some h" and p: "plain_handler (h, cm_env cm)"
    and d: "sb_read_datagram (c_sub api) data = Some msg" and x: "ext_ok (od_extensions msg)"
  shows "\<exists>cm' hdr. publisher_input api r (DgramDataRecv (c_sub api) now data) cm = cm_ok cm'
    \<and> pe_log (se_pub (cm_env cm')) = pe_log (se_pub (cm_env cm)) @ datagram_out (c_sub api) msg (h, cm_env cm)
    \<and> pm_log (cm_peer cm') = pm_log (cm_peer cm) @ (if map_of (sth_subscribers h) 0 = None then []
        else peers_out (od_track_alias msg) (sth_priority h) (ucast (delivery_ttl h)) hdr data (cm_peer cm))
    \<and> (\<forall>i. DataHeader_Serialize ((client_header (od_track_alias msg) (sth_priority h) (ucast (delivery_ttl h)) kDatagram)\<lparr>dh_sns_id := i\<rparr>) = Inr (hdr i))"
proof -
  let ?call = "Sv_Client_Data_Recv (od_track_alias msg) (sth_priority h) (delivery_ttl h) kDatagram (od_group_id msg) 0 data"
  obtain h' e' c where g: "DgramDataRecv (c_sub api) now data (h, cm_env cm) = ((h', e'), Inr ())"
    and l: "pe_log (se_pub e') = pe_log (se_pub (cm_env cm)) @ datagram_out (c_sub api) msg (h, cm_env cm)"
      "se_log e' = se_log (cm_env cm) @ (if map_of (sth_subscribers h) 0 \<noteq> None then [?call] else []) @ c"
    and c: "\<forall>ev \<in> set c. \<exists>ta hdr bs. ev = Sv_Cache_Object ta hdr bs"
    using DgramDataRecv_out [OF p d x, of now] by (elim exE conjE) (rule that)
  let ?cm1 = "cm\<lparr>cm_handlers := mput r h' (cm_handlers cm), cm_env := e'\<rparr>"
  have o: "on_handler r (DgramDataRecv (c_sub api) now data) cm = cm_ok ?cm1" by (simp add: on_handler_def h g)
  have "pm_wf (cm_peer cm)" using wf by (simp add: cm_wf_def)
  from client_datagram [OF this, of "od_track_alias msg" "sth_priority h" "ucast (delivery_ttl h)" "c_quicr api" "od_group_id msg" 0 data]
  obtain hdr where hdr: "\<forall>i. DataHeader_Serialize ((client_header (od_track_alias msg) (sth_priority h) (ucast (delivery_ttl h)) kDatagram)\<lparr>dh_sns_id := i\<rparr>) = Inr (hdr i)"
    and pd: "ClientDataRecv (c_quicr api) (od_track_alias msg) (sth_priority h) (ucast (delivery_ttl h)) kDatagram (od_group_id msg) 0 data (cm_peer cm) =
      pm_ok ((cm_peer cm)\<lparr>pm_log := pm_log (cm_peer cm) @ peers_out (od_track_alias msg) (sth_priority h) (ucast (delivery_ttl h)) hdr data (cm_peer cm)\<rparr>)"
    unfolding peers_out_def by blast
  define cm2 where "cm2 = (if map_of (sth_subscribers h) 0 = None then ?cm1
    else ?cm1\<lparr>cm_peer := (cm_peer cm)\<lparr>pm_log := pm_log (cm_peer cm) @ peers_out (od_track_alias msg) (sth_priority h) (ucast (delivery_ttl h)) hdr data (cm_peer cm)\<rparr>\<rparr>)"
  have "foreach (\<lambda>ev. on_peer (run_data_call (c_quicr api) ev)) ((if map_of (sth_subscribers h) 0 \<noteq> None then [?call] else []) @ c) ?cm1 = cm_ok cm2"
    using pd skip_calls [OF c] by (simp add: cm2_def foreach_append on_peer_def [of "run_data_call (c_quicr api) ?call"] run_data_call_def [of _ ?call])
  then have "publisher_input api r (DgramDataRecv (c_sub api) now data) cm = cm_ok cm2" by (simp add: publisher_input_def o l(2))
  moreover have "cm_env cm2 = e'" "pm_log (cm_peer cm2) = pm_log (cm_peer cm) @ (if map_of (sth_subscribers h) 0 = None then []
        else peers_out (od_track_alias msg) (sth_priority h) (ucast (delivery_ttl h)) hdr data (cm_peer cm))" by (simp_all add: cm2_def)
  ultimately show ?thesis using l(1) hdr by (intro exI [of _ cm2] exI [of _ hdr]) simp
qed

text \<open>C6. A client's datagram crosses the relay.  Take a publisher that uses the consistent hash of its track's full name
  as the track alias, and a track handler that has an alias, no namespace subscriptions and no ranking.  When a datagram of the
  publisher arrives at the handler, the object in it is published to every local subscriber whose start location it has reached, in
  the order of the connections, and, if peers subscribed to the track, the datagram is put once on every peer session of the
  forwarding table of the track's hash, behind a data header that carries that hash and the node set of that session; nothing
  else is sent, and the two managers return.  (For a publisher with an alias of its own see \<open>publisher_alias_not_mapped\<close>.)\<close>

theorem client_datagram_crosses:
  assumes wf: "cm_wf api cm" and h: "map_of (cm_handlers cm) r = Some h" and p: "plain_handler (h, cm_env cm)"
    and d: "sb_read_datagram (c_sub api) data = Some msg" and x: "ext_ok (od_extensions msg)"
    and hash: "od_track_alias msg = th_fullname (track_hash api (sth_full_track_name h))"
  shows "\<exists>cm' hdr. publisher_input api r (DgramDataRecv (c_sub api) now data) cm = cm_ok cm'
    \<and> pe_log (se_pub (cm_env cm')) = pe_log (se_pub (cm_env cm)) @ datagram_out (c_sub api) msg (h, cm_env cm)
    \<and> pm_log (cm_peer cm') = pm_log (cm_peer cm) @ (if map_of (sth_subscribers h) 0 = None then []
        else peers_out (th_fullname (track_hash api (sth_full_track_name h))) (sth_priority h) (ucast (delivery_ttl h)) hdr data (cm_peer cm))
    \<and> (\<forall>i. DataHeader_Serialize ((client_header (th_fullname (track_hash api (sth_full_track_name h))) (sth_priority h)
          (ucast (delivery_ttl h)) kDatagram)\<lparr>dh_sns_id := i\<rparr>) = Inr (hdr i))"
  using datagram_crosses [OF wf h p d x] unfolding hash .

lemma run_no_calls:
  "\<forall>ev \<in> set evs. run_peer_call api now ticks ref ev cm = cm_ok cm \<Longrightarrow> foreach (run_peer_call api now ticks ref) evs cm = cm_ok cm"
  by (induction evs) auto

lemma other_egress_calls:
  assumes "fst out \<noteq> 0" and "ev \<in> set (egress_out pm sid is_new n hdr data off rel out)"
  shows "run_peer_call api now ticks ref ev cm = cm_ok cm"
  using assms by (auto simp: egress_out_def peer_out_def run_peer_call_def split: if_splits option.splits)

text \<open>C8. A peer's datagram reaches the local subscribers.  When a datagram of a node set of which this relay is a member arrives from a
  peer, and the relay has subscribed to the track for its clients, the peering manager hands the payload behind the data header to the
  client manager, and the track handler of the peer publishes the object in it to every local subscriber whose start location it has
  reached, in the order of the connections.\<close>

theorem peer_datagram_reaches_clients:
  assumes wf: "cm_wf api cm" and fib: "map_of (ib_peer_fib (pm_info_base (cm_peer cm))) (sid, dh_sns_id hdr) = Some (pre @ (0, entry) # post)"
    and once: "\<forall>out \<in> set (pre @ post). fst out \<noteq> 0" and sid: "sid \<noteq> 0"
    and live: "\<forall>out \<in> set (pre @ (0, entry) # post). egress_live (cm_peer cm) sid out" and len: "6 \<le> length data" "unat off \<le> length data"
    and si: "subscription (pm_info_base (cm_peer cm)) (dh_track_full_name_hash hdr) (ni_id (pm_node_info (cm_peer cm))) = Some si"
    and r: "map_of (pub_subscribes cm) (th_fullname (si_track_hash si), 0) = Some r" and h: "map_of (cm_handlers cm) r = Some h"
    and p: "plain_handler (h, cm_env cm)" and d: "sb_read_datagram (c_sub api) (drop (unat off) data) = Some msg" and x: "ext_ok (od_extensions msg)"
  shows "\<exists>cm'. peer_input api now ticks ref (ForwardPeerData (c_quicr api) sid False 0 hdr data off False) cm = cm_ok cm'
    \<and> pe_log (se_pub (cm_env cm')) = pe_log (se_pub (cm_env cm)) @ datagram_out (c_sub api) msg (h, cm_env cm)"
proof -
  let ?out = "egress_out (cm_peer cm) sid False 0 hdr data off False" and ?run = "run_peer_call api now ticks ref"
  let ?call = "CM_Peer_Data_Received (th_fullname (si_track_hash si)) False None (drop (unat off) data)"
  have pw: "pm_wf (cm_peer cm)" using wf by (simp add: cm_wf_def)
  let ?log = "concat (map ?out pre) @ [?call] @ concat (map ?out post)"
  have self: "?out (0, entry) = [?call]" using sid si by (simp add: egress_out_def self_out_def)
  have f: "ForwardPeerData (c_quicr api) sid False 0 hdr data off False (cm_peer cm) = pm_ok ((cm_peer cm)\<lparr>pm_log := pm_log (cm_peer cm) @ ?log\<rparr>)"
    using ForwardPeerData_eq [OF pw fib live, of False False data off "c_quicr api" 0] len by (simp add: self)
  let ?cm1 = "cm\<lparr>cm_peer := (cm_peer cm)\<lparr>pm_log := pm_log (cm_peer cm) @ ?log\<rparr>\<rparr>"
  have o: "on_peer (ForwardPeerData (c_quicr api) sid False 0 hdr data off False) cm = cm_ok ?cm1" by (simp add: on_peer_def f)
  have none: "foreach ?run (concat (map ?out outs)) cm' = cm_ok cm'" if "set outs \<subseteq> set (pre @ post)" for outs cm'
  proof (rule run_no_calls, rule ballI)
    fix ev
    assume "ev \<in> set (concat (map ?out outs))"
    then obtain out where "out \<in> set outs" "ev \<in> set (?out out)" by auto
    then show "?run ev cm' = cm_ok cm'" using once that by (intro other_egress_calls) auto
  qed
  obtain h' e' c where g: "DgramDataRecv (c_sub api) ticks (drop (unat off) data) (h, cm_env cm) = ((h', e'), Inr ())"
    and l: "pe_log (se_pub e') = pe_log (se_pub (cm_env cm)) @ datagram_out (c_sub api) msg (h, cm_env cm)"
    using DgramDataRecv_out [OF p d x] by blast
  let ?cm2 = "?cm1\<lparr>cm_handlers := mput r h' (cm_handlers cm), cm_env := e'\<rparr>"
  have "?run ?call ?cm1 = cm_ok ?cm2"
    using r h g by (simp add: run_peer_call_def PeerDataReceived_def on_handler_def pub_subscribes_def)
  then have "foreach ?run ?log ?cm1 = cm_ok ?cm2" using none [of pre] none [of post] by (simp add: foreach_append)
  then have "peer_input api now ticks ref (ForwardPeerData (c_quicr api) sid False 0 hdr data off False) cm = cm_ok ?cm2"
    by (simp add: peer_input_def o)
  then show ?thesis using l by auto
qed

text \<open>The start location of a subscriber is compared by component: an object of a later group is held back while
  its number is smaller than that of the start object.\<close>

lemma later_group_held_back:
  assumes "fst (pth_start_location t) < oh_group_id hdr" and "oh_object_id hdr < snd (pth_start_location t)"
    and "\<forall>m. pth_start_location (q_set_track_mode (sb_pub api) m t) = pth_start_location t"
  shows "published api h hdr data r t = []"
  using assms by (simp add: published_def Let_def not_le)

section \<open>A sample relay\<close>

text \<open>Datagrams of group, object and payload on the track 33, which clients 5 and 6 and the peers subscribed to.\<close>

definition sample_relay_api :: cm_api where
  "sample_relay_api = sample_cm_api\<lparr>c_sub := sample_sub_api\<lparr>sb_read_datagram := (\<lambda>bs. case bs of
      g # i # payload \<Rightarrow> Some \<lparr>od_track_alias = 33, od_group_id = ucast g, od_object_id = ucast i, od_priority = None, od_payload = payload, od_extensions = None\<rparr>
    | _ \<Rightarrow> None)\<rparr>\<rparr>"

definition relay_handler :: SubscribeTrackHandler where
  "relay_handler = sample_handler\<lparr>sth_full_track_name := ([[33]], [])\<rparr>"

definition sample_relay :: "PeerManager \<Rightarrow> ClientManager" where
  "sample_relay pm = (sample_clients True)\<lparr>cm_handlers := [(0, relay_handler)],
     cm_peer := pm\<lparr>pm_state := \<lparr>st_pub_namespace_active = [], st_pub_subscribes = [((33, 0), 0), ((33, 9), 0)]\<rparr>\<rparr>\<rparr>"

lemma sample_relay_wf:
  assumes "pm_wf pm"
  shows "cm_wf api (sample_relay pm)"
proof -
  have "pm_wf (cm_peer (sample_relay pm))" using assms by (simp add: sample_relay_def pm_wf_def live_of_def [abs_def] all_sessions_def)
  then show ?thesis
    by (simp add: cm_wf_def sample_relay_def sample_clients_def pub_subscribes_def has_handler_def rankings_wf_def namespaces_wf_def msorted_Cons)
qed

lemma sample_relay_handler: "map_of (cm_handlers (sample_relay pm)) 0 = Some relay_handler" "cm_env (sample_relay pm) = sample_sub_env"
  by (simp_all add: sample_relay_def sample_clients_def)

lemma sample_relay_plain: "plain_handler (relay_handler, sample_sub_env)"
  using sample_handler_wf by (simp add: plain_handler_def ranking_of_def sub_wf_def relay_handler_def) (simp add: sample_handler_def)

definition sample_msg :: ObjectDatagram where
  "sample_msg = \<lparr>od_track_alias = 33, od_group_id = 1, od_object_id = 0, od_priority = None, od_payload = [7], od_extensions = None\<rparr>"

lemma sample_datagram: "sb_read_datagram (c_sub sample_relay_api) [1, 0, 7] =
    Some sample_msg"
  by (simp add: sample_relay_api_def sample_msg_def)

lemma sample_msg: "ext_ok (od_extensions sample_msg)" "od_track_alias sample_msg = 33"
  by (simp_all add: sample_msg_def ext_ok_def)

lemma sample_datagram_out: "datagram_out (c_sub sample_relay_api) sample_msg
    (relay_handler, sample_sub_env) = [Ev_Publish_Object 0 1 0 [7], Ev_Publish_Object 1 1 0 [7]]"
  by (simp add: datagram_out_def outs_def sample_sub_env_def relay_handler_def sample_handler_def lock_track_def published_def sample_track_def
      datagram_headers_def sample_msg_def sample_relay_api_def sample_cm_api_def sample_sub_api_def plain_api_def)

lemma relay_alias: "od_track_alias sample_msg = th_fullname (track_hash sample_relay_api (sth_full_track_name relay_handler))"
  by (simp add: sample_msg_def track_hash_def sample_relay_api_def sample_cm_api_def sample_quicr_def plain_hash_def relay_handler_def)

theorem client_datagram_crosses_witness:
  "\<exists>cm' d1 d2. publisher_input sample_relay_api 0 (DgramDataRecv (c_sub sample_relay_api) None [1, 0, 7]) (sample_relay two_egress_manager) = cm_ok cm'
     \<and> pe_log (se_pub (cm_env cm')) = [Ev_Publish_Object 0 1 0 [7], Ev_Publish_Object 1 1 0 [7]]
     \<and> pm_log (cm_peer cm') = [E_Enqueue 10 2 0 d1 4 5000 (Some False), E_Enqueue 20 9 0 d2 4 5000 (Some False)]"
proof -
  let ?cm = "sample_relay two_egress_manager"
  obtain cm' hdr where c: "publisher_input sample_relay_api 0 (DgramDataRecv (c_sub sample_relay_api) None [1, 0, 7]) ?cm = cm_ok cm'"
    "pe_log (se_pub (cm_env cm')) = pe_log (se_pub sample_sub_env) @ [Ev_Publish_Object 0 1 0 [7], Ev_Publish_Object 1 1 0 [7]]"
    "pm_log (cm_peer cm') = pm_log (cm_peer ?cm) @ (if map_of (sth_subscribers relay_handler) 0 = None then []
        else peers_out 33 (sth_priority relay_handler) (ucast (delivery_ttl relay_handler)) hdr [1, 0, 7] (cm_peer ?cm))"
    using client_datagram_crosses [OF sample_relay_wf [OF two_egress_manager_wf] sample_relay_handler(1), unfolded sample_relay_handler(2),
        OF sample_relay_plain sample_datagram sample_msg(1) relay_alias, of None]
    unfolding sample_datagram_out relay_alias [symmetric] sample_msg(2) by (elim exE conjE) (rule that)
  moreover have "peers_out 33 4 5000 hdr [1, 0, 7] (cm_peer ?cm) = [E_Enqueue 10 2 0 (hdr 2 @ [1, 0, 7]) 4 5000 (Some False), E_Enqueue 20 9 0 (hdr 9 @ [1, 0, 7]) 4 5000 (Some False)]"
    by (simp add: peers_out_def sample_relay_def two_egress_range) (simp add: two_egress_defs)
  ultimately show ?thesis by (simp add: relay_handler_def sample_handler_def delivery_ttl_def kDefaultObjectTtl_def sample_sub_env_def sample_relay_def two_egress_manager_def sample_manager_def)
qed

text \<open>A publisher whose alias is 34 for the same track: the peers that subscribed to the track get nothing.\<close>

lemma publisher_alias_not_mapped:
  assumes "sb_read_datagram (c_sub api) data = Some (sample_msg\<lparr>od_track_alias := 34\<rparr>)"
  shows "\<exists>cm'. publisher_input api 0 (DgramDataRecv (c_sub api) None data) (sample_relay two_egress_manager) = cm_ok cm'
    \<and> pm_log (cm_peer cm') = pm_log (cm_peer (sample_relay two_egress_manager))"
proof -
  let ?cm = "sample_relay two_egress_manager"
  have x: "ext_ok (od_extensions (sample_msg\<lparr>od_track_alias := 34\<rparr>))" by (simp add: sample_msg_def ext_ok_def)
  have "peers_out 34 p ttl hdr data (cm_peer ?cm) = []" for p ttl hdr
    by (simp add: peers_out_def sample_relay_def two_egress_manager_def publishing_fib_def key_range_def)
  then show ?thesis
    using datagram_crosses [OF sample_relay_wf [OF two_egress_manager_wf] sample_relay_handler(1), unfolded sample_relay_handler(2),
        OF sample_relay_plain assms x, of None]
    by auto
qed

text \<open>The relay is a member of node set 6 of session 10 and has subscribed to track 33 for its clients.\<close>

definition member_manager :: PeerManager where
  "member_manager = sample_manager\<lparr>pm_info_base := InfoBase_init\<lparr>ib_peer_fib := [((10, 6), [(0, sample_entry 0 0), (20, sample_entry 9 1)])],
     ib_subscribes := [(33, [(ni_id sample_node, sample_subscribe [4])])]\<rparr>\<rparr>"

lemma member_manager_wf: "pm_wf member_manager"
  unfolding member_manager_def
  by (rule pm_wf_info_base [OF sample_manager_wf]) (simp_all add: nodes_same_def sample_manager_def msorted_Cons)

theorem peer_datagram_reaches_clients_witness:
  "\<exists>cm'. peer_input sample_relay_api 0 None 0 (ForwardPeerData (c_quicr sample_relay_api) 10 False 0 (DataHeader_make 6 33 kDatagram) [14, 0, 0, 0, 0, 6, 1, 0, 7] 6 False)
       (sample_relay member_manager) = cm_ok cm'
     \<and> pe_log (se_pub (cm_env cm')) = pe_log (se_pub sample_sub_env) @ [Ev_Publish_Object 0 1 0 [7], Ev_Publish_Object 1 1 0 [7]]"
proof -
  let ?cm = "sample_relay member_manager" and ?hdr = "DataHeader_make 6 33 kDatagram"
  have f1: "map_of (ib_peer_fib (pm_info_base (cm_peer ?cm))) (10, dh_sns_id ?hdr) = Some ([] @ (0, sample_entry 0 0) # [(20, sample_entry 9 1)])"
    by (simp add: sample_relay_def member_manager_def DataHeader_make_def)
  have f2: "\<forall>out \<in> set ([] @ [(20 :: u64, sample_entry 9 1)]). fst out \<noteq> 0" by simp
  have f3: "\<forall>out \<in> set ([] @ (0, sample_entry 0 0) # [(20, sample_entry 9 1)]). egress_live (cm_peer ?cm) 10 out"
    by (simp add: egress_live_def lock_sess_def sample_entry_def sample_relay_def member_manager_def sample_manager_def)
  have f4: "subscription (pm_info_base (cm_peer ?cm)) (dh_track_full_name_hash ?hdr) (ni_id (pm_node_info (cm_peer ?cm))) = Some (sample_subscribe [4])"
    by (simp add: subscription_def mat_def sample_relay_def member_manager_def sample_manager_def DataHeader_make_def)
  have f5: "map_of (pub_subscribes ?cm) (th_fullname (si_track_hash (sample_subscribe [4])), 0) = Some 0"
    by (simp add: pub_subscribes_def sample_relay_def sample_subscribe_def)
  have f6: "sb_read_datagram (c_sub sample_relay_api) (drop (unat (6 :: u64)) [14, 0, 0, 0, 0, 6, 1, 0, 7]) = Some sample_msg" by (simp add: sample_datagram)
  have p: "plain_handler (relay_handler, cm_env ?cm)" by (simp add: sample_relay_handler(2) sample_relay_plain)
  have n: "(10 :: u64) \<noteq> 0" "6 \<le> length [14, 0, 0, 0, 0, 6, 1, 0, 7 :: u8]" "unat (6 :: u64) \<le> length [14, 0, 0, 0, 0, 6, 1, 0, 7 :: u8]" by simp_all
  from peer_datagram_reaches_clients [OF sample_relay_wf [OF member_manager_wf] f1 f2 n(1) f3 n(2,3) f4 f5 sample_relay_handler(1) p f6 sample_msg(1), of 0 None 0]
  show ?thesis unfolding sample_relay_handler(2) sample_datagram_out .
qed

end
