(* ===== verification/Command_Line.thy ===== *)
theory Command_Line
  imports Node_Id
begin

text \<open>
  The command line parser of \<open>src/dependencies/oss/cxxopts.hpp\<close>, as far as the relay uses it: option
  specifications, the parsing of values and of the argument vector, and the queries of the result.  The
  regular expressions are those of the build without \<open>CXXOPTS_NO_REGEX\<close>; each is written
  out as the function that its matches define.  The texts of help and of error messages are left out.
  The hash that keys the table of parsed options (\<open>std::hash\<close>) is a parameter.  The table of options is a list in the
  order in which the \<open>unordered_map\<close> is iterated.

  Shown: the integer parser accepts exactly the numerals that fit the type; what a command line of long
  options leaves in the result, for every order of the table.
\<close>

section \<open>Errors\<close>

datatype opt_error =
    option_already_exists string
  | invalid_option_format string
  | invalid_option_syntax string
  | no_such_option string
  | missing_argument string
  | option_requires_argument string
  | gratuitous_argument_for_option string string     \<comment> \<open>never thrown\<close>
  | requested_option_not_present string
  | option_has_no_value
  | incorrect_argument_type string
  | bad_cast                      \<comment> \<open>\<open>std::bad_cast\<close> of \<open>as<T>\<close> with the wrong type\<close>

type_synonym 'a opt_res = "opt_error + 'a"

definition obind :: "'e + 'a \<Rightarrow> ('a \<Rightarrow> 'e + 'b) \<Rightarrow> 'e + 'b" where
  "obind m f = (case m of Inl e \<Rightarrow> Inl e | Inr x \<Rightarrow> f x)"

lemma obind_simps [simp, step_simps]:
  "obind (Inl e) f = Inl e"
  "obind (Inr x) f = f x"
  by (simp_all add: obind_def)

lemma obind_Inr_iff: "obind m f = Inr y \<longleftrightarrow> (\<exists>x. m = Inr x \<and> f x = Inr y)"
  by (cases m) auto

text \<open>A loop over a list that stops at the first error.\<close>

fun ofold :: "('a \<Rightarrow> 's \<Rightarrow> 'e + 's) \<Rightarrow> 'a list \<Rightarrow> 's \<Rightarrow> 'e + 's" where
  "ofold f [] s = Inr s"
| "ofold f (x # xs) s = obind (f x s) (ofold f xs)"

lemma ofold_append: "ofold f (xs @ ys) s = obind (ofold f xs s) (ofold f ys)"
proof (induction xs arbitrary: s)
  case (Cons x xs)
  then show ?case by (cases "f x s") simp_all
qed simp

section \<open>Texts\<close>

definition is_alnum :: "char \<Rightarrow> bool" where
  "is_alnum c \<longleftrightarrow> is_digit c \<or> (65 \<le> (of_char c :: nat) \<and> (of_char c :: nat) \<le> 90)
     \<or> (97 \<le> (of_char c :: nat) \<and> (of_char c :: nat) \<le> 122)"

text \<open>What \<open>.\<close> matches: not a line terminator.\<close>

definition any_char :: "char \<Rightarrow> bool" where
  "any_char c \<longleftrightarrow> (of_char c :: nat) \<noteq> 10 \<and> (of_char c :: nat) \<noteq> 13"

definition name_char :: "char \<Rightarrow> bool" where
  "name_char c \<longleftrightarrow> is_alnum c \<or> c = CHR ''-'' \<or> c = CHR ''_'' \<or> c = CHR ''.''"

record IntegerDesc =
  id_negative :: string
  id_base :: string
  id_value :: string

text \<open>\<open>(-)?(0x)?([0-9a-zA-Z]+)|((0x)?0)\<close>, whole text.  Both optional groups are greedy; the text \<open>0x\<close> is
  given back to the third group if nothing follows it.  The second alternative matches only what
  the first has matched already.\<close>

definition SplitInteger :: "string \<Rightarrow> IntegerDesc opt_res" where
  "SplitInteger text =
     (let neg = (take 1 text = ''-''); t = (if neg then drop 1 text else text);
          n = (if neg then ''-'' else '''') in
      if take 2 t = ''0x'' \<and> drop 2 t \<noteq> [] \<and> list_all is_alnum (drop 2 t)
      then Inr \<lparr>id_negative = n, id_base = ''0x'', id_value = drop 2 t\<rparr>
      else if t \<noteq> [] \<and> list_all is_alnum t then Inr \<lparr>id_negative = n, id_base = '''', id_value = t\<rparr>
      else Inl (incorrect_argument_type text))"

definition IsTrueText :: "string \<Rightarrow> bool" where
  "IsTrueText text \<longleftrightarrow> text \<in> {''t'', ''T'', ''true'', ''True'', ''1''}"

definition IsFalseText :: "string \<Rightarrow> bool" where
  "IsFalseText text \<longleftrightarrow> text \<in> {''f'', ''F'', ''false'', ''False'', ''0''}"

fun split_on :: "char \<Rightarrow> string \<Rightarrow> string list" where
  "split_on d [] = [[]]"
| "split_on d (c # s) = (if c = d then [] # split_on d s else case split_on d s of [] \<Rightarrow> [[c]] | t # ts \<Rightarrow> (c # t) # ts)"

text \<open>\<open>([[:alnum:]][-_[:alnum:]\\.]*)(,[ ]*[[:alnum:]][-_[:alnum:]]*)*\<close>, cut at \<open>, *\<close>: only the first name may
  have a dot, and blanks are allowed before the others.\<close>

definition option_name :: "bool \<Rightarrow> string \<Rightarrow> bool" where
  "option_name dot s \<longleftrightarrow> s \<noteq> [] \<and> is_alnum (hd s) \<and> list_all (\<lambda>c. name_char c \<and> (dot \<or> c \<noteq> CHR ''.'')) s"

definition split_option_names :: "string \<Rightarrow> string list opt_res" where
  "split_option_names text =
     (let parts = split_on (CHR '','') text; first = hd parts; more_names = map (dropWhile (\<lambda>c. c = CHR '' '')) (tl parts) in
      if option_name True first \<and> list_all (option_name False) more_names then Inr (first # more_names)
      else Inl (invalid_option_format text))"

record ArguDesc =
  arg_name :: string
  arg_grouping :: bool
  arg_set_value :: bool
  arg_value :: string

text \<open>\<open>--([[:alnum:]][-_[:alnum:]\\.]+)(=(.*))?|-([[:alnum:]].*)\<close>, whole text; \<open>None\<close> if it does not match.\<close>

definition ParseArgument :: "string \<Rightarrow> ArguDesc option" where
  "ParseArgument arg =
     (if take 2 arg = ''--'' then
        (let name = takeWhile name_char (drop 2 arg); rest = dropWhile name_char (drop 2 arg) in
         if 2 \<le> length name \<and> is_alnum (hd name)
         then (case rest of
             [] \<Rightarrow> Some \<lparr>arg_name = name, arg_grouping = False, arg_set_value = False, arg_value = ''''\<rparr>
           | c # v \<Rightarrow> if c = CHR ''='' \<and> list_all any_char v
               then Some \<lparr>arg_name = name, arg_grouping = False, arg_set_value = True, arg_value = v\<rparr> else None)
         else None)
      else if take 1 arg = ''-'' then
        (if drop 1 arg \<noteq> [] \<and> is_alnum (hd (drop 1 arg)) \<and> list_all any_char (drop 1 arg)
         then Some \<lparr>arg_name = drop 1 arg, arg_grouping = True, arg_set_value = False, arg_value = ''''\<rparr> else None)
      else None)"

section \<open>Integers\<close>

definition int_digit :: "nat \<Rightarrow> char \<Rightarrow> nat option" where
  "int_digit base ch = (let c = (of_char ch :: nat) in
     if 48 \<le> c \<and> c \<le> 57 then Some (c - 48)
     else if base = 16 \<and> 97 \<le> c \<and> c \<le> 102 then Some (c - 97 + 10)
     else if base = 16 \<and> 65 \<le> c \<and> c \<le> 70 then Some (c - 65 + 10)
     else None)"

text \<open>\<open>result * base > limit - digit\<close>.  Operands narrower than \<open>int\<close> are promoted to it, wider
  ones are computed modulo their width.\<close>

definition digit_exceeds :: "'a::len word \<Rightarrow> nat \<Rightarrow> 'a word \<Rightarrow> nat \<Rightarrow> bool" where
  "digit_exceeds result base limit digit =
     (if LENGTH('a) < 32 then uint limit - int digit < uint result * int base
      else limit - word_of_nat digit < result * word_of_nat base)"

text \<open>The loop of \<open>integer_parser\<close> for an unsigned type: the least value is 0, the greatest is all ones.\<close>

fun integer_loop :: "bool \<Rightarrow> nat \<Rightarrow> string \<Rightarrow> string \<Rightarrow> 'a::len word \<Rightarrow> 'a word opt_res" where
  "integer_loop negative base text [] result = Inr result"
| "integer_loop negative base text (ch # value_match) result =
     (case int_digit base ch of
        None \<Rightarrow> Inl (incorrect_argument_type text)
      | Some digit \<Rightarrow>
          (let limit = (if negative then 0 else - 1) in
           if limit div word_of_nat base < result then Inl (incorrect_argument_type text)
           else if digit_exceeds result base limit digit then Inl (incorrect_argument_type text)
           else integer_loop negative base text value_match (result * word_of_nat base + word_of_nat digit)))"

definition integer_parser :: "string \<Rightarrow> 'a::len word opt_res" where
  "integer_parser text =
     obind (SplitInteger text) (\<lambda>int_desc.
       let negative = (id_negative int_desc \<noteq> []); base = (if id_base int_desc \<noteq> [] then 16 else 10) in
       obind (integer_loop negative base text (id_value int_desc) 0) (\<lambda>result.
         if negative then Inl (incorrect_argument_type text) else Inr result))"

text \<open>A reference definition: the number a text denotes, decimal or with the prefix \<open>0x\<close> hexadecimal, of any size.\<close>

definition digit_of :: "nat \<Rightarrow> char \<Rightarrow> nat option" where
  "digit_of base c = map_of (zip ''0123456789'' [0..<10] @ (if base = 16 then zip ''abcdef'' [10..<16] @ zip ''ABCDEF'' [10..<16] else [])) c"

lemma hex_digits: "\<forall>c. digit_of 16 c = int_digit 16 c"
  by code_simp

lemma decimal_digits: "\<forall>c. digit_of 10 c = int_digit 10 c"
  by code_simp

lemma digit_of_int_digit [simp]: "digit_of base c = int_digit base c"
proof (cases "base = 16")
  case True
  then show ?thesis using hex_digits by simp
next
  case False
  then have "digit_of base c = digit_of 10 c" "int_digit base c = int_digit 10 c" by (simp_all add: digit_of_def int_digit_def Let_def)
  then show ?thesis using decimal_digits by simp
qed

fun digits_value :: "nat \<Rightarrow> string \<Rightarrow> nat \<Rightarrow> nat option" where
  "digits_value base [] n = Some n"
| "digits_value base (c # cs) n = (case digit_of base c of None \<Rightarrow> None | Some d \<Rightarrow> digits_value base cs (base * n + d))"

definition numeral_value :: "string \<Rightarrow> nat option" where
  "numeral_value text =
     (if text = [] then None
      else if take 2 text = ''0x'' \<and> drop 2 text \<noteq> [] then digits_value 16 (drop 2 text) 0
      else digits_value 10 text 0)"

lemma digits_value_mono: "0 < base \<Longrightarrow> digits_value base ds n = Some m \<Longrightarrow> n \<le> m"
proof (induction ds arbitrary: n)
  case (Cons c ds)
  then obtain d where "int_digit base c = Some d" "base * n + d \<le> m" by (auto split: option.splits)
  moreover have "n \<le> base * n" using Cons.prems(1) by simp
  ultimately show ?case by linarith
qed simp

lemma int_digit_less: "int_digit base c = Some d \<Longrightarrow> base = 10 \<or> base = 16 \<Longrightarrow> d < base"
  by (auto simp: int_digit_def Let_def split: if_splits)

lemma unat_of_small: "n < 2 ^ LENGTH('a::len) \<Longrightarrow> unat (word_of_nat n :: 'a word) = n"
  by (simp add: unat_of_nat)

lemma unat_all_ones: "unat (- 1 :: 'a::len word) = 2 ^ LENGTH('a) - 1"
  by (simp add: unsigned_minus_1_eq_mask mask_eq_exp_minus_1)

text \<open>The two overflow checks of the loop together: the next value does not fit.\<close>

lemma digit_checks:
  fixes r :: "'a::len word"
  assumes "base < 2 ^ LENGTH('a)" "0 < base" "d < base"
  shows "((- 1) div word_of_nat base < r \<or> digit_exceeds r base (- 1) d) \<longleftrightarrow> 2 ^ LENGTH('a) \<le> base * unat r + d"
proof -
  let ?L = "2 ^ LENGTH('a) :: nat"
  have b: "unat (word_of_nat base :: 'a word) = base" "unat (word_of_nat d :: 'a word) = d"
    using assms by (simp_all add: unat_of_small)
  have L: "0 < ?L" by simp
  have c1: "(- 1) div word_of_nat base < r \<longleftrightarrow> (?L - 1) div base < unat r"
    by (simp add: word_less_nat_alt unat_div b unat_all_ones)
  show ?thesis
  proof (cases "(?L - 1) div base < unat r")
    case True
    then have "?L - 1 < unat r * base" using assms(2) by (simp add: div_less_iff_less_mult)
    then show ?thesis using True c1 by (simp add: mult.commute)
  next
    case False
    then have fits: "unat r * base \<le> ?L - 1" using assms(2) by (meson div_less_iff_less_mult not_le)
    then have "unat r * base < ?L" using L by linarith
    then have m: "unat (r * word_of_nat base) = unat r * base" using unat_mult_lem [of r "word_of_nat base"] unfolding b by blast
    have s: "unat (- 1 - word_of_nat d :: 'a word) = ?L - 1 - d"
      using assms by (simp add: unat_sub word_le_nat_alt b unat_all_ones)
    have "digit_exceeds r base (- 1) d \<longleftrightarrow> ?L - 1 - d < unat r * base"
    proof (cases "LENGTH('a) < 32")
      case True
      have "int (?L - 1) - int d = int (?L - 1 - d)" using assms(1,3) by (simp add: of_nat_diff)
      moreover have "int (unat r) * int base = int (unat r * base)" by simp
      ultimately show ?thesis using True
        by (simp only: digit_exceeds_def if_True uint_nat unat_all_ones of_nat_less_iff)
    next
      case False
      then show ?thesis by (simp add: digit_exceeds_def word_less_nat_alt m s)
    qed
    then show ?thesis using c1 False assms fits by (auto simp: mult.commute)
  qed
qed

lemma integer_loop_value:
  assumes "base = 10 \<or> base = 16" "8 \<le> LENGTH('a::len)" "n < 2 ^ LENGTH('a)"
  shows "integer_loop False base text ds (word_of_nat n :: 'a word) =
    (case digits_value base ds n of
       Some m \<Rightarrow> if m < 2 ^ LENGTH('a) then Inr (word_of_nat m) else Inl (incorrect_argument_type text)
     | None \<Rightarrow> Inl (incorrect_argument_type text))"
  using assms(3)
proof (induction ds arbitrary: n)
  case (Cons c ds)
  have "(2::nat) ^ 8 \<le> 2 ^ LENGTH('a)" using assms(2) by (intro power_increasing) simp_all
  then have b: "base < 2 ^ LENGTH('a)" "0 < base" using assms(1) by auto
  show ?case
  proof (cases "int_digit base c")
    case (Some d)
    have d: "d < base" using int_digit_less [OF Some assms(1)] .
    note fails = digit_checks [OF b d, of "word_of_nat n", unfolded unat_of_small [OF Cons.prems]]
    show ?thesis
    proof (cases "base * n + d < 2 ^ LENGTH('a)")
      case True
      have "(word_of_nat n * word_of_nat base + word_of_nat d :: 'a word) = word_of_nat (base * n + d)" by (simp add: mult.commute)
      then show ?thesis using Cons.IH [OF True] fails True Some by (simp add: Let_def mult.commute)
    next
      case False
      then have "integer_loop False base text (c # ds) (word_of_nat n :: 'a word) = Inl (incorrect_argument_type text)"
        using fails Some by (auto simp: Let_def)
      moreover have "\<not> m < 2 ^ LENGTH('a)" if "digits_value base ds (base * n + d) = Some m" for m
        using digits_value_mono [OF b(2) that] False by linarith
      ultimately show ?thesis using Some by (simp split: option.splits)
    qed
  qed simp
qed simp

lemma int_digit_alnum: "int_digit base c \<noteq> None \<Longrightarrow> is_alnum c"
  by (auto simp: int_digit_def is_alnum_def is_digit_def Let_def split: if_splits)

lemma digits_value_alnum: "\<not> list_all is_alnum ds \<Longrightarrow> digits_value base ds n = None"
  using int_digit_alnum by (induction ds arbitrary: n) (auto split: option.splits)

lemma digit_sign: "int_digit base (CHR ''-'') = None"
  by (simp add: int_digit_def Let_def)

lemma integer_parser_negative:
  assumes "take 1 text = ''-''"
  shows "integer_parser text = (Inl (incorrect_argument_type text) :: 'a::len word opt_res)"
proof -
  have loop: "obind (integer_loop True base text ds r) (\<lambda>_. Inl (incorrect_argument_type text)) = (Inl (incorrect_argument_type text) :: 'a word opt_res)" for base ds and r :: "'a word"
    by (induction ds arbitrary: r) (auto simp: Let_def split: option.splits)
  have "SplitInteger text = Inl (incorrect_argument_type text) \<or> (\<exists>d. SplitInteger text = Inr d \<and> id_negative d = ''-'')"
    using assms by (simp add: SplitInteger_def Let_def)
  then show ?thesis by (auto simp: integer_parser_def loop)
qed

lemma integer_parser_value:
  assumes "8 \<le> LENGTH('a::len)"
  shows "(integer_parser text :: 'a word opt_res) =
    (case numeral_value text of
       Some n \<Rightarrow> if n < 2 ^ LENGTH('a) then Inr (word_of_nat n) else Inl (incorrect_argument_type text)
     | None \<Rightarrow> Inl (incorrect_argument_type text))"
proof (cases "take 1 text = ''-''")
  case True
  then obtain ds where t: "text = CHR ''-'' # ds" by (cases "text") auto
  then show ?thesis using integer_parser_negative [OF True] by (simp add: numeral_value_def digit_sign)
next
  case False
  have loop: "integer_loop False base text ds (0 :: 'a word) = (case digits_value base ds 0 of
       Some m \<Rightarrow> if m < 2 ^ LENGTH('a) then Inr (word_of_nat m) else Inl (incorrect_argument_type text)
     | None \<Rightarrow> Inl (incorrect_argument_type text))" if "base = 10 \<or> base = 16" for base ds
    using integer_loop_value [OF that assms, of 0 "text" ds] by simp
  show ?thesis
  proof (cases "take 2 text = ''0x'' \<and> drop 2 text \<noteq> []")
    case hex: True
    then have "text \<noteq> []" by auto
    moreover have "list_all is_alnum (take 2 text)" using hex by (simp add: is_alnum_def is_digit_def)
    then have "list_all is_alnum text \<longleftrightarrow> list_all is_alnum (drop 2 text)"
      by (metis append_take_drop_id list_all_append)
    ultimately show ?thesis using False hex loop [of 16 "drop 2 text"] digits_value_alnum [of "drop 2 text" 16 0]
      by (cases "list_all is_alnum (drop 2 text)") (simp_all add: integer_parser_def SplitInteger_def numeral_value_def split: option.splits)
  next
    case dec: False
    show ?thesis
      using False dec loop [of 10 "text"] digits_value_alnum [of "text" 10 0]
      by (cases "text \<noteq> [] \<and> list_all is_alnum text") (auto simp: integer_parser_def SplitInteger_def numeral_value_def split: option.splits)
  qed
qed

text \<open>C40. The parser of unsigned options accepts exactly the numerals that fit.  For a type of at least eight
  bits the text of an option is taken if and only if it is a decimal numeral, or a hexadecimal one behind
  \<open>0x\<close>, whose value is below two to the width; the result is that value, never wrapped, although the checks in
  the loop use arithmetic of the same width.  Every other text, with a sign for example, is refused.\<close>

theorem integer_parser_exact:
  assumes "8 \<le> LENGTH('a::len)"
  shows "(integer_parser text :: 'a word opt_res) =
    (case numeral_value text of
       Some n \<Rightarrow> if n < 2 ^ LENGTH('a) then Inr (word_of_nat n) else Inl (incorrect_argument_type text)
     | None \<Rightarrow> Inl (incorrect_argument_type text))"
  using integer_parser_value [OF assms] .

theorem integer_parser_exact_witness:
  "(integer_parser ''65535'' :: u16 opt_res) = Inr 65535 \<and> (integer_parser ''65536'' :: u16 opt_res) = Inl (incorrect_argument_type ''65536'')
    \<and> (integer_parser ''0xfF'' :: u32 opt_res) = Inr 255"
proof -
  have "numeral_value ''65535'' = Some 65535" "numeral_value ''65536'' = Some 65536" "numeral_value ''0xfF'' = Some 255"
    by (simp_all add: numeral_value_def int_digit_def)
  then show ?thesis
    using integer_parser_exact [where 'a = 16, of "''65535''"] integer_parser_exact [where 'a = 16, of "''65536''"]
      integer_parser_exact [where 'a = 32, of "''0xfF''"] by simp
qed

section \<open>Values\<close>

text \<open>The contents of a \<open>standard_value<T>\<close>, for the types \<open>T\<close> of the relay's options
  (\<open>size_t\<close> is \<open>uint64_t\<close>).\<close>

datatype stored = SBool bool | SString string | SU16 u16 | SU32 u32 | SU64 u64 | SStrings "string list"

text \<open>\<open>std::getline\<close> until the end of the text: a delimiter at the end is not followed by an empty token.\<close>

definition getline_tokens :: "string \<Rightarrow> string list" where
  "getline_tokens s = (let ts = split_on (CHR '','') s in if List.last ts = [] then butlast ts else ts)"

definition parse_value :: "string \<Rightarrow> stored \<Rightarrow> stored opt_res" where
  "parse_value text store = (case store of
      SBool _ \<Rightarrow> if IsTrueText text then Inr (SBool True) else if IsFalseText text then Inr (SBool False)
        else Inl (incorrect_argument_type text)
    | SString _ \<Rightarrow> Inr (SString text)
    | SU16 _ \<Rightarrow> obind (integer_parser text) (\<lambda>v. Inr (SU16 v))
    | SU32 _ \<Rightarrow> obind (integer_parser text) (\<lambda>v. Inr (SU32 v))
    | SU64 _ \<Rightarrow> obind (integer_parser text) (\<lambda>v. Inr (SU64 v))
    | SStrings vs \<Rightarrow> Inr (SStrings (vs @ (if text = [] then [[]] else getline_tokens text))))"

definition add_value :: "string \<Rightarrow> stored \<Rightarrow> stored opt_res" where
  "add_value text store = (case store of SStrings vs \<Rightarrow> Inr (SStrings (vs @ [text])) | _ \<Rightarrow> parse_value text store)"

text \<open>\<open>std::make_shared<T>()\<close>\<close>

primrec fresh :: "stored \<Rightarrow> stored" where
  "fresh (SBool _) = SBool False"
| "fresh (SString _) = SString []"
| "fresh (SU16 _) = SU16 0"
| "fresh (SU32 _) = SU32 0"
| "fresh (SU64 _) = SU64 0"
| "fresh (SStrings _) = SStrings []"

record standard_value =
  m_store :: stored
  m_has_default :: bool
  m_has_implicit :: bool
  m_default_value :: string
  m_implicit_value :: string

definition is_container :: "standard_value \<Rightarrow> bool" where
  "is_container v = (case m_store v of SStrings _ \<Rightarrow> True | _ \<Rightarrow> False)"

definition standard_value_make :: "stored \<Rightarrow> standard_value" where
  "standard_value_make t = (case t of
      SBool _ \<Rightarrow> \<lparr>m_store = fresh t, m_has_default = True, m_has_implicit = True, m_default_value = ''false'', m_implicit_value = ''true''\<rparr>
    | _ \<Rightarrow> \<lparr>m_store = fresh t, m_has_default = False, m_has_implicit = False, m_default_value = '''', m_implicit_value = ''''\<rparr>)"

definition default_value :: "string \<Rightarrow> standard_value \<Rightarrow> standard_value" where
  "default_value text v = v\<lparr>m_has_default := True, m_default_value := text\<rparr>"

definition clone :: "standard_value \<Rightarrow> standard_value" where
  "clone v = v\<lparr>m_store := fresh (m_store v)\<rparr>"

text \<open>\<open>add(text)\<close>, \<open>parse(text)\<close> and \<open>parse()\<close> of a value.\<close>

definition value_add :: "string \<Rightarrow> standard_value \<Rightarrow> standard_value opt_res" where
  "value_add text v = obind (add_value text (m_store v)) (\<lambda>s. Inr (v\<lparr>m_store := s\<rparr>))"

definition value_parse :: "string \<Rightarrow> standard_value \<Rightarrow> standard_value opt_res" where
  "value_parse text v = obind (parse_value text (m_store v)) (\<lambda>s. Inr (v\<lparr>m_store := s\<rparr>))"

definition value_parse_default :: "standard_value \<Rightarrow> standard_value opt_res" where
  "value_parse_default v = value_parse (m_default_value v) v"

section \<open>Option specifications\<close>

record OptionDetails =
  m_short :: string
  m_long :: "string list"
  m_value :: standard_value

definition first_or_empty :: "string list \<Rightarrow> string" where
  "first_or_empty names = (case names of [] \<Rightarrow> [] | n # _ \<Rightarrow> n)"

definition essential_name :: "OptionDetails \<Rightarrow> string" where
  "essential_name d = (if m_long d = [] then m_short d else hd (m_long d))"

definition details_hash :: "(string \<Rightarrow> u64) \<Rightarrow> OptionDetails \<Rightarrow> u64" where
  "details_hash hash d = hash (first_or_empty (m_long d) @ m_short d)"

type_synonym OptionMap = "(string \<times> OptionDetails) list"

definition add_one_option :: "OptionDetails \<Rightarrow> string \<Rightarrow> OptionMap \<Rightarrow> OptionMap opt_res" where
  "add_one_option details option options =
     (case map_of options option of None \<Rightarrow> Inr (options @ [(option, details)]) | Some _ \<Rightarrow> Inl (option_already_exists option))"

definition add_option :: "string \<Rightarrow> string list \<Rightarrow> standard_value \<Rightarrow> OptionMap \<Rightarrow> OptionMap opt_res" where
  "add_option s l v options =
     (let details = \<lparr>m_short = s, m_long = l, m_value = v\<rparr> in
      ofold (add_one_option details) ((if s \<noteq> [] then [s] else []) @ l) options)"

text \<open>\<open>OptionAdder::operator()\<close>.  \<open>std::partition\<close> may reorder the long names of an option with several; the relay
  has none.\<close>

definition OptionAdder :: "string \<times> standard_value \<Rightarrow> OptionMap \<Rightarrow> OptionMap opt_res" where
  "OptionAdder spec options =
     obind (split_option_names (fst spec)) (\<lambda>option_names.
       let long = filter (\<lambda>n. 1 < length n) option_names; short = filter (\<lambda>n. \<not> 1 < length n) option_names in
       (case short of
          [] \<Rightarrow> add_option [] long (snd spec) options
        | [s] \<Rightarrow> add_option s long (snd spec) options
        | _ \<Rightarrow> Inl (invalid_option_format (fst spec))))"

definition add_options :: "(string \<times> standard_value) list \<Rightarrow> OptionMap \<Rightarrow> OptionMap opt_res" where
  "add_options = ofold OptionAdder"

section \<open>Parsed options\<close>

record OptionValue =
  ov_value :: "standard_value option"
  ov_count :: nat
  ov_default :: bool

definition OptionValue_init :: OptionValue where
  "OptionValue_init = \<lparr>ov_value = None, ov_count = 0, ov_default = False\<rparr>"

definition ensure_value :: "OptionDetails \<Rightarrow> OptionValue \<Rightarrow> standard_value" where
  "ensure_value details ov = (case ov_value ov of None \<Rightarrow> clone (m_value details) | Some v \<Rightarrow> v)"

definition OptionValue_add :: "OptionDetails \<Rightarrow> string \<Rightarrow> OptionValue \<Rightarrow> OptionValue opt_res" where
  "OptionValue_add details text ov =
     obind (value_add text (ensure_value details ov)) (\<lambda>v. Inr (ov\<lparr>ov_value := Some v, ov_count := Suc (ov_count ov)\<rparr>))"

definition OptionValue_parse :: "OptionDetails \<Rightarrow> string \<Rightarrow> OptionValue \<Rightarrow> OptionValue opt_res" where
  "OptionValue_parse details text ov =
     obind (value_parse text (ensure_value details ov)) (\<lambda>v. Inr (ov\<lparr>ov_value := Some v, ov_count := Suc (ov_count ov)\<rparr>))"

definition OptionValue_parse_default :: "OptionDetails \<Rightarrow> OptionValue \<Rightarrow> OptionValue opt_res" where
  "OptionValue_parse_default details ov =
     obind (value_parse_default (ensure_value details ov)) (\<lambda>v. Inr (ov\<lparr>ov_value := Some v, ov_default := True\<rparr>))"

text \<open>\<open>as<T>()\<close>: no value, a value of another type, the value.\<close>

definition OptionValue_as :: "(stored \<Rightarrow> 'a option) \<Rightarrow> OptionValue \<Rightarrow> 'a opt_res" where
  "OptionValue_as get ov = (case ov_value ov of
      None \<Rightarrow> Inl option_has_no_value
    | Some v \<Rightarrow> (case get (m_store v) of None \<Rightarrow> Inl bad_cast | Some x \<Rightarrow> Inr x))"

definition get_bool :: "stored \<Rightarrow> bool option" where "get_bool s = (case s of SBool x \<Rightarrow> Some x | _ \<Rightarrow> None)"
definition get_string :: "stored \<Rightarrow> string option" where "get_string s = (case s of SString x \<Rightarrow> Some x | _ \<Rightarrow> None)"
definition get_u16 :: "stored \<Rightarrow> u16 option" where "get_u16 s = (case s of SU16 x \<Rightarrow> Some x | _ \<Rightarrow> None)"
definition get_u32 :: "stored \<Rightarrow> u32 option" where "get_u32 s = (case s of SU32 x \<Rightarrow> Some x | _ \<Rightarrow> None)"
definition get_u64 :: "stored \<Rightarrow> u64 option" where "get_u64 s = (case s of SU64 x \<Rightarrow> Some x | _ \<Rightarrow> None)"
definition get_strings :: "stored \<Rightarrow> string list option" where "get_strings s = (case s of SStrings x \<Rightarrow> Some x | _ \<Rightarrow> None)"

lemmas get_defs = get_bool_def get_string_def get_u16_def get_u32_def get_u64_def get_strings_def

section \<open>The parser\<close>

record OptionParser =
  op_options :: OptionMap
  op_positional :: "string list"
  op_allow_unrecognised :: bool
  op_sequential :: "(string \<times> string) list"
  op_defaults :: "(string \<times> string) list"
  op_parsed :: "u64 \<rightharpoonup> OptionValue"
  op_keys :: "string \<rightharpoonup> u64"

text \<open>\<open>m_parsed[hash]\<close>: a missing entry is created.\<close>

definition parsed_at :: "OptionParser \<Rightarrow> u64 \<Rightarrow> OptionValue" where
  "parsed_at st k = (case op_parsed st k of None \<Rightarrow> OptionValue_init | Some ov \<Rightarrow> ov)"

definition parse_default :: "(string \<Rightarrow> u64) \<Rightarrow> OptionDetails \<Rightarrow> OptionParser \<Rightarrow> OptionParser opt_res" where
  "parse_default hash details st =
     (let k = details_hash hash details in
      obind (OptionValue_parse_default details (parsed_at st k)) (\<lambda>ov.
        Inr (st\<lparr>op_parsed := (op_parsed st)(k \<mapsto> ov),
               op_defaults := op_defaults st @ [(essential_name details, m_default_value (m_value details))]\<rparr>)))"

definition parse_option :: "(string \<Rightarrow> u64) \<Rightarrow> OptionDetails \<Rightarrow> string \<Rightarrow> OptionParser \<Rightarrow> OptionParser opt_res" where
  "parse_option hash details arg st =
     (let k = details_hash hash details in
      obind (OptionValue_parse details arg (parsed_at st k)) (\<lambda>ov.
        Inr (st\<lparr>op_parsed := (op_parsed st)(k \<mapsto> ov), op_sequential := op_sequential st @ [(essential_name details, arg)]\<rparr>)))"

definition add_to_option :: "(string \<Rightarrow> u64) \<Rightarrow> OptionDetails \<Rightarrow> string \<Rightarrow> OptionParser \<Rightarrow> OptionParser opt_res" where
  "add_to_option hash details arg st =
     (let k = details_hash hash details in
      obind (OptionValue_add details arg (parsed_at st k)) (\<lambda>ov.
        Inr (st\<lparr>op_parsed := (op_parsed st)(k \<mapsto> ov), op_sequential := op_sequential st @ [(essential_name details, arg)]\<rparr>)))"

text \<open>Whether the next argument was taken as the option's value is part of the result.\<close>

definition checked_parse_arg :: "(string \<Rightarrow> u64) \<Rightarrow> string list \<Rightarrow> OptionDetails \<Rightarrow> string \<Rightarrow> OptionParser \<Rightarrow> (OptionParser \<times> bool) opt_res" where
  "checked_parse_arg hash rest details name st =
     (if m_has_implicit (m_value details)
      then obind (parse_option hash details (m_implicit_value (m_value details)) st) (\<lambda>st. Inr (st, False))
      else case rest of
          [] \<Rightarrow> Inl (missing_argument name)
        | a # _ \<Rightarrow> obind (parse_option hash details a st) (\<lambda>st. Inr (st, True)))"

text \<open>The positional options that are left, the state, and whether the argument was consumed.\<close>

fun consume_positional :: "(string \<Rightarrow> u64) \<Rightarrow> string \<Rightarrow> string list \<Rightarrow> OptionParser \<Rightarrow> (string list \<times> OptionParser \<times> bool) opt_res" where
  "consume_positional hash a [] st = Inr ([], st, False)"
| "consume_positional hash a (n # next) st =
     (case map_of (op_options st) n of
        None \<Rightarrow> Inl (no_such_option n)
      | Some d \<Rightarrow>
          if \<not> is_container (m_value d) then
            (if ov_count (parsed_at st (details_hash hash d)) = 0
             then obind (add_to_option hash d a st) (\<lambda>st. Inr (next, st, True))
             else consume_positional hash a next st)
          else obind (add_to_option hash d a st) (\<lambda>st. Inr (n # next, st, True)))"

text \<open>A group of short options: the unmatched letters, the state, and whether the next argument was taken.\<close>

fun parse_group :: "(string \<Rightarrow> u64) \<Rightarrow> string list \<Rightarrow> string \<Rightarrow> string list \<Rightarrow> OptionParser \<Rightarrow> (string list \<times> OptionParser \<times> bool) opt_res" where
  "parse_group hash rest [] unmatched st = Inr (unmatched, st, False)"
| "parse_group hash rest (c # s) unmatched st =
     (case map_of (op_options st) [c] of
        None \<Rightarrow> if op_allow_unrecognised st then parse_group hash rest s (unmatched @ [[CHR ''-'', c]]) st
          else Inl (no_such_option [c])
      | Some d \<Rightarrow>
          if s = [] then obind (checked_parse_arg hash rest d [c] st) (\<lambda>(st, taken). Inr (unmatched, st, taken))
          else if m_has_implicit (m_value d)
            then obind (parse_option hash d (m_implicit_value (m_value d)) st) (parse_group hash rest s unmatched)
          else obind (parse_option hash d s st) (\<lambda>st. Inr (unmatched, st, False)))"

text \<open>One argument of the vector, \<open>rest\<close> being those after it.\<close>

definition parse_argument :: "(string \<Rightarrow> u64) \<Rightarrow> string \<Rightarrow> string list \<Rightarrow> string list \<Rightarrow> string list \<Rightarrow> OptionParser
    \<Rightarrow> (string list \<times> string list \<times> OptionParser \<times> bool) opt_res" where
  "parse_argument hash arg rest next unmatched st =
     (case ParseArgument arg of
        None \<Rightarrow>
          if take 1 arg = ''-'' \<and> drop 1 arg \<noteq> [] \<and> \<not> op_allow_unrecognised st then Inl (invalid_option_syntax arg)
          else obind (consume_positional hash arg next st) (\<lambda>(next, st, consumed).
                 Inr (next, if consumed then unmatched else unmatched @ [arg], st, False))
      | Some desc \<Rightarrow>
          if arg_grouping desc
          then obind (parse_group hash rest (arg_name desc) unmatched st) (\<lambda>(unmatched, st, taken). Inr (next, unmatched, st, taken))
          else (case map_of (op_options st) (arg_name desc) of
              None \<Rightarrow> if op_allow_unrecognised st then Inr (next, unmatched @ [arg], st, False)
                else Inl (no_such_option (arg_name desc))
            | Some d \<Rightarrow>
                if arg_set_value desc then obind (parse_option hash d (arg_value desc) st) (\<lambda>st. Inr (next, unmatched, st, False))
                else obind (checked_parse_arg hash rest d (arg_name desc) st) (\<lambda>(st, taken). Inr (next, unmatched, st, taken))))"

text \<open>The loop over the argument vector; the last component are the arguments behind \<open>--\<close>.\<close>

function parse_loop :: "(string \<Rightarrow> u64) \<Rightarrow> string list \<Rightarrow> string list \<Rightarrow> string list \<Rightarrow> OptionParser
    \<Rightarrow> (string list \<times> string list \<times> OptionParser \<times> string list) opt_res" where
  "parse_loop hash [] next unmatched st = Inr (next, unmatched, st, [])"
| "parse_loop hash (arg # rest) next unmatched st =
     (if arg = ''--'' then Inr (next, unmatched, st, rest)
      else obind (parse_argument hash arg rest next unmatched st) (\<lambda>(next, unmatched, st, taken).
             parse_loop hash (if taken then drop 1 rest else rest) next unmatched st))"
  by pat_completeness auto
termination by (relation "measure (\<lambda>(_, args, _). length args)") auto

definition default_or_none :: "(string \<Rightarrow> u64) \<Rightarrow> string \<times> OptionDetails \<Rightarrow> OptionParser \<Rightarrow> OptionParser opt_res" where
  "default_or_none hash opt st =
     (let k = details_hash hash (snd opt); ov = parsed_at st k; st = st\<lparr>op_parsed := (op_parsed st)(k \<mapsto> ov)\<rparr> in
      if m_has_default (m_value (snd opt)) \<and> ov_count ov = 0 \<and> \<not> ov_default ov then parse_default hash (snd opt) st else Inr st)"

text \<open>The arguments behind \<open>--\<close>: positional ones while they are consumed.\<close>

fun parse_remaining :: "(string \<Rightarrow> u64) \<Rightarrow> string list \<Rightarrow> string list \<Rightarrow> string list \<Rightarrow> OptionParser \<Rightarrow> (string list \<times> OptionParser) opt_res" where
  "parse_remaining hash [] next unmatched st = Inr (unmatched, st)"
| "parse_remaining hash (a # rest) next unmatched st =
     obind (consume_positional hash a next st) (\<lambda>(next, st, consumed).
       if consumed then parse_remaining hash rest next unmatched st else Inr (unmatched @ a # rest, st))"

definition finalise_alias :: "(string \<Rightarrow> u64) \<Rightarrow> string \<times> OptionDetails \<Rightarrow> OptionParser \<Rightarrow> OptionParser" where
  "finalise_alias hash opt st =
     (let d = snd opt; k = details_hash hash d in
      st\<lparr>op_keys := fold (\<lambda>n m. m(n \<mapsto> k)) (m_short d # m_long d) (op_keys st), op_parsed := (op_parsed st)(k \<mapsto> parsed_at st k)\<rparr>)"

record ParseResult =
  pr_keys :: "string \<rightharpoonup> u64"
  pr_values :: "u64 \<rightharpoonup> OptionValue"
  pr_sequential :: "(string \<times> string) list"
  pr_defaults :: "(string \<times> string) list"
  pr_unmatched :: "string list"

definition OptionParser_init :: "OptionMap \<Rightarrow> string list \<Rightarrow> bool \<Rightarrow> OptionParser" where
  "OptionParser_init options positional allow_unrecognised = \<lparr>op_options = options, op_positional = positional,
     op_allow_unrecognised = allow_unrecognised, op_sequential = [], op_defaults = [], op_parsed = Map.empty, op_keys = Map.empty\<rparr>"

text \<open>\<open>OptionParser::parse\<close>; \<open>args\<close> are the arguments after the program's name.\<close>

definition OptionParser_parse :: "(string \<Rightarrow> u64) \<Rightarrow> string list \<Rightarrow> OptionParser \<Rightarrow> ParseResult opt_res" where
  "OptionParser_parse hash args st =
     obind (parse_loop hash args (op_positional st) [] st) (\<lambda>(next, unmatched, st, remaining).
     obind (ofold (default_or_none hash) (op_options st) st) (\<lambda>st.
     obind (parse_remaining hash remaining next unmatched st) (\<lambda>(unmatched, st).
       let st = fold (finalise_alias hash) (op_options st) st in
       Inr \<lparr>pr_keys = op_keys st, pr_values = op_parsed st, pr_sequential = op_sequential st,
            pr_defaults = op_defaults st, pr_unmatched = unmatched\<rparr>)))"

definition PR_count :: "ParseResult \<Rightarrow> string \<Rightarrow> nat" where
  "PR_count pr o' = (case pr_keys pr o' of None \<Rightarrow> 0 | Some k \<Rightarrow>
     (case pr_values pr k of None \<Rightarrow> 0 | Some ov \<Rightarrow> ov_count ov))"

definition PR_at :: "ParseResult \<Rightarrow> string \<Rightarrow> OptionValue opt_res" where
  "PR_at pr option = (case pr_keys pr option of None \<Rightarrow> Inl (requested_option_not_present option) | Some k \<Rightarrow>
     (case pr_values pr k of None \<Rightarrow> Inl (requested_option_not_present option) | Some ov \<Rightarrow> Inr ov))"

section \<open>What a command line leaves behind\<close>

text \<open>Both passes of the parser go over a list and change, for each element, the entry of one key only.\<close>

locale keyed_loop =
  fixes f :: "'x \<Rightarrow> OptionParser \<Rightarrow> OptionParser opt_res" and g :: "'x \<Rightarrow> OptionValue \<Rightarrow> OptionValue opt_res" and key :: "'x \<Rightarrow> u64"
  assumes step_fails: "g x (parsed_at st (key x)) = Inl e \<Longrightarrow> f x st = Inl e"
    and step_works: "g x (parsed_at st (key x)) = Inr ov \<Longrightarrow>
      \<exists>st'. f x st = Inr st' \<and> parsed_at st' = (parsed_at st)(key x := ov) \<and> op_options st' = op_options st"
begin

lemma loop_value:
  assumes "ofold f xs st = Inr st'"
  shows "op_options st' = op_options st \<and> ofold g (filter (\<lambda>x. key x = k) xs) (parsed_at st k) = Inr (parsed_at st' k)"
  using assms
proof (induction xs arbitrary: st)
  case (Cons x xs)
  then obtain st1 where st1: "f x st = Inr st1" "ofold f xs st1 = Inr st'" by (auto simp: obind_Inr_iff)
  then obtain ov where ov: "g x (parsed_at st (key x)) = Inr ov"
    using step_fails by (cases "g x (parsed_at st (key x))") fastforce+
  then have "parsed_at st1 = (parsed_at st)(key x := ov)" "op_options st1 = op_options st"
    using step_works [OF ov] st1(1) by auto
  then show ?case using Cons.IH [OF st1(2)] ov by auto
qed simp

lemma loop_works:
  assumes "\<And>k. \<exists>ov. ofold g (filter (\<lambda>x. key x = k) xs) (parsed_at st k) = Inr ov"
  shows "\<exists>st'. ofold f xs st = Inr st'"
  using assms
proof (induction xs arbitrary: st)
  case (Cons x xs)
  obtain ov where ov: "g x (parsed_at st (key x)) = Inr ov"
    using Cons.prems [of "key x"] by (auto simp: obind_Inr_iff)
  then obtain st1 where st1: "f x st = Inr st1" "parsed_at st1 = (parsed_at st)(key x := ov)" using step_works by blast
  have "\<exists>ov. ofold g (filter (\<lambda>x. key x = k) xs) (parsed_at st1 k) = Inr ov" for k
    using Cons.prems [of k] ov st1(2) by (auto split: if_splits)
  then show ?case using Cons.IH st1(1) by simp
qed simp

end

definition settle :: "OptionDetails \<Rightarrow> OptionValue \<Rightarrow> OptionValue opt_res" where
  "settle d ov = (if m_has_default (m_value d) \<and> ov_count ov = 0 \<and> \<not> ov_default ov then OptionValue_parse_default d ov else Inr ov)"

lemma parsed_at_upd [simp]: "parsed_at (st\<lparr>op_parsed := (op_parsed st)(k \<mapsto> ov)\<rparr>) = (parsed_at st)(k := ov)"
  "parsed_at (st\<lparr>op_parsed := m, op_sequential := q\<rparr>) = parsed_at (st\<lparr>op_parsed := m\<rparr>)"
  "parsed_at (st\<lparr>op_parsed := m, op_defaults := q\<rparr>) = parsed_at (st\<lparr>op_parsed := m\<rparr>)"
  "parsed_at (st\<lparr>op_parsed := m, op_keys := q'\<rparr>) = parsed_at (st\<lparr>op_parsed := m\<rparr>)"
  by (auto simp: parsed_at_def fun_eq_iff)

interpretation given: keyed_loop "\<lambda>r. parse_option hash (fst r) (snd r)" "\<lambda>r. OptionValue_parse (fst r) (snd r)" "\<lambda>r. details_hash hash (fst r)" for hash
  by unfold_locales (simp_all add: parse_option_def Let_def)

interpretation defaults: keyed_loop "default_or_none hash" "\<lambda>opt. settle (snd opt)" "\<lambda>opt. details_hash hash (snd opt)" for hash
  by unfold_locales (auto simp: default_or_none_def parse_default_def settle_def Let_def parsed_at_def fun_upd_idem_iff obind_Inr_iff split: if_splits option.splits)

text \<open>A table as \<open>add_options\<close> builds it, with a hash that tells its options apart.\<close>

definition option_names :: "OptionDetails \<Rightarrow> string list" where
  "option_names d = filter (\<lambda>n. n \<noteq> []) (m_short d # m_long d)"

definition table_ok :: "(string \<Rightarrow> u64) \<Rightarrow> OptionMap \<Rightarrow> bool" where
  "table_ok hash options \<longleftrightarrow> distinct (map fst options) \<and> inj_on (details_hash hash) (snd ` set options)
     \<and> (\<forall>(n, d) \<in> set options. n \<in> set (option_names d)) \<and> (\<forall>(_, d) \<in> set options. \<forall>n \<in> set (option_names d). (n, d) \<in> set options)"

text \<open>An argument that is one long option of the table: \<open>--name=text\<close>, or \<open>--name\<close> where the option has an implicit text.\<close>

definition arg_reads :: "OptionMap \<Rightarrow> string \<Rightarrow> OptionDetails \<times> string \<Rightarrow> bool" where
  "arg_reads options arg r \<longleftrightarrow> (case ParseArgument arg of None \<Rightarrow> False | Some desc \<Rightarrow>
     \<not> arg_grouping desc \<and> map_of options (arg_name desc) = Some (fst r)
     \<and> (if arg_set_value desc then snd r = arg_value desc
        else m_has_implicit (m_value (fst r)) \<and> snd r = m_implicit_value (m_value (fst r))))"

definition texts_for :: "OptionDetails \<Rightarrow> (OptionDetails \<times> string) list \<Rightarrow> string list" where
  "texts_for d reqs = map snd (filter (\<lambda>r. fst r = d) reqs)"

text \<open>What the texts given for an option make of it: they are parsed in their order, and without any the default counts.\<close>

definition read_option :: "OptionDetails \<Rightarrow> string list \<Rightarrow> OptionValue opt_res" where
  "read_option d texts = (if texts \<noteq> [] then ofold (OptionValue_parse d) texts OptionValue_init
     else if m_has_default (m_value d) then OptionValue_parse_default d OptionValue_init else Inr OptionValue_init)"

lemma parse_loop_long:
  assumes "list_all2 (arg_reads (op_options st)) args reqs"
  shows "parse_loop hash args next unmatched st =
    obind (ofold (\<lambda>r. parse_option hash (fst r) (snd r)) reqs st) (\<lambda>st. Inr (next, unmatched, st, []))"
  using assms
proof (induction reqs arbitrary: args st rule: list.induct)
  case (Cons r reqs)
  obtain arg args' where args: "args = arg # args'" "arg_reads (op_options st) arg r" "list_all2 (arg_reads (op_options st)) args' reqs"
    using Cons.prems by (auto simp: list_all2_Cons2)
  have "ParseArgument ''--'' = None" by (simp add: ParseArgument_def)
  then have "arg \<noteq> ''--''" using args(2) by (auto simp: arg_reads_def)
  moreover have "parse_argument hash arg args' next unmatched st =
      obind (parse_option hash (fst r) (snd r) st) (\<lambda>st. Inr (next, unmatched, st, False))"
  proof -
    obtain desc where desc: "ParseArgument arg = Some desc" "\<not> arg_grouping desc" "map_of (op_options st) (arg_name desc) = Some (fst r)"
      "if arg_set_value desc then snd r = arg_value desc else m_has_implicit (m_value (fst r)) \<and> snd r = m_implicit_value (m_value (fst r))"
      using args(2) unfolding arg_reads_def by (cases "ParseArgument arg") simp_all
    show ?thesis
    proof (cases "arg_set_value desc")
      case True
      then show ?thesis using desc by (simp add: parse_argument_def)
    next
      case False
      then show ?thesis using desc by (cases "parse_option hash (fst r) (snd r) st") (simp_all add: parse_argument_def checked_parse_arg_def)
    qed
  qed
  moreover have "op_options st' = op_options st" if "parse_option hash (fst r) (snd r) st = Inr st'" for st'
    using that by (auto simp: parse_option_def Let_def obind_Inr_iff)
  ultimately show ?case using Cons.IH args by (cases "parse_option hash (fst r) (snd r) st") simp_all
qed simp

lemma OptionValue_parse_count:
  "ofold (OptionValue_parse d) texts ov = Inr ov' \<Longrightarrow> ov_count ov' = ov_count ov + length texts \<and> ov_default ov' = ov_default ov"
proof (induction texts arbitrary: ov)
  case (Cons t texts)
  then obtain ov1 where "OptionValue_parse d t ov = Inr ov1" "ofold (OptionValue_parse d) texts ov1 = Inr ov'" by (auto simp: obind_Inr_iff)
  moreover have "ov_count ov1 = Suc (ov_count ov) \<and> ov_default ov1 = ov_default ov"
    using calculation(1) by (auto simp: OptionValue_parse_def obind_Inr_iff)
  ultimately show ?case using Cons.IH [of ov1] by simp
qed simp

lemma read_option_alt: "read_option d texts = obind (ofold (OptionValue_parse d) texts OptionValue_init) (settle d)"
proof (cases "ofold (OptionValue_parse d) texts OptionValue_init")
  case (Inr ov)
  then show ?thesis using OptionValue_parse_count [OF Inr] by (auto simp: read_option_def settle_def OptionValue_init_def)
qed (auto simp: read_option_def)

lemma settle_again: "settle d ov = Inr ov' \<Longrightarrow> settle d ov' = Inr ov'"
  by (auto simp: settle_def OptionValue_parse_default_def obind_Inr_iff split: if_splits)

lemma settle_all: "opts \<noteq> [] \<Longrightarrow> \<forall>opt \<in> set opts. snd opt = d \<Longrightarrow> ofold (\<lambda>opt. settle (snd opt)) opts ov = settle d ov"
proof (induction opts arbitrary: ov)
  case (Cons opt opts)
  show ?case
  proof (cases "opts = []")
    case True
    then show ?thesis using Cons.prems by (cases "settle d ov") simp_all
  next
    case False
    then show ?thesis using Cons.IH [OF False] Cons.prems(2) settle_again by (cases "settle d ov") auto
  qed
qed simp

lemma alias_keys: "fold (\<lambda>n m. m(n \<mapsto> k)) ns m x = (if x \<in> set ns then Some k else m x)"
  by (induction ns arbitrary: m) auto

lemma finalise_parsed: "parsed_at (fold (finalise_alias hash) opts st) = parsed_at st
  \<and> (\<forall>opt \<in> set opts. op_parsed (fold (finalise_alias hash) opts st) (details_hash hash (snd opt)) \<noteq> None)
  \<and> (\<forall>k. op_parsed st k \<noteq> None \<longrightarrow> op_parsed (fold (finalise_alias hash) opts st) k \<noteq> None)"
proof (induction opts arbitrary: st)
  case (Cons opt opts)
  have "parsed_at (finalise_alias hash opt st) = parsed_at st" by (rule ext) (simp add: finalise_alias_def Let_def parsed_at_def split: option.splits)
  moreover have "op_parsed (finalise_alias hash opt st) k \<noteq> None" if "op_parsed st k \<noteq> None \<or> k = details_hash hash (snd opt)" for k
    using that by (auto simp: finalise_alias_def Let_def)
  ultimately show ?case using Cons [of "finalise_alias hash opt st"] by simp
qed simp

lemma finalise_keys:
  assumes "\<forall>opt \<in> set opts. n \<in> set (m_short (snd opt) # m_long (snd opt)) \<longrightarrow> details_hash hash (snd opt) = k"
    and "op_keys st n = Some k \<or> (\<exists>opt \<in> set opts. n \<in> set (m_short (snd opt) # m_long (snd opt)))"
  shows "op_keys (fold (finalise_alias hash) opts st) n = Some k"
  using assms
proof (induction opts arbitrary: st)
  case (Cons opt opts)
  have "op_keys (finalise_alias hash opt st) n = (if n \<in> set (m_short (snd opt) # m_long (snd opt)) then Some (details_hash hash (snd opt)) else op_keys st n)"
    by (auto simp: finalise_alias_def Let_def alias_keys)
  then show ?case using Cons by (auto split: if_splits)
qed simp

lemma table_inj:
  assumes "table_ok hash options" "d \<in> snd ` set options" "e \<in> snd ` set options"
  shows "details_hash hash e = details_hash hash d \<longleftrightarrow> e = d"
  using assms unfolding table_ok_def by (meson inj_onD)

lemma table_details:
  assumes "table_ok hash options" "(n, d) \<in> set options" "fst ` set reqs \<subseteq> snd ` set options"
  shows "filter (\<lambda>r. details_hash hash (fst r) = details_hash hash d) reqs = filter (\<lambda>r. fst r = d) reqs"
proof (rule filter_cong [OF refl])
  fix r
  assume "r \<in> set reqs"
  then have "fst r \<in> snd ` set options" "d \<in> snd ` set options" using assms(2,3) by force+
  then show "details_hash hash (fst r) = details_hash hash d \<longleftrightarrow> fst r = d" using table_inj [OF assms(1)] by blast
qed

lemma given_texts: "ofold (\<lambda>r. OptionValue_parse (fst r) (snd r)) (filter (\<lambda>r. fst r = d) reqs) ov = ofold (OptionValue_parse d) (texts_for d reqs) ov"
proof (induction reqs arbitrary: ov)
  case (Cons r reqs)
  then show ?case by (cases "OptionValue_parse d (snd r) ov") (simp_all add: texts_for_def)
qed (simp add: texts_for_def)

lemma table_defaults:
  assumes "table_ok hash options" "(n, d) \<in> set options"
  shows "ofold (\<lambda>opt. settle (snd opt)) (filter (\<lambda>opt. details_hash hash (snd opt) = details_hash hash d) options) ov = settle d ov"
proof (rule settle_all)
  show "filter (\<lambda>opt. details_hash hash (snd opt) = details_hash hash d) options \<noteq> []"
    using assms(2) unfolding filter_empty_conv by force
  show "\<forall>opt \<in> set (filter (\<lambda>opt. details_hash hash (snd opt) = details_hash hash d) options). snd opt = d"
  proof
    fix opt
    assume "opt \<in> set (filter (\<lambda>opt. details_hash hash (snd opt) = details_hash hash d) options)"
    then have "snd opt \<in> snd ` set options" "d \<in> snd ` set options" "details_hash hash (snd opt) = details_hash hash d" using assms(2) by force+
    then show "snd opt = d" using table_inj [OF assms(1)] by blast
  qed
qed

lemma reads_in_table:
  assumes "list_all2 (arg_reads options) args reqs"
  shows "fst ` set reqs \<subseteq> snd ` set options"
proof -
  have "fst r \<in> snd ` set options" if "arg_reads options arg r" for arg r
    using that by (auto simp: arg_reads_def split: option.splits dest!: map_of_SomeD) force
  with assms show ?thesis by (induction rule: list_all2_induct) auto
qed

text \<open>The two passes on a fresh parser: every option is read from its texts.\<close>

lemma passes_value:
  assumes "table_ok hash options" and "list_all2 (arg_reads options) args reqs"
    and "ofold (\<lambda>r. parse_option hash (fst r) (snd r)) reqs (OptionParser_init options pos allow) = Inr st1"
    and "ofold (default_or_none hash) options st1 = Inr st2" and "(n, d) \<in> set options"
  shows "read_option d (texts_for d reqs) = Inr (parsed_at st2 (details_hash hash d)) \<and> op_options st2 = options"
proof -
  let ?k = "details_hash hash d"
  have init: "parsed_at (OptionParser_init options pos allow) ?k = OptionValue_init" by (simp add: parsed_at_def OptionParser_init_def)
  have "ofold (OptionValue_parse d) (texts_for d reqs) OptionValue_init = Inr (parsed_at st1 ?k)" "op_options st1 = options"
    using given.loop_value [OF assms(3), of ?k] unfolding init table_details [OF assms(1,5) reads_in_table [OF assms(2)]] given_texts
    by (simp_all add: OptionParser_init_def)
  moreover have "settle d (parsed_at st1 ?k) = Inr (parsed_at st2 ?k)" "op_options st2 = op_options st1"
    using defaults.loop_value [OF assms(4), of ?k] unfolding table_defaults [OF assms(1,5)] by simp_all
  ultimately show ?thesis by (simp add: read_option_alt)
qed

lemma read_option_count: "read_option d texts = Inr ov \<Longrightarrow> ov_count ov = length texts"
  using OptionValue_parse_count [of d texts OptionValue_init ov]
  by (auto simp: read_option_def OptionValue_init_def OptionValue_parse_default_def obind_Inr_iff split: if_splits)

lemma passes_work:
  assumes "table_ok hash options" and "list_all2 (arg_reads options) args reqs"
    and ok: "\<forall>(n, d) \<in> set options. \<exists>ov. read_option d (texts_for d reqs) = Inr ov"
  shows "\<exists>st1 st2. ofold (\<lambda>r. parse_option hash (fst r) (snd r)) reqs (OptionParser_init options pos allow) = Inr st1
    \<and> ofold (default_or_none hash) options st1 = Inr st2"
proof -
  let ?st = "OptionParser_init options pos allow"
  have init: "parsed_at ?st k = OptionValue_init" for k by (simp add: parsed_at_def OptionParser_init_def)
  note sub = reads_in_table [OF assms(2)]
  have "\<exists>ov. ofold (\<lambda>r. OptionValue_parse (fst r) (snd r)) (filter (\<lambda>r. details_hash hash (fst r) = k) reqs) (parsed_at ?st k) = Inr ov" for k
  proof (cases "\<exists>(n, d) \<in> set options. details_hash hash d = k")
    case True
    then obtain n d where d: "(n, d) \<in> set options" "details_hash hash d = k" by auto
    then obtain ov where "read_option d (texts_for d reqs) = Inr ov" using ok by blast
    then show ?thesis using table_details [OF assms(1) d(1) sub] unfolding d(2) init by (auto simp: given_texts read_option_alt obind_Inr_iff)
  next
    case False
    then have "details_hash hash e \<noteq> k" if "e \<in> snd ` set options" for e using that by auto
    then have "details_hash hash (fst r) \<noteq> k" if "r \<in> set reqs" for r using sub that by blast
    then have "filter (\<lambda>r. details_hash hash (fst r) = k) reqs = []" by (simp add: filter_empty_conv)
    then show ?thesis by simp
  qed
  then obtain st1 where st1: "ofold (\<lambda>r. parse_option hash (fst r) (snd r)) reqs ?st = Inr st1" using given.loop_works by blast
  have "\<exists>ov. ofold (\<lambda>opt. settle (snd opt)) (filter (\<lambda>opt. details_hash hash (snd opt) = k) options) (parsed_at st1 k) = Inr ov" for k
  proof (cases "\<exists>(n, d) \<in> set options. details_hash hash d = k")
    case True
    then obtain n d where d: "(n, d) \<in> set options" "details_hash hash d = k" by auto
    then obtain ov where "read_option d (texts_for d reqs) = Inr ov" using ok by blast
    moreover have "ofold (OptionValue_parse d) (texts_for d reqs) OptionValue_init = Inr (parsed_at st1 k)"
      using given.loop_value [OF st1, of k] table_details [OF assms(1) d(1) sub] unfolding d(2) init by (simp add: given_texts)
    ultimately have "settle d (parsed_at st1 k) = Inr ov" by (simp add: read_option_alt)
    then show ?thesis using table_defaults [OF assms(1) d(1)] d(2) by auto
  next
    case False
    then have "filter (\<lambda>opt. details_hash hash (snd opt) = k) options = []" by (auto simp: filter_empty_conv)
    then show ?thesis by simp
  qed
  then show ?thesis using defaults.loop_works st1 by blast
qed

lemma finalised_result:
  assumes "table_ok hash options" "(n, d) \<in> set options"
    and "pr = \<lparr>pr_keys = op_keys (fold (finalise_alias hash) options st), pr_values = op_parsed (fold (finalise_alias hash) options st),
       pr_sequential = s, pr_defaults = df, pr_unmatched = u\<rparr>"
  shows "PR_at pr n = Inr (parsed_at st (details_hash hash d)) \<and> PR_count pr n = ov_count (parsed_at st (details_hash hash d))"
proof -
  let ?st = "fold (finalise_alias hash) options st" and ?k = "details_hash hash d"
  have n: "n \<in> set (m_short d # m_long d)" "n \<noteq> []" using assms(1,2) by (auto simp: table_ok_def option_names_def split: if_splits)
  have "op_keys ?st n = Some ?k"
  proof (rule finalise_keys)
    have "snd opt = d" if "opt \<in> set options" "n \<in> set (m_short (snd opt) # m_long (snd opt))" for opt
    proof -
      have "n \<in> set (option_names (snd opt))" using that(2) n(2) by (auto simp: option_names_def)
      then have "(n, snd opt) \<in> set options" using assms(1) that(1) unfolding table_ok_def by (cases opt) fastforce
      then show ?thesis using assms(1,2) unfolding table_ok_def by (metis eq_key_imp_eq_value)
    qed
    then show "\<forall>opt \<in> set options. n \<in> set (m_short (snd opt) # m_long (snd opt)) \<longrightarrow> details_hash hash (snd opt) = ?k" by blast
    show "op_keys st n = Some ?k \<or> (\<exists>opt \<in> set options. n \<in> set (m_short (snd opt) # m_long (snd opt)))"
      using n(1) assms(2) by force
  qed
  moreover have "op_parsed ?st ?k = Some (parsed_at st ?k)"
    using finalise_parsed [of hash options st] assms(2) by (metis option.exhaust option.simps(5) parsed_at_def snd_conv)
  ultimately show ?thesis by (simp add: assms(3) PR_at_def PR_count_def)
qed

text \<open>A command line of long options.  Let every argument be \<open>--name=text\<close>, or \<open>--name\<close> for an option with an implicit text,
  with names of the table.  Then parsing succeeds if and only if for each option the texts given
  for it (or its default, if none is given) can be read one after the other, and the result of a successful
  parse has for every name of an option, short or long, the value so read and the number of times the option was given.  This
  holds whatever the order in which the table is iterated.\<close>

lemma parse_long:
  assumes "table_ok hash options" and "list_all2 (arg_reads options) args reqs"
  shows "case OptionParser_parse hash args (OptionParser_init options pos allow) of
      Inl e \<Rightarrow> \<exists>(n, d) \<in> set options. \<forall>ov. read_option d (texts_for d reqs) \<noteq> Inr ov
    | Inr pr \<Rightarrow> \<forall>(n, d) \<in> set options. PR_count pr n = length (texts_for d reqs)
        \<and> (\<exists>ov. read_option d (texts_for d reqs) = Inr ov \<and> PR_at pr n = Inr ov)"
proof -
  let ?st = "OptionParser_init options pos allow"
  let ?given = "ofold (\<lambda>r. parse_option hash (fst r) (snd r)) reqs ?st"
  have o: "op_options ?st = options" "op_positional ?st = pos" by (simp_all add: OptionParser_init_def)
  have p: "OptionParser_parse hash args ?st = obind ?given (\<lambda>st1. obind (ofold (default_or_none hash) (op_options st1) st1) (\<lambda>st2.
      let st = fold (finalise_alias hash) (op_options st2) st2 in
      Inr \<lparr>pr_keys = op_keys st, pr_values = op_parsed st, pr_sequential = op_sequential st, pr_defaults = op_defaults st, pr_unmatched = []\<rparr>))"
    using parse_loop_long [of ?st args reqs hash pos "[]"] assms(2) unfolding OptionParser_parse_def o by (cases ?given) simp_all
  have opts: "op_options st1 = options" if "?given = Inr st1" for st1 using given.loop_value [OF that] o by simp
  show ?thesis
  proof (cases "\<exists>st1 st2. ?given = Inr st1 \<and> ofold (default_or_none hash) options st1 = Inr st2")
    case True
    then obtain st1 st2 where st: "?given = Inr st1" "ofold (default_or_none hash) options st1 = Inr st2" by blast
    have o2: "op_options st2 = options" using defaults.loop_value [OF st(2)] opts [OF st(1)] by simp
    have "PR_count pr n = length (texts_for d reqs) \<and> (\<exists>ov. read_option d (texts_for d reqs) = Inr ov \<and> PR_at pr n = Inr ov)"
      if "(n, d) \<in> set options" "OptionParser_parse hash args ?st = Inr pr" for n d pr
    proof -
      have r: "read_option d (texts_for d reqs) = Inr (parsed_at st2 (details_hash hash d))" using passes_value [OF assms st that(1)] by blast
      have "ov_count (parsed_at st2 (details_hash hash d)) = length (texts_for d reqs)"
        using read_option_count [OF r] .
      moreover have "PR_at pr n = Inr (parsed_at st2 (details_hash hash d)) \<and> PR_count pr n = ov_count (parsed_at st2 (details_hash hash d))"
      proof (rule finalised_result [OF assms(1) that(1)])
        let ?set = "fold (finalise_alias hash) options st2"
        show "pr = \<lparr>pr_keys = op_keys ?set, pr_values = op_parsed ?set, pr_sequential = op_sequential ?set, pr_defaults = op_defaults ?set, pr_unmatched = []\<rparr>"
          using that(2) unfolding p st(1) obind_simps opts [OF st(1)] st(2) o2 Let_def by simp
      qed
      ultimately show ?thesis using r by simp
    qed
    moreover have "\<exists>pr. OptionParser_parse hash args ?st = Inr pr" unfolding p using st opts by (simp add: Let_def)
    ultimately show ?thesis by (auto simp del: split_paired_Ex)
  next
    case False
    then have "\<not> (\<forall>(n, d) \<in> set options. \<exists>ov. read_option d (texts_for d reqs) = Inr ov)"
      using passes_work [OF assms, of pos allow] by blast
    moreover have "\<exists>e. OptionParser_parse hash args ?st = Inl e" unfolding p using False opts
      by (cases ?given; cases "ofold (default_or_none hash) options (projr ?given)") fastforce+
    ultimately show ?thesis by fastforce
  qed
qed

text \<open>A table with one option.\<close>

definition port_option :: OptionDetails where
  "port_option = \<lparr>m_short = ''p'', m_long = [''port''], m_value = default_value ''7'' (standard_value_make (SU16 0))\<rparr>"

lemma parse_long_sample:
  "(case OptionParser_parse (\<lambda>_. 0) [''--port=80'', ''--port=0x51''] (OptionParser_init [(''p'', port_option), (''port'', port_option)] [] False) of
      Inl e \<Rightarrow> False
    | Inr pr \<Rightarrow> PR_count pr ''p'' = 2 \<and> obind (PR_at pr ''p'') (OptionValue_as get_u16) = Inr 0x51)"
proof -
  let ?options = "[(''p'', port_option), (''port'', port_option)]" and ?reqs = "[(port_option, ''80''), (port_option, ''0x51'')]"
  have t: "table_ok (\<lambda>_. 0) ?options" by (simp add: table_ok_def port_option_def option_names_def)
  have r: "list_all2 (arg_reads ?options) [''--port=80'', ''--port=0x51''] ?reqs"
    by (simp add: arg_reads_def ParseArgument_def name_char_def is_alnum_def is_digit_def any_char_def)
  have "numeral_value ''80'' = Some 80" "numeral_value ''0x51'' = Some 0x51" by (simp_all add: numeral_value_def int_digit_def)
  then have "read_option port_option (texts_for port_option ?reqs) = Inr \<lparr>ov_value = Some ((m_value port_option)\<lparr>m_store := SU16 0x51\<rparr>), ov_count = 2, ov_default = False\<rparr>"
    by (simp add: texts_for_def read_option_def OptionValue_parse_def value_parse_def ensure_value_def OptionValue_init_def clone_def
        port_option_def default_value_def standard_value_make_def parse_value_def integer_parser_value)
  then show ?thesis using parse_long [OF t r, of "[]" False]
    by (auto simp: OptionValue_as_def get_u16_def texts_for_def split: sum.splits)
qed

end
