(* ===== verification/Relay_Config.thy ===== *)
theory Relay_Config
  imports Command_Line Subscribe_Handler
begin

text \<open>
  The configuration of the relay: \<open>src/src/config.{h,cc}\<close>, and from \<open>src/src/main.cc\<close> the options of the command line and
  \<open>InitConfig\<close>.  Logging is left out.  Whether a file exists, the host name, the two members that the
  constructor leaves uninitialised and the default \<open>quicr::TransportConfig\<close> are arguments.

  Shown: every configuration can be given on the command line and is the one the relay gets; what
  \<open>InitConfig\<close> makes of the text of a peer, ports out of range included.
\<close>

section \<open>Config\<close>

definition kDefaultClientPort :: u16 where "kDefaultClientPort = 33435"
definition kDefaultPeerPort :: u16 where "kDefaultPeerPort = 33434"
definition kDefaultPeerCheckIntervalMs :: u64 where "kDefaultPeerCheckIntervalMs = 5000"
definition kDefaultPeerInitQueueSize :: u32 where "kDefaultPeerInitQueueSize = 5000"
definition kDefaultCacheTimeQueueMaxDuration :: u32 where "kDefaultCacheTimeQueueMaxDuration = 10000"

record PeeringConfig =
  pg_listening_port :: u16
  pg_peers :: "(string \<times> u16) list"
  pg_check_interval_ms :: u64
  pg_init_queue_size :: u32

record Config =
  cfg_debug :: bool
  cfg_use_reset_wait_strategy :: bool
  cfg_detached_subs :: bool
  cfg_allow_self :: bool
  cfg_disable_cache :: bool
  cfg_relay_id :: string
  cfg_tls_cert_filename :: string
  cfg_tls_key_filename :: string
  cfg_qlog_path :: string
  cfg_object_ttl :: u32
  cfg_sub_dampen_ms :: u32
  cfg_node_type :: u8
  cfg_cache_key :: "u64 option"
  cfg_peering :: PeeringConfig

text \<open>The constructor: member initialisers, then \<open>InitDefaults\<close>.\<close>

definition InitDefaults :: "string \<Rightarrow> Config \<Rightarrow> Config" where
  "InitDefaults hostname cfg = cfg\<lparr>cfg_relay_id := hostname, cfg_object_ttl := ucast kDefaultObjectTtl\<rparr>"

definition Config_make :: "string \<Rightarrow> u32 \<Rightarrow> u32 \<Rightarrow> u16 \<Rightarrow> Config" where
  "Config_make hostname object_ttl sub_dampen listening_port = InitDefaults hostname
     \<lparr>cfg_debug = False, cfg_use_reset_wait_strategy = False, cfg_detached_subs = False, cfg_allow_self = False,
      cfg_disable_cache = False, cfg_relay_id = [], cfg_tls_cert_filename = [], cfg_tls_key_filename = [], cfg_qlog_path = [],
      cfg_object_ttl = object_ttl, cfg_sub_dampen_ms = sub_dampen, cfg_node_type = kEdge, cfg_cache_key = None,
      cfg_peering = \<lparr>pg_listening_port = listening_port, pg_peers = [], pg_check_interval_ms = kDefaultPeerCheckIntervalMs,
        pg_init_queue_size = kDefaultPeerInitQueueSize\<rparr>\<rparr>"

section \<open>The options of the relay\<close>

definition to_string :: "'a::len word \<Rightarrow> string" where
  "to_string w = show_dec (unat w)"

abbreviation flag_option :: "string \<Rightarrow> string \<times> standard_value" where
  "flag_option opts \<equiv> (opts, standard_value_make (SBool False))"

definition relay_option_specs :: "(string \<times> standard_value) list" where
  "relay_option_specs =
     [flag_option ''h,help'',
      flag_option ''d,debug'',
      (''b,bind_ip'', default_value ''127.0.0.1'' (standard_value_make (SString []))),
      (''p,port'', default_value (to_string kDefaultClientPort) (standard_value_make (SU16 0))),
      (''e,endpoint_id'', default_value ''moq-server'' (standard_value_make (SString []))),
      (''c,cert'', default_value ''./server-cert.pem'' (standard_value_make (SString []))),
      (''k,key'', default_value ''./server-key.pem'' (standard_value_make (SString []))),
      (''q,qlog'', standard_value_make (SString [])),
      (''s,sub_dampen_ms'', default_value (to_string kDefaultCacheTimeQueueMaxDuration) (standard_value_make (SU32 0))),
      (''t,object_ttl'', default_value (to_string kDefaultObjectTtl) (standard_value_make (SU32 0))),
      (''cache_duration'', default_value ''60000'' (standard_value_make (SU64 0))),
      (''cache_key'', standard_value_make (SU64 0)),
      flag_option ''l,detached_subs'',
      flag_option ''disable_cache'',
      flag_option ''allow_self'',
      (''peer_port'', default_value (to_string kDefaultPeerPort) (standard_value_make (SU16 0))),
      (''peer'', standard_value_make (SStrings [])),
      (''node_type'', standard_value_make (SString []))]"

definition relay_options :: "OptionMap opt_res" where
  "relay_options = add_options relay_option_specs []"

section \<open>InitConfig\<close>

text \<open>How \<open>main\<close> can end before the relay runs: \<open>exit\<close>, or an exception.\<close>

datatype stop = Exit int | Opt_Exception opt_error | Std_Exception cpp_error

definition throws_opt :: "'a opt_res \<Rightarrow> stop + 'a" where
  "throws_opt r = (case r of Inl e \<Rightarrow> Inl (Opt_Exception e) | Inr x \<Rightarrow> Inr x)"

definition throws_std :: "'a res \<Rightarrow> stop + 'a" where
  "throws_std r = (case r of Inl e \<Rightarrow> Inl (Std_Exception e) | Inr x \<Rightarrow> Inr x)"

lemma throws_simps [simp]:
  "throws_opt (Inl e) = Inl (Opt_Exception e)" "throws_opt (Inr x) = Inr x"
  "throws_std (Inl e') = Inl (Std_Exception e')" "throws_std (Inr x) = Inr x"
  by (simp_all add: throws_opt_def throws_std_def)

text \<open>\<open>std::stoi(s)\<close>: leading white space, a sign, digits; a value outside \<open>int\<close> is an error.\<close>

definition stoi :: "string \<Rightarrow> int res" where
  "stoi s = (let t = dropWhile is_space s;
                 neg = (take 1 t = ''-'');
                 ds = takeWhile is_digit (if neg \<or> take 1 t = ''+'' then drop 1 t else t);
                 v = (if neg then - int (dec_value ds) else int (dec_value ds))
             in if ds = [] then Inl Std_Invalid_Argument
                else if v < - (2 ^ 31) \<or> 2 ^ 31 \<le> v then Inl Std_Out_Of_Range
                else Inr v)"

text \<open>One element of the \<open>peer\<close> option.  The \<open>int\<close> is assigned to a \<open>uint16_t\<close>.\<close>

definition parse_peer :: "string \<Rightarrow> (string \<times> u16) res" where
  "parse_peer peer = (case str_find (CHR '':'') peer 0 of
      None \<Rightarrow> Inr (substr peer 0 None, kDefaultPeerPort)
    | Some port_pos \<Rightarrow> res_bind (stoi (substr peer (Suc port_pos) None)) (\<lambda>port.
        Inr (substr peer 0 (Some port_pos), word_of_int port)))"

definition add_peer :: "string \<Rightarrow> Config \<Rightarrow> stop + Config" where
  "add_peer peer cfg = obind (throws_std (parse_peer peer)) (\<lambda>p.
     Inr (cfg\<lparr>cfg_peering := (cfg_peering cfg)\<lparr>pg_peers := pg_peers (cfg_peering cfg) @ [p]\<rparr>\<rparr>))"

definition node_type_named :: "string \<Rightarrow> stop + u8" where
  "node_type_named s = (if s = ''edge'' then Inr kEdge else if s = ''via'' then Inr kVia
     else if s = ''stub'' then Inr kStub else Inl (Exit (-1)))"

definition opt_as :: "(stored \<Rightarrow> 'a option) \<Rightarrow> ParseResult \<Rightarrow> string \<Rightarrow> stop + 'a" where
  "opt_as get cli_opts name = throws_opt (obind (PR_at cli_opts name) (OptionValue_as get))"

text \<open>\<open>count(name) && as<bool>()\<close>\<close>

definition opt_flag :: "ParseResult \<Rightarrow> string \<Rightarrow> stop + bool" where
  "opt_flag cli_opts name = (if PR_count cli_opts name = 0 then Inr False else opt_as get_bool cli_opts name)"

definition exists_or_exit :: "(string \<Rightarrow> bool) \<Rightarrow> string \<Rightarrow> stop + unit" where
  "exists_or_exit exists filename = (if filename \<noteq> [] \<and> \<not> exists filename then Inl (Exit 1) else Inr ())"

record TransportConfig =
  tc_tls_cert_filename :: string
  tc_tls_key_filename :: string
  tc_time_queue_init_queue_size :: u32
  tc_time_queue_max_duration :: u32
  tc_time_queue_bucket_interval :: u32
  tc_time_queue_rx_size :: u32
  tc_debug :: bool
  tc_idle_timeout_ms :: u64
  tc_use_reset_wait_strategy :: bool
  tc_quic_qlog_path :: string
  tc_max_connections :: u64

record ServerConfig =
  sc_endpoint_id :: string
  sc_transport_config :: TransportConfig
  sc_server_bind_ip :: string
  sc_server_port :: u16

text \<open>The first half of \<open>InitConfig\<close>, up to the node type.\<close>

definition init_switches :: "ParseResult \<Rightarrow> Config \<Rightarrow> stop + Config" where
  "init_switches cli_opts cfg =
     obind (opt_flag cli_opts ''debug'') (\<lambda>_.
     obind (opt_flag cli_opts ''disable_cache'') (\<lambda>disable_cache.
     obind (opt_flag cli_opts ''detached_subs'') (\<lambda>detached_subs.
     obind (opt_flag cli_opts ''allow_self'') (\<lambda>allow_self.
       let cfg = cfg\<lparr>cfg_disable_cache := disable_cache \<or> cfg_disable_cache cfg,
                     cfg_detached_subs := detached_subs \<or> cfg_detached_subs cfg,
                     cfg_allow_self := allow_self \<or> cfg_allow_self cfg\<rparr> in
     obind (if PR_count cli_opts ''peer'' = 0 then Inr cfg
            else obind (opt_as get_strings cli_opts ''peer'') (\<lambda>peers. ofold add_peer peers cfg)) (\<lambda>cfg.
     if PR_count cli_opts ''node_type'' = 0 then Inr cfg
     else obind (opt_as get_string cli_opts ''node_type'') (\<lambda>s.
          obind (node_type_named s) (\<lambda>t. Inr (cfg\<lparr>cfg_node_type := t\<rparr>))))))))"

definition server_config :: "TransportConfig \<Rightarrow> string \<Rightarrow> string \<Rightarrow> u16 \<Rightarrow> Config \<Rightarrow> ServerConfig" where
  "server_config tconfig qlog_path bind_ip port cfg =
     \<lparr>sc_endpoint_id = cfg_relay_id cfg,
      sc_transport_config = tconfig\<lparr>tc_debug := cfg_debug cfg, tc_tls_cert_filename := cfg_tls_cert_filename cfg,
        tc_tls_key_filename := cfg_tls_key_filename cfg, tc_use_reset_wait_strategy := False, tc_quic_qlog_path := qlog_path,
        tc_idle_timeout_ms := 10000, tc_time_queue_rx_size := 10000, tc_time_queue_bucket_interval := 500,
        tc_time_queue_max_duration := cfg_object_ttl cfg * 2, tc_max_connections := 5000\<rparr>,
      sc_server_bind_ip = bind_ip, sc_server_port = port\<rparr>"

definition InitConfig :: "(string \<Rightarrow> bool) \<Rightarrow> TransportConfig \<Rightarrow> ParseResult \<Rightarrow> Config \<Rightarrow> stop + (Config \<times> ServerConfig)" where
  "InitConfig exists tconfig cli_opts cfg =
     obind (if PR_count cli_opts ''qlog'' = 0 then Inr [] else opt_as get_string cli_opts ''qlog'') (\<lambda>qlog_path.
     obind (init_switches cli_opts cfg) (\<lambda>cfg.
     obind (opt_as get_bool cli_opts ''debug'') (\<lambda>debug.
     obind (opt_as get_string cli_opts ''cert'') (\<lambda>cert.
     obind (opt_as get_string cli_opts ''key'') (\<lambda>key.
     obind (exists_or_exit exists cert) (\<lambda>_.
     obind (exists_or_exit exists key) (\<lambda>_.
     obind (opt_as get_u16 cli_opts ''peer_port'') (\<lambda>listening_port.
     obind (opt_as get_u32 cli_opts ''object_ttl'') (\<lambda>object_ttl.
     obind (opt_as get_u32 cli_opts ''sub_dampen_ms'') (\<lambda>sub_dampen_ms.
     obind (opt_as get_string cli_opts ''endpoint_id'') (\<lambda>relay_id.
     obind (if PR_count cli_opts ''cache_key'' = 0 then Inr (cfg_cache_key cfg)
            else obind (opt_as get_u64 cli_opts ''cache_key'') (\<lambda>k. Inr (Some k))) (\<lambda>cache_key.
     obind (opt_as get_string cli_opts ''bind_ip'') (\<lambda>bind_ip.
     obind (opt_as get_u16 cli_opts ''port'') (\<lambda>port.
       let cfg = cfg\<lparr>cfg_debug := debug, cfg_tls_cert_filename := cert, cfg_tls_key_filename := key,
                     cfg_peering := (cfg_peering cfg)\<lparr>pg_listening_port := listening_port\<rparr>, cfg_object_ttl := object_ttl,
                     cfg_sub_dampen_ms := sub_dampen_ms, cfg_relay_id := relay_id, cfg_cache_key := cache_key\<rparr>
       in Inr (cfg, server_config tconfig qlog_path bind_ip port cfg)))))))))))))))"

section \<open>The option table\<close>

text \<open>The table that the code builds, in the order of insertion.\<close>

definition relay_details :: "(string \<times> string) \<times> standard_value \<Rightarrow> OptionMap" where
  "relay_details e = (let d = \<lparr>m_short = fst (fst e), m_long = [snd (fst e)], m_value = snd e\<rparr> in
     (if fst (fst e) \<noteq> [] then [(fst (fst e), d)] else []) @ [(snd (fst e), d)])"

definition relay_names :: "(string \<times> string) list" where
  "relay_names = [(''h'', ''help''), (''d'', ''debug''), (''b'', ''bind_ip''), (''p'', ''port''), (''e'', ''endpoint_id''), (''c'', ''cert''), (''k'', ''key''),
     (''q'', ''qlog''), (''s'', ''sub_dampen_ms''), (''t'', ''object_ttl''), ([], ''cache_duration''), ([], ''cache_key''), (''l'', ''detached_subs''),
     ([], ''disable_cache''), ([], ''allow_self''), ([], ''peer_port''), ([], ''peer''), ([], ''node_type'')]"

definition relay_table :: OptionMap where
  "relay_table = concat (map relay_details (zip relay_names (map snd relay_option_specs)))"

text \<open>A specification with one long name and at most one short name.\<close>

definition spec_names :: "string \<times> standard_value \<Rightarrow> (string \<times> string) \<times> standard_value \<Rightarrow> bool" where
  "spec_names spec e \<longleftrightarrow> split_option_names (fst spec) = Inr ((if fst (fst e) = [] then [] else [fst (fst e)]) @ [snd (fst e)])
     \<and> snd spec = snd e \<and> length (fst (fst e)) \<le> 1 \<and> 1 < length (snd (fst e))"

lemma OptionAdder_names:
  assumes "spec_names spec e" "distinct (map fst (opts @ relay_details e))"
  shows "OptionAdder spec opts = Inr (opts @ relay_details e)"
proof -
  obtain s l v where e: "e = ((s, l), v)" by (metis surj_pair)
  have l: "map_of opts l = None" "s \<noteq> [] \<Longrightarrow> map_of opts s = None \<and> s \<noteq> l"
    using assms(2) by (auto simp: e relay_details_def Let_def map_of_eq_None_iff)
  show ?thesis
  proof (cases "s = []")
    case True
    then show ?thesis using assms(1) l by (simp add: e spec_names_def OptionAdder_def add_option_def add_one_option_def relay_details_def Let_def)
  next
    case False
    then have "l \<noteq> s" using l(2) by blast
    then show ?thesis using assms(1) l False
      by (simp add: e map_add_def spec_names_def OptionAdder_def add_option_def add_one_option_def relay_details_def Let_def)
  qed
qed

lemma add_options_names:
  assumes "list_all2 spec_names specs es" "distinct (map fst (opts @ concat (map relay_details es)))"
  shows "add_options specs opts = Inr (opts @ concat (map relay_details es))"
  using assms
proof (induction specs arbitrary: es opts rule: list.induct)
  case (Cons spec specs)
  then obtain e es' where e: "es = e # es'" "spec_names spec e" "list_all2 spec_names specs es'" by (auto simp: list_all2_Cons1)
  have d: "distinct (map fst ((opts @ relay_details e) @ concat (map relay_details es')))" using Cons.prems(2) e(1) by simp
  then have "distinct (map fst (opts @ relay_details e))" unfolding map_append distinct_append by blast
  then show ?case using Cons.IH [OF e(3) d] OptionAdder_names [OF e(2)] e(1) by (simp add: add_options_def)
qed (simp add: add_options_def)

lemma relay_specs_names: "list_all2 spec_names relay_option_specs (zip relay_names (map snd relay_option_specs))"
  by (simp add: relay_option_specs_def relay_names_def spec_names_def split_option_names_def option_name_def is_alnum_def name_char_def is_digit_def Let_def)

lemma relay_table_distinct: "distinct (map fst relay_table)"
  by (simp add: relay_table_def relay_names_def relay_option_specs_def relay_details_def Let_def)

lemma relay_options_table: "relay_options = Inr relay_table"
  using add_options_names [OF relay_specs_names, of "[]"] relay_table_distinct by (simp add: relay_options_def relay_table_def)

text \<open>The table of the relay suits every hash that tells its 18 options apart, in every order.\<close>

definition relay_hash :: "(string \<Rightarrow> u64) \<Rightarrow> bool" where
  "relay_hash hash \<longleftrightarrow> distinct (map (\<lambda>(s, l). hash (l @ s)) relay_names)"

lemma relay_long_names: "(s, l) \<in> set relay_names \<Longrightarrow> l \<noteq> []"
  by (auto simp: relay_names_def)

lemma relay_names_distinct: "distinct relay_names"
  by (simp add: relay_names_def)

lemma relay_details_in: "(n, d) \<in> set relay_table \<longleftrightarrow>
    (\<exists>s l v. ((s, l), v) \<in> set (zip relay_names (map snd relay_option_specs)) \<and> d = \<lparr>m_short = s, m_long = [l], m_value = v\<rparr> \<and> n \<in> {s, l} \<and> n \<noteq> [])"
proof -
  have "l \<noteq> []" if "((s, l), v) \<in> set (zip relay_names (map snd relay_option_specs))" for s l v
    using relay_long_names set_zip_leftD [OF that] by blast
  then have r: "(n, d) \<in> set (relay_details ((s, l), v)) \<longleftrightarrow> d = \<lparr>m_short = s, m_long = [l], m_value = v\<rparr> \<and> n \<in> {s, l} \<and> n \<noteq> []"
    if "((s, l), v) \<in> set (zip relay_names (map snd relay_option_specs))" for s l v
    using that by (auto simp: relay_details_def Let_def)
  have "(n, d) \<in> set relay_table \<longleftrightarrow> (\<exists>s l v. ((s, l), v) \<in> set (zip relay_names (map snd relay_option_specs)) \<and> (n, d) \<in> set (relay_details ((s, l), v)))"
    unfolding relay_table_def set_concat set_map by fast
  then show ?thesis using r by blast
qed

lemma relay_table_ok:
  assumes "relay_hash hash" "set options = set relay_table" "distinct (map fst options)"
  shows "table_ok hash options"
proof -
  let ?es = "zip relay_names (map snd relay_option_specs)"
  have "length relay_names = length (map snd relay_option_specs)" by (simp add: relay_names_def relay_option_specs_def)
  then have dz: "distinct (map fst ?es)" using relay_names_distinct by (simp only: map_fst_zip)
  have inj: "d = e" if n: "(n, d) \<in> set relay_table" and m: "(m, e) \<in> set relay_table" and same: "details_hash hash d = details_hash hash e" for n d m e
  proof -
    obtain s l v where d: "((s, l), v) \<in> set ?es" "d = \<lparr>m_short = s, m_long = [l], m_value = v\<rparr>" using n unfolding relay_details_in by blast
    obtain s' l' v' where e: "((s', l'), v') \<in> set ?es" "e = \<lparr>m_short = s', m_long = [l'], m_value = v'\<rparr>" using m unfolding relay_details_in by blast
    have "hash (l @ s) = hash (l' @ s')" using same by (simp add: d(2) e(2) details_hash_def first_or_empty_def)
    then have "(s, l) = (s', l')"
      using assms(1) set_zip_leftD [OF d(1)] set_zip_leftD [OF e(1)] unfolding relay_hash_def distinct_map inj_on_def by fastforce
    then have "v = v'" using eq_key_imp_eq_value [OF dz] d(1) e(1) by metis
    with \<open>(s, l) = (s', l')\<close> show ?thesis using d(2) e(2) by simp
  qed
  have "n \<in> set (option_names d)" if "(n, d) \<in> set relay_table" for n d
    using that unfolding relay_details_in by (auto simp: option_names_def)
  moreover have "(m, d) \<in> set relay_table" if "(n, d) \<in> set relay_table" "m \<in> set (option_names d)" for m n d
    using that unfolding relay_details_in by (auto simp: option_names_def split: if_splits)
  moreover have "inj_on (details_hash hash) (snd ` set relay_table)" by (rule inj_onI) (use inj in auto)
  ultimately show ?thesis using assms(3) unfolding table_ok_def assms(2) by blast
qed

section \<open>Long options by name\<close>

text \<open>\<open>--name=text\<close> and \<open>--name\<close>.\<close>

definition long_arg :: "string \<times> string option \<Rightarrow> string" where
  "long_arg a = ''--'' @ fst a @ (case snd a of None \<Rightarrow> [] | Some t \<Rightarrow> CHR ''='' # t)"

definition long_ok :: "string \<times> string option \<Rightarrow> bool" where
  "long_ok a \<longleftrightarrow> fst a \<in> snd ` set relay_names
     \<and> (case snd a of None \<Rightarrow> fst a \<in> {''help'', ''debug'', ''detached_subs'', ''disable_cache'', ''allow_self''} | Some t \<Rightarrow> list_all any_char t)"

definition long_texts :: "string \<Rightarrow> (string \<times> string option) list \<Rightarrow> string list" where
  "long_texts n as = map (\<lambda>a. case snd a of None \<Rightarrow> ''true'' | Some t \<Rightarrow> t) (filter (\<lambda>a. fst a = n) as)"

text \<open>The option with a long name.\<close>

definition relay_option :: "string \<Rightarrow> OptionDetails" where
  "relay_option n = the (map_of relay_table n)"

lemma relay_name_chars:
  assumes "n \<in> snd ` set relay_names"
  shows "list_all name_char n" "2 \<le> length n" "is_alnum (hd n)"
  using assms by (auto simp: relay_names_def name_char_def is_alnum_def is_digit_def)

lemma ParseArgument_long:
  assumes "n \<in> snd ` set relay_names" "case v of None \<Rightarrow> True | Some t \<Rightarrow> list_all any_char t"
  shows "ParseArgument (long_arg (n, v)) = Some \<lparr>arg_name = n, arg_grouping = False, arg_set_value = (v \<noteq> None), arg_value = (case v of None \<Rightarrow> [] | Some t \<Rightarrow> t)\<rparr>"
proof -
  have "takeWhile name_char n = n" "dropWhile name_char n = []" using relay_name_chars(1) [OF assms(1)] by (simp_all add: list_all_iff)
  moreover have "\<not> name_char (CHR ''='')" by (simp add: name_char_def is_alnum_def is_digit_def)
  ultimately have "takeWhile name_char (n @ (case v of None \<Rightarrow> [] | Some t \<Rightarrow> CHR ''='' # t)) = n"
    "dropWhile name_char (n @ (case v of None \<Rightarrow> [] | Some t \<Rightarrow> CHR ''='' # t)) = (case v of None \<Rightarrow> [] | Some t \<Rightarrow> CHR ''='' # t)"
    using relay_name_chars(1) [OF assms(1)] by (auto simp: list_all_iff takeWhile_append dropWhile_append split: option.splits)
  then show ?thesis using relay_name_chars(2,3) [OF assms(1)] assms(2) by (auto simp: ParseArgument_def long_arg_def split: option.splits)
qed

lemma relay_option_long:
  assumes "n \<in> snd ` set relay_names"
  shows "map_of relay_table n = Some (relay_option n)" "m_long (relay_option n) = [n]" "(n, relay_option n) \<in> set relay_table"
proof -
  let ?es = "zip relay_names (map snd relay_option_specs)"
  have len: "length relay_names = length (map snd relay_option_specs)" by (simp add: relay_names_def relay_option_specs_def)
  obtain s where "(s, n) \<in> set relay_names" using assms by auto
  then obtain v where v: "((s, n), v) \<in> set ?es" using len by (metis in_set_impl_in_set_zip1)
  define d where "d = \<lparr>m_short = s, m_long = [n], m_value = v\<rparr>"
  have "(n, d) \<in> set relay_table" unfolding relay_details_in d_def using v relay_long_names [of s n] set_zip_leftD [OF v] by blast
  then show m: "map_of relay_table n = Some (relay_option n)" "m_long (relay_option n) = [n]" "(n, relay_option n) \<in> set relay_table"
    using relay_table_distinct by (simp_all add: relay_option_def d_def)
qed

lemma relay_value:
  assumes "((s, n), v) \<in> set (zip relay_names (map snd relay_option_specs))"
  shows "relay_option n = \<lparr>m_short = s, m_long = [n], m_value = v\<rparr>"
proof -
  have "n \<noteq> []" using relay_long_names [of s n] set_zip_leftD [OF assms] by blast
  then have "(n, \<lparr>m_short = s, m_long = [n], m_value = v\<rparr>) \<in> set relay_table" unfolding relay_details_in using assms by blast
  then show ?thesis using relay_table_distinct by (simp add: relay_option_def)
qed

lemma relay_entry:
  assumes "((s, n), v) \<in> set (zip relay_names (map snd relay_option_specs))"
  shows "m_value (relay_option n) = v"
  using relay_value [OF assms] by simp

text \<open>The types and defaults of the options.\<close>

lemma relay_values:
  "m_value (relay_option ''help'') = standard_value_make (SBool False)"
  "m_value (relay_option ''debug'') = standard_value_make (SBool False)"
  "m_value (relay_option ''detached_subs'') = standard_value_make (SBool False)"
  "m_value (relay_option ''disable_cache'') = standard_value_make (SBool False)"
  "m_value (relay_option ''allow_self'') = standard_value_make (SBool False)"
  "m_value (relay_option ''bind_ip'') = default_value ''127.0.0.1'' (standard_value_make (SString []))"
  "m_value (relay_option ''port'') = default_value (to_string kDefaultClientPort) (standard_value_make (SU16 0))"
  "m_value (relay_option ''endpoint_id'') = default_value ''moq-server'' (standard_value_make (SString []))"
  "m_value (relay_option ''cert'') = default_value ''./server-cert.pem'' (standard_value_make (SString []))"
  "m_value (relay_option ''key'') = default_value ''./server-key.pem'' (standard_value_make (SString []))"
  "m_value (relay_option ''qlog'') = standard_value_make (SString [])"
  "m_value (relay_option ''sub_dampen_ms'') = default_value (to_string kDefaultCacheTimeQueueMaxDuration) (standard_value_make (SU32 0))"
  "m_value (relay_option ''object_ttl'') = default_value (to_string kDefaultObjectTtl) (standard_value_make (SU32 0))"
  "m_value (relay_option ''cache_duration'') = default_value ''60000'' (standard_value_make (SU64 0))"
  "m_value (relay_option ''cache_key'') = standard_value_make (SU64 0)"
  "m_value (relay_option ''peer_port'') = default_value (to_string kDefaultPeerPort) (standard_value_make (SU16 0))"
  "m_value (relay_option ''peer'') = standard_value_make (SStrings [])"
  "m_value (relay_option ''node_type'') = standard_value_make (SString [])"
proof -
  note e = relay_names_def relay_option_specs_def
  show "m_value (relay_option ''help'') = standard_value_make (SBool False)" by (rule relay_entry [of "''h''"]) (simp add: e)
  show "m_value (relay_option ''debug'') = standard_value_make (SBool False)" by (rule relay_entry [of "''d''"]) (simp add: e)
  show "m_value (relay_option ''detached_subs'') = standard_value_make (SBool False)" by (rule relay_entry [of "''l''"]) (simp add: e)
  show "m_value (relay_option ''disable_cache'') = standard_value_make (SBool False)" by (rule relay_entry [of "[]"]) (simp add: e)
  show "m_value (relay_option ''allow_self'') = standard_value_make (SBool False)" by (rule relay_entry [of "[]"]) (simp add: e)
  show "m_value (relay_option ''bind_ip'') = default_value ''127.0.0.1'' (standard_value_make (SString []))" by (rule relay_entry [of "''b''"]) (simp add: e)
  show "m_value (relay_option ''port'') = default_value (to_string kDefaultClientPort) (standard_value_make (SU16 0))" by (rule relay_entry [of "''p''"]) (simp add: e)
  show "m_value (relay_option ''endpoint_id'') = default_value ''moq-server'' (standard_value_make (SString []))" by (rule relay_entry [of "''e''"]) (simp add: e)
  show "m_value (relay_option ''cert'') = default_value ''./server-cert.pem'' (standard_value_make (SString []))" by (rule relay_entry [of "''c''"]) (simp add: e)
  show "m_value (relay_option ''key'') = default_value ''./server-key.pem'' (standard_value_make (SString []))" by (rule relay_entry [of "''k''"]) (simp add: e)
  show "m_value (relay_option ''qlog'') = standard_value_make (SString [])" by (rule relay_entry [of "''q''"]) (simp add: e)
  show "m_value (relay_option ''sub_dampen_ms'') = default_value (to_string kDefaultCacheTimeQueueMaxDuration) (standard_value_make (SU32 0))" by (rule relay_entry [of "''s''"]) (simp add: e)
  show "m_value (relay_option ''object_ttl'') = default_value (to_string kDefaultObjectTtl) (standard_value_make (SU32 0))" by (rule relay_entry [of "''t''"]) (simp add: e)
  show "m_value (relay_option ''cache_duration'') = default_value ''60000'' (standard_value_make (SU64 0))" by (rule relay_entry [of "[]"]) (simp add: e)
  show "m_value (relay_option ''cache_key'') = standard_value_make (SU64 0)" by (rule relay_entry [of "[]"]) (simp add: e)
  show "m_value (relay_option ''peer_port'') = default_value (to_string kDefaultPeerPort) (standard_value_make (SU16 0))" by (rule relay_entry [of "[]"]) (simp add: e)
  show "m_value (relay_option ''peer'') = standard_value_make (SStrings [])" by (rule relay_entry [of "[]"]) (simp add: e)
  show "m_value (relay_option ''node_type'') = standard_value_make (SString [])" by (rule relay_entry [of "[]"]) (simp add: e)
qed

text \<open>The parser that \<open>main\<close> runs: no positional options, unrecognised ones are allowed.  \<open>option_order\<close> says that a list is
  the relay's table in some order of iteration.\<close>

definition parse_command_line :: "(string \<Rightarrow> u64) \<Rightarrow> OptionMap \<Rightarrow> string list \<Rightarrow> ParseResult opt_res" where
  "parse_command_line hash options args = OptionParser_parse hash args (OptionParser_init options [] True)"

definition option_order :: "OptionMap \<Rightarrow> bool" where
  "option_order options \<longleftrightarrow> (case relay_options of Inl e \<Rightarrow> False | Inr table \<Rightarrow> distinct (map fst options) \<and> set options = set table)"

lemma relay_parse:
  assumes "relay_hash hash" "option_order options" and ok: "list_all long_ok as"
  shows "case parse_command_line hash options (map long_arg as) of
      Inl e \<Rightarrow> \<exists>n \<in> snd ` set relay_names. \<forall>ov. read_option (relay_option n) (long_texts n as) \<noteq> Inr ov
    | Inr pr \<Rightarrow> \<forall>n \<in> snd ` set relay_names. PR_count pr n = length (long_texts n as)
        \<and> (\<exists>ov. read_option (relay_option n) (long_texts n as) = Inr ov \<and> PR_at pr n = Inr ov)"
proof -
  have opts: "set options = set relay_table" "distinct (map fst options)" using assms(2) by (simp_all add: option_order_def relay_options_table)
  have t: "table_ok hash options" using relay_table_ok [OF assms(1) opts] .
  have mo: "map_of options n = Some d \<longleftrightarrow> map_of relay_table n = Some d" for n d using opts relay_table_distinct by simp
  define reqs where "reqs = map (\<lambda>a. (relay_option (fst a), case snd a of None \<Rightarrow> ''true'' | Some t \<Rightarrow> t)) as"
  have "arg_reads options (long_arg a) (relay_option (fst a), case snd a of None \<Rightarrow> ''true'' | Some t \<Rightarrow> t)" if "long_ok a" for a
  proof -
    obtain n v where a: "a = (n, v)" by (cases a)
    have n: "n \<in> snd ` set relay_names" "case v of None \<Rightarrow> True | Some t \<Rightarrow> list_all any_char t" using that by (auto simp: long_ok_def a split: option.splits)
    have "m_value (relay_option n) = standard_value_make (SBool False)" if "v = None"
      using \<open>long_ok a\<close> that by (auto simp: long_ok_def a relay_values)
    moreover have "map_of options n = Some (relay_option n)" using relay_option_long(1) [OF n(1)] mo by blast
    ultimately show ?thesis using ParseArgument_long [OF n]
      by (cases v) (simp_all add: arg_reads_def a standard_value_make_def)
  qed
  then have r: "list_all2 (arg_reads options) (map long_arg as) reqs"
    using ok by (auto simp: reqs_def list_all2_map1 list_all2_map2 list_all_iff intro!: list.rel_refl_strong)
  have texts: "texts_for (relay_option n) reqs = long_texts n as" if "n \<in> snd ` set relay_names" for n
  proof -
    have "relay_option (fst a) = relay_option n \<longleftrightarrow> fst a = n" if "a \<in> set as" for a
      using ok that \<open>n \<in> _\<close> relay_option_long(2) [of n] relay_option_long(2) [of "fst a"] by (auto simp: list_all_iff long_ok_def)
    then show ?thesis by (auto simp: texts_for_def long_texts_def reqs_def filter_map comp_def intro!: map_cong filter_cong)
  qed
  have long: "\<exists>l \<in> snd ` set relay_names. d = relay_option l" if nd: "(n, d) \<in> set options" for n d
  proof -
    obtain s l v where e: "((s, l), v) \<in> set (zip relay_names (map snd relay_option_specs))" "d = \<lparr>m_short = s, m_long = [l], m_value = v\<rparr>"
      using nd unfolding opts relay_details_in by blast
    then have "(s, l) \<in> set relay_names" by (blast dest: set_zip_leftD)
    then show ?thesis using e(2) relay_value [OF e(1)] by force
  qed
  show ?thesis
  proof (cases "parse_command_line hash options (map long_arg as)")
    case (Inl e)
    then obtain n d where "(n, d) \<in> set options" "\<forall>ov. read_option d (texts_for d reqs) \<noteq> Inr ov"
      using parse_long [OF t r, of "[]" True] by (auto simp: parse_command_line_def)
    moreover obtain l where "l \<in> snd ` set relay_names" "d = relay_option l" using long [OF calculation(1)] by blast
    ultimately show ?thesis unfolding Inl using texts by (simp only: sum.case) blast
  next
    case (Inr pr)
    then have "PR_count pr n = length (texts_for d reqs) \<and> (\<exists>ov. read_option d (texts_for d reqs) = Inr ov \<and> PR_at pr n = Inr ov)"
      if "(n, d) \<in> set options" for n d
      using parse_long [OF t r, of "[]" True] that by (auto simp: parse_command_line_def)
    then show ?thesis using Inr relay_option_long(3) texts opts(1) by fastforce
  qed
qed

section \<open>What InitConfig reads\<close>

text \<open>The contents of an option, given the texts for it.\<close>

definition texts_store :: "standard_value \<Rightarrow> string list \<Rightarrow> stored option opt_res" where
  "texts_store v texts = (if texts \<noteq> [] then obind (ofold parse_value texts (fresh (m_store v))) (\<lambda>s. Inr (Some s))
     else if m_has_default v then obind (parse_value (m_default_value v) (fresh (m_store v))) (\<lambda>s. Inr (Some s)) else Inr None)"

lemma ensure_given [simp]: "ensure_value d (ov\<lparr>ov_value := Some v, ov_count := c\<rparr>) = v"
  by (simp add: ensure_value_def)

lemma parse_stores:
  "obind (ofold (OptionValue_parse d) texts ov) (\<lambda>ov. Inr (m_store (ensure_value d ov), ov_value ov)) =
   obind (ofold parse_value texts (m_store (ensure_value d ov))) (\<lambda>s. Inr (s, if texts = [] then ov_value ov else Some ((ensure_value d ov)\<lparr>m_store := s\<rparr>)))"
proof (induction texts arbitrary: ov)
  case (Cons t texts)
  show ?case
  proof (cases "parse_value t (m_store (ensure_value d ov))")
    case (Inr s)
    then have p: "OptionValue_parse d t ov = Inr (ov\<lparr>ov_value := Some ((ensure_value d ov)\<lparr>m_store := s\<rparr>), ov_count := Suc (ov_count ov)\<rparr>)"
      by (simp add: OptionValue_parse_def value_parse_def)
    show ?thesis using Cons.IH [of "ov\<lparr>ov_value := Some ((ensure_value d ov)\<lparr>m_store := s\<rparr>), ov_count := Suc (ov_count ov)\<rparr>"]
      by (cases "ofold parse_value texts s") (auto simp: p Inr)
  qed (simp add: OptionValue_parse_def value_parse_def)
qed simp

lemma read_option_store:
  "obind (read_option d texts) (\<lambda>ov. Inr (map_option m_store (ov_value ov))) = texts_store (m_value d) texts"
proof -
  have e: "ensure_value d OptionValue_init = clone (m_value d)" "m_store (clone (m_value d)) = fresh (m_store (m_value d))"
    "m_default_value (clone (m_value d)) = m_default_value (m_value d)" "ov_value OptionValue_init = None"
    by (simp_all add: ensure_value_def OptionValue_init_def clone_def)
  show ?thesis
  proof (cases "texts = []")
    case True
    then show ?thesis
      by (cases "parse_value (m_default_value (m_value d)) (fresh (m_store (m_value d)))")
        (auto simp: read_option_def texts_store_def OptionValue_parse_default_def value_parse_default_def value_parse_def e)
  next
    case False
    then show ?thesis using parse_stores [of d texts OptionValue_init]
      by (cases "ofold (OptionValue_parse d) texts OptionValue_init"; cases "ofold parse_value texts (fresh (m_store (m_value d)))")
        (auto simp: read_option_def texts_store_def e)
  qed
qed

text \<open>A command line of long options, seen through \<open>count\<close> and \<open>as\<close>.\<close>

lemma relay_parses:
  assumes "relay_hash hash" "option_order options" "list_all long_ok as"
    and "\<forall>n \<in> snd ` set relay_names. \<exists>s. texts_store (m_value (relay_option n)) (long_texts n as) = Inr s"
  shows "\<exists>pr. parse_command_line hash options (map long_arg as) = Inr pr"
proof -
  have "\<exists>ov. read_option (relay_option n) (long_texts n as) = Inr ov" if "n \<in> snd ` set relay_names" for n
    using assms(4) that read_option_store [of "relay_option n" "long_texts n as"] by (cases "read_option (relay_option n) (long_texts n as)") auto
  then show ?thesis using relay_parse [OF assms(1-3)] by (cases "parse_command_line hash options (map long_arg as)") auto
qed

definition stored_as :: "(stored \<Rightarrow> 'a option) \<Rightarrow> stored option opt_res \<Rightarrow> stop + 'a" where
  "stored_as get r = (case r of
      Inr (Some s) \<Rightarrow> (case get s of None \<Rightarrow> Inl (Opt_Exception bad_cast) | Some x \<Rightarrow> Inr x)
    | _ \<Rightarrow> Inl (Opt_Exception option_has_no_value))"

lemma relay_as:
  assumes "relay_hash hash" "option_order options" "list_all long_ok as"
    and pr: "parse_command_line hash options (map long_arg as) = Inr pr" and n: "n \<in> snd ` set relay_names"
  shows "PR_count pr n = length (long_texts n as)" "opt_as get pr n = stored_as get (texts_store (m_value (relay_option n)) (long_texts n as))"
proof -
  obtain ov where ov: "PR_count pr n = length (long_texts n as)" "read_option (relay_option n) (long_texts n as) = Inr ov" "PR_at pr n = Inr ov"
    using relay_parse [OF assms(1-3)] n unfolding pr sum.case by blast
  then show "PR_count pr n = length (long_texts n as)" by simp
  show "opt_as get pr n = stored_as get (texts_store (m_value (relay_option n)) (long_texts n as))"
    using ov(2,3) read_option_store [of "relay_option n" "long_texts n as", symmetric]
    by (cases "ov_value ov") (auto simp: opt_as_def OptionValue_as_def stored_as_def split: option.splits)
qed

text \<open>Numbers, and the elements of a list.\<close>

lemma digits_value_dec:
  assumes "list_all is_digit ds"
  shows "digits_value 10 ds n = Some (foldl (\<lambda>a c. 10 * a + (of_char c - 48)) n ds)"
  using assms by (induction ds arbitrary: n) (simp_all add: int_digit_def is_digit_def)

lemma numeral_value_show: "numeral_value (show_dec n) = Some n"
proof -
  have d: "list_all is_digit (show_dec n)" using show_dec_all(1) by (auto simp: list_all_iff)
  have "\<not> is_digit (CHR ''x'')" by (simp add: is_digit_def)
  then have "take 2 (show_dec n) \<noteq> ''0x''" using d by (metis in_set_takeD list.set_intros list_all_iff)
  then show ?thesis using digits_value_dec [OF d, of 0] dec_value_show_dec [of n] by (simp add: numeral_value_def dec_value_def)
qed

lemma integer_parser_to_string [simp]: "8 \<le> LENGTH('a::len) \<Longrightarrow> integer_parser (to_string (w :: 'a word)) = Inr w"
  by (simp add: integer_parser_value to_string_def numeral_value_show)

lemma integer_parser_wide: "8 \<le> LENGTH('a::len) \<Longrightarrow> unat (w :: 'b::len word) < 2 ^ LENGTH('a) \<Longrightarrow> integer_parser (to_string w) = Inr (ucast w :: 'a word)"
  by (simp add: integer_parser_value to_string_def numeral_value_show)

lemma split_on_single: "d \<notin> set s \<Longrightarrow> split_on d s = [s]"
  by (induction s) auto

lemma parse_value_items:
  assumes "\<forall>t \<in> set texts. t \<noteq> [] \<and> CHR '','' \<notin> set t"
  shows "ofold parse_value texts (SStrings vs) = Inr (SStrings (vs @ texts))"
  using assms by (induction texts arbitrary: vs) (simp_all add: parse_value_def getline_tokens_def split_on_single)

lemma any_char_dec: "list_all any_char (to_string w)"
proof -
  have "any_char c" if "is_digit c" for c using that by (auto simp: any_char_def is_digit_def)
  then show ?thesis using show_dec_all(1) by (auto simp: to_string_def list_all_iff)
qed

section \<open>Peers\<close>

lemma stoi_show_dec: "stoi (show_dec n) = (if n < 2 ^ 31 then Inr (int n) else Inl Std_Out_Of_Range)"
proof -
  have h: "hd (show_dec n) \<in> set (show_dec n)" by simp
  then have "dropWhile is_space (show_dec n) = show_dec n" using show_dec_all(2) [OF h] by (cases "show_dec n") simp_all
  moreover have "take 1 (show_dec n) \<noteq> ''-''" "take 1 (show_dec n) \<noteq> ''+''" using show_dec_all(5,6) [OF h] by (cases "show_dec n"; simp)+
  moreover have t: "takeWhile is_digit (show_dec n) = show_dec n" using show_dec_all(1) by (simp add: takeWhile_eq_all_conv)
  ultimately show ?thesis by (simp add: stoi_def Let_def t)
qed

lemma stoi_no_digits: "stoi (CHR '':'' # s) = Inl Std_Invalid_Argument"
  by (simp add: stoi_def is_space_def is_digit_def)

lemma parse_peer_split:
  assumes "CHR '':'' \<notin> set host"
  shows "parse_peer (host @ CHR '':'' # rest) = res_bind (stoi rest) (\<lambda>port. Inr (host, word_of_int port))"
  using str_find_append [OF assms, of rest] by (simp add: parse_peer_def substr_def)

lemma parse_peer_host: "CHR '':'' \<notin> set host \<Longrightarrow> parse_peer host = Inr (host, kDefaultPeerPort)"
  by (simp add: parse_peer_def str_find_none substr_def)

text \<open>What \<open>InitConfig\<close> makes of a peer.  A host without a colon gets the default port.  With a port behind the
  colon the host is connected on the port modulo \<open>2 ^ 16\<close>: a number up to \<open>2 ^ 31 - 1\<close> is
  accepted and cut, without an error, and a greater one throws \<open>std::out_of_range\<close>.  The host ends at the first colon, so
  the address \<open>::1\<close>, or any host followed by two colons, throws \<open>std::invalid_argument\<close>.\<close>

lemma peer_text:
  assumes "CHR '':'' \<notin> set host"
  shows "parse_peer host = Inr (host, kDefaultPeerPort)
    \<and> parse_peer (host @ '':'' @ show_dec n) = (if n < 2 ^ 31 then Inr (host, word_of_nat (n mod 65536)) else Inl Std_Out_Of_Range)
    \<and> parse_peer (host @ ''::'' @ rest) = Inl Std_Invalid_Argument"
proof -
  have "(word_of_nat (n mod 65536) :: u16) = word_of_nat n"
    by (rule word_unat_eq_iff [THEN iffD2]) (simp add: unat_of_nat)
  then show ?thesis
    using parse_peer_host [OF assms] parse_peer_split [OF assms, of "show_dec n"] parse_peer_split [OF assms, of "CHR '':'' # rest"]
    by (simp add: stoi_show_dec stoi_no_digits)
qed

lemma peer_text_sample:
  "parse_peer (''relay'' @ '':'' @ show_dec 98970) = Inr (''relay'', 33434) \<and> parse_peer (''''@ ''::'' @ ''1'') = Inl Std_Invalid_Argument"
  using peer_text [of "''relay''" 98970] peer_text [of "[]" 0 "''1''"] by simp

section \<open>Configurations on the command line\<close>

definition node_type_text :: "u8 \<Rightarrow> string" where
  "node_type_text t = (if t = kEdge then ''edge'' else if t = kVia then ''via'' else ''stub'')"

abbreviation flag_arg :: "string \<Rightarrow> bool \<Rightarrow> (string \<times> string option) list" where
  "flag_arg n b \<equiv> (if b then [(n, None)] else [])"

abbreviation text_arg :: "string \<Rightarrow> string option \<Rightarrow> (string \<times> string option) list" where
  "text_arg n t \<equiv> (case t of None \<Rightarrow> [] | Some v \<Rightarrow> [(n, Some v)])"

definition peer_arg :: "string \<times> u16 \<Rightarrow> string" where
  "peer_arg p = fst p @ '':'' @ to_string (snd p)"

definition config_args :: "Config \<Rightarrow> string \<Rightarrow> u16 \<Rightarrow> string option \<Rightarrow> (string \<times> string option) list" where
  "config_args cfg bind_ip port qlog =
     [(''bind_ip'', Some bind_ip), (''port'', Some (to_string port)), (''endpoint_id'', Some (cfg_relay_id cfg)),
      (''cert'', Some (cfg_tls_cert_filename cfg)), (''key'', Some (cfg_tls_key_filename cfg)),
      (''sub_dampen_ms'', Some (to_string (cfg_sub_dampen_ms cfg))), (''object_ttl'', Some (to_string (cfg_object_ttl cfg))),
      (''peer_port'', Some (to_string (pg_listening_port (cfg_peering cfg)))), (''node_type'', Some (node_type_text (cfg_node_type cfg)))]
     @ map (\<lambda>p. (''peer'', Some (peer_arg p))) (pg_peers (cfg_peering cfg))
     @ flag_arg ''debug'' (cfg_debug cfg) @ flag_arg ''detached_subs'' (cfg_detached_subs cfg)
     @ flag_arg ''disable_cache'' (cfg_disable_cache cfg) @ flag_arg ''allow_self'' (cfg_allow_self cfg)
     @ text_arg ''cache_key'' (map_option to_string (cfg_cache_key cfg)) @ text_arg ''qlog'' qlog"

text \<open>A configuration that the command line can express: texts on one line, hosts without colon and comma, a known
  node type, and the members without an option at their defaults.\<close>

definition expressible :: "Config \<Rightarrow> bool" where
  "expressible cfg \<longleftrightarrow> list_all any_char (cfg_relay_id cfg) \<and> list_all any_char (cfg_tls_cert_filename cfg) \<and> list_all any_char (cfg_tls_key_filename cfg)
     \<and> list_all (\<lambda>p. list_all any_char (fst p) \<and> CHR '':'' \<notin> set (fst p) \<and> CHR '','' \<notin> set (fst p)) (pg_peers (cfg_peering cfg))
     \<and> cfg_node_type cfg \<in> {kEdge, kVia, kStub} \<and> \<not> cfg_use_reset_wait_strategy cfg \<and> cfg_qlog_path cfg = []
     \<and> pg_check_interval_ms (cfg_peering cfg) = kDefaultPeerCheckIntervalMs \<and> pg_init_queue_size (cfg_peering cfg) = kDefaultPeerInitQueueSize"

lemma long_texts_simps:
  "long_texts n [] = []"
  "long_texts n ((m, v) # as) = (if m = n then (case v of None \<Rightarrow> ''true'' | Some t \<Rightarrow> t) # long_texts n as else long_texts n as)"
  "long_texts n (as @ bs) = long_texts n as @ long_texts n bs"
  "long_texts n (map (\<lambda>p. (m, Some (f p))) ps) = (if m = n then map f ps else [])"
  by (auto simp: long_texts_def comp_def)

lemma config_texts:
  fixes cfg bind_ip port qlog
  defines "as \<equiv> config_args cfg bind_ip port qlog"
  shows "long_texts ''help'' as = []" "long_texts ''cache_duration'' as = []"
    "long_texts ''debug'' as = (if cfg_debug cfg then [''true''] else [])"
    "long_texts ''detached_subs'' as = (if cfg_detached_subs cfg then [''true''] else [])"
    "long_texts ''disable_cache'' as = (if cfg_disable_cache cfg then [''true''] else [])"
    "long_texts ''allow_self'' as = (if cfg_allow_self cfg then [''true''] else [])"
    "long_texts ''bind_ip'' as = [bind_ip]" "long_texts ''port'' as = [to_string port]"
    "long_texts ''endpoint_id'' as = [cfg_relay_id cfg]" "long_texts ''cert'' as = [cfg_tls_cert_filename cfg]"
    "long_texts ''key'' as = [cfg_tls_key_filename cfg]" "long_texts ''qlog'' as = (case qlog of None \<Rightarrow> [] | Some q \<Rightarrow> [q])"
    "long_texts ''sub_dampen_ms'' as = [to_string (cfg_sub_dampen_ms cfg)]" "long_texts ''object_ttl'' as = [to_string (cfg_object_ttl cfg)]"
    "long_texts ''cache_key'' as = (case cfg_cache_key cfg of None \<Rightarrow> [] | Some k \<Rightarrow> [to_string k])"
    "long_texts ''peer_port'' as = [to_string (pg_listening_port (cfg_peering cfg))]"
    "long_texts ''peer'' as = map peer_arg (pg_peers (cfg_peering cfg))"
    "long_texts ''node_type'' as = [node_type_text (cfg_node_type cfg)]"
  by (simp_all add: as_def config_args_def long_texts_simps split: option.split)

lemma peer_arg_chars:
  assumes "list_all any_char (fst p)" "CHR '','' \<notin> set (fst p)"
  shows "list_all any_char (peer_arg p)" "CHR '','' \<notin> set (peer_arg p)" "peer_arg p \<noteq> []"
proof -
  have "\<not> is_digit (CHR '','')" by (simp add: is_digit_def)
  then have "CHR '','' \<notin> set (to_string (snd p))" using show_dec_all(1) by (auto simp: to_string_def)
  moreover have "any_char (CHR '':'')" by (simp add: any_char_def)
  ultimately show "list_all any_char (peer_arg p)" "CHR '','' \<notin> set (peer_arg p)" "peer_arg p \<noteq> []" using assms any_char_dec by (auto simp: peer_arg_def)
qed

lemma long_ok_simps:
  "n \<in> snd ` set relay_names \<Longrightarrow> long_ok (n, Some t) \<longleftrightarrow> list_all any_char t"
  "n \<in> {''help'', ''debug'', ''detached_subs'', ''disable_cache'', ''allow_self''} \<Longrightarrow> long_ok (n, None)"
  by (auto simp: long_ok_def relay_names_def)

lemma relay_long_set: "snd ` set relay_names = {''help'', ''debug'', ''bind_ip'', ''port'', ''endpoint_id'', ''cert'', ''key'', ''qlog'', ''sub_dampen_ms'',
  ''object_ttl'', ''cache_duration'', ''cache_key'', ''detached_subs'', ''disable_cache'', ''allow_self'', ''peer_port'', ''peer'', ''node_type''}"
  by (simp add: relay_names_def)

lemma config_args_ok:
  assumes "expressible cfg" "list_all any_char bind_ip" "pred_option (list_all any_char) qlog"
  shows "list_all long_ok (config_args cfg bind_ip port qlog)"
proof -
  have "list_all any_char (node_type_text t)" for t by (simp add: node_type_text_def any_char_def)
  moreover have "list_all (\<lambda>p. long_ok (''peer'', Some (peer_arg p))) (pg_peers (cfg_peering cfg))"
    using peer_arg_chars(1) assms(1) by (auto simp: expressible_def list_all_iff long_ok_simps relay_long_set)
  moreover have "list_all any_char (cfg_relay_id cfg)" "list_all any_char (cfg_tls_cert_filename cfg)" "list_all any_char (cfg_tls_key_filename cfg)"
    using assms(1) by (simp_all add: expressible_def)
  ultimately show ?thesis using assms(2,3) unfolding config_args_def
    by (cases qlog; cases "cfg_cache_key cfg") (simp_all add: long_ok_simps relay_long_set any_char_dec list.pred_map comp_def)
qed

text \<open>The texts of the options are read as the values they were written from.\<close>

lemma config_stores:
  fixes cfg bind_ip port qlog
  defines "store n \<equiv> texts_store (m_value (relay_option n)) (long_texts n (config_args cfg bind_ip port qlog))"
  assumes "expressible cfg"
  shows "store ''debug'' = Inr (Some (SBool (cfg_debug cfg)))" "store ''detached_subs'' = Inr (Some (SBool (cfg_detached_subs cfg)))"
    "store ''disable_cache'' = Inr (Some (SBool (cfg_disable_cache cfg)))" "store ''allow_self'' = Inr (Some (SBool (cfg_allow_self cfg)))"
    "store ''help'' = Inr (Some (SBool False))" "store ''cache_duration'' = Inr (Some (SU64 60000))"
    "store ''bind_ip'' = Inr (Some (SString bind_ip))" "store ''port'' = Inr (Some (SU16 port))"
    "store ''endpoint_id'' = Inr (Some (SString (cfg_relay_id cfg)))" "store ''cert'' = Inr (Some (SString (cfg_tls_cert_filename cfg)))"
    "store ''key'' = Inr (Some (SString (cfg_tls_key_filename cfg)))" "store ''qlog'' = Inr (map_option SString qlog)"
    "store ''sub_dampen_ms'' = Inr (Some (SU32 (cfg_sub_dampen_ms cfg)))" "store ''object_ttl'' = Inr (Some (SU32 (cfg_object_ttl cfg)))"
    "store ''cache_key'' = Inr (map_option SU64 (cfg_cache_key cfg))"
    "store ''peer_port'' = Inr (Some (SU16 (pg_listening_port (cfg_peering cfg))))"
    "store ''peer'' = Inr (if pg_peers (cfg_peering cfg) = [] then None else Some (SStrings (map peer_arg (pg_peers (cfg_peering cfg)))))"
    "store ''node_type'' = Inr (Some (SString (node_type_text (cfg_node_type cfg))))"
proof -
  have "numeral_value ''60000'' = Some 60000" by (simp add: numeral_value_def int_digit_def)
  then have n: "integer_parser ''60000'' = (Inr 60000 :: u64 opt_res)" by (simp add: integer_parser_value)
  have "\<forall>t \<in> set (map peer_arg (pg_peers (cfg_peering cfg))). t \<noteq> [] \<and> CHR '','' \<notin> set t"
    using peer_arg_chars(2,3) assms(2) by (auto simp: expressible_def list_all_iff)
  from parse_value_items [OF this, of "[]"]
  show "store ''peer'' = Inr (if pg_peers (cfg_peering cfg) = [] then None else Some (SStrings (map peer_arg (pg_peers (cfg_peering cfg)))))"
    by (simp add: store_def texts_store_def relay_values config_texts standard_value_make_def)
  show "store ''cache_duration'' = Inr (Some (SU64 60000))"
    by (simp add: store_def texts_store_def relay_values config_texts standard_value_make_def default_value_def parse_value_def n)
qed (simp_all add: store_def texts_store_def relay_values config_texts standard_value_make_def default_value_def parse_value_def
    IsTrueText_def IsFalseText_def split: option.split)

lemma add_peers:
  assumes "list_all (\<lambda>p. CHR '':'' \<notin> set (fst p)) ps"
  shows "ofold add_peer (map peer_arg ps) cfg = Inr (cfg\<lparr>cfg_peering := (cfg_peering cfg)\<lparr>pg_peers := pg_peers (cfg_peering cfg) @ ps\<rparr>\<rparr>)"
  using assms
proof (induction ps arbitrary: cfg)
  case (Cons p ps)
  have "unat (snd p) < 2 ^ LENGTH(16)" by (rule unsigned_less)
  then have "parse_peer (peer_arg p) = Inr p"
    using Cons.prems parse_peer_split [of "fst p" "to_string (snd p)"] by (simp add: peer_arg_def to_string_def stoi_show_dec)
  then show ?case using Cons by (simp add: add_peer_def)
qed simp

lemma node_type_named_text: "t \<in> {kEdge, kVia, kStub} \<Longrightarrow> node_type_named (node_type_text t) = Inr t"
  by (auto simp: node_type_named_def node_type_text_def kEdge_def kVia_def kStub_def)

text \<open>What the parse result of the arguments of a configuration answers.\<close>

lemma config_reads:
  assumes "relay_hash hash" "option_order options" and cfg: "expressible cfg" "list_all any_char bind_ip" "pred_option (list_all any_char) qlog"
    and pr: "parse_command_line hash options (map long_arg (config_args cfg bind_ip port qlog)) = Inr pr"
  shows "PR_count pr ''help'' = 0" "PR_count pr ''qlog'' = (case qlog of None \<Rightarrow> 0 | Some q \<Rightarrow> 1)"
    "PR_count pr ''peer'' = length (pg_peers (cfg_peering cfg))" "PR_count pr ''node_type'' = 1"
    "PR_count pr ''cache_key'' = (case cfg_cache_key cfg of None \<Rightarrow> 0 | Some k \<Rightarrow> 1)"
    "opt_as get_bool pr ''debug'' = Inr (cfg_debug cfg)"
    "opt_flag pr ''debug'' = Inr (cfg_debug cfg)" "opt_flag pr ''detached_subs'' = Inr (cfg_detached_subs cfg)"
    "opt_flag pr ''disable_cache'' = Inr (cfg_disable_cache cfg)" "opt_flag pr ''allow_self'' = Inr (cfg_allow_self cfg)"
    "opt_as get_string pr ''bind_ip'' = Inr bind_ip" "opt_as get_u16 pr ''port'' = Inr port"
    "opt_as get_string pr ''endpoint_id'' = Inr (cfg_relay_id cfg)" "opt_as get_string pr ''cert'' = Inr (cfg_tls_cert_filename cfg)"
    "opt_as get_string pr ''key'' = Inr (cfg_tls_key_filename cfg)" "opt_as get_u32 pr ''sub_dampen_ms'' = Inr (cfg_sub_dampen_ms cfg)"
    "opt_as get_u32 pr ''object_ttl'' = Inr (cfg_object_ttl cfg)" "opt_as get_u16 pr ''peer_port'' = Inr (pg_listening_port (cfg_peering cfg))"
    "opt_as get_string pr ''node_type'' = Inr (node_type_text (cfg_node_type cfg))"
    "qlog = Some q \<Longrightarrow> opt_as get_string pr ''qlog'' = Inr q" "cfg_cache_key cfg = Some k \<Longrightarrow> opt_as get_u64 pr ''cache_key'' = Inr k"
    "pg_peers (cfg_peering cfg) \<noteq> [] \<Longrightarrow> opt_as get_strings pr ''peer'' = Inr (map peer_arg (pg_peers (cfg_peering cfg)))"
    "opt_as get_u64 pr ''cache_duration'' = Inr 60000"
proof -
  note as = relay_as [OF assms(1,2) config_args_ok [OF cfg] pr, unfolded relay_long_set]
  note st = config_stores [OF cfg(1), of bind_ip port qlog]
  show "opt_flag pr ''debug'' = Inr (cfg_debug cfg)" "opt_flag pr ''detached_subs'' = Inr (cfg_detached_subs cfg)"
    "opt_flag pr ''disable_cache'' = Inr (cfg_disable_cache cfg)" "opt_flag pr ''allow_self'' = Inr (cfg_allow_self cfg)"
    unfolding opt_flag_def by (simp_all add: as st stored_as_def get_bool_def) (simp_all add: config_texts)
  have "opt_as get_string pr ''qlog'' = stored_as get_string (Inr (map_option SString qlog))"
    "opt_as get_u64 pr ''cache_key'' = stored_as get_u64 (Inr (map_option SU64 (cfg_cache_key cfg)))" by (simp_all add: as(2) st)
  then show "qlog = Some q \<Longrightarrow> opt_as get_string pr ''qlog'' = Inr q" "cfg_cache_key cfg = Some k \<Longrightarrow> opt_as get_u64 pr ''cache_key'' = Inr k"
    by (simp_all add: stored_as_def get_defs)
qed (simp_all add: relay_as [OF assms(1,2) config_args_ok [OF cfg] pr, unfolded relay_long_set] config_stores [OF cfg(1), of bind_ip port qlog] stored_as_def get_defs,
  simp_all add: config_texts split: option.split)

lemma config_switches:
  assumes "relay_hash hash" "option_order options" and cfg: "expressible cfg" "list_all any_char bind_ip" "pred_option (list_all any_char) qlog"
    and pr: "parse_command_line hash options (map long_arg (config_args cfg bind_ip port qlog)) = Inr pr"
  shows "init_switches pr c = Inr (c\<lparr>cfg_disable_cache := cfg_disable_cache cfg \<or> cfg_disable_cache c, cfg_detached_subs := cfg_detached_subs cfg \<or> cfg_detached_subs c,
      cfg_allow_self := cfg_allow_self cfg \<or> cfg_allow_self c,
      cfg_peering := (cfg_peering c)\<lparr>pg_peers := pg_peers (cfg_peering c) @ pg_peers (cfg_peering cfg)\<rparr>, cfg_node_type := cfg_node_type cfg\<rparr>)"
proof -
  note r = config_reads [OF assms]
  have "(if PR_count pr ''peer'' = 0 then Inr c else obind (opt_as get_strings pr ''peer'') (\<lambda>peers. ofold add_peer peers c)) =
      Inr (c\<lparr>cfg_peering := (cfg_peering c)\<lparr>pg_peers := pg_peers (cfg_peering c) @ pg_peers (cfg_peering cfg)\<rparr>\<rparr>)" for c :: Config
    using add_peers [of "pg_peers (cfg_peering cfg)" c] cfg(1) r(22) by (auto simp: r(3) expressible_def list_all_iff)
  moreover have "node_type_named (node_type_text (cfg_node_type cfg)) = Inr (cfg_node_type cfg)"
    using node_type_named_text cfg(1) by (simp add: expressible_def)
  ultimately show ?thesis unfolding init_switches_def Let_def r(7-10) obind_simps by (simp add: r)
qed

lemma config_line:
  assumes "relay_hash hash" "option_order options" and cfg: "expressible cfg" "list_all any_char bind_ip" "pred_option (list_all any_char) qlog"
    and files: "cfg_tls_cert_filename cfg = [] \<or> exists (cfg_tls_cert_filename cfg)" "cfg_tls_key_filename cfg = [] \<or> exists (cfg_tls_key_filename cfg)"
  shows "\<exists>pr. parse_command_line hash options (map long_arg (config_args cfg bind_ip port qlog)) = Inr pr \<and> PR_count pr ''help'' = 0
    \<and> InitConfig exists tconfig pr (Config_make hostname ttl dampen listening_port) =
        Inr (cfg, server_config tconfig (case qlog of None \<Rightarrow> [] | Some q \<Rightarrow> q) bind_ip port cfg)"
proof -
  note assms' = assms(1,2) cfg
  have "\<forall>n \<in> snd ` set relay_names. \<exists>s. texts_store (m_value (relay_option n)) (long_texts n (config_args cfg bind_ip port qlog)) = Inr s"
    unfolding relay_long_set by (simp add: config_stores [OF cfg(1), of bind_ip port qlog])
  then obtain pr where pr: "parse_command_line hash options (map long_arg (config_args cfg bind_ip port qlog)) = Inr pr"
    using relay_parses [OF assms(1,2) config_args_ok [OF cfg]] by blast
  note r = config_reads [OF assms' pr]
  have q: "(if PR_count pr ''qlog'' = 0 then Inr [] else opt_as get_string pr ''qlog'') = Inr (case qlog of None \<Rightarrow> [] | Some q \<Rightarrow> q)"
    by (cases qlog) (simp_all add: r)
  have k: "(if PR_count pr ''cache_key'' = 0 then Inr None else obind (opt_as get_u64 pr ''cache_key'') (\<lambda>k. Inr (Some k))) = Inr (cfg_cache_key cfg)"
    by (cases "cfg_cache_key cfg") (simp_all add: r)
  have e: "exists_or_exit exists (cfg_tls_cert_filename cfg) = Inr ()" "exists_or_exit exists (cfg_tls_key_filename cfg) = Inr ()"
    using files by (auto simp: exists_or_exit_def)
  let ?set = "\<lambda>c. c\<lparr>cfg_debug := cfg_debug cfg, cfg_tls_cert_filename := cfg_tls_cert_filename cfg, cfg_tls_key_filename := cfg_tls_key_filename cfg,
    cfg_peering := (cfg_peering c)\<lparr>pg_listening_port := pg_listening_port (cfg_peering cfg)\<rparr>, cfg_object_ttl := cfg_object_ttl cfg,
    cfg_sub_dampen_ms := cfg_sub_dampen_ms cfg, cfg_relay_id := cfg_relay_id cfg, cfg_cache_key := cfg_cache_key cfg\<rparr>"
  let ?start = "Config_make hostname ttl dampen listening_port"
  have off: "\<not> cfg_disable_cache ?start" "\<not> cfg_detached_subs ?start" "\<not> cfg_allow_self ?start" "pg_peers (cfg_peering ?start) = []" by (simp_all add: Config_make_def InitDefaults_def)
  let ?c = "?start\<lparr>cfg_disable_cache := cfg_disable_cache cfg, cfg_detached_subs := cfg_detached_subs cfg, cfg_allow_self := cfg_allow_self cfg,
    cfg_peering := (cfg_peering ?start)\<lparr>pg_peers := pg_peers (cfg_peering cfg)\<rparr>, cfg_node_type := cfg_node_type cfg\<rparr>"
  define c1 where "c1 = ?c"
  have s: "init_switches pr ?start = Inr c1" using config_switches [OF assms' pr, of ?start] off by (simp add: c1_def)
  have fin: "?set c1 = cfg" using cfg(1) by (cases cfg, cases "cfg_peering cfg") (simp add: c1_def Config_make_def InitDefaults_def expressible_def)
  have "cfg_cache_key c1 = None" by (simp add: c1_def Config_make_def InitDefaults_def)
  then have "InitConfig exists tconfig pr ?start = Inr (cfg, server_config tconfig (case qlog of None \<Rightarrow> [] | Some q \<Rightarrow> q) bind_ip port cfg)"
    unfolding InitConfig_def q s obind_simps r(6,11-18) Let_def e by (simp only: k obind_simps fin)
  then show ?thesis using pr r(1) by blast
qed

text \<open>C21. Every configuration can be given on the command line.  A configuration (texts on one line, hosts without colon and comma, a
  known node type, certificate files that exist or are not set) is written as long options, its peers one by
  one.  The parser accepts the arguments, whatever the order of its table, and \<open>InitConfig\<close> makes of them exactly that
  configuration, every number unchanged, and the server configuration that belongs to it.\<close>

theorem command_line_configures:
  assumes "relay_hash hash" "option_order options" and cfg: "expressible cfg" "list_all any_char bind_ip" "pred_option (list_all any_char) qlog"
    and files: "cfg_tls_cert_filename cfg = [] \<or> exists (cfg_tls_cert_filename cfg)" "cfg_tls_key_filename cfg = [] \<or> exists (cfg_tls_key_filename cfg)"
  shows "\<exists>pr. parse_command_line hash options (map long_arg (config_args cfg bind_ip port qlog)) = Inr pr \<and> PR_count pr ''help'' = 0
    \<and> InitConfig exists tconfig pr (Config_make hostname ttl dampen listening_port) =
        Inr (cfg, server_config tconfig (case qlog of None \<Rightarrow> [] | Some q \<Rightarrow> q) bind_ip port cfg)"
  using config_line [OF assms] .

text \<open>A configuration with two peers, and a hash for the witness.\<close>

definition sample_hash :: "string \<Rightarrow> u64" where
  "sample_hash s = foldl (\<lambda>h c. 31 * h + of_char c) 0 s"

definition sample_config :: Config where
  "sample_config = (Config_make ''relay-1'' 0 0 0)\<lparr>cfg_debug := True, cfg_allow_self := True, cfg_node_type := kVia, cfg_cache_key := Some 7,
     cfg_object_ttl := 3000, cfg_sub_dampen_ms := 500,
     cfg_peering := \<lparr>pg_listening_port = 33500, pg_peers = [(''a.example'', 33434), (''10.0.0.1'', 4433)],
       pg_check_interval_ms = kDefaultPeerCheckIntervalMs, pg_init_queue_size = kDefaultPeerInitQueueSize\<rparr>\<rparr>"

lemma sample_hash_ok: "relay_hash sample_hash"
  by (simp add: relay_hash_def relay_names_def sample_hash_def)

lemma relay_table_order: "option_order relay_table"
  by (simp add: option_order_def relay_options_table relay_table_distinct)

lemma sample_config_ok: "expressible sample_config"
  by (simp add: expressible_def sample_config_def Config_make_def InitDefaults_def any_char_def)

definition sample_tconfig :: TransportConfig where
  "sample_tconfig = \<lparr>tc_tls_cert_filename = [], tc_tls_key_filename = [], tc_time_queue_init_queue_size = 1000, tc_time_queue_max_duration = 2000,
     tc_time_queue_bucket_interval = 1, tc_time_queue_rx_size = 1000, tc_debug = False, tc_idle_timeout_ms = 30000,
     tc_use_reset_wait_strategy = False, tc_quic_qlog_path = [], tc_max_connections = 1\<rparr>"

theorem command_line_configures_witness:
  "\<exists>pr. parse_command_line sample_hash relay_table (map long_arg (config_args sample_config ''0.0.0.0'' 4433 None)) = Inr pr
    \<and> InitConfig (\<lambda>_. False) sample_tconfig pr (Config_make ''host'' 1 2 3) = Inr (sample_config, server_config sample_tconfig [] ''0.0.0.0'' 4433 sample_config)"
proof -
  have "list_all any_char ''0.0.0.0''" by (simp add: any_char_def)
  moreover have "cfg_tls_cert_filename sample_config = []" "cfg_tls_key_filename sample_config = []"
    by (simp_all add: sample_config_def Config_make_def InitDefaults_def)
  ultimately show ?thesis
    using command_line_configures [OF sample_hash_ok relay_table_order sample_config_ok, of "''0.0.0.0''" None "\<lambda>_. False" 4433 sample_tconfig "''host''" 1 2 3] by auto
qed

end
