(* ===== verification/Relay_Main.thy ===== *)
theory Relay_Main
  imports Peer_Dispatch Relay Relay_Config
begin

text \<open>
  The start of the relay: \<open>main\<close> (\<open>src/src/main.cc\<close>) with the constructors of the two managers
  (\<open>peering/peer_manager.cc\<close>, \<open>client_manager.cc\<close>), up to the wait for a signal, and each way in which \<open>main\<close> ends
  before it.  The wait and what follows it are in \<open>Signals\<close>.

  Shown: a relay that \<open>main\<close> starts is well formed, so that the theorems on reachable managers apply to it; an
  announce that arrives before the managers are connected dereferences a null pointer.
\<close>

section \<open>The managers\<close>

definition str_bytes :: "string \<Rightarrow> bytes" where
  "str_bytes s = map of_char s"

definition own_node_info :: "(string \<Rightarrow> u64) \<Rightarrow> Config \<Rightarrow> NodeInfo" where
  "own_node_info hash cfg = NodeInfo_default\<lparr>ni_contact := str_bytes (cfg_relay_id cfg), ni_id := hash (cfg_relay_id cfg), ni_type := cfg_node_type cfg\<rparr>"

text \<open>The configurations of the transports: the server for inbound peers and the client of an outbound session.\<close>

definition peer_server_config :: "TransportConfig \<Rightarrow> Config \<Rightarrow> TransportConfig" where
  "peer_server_config tconfig cfg = tconfig\<lparr>tc_debug := False, tc_tls_cert_filename := cfg_tls_cert_filename cfg,
     tc_tls_key_filename := cfg_tls_key_filename cfg, tc_time_queue_init_queue_size := pg_init_queue_size (cfg_peering cfg),
     tc_time_queue_max_duration := cfg_object_ttl cfg * 2, tc_idle_timeout_ms := 5000, tc_max_connections := 100\<rparr>"

definition peer_client_config :: "TransportConfig \<Rightarrow> Config \<Rightarrow> TransportConfig" where
  "peer_client_config tconfig cfg = (let tc = tconfig\<lparr>tc_tls_cert_filename := cfg_tls_cert_filename cfg,
     tc_tls_key_filename := cfg_tls_key_filename cfg, tc_time_queue_init_queue_size := pg_init_queue_size (cfg_peering cfg),
     tc_time_queue_max_duration := cfg_object_ttl cfg * 2, tc_debug := cfg_debug cfg\<rparr> in
     if cfg_tls_cert_filename cfg = [] then tc\<lparr>tc_tls_cert_filename := [], tc_tls_key_filename := []\<rparr> else tc)"

text \<open>\<open>while (server_transport_->Status() == kConnecting)\<close>; the argument are the successive readings.\<close>

partial_function (option) await_server :: "(nat \<Rightarrow> transport_status) \<Rightarrow> nat \<Rightarrow> nat option" where
  "await_server status n = (if status n = T_Connecting then await_server status (Suc n) else Some n)"

definition PeerManager_init :: "NodeInfo \<Rightarrow> State \<Rightarrow> PeerManager" where
  "PeerManager_init node_info state = \<lparr>pm_info_base = InfoBase_init, pm_sessions = [], pm_next = 0, pm_server = [], pm_client = [],
     pm_node_info = node_info, pm_client_manager = False, pm_stop = False, pm_state = state, pm_log = []\<rparr>"

text \<open>The constructor; \<open>None\<close> if the server transport stays in the state connecting for ever.\<close>

definition PeerManager_make :: "(string \<Rightarrow> u64) \<Rightarrow> quicr_api \<Rightarrow> (nat \<Rightarrow> transport_status) \<Rightarrow> Config \<Rightarrow> State \<Rightarrow> unit pm_res option" where
  "PeerManager_make hash q status cfg state =
     (case await_server status 0 of
        None \<Rightarrow> None
      | Some _ \<Rightarrow> Some (foreach (\<lambda>_. CreatePeerSession q) (pg_peers (cfg_peering cfg)) (PeerManager_init (own_node_info hash cfg) state)))"

definition PeerManager_destroy :: "PeerManager \<Rightarrow> PeerManager" where
  "PeerManager_destroy pm = release (pm\<lparr>pm_stop := True, pm_client := [], pm_server := []\<rparr>)"

definition State_init :: State where
  "State_init = \<lparr>st_pub_namespace_active = [], st_pub_subscribes = []\<rparr>"

definition ClientManager_make :: "PeerManager \<Rightarrow> ClientManager" where
  "ClientManager_make peer_manager = \<lparr>cm_requests = [], cm_pub_subscribes_by_req_id = [], cm_subscribes_namespaces = [], cm_subscribes = [],
     cm_subscribe_alias_req_id = [], cm_subscribe_active = [], cm_track_rankings = [], cm_handlers = [], cm_next_handler = 0, cm_next_ns = 0,
     cm_next_ranking = 0, cm_env = \<lparr>se_pub = \<lparr>pe_tracks = [], pe_log = []\<rparr>, se_next = 0, se_ns = [], se_rankings = [], se_log = []\<rparr>,
     cm_peer = peer_manager, cm_log = []\<rparr>"

definition SetClientManager :: "PeerManager \<Rightarrow> PeerManager" where
  "SetClientManager pm = pm\<lparr>pm_client_manager := True\<rparr>"

text \<open>What the client manager reads of the configuration.\<close>

definition configure :: "Config \<Rightarrow> cm_api \<Rightarrow> cm_api" where
  "configure cfg api = api\<lparr>c_sub_dampen_ms := cfg_sub_dampen_ms cfg, c_allow_self := cfg_allow_self cfg, c_detached_subs := cfg_detached_subs cfg,
     c_sub := (c_sub api)\<lparr>sb_object_ttl := cfg_object_ttl cfg, sb_disable_cache := cfg_disable_cache cfg\<rparr>\<rparr>"

section \<open>main\<close>

text \<open>The environment of the program: \<open>std::hash\<close>, the order of the option table, the file system, the host name, the uninitialised members
  of \<open>Config\<close>, libquicr's default transport configuration and the readings of its server status, the base
  classes, and what constructing and starting \<open>quicr::Server\<close> gives (an exception, or whether it is ready).\<close>

record main_env =
  me_hash :: "string \<Rightarrow> u64"
  me_options :: OptionMap
  me_exists :: "string \<Rightarrow> bool"
  me_hostname :: string
  me_junk :: "u32 \<times> u32 \<times> u16"
  me_tconfig :: TransportConfig
  me_status :: "nat \<Rightarrow> transport_status"
  me_api :: cm_api
  me_start :: "ServerConfig \<Rightarrow> bool res"

text \<open>How \<open>main\<close> ends, or that it has started the relay and waits for a signal.\<close>

datatype main_result =
    Returns int
  | Exits int
  | Aborts stop          \<comment> \<open>\<open>std::terminate\<close>: no handler for the exception\<close>
  | Undefined cpp_error
  | Hangs
  | Runs cm_api ClientManager u64   \<comment> \<open>with the cache duration\<close>

text \<open>The \<open>try\<close> block.\<close>

definition start_server :: "main_env \<Rightarrow> ParseResult \<Rightarrow> Config \<Rightarrow> ServerConfig \<Rightarrow> PeerManager \<Rightarrow> main_result" where
  "start_server env result cfg scfg pm =
     (case opt_as get_u64 result ''cache_duration'' of
        Inl _ \<Rightarrow> Returns 1
      | Inr cache_duration \<Rightarrow>
          (case me_start env scfg of
             Inl e \<Rightarrow> if is_exception e then Returns 1 else Undefined e
           | Inr ready \<Rightarrow> if \<not> ready then Exits (-2)
               else Runs (configure cfg (me_api env)) (ClientManager_make (SetClientManager pm)) cache_duration))"

definition main :: "main_env \<Rightarrow> string list \<Rightarrow> main_result" where
  "main env args =
     (case parse_command_line (me_hash env) (me_options env) args of
        Inl e \<Rightarrow> Aborts (Opt_Exception e)
      | Inr result \<Rightarrow>
          if PR_count result ''help'' \<noteq> 0 then Returns 0
          else (case me_junk env of (ttl, dampen, port) \<Rightarrow>
            (case InitConfig (me_exists env) (me_tconfig env) result (Config_make (me_hostname env) ttl dampen port) of
               Inl (Exit n) \<Rightarrow> Exits n
             | Inl e \<Rightarrow> Aborts e
             | Inr (cfg, scfg) \<Rightarrow>
                 (case PeerManager_make (me_hash env) (c_quicr (me_api env)) (me_status env) cfg State_init of
                    None \<Rightarrow> Hangs
                  | Some (_, Inl e) \<Rightarrow> if is_exception e then Aborts (Std_Exception e) else Undefined e
                  | Some (pm, Inr _) \<Rightarrow> start_server env result cfg scfg pm))))"

section \<open>A started relay\<close>

lemma await_server_iff: "(\<exists>k. await_server status n = Some k) \<longleftrightarrow> (\<exists>m \<ge> n. status m \<noteq> T_Connecting)"
proof
  have "\<exists>m \<ge> n. status m \<noteq> T_Connecting" if "await_server status n = Some k" for k
    by (rule await_server.raw_induct [OF _ that, of "\<lambda>status n k. \<exists>m \<ge> n. status m \<noteq> T_Connecting"]) (metis Suc_leD order_refl)
  then show "\<exists>k. await_server status n = Some k \<Longrightarrow> \<exists>m \<ge> n. status m \<noteq> T_Connecting" by blast
next
  assume "\<exists>m \<ge> n. status m \<noteq> T_Connecting"
  then obtain m where "n \<le> m" "status m \<noteq> T_Connecting" by blast
  then show "\<exists>k. await_server status n = Some k"
  proof (induction rule: inc_induct)
    case base
    then show ?case by (subst await_server.simps) simp
  next
    case (step n)
    then show ?case by (subst await_server.simps) auto
  qed
qed

lemma client_flag_session:
  "session_do r f (pm\<lparr>pm_client_manager := b\<rparr>) = apfst (\<lambda>p. p\<lparr>pm_client_manager := b\<rparr>) (session_do r f pm)"
  by (simp add: session_do_def on_session_def split: option.split prod.split)

text \<open>Opening a session does not use the client manager.\<close>

lemma CreatePeerSession_flag:
  "CreatePeerSession q (SetClientManager pm) = apfst SetClientManager (CreatePeerSession q pm)"
proof -
  obtain pm1 r where n: "new_session False 0 pm = (pm1, r)" by (cases "new_session False 0 pm")
  then have n': "new_session False 0 (SetClientManager pm) = (SetClientManager pm1, r)" by (auto simp: new_session_def SetClientManager_def)
  obtain pm2 x where s: "session_do r (PS_Connect (q_transport q)) pm1 = (pm2, x)" by (cases "session_do r (PS_Connect (q_transport q)) pm1")
  then have s': "session_do r (PS_Connect (q_transport q)) (SetClientManager pm1) = (SetClientManager pm2, x)"
    unfolding SetClientManager_def client_flag_session by simp
  show ?thesis unfolding CreatePeerSession_def n n' Let_def prod.case s s'
    by (cases x) (simp_all add: SetClientManager_def release_def all_sessions_def split: option.split)
qed

lemma peers_flag:
  "foreach (\<lambda>_. CreatePeerSession q) peers (SetClientManager pm) = apfst SetClientManager (foreach (\<lambda>_. CreatePeerSession q) peers pm)"
proof (induction peers arbitrary: pm)
  case (Cons p peers)
  obtain pm1 x where "CreatePeerSession q pm = (pm1, x)" by (cases "CreatePeerSession q pm")
  then show ?case using Cons CreatePeerSession_flag [of q pm] by (cases x) simp_all
qed simp

lemma fresh_manager_wf: "conn_wf (SetClientManager (PeerManager_init ni st))"
  using ib_wf_init by (simp add: conn_wf_def linked_def pm_wf_def SetClientManager_def PeerManager_init_def all_sessions_def live_of_def)
    (simp add: InfoBase_init_def)

lemma CreatePeerSession_keeps:
  "pm_state (fst (CreatePeerSession q pm)) = pm_state pm \<and> pm_info_base (fst (CreatePeerSession q pm)) = pm_info_base pm
    \<and> pm_client_manager (fst (CreatePeerSession q pm)) = pm_client_manager pm"
  by (auto simp: CreatePeerSession_def new_session_def session_do_def on_session_def andthen_def release_def Let_def split: option.split prod.split)

text \<open>What the constructor of the peering manager leaves, but for the missing client manager.\<close>

lemma PeerManager_make_wf:
  assumes "PeerManager_make hash q status cfg state = Some (pm, x)"
  shows "conn_wf (SetClientManager pm) \<and> x = Inr () \<and> pm_state pm = state \<and> ib_announces (pm_info_base pm) = [] \<and> \<not> pm_client_manager pm"
proof -
  let ?P = "\<lambda>pm. conn_wf (SetClientManager pm) \<and> pm_state pm = state \<and> ib_announces (pm_info_base pm) = [] \<and> \<not> pm_client_manager pm"
  have "snd (CreatePeerSession q pm) = Inr () \<and> ?P (fst (CreatePeerSession q pm))" if "?P pm" for pm
    using CreatePeerSession_conn_wf [of "SetClientManager pm" q] that CreatePeerSession_flag [of q pm] CreatePeerSession_keeps [of q pm] by simp
  moreover have "?P (PeerManager_init (own_node_info hash cfg) state)" using fresh_manager_wf by (simp add: PeerManager_init_def InfoBase_init_def)
  ultimately have "snd (foreach (\<lambda>_. CreatePeerSession q) (pg_peers (cfg_peering cfg)) (PeerManager_init (own_node_info hash cfg) state)) = Inr ()
    \<and> ?P (fst (foreach (\<lambda>_. CreatePeerSession q) (pg_peers (cfg_peering cfg)) (PeerManager_init (own_node_info hash cfg) state)))"
    by (intro foreach_inv) simp_all
  then show ?thesis using assms by (auto simp: PeerManager_make_def split: option.splits)
qed

lemma fresh_clients_inv:
  assumes "pm_wf pm" "pm_state pm = State_init"
  shows "client_inv api (ClientManager_make pm)"
  using assms by (simp add: client_inv_def cm_wf_def subs_wf_def ClientManager_make_def pub_subscribes_def State_init_def rankings_wf_def namespaces_wf_def subscriptions_def mat_def)

text \<open>C7. The relay that \<open>main\<close> starts.  Let the arguments be those of a configuration whose certificate files exist, and let the peering
  server leave the state connecting.  Then \<open>main\<close> neither aborts nor hangs: it goes on to start the client side with the server
  configuration of that configuration.  An exception there makes it return 1, a server that is not ready makes it exit with
  -2, and otherwise the relay runs with the peering manager that its constructor makes, connected to an empty client manager.  The client manager
  and the connection tables of the peering manager are then well formed after any sequence of client and peer operations.\<close>

theorem main_starts_relay:
  assumes opts: "relay_hash (me_hash env)" "option_order (me_options env)"
    and cfg: "expressible cfg" "list_all any_char bind_ip" "pred_option (list_all any_char) qlog"
    and files: "cfg_tls_cert_filename cfg = [] \<or> me_exists env (cfg_tls_cert_filename cfg)" "cfg_tls_key_filename cfg = [] \<or> me_exists env (cfg_tls_key_filename cfg)"
    and up: "\<exists>n. me_status env n \<noteq> T_Connecting" and std: "msg_throws_std (q_msg (c_quicr (me_api env)))"
  shows "\<exists>pm. PeerManager_make (me_hash env) (c_quicr (me_api env)) (me_status env) cfg State_init = Some (pm, Inr ())
    \<and> main env (map long_arg (config_args cfg bind_ip port qlog)) =
      (case me_start env (server_config (me_tconfig env) (case qlog of None \<Rightarrow> [] | Some q \<Rightarrow> q) bind_ip port cfg) of
         Inl e \<Rightarrow> if is_exception e then Returns 1 else Undefined e
       | Inr ready \<Rightarrow> if \<not> ready then Exits (-2) else Runs (configure cfg (me_api env)) (ClientManager_make (SetClientManager pm)) 60000)
    \<and> (\<forall>cm'. client_reach (configure cfg (me_api env)) (ClientManager_make (SetClientManager pm)) cm' \<longrightarrow> client_inv (configure cfg (me_api env)) cm')
    \<and> (\<forall>pm'. conn_reach (c_quicr (me_api env)) (SetClientManager pm) pm' \<longrightarrow> conn_wf pm')"
proof -
  obtain ttl dampen lport where junk: "me_junk env = (ttl, dampen, lport)" by (metis prod_cases3)
  obtain pr where pr: "parse_command_line (me_hash env) (me_options env) (map long_arg (config_args cfg bind_ip port qlog)) = Inr pr" "PR_count pr ''help'' = 0"
    and ic: "InitConfig (me_exists env) (me_tconfig env) pr (Config_make (me_hostname env) ttl dampen lport) =
        Inr (cfg, server_config (me_tconfig env) (case qlog of None \<Rightarrow> [] | Some q \<Rightarrow> q) bind_ip port cfg)"
    using config_line [OF opts cfg files] by blast
  have cd: "opt_as get_u64 pr ''cache_duration'' = Inr 60000" using config_reads(23) [OF opts cfg pr(1)] .
  have "\<exists>m \<ge> 0. me_status env m \<noteq> T_Connecting" using up by simp
  then obtain k where "await_server (me_status env) 0 = Some k" unfolding await_server_iff [symmetric] by blast
  then obtain pm x where pm: "PeerManager_make (me_hash env) (c_quicr (me_api env)) (me_status env) cfg State_init = Some (pm, x)"
    by (simp add: PeerManager_make_def) (metis surj_pair)
  note wf = PeerManager_make_wf [OF pm]
  let ?cm = "ClientManager_make (SetClientManager pm)" and ?api = "configure cfg (me_api env)"
  have "main env (map long_arg (config_args cfg bind_ip port qlog)) =
      start_server env pr cfg (server_config (me_tconfig env) (case qlog of None \<Rightarrow> [] | Some q \<Rightarrow> q) bind_ip port cfg) pm"
    using wf by (simp add: main_def pr junk ic pm)
  moreover have "pm_wf (SetClientManager pm)" using wf by (simp add: conn_wf_def linked_def)
  then have "client_inv ?api ?cm" using wf by (intro fresh_clients_inv) (simp_all add: SetClientManager_def)
  moreover have "c_quicr ?api = c_quicr (me_api env)" by (simp add: configure_def)
  ultimately show ?thesis using client_reach_inv [of ?api ?cm] conn_reach_wf [of "c_quicr (me_api env)" "SetClientManager pm"] std wf pm
    by (intro exI [of _ pm]) (simp add: start_server_def cd)
qed

definition sample_env :: main_env where
  "sample_env = \<lparr>me_hash = sample_hash, me_options = relay_table, me_exists = (\<lambda>_. False), me_hostname = ''host'', me_junk = (1, 2, 3),
     me_tconfig = sample_tconfig, me_status = (\<lambda>n. if n < 3 then T_Connecting else T_Ready), me_api = sample_cm_api, me_start = (\<lambda>_. Inr True)\<rparr>"

theorem main_starts_relay_witness:
  "\<exists>pm. main sample_env (map long_arg (config_args sample_config ''::'' 4433 None)) =
      Runs (configure sample_config sample_cm_api) (ClientManager_make (SetClientManager pm)) 60000
    \<and> client_inv (configure sample_config sample_cm_api) (ClientManager_make (SetClientManager pm)) \<and> conn_wf (SetClientManager pm)"
proof -
  have "relay_hash (me_hash sample_env)" "option_order (me_options sample_env)" using sample_hash_ok relay_table_order by (simp_all add: sample_env_def)
  moreover have "list_all any_char ''::''" "pred_option (list_all any_char) None" by (simp_all add: any_char_def)
  moreover have files: "cfg_tls_cert_filename sample_config = [] \<or> me_exists sample_env (cfg_tls_cert_filename sample_config)"
    "cfg_tls_key_filename sample_config = [] \<or> me_exists sample_env (cfg_tls_key_filename sample_config)"
    by (simp_all add: sample_config_def Config_make_def InitDefaults_def)
  moreover have "me_status sample_env 3 \<noteq> T_Connecting" by (simp add: sample_env_def)
  then have "\<exists>n. me_status sample_env n \<noteq> T_Connecting" by blast
  moreover have "msg_throws_std (q_msg (c_quicr (me_api sample_env)))" using sample_throws by (simp add: sample_env_def)
  ultimately obtain pm where pm: "main sample_env (map long_arg (config_args sample_config ''::'' 4433 None)) =
      (case me_start sample_env (server_config (me_tconfig sample_env) [] ''::'' 4433 sample_config) of
         Inl e \<Rightarrow> if is_exception e then Returns 1 else Undefined e
       | Inr ready \<Rightarrow> if \<not> ready then Exits (-2) else Runs (configure sample_config (me_api sample_env)) (ClientManager_make (SetClientManager pm)) 60000)"
    "\<forall>cm'. client_reach (configure sample_config (me_api sample_env)) (ClientManager_make (SetClientManager pm)) cm' \<longrightarrow> client_inv (configure sample_config (me_api sample_env)) cm'"
    "\<forall>pm'. conn_reach (c_quicr (me_api sample_env)) (SetClientManager pm) pm' \<longrightarrow> conn_wf pm'"
    using main_starts_relay [of sample_env sample_config "''::''" None 4433] sample_config_ok unfolding option.case by blast
  have "me_start sample_env c = Inr True" "me_api sample_env = sample_cm_api" for c by (simp_all add: sample_env_def)
  then show ?thesis using pm cr_refl conn_refl by (intro exI [of _ pm]) simp
qed

section \<open>Before the managers are connected\<close>

lemma OnNewConnection_flag: "OnNewConnection q conn (SetClientManager pm) = apfst SetClientManager (OnNewConnection q conn pm)"
proof (cases "map_of (pm_server pm) conn")
  case None
  obtain pm1 r where n: "new_session True conn pm = (pm1, r)" by (cases "new_session True conn pm")
  then have "new_session True conn (SetClientManager pm) = (SetClientManager pm1, r)" by (auto simp: new_session_def SetClientManager_def)
  moreover have "(SetClientManager pm1)\<lparr>pm_server := m\<rparr> = (pm1\<lparr>pm_server := m\<rparr>)\<lparr>pm_client_manager := True\<rparr>" for m by (simp add: SetClientManager_def)
  moreover have "pm_server (SetClientManager pm1) = pm_server pm1" "pm_server (SetClientManager pm) = pm_server pm" by (simp_all add: SetClientManager_def)
  ultimately show ?thesis using None n
    by (simp add: OnNewConnection_def client_flag_session) (simp add: SetClientManager_def)
qed (simp add: OnNewConnection_def SetClientManager_def)

lemma OnNewConnection_keeps:
  "pm_info_base (fst (OnNewConnection q conn pm)) = pm_info_base pm \<and> pm_client_manager (fst (OnNewConnection q conn pm)) = pm_client_manager pm
    \<and> map_of (pm_server (fst (OnNewConnection q conn pm))) conn \<noteq> None"
  by (auto simp: OnNewConnection_def new_session_def session_do_def on_session_def Let_def split: option.split prod.split)

lemma early_announce:
  assumes "conn_wf (SetClientManager pm)" "\<not> pm_client_manager pm" "ib_announces (pm_info_base pm) = []" "map_of (pm_server pm) conn = Some r"
  shows "snd (AnnounceInfoReceived q conn ai False pm) = Inl Null_Deref"
proof -
  define ib where "ib = fst (AddAnnounce (q_hash q) ai (pm_info_base pm))"
  have a: "AddAnnounce (q_hash q) ai (pm_info_base pm) = (ib, True)"
    by (auto simp: ib_def AddAnnounce_def Let_def mtry_def mat_def assms(3) split: prod.splits)
  let ?pm = "pm\<lparr>pm_info_base := ib\<rparr>"
  have wf: "pm_wf (SetClientManager pm)" using assms(1) by (simp add: conn_wf_def linked_def)
  have "msorted (pm_sessions ?pm)" using wf by (simp add: pm_wf_def SetClientManager_def)
  moreover have "\<forall>e \<in> set (all_sessions ?pm). map_of (pm_sessions ?pm) (snd e) \<noteq> None"
    using wf_session_live [OF wf] by (fastforce simp: live_of_def SetClientManager_def all_sessions_def)
  ultimately obtain log where "flood_announce conn ai False ?pm = pm_ok (?pm\<lparr>pm_log := log\<rparr>)"
    unfolding flood_announce_def using announces_flood.send_all by blast
  then show ?thesis using assms(2,4)
    by (simp add: AnnounceInfoReceived_def GetPeerSession_def a call_client_def catch_std_def)
qed

text \<open>C35. An announce that comes too early.  The constructor of the peering manager starts the server for peers, and only later
  \<open>main\<close> hands it the client manager.  If in between a peer connects and announces a track, the handler dereferences the
  client manager that is not there; the same announce after \<open>SetClientManager\<close> is handled.\<close>

theorem early_announce_null_deref:
  assumes "PeerManager_make hash q status cfg state = Some (pm, x)"
  shows "snd (AnnounceInfoReceived q conn ai False (fst (OnNewConnection q conn pm))) = Inl Null_Deref
    \<and> snd (AnnounceInfoReceived q conn ai False (SetClientManager (fst (OnNewConnection q conn pm)))) = Inr ()"
proof -
  note wf = PeerManager_make_wf [OF assms]
  let ?pm = "fst (OnNewConnection q conn pm)"
  have w: "conn_wf (SetClientManager ?pm)" using OnNewConnection_conn_wf [of "SetClientManager pm" q conn] wf by (simp add: OnNewConnection_flag)
  obtain r where "map_of (pm_server ?pm) conn = Some r" using OnNewConnection_keeps [of q conn pm] by blast
  then have "snd (AnnounceInfoReceived q conn ai False ?pm) = Inl Null_Deref"
    using early_announce [OF w] OnNewConnection_keeps [of q conn pm] wf by simp
  moreover have "pm_wf (SetClientManager ?pm)" using w by (simp add: conn_wf_def linked_def)
  ultimately show ?thesis using AnnounceInfoReceived_safe by blast
qed

theorem early_announce_null_deref_witness:
  "\<exists>pm. PeerManager_make sample_hash sample_quicr (\<lambda>_. T_Ready) sample_config State_init = Some (pm, Inr ())
    \<and> snd (AnnounceInfoReceived sample_quicr 20 (AnnounceInfo_make 3 [[1]] [2] True) False
        (fst (OnNewConnection sample_quicr 20 pm))) = Inl Null_Deref"
proof -
  have "\<exists>m \<ge> (0::nat). (\<lambda>_. T_Ready) m \<noteq> T_Connecting" by auto
  then obtain k where "await_server (\<lambda>_. T_Ready) 0 = Some k" unfolding await_server_iff [symmetric] by blast
  then obtain pm x where pm: "PeerManager_make sample_hash sample_quicr (\<lambda>_. T_Ready) sample_config State_init = Some (pm, x)"
    by (simp add: PeerManager_make_def) (metis surj_pair)
  then show ?thesis using early_announce_null_deref [OF pm] PeerManager_make_wf [OF pm] by blast
qed

end
