(* ===== verification/Signals.thy ===== *)
theory Signals
  imports Laps_Prelude
begin

text \<open>
  The end of the program: the signal handlers of \<open>src/src/signal_handler.h\<close> and the wait of the main thread
  (\<open>src/src/main.cc\<close>) for them.  Threads share the mutex, the termination flag and the condition variable of \<open>gvars\<close>.  A signal
  handler runs on top of the stack of the thread it is delivered to, at any point; signal delivery, handlers and
  the main thread are interleaved by a step relation.  A thread goes on only when the handlers on top of it have returned.

  Shown: the main thread leaves its wait only after a handler has set the flag, the first signal gives the
  reason; once the flag is set the main thread does leave, unless a handler interrupted the very thread that holds the mutex, and
  then it never does.
\<close>

section \<open>State\<close>

datatype thread = Main | Worker nat

abbreviation SIGHUP :: nat where "SIGHUP \<equiv> 1"
abbreviation SIGINT :: nat where "SIGINT \<equiv> 2"
abbreviation SIGQUIT :: nat where "SIGQUIT \<equiv> 3"

text \<open>Where the main thread is: before and after it takes the mutex, in \<open>cv.wait\<close> testing the flag or blocked (and
  whether it has been notified), behind the wait, at the end; or ended by a failed start.\<close>

datatype main_pc = P_Installed | P_Locked | P_Test | P_Blocked bool | P_Leaving | P_Returned | P_Failed

record gvars =
  main_mutex :: "thread option"       \<comment> \<open>the thread that holds it\<close>
  terminate :: bool
  termination_reason :: "string option"

text \<open>A handler on the stack of a thread: the signal, and whether it has taken the mutex.\<close>

type_synonym frame = "thread \<times> nat \<times> bool"

record process =
  pr_gvars :: gvars
  pr_pc :: main_pc
  pr_frames :: "frame list"           \<comment> \<open>the latest first\<close>
  pr_installed :: "nat list"

section \<open>Handlers\<close>

text \<open>\<open>installSignalHandlers\<close>: three calls of \<open>sigaction\<close>; a failure is only reported.\<close>

definition installSignalHandlers :: "(nat \<Rightarrow> bool) \<Rightarrow> nat list" where
  "installSignalHandlers sigaction_ok = filter sigaction_ok [SIGHUP, SIGINT, SIGQUIT]"

definition reason_of :: "nat \<Rightarrow> string" where
  "reason_of sig = (if sig = SIGINT then ''Interrupt signal received'' else if sig = SIGHUP then ''Hangup signal received''
     else if sig = SIGQUIT then ''Quit signal received'' else ''Unknown signal received'')"

text \<open>\<open>cv.notify_all()\<close>\<close>

definition notify_all :: "main_pc \<Rightarrow> main_pc" where
  "notify_all pc = (case pc of P_Blocked _ \<Rightarrow> P_Blocked True | _ \<Rightarrow> pc)"

text \<open>\<open>signalHandler\<close> from the point where it has the mutex.\<close>

definition signalHandler :: "thread \<Rightarrow> nat \<Rightarrow> process \<Rightarrow> process" where
  "signalHandler t sig p =
     (let p = p\<lparr>pr_gvars := (pr_gvars p)\<lparr>main_mutex := Some t\<rparr>\<rparr> in
      if terminate (pr_gvars p) then p
      else p\<lparr>pr_gvars := (pr_gvars p)\<lparr>terminate := True, termination_reason := Some (reason_of sig)\<rparr>, pr_pc := notify_all (pr_pc p)\<rparr>)"

definition set_mutex :: "thread option \<Rightarrow> process \<Rightarrow> process" where
  "set_mutex t p = p\<lparr>pr_gvars := (pr_gvars p)\<lparr>main_mutex := t\<rparr>\<rparr>"

abbreviation on_stack :: "thread \<Rightarrow> frame list \<Rightarrow> bool" where
  "on_stack t fs \<equiv> t \<in> fst ` set fs"

section \<open>Steps\<close>

inductive run_step :: "process \<Rightarrow> process \<Rightarrow> bool" where
  main_lock: "pr_pc p = P_Installed \<Longrightarrow> \<not> on_stack Main (pr_frames p) \<Longrightarrow> main_mutex (pr_gvars p) = None \<Longrightarrow>
    run_step p (set_mutex (Some Main) (p\<lparr>pr_pc := P_Locked\<rparr>))"
| main_started: "pr_pc p = P_Locked \<Longrightarrow> \<not> on_stack Main (pr_frames p) \<Longrightarrow> run_step p (p\<lparr>pr_pc := P_Test\<rparr>)"
| main_fails: "pr_pc p = P_Locked \<Longrightarrow> \<not> on_stack Main (pr_frames p) \<Longrightarrow> run_step p (set_mutex None (p\<lparr>pr_pc := P_Failed\<rparr>))"
| main_wait: "pr_pc p = P_Test \<Longrightarrow> \<not> on_stack Main (pr_frames p) \<Longrightarrow> \<not> terminate (pr_gvars p) \<Longrightarrow>
    run_step p (set_mutex None (p\<lparr>pr_pc := P_Blocked False\<rparr>))"
| main_wake: "pr_pc p = P_Blocked True \<Longrightarrow> \<not> on_stack Main (pr_frames p) \<Longrightarrow> main_mutex (pr_gvars p) = None \<Longrightarrow>
    run_step p (set_mutex (Some Main) (p\<lparr>pr_pc := P_Test\<rparr>))"
| main_leave: "pr_pc p = P_Test \<Longrightarrow> \<not> on_stack Main (pr_frames p) \<Longrightarrow> terminate (pr_gvars p) \<Longrightarrow> run_step p (p\<lparr>pr_pc := P_Leaving\<rparr>)"
| main_unlock: "pr_pc p = P_Leaving \<Longrightarrow> \<not> on_stack Main (pr_frames p) \<Longrightarrow> run_step p (set_mutex None (p\<lparr>pr_pc := P_Returned\<rparr>))"
| handler_lock: "pr_frames p = newer @ (t, sig, False) # older \<Longrightarrow> \<not> on_stack t newer \<Longrightarrow> main_mutex (pr_gvars p) = None \<Longrightarrow>
    run_step p (signalHandler t sig (p\<lparr>pr_frames := newer @ (t, sig, True) # older\<rparr>))"
| handler_return: "pr_frames p = newer @ (t, sig, True) # older \<Longrightarrow> \<not> on_stack t newer \<Longrightarrow>
    run_step p (set_mutex None (p\<lparr>pr_frames := newer @ older\<rparr>))"

text \<open>A signal arrives on a thread, unless that thread is handling the same signal.\<close>

definition deliver :: "thread \<Rightarrow> nat \<Rightarrow> process \<Rightarrow> process" where
  "deliver t sig p = p\<lparr>pr_frames := (t, sig, False) # pr_frames p\<rparr>"

definition can_deliver :: "thread \<Rightarrow> nat \<Rightarrow> process \<Rightarrow> bool" where
  "can_deliver t sig p \<longleftrightarrow> sig \<in> set (pr_installed p) \<and> (\<forall>held. (t, sig, held) \<notin> set (pr_frames p)) \<and> pr_pc p \<notin> {P_Returned, P_Failed}"

text \<open>Any wait on a condition variable may also end without a notification.  That happens to the program, it is no step that can be relied on.\<close>

inductive sig_step :: "process \<Rightarrow> process \<Rightarrow> bool" where
  sig_run: "run_step p p' \<Longrightarrow> sig_step p p'"
| sig_deliver: "can_deliver t sig p \<Longrightarrow> sig_step p (deliver t sig p)"
| sig_spurious: "pr_pc p = P_Blocked False \<Longrightarrow> sig_step p (p\<lparr>pr_pc := P_Blocked True\<rparr>)"

definition process_init :: "(nat \<Rightarrow> bool) \<Rightarrow> process" where
  "process_init sigaction_ok = \<lparr>pr_gvars = \<lparr>main_mutex = None, terminate = False, termination_reason = None\<rparr>, pr_pc = P_Installed,
     pr_frames = [], pr_installed = installSignalHandlers sigaction_ok\<rparr>"

inductive_cases run_stepE: "run_step p p'"
inductive_cases sig_stepE: "sig_step p p'"

section \<open>Invariant\<close>

definition holds_main :: "main_pc \<Rightarrow> bool" where
  "holds_main pc \<longleftrightarrow> pc \<in> {P_Locked, P_Test, P_Leaving}"

definition holders :: "frame list \<Rightarrow> thread list" where
  "holders fs = map fst (filter (\<lambda>f. snd (snd f)) fs)"

text \<open>The mutex has the one holder that the threads' positions say; the flag and the reason are set together; the wait is left
  with the flag set, and a blocked main thread has not missed the notification.\<close>

definition proc_inv :: "process \<Rightarrow> bool" where
  "proc_inv p \<longleftrightarrow> (if holds_main (pr_pc p) then [Main] else []) @ holders (pr_frames p) = (case main_mutex (pr_gvars p) of None \<Rightarrow> [] | Some t \<Rightarrow> [t])
     \<and> (termination_reason (pr_gvars p) = None \<longleftrightarrow> \<not> terminate (pr_gvars p))
     \<and> (pr_pc p \<in> {P_Leaving, P_Returned} \<longrightarrow> terminate (pr_gvars p))
     \<and> (pr_pc p = P_Blocked False \<longrightarrow> \<not> terminate (pr_gvars p))
     \<and> (\<forall>f \<in> set (pr_frames p). fst (snd f) \<in> set (pr_installed p))
     \<and> (\<forall>r. termination_reason (pr_gvars p) = Some r \<longrightarrow> r \<in> reason_of ` set (pr_installed p))"

lemma holders_simps [simp]:
  "holders [] = []" "holders (f # fs) = (if snd (snd f) then [fst f] else []) @ holders fs" "holders (fs @ gs) = holders fs @ holders gs"
  by (simp_all add: holders_def)

lemma set_mutex_simps [simp]:
  "pr_pc (set_mutex t p) = pr_pc p" "pr_frames (set_mutex t p) = pr_frames p" "pr_installed (set_mutex t p) = pr_installed p"
  "main_mutex (pr_gvars (set_mutex t p)) = t" "terminate (pr_gvars (set_mutex t p)) = terminate (pr_gvars p)"
  "termination_reason (pr_gvars (set_mutex t p)) = termination_reason (pr_gvars p)"
  by (simp_all add: set_mutex_def)

lemma notify_all_simps [simp]:
  "holds_main (notify_all pc) \<longleftrightarrow> holds_main pc" "notify_all pc = P_Leaving \<longleftrightarrow> pc = P_Leaving" "notify_all pc = P_Returned \<longleftrightarrow> pc = P_Returned"
  "notify_all pc = P_Failed \<longleftrightarrow> pc = P_Failed" "notify_all pc \<noteq> P_Blocked False"
  by (simp_all add: notify_all_def holds_main_def split: main_pc.split)

lemma signalHandler_simps [simp]:
  "pr_frames (signalHandler t sig p) = pr_frames p" "pr_installed (signalHandler t sig p) = pr_installed p" "main_mutex (pr_gvars (signalHandler t sig p)) = Some t" "terminate (pr_gvars (signalHandler t sig p))"
  "pr_pc (signalHandler t sig p) = (if terminate (pr_gvars p) then pr_pc p else notify_all (pr_pc p))"
  "termination_reason (pr_gvars (signalHandler t sig p)) = (if terminate (pr_gvars p) then termination_reason (pr_gvars p) else Some (reason_of sig))"
  by (simp_all add: signalHandler_def Let_def)

lemma run_step_inv: "run_step p p' \<Longrightarrow> proc_inv p \<Longrightarrow> proc_inv p'"
proof (induction rule: run_step.induct)
  case (handler_lock p newer t sig older)
  then show ?case by (auto simp: proc_inv_def split: if_splits)
next
  case (handler_return p newer t sig older)
  then have "\<not> holds_main (pr_pc p)" "holders newer = []" "holders older = []"
    by (auto simp: proc_inv_def append_eq_Cons_conv split: option.splits if_splits)
  then show ?case using handler_return by (simp add: proc_inv_def)
qed (simp_all add: proc_inv_def holds_main_def split: option.splits)

lemma proc_inv_init: "proc_inv (process_init ok)"
  by (simp add: proc_inv_def process_init_def holds_main_def)

lemma sig_steps_inv: "sig_step\<^sup>*\<^sup>* p p' \<Longrightarrow> proc_inv p \<Longrightarrow> proc_inv p'"
proof (induction rule: rtranclp_induct)
  case (step y z)
  have "proc_inv (deliver t sig y)" if "proc_inv y" "can_deliver t sig y" for t sig using that by (simp add: proc_inv_def deliver_def can_deliver_def)
  moreover have "proc_inv (y\<lparr>pr_pc := P_Blocked True\<rparr>)" if "proc_inv y" "pr_pc y = P_Blocked False" using that by (simp add: proc_inv_def holds_main_def)
  ultimately show ?case using step run_step_inv by (blast elim: sig_stepE)
qed simp

section \<open>A thread that waits for itself\<close>

text \<open>A handler on top of a handler that holds the mutex, on the same thread.\<close>

fun covered :: "frame list \<Rightarrow> bool" where
  "covered [] = False"
| "covered (f # fs) = (fst f \<in> set (holders fs) \<or> covered fs)"

definition self_locked :: "process \<Rightarrow> bool" where
  "self_locked p \<longleftrightarrow> holds_main (pr_pc p) \<and> on_stack Main (pr_frames p) \<or> covered (pr_frames p)"

lemma covered_append: "covered (fs @ gs) \<longleftrightarrow> covered fs \<or> covered gs \<or> (\<exists>f \<in> set fs. fst f \<in> set (holders gs))"
  by (induction fs) auto

lemma covered_holders: "covered fs \<Longrightarrow> holders fs \<noteq> []"
  by (induction fs) auto

lemma deliver_self_locked:
  assumes "proc_inv p" "\<not> self_locked p"
  shows "self_locked (deliver t sig p) \<longleftrightarrow> main_mutex (pr_gvars p) = Some t"
proof -
  have "self_locked (deliver t sig p) \<longleftrightarrow> t \<in> set ((if holds_main (pr_pc p) then [Main] else []) @ holders (pr_frames p))"
    using assms(2) by (auto simp: self_locked_def deliver_def)
  also have "\<dots> \<longleftrightarrow> main_mutex (pr_gvars p) = Some t"
    using assms(1) unfolding proc_inv_def by (auto split: option.splits)
  finally show ?thesis .
qed

lemma self_locked_holder:
  assumes "proc_inv p" "self_locked p"
  shows "main_mutex (pr_gvars p) \<noteq> None"
    and "holds_main (pr_pc p) \<Longrightarrow> on_stack Main (pr_frames p)" and "holds_main (pr_pc p) \<Longrightarrow> holders (pr_frames p) = []"
  using assms covered_holders by (auto simp: proc_inv_def self_locked_def split: option.splits if_splits)

text \<open>Nothing moves any more.\<close>

lemma self_locked_stuck:
  assumes "proc_inv p" "self_locked p"
  shows "\<not> run_step p p'"
proof
  assume "run_step p p'"
  note h = self_locked_holder [OF assms]
  from \<open>run_step p p'\<close> show False
  proof cases
    case (handler_return newer t sig older)
    then have n: "\<not> holds_main (pr_pc p)" using h(3) by auto
    then have "holders newer = []" "holders older = []"
      using assms(1) handler_return by (auto simp: proc_inv_def append_eq_Cons_conv split: option.splits)
    moreover have "covered (pr_frames p)" using assms(2) n by (simp add: self_locked_def)
    ultimately show ?thesis using handler_return covered_holders by (auto simp: covered_append)
  qed (use h in \<open>auto simp: holds_main_def\<close>)
qed

lemma self_locked_forever:
  assumes "sig_step\<^sup>*\<^sup>* p p'" "proc_inv p" "self_locked p"
  shows "self_locked p' \<and> notify_all (pr_pc p') = notify_all (pr_pc p) \<and> proc_inv p'"
  using assms
proof (induction rule: rtranclp_induct)
  case (step y z)
  then have y: "self_locked y" "notify_all (pr_pc y) = notify_all (pr_pc p)" "proc_inv y" by auto
  have "proc_inv z" using sig_steps_inv [of y z] step.hyps(2) y(3) by blast
  from step.hyps(2) show ?case
  proof cases
    case sig_run
    then show ?thesis using self_locked_stuck [OF y(3,1)] by blast
  next
    case (sig_deliver t sig)
    then show ?thesis using y \<open>proc_inv z\<close> by (auto simp: self_locked_def deliver_def)
  next
    case sig_spurious
    then show ?thesis using y \<open>proc_inv z\<close> by (auto simp: self_locked_def holds_main_def notify_all_def)
  qed
qed simp

section \<open>The end\<close>

lemma run_step_flag: "run_step p p' \<Longrightarrow> terminate (pr_gvars p) \<Longrightarrow>
    terminate (pr_gvars p') \<and> termination_reason (pr_gvars p') = termination_reason (pr_gvars p)"
  by (induction rule: run_step.induct) simp_all

primrec pc_rank :: "main_pc \<Rightarrow> nat" where
  "pc_rank P_Installed = 5"
| "pc_rank P_Locked = 4"
| "pc_rank (P_Blocked _) = 3"
| "pc_rank P_Test = 2"
| "pc_rank P_Leaving = 1"
| "pc_rank P_Returned = 0"
| "pc_rank P_Failed = 0"

definition steps_left :: "process \<Rightarrow> nat" where
  "steps_left p = sum_list (map (\<lambda>f. if snd (snd f) then 1 else 2) (pr_frames p)) + pc_rank (pr_pc p)"

lemma run_step_rank: "run_step p p' \<Longrightarrow> terminate (pr_gvars p) \<Longrightarrow> steps_left p' < steps_left p"
  by (induction rule: run_step.induct) (simp_all add: steps_left_def)

text \<open>The latest handler can always go on, and without handlers the main thread can.\<close>

lemma can_run:
  assumes inv: "proc_inv p" and free: "\<not> self_locked p" and t: "terminate (pr_gvars p)" and pc: "pr_pc p \<notin> {P_Returned, P_Failed}"
  shows "\<exists>p'. run_step p p'"
proof (cases "main_mutex (pr_gvars p)")
  case None
  then have n: "holders (pr_frames p) = []" "\<not> holds_main (pr_pc p)" using inv by (auto simp: proc_inv_def split: if_splits)
  show ?thesis
  proof (cases "pr_frames p")
    case Nil
    have "pr_pc p \<noteq> P_Blocked False" using inv t by (auto simp: proc_inv_def)
    then have "pr_pc p = P_Installed \<or> pr_pc p = P_Blocked True" using n(2) pc by (cases "pr_pc p") (auto simp: holds_main_def)
    then show ?thesis using Nil None main_lock [of p] main_wake [of p] by auto
  next
    case (Cons f fs)
    obtain t sig h where f: "f = (t, sig, h)" by (metis prod_cases3)
    have "h = False" using n(1) Cons f by auto
    then show ?thesis using handler_lock [of p "[]" t sig fs] Cons f None by auto
  qed
next
  case (Some t)
  show ?thesis
  proof (cases "holds_main (pr_pc p)")
    case True
    then have "\<not> on_stack Main (pr_frames p)" using free by (simp add: self_locked_def)
    then show ?thesis using True t main_started [of p] main_leave [of p] main_unlock [of p] by (auto simp: holds_main_def)
  next
    case False
    then have "holders (pr_frames p) = [t]" using inv Some by (simp add: proc_inv_def)
    then have "(t, True) \<in> (\<lambda>f. (fst f, snd (snd f))) ` set (pr_frames p)" by (force simp: holders_def filter_eq_Cons_iff map_eq_Cons_conv)
    then obtain sig newer older where f: "pr_frames p = newer @ (t, sig, True) # older" by (auto dest!: split_list)
    then have "\<not> on_stack t newer" using free by (auto simp: self_locked_def covered_append)
    then show ?thesis using handler_return [OF f] by blast
  qed
qed

lemma run_step_free:
  assumes "run_step p p'" "proc_inv p" "\<not> self_locked p"
  shows "\<not> self_locked p'"
  using assms(1)
proof cases
  case (handler_lock newer t sig older)
  then have "holders newer = []" "holders older = []" "\<not> holds_main (pr_pc p)" using assms(2) by (auto simp: proc_inv_def split: if_splits)
  then show ?thesis using handler_lock covered_holders [of newer] covered_holders [of older] by (auto simp: self_locked_def covered_append)
next
  case (handler_return newer t sig older)
  then have "holders newer = []" "holders older = []" "\<not> holds_main (pr_pc p)"
    using assms(2) by (auto simp: proc_inv_def append_eq_Cons_conv split: option.splits if_splits)
  then show ?thesis using handler_return covered_holders [of "newer @ older"] by (auto simp: self_locked_def)
qed (use assms(3) in \<open>auto simp: self_locked_def holds_main_def\<close>)

lemma run_steps_keep:
  assumes "run_step\<^sup>*\<^sup>* p p'" "proc_inv p" "\<not> self_locked p" "terminate (pr_gvars p)"
  shows "proc_inv p' \<and> \<not> self_locked p' \<and> terminate (pr_gvars p') \<and> termination_reason (pr_gvars p') = termination_reason (pr_gvars p)"
  using assms by (induction rule: rtranclp_induct) (use run_step_inv run_step_free run_step_flag in \<open>fastforce+\<close>)

lemma no_endless_run:
  assumes "terminate (pr_gvars (f 0))" "\<And>i. run_step (f i) (f (Suc i))"
  shows False
proof -
  have t: "terminate (pr_gvars (f i))" for i by (induction i) (use assms run_step_flag in blast)+
  have "steps_left (f i) + i \<le> steps_left (f 0)" for i
  proof (induction i)
    case (Suc i)
    then show ?case using run_step_rank [OF assms(2) t, of i] by simp
  qed simp
  from this [of "Suc (steps_left (f 0))"] show False by simp
qed

text \<open>C22. The program ends after a signal, and only then.  In every state that the start of \<open>main\<close>, the signals delivered to any threads, and
  their handlers can reach: if the main thread has returned, a handler has set the flag and the reason is that of
  an installed signal.  Once the flag is set (and no thread waits for itself) the program can not run on for ever without new signals, and where it stops,
  the main thread has returned or its start had failed; the reason is then still the one of the first signal.\<close>

theorem signal_ends_program:
  assumes "sig_step\<^sup>*\<^sup>* (process_init sigaction_ok) p"
  shows "(pr_pc p = P_Returned \<longrightarrow> terminate (pr_gvars p) \<and> (\<exists>sig \<in> set (pr_installed p). termination_reason (pr_gvars p) = Some (reason_of sig)))
    \<and> (terminate (pr_gvars p) \<and> \<not> self_locked p \<longrightarrow>
        (\<nexists>f. f 0 = p \<and> (\<forall>i. run_step (f i) (f (Suc i))))
        \<and> (\<forall>p'. run_step\<^sup>*\<^sup>* p p' \<and> (\<nexists>p''. run_step p' p'') \<longrightarrow>
            pr_pc p' \<in> {P_Returned, P_Failed} \<and> termination_reason (pr_gvars p') = termination_reason (pr_gvars p)))"
proof -
  have inv: "proc_inv p" using sig_steps_inv [OF assms proc_inv_init] .
  then have "terminate (pr_gvars p) \<and> (\<exists>sig \<in> set (pr_installed p). termination_reason (pr_gvars p) = Some (reason_of sig))" if "pr_pc p = P_Returned"
    using that unfolding proc_inv_def by auto
  moreover have "pr_pc p' \<in> {P_Returned, P_Failed}" if "run_step\<^sup>*\<^sup>* p p'" "\<nexists>p''. run_step p' p''" "terminate (pr_gvars p)" "\<not> self_locked p" for p'
    using can_run [of p'] run_steps_keep [OF that(1) inv that(4,3)] that(2) by blast
  ultimately show ?thesis using no_endless_run run_steps_keep [OF _ inv] by blast
qed

text \<open>C34. A signal can make the program wait for itself.  When a signal is delivered to a thread in a state of the program where all
  was well, all stays well if another thread or none holds the mutex.  If the thread holds it (the main
  thread does so during the whole start of the relay and whenever it tests the flag; a handler does so until it returns), its
  handler locks the mutex a second time: no thread ever moves again, whatever signals follow (a blocked main thread may be
  notified, but it does not get on), and the main thread does not return.\<close>

theorem signal_self_deadlock:
  assumes "sig_step\<^sup>*\<^sup>* (process_init sigaction_ok) p" "can_deliver t sig p" "\<not> self_locked p"
  shows "if main_mutex (pr_gvars p) = Some t
    then \<forall>p'. sig_step\<^sup>*\<^sup>* (deliver t sig p) p' \<longrightarrow>
      notify_all (pr_pc p') = notify_all (pr_pc p) \<and> pr_pc p' \<noteq> P_Returned \<and> (\<nexists>p''. run_step p' p'')
    else \<not> self_locked (deliver t sig p)"
proof -
  have inv: "proc_inv p" using sig_steps_inv [OF assms(1) proc_inv_init] .
  have inv': "proc_inv (deliver t sig p)" using sig_steps_inv [OF r_into_rtranclp [of sig_step] inv] sig_deliver [OF assms(2)] by blast
  have stuck: "notify_all (pr_pc p') = notify_all (pr_pc p) \<and> pr_pc p' \<noteq> P_Returned \<and> (\<nexists>p''. run_step p' p'')"
    if "self_locked (deliver t sig p)" "sig_step\<^sup>*\<^sup>* (deliver t sig p) p'" for p'
    using self_locked_forever [OF that(2) inv' that(1)] self_locked_stuck [of p'] assms(2) by (auto simp: deliver_def can_deliver_def notify_all_def split: main_pc.splits)
  note l = deliver_self_locked [OF inv assms(3), of t sig]
  show ?thesis
  proof (cases "main_mutex (pr_gvars p) = Some t")
    case True
    then have "self_locked (deliver t sig p)" using l by simp
    then show ?thesis unfolding if_P [OF True] using stuck by blast
  qed (use l in simp)
qed

text \<open>An interrupt on the main thread while it starts the relay, and one on another thread while it waits.\<close>

lemma started_up: "sig_step\<^sup>*\<^sup>* (process_init (\<lambda>_. True)) (set_mutex (Some Main) ((process_init (\<lambda>_. True))\<lparr>pr_pc := P_Locked\<rparr>))"
  by (rule r_into_rtranclp, rule sig_run, rule main_lock) (simp_all add: process_init_def)

theorem signal_self_deadlock_witness:
  "\<exists>p. sig_step\<^sup>*\<^sup>* (process_init (\<lambda>_. True)) p \<and> (\<forall>p'. sig_step\<^sup>*\<^sup>* (deliver Main SIGINT p) p' \<longrightarrow> notify_all (pr_pc p') = P_Locked)"
proof -
  let ?p = "set_mutex (Some Main) ((process_init (\<lambda>_. True))\<lparr>pr_pc := P_Locked\<rparr>)"
  have "can_deliver Main SIGINT ?p" "\<not> self_locked ?p" by (simp_all add: can_deliver_def self_locked_def process_init_def installSignalHandlers_def)
  then show ?thesis using signal_self_deadlock [OF started_up, of Main SIGINT] started_up by (auto simp: notify_all_def)
qed

definition interrupted :: process where
  "interrupted = signalHandler (Worker 1) SIGINT (set_mutex None ((deliver (Worker 1) SIGINT (process_init (\<lambda>_. True)))
     \<lparr>pr_pc := P_Blocked False, pr_frames := [(Worker 1, SIGINT, True)]\<rparr>))"

lemma interrupted_reached: "sig_step\<^sup>*\<^sup>* (process_init (\<lambda>_. True)) interrupted"
proof -
  let ?p0 = "process_init (\<lambda>_. True)" and ?locked = "set_mutex (Some Main) ((process_init (\<lambda>_. True))\<lparr>pr_pc := P_Locked\<rparr>)"
  let ?test = "?locked\<lparr>pr_pc := P_Test\<rparr>"
  let ?wait = "set_mutex None (?test\<lparr>pr_pc := P_Blocked False\<rparr>)"
  have "sig_step\<^sup>*\<^sup>* ?p0 ?locked" by (rule started_up)
  also have "sig_step ?locked ?test" by (rule sig_run, rule main_started) (simp_all add: process_init_def)
  also have "sig_step ?test ?wait" by (rule sig_run, rule main_wait) (simp_all add: process_init_def)
  also have "sig_step ?wait (deliver (Worker 1) SIGINT ?wait)"
    by (rule sig_deliver) (simp add: can_deliver_def process_init_def installSignalHandlers_def)
  also have "sig_step (deliver (Worker 1) SIGINT ?wait)
      (signalHandler (Worker 1) SIGINT ((deliver (Worker 1) SIGINT ?wait)\<lparr>pr_frames := [] @ (Worker 1, SIGINT, True) # []\<rparr>))"
    by (rule sig_run, rule handler_lock) (simp_all add: deliver_def process_init_def)
  finally show ?thesis by (simp add: interrupted_def deliver_def set_mutex_def process_init_def)
qed

lemma comes_to_rest: "terminate (pr_gvars p) \<Longrightarrow> \<exists>p'. run_step\<^sup>*\<^sup>* p p' \<and> (\<nexists>p''. run_step p' p'')"
proof (induction "steps_left p" arbitrary: p rule: less_induct)
  case less
  show ?case
  proof (cases "\<exists>q. run_step p q")
    case True
    then obtain q where q: "run_step p q" by blast
    then obtain p' where "run_step\<^sup>*\<^sup>* q p'" "\<nexists>p''. run_step p' p''"
      using less.hyps [OF run_step_rank [OF q less.prems]] run_step_flag [OF q less.prems] by blast
    then show ?thesis using q by (meson converse_rtranclp_into_rtranclp)
  qed blast
qed

theorem signal_ends_program_witness:
  "\<exists>p'. run_step\<^sup>*\<^sup>* interrupted p' \<and> (\<nexists>p''. run_step p' p'')
    \<and> pr_pc p' \<in> {P_Returned, P_Failed} \<and> termination_reason (pr_gvars p') = Some ''Interrupt signal received''"
proof -
  have i: "terminate (pr_gvars interrupted)" "\<not> self_locked interrupted" "termination_reason (pr_gvars interrupted) = Some ''Interrupt signal received''"
    by (simp_all add: interrupted_def self_locked_def holds_main_def process_init_def deliver_def set_mutex_def reason_of_def signalHandler_def notify_all_def)
  obtain p' where "run_step\<^sup>*\<^sup>* interrupted p'" "\<nexists>p''. run_step p' p''" using comes_to_rest [OF i(1)] by blast
  then show ?thesis using signal_ends_program [OF interrupted_reached] i by metis
qed

end
